(* ===== verification/Prelude.thy ===== *)
theory Prelude
  imports Main "HOL-Library.Word" "HOL-Library.AList" "HOL-Library.Multiset"
    "HOL-Library.List_Lexorder" "HOL-Library.Char_ord"
begin

text \<open>
  Shared vocabulary of the development: the machine integer types, the exceptions
  the server code throws and the shape of an operation that may throw, the two map
  containers of the code (\<^verbatim>\<open>std::unordered_map\<close> as an association list whose order is the
  iteration order, \<^verbatim>\<open>std::map\<close> as an association list sorted by key), and counting lemmas
  over association lists, on which the slot accounting of the scheduler rests.
\<close>

named_theorems alist_simps "lookup and key facts of association lists"
named_theorems omap_simps "lookup and order facts of sorted maps"
named_theorems count_simps "how updates change the number of matching entries"

type_synonym u8 = "8 word"
type_synonym u32 = "32 word"
type_synonym u64 = "64 word"

text \<open>A \<^verbatim>\<open>system_clock::time_point\<close> is its tick count (nanoseconds) since the epoch.\<close>

type_synonym time_point = int

section \<open>Exceptions\<close>

text \<open>The exception classes the code throws or lets through, with their message.\<close>

datatype exn =
    Runtime_error string
  | Invalid_argument string
  | Logic_error string
  | Length_error string
  | Json_error string

text \<open>
  A C++ function that may throw and that changes an object: the outcome (\<open>Inl\<close> an
  exception) beside the state it leaves, because an exception does not undo the changes
  made before it.
\<close>

type_synonym ('s, 'a) op = "'s \<Rightarrow> (exn + 'a) \<times> 's"

text \<open>Sequencing of computations that may throw, for code that changes no object.\<close>

fun rbind :: "exn + 'a \<Rightarrow> ('a \<Rightarrow> exn + 'b) \<Rightarrow> exn + 'b" where
  "rbind (Inl e) f = Inl e"
| "rbind (Inr x) f = f x"

lemma rbind_Inr_iff: "rbind m f = Inr y \<longleftrightarrow> (\<exists>x. m = Inr x \<and> f x = Inr y)"
  by (cases m) auto

lemma rbind_Inr_E:
  assumes "rbind m f = Inr y"
  obtains x where "m = Inr x" "f x = Inr y"
  using assms by (auto simp: rbind_Inr_iff)

text \<open>The first error of a list of computations, or all their results.\<close>

fun rmap :: "('a \<Rightarrow> exn + 'b) \<Rightarrow> 'a list \<Rightarrow> exn + 'b list" where
  "rmap f [] = Inr []"
| "rmap f (x # xs) = rbind (f x) (\<lambda>y. rbind (rmap f xs) (\<lambda>ys. Inr (y # ys)))"

lemma rmap_all_Inr: "(\<And>x. x \<in> set xs \<Longrightarrow> f x = Inr (g x)) \<Longrightarrow> rmap f xs = Inr (map g xs)"
  by (induction xs) auto

lemma rmap_Inr_list_all2: "rmap f xs = Inr ys \<Longrightarrow> list_all2 (\<lambda>x y. f x = Inr y) xs ys"
  by (induction xs arbitrary: ys) (auto simp: rbind_Inr_iff)

section \<open>Iteration-ordered maps (unordered_map)\<close>

definition al_contains :: "('k \<times> 'v) list \<Rightarrow> 'k \<Rightarrow> bool" where
  "al_contains m k \<longleftrightarrow> map_of m k \<noteq> None"

lemma al_contains_iff [simp]: "al_contains m k \<longleftrightarrow> k \<in> fst ` set m"
  by (simp add: al_contains_def map_of_eq_None_iff)

lemma map_of_al_update [simp, alist_simps]:
  "map_of (AList.update k v m) = (map_of m)(k \<mapsto> v)"
  by (rule AList.update_conv')

lemma map_of_al_delete [simp, alist_simps]:
  "map_of (AList.delete k m) = (map_of m)(k := None)"
  by (rule AList.delete_conv')

lemma distinct_al_update [simp, alist_simps]:
  "distinct (map fst m) \<Longrightarrow> distinct (map fst (AList.update k v m))"
  by (rule AList.distinct_update)

lemma distinct_al_delete [simp, alist_simps]:
  "distinct (map fst m) \<Longrightarrow> distinct (map fst (AList.delete k m))"
  by (rule AList.distinct_delete)

lemma distinct_al_filter:
  "distinct (map fst m) \<Longrightarrow> distinct (map fst (filter P m))"
  by (induction m) auto

lemma map_of_al_filter:
  "distinct (map fst m) \<Longrightarrow>
   map_of (filter P m) k = (case map_of m k of None \<Rightarrow> None | Some v \<Rightarrow> if P (k, v) then Some v else None)"
proof (induction m)
  case Nil
  then show ?case by simp
next
  case (Cons p m)
  obtain k' v' where p: "p = (k', v')" by (cases p)
  from Cons.prems p have nin: "map_of m k' = None"
    by (simp add: map_of_eq_None_iff)
  from Cons p nin show ?case
    by (auto split: option.splits)
qed

lemma map_of_al_map_val:
  "map_of (map (\<lambda>(k, v). (k, f k v)) m) k = map_option (f k) (map_of m k)"
  by (induction m) auto

lemma keys_al_map_val [simp]:
  "map fst (map (\<lambda>(k, v). (k, f k v)) m) = map fst m"
  by (induction m) auto

section \<open>Counting entries\<close>

text \<open>How many values of a map satisfy a predicate.\<close>

definition count_vals :: "('v \<Rightarrow> bool) \<Rightarrow> ('k \<times> 'v) list \<Rightarrow> nat" where
  "count_vals P m = length (filter (\<lambda>(k, v). P v) m)"

lemma count_vals_Nil [simp, count_simps]: "count_vals P [] = 0"
  by (simp add: count_vals_def)

lemma count_vals_Cons [count_simps]:
  "count_vals P ((k, v) # m) = (if P v then 1 else 0) + count_vals P m"
  by (simp add: count_vals_def)

lemma count_vals_update_new [count_simps]:
  "map_of m k = None \<Longrightarrow>
   count_vals P (AList.update k v m) = count_vals P m + (if P v then 1 else 0)"
  by (induction m) (auto simp: count_vals_def map_of_eq_None_iff)

text \<open>Replacing the value of a present key: the old one leaves the count, the new one enters.\<close>

lemma count_vals_update_old:
  assumes "map_of m k = Some v0"
  shows "count_vals P (AList.update k v m) + (if P v0 then 1 else 0)
       = count_vals P m + (if P v then 1 else 0)"
  using assms by (induction m) (auto simp: count_vals_def)

lemma count_vals_update_same:
  "map_of m k = Some v0 \<Longrightarrow> P v = P v0 \<Longrightarrow> count_vals P (AList.update k v m) = count_vals P m"
  using count_vals_update_old [of m k v0 P v] by (simp split: if_splits)

lemma count_vals_update_enter:
  "map_of m k = Some v0 \<Longrightarrow> P v \<Longrightarrow> \<not> P v0 \<Longrightarrow>
   count_vals P (AList.update k v m) = Suc (count_vals P m)"
  using count_vals_update_old [of m k v0 P v] by simp

lemma count_vals_update_leave:
  "map_of m k = Some v0 \<Longrightarrow> \<not> P v \<Longrightarrow> P v0 \<Longrightarrow>
   count_vals P m = Suc (count_vals P (AList.update k v m))"
  using count_vals_update_old [of m k v0 P v] by simp

lemma count_vals_filter_irrelevant:
  assumes "\<And>k v. (k, v) \<in> set m \<Longrightarrow> \<not> Q (k, v) \<Longrightarrow> \<not> P v"
  shows "count_vals P (filter Q m) = count_vals P m"
  using assms by (induction m) (auto simp: count_vals_def)

lemma count_vals_pos:
  "map_of m k = Some v \<Longrightarrow> P v \<Longrightarrow> 0 < count_vals P m"
  by (induction m) (auto simp: count_vals_def split: if_splits)

lemma count_vals_zero_iff:
  "count_vals P m = 0 \<longleftrightarrow> (\<forall>(k, v) \<in> set m. \<not> P v)"
  by (induction m) (auto simp: count_vals_def)

lemma count_vals_le_length: "count_vals P m \<le> length m"
  by (simp add: count_vals_def)

section \<open>Sorted maps (std::map)\<close>

fun omap_set :: "'k::linorder \<Rightarrow> 'v \<Rightarrow> ('k \<times> 'v) list \<Rightarrow> ('k \<times> 'v) list" where
  "omap_set k v [] = [(k, v)]"
| "omap_set k v ((k', v') # m) =
     (if k < k' then (k, v) # (k', v') # m
      else if k = k' then (k, v) # m
      else (k', v') # omap_set k v m)"

definition omap_wf :: "('k::linorder \<times> 'v) list \<Rightarrow> bool" where
  "omap_wf m \<longleftrightarrow> sorted_wrt (<) (map fst m)"

lemma keys_omap_set [omap_simps]: "fst ` set (omap_set k v m) = insert k (fst ` set m)"
  by (induction k v m rule: omap_set.induct) auto

lemma omap_wf_Nil [simp, omap_simps]: "omap_wf []"
  by (simp add: omap_wf_def)

lemma omap_wf_Cons [omap_simps]:
  "omap_wf ((k, v) # m) \<longleftrightarrow> (\<forall>k' \<in> fst ` set m. k < k') \<and> omap_wf m"
  by (simp add: omap_wf_def)

lemma omap_wf_set [omap_simps]: "omap_wf m \<Longrightarrow> omap_wf (omap_set k v m)"
proof (induction k v m rule: omap_set.induct)
  case (1 k v)
  then show ?case by (simp add: omap_wf_Cons)
next
  case (2 k v k' v' m)
  then show ?case
    by (auto simp: omap_wf_Cons keys_omap_set simp del: set_map)
qed

lemma map_of_omap_set_any: "map_of (omap_set k v m) = (map_of m)(k \<mapsto> v)"
  by (induction k v m rule: omap_set.induct) (auto simp: fun_eq_iff)

lemma map_of_omap_set [omap_simps]:
  "omap_wf m \<Longrightarrow> map_of (omap_set k v m) = (map_of m)(k \<mapsto> v)"
proof (induction k v m rule: omap_set.induct)
  case (1 k v)
  then show ?case by simp
next
  case (2 k v k' v' m)
  then show ?case
    by (auto simp: omap_wf_Cons fun_eq_iff)
qed

lemma omap_wf_delete [omap_simps]: "omap_wf m \<Longrightarrow> omap_wf (AList.delete k m)"
  by (induction m) (auto simp: omap_wf_Cons AList.delete_eq omap_wf_def image_iff sorted_wrt_append)

lemma omap_wf_distinct: "omap_wf m \<Longrightarrow> distinct (map fst m)"
  by (auto simp: omap_wf_def strict_sorted_iff)

section \<open>The contract of a map container\<close>

text \<open>
  What client code relies on, whichever container is behind it: a lookup after a store or
  an erase, and that both keep the representation invariant. Both containers provide it.
\<close>

locale map_container =
  fixes put :: "'k \<Rightarrow> 'v \<Rightarrow> ('k \<times> 'v) list \<Rightarrow> ('k \<times> 'v) list"
    and erase :: "'k \<Rightarrow> ('k \<times> 'v) list \<Rightarrow> ('k \<times> 'v) list"
    and wf :: "('k \<times> 'v) list \<Rightarrow> bool"
  assumes wf_empty: "wf []"
    and wf_put: "wf m \<Longrightarrow> wf (put k v m)"
    and wf_erase: "wf m \<Longrightarrow> wf (erase k m)"
    and get_put: "wf m \<Longrightarrow> map_of (put k v m) = (map_of m)(k \<mapsto> v)"
    and get_erase: "wf m \<Longrightarrow> map_of (erase k m) = (map_of m)(k := None)"
    and wf_keys: "wf m \<Longrightarrow> distinct (map fst m)"
begin

lemma wf_put_all: "wf m \<Longrightarrow> wf (fold (\<lambda>(k, v). put k v) kvs m)"
  by (induction kvs arbitrary: m) (auto simp: wf_put)

lemma get_put_all:
  "wf m \<Longrightarrow> map_of (fold (\<lambda>(k, v). put k v) kvs m) = map_of m ++ map_of (rev kvs)"
proof (induction kvs arbitrary: m)
  case Nil
  then show ?case by simp
next
  case (Cons p kvs)
  obtain k v where "p = (k, v)" by (cases p)
  with Cons show ?case
    by (simp add: wf_put get_put fun_eq_iff map_add_def split: option.splits)
qed

lemma put_all_distinct_lookup:
  assumes "wf m" and "distinct (map fst kvs)" and "(k, v) \<in> set kvs"
  shows "map_of (fold (\<lambda>(k, v). put k v) kvs m) k = Some v"
proof -
  have "map_of (rev kvs) k = Some v"
    using assms(2,3) by (simp add: rev_map flip: distinct_rev [of "map fst kvs"])
  then show ?thesis
    using assms(1) by (simp add: get_put_all)
qed

end

interpretation umap: map_container AList.update AList.delete "\<lambda>m. distinct (map fst m)"
  by unfold_locales (auto simp: AList.update_conv' AList.delete_conv')

interpretation omap: map_container omap_set AList.delete "omap_wf :: ('k::linorder \<times> 'v) list \<Rightarrow> bool"
  by unfold_locales
    (auto simp: omap_simps AList.delete_conv' omap_wf_distinct)

section \<open>Strings\<close>

text \<open>
  \<^verbatim>\<open>std::string::c_str\<close> read back as a C string: everything up to the first NUL byte.
\<close>

definition c_string :: "string \<Rightarrow> string" where
  "c_string s = takeWhile (\<lambda>c. c \<noteq> CHR 0x00) s"

definition nul_free :: "string \<Rightarrow> bool" where
  "nul_free s \<longleftrightarrow> CHR 0x00 \<notin> set s"

lemma c_string_nul_free [simp]: "nul_free s \<Longrightarrow> c_string s = s"
  by (auto simp: c_string_def nul_free_def takeWhile_eq_all_conv)

definition nullable :: "string \<Rightarrow> string option" where
  "nullable s = (if s = [] then None else Some s)"

definition coalesce :: "string option \<Rightarrow> string" where
  "coalesce s = (case s of None \<Rightarrow> [] | Some x \<Rightarrow> x)"

lemma coalesce_nullable [simp]: "coalesce (nullable s) = s"
  by (simp add: coalesce_def nullable_def)

lemma c_string_idem [simp]: "c_string (c_string s) = c_string s"
  by (simp add: c_string_def)

lemma nul_free_Nil [simp]: "nul_free []"
  by (simp add: nul_free_def)

fun hex_digit :: "nat \<Rightarrow> char" where
  "hex_digit n = (if n < 10 then char_of (48 + n) else char_of (87 + n))"

text \<open>Unsigned output with \<^verbatim>\<open>std::hex\<close>: lower case, no leading zeros.\<close>

fun hex_of_nat :: "nat \<Rightarrow> string" where
  "hex_of_nat n = (if n < 16 then [hex_digit n] else hex_of_nat (n div 16) @ [hex_digit (n mod 16)])"

text \<open>\<^verbatim>\<open>std::to_string\<close> of an unsigned integer.\<close>

fun dec_of_nat :: "nat \<Rightarrow> string" where
  "dec_of_nat n = (if n < 10 then [char_of (48 + n)] else dec_of_nat (n div 10) @ [char_of (48 + n mod 10)])"

declare hex_of_nat.simps [simp del] dec_of_nat.simps [simp del]

lemma hex_of_nat_nonempty [simp]: "hex_of_nat n \<noteq> []"
  by (subst hex_of_nat.simps) simp

lemma dec_of_nat_nonempty [simp]: "dec_of_nat n \<noteq> []"
  by (subst dec_of_nat.simps) simp

lemma sint_nonneg_u64: "0 \<le> sint (x :: u64) \<longleftrightarrow> x < 2 ^ 63"
proof -
  have "0 \<le> sint x \<longleftrightarrow> \<not> bit x 63"
    by (simp add: sint_uint signed_take_bit_nonnegative_iff bit_uint_iff)
  also have "\<dots> \<longleftrightarrow> uint x < 2 ^ 63"
  proof -
    have "uint x < 2 ^ 64" using uint_lt2p [of x] by simp
    then have "bit (uint x) 63 \<longleftrightarrow> 2 ^ 63 \<le> uint x"
      by (cases "uint x < 2 ^ 63") (simp_all add: bit_iff_odd div_pos_pos_trivial div_pos_geq)
    then show ?thesis by (simp add: bit_uint_iff not_le)
  qed
  finally show ?thesis by (simp add: word_less_alt)
qed

end
