(* ===== verification/Json.thy ===== *)
theory Json
  imports Prelude Complex_Main "HOL-Library.Log_Nat"
begin

text \<open>
  The value type of \<^verbatim>\<open>nlohmann::json\<close> as the server uses it: the constructors, the type
  tests, member access and the comparisons of mixed number types. Objects are sorted maps
  (\<^verbatim>\<open>std::map\<close>). Text is turned into values and back by a codec (\<^verbatim>\<open>parse\<close> and \<^verbatim>\<open>dump\<close>),
  which is a parameter: the operations below that need it take a record of the two functions.
\<close>

text \<open>
  A number is signed, unsigned or floating, as in the library. An integer keeps its 64-bit
  pattern; a finite double keeps its value.
\<close>

datatype json =
    JNull
  | JBool bool
  | JInteger u64
  | JUnsigned u64
  | JFloat rat
  | JString string
  | JArray "json list"
  | JObject "(string \<times> json) list"

section \<open>Type tests and access\<close>

fun is_null :: "json \<Rightarrow> bool" where
  "is_null JNull = True"
| "is_null _ = False"

fun is_boolean :: "json \<Rightarrow> bool" where
  "is_boolean (JBool _) = True"
| "is_boolean _ = False"

fun is_string :: "json \<Rightarrow> bool" where
  "is_string (JString _) = True"
| "is_string _ = False"

fun is_object :: "json \<Rightarrow> bool" where
  "is_object (JObject _) = True"
| "is_object _ = False"

fun is_array :: "json \<Rightarrow> bool" where
  "is_array (JArray _) = True"
| "is_array _ = False"

text \<open>\<^verbatim>\<open>is_number_integer\<close> accepts both integer kinds; \<^verbatim>\<open>is_number_unsigned\<close> only one.\<close>

fun is_number_integer :: "json \<Rightarrow> bool" where
  "is_number_integer (JInteger _) = True"
| "is_number_integer (JUnsigned _) = True"
| "is_number_integer _ = False"

fun is_number_unsigned :: "json \<Rightarrow> bool" where
  "is_number_unsigned (JUnsigned _) = True"
| "is_number_unsigned _ = False"

fun jsize :: "json \<Rightarrow> nat" where
  "jsize JNull = 0"
| "jsize (JArray xs) = length xs"
| "jsize (JObject m) = length m"
| "jsize _ = 1"

definition jempty :: "json \<Rightarrow> bool" where
  "jempty j \<longleftrightarrow> jsize j = 0"

fun members :: "json \<Rightarrow> (string \<times> json) list" where
  "members (JObject m) = m"
| "members _ = []"

definition contains :: "json \<Rightarrow> string \<Rightarrow> bool" where
  "contains j k \<longleftrightarrow> map_of (members j) k \<noteq> None"

text \<open>
  \<^verbatim>\<open>j[key]\<close> on a constant object: the code calls it after \<^verbatim>\<open>contains\<close>. On a mutable object a
  missing key is created with null, which is the value read here.
\<close>

definition jget :: "json \<Rightarrow> string \<Rightarrow> json" where
  "jget j k = (case map_of (members j) k of None \<Rightarrow> JNull | Some v \<Rightarrow> v)"

text \<open>\<^verbatim>\<open>j.at(key)\<close>: throws on a missing key and on a value that is not an object.\<close>

definition jat :: "json \<Rightarrow> string \<Rightarrow> exn + json" where
  "jat j k = (case j of
      JObject m \<Rightarrow> (case map_of m k of None \<Rightarrow> Inl (Json_error ''key not found'') | Some v \<Rightarrow> Inr v)
    | _ \<Rightarrow> Inl (Json_error ''cannot use at()''))"

fun get_string :: "json \<Rightarrow> exn + string" where
  "get_string (JString s) = Inr s"
| "get_string _ = Inl (Json_error ''type must be string'')"

fun get_bool :: "json \<Rightarrow> exn + bool" where
  "get_bool (JBool b) = Inr b"
| "get_bool _ = Inl (Json_error ''type must be boolean'')"

text \<open>Reads that the code guards by a type test.\<close>

fun str_of :: "json \<Rightarrow> string" where
  "str_of (JString s) = s"
| "str_of _ = []"

fun bool_of :: "json \<Rightarrow> bool" where
  "bool_of (JBool b) = b"
| "bool_of _ = False"

text \<open>
  \<^verbatim>\<open>get<uint64_t>\<close> and \<^verbatim>\<open>get<int64_t>\<close> cast the stored integer; both kinds have 64 bits, so the
  bit pattern is kept. \<^verbatim>\<open>get<int>\<close> keeps the low 32 bits.
\<close>

fun get_u64 :: "json \<Rightarrow> u64" where
  "get_u64 (JInteger w) = w"
| "get_u64 (JUnsigned w) = w"
| "get_u64 _ = 0"

definition get_i64 :: "json \<Rightarrow> int" where
  "get_i64 j = sint (get_u64 j)"

definition get_i32 :: "json \<Rightarrow> int" where
  "get_i32 j = sint (ucast (get_u64 j) :: u32)"

text \<open>\<^verbatim>\<open>j[key] = v\<close>: null becomes an object; other kinds would throw and do not occur.\<close>

fun jset :: "json \<Rightarrow> string \<Rightarrow> json \<Rightarrow> json" where
  "jset (JObject m) k v = JObject (omap_set k v m)"
| "jset JNull k v = JObject [(k, v)]"
| "jset j k v = j"

definition jobject :: "(string \<times> json) list \<Rightarrow> json" where
  "jobject kvs = JObject (fold (\<lambda>(k, v). omap_set k v) kvs [])"

definition juint :: "nat \<Rightarrow> json" where
  "juint n = JUnsigned (of_nat n)"

definition jint :: "int \<Rightarrow> json" where
  "jint n = JInteger (of_int n)"

section \<open>Comparison\<close>

text \<open>\<^verbatim>\<open>static_cast<double>\<close> of an integer: 53 significant bits, ties to even.\<close>

definition double_of_nat :: "nat \<Rightarrow> nat" where
  "double_of_nat n =
     (if n < 2 ^ 53 then n
      else let k = floorlog 2 n - 53; q = n div 2 ^ k; r = n mod 2 ^ k; h = 2 ^ (k - 1)
           in if h < r \<or> (r = h \<and> odd q) then (q + 1) * 2 ^ k else q * 2 ^ k)"

definition double_of_int :: "int \<Rightarrow> rat" where
  "double_of_int i = (if i < 0 then - of_nat (double_of_nat (nat (- i))) else of_nat (double_of_nat (nat i)))"

text \<open>
  Equality of two values. Integers of different kinds are compared after a cast to the signed
  type, that is as bit patterns; an integer and a float are compared as doubles.
\<close>

fun json_eq :: "json \<Rightarrow> json \<Rightarrow> bool"
  and json_eq_list :: "json list \<Rightarrow> json list \<Rightarrow> bool"
  and json_eq_members :: "(string \<times> json) list \<Rightarrow> (string \<times> json) list \<Rightarrow> bool" where
  "json_eq JNull JNull = True"
| "json_eq (JBool a) (JBool b) = (a = b)"
| "json_eq (JInteger a) (JInteger b) = (a = b)"
| "json_eq (JUnsigned a) (JUnsigned b) = (a = b)"
| "json_eq (JInteger a) (JUnsigned b) = (a = b)"
| "json_eq (JUnsigned a) (JInteger b) = (a = b)"
| "json_eq (JFloat a) (JFloat b) = (a = b)"
| "json_eq (JInteger a) (JFloat b) = (double_of_int (sint a) = b)"
| "json_eq (JFloat a) (JInteger b) = (a = double_of_int (sint b))"
| "json_eq (JUnsigned a) (JFloat b) = (double_of_int (uint a) = b)"
| "json_eq (JFloat a) (JUnsigned b) = (a = double_of_int (uint b))"
| "json_eq (JString a) (JString b) = (a = b)"
| "json_eq (JArray a) (JArray b) = json_eq_list a b"
| "json_eq (JObject a) (JObject b) = json_eq_members a b"
| "json_eq _ _ = False"
| "json_eq_list [] [] = True"
| "json_eq_list (a # as) (b # bs) = (json_eq a b \<and> json_eq_list as bs)"
| "json_eq_list _ _ = False"
| "json_eq_members [] [] = True"
| "json_eq_members ((k, a) # as) ((l, b) # bs) = (k = l \<and> json_eq a b \<and> json_eq_members as bs)"
| "json_eq_members _ _ = False"

text \<open>
  \<^verbatim>\<open>j < n\<close> and \<^verbatim>\<open>j > n\<close> with an \<^verbatim>\<open>int\<close> literal, on an integer value: the literal is a signed
  JSON number, so an unsigned value is cast to the signed type before the comparison.
\<close>

definition jint_less :: "json \<Rightarrow> int \<Rightarrow> bool" where
  "jint_less j n \<longleftrightarrow> get_i64 j < n"

definition jint_greater :: "json \<Rightarrow> int \<Rightarrow> bool" where
  "jint_greater j n \<longleftrightarrow> n < get_i64 j"

lemma json_eq_list_refl: "(\<And>j. j \<in> set js \<Longrightarrow> json_eq j j) \<Longrightarrow> json_eq_list js js"
  by (induction js) auto

lemma json_eq_members_refl:
  "\<forall>p \<in> set m. json_eq (snd p) (snd p) \<Longrightarrow> json_eq_members m m"
  by (induction m) auto

lemma json_eq_refl [simp]: "json_eq j j"
proof (induction j)
  case (JArray js)
  then show ?case by (simp add: json_eq_list_refl)
next
  case (JObject m)
  then show ?case by (intro json_eq.simps(14) [THEN iffD2] json_eq_members_refl) force
qed auto

section \<open>Text codec\<close>

text \<open>
  \<open>jdump\<close> is \<^verbatim>\<open>dump()\<close> (\<open>None\<close>: it throws, on a string that is not UTF-8); \<open>jparse\<close> is
  \<^verbatim>\<open>parse()\<close> (\<open>None\<close>: it throws). A value survives the codec when parsing its dump gives it back,
  which the library documents for every value whose strings are valid UTF-8.
\<close>

record json_codec =
  jdump :: "json \<Rightarrow> string option"
  jparse :: "string \<Rightarrow> json option"

definition codec_ok :: "json_codec \<Rightarrow> json \<Rightarrow> bool" where
  "codec_ok jc j \<longleftrightarrow>
     (case jdump jc j of None \<Rightarrow> False | Some s \<Rightarrow> s \<noteq> [] \<and> nul_free s \<and> jparse jc s = Some j)"

lemma codec_okE:
  assumes "codec_ok jc j"
  obtains s where "jdump jc j = Some s" "s \<noteq> []" "nul_free s" "jparse jc s = Some j"
  using assms by (auto simp: codec_ok_def split: option.splits)

section \<open>Facts about objects\<close>

lemma contains_simps [simp]:
  "contains (JObject m) k \<longleftrightarrow> k \<in> fst ` set m"
  "\<not> contains JNull k" "\<not> contains (JBool b) k" "\<not> contains (JInteger w) k"
  "\<not> contains (JUnsigned w) k" "\<not> contains (JFloat r) k" "\<not> contains (JString s) k"
  "\<not> contains (JArray a) k"
  by (simp_all add: contains_def map_of_eq_None_iff)

lemma contains_object: "contains j k \<Longrightarrow> is_object j"
  by (cases j) auto

lemma jget_contains: "contains j k \<Longrightarrow> map_of (members j) k = Some (jget j k)"
  by (auto simp: contains_def jget_def)

lemma members_jobject: "members (jobject kvs) = fold (\<lambda>(k, v). omap_set k v) kvs []"
  by (simp add: jobject_def)

lemma jobject_lookup:
  "distinct (map fst kvs) \<Longrightarrow> (k, v) \<in> set kvs \<Longrightarrow> jget (jobject kvs) k = v"
  by (simp add: jget_def members_jobject omap.put_all_distinct_lookup)

lemma map_of_members_jobject:
  "map_of (members (jobject kvs)) = map_of (rev kvs)"
  by (simp add: members_jobject omap.get_put_all)

lemma contains_jobject [simp]: "contains (jobject kvs) k \<longleftrightarrow> k \<in> fst ` set kvs"
  by (auto simp: contains_def map_of_members_jobject map_of_eq_None_iff)

lemma is_object_jobject [simp]: "is_object (jobject kvs)"
  by (simp add: jobject_def)

lemma jget_jset: "is_object j \<Longrightarrow> jget (jset j k v) l = (if l = k then v else jget j l)"
  by (cases j) (auto simp: jget_def map_of_omap_set_any)

lemma is_object_jset [simp]: "is_object j \<Longrightarrow> is_object (jset j k v)"
  by (cases j) auto

lemma contains_jset: "is_object j \<Longrightarrow> contains (jset j k v) l \<longleftrightarrow> l = k \<or> contains j l"
  by (cases j) (auto simp: contains_def map_of_omap_set_any)

lemma get_i64_jint: "- (2 ^ 63) \<le> n \<Longrightarrow> n < 2 ^ 63 \<Longrightarrow> get_i64 (jint n) = n"
  by (simp add: get_i64_def jint_def signed_of_int signed_take_bit_int_eq_self)

end
