(* ===== verification/Worker.thy ===== *)
theory Worker
  imports Json
begin

text \<open>
  \<^verbatim>\<open>common/include/worker\<close> and \<^verbatim>\<open>common/src/Worker.cpp\<close>: a worker's identity, liveness, slot
  counters and management control. Slot counters are 32-bit; the lemmas show that taking and
  giving back a slot never wraps.
\<close>

type_synonym WorkerId = string

datatype WorkerStatus = ONLINE | OFFLINE | DRAINING

fun wstatus_toString :: "WorkerStatus \<Rightarrow> string" where
  "wstatus_toString ONLINE = ''ONLINE''"
| "wstatus_toString OFFLINE = ''OFFLINE''"
| "wstatus_toString DRAINING = ''DRAINING''"

record WorkerControl =
  c_accepting :: bool
  c_operation_id :: string
  c_scope :: string
  c_state :: string
  c_error :: string

definition default_control :: WorkerControl where
  "default_control =
     \<lparr>c_accepting = True, c_operation_id = [], c_scope = [], c_state = ''IDLE'', c_error = []\<rparr>"

definition available :: "WorkerControl \<Rightarrow> bool" where
  "available c \<longleftrightarrow> c_accepting c \<and> (c_state c = ''IDLE'' \<or> c_state c = ''SUCCEEDED'')"

record Worker =
  w_id :: WorkerId
  w_hostname :: string
  w_machine_id :: string
  w_slot_id :: string
  w_explicit_identity :: bool
  w_control :: WorkerControl
  w_control_supported :: bool
  w_status :: WorkerStatus
  w_total_slots :: u32
  w_used_slots :: u32
  w_registered_at :: time_point
  w_last_heartbeat :: time_point

definition new_worker :: "WorkerId \<Rightarrow> string \<Rightarrow> u32 \<Rightarrow> time_point \<Rightarrow> Worker" where
  "new_worker i hostname total_slots now =
     \<lparr>w_id = i, w_hostname = hostname, w_machine_id = [], w_slot_id = [],
      w_explicit_identity = False, w_control = default_control, w_control_supported = False,
      w_status = OFFLINE, w_total_slots = total_slots, w_used_slots = 0,
      w_registered_at = now, w_last_heartbeat = 0\<rparr>"

definition acceptsTasks :: "Worker \<Rightarrow> bool" where
  "acceptsTasks w = available (w_control w)"

definition freeSlots :: "Worker \<Rightarrow> u32" where
  "freeSlots w = (if w_total_slots w \<le> w_used_slots w then 0 else w_total_slots w - w_used_slots w)"

definition hasFreeSlot :: "Worker \<Rightarrow> bool" where
  "hasFreeSlot w \<longleftrightarrow> 0 < freeSlots w"

definition setIdentity :: "string \<Rightarrow> string \<Rightarrow> bool \<Rightarrow> Worker \<Rightarrow> Worker" where
  "setIdentity machine slot explicit_identity w =
     w\<lparr>w_machine_id := machine, w_slot_id := slot, w_explicit_identity := explicit_identity\<rparr>"

definition setOnline :: "Worker \<Rightarrow> Worker" where
  "setOnline w = w\<lparr>w_status := ONLINE\<rparr>"

definition setOffline :: "Worker \<Rightarrow> Worker" where
  "setOffline w = w\<lparr>w_status := OFFLINE\<rparr>"

definition setDraining :: "Worker \<Rightarrow> Worker" where
  "setDraining w = w\<lparr>w_status := DRAINING\<rparr>"

definition setTotalSlots :: "u32 \<Rightarrow> Worker \<Rightarrow> Worker" where
  "setTotalSlots n w = w\<lparr>w_total_slots := n\<rparr>"

definition updateHeartbeat :: "time_point \<Rightarrow> Worker \<Rightarrow> Worker" where
  "updateHeartbeat now w =
     (let w1 = w\<lparr>w_last_heartbeat := now\<rparr>
      in if w_status w1 \<noteq> DRAINING then w1\<lparr>w_status := ONLINE\<rparr> else w1)"

definition acquire_slot :: "Worker \<Rightarrow> bool \<times> Worker" where
  "acquire_slot w =
     (if \<not> hasFreeSlot w then (False, w) else (True, w\<lparr>w_used_slots := w_used_slots w + 1\<rparr>))"

definition release_slot :: "Worker \<Rightarrow> bool \<times> Worker" where
  "release_slot w =
     (if w_used_slots w = 0 then (False, w) else (True, w\<lparr>w_used_slots := w_used_slots w - 1\<rparr>))"

lemmas worker_setters = setIdentity_def setOnline_def setOffline_def setDraining_def
  setTotalSlots_def updateHeartbeat_def Let_def

section \<open>Slot arithmetic\<close>

lemma hasFreeSlot_iff: "hasFreeSlot w \<longleftrightarrow> w_used_slots w < w_total_slots w"
  by (auto simp: hasFreeSlot_def freeSlots_def word_gt_0 not_le)

lemma unat_freeSlots: "unat (freeSlots w) = unat (w_total_slots w) - unat (w_used_slots w)"
  by (auto simp: freeSlots_def unat_sub word_le_nat_alt not_le)

lemma unat_used_acquire:
  assumes "hasFreeSlot w"
  shows "unat (w_used_slots w + 1) = Suc (unat (w_used_slots w))"
proof -
  from assms have "unat (w_used_slots w) < unat (w_total_slots w)"
    by (simp add: hasFreeSlot_iff word_less_nat_alt)
  moreover have "unat (w_total_slots w) < 2 ^ 32"
    using unsigned_less [of "w_total_slots w"] by simp
  ultimately have "Suc (unat (w_used_slots w)) < 2 ^ 32" by linarith
  then show ?thesis by (simp add: unat_word_ariths)
qed

lemma unat_used_release:
  "w_used_slots w \<noteq> 0 \<Longrightarrow> unat (w_used_slots w - 1) = unat (w_used_slots w) - 1"
  by (simp add: unat_minus_one)

lemma acquire_slot_True:
  "acquire_slot w = (True, w') \<Longrightarrow>
   w' = w\<lparr>w_used_slots := w_used_slots w + 1\<rparr> \<and> unat (w_used_slots w') = Suc (unat (w_used_slots w))
   \<and> unat (w_used_slots w') \<le> unat (w_total_slots w)"
  by (auto simp: acquire_slot_def unat_used_acquire hasFreeSlot_iff word_less_nat_alt split: if_splits)

lemma release_slot_True:
  "release_slot w = (True, w') \<Longrightarrow>
   w' = w\<lparr>w_used_slots := w_used_slots w - 1\<rparr> \<and> unat (w_used_slots w) = Suc (unat (w_used_slots w'))"
  by (auto simp: release_slot_def unat_used_release unat_gt_0 word_gt_0 split: if_splits)

lemma acquire_slot_False [simp]: "fst (acquire_slot w) \<longleftrightarrow> hasFreeSlot w"
  by (simp add: acquire_slot_def)

lemma release_slot_False [simp]: "fst (release_slot w) \<longleftrightarrow> w_used_slots w \<noteq> 0"
  by (simp add: release_slot_def)

lemma release_acquire_slot: "hasFreeSlot w \<Longrightarrow> release_slot (snd (acquire_slot w)) = (True, w)"
  using unat_used_acquire [of w] by (auto simp: acquire_slot_def release_slot_def unat_eq_zero)

end
