(* ===== verification/StateStore.thy ===== *)
theory StateStore
  imports Task
begin

text \<open>
  \<^verbatim>\<open>server/src/StateStore.cpp\<close>: the durable state. Each table of the schema is a field of a
  record; each SQL statement of the file is written out as what it does to the tables,
  including \<^verbatim>\<open>INSERT OR IGNORE\<close> (a row that breaks a CHECK or a key is skipped), the CHECK,
  UNIQUE and foreign key constraints (which abort the transaction), and the rollback of a failed
  transaction. Whether the disk accepts the \<open>n\<close>-th write transaction is the fault oracle
  \<open>s_faults\<close>. Text columns are read back as C strings, up to the first NUL byte.
\<close>

record task_row =
  r_task_id :: u64
  r_batch_id :: "string option"
  r_task_type :: string
  r_target :: string
  r_revision :: string
  r_priority :: int
  r_status :: string
  r_payload_json :: string
  r_execution_json :: "string option"
  r_worker_id :: "string option"
  r_retry_count :: int
  r_queue_sequence :: int
  r_run_id :: "string option"
  r_recovery_required :: bool
  r_created_at_ms :: int
  r_started_at_ms :: int
  r_finished_at_ms :: int

record run_row =
  n_task_id :: u64
  n_attempt_no :: int
  n_worker_id :: string
  n_status :: string
  n_assigned_at_ms :: int
  n_started_at_ms :: "int option"
  n_finished_at_ms :: "int option"
  n_execution_json :: "string option"

record StateStore =
  s_tasks :: "(u64 \<times> task_row) list"
  s_batches :: "(string \<times> bool) list"
  s_runs :: "(string \<times> run_row) list"
  s_submissions :: "(string \<times> string \<times> u64) list"
  s_decisions :: "(string \<times> u64 \<times> string \<times> string) list"
  s_controls :: "string option"
  s_faults :: "nat \<Rightarrow> bool"
  s_writes :: nat

definition sqlite_error :: exn where
  "sqlite_error = Runtime_error ''SQLite''"

section \<open>Column conversions\<close>

text \<open>\<^verbatim>\<open>duration_cast<milliseconds>\<close> truncates towards zero.\<close>

definition millis :: "time_point \<Rightarrow> int" where
  "millis t = sgn t * (\<bar>t\<bar> div 1000000)"

definition fromMillis :: "int \<Rightarrow> time_point" where
  "fromMillis m = m * 1000000"

definition statusFrom :: "string \<Rightarrow> exn + TaskStatus" where
  "statusFrom v =
     (case find (\<lambda>s. toString s = v)
             [PENDING, QUEUED, ASSIGNED, RUNNING, SUCCEEDED, FAILED, TIMEOUT, CANCELLED] of
        Some s \<Rightarrow> Inr s
      | None \<Rightarrow> Inl (Runtime_error ''invalid persisted task status''))"

text \<open>The batch of a task, empty when its payload names none.\<close>

definition store_batchId :: "Task \<Rightarrow> string" where
  "store_batchId t =
     (let payload = t_payload t in
      if is_object payload \<and> contains payload ''context''
         \<and> is_object (jget payload ''context'')
         \<and> contains (jget payload ''context'') ''batch_id''
         \<and> is_string (jget (jget payload ''context'') ''batch_id'')
      then str_of (jget (jget payload ''context'') ''batch_id'') else [])"

definition checkedId :: "u64 \<Rightarrow> exn + u64" where
  "checkedId i = (if i = 0 \<or> 2 ^ 63 - 1 < uint i
                  then Inl (Runtime_error ''task id outside SQLite range'') else Inr i)"

text \<open>\<^verbatim>\<open>sqlite3_column_int\<close> keeps the low 32 bits of the stored value.\<close>

definition column_int :: "int \<Rightarrow> int" where
  "column_int i = sint (of_int i :: u32)"

text \<open>\<^verbatim>\<open>dump()\<close> of a value that is not null; null is bound as SQL NULL.\<close>

definition dump_nullable :: "json_codec \<Rightarrow> json \<Rightarrow> exn + string option" where
  "dump_nullable jc j =
     (if is_null j then Inr None
      else case jdump jc j of None \<Rightarrow> Inl (Json_error ''dump'') | Some s \<Rightarrow> Inr (nullable s))"

text \<open>The values the statement binder puts into the columns of a task row.\<close>

definition row_of :: "json_codec \<Rightarrow> Task \<Rightarrow> exn + task_row" where
  "row_of jc t =
     rbind (checkedId (t_id t)) (\<lambda>i.
     rbind (case jdump jc (t_payload t) of None \<Rightarrow> Inl (Json_error ''dump'') | Some s \<Rightarrow> Inr s) (\<lambda>payload.
     rbind (dump_nullable jc (t_execution_summary t)) (\<lambda>execution.
       Inr \<lparr>r_task_id = i, r_batch_id = nullable (store_batchId t),
            r_task_type = type_toString (t_type t), r_target = t_target t,
            r_revision = t_revision t, r_priority = t_priority t,
            r_status = toString (t_status t), r_payload_json = payload,
            r_execution_json = execution, r_worker_id = nullable (t_worker_id t),
            r_retry_count = t_retry_count t, r_queue_sequence = sint (t_queue_sequence t),
            r_run_id = nullable (t_run_id t), r_recovery_required = t_recovery_required t,
            r_created_at_ms = millis (t_created_at t), r_started_at_ms = millis (t_started_at t),
            r_finished_at_ms = millis (t_finished_at t)\<rparr>)))"

text \<open>A row read back as a task.\<close>

definition task_of_row :: "json_codec \<Rightarrow> task_row \<Rightarrow> exn + Task" where
  "task_of_row jc r =
     (if c_string (r_task_type r) \<noteq> ''REGRESSION'' then Inl (Runtime_error ''invalid persisted task type'')
      else
        rbind (case jparse jc (c_string (r_payload_json r)) of None \<Rightarrow> Inl (Json_error ''parse'') | Some j \<Rightarrow> Inr j) (\<lambda>payload.
        rbind (case r_execution_json r of None \<Rightarrow> Inr JNull
               | Some s \<Rightarrow> (case jparse jc (c_string s) of None \<Rightarrow> Inl (Json_error ''parse'') | Some j \<Rightarrow> Inr j)) (\<lambda>execution.
        rbind (statusFrom (c_string (r_status r))) (\<lambda>status.
          let t = new_task (r_task_id r) REGRESSION (c_string (r_target r)) (c_string (r_revision r)) 0
          in Inr (restore status (c_string (coalesce (r_worker_id r))) (column_int (r_retry_count r))
                    payload execution (of_int (r_queue_sequence r)) (c_string (coalesce (r_run_id r)))
                    (r_recovery_required r) (fromMillis (r_created_at_ms r))
                    (fromMillis (r_started_at_ms r)) (fromMillis (r_finished_at_ms r))
                    (setPriority (column_int (r_priority r)) t))))))"

section \<open>Opening the database\<close>

text \<open>
  The constructor on an existing database: \<open>locked\<close> is the outcome of the exclusive lock,
  \<open>version\<close> the schema version found, \<open>intact\<close> the outcome of the integrity check. Opening marks
  every assignment of the previous process as needing recovery.
\<close>

definition open_store :: "string \<Rightarrow> int \<Rightarrow> bool \<Rightarrow> int \<Rightarrow> bool \<Rightarrow> StateStore \<Rightarrow> exn + StateStore" where
  "open_store path busy_timeout_ms locked version intact db =
     (if path = [] \<or> path = '':memory:'' then Inl (Runtime_error ''persistent database path required'')
      else if busy_timeout_ms < 1 \<or> 60000 < busy_timeout_ms then Inl (Runtime_error ''invalid SQLite busy timeout'')
      else if \<not> locked then Inl (Runtime_error ''database already used by another server'')
      else if version < 0 \<or> 3 < version then Inl (Runtime_error ''unsupported GCRP database schema version'')
      else if \<not> intact then Inl (Runtime_error ''SQLite integrity check failed'')
      else Inr (db\<lparr>s_tasks := map (\<lambda>(i, r).
             (i, if r_status r = ''ASSIGNED'' \<or> r_status r = ''RUNNING''
                 then r\<lparr>r_recovery_required := True\<rparr> else r)) (s_tasks db)\<rparr>))"

section \<open>Queries\<close>

definition highWaterMarks :: "StateStore \<Rightarrow> u64 \<times> u64" where
  "highWaterMarks db =
     (fold (\<lambda>(i, r) m. max i m) (s_tasks db) 0,
      of_int (fold (\<lambda>(i, r) m. max (r_queue_sequence r) m) (s_tasks db) 0))"

definition store_statusCounts :: "StateStore \<Rightarrow> json" where
  "store_statusCounts db =
     JObject (fold (\<lambda>(i, r) m.
        omap_set (r_status r)
          (jint (1 + (case map_of m (r_status r) of None \<Rightarrow> 0 | Some j \<Rightarrow> get_i64 j))) m)
        (s_tasks db) [])"

definition row_selected :: "u64 \<Rightarrow> bool \<Rightarrow> string \<Rightarrow> task_row \<Rightarrow> bool" where
  "row_selected i active_only batch_id r \<longleftrightarrow>
     (i = 0 \<or> r_task_id r = i)
     \<and> (active_only \<longrightarrow> r_status r \<in> {''PENDING'', ''QUEUED'', ''ASSIGNED'', ''RUNNING''})
     \<and> (batch_id = [] \<or> r_batch_id r = Some batch_id)"

text \<open>
  The tasks passed to the visitor, in order of their id. A non-zero id outside the range of
  SQLite throws when it is bound.
\<close>

definition loadTasks :: "json_codec \<Rightarrow> u64 \<Rightarrow> bool \<Rightarrow> string \<Rightarrow> StateStore \<Rightarrow> exn + Task list" where
  "loadTasks jc i active_only batch_id db =
     rbind (if i = 0 then Inr 0 else checkedId i) (\<lambda>_.
       rmap (task_of_row jc) (filter (row_selected i active_only batch_id) (map snd (s_tasks db))))"

definition loadStoppedBatches :: "StateStore \<Rightarrow> string list" where
  "loadStoppedBatches db = map (\<lambda>(b, _). c_string b) (filter (\<lambda>(_, stopped). stopped) (s_batches db))"

definition findSubmission :: "string \<Rightarrow> StateStore \<Rightarrow> (u64 \<times> string) option" where
  "findSubmission key db =
     (case map_of (s_submissions db) key of None \<Rightarrow> None | Some (request, i) \<Rightarrow> Some (i, c_string request))"

definition recoveryDecision :: "string \<Rightarrow> u64 \<Rightarrow> string \<Rightarrow> StateStore \<Rightarrow> exn + string option" where
  "recoveryDecision run_id i worker_id db =
     rbind (checkedId i) (\<lambda>_.
       Inr (case map_of (s_decisions db) run_id of
              None \<Rightarrow> None
            | Some (i', w, d) \<Rightarrow> if i' = i \<and> w = worker_id then Some (c_string d) else None))"

definition store_archiveOwner :: "u64 \<Rightarrow> string \<Rightarrow> StateStore \<Rightarrow> exn + string option" where
  "store_archiveOwner i run_id db =
     rbind (checkedId i) (\<lambda>_.
       Inr (case map_of (s_runs db) run_id of
              None \<Rightarrow> None
            | Some n \<Rightarrow> if n_task_id n = i \<and> n_status n \<in> {''SUCCEEDED'', ''FAILED'', ''TIMEOUT''}
                        then Some (c_string (n_worker_id n)) else None))"

definition loadWorkerControls :: "json_codec \<Rightarrow> StateStore \<Rightarrow> exn + json" where
  "loadWorkerControls jc db =
     (case s_controls db of
        None \<Rightarrow> Inr (jobject [(''machines'', JObject []), (''workers'', JObject [])])
      | Some s \<Rightarrow> (case jparse jc (c_string s) of None \<Rightarrow> Inl (Json_error ''parse'') | Some j \<Rightarrow> Inr j))"

section \<open>The write transaction\<close>

text \<open>The CHECK constraints of the tasks table.\<close>

definition row_checks :: "task_row \<Rightarrow> bool" where
  "row_checks r \<longleftrightarrow>
     r_task_type r = ''REGRESSION'' \<and> - 100 \<le> r_priority r \<and> r_priority r \<le> 100
     \<and> 0 \<le> r_retry_count r \<and> 0 \<le> r_queue_sequence r"

definition run_checks :: "string \<Rightarrow> bool" where
  "run_checks status \<longleftrightarrow>
     status \<in> {''ASSIGNED'', ''RUNNING'', ''SUCCEEDED'', ''FAILED'', ''TIMEOUT'', ''DISPATCH_FAILED''}"

definition insert_batch :: "string \<Rightarrow> StateStore \<Rightarrow> StateStore" where
  "insert_batch b db =
     (if al_contains (s_batches db) b then db
      else db\<lparr>s_batches := AList.update b False (s_batches db)\<rparr>)"

definition stop_batch :: "string \<Rightarrow> StateStore \<Rightarrow> StateStore" where
  "stop_batch b db =
     (if al_contains (s_batches db) b
      then db\<lparr>s_batches := AList.update b True (s_batches db)\<rparr> else db)"

text \<open>INSERT OR IGNORE followed by UPDATE of one task row.\<close>

definition put_task :: "task_row \<Rightarrow> StateStore \<Rightarrow> exn + StateStore" where
  "put_task r db =
     (if row_checks r then Inr (db\<lparr>s_tasks := omap_set (r_task_id r) r (s_tasks db)\<rparr>)
      else if al_contains (s_tasks db) (r_task_id r) then Inl sqlite_error
      else Inr db)"

definition next_attempt :: "u64 \<Rightarrow> StateStore \<Rightarrow> int" where
  "next_attempt i db =
     fold (\<lambda>(_, n) m. if n_task_id n = i then max (n_attempt_no n) m else m) (s_runs db) 0 + 1"

text \<open>INSERT OR IGNORE followed by UPDATE of the run row of an attempt.\<close>

definition put_run :: "time_point \<Rightarrow> string option \<Rightarrow> bool \<Rightarrow> task_row \<Rightarrow> Task \<Rightarrow> StateStore \<Rightarrow> exn + StateStore" where
  "put_run now override recovering r t db =
     rbind
       (case map_of (s_runs db) (t_run_id t) of
          Some n \<Rightarrow> Inr n
        | None \<Rightarrow>
            if al_contains (s_tasks db) (t_id t)
            then Inr \<lparr>n_task_id = t_id t, n_attempt_no = next_attempt (t_id t) db,
                      n_worker_id = t_worker_id t, n_status = ''ASSIGNED'',
                      n_assigned_at_ms = millis now, n_started_at_ms = None,
                      n_finished_at_ms = None, n_execution_json = None\<rparr>
            else Inl sqlite_error)
       (\<lambda>n. let status = (case override of None \<Rightarrow> toString (t_status t) | Some s \<Rightarrow> s) in
            if \<not> run_checks status then Inl sqlite_error
            else Inr (db\<lparr>s_runs := AList.update (t_run_id t)
                   (n\<lparr>n_status := status,
                      n_started_at_ms := Some (millis (t_started_at t)),
                      n_finished_at_ms := Some (if recovering then millis now else millis (t_finished_at t)),
                      n_execution_json := r_execution_json r\<rparr>) (s_runs db)\<rparr>))"

definition save_task :: "json_codec \<Rightarrow> time_point \<Rightarrow> string option \<Rightarrow> bool \<Rightarrow> Task \<Rightarrow> StateStore \<Rightarrow> exn + StateStore" where
  "save_task jc now override recovering t db =
     (let b = store_batchId t; db1 = (if b \<noteq> [] then insert_batch b db else db) in
      rbind (row_of jc t) (\<lambda>r.
      rbind (put_task r db1) (\<lambda>db2.
        if t_run_id t \<noteq> [] \<and> (override \<noteq> None \<or> t_worker_id t \<noteq> [])
        then put_run now override recovering r t db2 else Inr db2)))"

fun save_tasks :: "json_codec \<Rightarrow> time_point \<Rightarrow> string option \<Rightarrow> bool \<Rightarrow> Task list \<Rightarrow> StateStore \<Rightarrow> exn + StateStore" where
  "save_tasks jc now override recovering [] db = Inr db"
| "save_tasks jc now override recovering (t # ts) db =
     rbind (save_task jc now override recovering t db) (save_tasks jc now override recovering ts)"

definition save_submission :: "(string \<times> string) option \<Rightarrow> Task list \<Rightarrow> StateStore \<Rightarrow> exn + StateStore" where
  "save_submission submission ts db =
     (case submission of None \<Rightarrow> Inr db
      | Some (key, request) \<Rightarrow>
          (case ts of [t] \<Rightarrow>
             rbind (checkedId (t_id t)) (\<lambda>i.
               if al_contains (s_submissions db) key \<or> \<not> al_contains (s_tasks db) i then Inl sqlite_error
               else Inr (db\<lparr>s_submissions := AList.update key (request, i) (s_submissions db)\<rparr>))
           | _ \<Rightarrow> Inl (Runtime_error ''submission needs one task'')))"

definition save_recovery :: "(string \<times> string) option \<Rightarrow> Task list \<Rightarrow> StateStore \<Rightarrow> exn + StateStore" where
  "save_recovery recovery ts db =
     (case recovery of None \<Rightarrow> Inr db
      | Some (worker_id, decision) \<Rightarrow>
          (case ts of [t] \<Rightarrow>
             rbind (checkedId (t_id t)) (\<lambda>i.
               if al_contains (s_decisions db) (t_run_id t) \<or> \<not> al_contains (s_runs db) (t_run_id t)
                  \<or> \<not> al_contains (s_tasks db) i
                  \<or> decision \<notin> {''requeued'', ''failed'', ''cancelled''}
               then Inl sqlite_error
               else Inr (db\<lparr>s_decisions := AList.update (t_run_id t) (i, worker_id, decision) (s_decisions db)\<rparr>))
           | _ \<Rightarrow> Inl (Runtime_error ''recovery needs one task'')))"

definition save_body :: "json_codec \<Rightarrow> time_point \<Rightarrow> Task list \<Rightarrow> string option \<Rightarrow> string option \<Rightarrow>
    (string \<times> string) option \<Rightarrow> (string \<times> string) option \<Rightarrow> StateStore \<Rightarrow> exn + StateStore" where
  "save_body jc now ts stopped_batch override submission recovery db =
     (let db0 = (case stopped_batch of None \<Rightarrow> db | Some b \<Rightarrow> stop_batch b (insert_batch b db)) in
      rbind (save_tasks jc now override (recovery \<noteq> None) ts db0) (\<lambda>db1.
      rbind (save_submission submission ts db1) (save_recovery recovery ts)))"

definition save :: "json_codec \<Rightarrow> time_point \<Rightarrow> Task list \<Rightarrow> string option \<Rightarrow> string option \<Rightarrow>
    (string \<times> string) option \<Rightarrow> (string \<times> string) option \<Rightarrow> (StateStore, unit) op" where
  "save jc now ts stopped_batch override submission recovery db =
     (let failed = s_faults db (s_writes db); db' = db\<lparr>s_writes := Suc (s_writes db)\<rparr> in
      if failed then (Inl sqlite_error, db')
      else case save_body jc now ts stopped_batch override submission recovery db' of
             Inl e \<Rightarrow> (Inl e, db')
           | Inr db'' \<Rightarrow> (Inr (), db''))"

definition saveWorkerControls :: "json_codec \<Rightarrow> json \<Rightarrow> (StateStore, unit) op" where
  "saveWorkerControls jc controls db =
     (case jdump jc controls of
        None \<Rightarrow> (Inl (Json_error ''dump''), db)
      | Some s \<Rightarrow>
          (let failed = s_faults db (s_writes db); db' = db\<lparr>s_writes := Suc (s_writes db)\<rparr> in
           if failed then (Inl sqlite_error, db') else (Inr (), db'\<lparr>s_controls := Some s\<rparr>)))"

section \<open>What a transaction changes\<close>

definition known_ids :: "StateStore \<Rightarrow> u64 set" where
  "known_ids db = fst ` set (s_tasks db)"

lemma row_of_id: "row_of jc t = Inr r \<Longrightarrow> r_task_id r = t_id t"
  by (auto simp: row_of_def rbind_Inr_iff checkedId_def split: if_splits)

lemma put_task_rows:
  assumes "put_task r db = Inr db'"
  shows "db' = (if row_checks r then db\<lparr>s_tasks := omap_set (r_task_id r) r (s_tasks db)\<rparr> else db)"
    and "\<not> row_checks r \<Longrightarrow> r_task_id r \<notin> known_ids db"
  using assms by (auto simp: put_task_def known_ids_def split: if_splits)

lemma put_run_rows:
  "put_run now override recovering r t db = Inr db' \<Longrightarrow>
   s_tasks db' = s_tasks db \<and> s_submissions db' = s_submissions db \<and> s_faults db' = s_faults db
   \<and> s_batches db' = s_batches db \<and> s_decisions db' = s_decisions db"
  by (auto simp: put_run_def Let_def rbind_Inr_iff split: option.splits if_splits)

lemma insert_batch_frame [simp]:
  "s_tasks (insert_batch b db) = s_tasks db" "s_submissions (insert_batch b db) = s_submissions db"
  "s_faults (insert_batch b db) = s_faults db" "s_decisions (insert_batch b db) = s_decisions db"
  by (simp_all add: insert_batch_def)

lemma stop_batch_frame [simp]:
  "s_tasks (stop_batch b db) = s_tasks db" "s_submissions (stop_batch b db) = s_submissions db"
  "s_faults (stop_batch b db) = s_faults db" "s_decisions (stop_batch b db) = s_decisions db"
  by (simp_all add: stop_batch_def)

text \<open>Saving one task: its row, and nothing of the others.\<close>

lemma save_task_rows:
  assumes "save_task jc now override recovering t db = Inr db'"
  obtains r where "row_of jc t = Inr r"
    and "s_tasks db' = (if row_checks r then omap_set (t_id t) r (s_tasks db) else s_tasks db)"
    and "s_submissions db' = s_submissions db" and "s_faults db' = s_faults db"
    and "s_decisions db' = s_decisions db"
proof -
  define db1 where "db1 = (if store_batchId t \<noteq> [] then insert_batch (store_batchId t) db else db)"
  have db1: "s_tasks db1 = s_tasks db" "s_submissions db1 = s_submissions db" "s_faults db1 = s_faults db"
    "s_decisions db1 = s_decisions db"
    by (simp_all add: db1_def)
  from assms obtain r db2 where r: "row_of jc t = Inr r" and p: "put_task r db1 = Inr db2"
    and n: "(if t_run_id t \<noteq> [] \<and> (override \<noteq> None \<or> t_worker_id t \<noteq> [])
             then put_run now override recovering r t db2 else Inr db2) = Inr db'"
    unfolding save_task_def Let_def db1_def by (auto simp: rbind_Inr_iff)
  have "s_tasks db' = s_tasks db2 \<and> s_submissions db' = s_submissions db2 \<and> s_faults db' = s_faults db2
    \<and> s_decisions db' = s_decisions db2"
    using n put_run_rows by (auto split: if_splits)
  moreover have "db2 = (if row_checks r then db1\<lparr>s_tasks := omap_set (t_id t) r (s_tasks db1)\<rparr> else db1)"
    using put_task_rows(1) [OF p] row_of_id [OF r] by simp
  ultimately show thesis
    using that [OF r] db1 by simp
qed

lemma save_tasks_known:
  "save_tasks jc now override recovering ts db = Inr db' \<Longrightarrow>
   known_ids db \<subseteq> known_ids db' \<and> known_ids db' \<subseteq> known_ids db \<union> t_id ` set ts
   \<and> s_submissions db' = s_submissions db \<and> s_faults db' = s_faults db \<and> s_decisions db' = s_decisions db"
proof (induction ts arbitrary: db)
  case (Cons t ts)
  from Cons.prems obtain db1 where 1: "save_task jc now override recovering t db = Inr db1"
    and 2: "save_tasks jc now override recovering ts db1 = Inr db'"
    by (auto simp: rbind_Inr_iff)
  from 1 obtain r where "s_tasks db1 = (if row_checks r then omap_set (t_id t) r (s_tasks db) else s_tasks db)"
    "s_submissions db1 = s_submissions db" "s_faults db1 = s_faults db" "s_decisions db1 = s_decisions db"
    by (rule save_task_rows)
  then show ?case
    using Cons.IH [OF 2] by (auto simp: known_ids_def keys_omap_set split: if_splits)
qed (simp add: known_ids_def)

text \<open>A task whose row meets the CHECK constraints is known after it was saved.\<close>

definition storable :: "Task \<Rightarrow> bool" where
  "storable t \<longleftrightarrow>
     t_type t = REGRESSION \<and> - 100 \<le> t_priority t \<and> t_priority t \<le> 100
     \<and> 0 \<le> t_retry_count t \<and> 0 \<le> sint (t_queue_sequence t)"

lemma row_of_checks: "row_of jc t = Inr r \<Longrightarrow> row_checks r \<longleftrightarrow> storable t"
  by (cases "t_type t") (auto simp: row_of_def rbind_Inr_iff row_checks_def storable_def)

lemma save_tasks_stored:
  "save_tasks jc now override recovering ts db = Inr db' \<Longrightarrow> \<forall>t \<in> set ts. storable t \<Longrightarrow>
   t_id ` set ts \<subseteq> known_ids db'"
proof (induction ts arbitrary: db)
  case (Cons t ts)
  from Cons.prems obtain db1 where 1: "save_task jc now override recovering t db = Inr db1"
    and 2: "save_tasks jc now override recovering ts db1 = Inr db'"
    by (auto simp: rbind_Inr_iff)
  from 1 obtain r where "row_of jc t = Inr r"
    "s_tasks db1 = (if row_checks r then omap_set (t_id t) r (s_tasks db) else s_tasks db)"
    by (rule save_task_rows)
  then have "t_id t \<in> known_ids db1"
    using Cons.prems(2) by (simp add: row_of_checks known_ids_def keys_omap_set)
  then show ?case
    using Cons.IH [OF 2] Cons.prems(2) save_tasks_known [OF 2] by auto
qed simp

lemma save_submission_frame:
  "save_submission submission ts db = Inr db' \<Longrightarrow> s_tasks db' = s_tasks db \<and> s_faults db' = s_faults db
   \<and> s_decisions db' = s_decisions db"
  by (auto simp: save_submission_def rbind_Inr_iff split: option.splits list.splits if_splits)

lemma save_recovery_frame:
  "save_recovery recovery ts db = Inr db' \<Longrightarrow> s_tasks db' = s_tasks db \<and> s_faults db' = s_faults db
   \<and> s_submissions db' = s_submissions db"
  by (auto simp: save_recovery_def rbind_Inr_iff split: option.splits list.splits if_splits)

lemma save_body_E:
  assumes "save_body jc now ts stopped_batch override submission recovery db = Inr db'"
  obtains db0 db1 db2 where
    "db0 = (case stopped_batch of None \<Rightarrow> db | Some b \<Rightarrow> stop_batch b (insert_batch b db))"
    "s_tasks db0 = s_tasks db" "s_submissions db0 = s_submissions db" "s_decisions db0 = s_decisions db"
    "save_tasks jc now override (recovery \<noteq> None) ts db0 = Inr db1"
    "save_submission submission ts db1 = Inr db2" "save_recovery recovery ts db2 = Inr db'"
    "s_tasks db' = s_tasks db1"
proof -
  define db0 where "db0 = (case stopped_batch of None \<Rightarrow> db | Some b \<Rightarrow> stop_batch b (insert_batch b db))"
  from assms obtain db1 db2 where
    s: "save_tasks jc now override (recovery \<noteq> None) ts db0 = Inr db1"
    "save_submission submission ts db1 = Inr db2" "save_recovery recovery ts db2 = Inr db'"
    unfolding save_body_def Let_def db0_def by (auto simp: rbind_Inr_iff)
  have "s_tasks db0 = s_tasks db" "s_submissions db0 = s_submissions db" "s_decisions db0 = s_decisions db"
    by (simp_all add: db0_def split: option.splits)
  with s show thesis
    using that [OF db0_def] save_submission_frame save_recovery_frame by metis
qed

lemma save_Inl_state:
  "save jc now ts sb ov su re db = (Inl e, db') \<Longrightarrow> db' = db\<lparr>s_writes := Suc (s_writes db)\<rparr>"
  by (auto simp: save_def Let_def split: if_splits sum.splits)

lemma save_Inr_body:
  "save jc now ts sb ov su re db = (Inr u, db') \<Longrightarrow>
   \<not> s_faults db (s_writes db)
   \<and> save_body jc now ts sb ov su re (db\<lparr>s_writes := Suc (s_writes db)\<rparr>) = Inr db'"
  by (auto simp: save_def Let_def split: if_splits sum.splits)

lemma known_ids_writes [simp]: "known_ids (db\<lparr>s_writes := n\<rparr>) = known_ids db"
  by (simp add: known_ids_def)

lemma save_known_mono: "known_ids db \<subseteq> known_ids (snd (save jc now ts sb ov su re db))"
proof (cases "save jc now ts sb ov su re db")
  case (Pair r db')
  show ?thesis
  proof (cases r)
    case (Inl e)
    then show ?thesis using Pair save_Inl_state by fastforce
  next
    case (Inr u)
    let ?w = "db\<lparr>s_writes := Suc (s_writes db)\<rparr>"
    from Inr Pair have "save_body jc now ts sb ov su re ?w = Inr db'"
      by (simp add: save_Inr_body)
    then show ?thesis
    proof (rule save_body_E)
      fix db0 db1
      assume "s_tasks db0 = s_tasks ?w" "save_tasks jc now ov (re \<noteq> None) ts db0 = Inr db1" "s_tasks db' = s_tasks db1"
      then show ?thesis
        using save_tasks_known [of jc now ov "re \<noteq> None" ts db0 db1] Pair by (auto simp: known_ids_def)
    qed
  qed
qed

lemma save_stored:
  assumes "save jc now ts sb ov su re db = (Inr u, db')" and "\<forall>t \<in> set ts. storable t"
  shows "t_id ` set ts \<subseteq> known_ids db'"
proof (rule save_body_E [OF save_Inr_body [OF assms(1), THEN conjunct2]])
  fix db0 db1
  assume "save_tasks jc now ov (re \<noteq> None) ts db0 = Inr db1" "s_tasks db' = s_tasks db1"
  then show ?thesis
    using save_tasks_stored assms(2) by (metis known_ids_def)
qed

section \<open>The contract of a durable store\<close>

text \<open>
  What the scheduler relies on: a transaction that throws keeps the content, ids never leave the
  store, and a committed storable task is there.
\<close>

locale durable_store =
  fixes commit :: "Task list \<Rightarrow> 'p \<Rightarrow> ('db, unit) op"
    and ids :: "'db \<Rightarrow> u64 set"
    and content :: "'db \<Rightarrow> (u64 \<times> task_row) list"
    and fit :: "Task \<Rightarrow> bool"
  assumes write_atomic: "commit ts p db = (Inl x, db') \<Longrightarrow> content db' = content db"
    and write_mono: "ids db \<subseteq> ids (snd (commit ts p db))"
    and write_stored: "commit ts p db = (Inr u, db') \<Longrightarrow> \<forall>t \<in> set ts. fit t \<Longrightarrow> t_id ` set ts \<subseteq> ids db'"
begin

text \<open>Ids survive any number of further transactions, failed ones included.\<close>

lemma writes_mono: "ids db \<subseteq> ids (fold (\<lambda>(ts, p) d. snd (commit ts p d)) ws db)"
proof (induction ws arbitrary: db)
  case (Cons w ws)
  obtain ts p where "w = (ts, p)" by (cases w)
  then show ?case using Cons [of "snd (commit ts p db)"] write_mono [of db ts p] by auto
qed simp

lemma stored_forever:
  assumes "commit ts p db = (Inr u, db')" and "\<forall>t \<in> set ts. fit t" and "t \<in> set ts"
  shows "t_id t \<in> ids (fold (\<lambda>(ts, p) d. snd (commit ts p d)) ws db')"
  using write_stored [OF assms(1,2)] assms(3) writes_mono [of db' ws] by blast

end

interpretation disk: durable_store
  "\<lambda>ts (jc, now, sb, ov, su, re). save jc now ts sb ov su re" known_ids s_tasks storable
proof
  show "s_tasks db' = s_tasks db"
    if "(case p of (jc, now, sb, ov, su, re) \<Rightarrow> save jc now ts sb ov su re) db = (Inl x, db')" for ts p db x db'
    using that save_Inl_state by (fastforce split: prod.splits)
  show "known_ids db \<subseteq> known_ids (snd ((case p of (jc, now, sb, ov, su, re) \<Rightarrow> save jc now ts sb ov su re) db))" for db ts p
    by (cases p) (simp add: save_known_mono)
  show "t_id ` set ts \<subseteq> known_ids db'"
    if "(case p of (jc, now, sb, ov, su, re) \<Rightarrow> save jc now ts sb ov su re) db = (Inr u, db')"
      "\<forall>t \<in> set ts. storable t" for ts p db u db'
    using that save_stored by (auto split: prod.splits)
qed

section \<open>Round trip of a task through its row\<close>

text \<open>A task as it is read back: its times are cut to whole milliseconds.\<close>

definition persisted :: "Task \<Rightarrow> Task" where
  "persisted t =
     t\<lparr>t_created_at := fromMillis (millis (t_created_at t)),
       t_started_at := fromMillis (millis (t_started_at t)),
       t_finished_at := fromMillis (millis (t_finished_at t))\<rparr>"

definition i32_range :: "int \<Rightarrow> bool" where
  "i32_range n \<longleftrightarrow> - (2 ^ 31) \<le> n \<and> n < 2 ^ 31"

text \<open>
  What a task needs so that its row reads back: a REGRESSION task with an id SQLite can hold,
  texts without NUL bytes, JSON documents that survive the codec, C++ ints.
\<close>

definition persistable :: "json_codec \<Rightarrow> Task \<Rightarrow> bool" where
  "persistable jc t \<longleftrightarrow>
     t_type t = REGRESSION \<and> t_id t \<noteq> 0 \<and> uint (t_id t) < 2 ^ 63
     \<and> nul_free (t_target t) \<and> nul_free (t_revision t) \<and> nul_free (t_worker_id t) \<and> nul_free (t_run_id t)
     \<and> codec_ok jc (t_payload t) \<and> (is_null (t_execution_summary t) \<or> codec_ok jc (t_execution_summary t))
     \<and> i32_range (t_priority t) \<and> i32_range (t_retry_count t)"

lemma statusFrom_toString [simp]: "statusFrom (toString s) = Inr s"
  by (cases s) (simp_all add: statusFrom_def)

lemma column_int_id: "i32_range n \<Longrightarrow> column_int n = n"
  by (simp add: i32_range_def column_int_def signed_of_int signed_take_bit_int_eq_self)

lemma of_int_sint_u64 [simp]: "of_int (sint (w :: u64)) = w"
  by simp

lemma is_null_iff: "is_null j \<longleftrightarrow> j = JNull"
  by (cases j) auto

lemma nullable_nonempty: "s \<noteq> [] \<Longrightarrow> nullable s = Some s"
  by (simp add: nullable_def)

lemma row_of_persistable:
  assumes "persistable jc t"
  obtains r where "row_of jc t = Inr r" "task_of_row jc r = Inr (persisted t)"
    "r_task_id r = t_id t" "r_status r = toString (t_status t)"
    "r_batch_id r = nullable (store_batchId t)" "r_queue_sequence r = sint (t_queue_sequence t)"
proof -
  note p = assms [unfolded persistable_def]
  have id: "checkedId (t_id t) = Inr (t_id t)"
    using p by (auto simp: checkedId_def)
  obtain ps where ps: "jdump jc (t_payload t) = Some ps" "nul_free ps" "jparse jc ps = Some (t_payload t)"
    using p by (auto elim: codec_okE)
  obtain es where es: "dump_nullable jc (t_execution_summary t) = Inr es"
    and es': "(case es of None \<Rightarrow> Inr JNull
               | Some s \<Rightarrow> (case jparse jc (c_string s) of None \<Rightarrow> Inl (Json_error ''parse'') | Some j \<Rightarrow> Inr j))
             = Inr (t_execution_summary t)"
  proof (cases "is_null (t_execution_summary t)")
    case True
    then show thesis by (intro that [of None]) (auto simp: dump_nullable_def is_null_iff)
  next
    case False
    with p obtain s where "jdump jc (t_execution_summary t) = Some s" "s \<noteq> []" "nul_free s"
      "jparse jc s = Some (t_execution_summary t)"
      by (auto elim: codec_okE)
    with False show thesis
      by (intro that [of "Some s"]) (auto simp: dump_nullable_def nullable_nonempty)
  qed
  have t: "persisted t = restore (t_status t) (t_worker_id t) (t_retry_count t) (t_payload t)
      (t_execution_summary t) (t_queue_sequence t) (t_run_id t) (t_recovery_required t)
      (fromMillis (millis (t_created_at t))) (fromMillis (millis (t_started_at t)))
      (fromMillis (millis (t_finished_at t)))
      (setPriority (t_priority t) (new_task (t_id t) REGRESSION (t_target t) (t_revision t) 0))"
    using p by (simp add: persisted_def restore_def setPriority_def new_task_def)
  from p have ty: "type_toString (t_type t) = ''REGRESSION''" "nul_free ''REGRESSION''"
    by (auto simp: nul_free_def)
  show thesis
    by (rule that) (use p in \<open>auto simp: row_of_def id ps es task_of_row_def ty es' t column_int_id\<close>)
qed

text \<open>Rows after a transaction: the saved ones, and the others as before.\<close>

lemma save_tasks_map:
  assumes "save_tasks jc now override recovering ts db = Inr db'" and "omap_wf (s_tasks db)"
  shows "omap_wf (s_tasks db')
    \<and> (\<forall>i. map_of (s_tasks db') i =
         (case find (\<lambda>t. t_id t = i \<and> storable t) (rev ts) of
            None \<Rightarrow> map_of (s_tasks db) i
          | Some t \<Rightarrow> (case row_of jc t of Inl _ \<Rightarrow> None | Inr r \<Rightarrow> Some r)))"
  using assms
proof (induction ts arbitrary: db)
  case (Cons t ts)
  from Cons.prems obtain db1 where 1: "save_task jc now override recovering t db = Inr db1"
    and 2: "save_tasks jc now override recovering ts db1 = Inr db'"
    by (auto simp: rbind_Inr_iff)
  from 1 obtain r where r: "row_of jc t = Inr r"
    "s_tasks db1 = (if row_checks r then omap_set (t_id t) r (s_tasks db) else s_tasks db)"
    by (rule save_task_rows)
  then have wf: "omap_wf (s_tasks db1)"
    using Cons.prems(2) by (simp add: omap_wf_set)
  have m: "map_of (s_tasks db1) = (if storable t then (map_of (s_tasks db))(t_id t \<mapsto> r) else map_of (s_tasks db))"
    using r Cons.prems(2) by (simp add: map_of_omap_set row_of_checks)
  have f: "find P (xs @ [x]) = (case find P xs of None \<Rightarrow> if P x then Some x else None | Some y \<Rightarrow> Some y)"
    for P and xs and x :: Task
    by (induction xs) auto
  show ?case
    using Cons.IH [OF 2 wf] by (auto simp: f m r(1) split: option.splits)
qed auto

section \<open>The tasks table\<close>

text \<open>Rows are filed under their key, in the order of the keys.\<close>

definition store_ok :: "StateStore \<Rightarrow> bool" where
  "store_ok db \<longleftrightarrow> omap_wf (s_tasks db) \<and> (\<forall>i r. map_of (s_tasks db) i = Some r \<longrightarrow> r_task_id r = i)"

lemma store_ok_code [code]:
  "store_ok db \<longleftrightarrow> omap_wf (s_tasks db) \<and> list_all (\<lambda>(i, r). r_task_id r = i) (s_tasks db)"
  using omap_wf_distinct [of "s_tasks db"] by (auto simp: store_ok_def list_all_iff)

lemma store_ok_writes [simp]: "store_ok (db\<lparr>s_writes := n\<rparr>) = store_ok db"
  by (simp add: store_ok_def)

lemma store_ok_cong: "s_tasks db' = s_tasks db \<Longrightarrow> store_ok db' = store_ok db"
  by (simp add: store_ok_def)

lemma save_tasks_store_ok:
  assumes "save_tasks jc now override recovering ts db = Inr db'" and "store_ok db"
  shows "store_ok db'"
  unfolding store_ok_def
proof (intro conjI allI impI)
  have wf: "omap_wf (s_tasks db)" using assms(2) by (simp add: store_ok_def)
  note m = save_tasks_map [OF assms(1) wf]
  show "omap_wf (s_tasks db')" using m by blast
  fix i r assume "map_of (s_tasks db') i = Some r"
  with m show "r_task_id r = i"
    using assms(2) row_of_id
    by (fastforce simp: store_ok_def find_Some_iff split: option.splits sum.splits)
qed

lemma save_store_ok: "store_ok db \<Longrightarrow> store_ok (snd (save jc now ts sb ov su re db))"
proof (cases "save jc now ts sb ov su re db")
  case (Pair r db')
  assume ok: "store_ok db"
  show ?thesis
  proof (cases r)
    case (Inl e)
    then show ?thesis using Pair save_Inl_state ok by fastforce
  next
    case (Inr u)
    from Inr Pair have "save_body jc now ts sb ov su re (db\<lparr>s_writes := Suc (s_writes db)\<rparr>) = Inr db'"
      by (simp add: save_Inr_body)
    then show ?thesis
    proof (rule save_body_E)
      fix db0 db1
      assume "s_tasks db0 = s_tasks (db\<lparr>s_writes := Suc (s_writes db)\<rparr>)"
        and 1: "save_tasks jc now ov (re \<noteq> None) ts db0 = Inr db1" and "s_tasks db' = s_tasks db1"
      then have "store_ok db0" "store_ok db' = store_ok db1" using ok by (simp_all add: store_ok_def)
      with save_tasks_store_ok [OF 1] Pair show ?thesis by simp
    qed
  qed
qed

text \<open>A load by id that finds nothing: the id is not in the table.\<close>

lemma loadTasks_none:
  assumes "store_ok db" and "loadTasks jc i False [] db = Inr []" and "i \<noteq> 0"
  shows "i \<notin> known_ids db"
proof
  assume "i \<in> known_ids db"
  then obtain r where "map_of (s_tasks db) i = Some r"
    by (force simp: known_ids_def map_of_eq_None_iff dest: weak_map_of_SomeI)
  then have "r \<in> set (filter (row_selected i False []) (map snd (s_tasks db)))"
    using assms(1) by (auto simp: row_selected_def store_ok_def dest: map_of_SomeD intro: rev_image_eqI)
  moreover have "filter (row_selected i False []) (map snd (s_tasks db)) = []"
    using assms(2) rmap_Inr_list_all2 by (fastforce simp: loadTasks_def rbind_Inr_iff)
  ultimately show False by simp
qed

end
