(* ===== verification/WorkerManager.thy ===== *)
theory WorkerManager
  imports Worker StateStore
begin

text \<open>
  \<^verbatim>\<open>server/src/WorkerManager.cpp\<close>: registration, liveness, slot accounting and the management
  controls of the workers. Every operation takes the manager's lock for its whole body, so each
  is one step on the record below. The controls are kept as the JSON document the code keeps.
\<close>

record WorkerManager =
  wm_workers :: "(WorkerId \<times> Worker) list"
  wm_generation :: u64
  wm_controls :: json

definition kMaxWorkerIdBytes :: nat where
  "kMaxWorkerIdBytes = 256"

definition kMaxWorkerHostnameBytes :: nat where
  "kMaxWorkerHostnameBytes = 1024"

section \<open>Controls\<close>

definition controlJson :: "WorkerControl \<Rightarrow> string \<Rightarrow> json" where
  "controlJson c machine =
     jobject [(''machine_id'', JString machine), (''accepting'', JBool (c_accepting c)),
              (''operation_id'', JString (c_operation_id c)), (''scope'', JString (c_scope c)),
              (''state'', JString (c_state c)), (''error'', JString (c_error c))]"

definition parseControl :: "json \<Rightarrow> exn + WorkerControl" where
  "parseControl j =
     (if \<not> is_object j then Inl (Runtime_error ''invalid persisted Worker control'')
      else
        rbind (jat j ''accepting'') (\<lambda>acc.
        if \<not> is_boolean acc then Inl (Runtime_error ''invalid persisted Worker control'')
        else
          rbind (rbind (jat j ''operation_id'') get_string) (\<lambda>operation_id.
          rbind (rbind (jat j ''scope'') get_string) (\<lambda>scope.
          rbind (rbind (jat j ''state'') get_string) (\<lambda>state.
          rbind (rbind (jat j ''error'') get_string) (\<lambda>error.
            if state \<notin> {''IDLE'', ''PENDING'', ''RUNNING'', ''SUCCEEDED'', ''FAILED''}
               \<or> 512 < length error \<or> 128 < length operation_id
               \<or> (state \<noteq> ''IDLE'' \<and> (operation_id = [] \<or> (scope \<noteq> ''test2'' \<and> scope \<noteq> ''all'')))
            then Inl (Runtime_error ''invalid persisted Worker maintenance state'')
            else Inr \<lparr>c_accepting = bool_of acc, c_operation_id = operation_id, c_scope = scope,
                      c_state = state, c_error = error\<rparr>))))))"

definition controlFor :: "json \<Rightarrow> WorkerId \<Rightarrow> string \<Rightarrow> exn + WorkerControl" where
  "controlFor state i machine =
     rbind (jat state ''workers'') (\<lambda>ws.
       if contains ws i then
         (let row = jget ws i in
          rbind (jat row ''machine_id'') (\<lambda>m.
            if \<not> json_eq m (JString machine)
            then Inl (Invalid_argument ''managed Worker machine identity changed'')
            else parseControl row))
       else
         rbind (jat state ''machines'') (\<lambda>ms.
           if contains ms machine
           then rbind (get_bool (jget ms machine)) (\<lambda>b. Inr (default_control\<lparr>c_accepting := b\<rparr>))
           else Inr default_control))"

definition no_controls :: json where
  "no_controls = jobject [(''machines'', JObject []), (''workers'', JObject [])]"

text \<open>The constructor: the persisted controls are checked, and a request history is added.\<close>

definition check_worker_controls :: "json \<Rightarrow> exn + unit" where
  "check_worker_controls ws =
     rbind (rmap (\<lambda>(_, v). rbind (parseControl v) (\<lambda>_. rbind (jat v ''machine_id'') get_string)) (members ws))
       (\<lambda>_. Inr ())"

definition new_worker_manager :: "json_codec \<Rightarrow> StateStore option \<Rightarrow> exn + WorkerManager" where
  "new_worker_manager jc store =
     rbind (case store of None \<Rightarrow> Inr no_controls | Some db \<Rightarrow> loadWorkerControls jc db) (\<lambda>controls.
     if \<not> is_object controls then Inl (Runtime_error ''invalid persisted Worker management'')
     else
       rbind (jat controls ''machines'') (\<lambda>machines.
       if \<not> is_object machines then Inl (Runtime_error ''invalid persisted Worker management'')
       else
         rbind (jat controls ''workers'') (\<lambda>ws.
         if \<not> is_object ws then Inl (Runtime_error ''invalid persisted Worker management'')
         else if \<exists>p \<in> set (members machines). \<not> is_boolean (snd p)
         then Inl (Runtime_error ''invalid machine policy'')
         else
           rbind (check_worker_controls ws) (\<lambda>_.
           let controls' = (if contains controls ''requests'' then controls
                            else jset controls ''requests'' (JObject [])) in
           if \<not> is_object (jget controls' ''requests'')
           then Inl (Runtime_error ''invalid control request history'')
           else Inr \<lparr>wm_workers = [], wm_generation = 0, wm_controls = controls'\<rparr>))))"

text \<open>
  \<^verbatim>\<open>commitControls\<close>: every worker's new control is computed first, then the document is saved,
  then both are published.
\<close>

definition commitControls :: "json_codec \<Rightarrow> json \<Rightarrow> (WorkerManager \<times> StateStore option, unit) op" where
  "commitControls jc next s =
     (case s of (wm, store) \<Rightarrow>
       (case rmap (\<lambda>(i, w). rbind (controlFor next i (w_machine_id w)) (\<lambda>c. Inr (i, w\<lparr>w_control := c\<rparr>)))
               (wm_workers wm) of
          Inl e \<Rightarrow> (Inl e, s)
        | Inr prepared \<Rightarrow>
            (let wm' = wm\<lparr>wm_controls := next, wm_workers := prepared, wm_generation := wm_generation wm + 1\<rparr> in
             (case store of
                None \<Rightarrow> (Inr (), (wm', None))
              | Some db \<Rightarrow>
                  (case saveWorkerControls jc next db of
                     (Inl e, db') \<Rightarrow> (Inl e, (wm, Some db'))
                   | (Inr _, db') \<Rightarrow> (Inr (), (wm', Some db')))))))"

definition setControlSupported :: "WorkerId \<Rightarrow> bool \<Rightarrow> WorkerManager \<Rightarrow> WorkerManager" where
  "setControlSupported i supported wm =
     (case map_of (wm_workers wm) i of
        None \<Rightarrow> wm
      | Some w \<Rightarrow> wm\<lparr>wm_workers := AList.update i (w\<lparr>w_control_supported := supported\<rparr>) (wm_workers wm),
                     wm_generation := wm_generation wm + 1\<rparr>)"

text \<open>One worker of a control request: the document, the affected and the skipped ids.\<close>

definition control_one ::
  "WorkerManager \<Rightarrow> bool \<Rightarrow> string \<Rightarrow> string \<Rightarrow> string \<Rightarrow> WorkerId \<Rightarrow>
   json \<times> string list \<times> string list \<Rightarrow> exn + (json \<times> string list \<times> string list)" where
  "control_one wm machine action operation_id scope i acc =
     (case acc of (next, affected, skipped) \<Rightarrow>
       (let found = map_of (wm_workers wm) i;
            online = (case found of None \<Rightarrow> False | Some w \<Rightarrow> w_status w = ONLINE) in
        if action = ''resume'' \<and> \<not> online then
          (if \<not> machine
           then Inl (Logic_error ''resume requires an ONLINE slot; offline/draining policy is unchanged'')
           else Inr (next, affected, skipped @ [i]))
        else
          rbind (case found of Some w \<Rightarrow> Inr (w_machine_id w)
                 | None \<Rightarrow> get_string (jget (jget (jget next ''workers'') i) ''machine_id'')) (\<lambda>host.
          rbind (controlFor next i host) (\<lambda>c.
          let pending = (c_state c = ''PENDING'' \<or> c_state c = ''RUNNING'') in
          rbind
            (if action = ''update'' then
               (case found of
                  None \<Rightarrow> Inl (Logic_error ''update requires online, non-draining slots'')
                | Some w \<Rightarrow>
                    if w_status w \<noteq> ONLINE then Inl (Logic_error ''update requires online, non-draining slots'')
                    else if \<not> w_control_supported w \<or> w_total_slots w \<noteq> 1
                    then Inl (Logic_error ''Worker does not support maintenance v1; upgrade Worker first'')
                    else if pending then Inl (Logic_error ''another maintenance operation is pending'')
                    else Inr (c\<lparr>c_operation_id := operation_id, c_scope := scope,
                               c_state := ''PENDING'', c_error := []\<rparr>))
             else if action = ''pause'' then Inr (c\<lparr>c_accepting := False\<rparr>)
             else if pending then Inl (Logic_error ''cannot resume before maintenance finishes'')
             else Inr (c\<lparr>c_accepting := True, c_operation_id := [], c_scope := [],
                        c_state := ''IDLE'', c_error := []\<rparr>))
            (\<lambda>c'. Inr (jset next ''workers'' (jset (jget next ''workers'') i (controlJson c' host)),
                        affected @ [i], skipped))))))"

fun control_loop ::
  "WorkerManager \<Rightarrow> bool \<Rightarrow> string \<Rightarrow> string \<Rightarrow> string \<Rightarrow> WorkerId list \<Rightarrow>
   json \<times> string list \<times> string list \<Rightarrow> exn + (json \<times> string list \<times> string list)" where
  "control_loop wm machine action operation_id scope [] acc = Inr acc"
| "control_loop wm machine action operation_id scope (i # ids) acc =
     rbind (control_one wm machine action operation_id scope i acc)
       (control_loop wm machine action operation_id scope ids)"

definition control_ids :: "WorkerManager \<Rightarrow> bool \<Rightarrow> string \<Rightarrow> string list" where
  "control_ids wm machine target =
     map fst (filter (\<lambda>(i, w). if machine then w_machine_id w = target else i = target) (wm_workers wm))"

definition control_note :: "string \<Rightarrow> string" where
  "control_note action =
     (if action = ''update'' then ''queued; wait for Worker acknowledgement''
      else if action = ''resume''
      then ''only ONLINE slots resumed; OFFLINE/DRAINING and future slot policies unchanged''
      else ''policy saved; active cases are not terminated'')"

text \<open>
  \<^verbatim>\<open>control\<close> up to its commit: either an answer (\<open>Inl\<close>: an unknown target, or the result of the
  same operation requested before) or the new document with the result to return.
\<close>

definition control_plan ::
  "WorkerManager \<Rightarrow> bool \<Rightarrow> string \<Rightarrow> string \<Rightarrow> string \<Rightarrow> string \<Rightarrow>
   exn + (json option + json \<times> json)" where
  "control_plan wm machine target action operation_id scope =
     (if target = [] \<or> 256 < length target \<or> operation_id = [] \<or> 128 < length operation_id
         \<or> (action \<noteq> ''pause'' \<and> action \<noteq> ''resume'' \<and> action \<noteq> ''update'')
         \<or> (if action = ''update'' then scope \<noteq> ''test2'' \<and> scope \<noteq> ''all'' else scope \<noteq> [])
      then Inl (Invalid_argument ''invalid Worker control parameters'')
      else
        (let fingerprint = jobject [(''machine'', JBool machine), (''target'', JString target),
                                    (''action'', JString action), (''scope'', JString scope)];
             requests = jget (wm_controls wm) ''requests'' in
         if contains requests operation_id then
           rbind (jat (jget requests operation_id) ''request'') (\<lambda>r.
             if \<not> json_eq r fingerprint
             then Inl (Invalid_argument ''operation_id reused with different parameters'')
             else rbind (jat (jget requests operation_id) ''result'') (\<lambda>result. Inr (Inl (Some result))))
         else
           (let ids0 = control_ids wm machine target in
            if ids0 = [] then Inr (Inl None)
            else
              rbind (if machine \<and> action = ''pause''
                     then rmap (\<lambda>(i, v). rbind (jat v ''machine_id'') (\<lambda>m. Inr (i, m)))
                            (members (jget (wm_controls wm) ''workers''))
                     else Inr []) (\<lambda>rows.
              let ids = ids0 @ map fst (filter (\<lambda>(i, m). json_eq m (JString target)) rows) in
              rbind (control_loop wm machine action operation_id scope
                       (remdups_adj (sort ids)) (wm_controls wm, [], [])) (\<lambda>(next, affected, skipped).
              let next1 = (if machine \<and> action = ''pause''
                           then jset next ''machines'' (jset (jget next ''machines'') target (JBool False))
                           else next);
                  result = jobject [(''operation_id'', JString operation_id), (''action'', JString action),
                     (''worker_ids'', JArray (map JString affected)),
                     (''accepted'', juint (length affected)),
                     (''skipped_worker_ids'', JArray (map JString skipped)),
                     (''note'', JString (control_note action))];
                  next2 = jset next1 ''requests'' (jset (jget next1 ''requests'') operation_id
                     (jobject [(''request'', fingerprint), (''result'', result)]))
              in Inr (Inr (next2, result)))))))"

definition control ::
  "json_codec \<Rightarrow> bool \<Rightarrow> string \<Rightarrow> string \<Rightarrow> string \<Rightarrow> string \<Rightarrow>
   (WorkerManager \<times> StateStore option, json option) op" where
  "control jc machine target action operation_id scope s =
     (case control_plan (fst s) machine target action operation_id scope of
        Inl e \<Rightarrow> (Inl e, s)
      | Inr (Inl answer) \<Rightarrow> (Inr answer, s)
      | Inr (Inr (next, result)) \<Rightarrow>
          (case commitControls jc next s of
             (Inl e, s') \<Rightarrow> (Inl e, s')
           | (Inr _, s') \<Rightarrow> (Inr (Some result), s')))"

text \<open>The answer to a management heartbeat.\<close>

definition management_reply :: "Worker \<Rightarrow> json" where
  "management_reply w =
     (let c = w_control w in
      jobject [(''accepting_tasks'', JBool (available c)),
               (''maintenance_state'', JString (c_state c)),
               (''command'', if c_state c = ''PENDING'' \<and> w_used_slots w = 0
                             then jobject [(''operation_id'', JString (c_operation_id c)),
                                           (''scope'', JString (c_scope c))]
                             else JNull)])"

text \<open>What an acknowledgement changes: \<open>Some\<close> the document to commit.\<close>

definition ack_plan :: "WorkerManager \<Rightarrow> WorkerId \<Rightarrow> Worker \<Rightarrow> json \<Rightarrow> exn + json option" where
  "ack_plan wm i w ack =
     (if is_null ack then Inr None
      else if \<not> is_object ack \<or> jsize ack \<noteq> 3
          \<or> \<not> contains ack ''operation_id'' \<or> \<not> is_string (jget ack ''operation_id'')
          \<or> \<not> contains ack ''state'' \<or> \<not> is_string (jget ack ''state'')
          \<or> \<not> contains ack ''error'' \<or> \<not> is_string (jget ack ''error'')
          \<or> 512 < length (str_of (jget ack ''error''))
          \<or> 128 < length (str_of (jget ack ''operation_id''))
      then Inl (Invalid_argument ''invalid maintenance acknowledgement'')
      else
        (let phase = str_of (jget ack ''state''); current = w_control w in
         if phase \<noteq> ''RUNNING'' \<and> phase \<noteq> ''SUCCEEDED'' \<and> phase \<noteq> ''FAILED''
         then Inl (Invalid_argument ''invalid maintenance phase'')
         else if c_operation_id current \<noteq> [] \<and> str_of (jget ack ''operation_id'') = c_operation_id current
            \<and> (c_state current = ''PENDING'' \<or> c_state current = ''RUNNING'')
         then
           (if w_used_slots w \<noteq> 0
            then Inl (Logic_error ''maintenance cannot run while a task owns the slot'')
            else
              (let row0 = jget (jget (wm_controls wm) ''workers'') i;
                   row = jset (jset row0 ''state'' (JString phase)) ''error'' (jget ack ''error'') in
               if json_eq row row0 then Inr None
               else Inr (Some (jset (wm_controls wm) ''workers''
                                 (jset (jget (wm_controls wm) ''workers'') i row)))))
         else Inr None))"

definition managementHeartbeat :: "json_codec \<Rightarrow> WorkerId \<Rightarrow> json \<Rightarrow> (WorkerManager \<times> StateStore option, json) op" where
  "managementHeartbeat jc i ack s =
     (case map_of (wm_workers (fst s)) i of
        None \<Rightarrow> (Inl (Invalid_argument ''unknown Worker''), s)
      | Some w \<Rightarrow>
          (case ack_plan (fst s) i w ack of
             Inl e \<Rightarrow> (Inl e, s)
           | Inr None \<Rightarrow> (Inr (management_reply w), s)
           | Inr (Some next) \<Rightarrow>
               (case commitControls jc next s of
                  (Inl e, s') \<Rightarrow> (Inl e, s')
                | (Inr _, s') \<Rightarrow>
                    (Inr (management_reply (the (map_of (wm_workers (fst s')) i))), s'))))"

section \<open>Registration and liveness\<close>

text \<open>
  The worker object after a registration: the known one updated, or a new one. A registration
  that names machine and slot makes the identity explicit.
\<close>

definition registered_worker ::
  "time_point \<Rightarrow> WorkerId \<Rightarrow> string \<Rightarrow> u32 \<Rightarrow> string \<Rightarrow> string \<Rightarrow> bool \<Rightarrow> WorkerControl \<Rightarrow> Worker option \<Rightarrow> Worker" where
  "registered_worker now worker_id hostname slots machine slot explicit_identity c known =
     (case known of
        Some w \<Rightarrow>
          (let w1 = setIdentity machine slot explicit_identity (w\<lparr>w_hostname := hostname\<rparr>);
               w2 = setOnline (setTotalSlots slots w1)
           in updateHeartbeat now (w2\<lparr>w_control := c\<rparr>))
      | None \<Rightarrow>
          (let w1 = setIdentity machine slot explicit_identity (new_worker worker_id hostname slots now)
           in updateHeartbeat now (setOnline (w1\<lparr>w_control := c\<rparr>))))"

text \<open>
  \<^verbatim>\<open>registerWorker\<close>: the identity checks, then the control of the worker (which may throw), then
  the duplicate slot check, and either an update of the known worker or a new one.
\<close>

definition registerWorker ::
  "time_point \<Rightarrow> WorkerId \<Rightarrow> string \<Rightarrow> u32 \<Rightarrow> string \<Rightarrow> string \<Rightarrow> (WorkerManager, bool) op" where
  "registerWorker now worker_id hostname slots machine_id slot_id wm =
     (if worker_id = [] \<or> kMaxWorkerIdBytes < length worker_id \<or> kMaxWorkerHostnameBytes < length hostname
      then (Inr False, wm)
      else if hostname = [] then (Inr False, wm)
      else if slots = 0 \<or> (machine_id \<noteq> [] \<and> 64 < length machine_id) \<or> (slot_id \<noteq> [] \<and> 64 < length slot_id)
      then (Inr False, wm)
      else
        (let machine = (if machine_id = [] then hostname else machine_id);
             slot = (if slot_id = [] then worker_id else slot_id);
             explicit_identity = (machine_id \<noteq> [] \<and> slot_id \<noteq> []);
             known = map_of (wm_workers wm) worker_id in
         (case controlFor (wm_controls wm) worker_id machine of
            Inl e \<Rightarrow> (Inl e, wm)
          | Inr c \<Rightarrow>
              if \<exists>(i, w) \<in> set (wm_workers wm). i \<noteq> worker_id \<and> w_machine_id w = machine \<and> w_slot_id w = slot
              then (Inr False, wm)
              else if (case known of None \<Rightarrow> False
                       | Some w \<Rightarrow> w_explicit_identity w \<and> (w_machine_id w \<noteq> machine \<or> w_slot_id w \<noteq> slot))
              then (Inr False, wm)
              else (Inr True,
                    wm\<lparr>wm_workers := AList.update worker_id
                         (registered_worker now worker_id hostname slots machine slot explicit_identity c known)
                         (wm_workers wm),
                       wm_generation := wm_generation wm + 1\<rparr>))))"

text \<open>The three liveness updates share the lookup; \<open>f\<close> is what they do to the worker.\<close>

definition touch_worker :: "(Worker \<Rightarrow> Worker) \<Rightarrow> WorkerId \<Rightarrow> WorkerManager \<Rightarrow> bool \<times> WorkerManager" where
  "touch_worker f i wm =
     (case map_of (wm_workers wm) i of
        None \<Rightarrow> (False, wm)
      | Some w \<Rightarrow> (True, wm\<lparr>wm_workers := AList.update i (f w) (wm_workers wm),
                            wm_generation := wm_generation wm + 1\<rparr>))"

definition markDraining :: "WorkerId \<Rightarrow> WorkerManager \<Rightarrow> bool \<times> WorkerManager" where
  "markDraining = touch_worker setDraining"

definition markOffline :: "WorkerId \<Rightarrow> WorkerManager \<Rightarrow> bool \<times> WorkerManager" where
  "markOffline = touch_worker setOffline"

definition heartbeat :: "time_point \<Rightarrow> WorkerId \<Rightarrow> WorkerManager \<Rightarrow> bool \<times> WorkerManager" where
  "heartbeat now = touch_worker (updateHeartbeat now)"

section \<open>Slots\<close>

definition acquireSlot :: "WorkerId \<Rightarrow> WorkerManager \<Rightarrow> bool \<times> WorkerManager" where
  "acquireSlot i wm =
     (case map_of (wm_workers wm) i of
        None \<Rightarrow> (False, wm)
      | Some w \<Rightarrow>
          if w_status w \<noteq> ONLINE \<or> \<not> acceptsTasks w then (False, wm)
          else (case acquire_slot w of (changed, w') \<Rightarrow>
                 if changed
                 then (True, wm\<lparr>wm_workers := AList.update i w' (wm_workers wm),
                                wm_generation := wm_generation wm + 1\<rparr>)
                 else (False, wm)))"

definition releaseSlot :: "WorkerId \<Rightarrow> WorkerManager \<Rightarrow> bool \<times> WorkerManager" where
  "releaseSlot i wm =
     (case map_of (wm_workers wm) i of
        None \<Rightarrow> (False, wm)
      | Some w \<Rightarrow>
          (case release_slot w of (changed, w') \<Rightarrow>
             if changed
             then (True, wm\<lparr>wm_workers := AList.update i w' (wm_workers wm),
                            wm_generation := wm_generation wm + 1\<rparr>)
             else (False, wm)))"

section \<open>Queries and timeouts\<close>

definition getWorker :: "WorkerId \<Rightarrow> WorkerManager \<Rightarrow> Worker option" where
  "getWorker i wm = map_of (wm_workers wm) i"

definition snapshot :: "WorkerManager \<Rightarrow> u64 \<times> Worker list" where
  "snapshot wm = (wm_generation wm, map snd (wm_workers wm))"

definition getWorkers :: "WorkerManager \<Rightarrow> Worker list" where
  "getWorkers wm = snd (snapshot wm)"

definition getOnlineWorkers :: "WorkerManager \<Rightarrow> Worker list" where
  "getOnlineWorkers wm = filter (\<lambda>w. w_status w = ONLINE) (map snd (wm_workers wm))"

definition getAvailableWorkers :: "WorkerManager \<Rightarrow> Worker list" where
  "getAvailableWorkers wm =
     filter (\<lambda>w. w_status w = ONLINE \<and> acceptsTasks w \<and> hasFreeSlot w) (map snd (wm_workers wm))"

text \<open>Seconds since the last heartbeat, truncated towards zero.\<close>

definition elapsed_seconds :: "time_point \<Rightarrow> Worker \<Rightarrow> int" where
  "elapsed_seconds now w = (let d = now - w_last_heartbeat w in sgn d * (\<bar>d\<bar> div 1000000000))"

definition timed_out :: "time_point \<Rightarrow> int \<Rightarrow> Worker \<Rightarrow> bool" where
  "timed_out now timeout w \<longleftrightarrow> w_status w \<noteq> OFFLINE \<and> timeout < elapsed_seconds now w"

definition checkTimeouts :: "time_point \<Rightarrow> int \<Rightarrow> WorkerManager \<Rightarrow> WorkerManager" where
  "checkTimeouts now timeout wm =
     wm\<lparr>wm_workers := map (\<lambda>(i, w). (i, if timed_out now timeout w then setOffline w else w)) (wm_workers wm),
        wm_generation := wm_generation wm
           + of_nat (length (filter (\<lambda>(i, w). timed_out now timeout w) (wm_workers wm)))\<rparr>"

section \<open>Slot accounting and representation\<close>

text \<open>Slots taken on a worker; none on an unknown one.\<close>

definition used :: "WorkerManager \<Rightarrow> WorkerId \<Rightarrow> nat" where
  "used wm i = (case map_of (wm_workers wm) i of None \<Rightarrow> 0 | Some w \<Rightarrow> unat (w_used_slots w))"

text \<open>Every worker is filed under its id, and no two share a machine slot.\<close>

definition wm_ok :: "WorkerManager \<Rightarrow> bool" where
  "wm_ok wm \<longleftrightarrow>
     distinct (map fst (wm_workers wm))
     \<and> (\<forall>i w. map_of (wm_workers wm) i = Some w \<longrightarrow> w_id w = i \<and> i \<noteq> [])
     \<and> (\<forall>i j w v. map_of (wm_workers wm) i = Some w \<longrightarrow> map_of (wm_workers wm) j = Some v \<longrightarrow>
          w_machine_id w = w_machine_id v \<longrightarrow> w_slot_id w = w_slot_id v \<longrightarrow> i = j)"

lemma wm_okD:
  assumes "wm_ok wm"
  shows "distinct (map fst (wm_workers wm))"
    and "map_of (wm_workers wm) i = Some w \<Longrightarrow> w_id w = i"
    and "map_of (wm_workers wm) i = Some w \<Longrightarrow> i \<noteq> []"
    and "map_of (wm_workers wm) i = Some w \<Longrightarrow> map_of (wm_workers wm) j = Some v \<Longrightarrow>
         w_machine_id w = w_machine_id v \<Longrightarrow> w_slot_id w = w_slot_id v \<Longrightarrow> i = j"
  using assms unfolding wm_ok_def by blast+

text \<open>Replacing a worker by one with the same identity.\<close>

lemma wm_ok_update:
  assumes "wm_ok wm" and "map_of (wm_workers wm) i = Some w"
    and "w_id w' = w_id w" "w_machine_id w' = w_machine_id w" "w_slot_id w' = w_slot_id w"
  shows "wm_ok (wm\<lparr>wm_workers := AList.update i w' (wm_workers wm), wm_generation := g\<rparr>)"
  using assms by (fastforce simp: wm_ok_def)

lemma used_update:
  "used (wm\<lparr>wm_workers := AList.update i w' (wm_workers wm), wm_generation := g\<rparr>)
   = (used wm)(i := unat (w_used_slots w'))"
  by (auto simp: used_def fun_eq_iff)

lemma used_update_same:
  assumes "map_of (wm_workers wm) i = Some w" and "w_used_slots w' = w_used_slots w"
  shows "used (wm\<lparr>wm_workers := AList.update i w' (wm_workers wm), wm_generation := g\<rparr>) = used wm"
  using assms by (auto simp: used_update used_def fun_eq_iff)

lemma acquireSlot_True:
  assumes "acquireSlot i wm = (True, wm')"
  shows "used wm' = (used wm)(i := Suc (used wm i))"
    and "wm_ok wm \<Longrightarrow> wm_ok wm'"
    and "\<exists>w. map_of (wm_workers wm) i = Some w \<and> w_status w = ONLINE \<and> acceptsTasks w \<and> hasFreeSlot w"
proof -
  from assms obtain w w' where w: "map_of (wm_workers wm) i = Some w" "w_status w = ONLINE" "acceptsTasks w"
    and a: "acquire_slot w = (True, w')"
    and wm': "wm' = wm\<lparr>wm_workers := AList.update i w' (wm_workers wm), wm_generation := wm_generation wm + 1\<rparr>"
    by (auto simp: acquireSlot_def split: option.splits if_splits prod.splits)
  from acquire_slot_True [OF a] have w': "w' = w\<lparr>w_used_slots := w_used_slots w + 1\<rparr>"
    and u: "unat (w_used_slots w') = Suc (unat (w_used_slots w))" by auto
  from w(1) have "used wm i = unat (w_used_slots w)" by (simp add: used_def)
  then show "used wm' = (used wm)(i := Suc (used wm i))"
    by (simp add: wm' used_update u)
  show "wm_ok wm \<Longrightarrow> wm_ok wm'"
    unfolding wm' by (erule wm_ok_update [OF _ w(1)]) (simp_all add: w')
  from a have "hasFreeSlot w" by (simp add: acquire_slot_def split: if_splits)
  with w show "\<exists>w. map_of (wm_workers wm) i = Some w \<and> w_status w = ONLINE \<and> acceptsTasks w \<and> hasFreeSlot w"
    by blast
qed

lemma acquireSlot_False: "acquireSlot i wm = (False, wm') \<Longrightarrow> wm' = wm"
  by (auto simp: acquireSlot_def split: option.splits if_splits prod.splits)

lemma releaseSlot_flag: "fst (releaseSlot i wm) \<longleftrightarrow> used wm i \<noteq> 0"
  by (auto simp: releaseSlot_def used_def release_slot_def unat_eq_zero unat_gt_0 split: option.splits)

lemma releaseSlot_used: "used (snd (releaseSlot i wm)) = (used wm)(i := used wm i - 1)"
  by (auto simp: releaseSlot_def release_slot_def used_def fun_eq_iff unat_used_release unat_eq_zero
      unat_gt_0 split: option.splits)

lemma releaseSlot_ok: "wm_ok wm \<Longrightarrow> wm_ok (snd (releaseSlot i wm))"
  by (auto simp: releaseSlot_def release_slot_def intro: wm_ok_update split: option.splits)

lemma releaseSlot_False: "fst (releaseSlot i wm) = False \<Longrightarrow> snd (releaseSlot i wm) = wm"
  by (auto simp: releaseSlot_def release_slot_def split: option.splits if_splits)

section \<open>The contract of a slot provider\<close>

text \<open>
  What the scheduler relies on: a granted slot is counted, a returned slot is uncounted and is
  refused only when none is taken.
\<close>

locale slot_provider =
  fixes acquire :: "WorkerId \<Rightarrow> 'm \<Rightarrow> bool \<times> 'm"
    and release :: "WorkerId \<Rightarrow> 'm \<Rightarrow> bool \<times> 'm"
    and taken :: "'m \<Rightarrow> WorkerId \<Rightarrow> nat"
    and good :: "'m \<Rightarrow> bool"
  assumes acquire_taken: "acquire i m = (True, m') \<Longrightarrow> taken m' = (taken m)(i := Suc (taken m i))"
    and acquire_refused: "acquire i m = (False, m') \<Longrightarrow> m' = m"
    and acquire_good: "acquire i m = (b, m') \<Longrightarrow> good m \<Longrightarrow> good m'"
    and release_taken: "taken (snd (release i m)) = (taken m)(i := taken m i - 1)"
    and release_granted: "fst (release i m) \<longleftrightarrow> taken m i \<noteq> 0"
    and release_good: "good m \<Longrightarrow> good (snd (release i m))"
begin

lemma release_many_taken:
  "taken (fold (\<lambda>i m. snd (release i m)) is m) j = taken m j - count_list is j"
  by (induction "is" arbitrary: m) (auto simp: release_taken)

lemma release_many_good: "good m \<Longrightarrow> good (fold (\<lambda>i m. snd (release i m)) is m)"
  by (induction "is" arbitrary: m) (auto simp: release_good)

text \<open>Giving back exactly what was taken restores the counts.\<close>

lemma release_many_undo:
  assumes "\<And>j. taken m' j = taken m j + count_list is j"
  shows "taken (fold (\<lambda>i m. snd (release i m)) is m') = taken m"
  by (rule ext) (simp add: release_many_taken assms)

end

interpretation slots: slot_provider acquireSlot releaseSlot used wm_ok
proof
  show "acquireSlot i m = (b, m') \<Longrightarrow> wm_ok m \<Longrightarrow> wm_ok m'" for i m b m'
    by (cases b) (auto dest: acquireSlot_True acquireSlot_False)
qed (auto simp: acquireSlot_True acquireSlot_False releaseSlot_used releaseSlot_flag releaseSlot_ok)

section \<open>Operations that do not touch slots\<close>

lemma touch_worker_keeps:
  assumes "\<And>w. w_used_slots (f w) = w_used_slots w" "\<And>w. w_id (f w) = w_id w"
    "\<And>w. w_machine_id (f w) = w_machine_id w" "\<And>w. w_slot_id (f w) = w_slot_id w"
  shows "used (snd (touch_worker f i wm)) = used wm"
    and "wm_ok wm \<Longrightarrow> wm_ok (snd (touch_worker f i wm))"
  using assms by (auto simp: touch_worker_def used_update_same intro: wm_ok_update split: option.splits)

lemma liveness_keeps [simp]:
  "used (snd (markDraining i wm)) = used wm" "used (snd (markOffline i wm)) = used wm"
  "used (snd (heartbeat now i wm)) = used wm"
  "wm_ok wm \<Longrightarrow> wm_ok (snd (markDraining i wm))" "wm_ok wm \<Longrightarrow> wm_ok (snd (markOffline i wm))"
  "wm_ok wm \<Longrightarrow> wm_ok (snd (heartbeat now i wm))"
  unfolding markDraining_def markOffline_def heartbeat_def
  by (rule touch_worker_keeps; simp add: worker_setters)+

lemma map_of_workers_map:
  "map_of (map (\<lambda>(i, w). (i, f i w)) ws) k = map_option (f k) (map_of ws k)"
  by (rule map_of_al_map_val)

lemma checkTimeouts_keeps [simp]:
  "used (checkTimeouts now timeout wm) = used wm"
  "wm_ok wm \<Longrightarrow> wm_ok (checkTimeouts now timeout wm)"
proof -
  let ?f = "\<lambda>w. if timed_out now timeout w then setOffline w else w"
  have look: "map_of (wm_workers (checkTimeouts now timeout wm)) k = map_option ?f (map_of (wm_workers wm) k)" for k
    using map_of_al_map_val [of "\<lambda>_. ?f"] by (simp add: checkTimeouts_def)
  have keys: "map fst (wm_workers (checkTimeouts now timeout wm)) = map fst (wm_workers wm)"
    by (simp add: checkTimeouts_def split_beta)
  show "used (checkTimeouts now timeout wm) = used wm"
    by (auto simp: used_def look fun_eq_iff setOffline_def split: option.splits)
  have ident: "w_id (?f w) = w_id w" "w_machine_id (?f w) = w_machine_id w" "w_slot_id (?f w) = w_slot_id w" for w
    by (simp_all add: setOffline_def)
  show "wm_ok wm \<Longrightarrow> wm_ok (checkTimeouts now timeout wm)"
    unfolding wm_ok_def look keys
    by (fastforce simp: ident split del: if_split)
qed

lemma setControlSupported_keeps [simp]:
  "used (setControlSupported i b wm) = used wm"
  "wm_ok wm \<Longrightarrow> wm_ok (setControlSupported i b wm)"
  by (auto simp: setControlSupported_def used_update_same intro: wm_ok_update split: option.splits)

text \<open>Publishing new controls changes nothing but the controls.\<close>

definition same_but_control :: "WorkerManager \<Rightarrow> WorkerManager \<Rightarrow> bool" where
  "same_but_control wm wm' \<longleftrightarrow>
     list_all2 (\<lambda>(i, w) (j, v). i = j \<and> (\<exists>c. v = w\<lparr>w_control := c\<rparr>)) (wm_workers wm) (wm_workers wm')"

lemma same_but_control_refl: "same_but_control wm wm"
proof -
  have "\<exists>c. w = w\<lparr>w_control := c\<rparr>" for w :: Worker
    by (rule exI [of _ "w_control w"]) simp
  then show ?thesis unfolding same_but_control_def by (intro list.rel_refl) auto
qed

lemma list_all2_control_lookup:
  "list_all2 (\<lambda>(i, w) (j, v). i = j \<and> (\<exists>c. v = w\<lparr>w_control := c\<rparr>)) xs ys \<Longrightarrow>
   map fst ys = map fst xs
   \<and> (\<forall>k. rel_option (\<lambda>w v. \<exists>c. v = w\<lparr>w_control := c\<rparr>) (map_of xs k) (map_of ys k))"
  by (induction rule: list_all2_induct) (auto split: prod.splits)

lemma same_but_control_keeps:
  assumes "same_but_control wm wm'"
  shows "used wm' = used wm" and "wm_ok wm \<Longrightarrow> wm_ok wm'"
proof -
  have keys: "map fst (wm_workers wm') = map fst (wm_workers wm)"
    and look: "\<And>k. rel_option (\<lambda>w v. \<exists>c. v = w\<lparr>w_control := c\<rparr>) (map_of (wm_workers wm) k) (map_of (wm_workers wm') k)"
    using list_all2_control_lookup assms by (auto simp: same_but_control_def)
  have some: "\<exists>w c. map_of (wm_workers wm) k = Some w \<and> v = w\<lparr>w_control := c\<rparr>"
    if "map_of (wm_workers wm') k = Some v" for k v
    using look [of k] that by (cases "map_of (wm_workers wm) k") auto
  show "used wm' = used wm"
  proof
    fix k show "used wm' k = used wm k"
      using look [of k] by (auto simp: used_def elim!: option.rel_cases)
  qed
  show "wm_ok wm'" if ok: "wm_ok wm"
    unfolding wm_ok_def keys
  proof (intro conjI allI impI)
    show "distinct (map fst (wm_workers wm))" using ok by (rule wm_okD)
  next
    fix i v assume "map_of (wm_workers wm') i = Some v"
    from some [OF this] show "w_id v = i" "i \<noteq> []" using wm_okD [OF ok] by auto
  next
    fix i j v u
    assume "map_of (wm_workers wm') i = Some v" "map_of (wm_workers wm') j = Some u"
      "w_machine_id v = w_machine_id u" "w_slot_id v = w_slot_id u"
    then show "i = j" using some [of i v] some [of j u] wm_okD(4) [OF ok] by auto
  qed
qed

lemma commitControls_same: "same_but_control (fst s) (fst (snd (commitControls jc next s)))"
proof (cases s)
  case (Pair wm store)
  have "same_but_control wm (wm\<lparr>wm_controls := next, wm_workers := prepared, wm_generation := g\<rparr>)"
    if "rmap (\<lambda>(i, w). rbind (controlFor next i (w_machine_id w)) (\<lambda>c. Inr (i, w\<lparr>w_control := c\<rparr>)))
          (wm_workers wm) = Inr prepared" for prepared g
    using rmap_Inr_list_all2 [OF that] unfolding same_but_control_def
    by (auto elim!: list_all2_mono simp: rbind_Inr_iff)
  then show ?thesis
    unfolding Pair commitControls_def
    by (auto simp: same_but_control_refl Let_def split: sum.splits option.splits prod.splits)
qed

lemma commitControls_same':
  "commitControls jc next s = (r, (wm', store')) \<Longrightarrow> same_but_control (fst s) wm'"
  using commitControls_same [of s jc "next"] by simp

lemma control_same: "same_but_control (fst s) (fst (snd (control jc machine target action operation_id scope s)))"
  by (auto simp: control_def same_but_control_refl dest: commitControls_same' split: sum.splits prod.splits)

lemma managementHeartbeat_same: "same_but_control (fst s) (fst (snd (managementHeartbeat jc i ack s)))"
  by (auto simp: managementHeartbeat_def same_but_control_refl dest: commitControls_same'
      split: sum.splits prod.splits option.splits)

text \<open>A registration that succeeds files exactly one worker; any other changes nothing.\<close>

lemma registerWorker_shape:
  assumes "registerWorker now i hostname slots machine_id slot_id wm = (r, wm')"
  obtains "wm' = wm"
  | c machine slot explicit_identity where
      "r = Inr True" "i \<noteq> []"
      "\<And>j v. map_of (wm_workers wm) j = Some v \<Longrightarrow> j \<noteq> i \<Longrightarrow> \<not> (w_machine_id v = machine \<and> w_slot_id v = slot)"
      "wm' = wm\<lparr>wm_workers := AList.update i
                 (registered_worker now i hostname slots machine slot explicit_identity c
                    (map_of (wm_workers wm) i)) (wm_workers wm),
               wm_generation := wm_generation wm + 1\<rparr>"
proof -
  define machine slot x where "machine = (if machine_id = [] then hostname else machine_id)"
    and "slot = (if slot_id = [] then i else slot_id)" and "x = (machine_id \<noteq> [] \<and> slot_id \<noteq> [])"
  note run = assms [unfolded registerWorker_def Let_def, folded machine_def slot_def x_def]
  show thesis
  proof (cases "wm' = wm")
    case True
    then show thesis by (rule that(1))
  next
    case False
    with run obtain c where c: "r = Inr True" "i \<noteq> []"
      and uniq: "\<not> (\<exists>(j, w) \<in> set (wm_workers wm). j \<noteq> i \<and> w_machine_id w = machine \<and> w_slot_id w = slot)"
      and wm': "wm' = wm\<lparr>wm_workers := AList.update i
                 (registered_worker now i hostname slots machine slot x c
                    (map_of (wm_workers wm) i)) (wm_workers wm),
               wm_generation := wm_generation wm + 1\<rparr>"
      by (simp split: if_split_asm sum.splits) (elim conjE, drule sym, blast)
    show thesis
      by (rule that(2) [OF c _ wm']) (use uniq in \<open>auto dest: map_of_SomeD\<close>)
  qed
qed

lemma registered_worker_simps:
  "w_machine_id (registered_worker now i hostname slots machine slot x c known) = machine"
  "w_slot_id (registered_worker now i hostname slots machine slot x c known) = slot"
  "w_id (registered_worker now i hostname slots machine slot x c known)
   = (case known of None \<Rightarrow> i | Some w \<Rightarrow> w_id w)"
  "w_used_slots (registered_worker now i hostname slots machine slot x c known)
   = (case known of None \<Rightarrow> 0 | Some w \<Rightarrow> w_used_slots w)"
  "w_total_slots (registered_worker now i hostname slots machine slot x c known) = slots"
  "w_status (registered_worker now i hostname slots machine slot x c known) = ONLINE"
  "w_control (registered_worker now i hostname slots machine slot x c known) = c"
  by (auto simp: registered_worker_def worker_setters new_worker_def split: option.splits)

text \<open>Registration keeps the slot counts, of a known worker and (at zero) of a new one.\<close>

lemma registerWorker_used: "used (snd (registerWorker now i hostname slots machine_id slot_id wm)) = used wm"
proof (cases "registerWorker now i hostname slots machine_id slot_id wm")
  case (Pair r wm')
  then have "used wm' = used wm"
    by (cases rule: registerWorker_shape)
       (auto simp: used_update registered_worker_simps used_def fun_eq_iff split: option.splits)
  with Pair show ?thesis by simp
qed

lemma wm_ok_put:
  assumes "wm_ok wm" and "w_id w' = i" and "i \<noteq> []"
    and "\<And>j v. map_of (wm_workers wm) j = Some v \<Longrightarrow> j \<noteq> i \<Longrightarrow>
         \<not> (w_machine_id v = w_machine_id w' \<and> w_slot_id v = w_slot_id w')"
  shows "wm_ok (wm\<lparr>wm_workers := AList.update i w' (wm_workers wm), wm_generation := g\<rparr>)"
  unfolding wm_ok_def
proof (intro conjI allI impI)
  let ?wm = "wm\<lparr>wm_workers := AList.update i w' (wm_workers wm), wm_generation := g\<rparr>"
  show "distinct (map fst (wm_workers ?wm))"
    using wm_okD(1) [OF assms(1)] by simp
  fix j v assume j: "map_of (wm_workers ?wm) j = Some v"
  show "w_id v = j" "j \<noteq> []"
    using j wm_okD(2,3) [OF assms(1)] assms(2,3) by (auto split: if_splits)
next
  let ?wm = "wm\<lparr>wm_workers := AList.update i w' (wm_workers wm), wm_generation := g\<rparr>"
  fix j k v u
  assume j: "map_of (wm_workers ?wm) j = Some v" and k: "map_of (wm_workers ?wm) k = Some u"
    and same: "w_machine_id v = w_machine_id u" "w_slot_id v = w_slot_id u"
  show "j = k"
  proof (cases "j = i"; cases "k = i")
    assume "j = i" "k \<noteq> i"
    then show ?thesis using j k same assms(4) [of k u] by auto
  next
    assume "j \<noteq> i" "k = i"
    then show ?thesis using j k same assms(4) [of j v] by auto
  next
    assume "j \<noteq> i" "k \<noteq> i"
    then show ?thesis using j k same wm_okD(4) [OF assms(1)] by auto
  qed auto
qed

lemma registerWorker_ok:
  assumes "wm_ok wm"
  shows "wm_ok (snd (registerWorker now i hostname slots machine_id slot_id wm))"
proof (cases "registerWorker now i hostname slots machine_id slot_id wm")
  case (Pair r wm')
  then have "wm_ok wm'"
    by (cases rule: registerWorker_shape)
       (auto intro!: wm_ok_put assms simp: registered_worker_simps split: option.splits
         dest: wm_okD(2) [OF assms])
  with Pair show ?thesis by simp
qed

end
