(* ===== verification/Scheduler.thy ===== *)
theory Scheduler
  imports WorkerManager
begin

text \<open>
  \<^verbatim>\<open>server/src/Scheduler.cpp\<close>: the task table, the priority queue, assignment of queued tasks to
  workers, completion, cancellation, batch stop, rollback of a failed dispatch and recovery after
  a restart or a lost worker. Each public operation holds the scheduler's lock for its whole body
  and is one function on the record \<open>sys\<close> (worker manager, attached store, scheduler);
  \<^verbatim>\<open>dispatchAssignment\<close> releases the lock around the dispatcher and is split accordingly.
  What an operation takes from outside (clock readings, random draws, the JSON text codec) is the
  record \<open>env\<close>. This theory holds the definitions; \<open>SchedulerInv\<close> and the theories after it
  hold the lemmas.
\<close>

section \<open>Data\<close>

record TaskAssignment =
  a_task_id :: TaskId
  a_worker_id :: WorkerId

record BatchSnapshot =
  b_stop_requested :: bool
  b_total :: nat
  b_pending :: nat
  b_queued :: nat
  b_assigned :: nat
  b_running :: nat
  b_succeeded :: nat
  b_failed :: nat
  b_timeout :: nat
  b_cancelled :: nat
  b_cancelled_now :: nat

definition empty_snapshot :: BatchSnapshot where
  "empty_snapshot = \<lparr>b_stop_requested = False, b_total = 0, b_pending = 0, b_queued = 0,
     b_assigned = 0, b_running = 0, b_succeeded = 0, b_failed = 0, b_timeout = 0,
     b_cancelled = 0, b_cancelled_now = 0\<rparr>"

record QueuedTaskInfo =
  q_task_id :: TaskId
  q_priority :: int
  q_sequence :: u64

text \<open>\<^verbatim>\<open>operator>\<close>: \<open>queued_after a b\<close> when \<open>a\<close> leaves the queue after \<open>b\<close>.\<close>

definition queued_after :: "QueuedTaskInfo \<Rightarrow> QueuedTaskInfo \<Rightarrow> bool" where
  "queued_after a b =
     (if q_priority a \<noteq> q_priority b then q_priority a < q_priority b
      else q_sequence b < q_sequence a)"

text \<open>
  The priority queue as the list of its elements in the order they leave it: \<open>top\<close> is the head,
  \<open>pop\<close> the tail, and \<open>push\<close> inserts behind the elements that leave before. Elements with the
  same priority and sequence number, for which the heap promises no order, leave first in first
  out.
\<close>

fun queue_push :: "QueuedTaskInfo \<Rightarrow> QueuedTaskInfo list \<Rightarrow> QueuedTaskInfo list" where
  "queue_push x [] = [x]"
| "queue_push x (y # ys) = (if queued_after y x then x # y # ys else y # queue_push x ys)"

record Scheduler =
  sc_tasks :: "(TaskId \<times> Task) list"
  sc_queue :: "QueuedTaskInfo list"
  sc_dispatching :: "TaskId set"
  sc_stopped_batches :: "string set"
  sc_quarantined :: "WorkerId set"
  sc_reconciling :: "WorkerId set"
  sc_next_sequence :: u64
  sc_generation :: u64
  sc_last_selected :: WorkerId

definition new_scheduler :: Scheduler where
  "new_scheduler = \<lparr>sc_tasks = [], sc_queue = [], sc_dispatching = {}, sc_stopped_batches = {},
     sc_quarantined = {}, sc_reconciling = {}, sc_next_sequence = 0, sc_generation = 0,
     sc_last_selected = []\<rparr>"

text \<open>
  The scheduler with the worker manager and the store it refers to; \<open>sy_store\<close> is \<open>None\<close> while
  the member \<^verbatim>\<open>store_\<close> is null.
\<close>

record sys =
  sy_wm :: WorkerManager
  sy_store :: "StateStore option"
  sy_sched :: Scheduler

text \<open>
  The values an operation obtains from outside: the JSON codec, the clock as read for the copy
  of a task that is prepared, inside the write transaction, and for the task in the table, and
  the four draws from \<^verbatim>\<open>std::random_device\<close> for the run of a task.
\<close>

record env =
  e_codec :: json_codec
  e_prepare_now :: "TaskId \<Rightarrow> time_point"
  e_save_now :: time_point
  e_commit_now :: "TaskId \<Rightarrow> time_point"
  e_random :: "TaskId \<Rightarrow> u32 \<times> u32 \<times> u32 \<times> u32"

section \<open>Helpers\<close>

definition batchId :: "Task \<Rightarrow> string option" where
  "batchId t =
     (let payload = t_payload t in
      if \<not> is_object payload \<or> \<not> contains payload ''context'' \<or> \<not> is_object (jget payload ''context'')
      then None
      else let context = jget payload ''context'' in
        if \<not> contains context ''batch_id'' \<or> \<not> is_string (jget context ''batch_id'') then None
        else Some (str_of (jget context ''batch_id'')))"

definition countStatus :: "TaskStatus \<Rightarrow> BatchSnapshot \<Rightarrow> BatchSnapshot" where
  "countStatus status b =
     (let b1 = b\<lparr>b_total := Suc (b_total b)\<rparr> in
      (case status of
         PENDING \<Rightarrow> b1\<lparr>b_pending := Suc (b_pending b1)\<rparr>
       | QUEUED \<Rightarrow> b1\<lparr>b_queued := Suc (b_queued b1)\<rparr>
       | ASSIGNED \<Rightarrow> b1\<lparr>b_assigned := Suc (b_assigned b1)\<rparr>
       | RUNNING \<Rightarrow> b1\<lparr>b_running := Suc (b_running b1)\<rparr>
       | SUCCEEDED \<Rightarrow> b1\<lparr>b_succeeded := Suc (b_succeeded b1)\<rparr>
       | FAILED \<Rightarrow> b1\<lparr>b_failed := Suc (b_failed b1)\<rparr>
       | TIMEOUT \<Rightarrow> b1\<lparr>b_timeout := Suc (b_timeout b1)\<rparr>
       | CANCELLED \<Rightarrow> b1\<lparr>b_cancelled := Suc (b_cancelled b1)\<rparr>))"

text \<open>The batch of the task is stopped.\<close>

definition batch_stopped :: "Scheduler \<Rightarrow> Task \<Rightarrow> bool" where
  "batch_stopped sc t = (case batchId t of None \<Rightarrow> False | Some b \<Rightarrow> b \<in> sc_stopped_batches sc)"

text \<open>\<^verbatim>\<open>std::hex\<close> output of the id, a dash, and the four draws.\<close>

definition newRunId :: "env \<Rightarrow> TaskId \<Rightarrow> string" where
  "newRunId e i =
     (case e_random e i of (a, b, c, d) \<Rightarrow>
        hex_of_nat (unat i) @ ''-'' @ hex_of_nat (unat a) @ hex_of_nat (unat b)
        @ hex_of_nat (unat c) @ hex_of_nat (unat d))"

text \<open>\<^verbatim>\<open>if (store_) store_->save(...)\<close>\<close>

definition store_save :: "env \<Rightarrow> Task list \<Rightarrow> string option \<Rightarrow> string option \<Rightarrow>
    (string \<times> string) option \<Rightarrow> (string \<times> string) option \<Rightarrow> (sys, unit) op" where
  "store_save e ts stopped_batch override submission recovery s =
     (case sy_store s of
        None \<Rightarrow> (Inr (), s)
      | Some db \<Rightarrow>
          (case save (e_codec e) (e_save_now e) ts stopped_batch override submission recovery db of
             (r, db') \<Rightarrow> (r, s\<lparr>sy_store := Some db'\<rparr>)))"

definition put_sched :: "Scheduler \<Rightarrow> sys \<Rightarrow> sys" where
  "put_sched sc s = s\<lparr>sy_sched := sc\<rparr>"

definition put_wm :: "WorkerManager \<Rightarrow> sys \<Rightarrow> sys" where
  "put_wm wm s = s\<lparr>sy_wm := wm\<rparr>"

text \<open>Replace a task of the table and count a new generation.\<close>

definition set_task :: "TaskId \<Rightarrow> Task \<Rightarrow> Scheduler \<Rightarrow> Scheduler" where
  "set_task i t sc = sc\<lparr>sc_tasks := AList.update i t (sc_tasks sc), sc_generation := sc_generation sc + 1\<rparr>"

text \<open>\<^verbatim>\<open>task_queue_.push({id, priority, next_sequence_++})\<close>\<close>

definition enqueue :: "TaskId \<Rightarrow> int \<Rightarrow> Scheduler \<Rightarrow> Scheduler" where
  "enqueue i p sc =
     sc\<lparr>sc_queue := queue_push \<lparr>q_task_id = i, q_priority = p, q_sequence = sc_next_sequence sc\<rparr> (sc_queue sc),
        sc_next_sequence := sc_next_sequence sc + 1\<rparr>"

section \<open>Submission\<close>

definition evictable :: "Scheduler \<Rightarrow> TaskId \<Rightarrow> Task \<Rightarrow> bool" where
  "evictable sc i t \<longleftrightarrow>
     (t_status t = SUCCEEDED \<or> t_status t = FAILED \<or> t_status t = TIMEOUT \<or> t_status t = CANCELLED)
     \<and> i \<notin> sc_dispatching sc"

text \<open>Terminal tasks leave the hot set when more than 2048 tasks are resident.\<close>

definition evict :: "Scheduler \<Rightarrow> Scheduler" where
  "evict sc =
     (if 2048 < length (sc_tasks sc)
      then sc\<lparr>sc_tasks := filter (\<lambda>(i, t). \<not> evictable sc i t) (sc_tasks sc)\<rparr>
      else sc)"

definition findSubmittedTask :: "string \<Rightarrow> string \<Rightarrow> sys \<Rightarrow> TaskId option" where
  "findSubmittedTask submission_key request_json s =
     (if submission_key = [] then None
      else case sy_store s of
        None \<Rightarrow> None
      | Some db \<Rightarrow>
          (case findSubmission submission_key db of
             None \<Rightarrow> None
           | Some (i, request) \<Rightarrow> if request = request_json then Some i else None))"

text \<open>
  The part of \<^verbatim>\<open>submitTask\<close> after the idempotency check and the batch check: duplicates,
  eviction, the transition, the durable write, and the publication in table and queue.
\<close>

definition submit_new :: "env \<Rightarrow> Task \<Rightarrow> string \<Rightarrow> string \<Rightarrow> (sys, TaskId option) op" where
  "submit_new e task submission_key request_json s =
     (let sc0 = sy_sched s;
          known = (case sy_store s of None \<Rightarrow> Inr [] | Some db \<Rightarrow> loadTasks (e_codec e) (t_id task) False [] db) in
      (case known of
         Inl x \<Rightarrow> (Inl x, s)
       | Inr rows \<Rightarrow>
           if rows \<noteq> [] then (Inr None, s)
           else
             (let sc = (case sy_store s of None \<Rightarrow> sc0 | Some _ \<Rightarrow> evict sc0); s1 = put_sched sc s in
              if al_contains (sc_tasks sc) (t_id task) then (Inr None, s1)
              else
                (case transitionTo (e_prepare_now e (t_id task)) QUEUED task of
                   (False, _) \<Rightarrow> (Inr None, s1)
                 | (True, t1) \<Rightarrow>
                     (let t2 = setQueueSequence (sc_next_sequence sc) t1 in
                      (case store_save e [t2] None None
                              (if submission_key = [] then None else Some (submission_key, request_json)) None s1 of
                         (Inl x, s2) \<Rightarrow> (Inl x, s2)
                       | (Inr _, s2) \<Rightarrow>
                           (Inr (Some (t_id task)),
                            put_sched (enqueue (t_id task) (t_priority task) (set_task (t_id task) t2 sc)) s2)))))))"

definition submitTask :: "env \<Rightarrow> Task \<Rightarrow> string \<Rightarrow> string \<Rightarrow> (sys, TaskId option) op" where
  "submitTask e task submission_key request_json s =
     (if t_id task = 0 then (Inr None, s)
      else if t_status task \<noteq> PENDING then (Inr None, s)
      else
        (let prior = (if submission_key = [] then None
                      else case sy_store s of None \<Rightarrow> None | Some db \<Rightarrow> findSubmission submission_key db) in
         (case prior of
            Some (i, request) \<Rightarrow> (Inr (if request = request_json then Some i else None), s)
          | None \<Rightarrow>
              if batch_stopped (sy_sched s) task then (Inr None, s)
              else submit_new e task submission_key request_json s)))"

text \<open>The overload without a submission key.\<close>

definition submitTask1 :: "env \<Rightarrow> Task \<Rightarrow> (sys, bool) op" where
  "submitTask1 e task s =
     (case submitTask e task [] [] s of
        (Inl x, s') \<Rightarrow> (Inl x, s')
      | (Inr r, s') \<Rightarrow> (Inr (r \<noteq> None), s'))"

section \<open>Scheduling\<close>

text \<open>The comparison of the selection loop: \<open>w\<close> replaces the current choice \<open>sel\<close>.\<close>

definition better_worker :: "WorkerId \<Rightarrow> Worker \<Rightarrow> Worker \<Rightarrow> bool" where
  "better_worker selected_after w sel =
     (if freeSlots sel < freeSlots w then True
      else if freeSlots w = freeSlots sel then
        (let candidate_after = (selected_after < w_id w); selected_is_after = (selected_after < w_id sel) in
         (candidate_after \<and> \<not> selected_is_after)
         \<or> (candidate_after = selected_is_after \<and> w_id w < w_id sel))
      else False)"

fun select_worker :: "Scheduler \<Rightarrow> WorkerId \<Rightarrow> Worker list \<Rightarrow> Worker option \<Rightarrow> Worker option" where
  "select_worker sc after [] sel = sel"
| "select_worker sc after (w # ws) sel =
     (if w_id w \<in> sc_quarantined sc \<or> w_id w \<in> sc_reconciling sc then select_worker sc after ws sel
      else case sel of
        None \<Rightarrow> select_worker sc after ws (Some w)
      | Some s \<Rightarrow> select_worker sc after ws (if better_worker after w s then Some w else sel))"

text \<open>The prepared copy of a task for a worker; the run id is drawn when there is a store.\<close>

definition prepare_assignment :: "env \<Rightarrow> bool \<Rightarrow> WorkerId \<Rightarrow> Task \<Rightarrow> Task" where
  "prepare_assignment e stored worker_id t =
     (let p1 = restore QUEUED [] (t_retry_count t) (t_payload t) JNull (t_queue_sequence t) [] False
                 (t_created_at t) 0 0 t;
          p2 = setWorkerId worker_id p1;
          p3 = (if stored then setRunId (newRunId e (t_id t)) p2 else p2)
      in snd (transitionTo (e_prepare_now e (t_id t)) ASSIGNED p3))"

text \<open>
  The loop over the copy of the queue: the prepared changes, what is left of the queue, the
  worker manager with the slots taken, and the worker selected last.
\<close>

fun schedule_loop ::
  "env \<Rightarrow> bool \<Rightarrow> Scheduler \<Rightarrow> QueuedTaskInfo list \<Rightarrow> WorkerManager \<Rightarrow> WorkerId \<Rightarrow>
   (TaskAssignment \<times> Task) list \<times> QueuedTaskInfo list \<times> WorkerManager \<times> WorkerId" where
  "schedule_loop e stored sc [] wm after = ([], [], wm, after)"
| "schedule_loop e stored sc (q # pending) wm after =
     (case map_of (sc_tasks sc) (q_task_id q) of
        None \<Rightarrow> schedule_loop e stored sc pending wm after
      | Some t \<Rightarrow>
          if t_status t \<noteq> QUEUED then schedule_loop e stored sc pending wm after
          else
            (case select_worker sc after (getAvailableWorkers wm) None of
               None \<Rightarrow> ([], q # pending, wm, after)
             | Some w \<Rightarrow>
                 (case acquireSlot (w_id w) wm of
                    (False, wm') \<Rightarrow> ([], q # pending, wm', after)
                  | (True, wm') \<Rightarrow>
                      (case schedule_loop e stored sc pending wm' (w_id w) of
                         (changes, rest, wm'', after') \<Rightarrow>
                           ((\<lparr>a_task_id = q_task_id q, a_worker_id = w_id w\<rparr>,
                             prepare_assignment e stored (w_id w) t) # changes, rest, wm'', after')))))"

definition release_all :: "WorkerId list \<Rightarrow> WorkerManager \<Rightarrow> WorkerManager" where
  "release_all ids wm = fold (\<lambda>i m. snd (releaseSlot i m)) ids wm"

definition commit_changes :: "(TaskAssignment \<times> Task) list \<Rightarrow> (TaskId \<times> Task) list \<Rightarrow> (TaskId \<times> Task) list" where
  "commit_changes changes ts = fold (\<lambda>(a, t). AList.update (a_task_id a) t) changes ts"

definition schedule :: "env \<Rightarrow> (sys, TaskAssignment list) op" where
  "schedule e s =
     (let sc = sy_sched s in
      (case schedule_loop e (sy_store s \<noteq> None) sc (sc_queue sc) (sy_wm s) (sc_last_selected sc) of
         (changes, pending, wm, after) \<Rightarrow>
           (let s1 = put_wm wm s; assignments = map fst changes in
            (case (if changes = [] then (Inr (), s1) else store_save e (map snd changes) None None None None s1) of
               (Inl x, s2) \<Rightarrow> (Inl x, put_wm (release_all (map a_worker_id assignments) wm) s2)
             | (Inr _, s2) \<Rightarrow>
                 (Inr assignments,
                  put_sched (sc\<lparr>sc_tasks := commit_changes changes (sc_tasks sc),
                                sc_generation := (if changes = [] then sc_generation sc else sc_generation sc + 1),
                                sc_queue := pending, sc_last_selected := after\<rparr>) s2)))))"

section \<open>Dispatch\<close>

text \<open>The critical section before the dispatcher runs: claim the assignment.\<close>

definition dispatch_claim :: "TaskAssignment \<Rightarrow> sys \<Rightarrow> Task option \<times> sys" where
  "dispatch_claim a s =
     (let sc = sy_sched s in
      (case map_of (sc_tasks sc) (a_task_id a) of
         None \<Rightarrow> (None, s)
       | Some t \<Rightarrow>
           if t_status t \<noteq> ASSIGNED \<or> t_worker_id t \<noteq> a_worker_id a \<or> a_task_id a \<in> sc_dispatching sc
           then (None, s)
           else (Some t, put_sched (sc\<lparr>sc_dispatching := insert (a_task_id a) (sc_dispatching sc)\<rparr>) s)))"

text \<open>The critical section after it, on return and on an exception alike.\<close>

definition dispatch_finish :: "TaskId \<Rightarrow> sys \<Rightarrow> sys" where
  "dispatch_finish i s =
     put_sched ((sy_sched s)\<lparr>sc_dispatching := sc_dispatching (sy_sched s) - {i}\<rparr>) s"

text \<open>
  The dispatcher runs without the lock: it is given as an operation on the system and on a state
  of its own, so that it may contain whatever other threads do meanwhile.
\<close>

definition dispatchAssignment ::
  "TaskAssignment \<Rightarrow> (WorkerId \<Rightarrow> Task \<Rightarrow> (sys \<times> 'n, bool) op) \<Rightarrow> (sys \<times> 'n, bool option) op" where
  "dispatchAssignment a dispatch x =
     (case dispatch_claim a (fst x) of
        (None, s1) \<Rightarrow> (Inr None, (s1, snd x))
      | (Some t, s1) \<Rightarrow>
          (case dispatch (a_worker_id a) t (s1, snd x) of
             (Inl exc, (s2, n)) \<Rightarrow> (Inl exc, (dispatch_finish (a_task_id a) s2, n))
           | (Inr accepted, (s2, n)) \<Rightarrow> (Inr (Some accepted), (dispatch_finish (a_task_id a) s2, n))))"

definition markTaskStarted :: "env \<Rightarrow> TaskId \<Rightarrow> WorkerId \<Rightarrow> (sys, bool) op" where
  "markTaskStarted e i worker_id s =
     (let sc = sy_sched s in
      (case map_of (sc_tasks sc) i of
         None \<Rightarrow> (Inr False, s)
       | Some t \<Rightarrow>
           if t_status t \<noteq> ASSIGNED then (Inr False, s)
           else if t_worker_id t \<noteq> worker_id then (Inr False, s)
           else
             (case transitionTo (e_prepare_now e i) RUNNING t of
                (False, _) \<Rightarrow> (Inr False, s)
              | (True, prepared) \<Rightarrow>
                  (case store_save e [prepared] None None None None s of
                     (Inl x, s1) \<Rightarrow> (Inl x, s1)
                   | (Inr _, s1) \<Rightarrow> (Inr True, put_sched (set_task i prepared sc) s1)))))"

section \<open>Completion, cancellation and rollback\<close>

definition isValidFinalStatus :: "TaskStatus \<Rightarrow> bool" where
  "isValidFinalStatus status \<longleftrightarrow> status = SUCCEEDED \<or> status = FAILED \<or> status = TIMEOUT"

text \<open>The worker leaves quarantine unless some task still occupies it.\<close>

definition releaseRecoveryHold :: "WorkerId \<Rightarrow> Scheduler \<Rightarrow> Scheduler" where
  "releaseRecoveryHold worker_id sc =
     (if \<exists>p \<in> set (sc_tasks sc). t_worker_id (snd p) = worker_id
           \<and> (t_status (snd p) = ASSIGNED \<or> t_status (snd p) = RUNNING)
      then sc else sc\<lparr>sc_quarantined := sc_quarantined sc - {worker_id}\<rparr>)"

definition completeTask :: "env \<Rightarrow> TaskId \<Rightarrow> TaskStatus \<Rightarrow> json \<Rightarrow> (sys, bool) op" where
  "completeTask e i final_status execution_summary s =
     (if \<not> isValidFinalStatus final_status then (Inr False, s)
      else
        (let sc = sy_sched s in
         (case map_of (sc_tasks sc) i of
            None \<Rightarrow> (Inr False, s)
          | Some t \<Rightarrow>
              if t_status t \<noteq> RUNNING then (Inr False, s)
              else if t_worker_id t = [] then (Inr False, s)
              else if \<not> canTransitionTo t final_status then (Inr False, s)
              else
                (let p1 = setExecutionSummary execution_summary t;
                     p2 = snd (transitionTo (e_prepare_now e i) final_status p1);
                     prepared = setRecoveryRequired False p2 in
                 (case store_save e [prepared] None None None None s of
                    (Inl x, s1) \<Rightarrow> (Inl x, s1)
                  | (Inr _, s1) \<Rightarrow>
                      (let s2 = put_sched (releaseRecoveryHold (t_worker_id t) (set_task i prepared sc)) s1 in
                       if t_recovery_required t then (Inr True, s2)
                       else (case releaseSlot (t_worker_id t) (sy_wm s2) of
                               (released, wm) \<Rightarrow> (Inr released, put_wm wm s2))))))))"

text \<open>Both cancellable branches of the switch have the same body.\<close>

definition cancel_waiting :: "env \<Rightarrow> TaskId \<Rightarrow> Task \<Rightarrow> (sys, bool) op" where
  "cancel_waiting e i t s =
     (let prepared = snd (transitionTo (e_prepare_now e i) CANCELLED t) in
      (case store_save e [prepared] None None None None s of
         (Inl x, s1) \<Rightarrow> (Inl x, s1)
       | (Inr _, s1) \<Rightarrow>
           (case transitionTo (e_commit_now e i) CANCELLED t of
              (False, _) \<Rightarrow> (Inr False, s1)
            | (True, t') \<Rightarrow> (Inr True, put_sched (set_task i t' (sy_sched s1)) s1))))"

definition cancelTask :: "env \<Rightarrow> TaskId \<Rightarrow> (sys, bool) op" where
  "cancelTask e i s =
     (if i \<in> sc_dispatching (sy_sched s) then (Inr False, s)
      else
        (case map_of (sc_tasks (sy_sched s)) i of
           None \<Rightarrow> (Inr False, s)
         | Some t \<Rightarrow>
             (case t_status t of
                QUEUED \<Rightarrow> cancel_waiting e i t s
              | ASSIGNED \<Rightarrow> (Inr False, s)
              | RUNNING \<Rightarrow> (Inr False, s)
              | PENDING \<Rightarrow> cancel_waiting e i t s
              | _ \<Rightarrow> (Inr False, s))))"

definition rollbackAssignment :: "env \<Rightarrow> TaskId \<Rightarrow> (sys, bool) op" where
  "rollbackAssignment e i s =
     (let sc = sy_sched s in
      if i \<in> sc_dispatching sc then (Inr False, s)
      else
        (case map_of (sc_tasks sc) i of
           None \<Rightarrow> (Inr False, s)
         | Some t \<Rightarrow>
             if t_status t \<noteq> ASSIGNED then (Inr False, s)
             else if t_worker_id t = [] then (Inr False, s)
             else
               (let cleared = clearWorkerId t; stopped = batch_stopped sc t in
                (case sy_store s of
                   None \<Rightarrow>
                     (case releaseSlot (t_worker_id t) (sy_wm s) of
                        (False, wm) \<Rightarrow> (Inr False, put_wm wm s)
                      | (True, wm) \<Rightarrow>
                          if stopped
                          then (case transitionTo (e_commit_now e i) CANCELLED cleared of
                                  (False, _) \<Rightarrow> (Inr False, put_wm wm s)
                                | (True, t1) \<Rightarrow> (Inr True, put_sched (set_task i t1 sc) (put_wm wm s)))
                          else (case transitionTo (e_commit_now e i) QUEUED cleared of
                                  (False, _) \<Rightarrow> (Inr False, put_wm wm s)
                                | (True, t1) \<Rightarrow>
                                    (Inr True, put_sched (enqueue (t_id t) (t_priority t)
                                       (set_task i (setQueueSequence (sc_next_sequence sc) t1) sc)) (put_wm wm s))))
                 | Some _ \<Rightarrow>
                     (case transitionTo (e_prepare_now e i) (if stopped then CANCELLED else QUEUED) cleared of
                        (False, _) \<Rightarrow> (Inr False, s)
                      | (True, t1) \<Rightarrow>
                          (let prepared = (if stopped then t1 else setQueueSequence (sc_next_sequence sc) t1) in
                           (case store_save e [prepared] None (Some ''DISPATCH_FAILED'') None None s of
                              (Inl x, s1) \<Rightarrow> (Inl x, s1)
                            | (Inr _, s1) \<Rightarrow>
                                (case releaseSlot (t_worker_id t) (sy_wm s1) of
                                   (False, wm) \<Rightarrow>
                                     (Inl (Runtime_error ''slot release failed after persisted dispatch rollback''),
                                      put_wm wm s1)
                                 | (True, wm) \<Rightarrow>
                                     (let sc1 = set_task i prepared sc in
                                      (Inr True,
                                       put_sched (if stopped then sc1 else enqueue (t_id t) (t_priority t) sc1)
                                         (put_wm wm s1)))))))))))"

section \<open>Batches\<close>

definition count_batch :: "Task list \<Rightarrow> BatchSnapshot \<Rightarrow> BatchSnapshot" where
  "count_batch ts b = fold (\<lambda>t. countStatus (t_status t)) ts b"

definition batch_tasks :: "string \<Rightarrow> Scheduler \<Rightarrow> Task list" where
  "batch_tasks batch_id sc = filter (\<lambda>t. batchId t = Some batch_id) (map snd (sc_tasks sc))"

definition queryBatch :: "env \<Rightarrow> string \<Rightarrow> sys \<Rightarrow> exn + BatchSnapshot option" where
  "queryBatch e batch_id s =
     (let sc = sy_sched s; b = empty_snapshot\<lparr>b_stop_requested := batch_id \<in> sc_stopped_batches sc\<rparr> in
      (case sy_store s of
         Some db \<Rightarrow>
           rbind (loadTasks (e_codec e) 0 False batch_id db) (\<lambda>rows.
             let b1 = count_batch rows b in Inr (if b_total b1 \<noteq> 0 then Some b1 else None))
       | None \<Rightarrow>
           (let b1 = count_batch (batch_tasks batch_id sc) b in
            Inr (if b_total b1 = 0 then None else Some b1))))"

definition waiting :: "Task \<Rightarrow> bool" where
  "waiting t \<longleftrightarrow> t_status t = PENDING \<or> t_status t = QUEUED"

text \<open>The second loop of \<^verbatim>\<open>cancelBatch\<close> on one entry of the table.\<close>

definition cancel_entry :: "env \<Rightarrow> string \<Rightarrow> TaskId \<Rightarrow> Task \<Rightarrow> Task" where
  "cancel_entry e batch_id i t =
     (if batchId t = Some batch_id \<and> waiting t then snd (transitionTo (e_commit_now e i) CANCELLED t) else t)"

definition cancelBatch :: "env \<Rightarrow> string \<Rightarrow> (sys, BatchSnapshot option) op" where
  "cancelBatch e batch_id s =
     (let sc = sy_sched s in
      (case (case sy_store s of None \<Rightarrow> Inr [] | Some db \<Rightarrow> loadTasks (e_codec e) 0 False batch_id db) of
         Inl x \<Rightarrow> (Inl x, s)
       | Inr rows \<Rightarrow>
           if rows = [] \<and> batch_tasks batch_id sc = [] then (Inr None, s)
           else
             (let changed = map (\<lambda>t. snd (transitionTo (e_prepare_now e (t_id t)) CANCELLED t))
                              (filter waiting (batch_tasks batch_id sc)) in
              (case store_save e changed (Some batch_id) None None None s of
                 (Inl x, s1) \<Rightarrow> (Inl x, s1)
               | (Inr _, s1) \<Rightarrow>
                   (let tasks' = map (\<lambda>(i, t). (i, cancel_entry e batch_id i t)) (sc_tasks sc);
                        cancelled_now = length changed;
                        sc' = sc\<lparr>sc_tasks := tasks',
                                 sc_stopped_batches := insert batch_id (sc_stopped_batches sc),
                                 sc_generation := (if cancelled_now \<noteq> 0 then sc_generation sc + 1
                                                   else sc_generation sc)\<rparr>;
                        s2 = put_sched sc' s1;
                        b = empty_snapshot\<lparr>b_stop_requested := True, b_cancelled_now := cancelled_now\<rparr> in
                    (case sy_store s2 of
                       None \<Rightarrow> (Inr (Some (count_batch (batch_tasks batch_id sc') b)), s2)
                     | Some db \<Rightarrow>
                         (case loadTasks (e_codec e) 0 False batch_id db of
                            Inl x \<Rightarrow> (Inl x, s2)
                          | Inr rows' \<Rightarrow> (Inr (Some (count_batch rows' b)), s2))))))))"

definition isBatchStopped :: "string \<Rightarrow> sys \<Rightarrow> bool" where
  "isBatchStopped batch_id s \<longleftrightarrow> batch_id \<in> sc_stopped_batches (sy_sched s)"

section \<open>Recovery\<close>

definition holdWorker :: "WorkerId \<Rightarrow> sys \<Rightarrow> sys" where
  "holdWorker worker_id s =
     put_sched ((sy_sched s)\<lparr>sc_reconciling := insert worker_id (sc_reconciling (sy_sched s))\<rparr>) s"

text \<open>
  \<^verbatim>\<open>recoverLost\<close> on the task of the table under the key \<open>i\<close>: the decision, its durable record,
  the new task, the slot and the queue.
\<close>

definition lost_retry :: "Scheduler \<Rightarrow> int \<Rightarrow> Task \<Rightarrow> bool" where
  "lost_retry sc max_retries t \<longleftrightarrow>
     \<not> batch_stopped sc t \<and> (t_status t \<noteq> RUNNING \<or> t_retry_count t < max_retries)"

definition lost_action :: "Scheduler \<Rightarrow> int \<Rightarrow> Task \<Rightarrow> string" where
  "lost_action sc max_retries t =
     (if batch_stopped sc t then ''cancelled''
      else if lost_retry sc max_retries t then ''requeued'' else ''failed'')"

definition lost_prepared :: "env \<Rightarrow> Scheduler \<Rightarrow> int \<Rightarrow> Task \<Rightarrow> Task" where
  "lost_prepared e sc max_retries t =
     (let stopped = batch_stopped sc t; retry = lost_retry sc max_retries t; running = (t_status t = RUNNING) in
      restore (if stopped then CANCELLED else if retry then QUEUED else FAILED)
        (if retry \<or> stopped then [] else t_worker_id t)
        (t_retry_count t + (if retry \<and> running then 1 else 0)) (t_payload t)
        (jobject [(''reason'', JString ''worker_lost'')])
        (if retry then sc_next_sequence sc else t_queue_sequence t) (t_run_id t) False
        (t_created_at t) (t_started_at t) (if retry then 0 else e_prepare_now e (t_id t)) t)"

definition recoverLost :: "env \<Rightarrow> int \<Rightarrow> TaskId \<Rightarrow> Task \<Rightarrow> (sys, string) op" where
  "recoverLost e max_retries i t s =
     (let sc = sy_sched s in
      if sy_store s = None \<or> t_run_id t = [] then (Inl (Runtime_error ''durable recovery requires persistence''), s)
      else
        (let prepared = lost_prepared e sc max_retries t; action = lost_action sc max_retries t in
         (case store_save e [prepared] None (Some ''FAILED'') None (Some (t_worker_id t, action)) s of
            (Inl x, s1) \<Rightarrow> (Inl x, s1)
          | (Inr _, s1) \<Rightarrow>
              (let sc1 = set_task i prepared sc;
                   s2 = (if t_recovery_required t then s1
                         else put_wm (snd (releaseSlot (t_worker_id t) (sy_wm s1))) s1);
                   sc2 = (if lost_retry sc max_retries t then enqueue (t_id t) (t_priority t) sc1 else sc1)
               in (Inr action, put_sched sc2 s2)))))"

text \<open>The loop of the \<^verbatim>\<open>idle\<close> report over the keys of the table; \<open>Some\<close> an early return.\<close>

fun recover_idle :: "env \<Rightarrow> int \<Rightarrow> WorkerId \<Rightarrow> TaskId list \<Rightarrow> (sys, json option) op" where
  "recover_idle e max_retries worker_id [] s = (Inr None, s)"
| "recover_idle e max_retries worker_id (i # is) s =
     (case map_of (sc_tasks (sy_sched s)) i of
        None \<Rightarrow> recover_idle e max_retries worker_id is s
      | Some t \<Rightarrow>
          if t_worker_id t \<noteq> worker_id then recover_idle e max_retries worker_id is s
          else if t_status t = RUNNING
          then (Inr (Some (jobject [(''action'', JString ''quarantined''),
                                    (''task_id'', JUnsigned (t_id t)), (''run_id'', JString (t_run_id t))])), s)
          else if t_status t = ASSIGNED then
            (if t_id t \<in> sc_dispatching (sy_sched s)
             then (Inr (Some (jobject [(''action'', JString ''quarantined'')])), s)
             else (case recoverLost e max_retries i t s of
                     (Inl x, s1) \<Rightarrow> (Inl x, s1)
                   | (Inr _, s1) \<Rightarrow> recover_idle e max_retries worker_id is s1))
          else recover_idle e max_retries worker_id is s)"

definition action_json :: "string \<Rightarrow> json" where
  "action_json a = jobject [(''action'', JString a)]"

definition recoverWorker ::
  "env \<Rightarrow> WorkerId \<Rightarrow> string \<Rightarrow> TaskId \<Rightarrow> string \<Rightarrow> int \<Rightarrow> (sys, json) op" where
  "recoverWorker e worker_id state i run_id max_retries s =
     (if max_retries < 0 \<or> 100 < max_retries then (Inl (Runtime_error ''invalid recovery retry limit''), s)
      else if state = ''idle'' then
        (case recover_idle e max_retries worker_id (map fst (sc_tasks (sy_sched s))) s of
           (Inl x, s1) \<Rightarrow> (Inl x, s1)
         | (Inr (Some j), s1) \<Rightarrow> (Inr j, s1)
         | (Inr None, s1) \<Rightarrow>
             (let sc = releaseRecoveryHold worker_id (sy_sched s1) in
              (Inr (action_json ''ready''),
               put_sched (sc\<lparr>sc_reconciling := sc_reconciling sc - {worker_id}\<rparr>) s1)))
      else
        (let prior = (if state = ''lost''
                      then (case sy_store s of None \<Rightarrow> Inr None | Some db \<Rightarrow> recoveryDecision run_id i worker_id db)
                      else Inr None) in
         (case prior of
            Inl x \<Rightarrow> (Inl x, s)
          | Inr (Some d) \<Rightarrow> (Inr (action_json d), s)
          | Inr None \<Rightarrow>
              (case map_of (sc_tasks (sy_sched s)) i of
                 None \<Rightarrow> (Inr (action_json ''rejected''), s)
               | Some t \<Rightarrow>
                   if t_worker_id t \<noteq> worker_id \<or> t_run_id t \<noteq> run_id
                      \<or> (t_status t \<noteq> ASSIGNED \<and> t_status t \<noteq> RUNNING)
                   then (Inr (action_json ''rejected''), s)
                   else
                     (let sc = sy_sched s in
                      if state = ''active''
                      then (Inr (action_json ''resume''),
                            put_sched (sc\<lparr>sc_reconciling := sc_reconciling sc - {worker_id}\<rparr>) s)
                      else if state \<noteq> ''lost'' \<or> i \<in> sc_dispatching sc then (Inr (action_json ''rejected''), s)
                      else (case recoverLost e max_retries i t (holdWorker worker_id s) of
                              (Inl x, s1) \<Rightarrow> (Inl x, s1)
                            | (Inr a, s1) \<Rightarrow> (Inr (action_json a), s1)))))))"

section \<open>Restart\<close>

text \<open>One loaded task enters queue, quarantine, sequence counter and table.\<close>

definition restore_one :: "Task \<Rightarrow> Scheduler \<Rightarrow> Scheduler" where
  "restore_one t sc =
     (let sc1 = (if t_status t = QUEUED
                 then sc\<lparr>sc_queue := queue_push \<lparr>q_task_id = t_id t, q_priority = t_priority t,
                                               q_sequence = t_queue_sequence t\<rparr> (sc_queue sc)\<rparr> else sc);
          sc2 = (if t_recovery_required t
                 then sc1\<lparr>sc_quarantined := insert (t_worker_id t) (sc_quarantined sc1)\<rparr> else sc1);
          sc3 = sc2\<lparr>sc_next_sequence := max (sc_next_sequence sc2) (t_queue_sequence t + 1)\<rparr>
      in if al_contains (sc_tasks sc3) (t_id t) then sc3
         else sc3\<lparr>sc_tasks := AList.update (t_id t) t (sc_tasks sc3)\<rparr>)"

definition restoreFrom :: "env \<Rightarrow> StateStore \<Rightarrow> (sys, unit) op" where
  "restoreFrom e store s =
     (let sc = sy_sched s in
      if sc_tasks sc \<noteq> [] \<or> sy_store s \<noteq> None then (Inl (Runtime_error ''scheduler already initialized''), s)
      else
        (case loadTasks (e_codec e) 0 True [] store of
           Inl x \<Rightarrow> (Inl x, s)
         | Inr loaded \<Rightarrow>
             (let sc1 = fold restore_one loaded (sc\<lparr>sc_queue := []\<rparr>);
                  sc2 = sc1\<lparr>sc_stopped_batches := sc_stopped_batches sc1 \<union> set (loadStoppedBatches store),
                            sc_next_sequence := max (sc_next_sequence sc1) (snd (highWaterMarks store) + 1),
                            sc_generation := sc_generation sc1 + 1\<rparr>
              in (Inr (), s\<lparr>sy_sched := sc2, sy_store := Some store\<rparr>))))"

section \<open>Queries\<close>

definition nextTaskId :: "sys \<Rightarrow> exn + TaskId" where
  "nextTaskId s =
     (let m0 = (case sy_store s of None \<Rightarrow> 0 | Some db \<Rightarrow> fst (highWaterMarks db));
          m = fold (\<lambda>(i, t) m. max m i) (sc_tasks (sy_sched s)) m0 in
      if m = 2 ^ 63 - 1 then Inl (Runtime_error ''task id exhausted'') else Inr (m + 1))"

definition archiveOwner :: "TaskId \<Rightarrow> string \<Rightarrow> sys \<Rightarrow> exn + WorkerId option" where
  "archiveOwner i run_id s =
     (let from_store = (case sy_store s of None \<Rightarrow> Inr None | Some db \<Rightarrow> store_archiveOwner i run_id db) in
      if run_id = [] then Inr None
      else case map_of (sc_tasks (sy_sched s)) i of
        None \<Rightarrow> from_store
      | Some t \<Rightarrow>
          if t_run_id t = run_id \<and> (t_status t = SUCCEEDED \<or> t_status t = FAILED \<or> t_status t = TIMEOUT)
          then Inr (Some (t_worker_id t)) else from_store)"

definition getTask :: "env \<Rightarrow> TaskId \<Rightarrow> sys \<Rightarrow> exn + Task option" where
  "getTask e i s =
     (case map_of (sc_tasks (sy_sched s)) i of
        Some t \<Rightarrow> Inr (Some t)
      | None \<Rightarrow>
          (case sy_store s of
             None \<Rightarrow> Inr None
           | Some db \<Rightarrow> rbind (loadTasks (e_codec e) i False [] db) (\<lambda>rows.
               Inr (case rows of [] \<Rightarrow> None | t # _ \<Rightarrow> Some t))))"

definition getTasks :: "env \<Rightarrow> sys \<Rightarrow> exn + Task list" where
  "getTasks e s =
     (case sy_store s of
        Some db \<Rightarrow> loadTasks (e_codec e) 0 False [] db
      | None \<Rightarrow> Inr (map snd (sc_tasks (sy_sched s))))"

definition taskSnapshot :: "env \<Rightarrow> sys \<Rightarrow> exn + (u64 \<times> Task list)" where
  "taskSnapshot e s = rbind (getTasks e s) (\<lambda>ts. Inr (sc_generation (sy_sched s), ts))"

definition taskGeneration :: "sys \<Rightarrow> u64" where
  "taskGeneration s = sc_generation (sy_sched s)"

definition count_json :: "Task list \<Rightarrow> json" where
  "count_json ts =
     JObject (fold (\<lambda>t m. omap_set (toString (t_status t))
        (JUnsigned (1 + (case map_of m (toString (t_status t)) of None \<Rightarrow> 0 | Some j \<Rightarrow> get_u64 j))) m) ts [])"

definition statusCounts :: "sys \<Rightarrow> json" where
  "statusCounts s =
     (case sy_store s of
        Some db \<Rightarrow> store_statusCounts db
      | None \<Rightarrow> count_json (map snd (sc_tasks (sy_sched s))))"

text \<open>The tasks passed to the visitor, and the generation returned.\<close>

definition visitTasks :: "env \<Rightarrow> string \<Rightarrow> sys \<Rightarrow> exn + (Task list \<times> u64)" where
  "visitTasks e batch_id s =
     rbind (case sy_store s of
              Some db \<Rightarrow> loadTasks (e_codec e) 0 False batch_id db
            | None \<Rightarrow> Inr (filter (\<lambda>t. batch_id = [] \<or> batchId t = Some batch_id) (map snd (sc_tasks (sy_sched s)))))
       (\<lambda>ts. Inr (ts, sc_generation (sy_sched s)))"

definition getTasksByStatus :: "env \<Rightarrow> TaskStatus \<Rightarrow> sys \<Rightarrow> exn + Task list" where
  "getTasksByStatus e status s =
     rbind (getTasks e s) (\<lambda>ts. Inr (filter (\<lambda>t. t_status t = status) ts))"

end
