(* ===== verification/SchedulerInv.thy ===== *)
theory SchedulerInv
  imports Scheduler
begin

text \<open>
  The invariant of the scheduler and, operation by operation, that it is kept: the task table is
  filed by id, every queued task has exactly one entry in the priority queue, the slots counted
  by the worker manager are exactly the assigned and running tasks of this process, workers with
  unrecovered tasks are quarantined, no waiting task belongs to a stopped batch, and with a store
  every id in memory is known to it.
\<close>

section \<open>The priority queue\<close>

definition queue_sorted :: "QueuedTaskInfo list \<Rightarrow> bool" where
  "queue_sorted q \<longleftrightarrow> sorted_wrt (\<lambda>a b. \<not> queued_after a b) q"

lemma queued_after_trans: "\<not> queued_after a b \<Longrightarrow> \<not> queued_after b c \<Longrightarrow> \<not> queued_after a c"
  by (auto simp: queued_after_def split: if_splits)

lemma queued_after_asym: "queued_after a b \<Longrightarrow> \<not> queued_after b a"
  by (auto simp: queued_after_def split: if_splits)

lemma set_queue_push [simp]: "set (queue_push x q) = insert x (set q)"
  by (induction q) auto

lemma mset_queue_push: "mset (queue_push x q) = add_mset x (mset q)"
  by (induction q) auto

lemma filter_queue_push:
  "queue_sorted q \<Longrightarrow>
   filter P (queue_push x q) = (if P x then queue_push x (filter P q) else filter P q)"
proof (induction q)
  case (Cons y q)
  have "queue_push x (filter P q) = x # filter P q" if "queued_after y x"
  proof (cases "filter P q")
    case zs: (Cons z zs)
    then have "z \<in> set (filter P q)" by simp
    then have "z \<in> set q" by simp
    with Cons.prems have "\<not> queued_after y z" by (simp add: queue_sorted_def)
    then have "queued_after z x" using that queued_after_trans by blast
    with zs show ?thesis by simp
  qed simp
  with Cons show ?case by (auto simp: queue_sorted_def)
qed simp

lemma queue_push_sorted: "queue_sorted q \<Longrightarrow> queue_sorted (queue_push x q)"
proof (induction q)
  case (Cons y q)
  show ?case
  proof (cases "queued_after y x")
    case True
    then have "\<not> queued_after x z" if "z = y \<or> z \<in> set q" for z
      using that Cons.prems queued_after_trans [of x y z] queued_after_asym [of y x]
      by (auto simp: queue_sorted_def)
    with True Cons.prems show ?thesis by (auto simp: queue_sorted_def)
  next
    case False
    with Cons show ?thesis by (auto simp: queue_sorted_def)
  qed
qed (simp add: queue_sorted_def)

definition entries :: "TaskId \<Rightarrow> QueuedTaskInfo list \<Rightarrow> QueuedTaskInfo list" where
  "entries i q = filter (\<lambda>x. q_task_id x = i) q"

lemma entries_push:
  "queue_sorted q \<Longrightarrow>
   entries i (queue_push x q) = (if q_task_id x = i then queue_push x (entries i q) else entries i q)"
  by (simp add: entries_def filter_queue_push)

lemma entries_Nil_iff: "entries i q = [] \<longleftrightarrow> i \<notin> q_task_id ` set q"
  by (auto simp: entries_def filter_empty_conv)

section \<open>The invariant\<close>

definition active :: "Task \<Rightarrow> bool" where
  "active t \<longleftrightarrow> t_status t = ASSIGNED \<or> t_status t = RUNNING"

text \<open>The task holds a slot of the worker that this process granted.\<close>

definition occupies :: "WorkerId \<Rightarrow> Task \<Rightarrow> bool" where
  "occupies w t \<longleftrightarrow> active t \<and> \<not> t_recovery_required t \<and> t_worker_id t = w"

definition task_ok :: "Task \<Rightarrow> bool" where
  "task_ok t \<longleftrightarrow>
     t_status t \<noteq> PENDING
     \<and> (active t \<longrightarrow> t_worker_id t \<noteq> []) \<and> (t_status t = QUEUED \<longrightarrow> t_worker_id t = [])
     \<and> (t_recovery_required t \<longrightarrow> active t)
     \<and> t_type t = REGRESSION \<and> - 100 \<le> t_priority t \<and> t_priority t \<le> 100 \<and> 0 \<le> t_retry_count t
     \<and> t_queue_sequence t < 2 ^ 63"

definition table_ok :: "Scheduler \<Rightarrow> bool" where
  "table_ok sc \<longleftrightarrow>
     distinct (map fst (sc_tasks sc))
     \<and> (\<forall>i t. map_of (sc_tasks sc) i = Some t \<longrightarrow> t_id t = i \<and> i \<noteq> 0 \<and> task_ok t)"

definition queue_entry :: "Task \<Rightarrow> QueuedTaskInfo" where
  "queue_entry t = \<lparr>q_task_id = t_id t, q_priority = t_priority t, q_sequence = t_queue_sequence t\<rparr>"

definition queue_ok :: "Scheduler \<Rightarrow> bool" where
  "queue_ok sc \<longleftrightarrow>
     queue_sorted (sc_queue sc)
     \<and> (\<forall>q \<in> set (sc_queue sc). q_sequence q < sc_next_sequence sc)
     \<and> sc_next_sequence sc \<le> 2 ^ 63
     \<and> (\<forall>i t. map_of (sc_tasks sc) i = Some t \<longrightarrow>
          (t_status t = QUEUED \<longrightarrow> entries i (sc_queue sc) = [queue_entry t])
          \<and> (active t \<longrightarrow> entries i (sc_queue sc) = []))"

definition known_ok :: "sys \<Rightarrow> bool" where
  "known_ok s \<longleftrightarrow>
     (let table = fst ` set (sc_tasks (sy_sched s)); queued = q_task_id ` set (sc_queue (sy_sched s)) in
      (case sy_store s of
         None \<Rightarrow> queued \<subseteq> table
       | Some db \<Rightarrow> store_ok db \<and> table \<union> queued \<subseteq> known_ids db))"

definition quarantine_ok :: "Scheduler \<Rightarrow> bool" where
  "quarantine_ok sc \<longleftrightarrow>
     (\<forall>i t. map_of (sc_tasks sc) i = Some t \<longrightarrow> active t \<longrightarrow> t_recovery_required t \<longrightarrow>
        t_worker_id t \<in> sc_quarantined sc
        \<and> (\<forall>j u. map_of (sc_tasks sc) j = Some u \<longrightarrow> \<not> occupies (t_worker_id t) u))"

definition stop_ok :: "Scheduler \<Rightarrow> bool" where
  "stop_ok sc \<longleftrightarrow> (\<forall>i t. map_of (sc_tasks sc) i = Some t \<longrightarrow> batch_stopped sc t \<longrightarrow> t_status t \<noteq> QUEUED)"

definition dispatch_ok :: "Scheduler \<Rightarrow> bool" where
  "dispatch_ok sc \<longleftrightarrow>
     (\<forall>i \<in> sc_dispatching sc. \<exists>t. map_of (sc_tasks sc) i = Some t \<and> t_status t \<noteq> QUEUED)"

definition slots_match :: "(WorkerId \<Rightarrow> nat) \<Rightarrow> (TaskId \<times> Task) list \<Rightarrow> bool" where
  "slots_match u ts \<longleftrightarrow> (\<forall>w. u w = count_vals (occupies w) ts)"

definition sched_inv :: "sys \<Rightarrow> bool" where
  "sched_inv s \<longleftrightarrow>
     wm_ok (sy_wm s) \<and> table_ok (sy_sched s) \<and> queue_ok (sy_sched s) \<and> known_ok s
     \<and> quarantine_ok (sy_sched s) \<and> stop_ok (sy_sched s) \<and> dispatch_ok (sy_sched s)
     \<and> slots_match (used (sy_wm s)) (sc_tasks (sy_sched s))"

lemma sched_invI:
  "\<lbrakk>wm_ok (sy_wm s); table_ok (sy_sched s); queue_ok (sy_sched s); known_ok s; quarantine_ok (sy_sched s);
    stop_ok (sy_sched s); dispatch_ok (sy_sched s); slots_match (used (sy_wm s)) (sc_tasks (sy_sched s))\<rbrakk>
   \<Longrightarrow> sched_inv s"
  by (simp add: sched_inv_def)

lemma sched_invD:
  assumes "sched_inv s"
  shows "wm_ok (sy_wm s)" "table_ok (sy_sched s)" "queue_ok (sy_sched s)" "known_ok s"
    "quarantine_ok (sy_sched s)" "stop_ok (sy_sched s)" "dispatch_ok (sy_sched s)"
    "slots_match (used (sy_wm s)) (sc_tasks (sy_sched s))"
  using assms by (simp_all add: sched_inv_def)

lemma table_okD:
  assumes "table_ok sc"
  shows "distinct (map fst (sc_tasks sc))"
    and "map_of (sc_tasks sc) i = Some t \<Longrightarrow> t_id t = i"
    and "map_of (sc_tasks sc) i = Some t \<Longrightarrow> i \<noteq> 0"
    and "map_of (sc_tasks sc) i = Some t \<Longrightarrow> task_ok t"
  using assms by (auto simp: table_ok_def)

lemma queue_okD:
  assumes "queue_ok sc"
  shows "queue_sorted (sc_queue sc)"
    and "q \<in> set (sc_queue sc) \<Longrightarrow> q_sequence q < sc_next_sequence sc"
    and "map_of (sc_tasks sc) i = Some t \<Longrightarrow> t_status t = QUEUED \<Longrightarrow> entries i (sc_queue sc) = [queue_entry t]"
    and "map_of (sc_tasks sc) i = Some t \<Longrightarrow> active t \<Longrightarrow> entries i (sc_queue sc) = []"
    and "sc_next_sequence sc \<le> 2 ^ 63"
  using assms by (auto simp: queue_ok_def)

text \<open>A slot held by a task can be given back.\<close>

lemma slots_match_pos:
  assumes "slots_match u ts" and "map_of ts i = Some t" and "occupies w t"
  shows "u w \<noteq> 0"
  using assms count_vals_pos [of ts i t "occupies w"] by (simp add: slots_match_def)

lemma slots_match_update:
  assumes "slots_match u ts" and t: "map_of ts i = Some t"
    and u': "\<And>w. u' w = u w - of_bool (occupies w t) + of_bool (occupies w t')"
  shows "slots_match u' (AList.update i t' ts)"
  unfolding slots_match_def
proof
  fix w
  have "u w = count_vals (occupies w) ts" using assms(1) by (simp add: slots_match_def)
  moreover have "occupies w t \<Longrightarrow> 0 < count_vals (occupies w) ts"
    using count_vals_pos [OF t] by blast
  ultimately show "u' w = count_vals (occupies w) (AList.update i t' ts)"
    using count_vals_update_old [OF t, of "occupies w" t'] u' [of w] by (auto split: if_splits)
qed

text \<open>Giving back the slot of a task that stops occupying its worker.\<close>

lemma slots_match_leave:
  assumes "slots_match u ts" and "map_of ts i = Some t" and "active t" and "\<not> t_recovery_required t"
    and "\<And>w. \<not> occupies w t'"
  shows "slots_match (u(t_worker_id t := u (t_worker_id t) - 1)) (AList.update i t' ts)"
  by (rule slots_match_update [OF assms(1,2)]) (use assms(3-) in \<open>auto simp: occupies_def\<close>)

text \<open>A task that held no granted slot and holds none afterwards.\<close>

lemma slots_match_keep:
  assumes "slots_match u ts" and "map_of ts i = Some t" and "\<And>w. occupies w t' = occupies w t"
  shows "slots_match u (AList.update i t' ts)"
  unfolding slots_match_def
proof
  fix w
  show "u w = count_vals (occupies w) (AList.update i t' ts)"
    using assms(1) count_vals_update_same [OF assms(2), of "occupies w" t'] assms(3)
    by (simp add: slots_match_def)
qed

section \<open>The store under the scheduler\<close>

definition store_grows :: "sys \<Rightarrow> sys \<Rightarrow> bool" where
  "store_grows s s' \<longleftrightarrow> 
     rel_option (\<lambda>db db'. known_ids db \<subseteq> known_ids db' \<and> (store_ok db \<longrightarrow> store_ok db'))
       (sy_store s) (sy_store s')"

lemma store_grows_refl [simp]: "store_grows s s"
  unfolding store_grows_def by (rule option.rel_refl) simp

lemma store_grows_same: "sy_store s' = sy_store s \<Longrightarrow> store_grows s s'"
  unfolding store_grows_def by (simp add: option.rel_refl)

lemma store_grows_trans: "store_grows s s' \<Longrightarrow> store_grows s' s'' \<Longrightarrow> store_grows s s''"
  unfolding store_grows_def by (auto elim!: option.rel_cases)

lemma store_save_frame:
  assumes "store_save e ts sb ov su re s = (r, s')"
  shows "sy_wm s' = sy_wm s" "sy_sched s' = sy_sched s" "store_grows s s'"
    "sy_store s' = None \<longleftrightarrow> sy_store s = None"
proof -
  show "sy_wm s' = sy_wm s" "sy_sched s' = sy_sched s" "sy_store s' = None \<longleftrightarrow> sy_store s = None"
    using assms by (auto simp: store_save_def split: option.splits prod.splits)
  show "store_grows s s'"
  proof (cases "sy_store s")
    case None
    then show ?thesis using assms by (auto simp: store_save_def)
  next
    case (Some db)
    let ?w = "save (e_codec e) (e_save_now e) ts sb ov su re db"
    from Some assms have "sy_store s' = Some (snd ?w)"
      by (auto simp: store_save_def split: prod.splits)
    then show ?thesis
      using Some save_known_mono [of db] save_store_ok [of db] by (simp add: store_grows_def)
  qed
qed

lemma store_save_stored:
  assumes "store_save e ts sb ov su re s = (Inr u, s')" and "sy_store s' = Some db'" and "\<forall>t \<in> set ts. storable t"
  shows "t_id ` set ts \<subseteq> known_ids db'"
  using assms save_stored by (fastforce simp: store_save_def split: option.splits prod.splits)

lemma store_save_storable:
  assumes "store_save e [t] sb ov su re s = (Inr u, s')" and "sy_store s = Some db" and "t_id t \<in> known_ids db"
  shows "storable t"
proof -
  from assms(1,2) obtain db' where "save (e_codec e) (e_save_now e) [t] sb ov su re db = (Inr u, db')"
    by (auto simp: store_save_def split: prod.splits)
  then have "save_body (e_codec e) (e_save_now e) [t] sb ov su re (db\<lparr>s_writes := Suc (s_writes db)\<rparr>) = Inr db'"
    by (simp add: save_Inr_body)
  then obtain db0 db1 where "s_tasks db0 = s_tasks db" "save_tasks (e_codec e) (e_save_now e) ov (re \<noteq> None) [t] db0 = Inr db1"
    by (rule save_body_E) auto
  then show ?thesis
    using assms(3)
    by (auto simp: save_task_def Let_def rbind_Inr_iff put_task_def known_ids_def row_of_checks row_of_id
        split: if_splits)
qed

section \<open>Replacing one task of the table\<close>

lemma set_task_simps [simp]:
  "sc_tasks (set_task i t sc) = AList.update i t (sc_tasks sc)"
  "sc_queue (set_task i t sc) = sc_queue sc"
  "sc_dispatching (set_task i t sc) = sc_dispatching sc"
  "sc_stopped_batches (set_task i t sc) = sc_stopped_batches sc"
  "sc_quarantined (set_task i t sc) = sc_quarantined sc"
  "sc_reconciling (set_task i t sc) = sc_reconciling sc"
  "sc_next_sequence (set_task i t sc) = sc_next_sequence sc"
  "sc_last_selected (set_task i t sc) = sc_last_selected sc"
  by (simp_all add: set_task_def)

lemma enqueue_simps [simp]:
  "sc_tasks (enqueue i p sc) = sc_tasks sc"
  "sc_queue (enqueue i p sc) =
     queue_push \<lparr>q_task_id = i, q_priority = p, q_sequence = sc_next_sequence sc\<rparr> (sc_queue sc)"
  "sc_dispatching (enqueue i p sc) = sc_dispatching sc"
  "sc_stopped_batches (enqueue i p sc) = sc_stopped_batches sc"
  "sc_quarantined (enqueue i p sc) = sc_quarantined sc"
  "sc_reconciling (enqueue i p sc) = sc_reconciling sc"
  "sc_next_sequence (enqueue i p sc) = sc_next_sequence sc + 1"
  "sc_last_selected (enqueue i p sc) = sc_last_selected sc"
  by (simp_all add: enqueue_def)

lemma put_simps [simp]:
  "sy_sched (put_sched sc s) = sc" "sy_wm (put_sched sc s) = sy_wm s" "sy_store (put_sched sc s) = sy_store s"
  "sy_sched (put_wm wm s) = sy_sched s" "sy_wm (put_wm wm s) = wm" "sy_store (put_wm wm s) = sy_store s"
  by (simp_all add: put_sched_def put_wm_def)

lemma batch_stopped_cong:
  "batchId t' = batchId t \<Longrightarrow> sc_stopped_batches sc' = sc_stopped_batches sc \<Longrightarrow>
   batch_stopped sc' t' = batch_stopped sc t"
  by (simp add: batch_stopped_def split: option.split)

lemma batch_stopped_set_task [simp]: "batch_stopped (set_task i t sc) = batch_stopped sc"
  by (simp add: batch_stopped_def fun_eq_iff split: option.split)

lemma batch_stopped_enqueue [simp]: "batch_stopped (enqueue i p sc) = batch_stopped sc"
  by (simp add: batch_stopped_def fun_eq_iff split: option.split)

lemma batchId_cong: "t_payload t' = t_payload t \<Longrightarrow> batchId t' = batchId t"
  by (simp add: batchId_def)

lemma known_ok_grow:
  assumes "known_ok s" and "store_grows s s'"
    and "fst ` set (sc_tasks (sy_sched s')) = fst ` set (sc_tasks (sy_sched s))"
    and "q_task_id ` set (sc_queue (sy_sched s'))
         \<subseteq> q_task_id ` set (sc_queue (sy_sched s)) \<union> fst ` set (sc_tasks (sy_sched s))"
  shows "known_ok s'"
proof (cases "sy_store s")
  case None
  then have "sy_store s' = None" using assms(2) by (simp add: store_grows_def)
  moreover have "q_task_id ` set (sc_queue (sy_sched s)) \<subseteq> fst ` set (sc_tasks (sy_sched s))"
    using None assms(1) by (simp add: known_ok_def)
  ultimately show ?thesis
    using assms(3,4) by (simp add: known_ok_def Un_absorb1)
next
  case (Some db)
  then obtain db' where db': "sy_store s' = Some db'" "known_ids db \<subseteq> known_ids db'" "store_ok db \<longrightarrow> store_ok db'"
    using assms(2) by (auto simp: store_grows_def option_rel_Some1)
  from Some assms(1) have "store_ok db"
    "fst ` set (sc_tasks (sy_sched s)) \<union> q_task_id ` set (sc_queue (sy_sched s)) \<subseteq> known_ids db"
    by (simp_all add: known_ok_def Let_def)
  with db' assms(3,4) show ?thesis unfolding known_ok_def Let_def db'(1) option.case by blast
qed

lemma keys_update_present: "map_of ts i = Some t \<Longrightarrow> fst ` set (AList.update i t' ts) = fst ` set ts"
  by (metis domIff dom_map_of_conv_image_fst fun_upd_triv map_of_al_update dom_fun_upd insert_dom option.distinct(1))

lemma table_ok_set:
  "table_ok sc \<Longrightarrow> t_id t' = i \<Longrightarrow> i \<noteq> 0 \<Longrightarrow> task_ok t' \<Longrightarrow> table_ok (set_task i t' sc)"
  by (auto simp: table_ok_def)

lemma table_ok_enqueue [simp]: "table_ok (enqueue i p sc) = table_ok sc"
  by (simp add: table_ok_def)

text \<open>
  A task leaves its state for one that is not queued: it becomes terminal, or it goes on being
  active on the same worker.
\<close>

lemma inv_replace:
  assumes inv: "sched_inv s" and t: "map_of (sc_tasks (sy_sched s)) i = Some t"
    and sc': "sy_sched s' = set_task i t' (sy_sched s)"
    and wm': "wm_ok (sy_wm s')" "slots_match (used (sy_wm s')) (AList.update i t' (sc_tasks (sy_sched s)))"
    and st: "store_grows s s'"
    and t': "t_id t' = i" "task_ok t'" "t_status t' \<noteq> QUEUED"
      "active t' \<Longrightarrow> active t \<and> t_worker_id t' = t_worker_id t \<and> t_recovery_required t' = t_recovery_required t"
  shows "sched_inv s'"
proof (rule sched_invI)
  let ?sc = "sy_sched s"
  note I = sched_invD [OF inv]
  have i0: "i \<noteq> 0" using table_okD(3) [OF I(2) t] .
  show "wm_ok (sy_wm s')" by (rule wm')
  show "table_ok (sy_sched s')" unfolding sc' by (rule table_ok_set [OF I(2) t'(1) i0 t'(2)])
  show "queue_ok (sy_sched s')"
    using I(3) t t' unfolding sc' queue_ok_def by auto
  show "known_ok s'"
    by (rule known_ok_grow [OF I(4) st]) (simp_all add: sc' keys_update_present [OF t])
  show "quarantine_ok (sy_sched s')"
    unfolding quarantine_ok_def sc'
  proof (intro allI impI conjI)
    fix j u assume j: "map_of (sc_tasks (set_task i t' ?sc)) j = Some u" and u: "active u" "t_recovery_required u"
    obtain j0 u0 where old: "map_of (sc_tasks ?sc) j0 = Some u0" "active u0" "t_recovery_required u0"
      "t_worker_id u0 = t_worker_id u"
      using j u t t'(4) by (cases "j = i") auto
    note Q = I(5) [unfolded quarantine_ok_def, rule_format, OF old(1-3)]
    show "t_worker_id u \<in> sc_quarantined (set_task i t' ?sc)" using Q old(4) by simp
    fix k v assume k: "map_of (sc_tasks (set_task i t' ?sc)) k = Some v"
    show "\<not> occupies (t_worker_id u) v"
    proof
      assume occ: "occupies (t_worker_id u) v"
      then obtain v0 where "map_of (sc_tasks ?sc) k = Some v0" "occupies (t_worker_id u) v0"
        using k t t'(4) by (cases "k = i") (auto simp: occupies_def)
      with Q old(4) show False by auto
    qed
  qed
  show "stop_ok (sy_sched s')"
    using I(6) t'(3) unfolding sc' stop_ok_def by auto
  show "dispatch_ok (sy_sched s')"
    using I(7) t'(3) unfolding sc' dispatch_ok_def by auto
  show "slots_match (used (sy_wm s')) (sc_tasks (sy_sched s'))"
    using wm'(2) by (simp add: sc')
qed

text \<open>An active task goes back to the queue, with a new entry at the end of its priority.\<close>

lemma inv_requeue:
  assumes inv: "sched_inv s" and t: "map_of (sc_tasks (sy_sched s)) i = Some t" "active t"
    and sc': "sy_sched s' = enqueue (t_id t) (t_priority t) (set_task i t' (sy_sched s))"
    and wm': "wm_ok (sy_wm s')" "slots_match (used (sy_wm s')) (AList.update i t' (sc_tasks (sy_sched s)))"
    and st: "store_grows s s'"
    and t': "t_id t' = i" "task_ok t'" "t_status t' = QUEUED" "t_priority t' = t_priority t"
      "t_queue_sequence t' = sc_next_sequence (sy_sched s)" "\<not> batch_stopped (sy_sched s) t'"
    and free: "i \<notin> sc_dispatching (sy_sched s)" and room: "sc_next_sequence (sy_sched s) < 2 ^ 63"
  shows "sched_inv s'"
proof (rule sched_invI)
  let ?sc = "sy_sched s"
  note I = sched_invD [OF inv]
  have id: "t_id t = i" and i0: "i \<noteq> 0" using table_okD [OF I(2)] t by auto
  have grow: "x < sc_next_sequence ?sc + 1" if "x \<le> sc_next_sequence ?sc" for x
    using that room by (simp add: word_less_nat_alt word_le_nat_alt unat_word_ariths)
  have le: "sc_next_sequence ?sc + 1 \<le> 2 ^ 63"
    using room by (simp add: word_less_nat_alt word_le_nat_alt unat_word_ariths)
  show "wm_ok (sy_wm s')" by (rule wm')
  show "table_ok (sy_sched s')"
    unfolding sc' by (simp add: table_ok_set [OF I(2) t'(1) i0 t'(2)])
  have e: "entries i (sc_queue ?sc) = []" by (rule queue_okD(4) [OF I(3) t])
  show "queue_ok (sy_sched s')"
    unfolding queue_ok_def
  proof (intro conjI allI impI ballI)
    show "queue_sorted (sc_queue (sy_sched s'))"
      using queue_okD(1) [OF I(3)] by (simp add: sc' queue_push_sorted)
    show "sc_next_sequence (sy_sched s') \<le> 2 ^ 63" using le by (simp add: sc')
    fix q assume "q \<in> set (sc_queue (sy_sched s'))"
    then have "q_sequence q \<le> sc_next_sequence ?sc"
      using queue_okD(2) [OF I(3)] by (auto simp: sc' intro: less_imp_le)
    then show "q_sequence q < sc_next_sequence (sy_sched s')"
      using grow by (simp add: sc')
  next
    fix j u assume j: "map_of (sc_tasks (sy_sched s')) j = Some u"
    show "entries j (sc_queue (sy_sched s')) = [queue_entry u]" if "t_status u = QUEUED"
      using j that queue_okD(3) [OF I(3), of j u] e t'
      by (auto simp: sc' id entries_push [OF queue_okD(1) [OF I(3)]] queue_entry_def split: if_splits)
    show "entries j (sc_queue (sy_sched s')) = []" if "active u"
      using j that queue_okD(4) [OF I(3), of j u] t'
      by (auto simp: sc' id entries_push [OF queue_okD(1) [OF I(3)]] active_def split: if_splits)
  qed
  show "known_ok s'"
    by (rule known_ok_grow [OF I(4) st])
       (use t in \<open>auto simp: sc' id keys_update_present dest: map_of_SomeD intro: rev_image_eqI\<close>)
  show "quarantine_ok (sy_sched s')"
    using I(5) t' unfolding sc' quarantine_ok_def by (auto simp: active_def occupies_def split: if_splits)
  show "stop_ok (sy_sched s')"
    using I(6) t' unfolding sc' stop_ok_def by auto
  show "dispatch_ok (sy_sched s')"
    using I(7) free unfolding sc' dispatch_ok_def by auto
  show "slots_match (used (sy_wm s')) (sc_tasks (sy_sched s'))"
    using wm'(2) by (simp add: sc')
qed

text \<open>Steps that leave table, queue and stops alone.\<close>

lemma inv_frame:
  assumes inv: "sched_inv s"
    and "sc_tasks (sy_sched s') = sc_tasks (sy_sched s)" "sc_queue (sy_sched s') = sc_queue (sy_sched s)"
      "sc_next_sequence (sy_sched s') = sc_next_sequence (sy_sched s)"
      "sc_stopped_batches (sy_sched s') = sc_stopped_batches (sy_sched s)"
      "sc_quarantined (sy_sched s) \<subseteq> sc_quarantined (sy_sched s')"
      "sc_dispatching (sy_sched s') \<subseteq> sc_dispatching (sy_sched s)"
    and "wm_ok (sy_wm s')" "used (sy_wm s') = used (sy_wm s)" "store_grows s s'"
  shows "sched_inv s'"
proof (rule sched_invI)
  note I = sched_invD [OF inv]
  show "wm_ok (sy_wm s')" by fact
  show "table_ok (sy_sched s')" "queue_ok (sy_sched s')"
    using I(2,3) assms(2-4) by (simp_all add: table_ok_def queue_ok_def)
  show "known_ok s'"
    by (rule known_ok_grow [OF I(4) assms(10)]) (use assms(2,3) in auto)
  show "quarantine_ok (sy_sched s')"
    using I(5) assms(2,6) unfolding quarantine_ok_def by fastforce
  have "batch_stopped (sy_sched s') = batch_stopped (sy_sched s)"
    using assms(5) by (simp add: batch_stopped_def fun_eq_iff split: option.split)
  then show "stop_ok (sy_sched s')" using I(6) assms(2) by (simp add: stop_ok_def)
  show "dispatch_ok (sy_sched s')" using I(7) assms(2,7) unfolding dispatch_ok_def by fastforce
  show "slots_match (used (sy_wm s')) (sc_tasks (sy_sched s'))" using I(8) assms(2,9) by simp
qed

lemma inv_store_save:
  assumes "sched_inv s" and "store_save e ts sb ov su re s = (r, s')"
  shows "sched_inv s'"
  by (rule inv_frame [OF assms(1)])
     (use store_save_frame [OF assms(2)] sched_invD(1) [OF assms(1)] in simp_all)

lemma inv_releaseRecoveryHold:
  assumes "sched_inv s"
  shows "sched_inv (put_sched (releaseRecoveryHold w (sy_sched s)) s)"
proof (cases "releaseRecoveryHold w (sy_sched s) = sy_sched s")
  case True
  then show ?thesis using assms by (simp add: put_sched_def)
next
  case False
  note I = sched_invD [OF assms]
  from False have none: "\<not> (active t \<and> t_worker_id t = w)" if "map_of (sc_tasks (sy_sched s)) i = Some t" for i t
    using map_of_SomeD [OF that] by (auto simp: releaseRecoveryHold_def active_def split: if_splits)
  from False have eq: "releaseRecoveryHold w (sy_sched s) = (sy_sched s)\<lparr>sc_quarantined := sc_quarantined (sy_sched s) - {w}\<rparr>"
    by (auto simp: releaseRecoveryHold_def split: if_splits)
  have bs: "batch_stopped (sy_sched s\<lparr>sc_quarantined := Q\<rparr>) = batch_stopped (sy_sched s)" for Q
    by (simp add: batch_stopped_def fun_eq_iff split: option.split)
  show ?thesis
    unfolding eq
  proof (rule sched_invI)
    show "quarantine_ok (sy_sched (put_sched ((sy_sched s)\<lparr>sc_quarantined := sc_quarantined (sy_sched s) - {w}\<rparr>) s))"
      using I(5) none unfolding quarantine_ok_def by fastforce
  qed (use I in \<open>simp_all add: table_ok_def queue_ok_def known_ok_def Let_def stop_ok_def dispatch_ok_def bs
      split: option.splits\<close>)
qed

section \<open>Start, completion, cancellation\<close>

lemma store_grows_put [simp]:
  "store_grows s (put_sched sc s1) = store_grows s s1" "store_grows s (put_wm wm s1) = store_grows s s1"
  "store_grows (put_sched sc s) s1 = store_grows s s1" "store_grows (put_wm wm s) s1 = store_grows s s1"
  by (simp_all add: store_grows_def)

lemma transitionTo_E:
  assumes "transitionTo now next t = (b, t')"
  shows "b = canTransitionTo t next" and "b \<Longrightarrow> t_status t' = next"
    and "t_id t' = t_id t" "t_type t' = t_type t" "t_payload t' = t_payload t" "t_worker_id t' = t_worker_id t"
    and "t_priority t' = t_priority t" "t_retry_count t' = t_retry_count t"
    and "t_queue_sequence t' = t_queue_sequence t" "t_recovery_required t' = t_recovery_required t"
    and "t_run_id t' = t_run_id t"
  using transitionTo_flag [of now "next" t] transitionTo_status [of now "next" t]
    transitionTo_frame [of now "next" t] assms by auto

lemma inv_markTaskStarted:
  assumes inv: "sched_inv s"
  shows "sched_inv (snd (markTaskStarted e i worker_id s))"
proof (cases "map_of (sc_tasks (sy_sched s)) i")
  case None
  with inv show ?thesis by (simp add: markTaskStarted_def Let_def)
next
  case (Some t)
  note I = sched_invD [OF inv]
  have ok: "task_ok t" and id: "t_id t = i" using table_okD [OF I(2)] Some by auto
  show ?thesis
  proof (cases "t_status t = ASSIGNED \<and> t_worker_id t = worker_id")
    case False
    with Some inv show ?thesis by (auto simp: markTaskStarted_def Let_def)
  next
    case True
    obtain p where p: "transitionTo (e_prepare_now e i) RUNNING t = (True, p)"
      using True by (cases "transitionTo (e_prepare_now e i) RUNNING t")
        (auto dest: transitionTo_E(1) simp: canTransitionTo_def)
    note P = transitionTo_E [OF p]
    obtain r s1 where sv: "store_save e [p] None None None None s = (r, s1)" by fastforce
    note F = store_save_frame [OF sv]
    show ?thesis
    proof (cases r)
      case (Inl x)
      with Some True p sv inv_store_save [OF inv sv] show ?thesis
        by (simp add: markTaskStarted_def Let_def)
    next
      case (Inr u)
      have "sched_inv (put_sched (set_task i p (sy_sched s)) s1)"
      proof (rule inv_replace [OF inv Some])
        show "slots_match (used (sy_wm (put_sched (set_task i p (sy_sched s)) s1)))
            (AList.update i p (sc_tasks (sy_sched s)))"
          unfolding put_simps F(1)
          by (rule slots_match_keep [OF I(8) Some]) (use P True in \<open>auto simp: occupies_def active_def\<close>)
      qed (use P True ok id F I(1) in \<open>auto simp: task_ok_def active_def intro: store_grows_trans store_grows_same\<close>)
      with Inr Some True p sv show ?thesis by (simp add: markTaskStarted_def Let_def)
    qed
  qed
qed

text \<open>A terminal version of a task keeps the table well formed.\<close>

lemma terminal_facts:
  assumes "terminal (t_status t')"
  shows "\<not> active t'" "t_status t' \<noteq> QUEUED" "\<not> occupies w t'"
  using assms by (auto simp: terminal_def active_def occupies_def)

lemma task_ok_terminal:
  assumes "task_ok t" and "terminal (t_status t')" and "\<not> t_recovery_required t'"
    and "t_type t' = t_type t" "t_priority t' = t_priority t" "t_retry_count t' = t_retry_count t"
    and "t_queue_sequence t' = t_queue_sequence t"
  shows "task_ok t'"
  using assms by (auto simp: task_ok_def terminal_def active_def)

lemma inv_terminal:
  assumes inv: "sched_inv s" and t: "map_of (sc_tasks (sy_sched s)) i = Some t"
    and sc': "sy_sched s' = set_task i t' (sy_sched s)" and st: "store_grows s s'"
    and t': "t_id t' = i" "task_ok t'" "terminal (t_status t')"
    and wm': "sy_wm s' = (if active t \<and> \<not> t_recovery_required t
                           then snd (releaseSlot (t_worker_id t) (sy_wm s)) else sy_wm s)"
  shows "sched_inv s'"
proof (rule inv_replace [OF inv t sc' _ _ st t'(1,2)])
  note I = sched_invD [OF inv] and T = terminal_facts [OF t'(3)]
  show "wm_ok (sy_wm s')" using I(1) by (simp add: wm' releaseSlot_ok)
  show "slots_match (used (sy_wm s')) (AList.update i t' (sc_tasks (sy_sched s)))"
  proof (cases "active t \<and> \<not> t_recovery_required t")
    case True
    then show ?thesis
      using slots_match_leave [OF I(8) t, of t'] T by (simp add: wm' releaseSlot_used)
  next
    case False
    then have "sy_wm s' = sy_wm s" by (auto simp: wm')
    then show ?thesis
      using slots_match_keep [OF I(8) t, of t'] T False by (auto simp: occupies_def)
  qed
  show "t_status t' \<noteq> QUEUED"
    and "active t' \<Longrightarrow> active t \<and> t_worker_id t' = t_worker_id t \<and> t_recovery_required t' = t_recovery_required t"
    using T by auto
qed

text \<open>The task that completion publishes.\<close>

definition completed :: "env \<Rightarrow> TaskId \<Rightarrow> TaskStatus \<Rightarrow> json \<Rightarrow> Task \<Rightarrow> Task" where
  "completed e i final_status summary t =
     setRecoveryRequired False (snd (transitionTo (e_prepare_now e i) final_status (setExecutionSummary summary t)))"

lemma completed_simps:
  "t_id (completed e i st j t) = t_id t" "t_type (completed e i st j t) = t_type t"
  "t_priority (completed e i st j t) = t_priority t" "t_retry_count (completed e i st j t) = t_retry_count t"
  "t_queue_sequence (completed e i st j t) = t_queue_sequence t" "\<not> t_recovery_required (completed e i st j t)"
  "t_worker_id (completed e i st j t) = t_worker_id t" "t_run_id (completed e i st j t) = t_run_id t"
  "t_payload (completed e i st j t) = t_payload t" "t_execution_summary (completed e i st j t) = j"
  "can_transition (t_status t) st \<Longrightarrow> t_status (completed e i st j t) = st"
  by (simp_all add: completed_def task_setters transitionTo_status canTransitionTo_def)

text \<open>What \<open>completeTask\<close> does to a running task, by the outcome of the write.\<close>

lemma completeTask_running:
  assumes t: "map_of (sc_tasks (sy_sched s)) i = Some t" "t_status t = RUNNING" "t_worker_id t \<noteq> []"
    and st: "isValidFinalStatus st"
    and sv: "store_save e [completed e i st j t] None None None None s = (r, s1)"
  shows "completeTask e i st j s =
     (case r of Inl x \<Rightarrow> (Inl x, s1)
      | Inr _ \<Rightarrow>
          let s2 = put_sched (releaseRecoveryHold (t_worker_id t) (set_task i (completed e i st j t) (sy_sched s))) s1
          in if t_recovery_required t then (Inr True, s2)
             else case releaseSlot (t_worker_id t) (sy_wm s2) of (b, wm) \<Rightarrow> (Inr b, put_wm wm s2))"
proof -
  have "canTransitionTo t st" using t(2) st by (auto simp: canTransitionTo_def isValidFinalStatus_def)
  with assms show ?thesis
    by (cases r) (simp_all add: completeTask_def Let_def completed_def)
qed

lemma completeTask_refused:
  assumes "\<not> (\<exists>t. map_of (sc_tasks (sy_sched s)) i = Some t \<and> t_status t = RUNNING \<and> t_worker_id t \<noteq> [])
           \<or> \<not> isValidFinalStatus st"
  shows "completeTask e i st j s = (Inr False, s)"
  using assms by (auto simp: completeTask_def Let_def split: option.splits)

lemma put_wm_put_sched: "put_wm wm (put_sched sc s) = put_sched sc (put_wm wm s)"
  by (simp add: put_wm_def put_sched_def)

lemma put_sched_put_sched [simp]: "put_sched sc (put_sched sc' s) = put_sched sc s"
  by (simp add: put_sched_def)

lemma inv_completeTask:
  assumes inv: "sched_inv s"
  shows "sched_inv (snd (completeTask e i st j s))"
proof (cases "(\<exists>t. map_of (sc_tasks (sy_sched s)) i = Some t \<and> t_status t = RUNNING \<and> t_worker_id t \<noteq> [])
              \<and> isValidFinalStatus st")
  case False
  then have "completeTask e i st j s = (Inr False, s)" by (intro completeTask_refused) blast
  with inv show ?thesis by simp
next
  case True
  then obtain t where t: "map_of (sc_tasks (sy_sched s)) i = Some t" "t_status t = RUNNING" "t_worker_id t \<noteq> []"
    and st: "isValidFinalStatus st" by auto
  note I = sched_invD [OF inv]
  let ?p = "completed e i st j t"
  obtain r s1 where sv: "store_save e [?p] None None None None s = (r, s1)" by fastforce
  note F = store_save_frame [OF sv]
  define wm where "wm = (if t_recovery_required t then sy_wm s else snd (releaseSlot (t_worker_id t) (sy_wm s)))"
  define s3 where "s3 = put_sched (set_task i ?p (sy_sched s)) (put_wm wm s1)"
  have stat: "t_status ?p = st" using t(2) st by (auto simp: completed_simps isValidFinalStatus_def)
  have "sched_inv s3"
  proof (rule inv_terminal [OF inv t(1)])
    show "task_ok ?p"
      by (rule task_ok_terminal [of t])
         (use t st stat table_okD [OF I(2)] in \<open>auto simp: completed_simps terminal_def isValidFinalStatus_def\<close>)
    show "store_grows s s3" using F(3) by (simp add: s3_def store_grows_def)
  qed (use t st stat table_okD(2) [OF I(2)] F
       in \<open>auto simp: s3_def wm_def completed_simps terminal_def isValidFinalStatus_def active_def\<close>)
  then have "sched_inv (put_sched (releaseRecoveryHold (t_worker_id t) (sy_sched s3)) s3)"
    by (rule inv_releaseRecoveryHold)
  moreover have "snd (completeTask e i st j s) =
    (case r of Inl x \<Rightarrow> s1 | Inr _ \<Rightarrow> put_sched (releaseRecoveryHold (t_worker_id t) (sy_sched s3)) s3)"
    unfolding completeTask_running [OF t st sv] s3_def wm_def
    by (auto simp: Let_def F put_wm_put_sched put_wm_def put_sched_def split: sum.split prod.split)
  ultimately show ?thesis
    using inv_store_save [OF inv sv] by (auto split: sum.splits)
qed

lemma inv_cancel_waiting:
  assumes inv: "sched_inv s" and t: "map_of (sc_tasks (sy_sched s)) i = Some t" "t_status t = QUEUED"
  shows "sched_inv (snd (cancel_waiting e i t s))"
proof -
  note I = sched_invD [OF inv]
  obtain r s1 where sv: "store_save e [snd (transitionTo (e_prepare_now e i) CANCELLED t)] None None None None s = (r, s1)"
    by fastforce
  note F = store_save_frame [OF sv]
  obtain c where c: "transitionTo (e_commit_now e i) CANCELLED t = (True, c)"
    using t(2) by (cases "transitionTo (e_commit_now e i) CANCELLED t")
      (auto dest: transitionTo_E(1) simp: canTransitionTo_def)
  note C = transitionTo_E [OF c]
  have "sched_inv (put_sched (set_task i c (sy_sched s)) s1)"
  proof (rule inv_terminal [OF inv t(1)])
    show "task_ok c"
      by (rule task_ok_terminal [of t])
         (use C t table_okD(4) [OF I(2) t(1)] in \<open>auto simp: terminal_def task_ok_def active_def\<close>)
  qed (use C t table_okD(2) [OF I(2)] F in \<open>auto simp: terminal_def active_def\<close>)
  with inv_store_save [OF inv sv] show ?thesis
    by (auto simp: cancel_waiting_def Let_def sv c F split: sum.splits)
qed

lemma inv_cancelTask:
  assumes "sched_inv s"
  shows "sched_inv (snd (cancelTask e i s))"
proof -
  have "t_status t \<noteq> PENDING" if "map_of (sc_tasks (sy_sched s)) i = Some t" for t
    using table_okD(4) [OF sched_invD(2) [OF assms] that] by (simp add: task_ok_def)
  with assms inv_cancel_waiting [OF assms] show ?thesis
    by (auto simp: cancelTask_def split: option.splits TaskStatus.splits)
qed

section \<open>Rollback and recovery\<close>

lemma task_ok_queued:
  assumes "task_ok t" and "t_status t' = QUEUED" "t_worker_id t' = []" "\<not> t_recovery_required t'"
    and "t_type t' = t_type t" "t_priority t' = t_priority t" "0 \<le> t_retry_count t'"
    and "t_queue_sequence t' < 2 ^ 63"
  shows "task_ok t'"
  using assms by (simp add: task_ok_def active_def)

text \<open>An active task whose worker gave its slot back is queued again.\<close>

lemma inv_requeue_released:
  assumes inv: "sched_inv s" and t: "map_of (sc_tasks (sy_sched s)) i = Some t" "active t"
    and sc': "sy_sched s' = enqueue (t_id t) (t_priority t) (set_task i t' (sy_sched s))"
    and wm': "sy_wm s' = (if t_recovery_required t then sy_wm s else snd (releaseSlot (t_worker_id t) (sy_wm s)))"
    and st: "store_grows s s'"
    and t': "t_id t' = i" "task_ok t'" "t_status t' = QUEUED" "t_priority t' = t_priority t"
      "t_queue_sequence t' = sc_next_sequence (sy_sched s)" "\<not> batch_stopped (sy_sched s) t'"
    and free: "i \<notin> sc_dispatching (sy_sched s)"
  shows "sched_inv s'"
proof (rule inv_requeue [OF inv t sc' _ _ st t' free])
  note I = sched_invD [OF inv]
  have no: "\<not> occupies w t'" for w using t'(3) by (simp add: occupies_def active_def)
  show "wm_ok (sy_wm s')" using I(1) by (simp add: wm' releaseSlot_ok)
  show "slots_match (used (sy_wm s')) (AList.update i t' (sc_tasks (sy_sched s)))"
  proof (cases "t_recovery_required t")
    case True
    then show ?thesis
      using slots_match_keep [OF I(8) t(1), of t'] no by (auto simp: wm' occupies_def)
  next
    case False
    then show ?thesis
      using slots_match_leave [OF I(8) t, of t'] no by (simp add: wm' releaseSlot_used)
  qed
  show "sc_next_sequence (sy_sched s) < 2 ^ 63"
    using t'(2,5) by (simp add: task_ok_def)
qed

lemma lost_prepared_simps:
  "t_id (lost_prepared e sc m t) = t_id t" "t_type (lost_prepared e sc m t) = t_type t"
  "t_payload (lost_prepared e sc m t) = t_payload t" "t_priority (lost_prepared e sc m t) = t_priority t"
  "\<not> t_recovery_required (lost_prepared e sc m t)" "t_run_id (lost_prepared e sc m t) = t_run_id t"
  "t_status (lost_prepared e sc m t) =
     (if batch_stopped sc t then CANCELLED else if lost_retry sc m t then QUEUED else FAILED)"
  "t_retry_count (lost_prepared e sc m t) =
     t_retry_count t + (if lost_retry sc m t \<and> t_status t = RUNNING then 1 else 0)"
  "t_worker_id (lost_prepared e sc m t) =
     (if lost_retry sc m t \<or> batch_stopped sc t then [] else t_worker_id t)"
  "t_queue_sequence (lost_prepared e sc m t) =
     (if lost_retry sc m t then sc_next_sequence sc else t_queue_sequence t)"
  by (simp_all add: lost_prepared_def restore_def Let_def)

lemma known_of_table:
  "known_ok s \<Longrightarrow> sy_store s = Some db \<Longrightarrow> map_of (sc_tasks (sy_sched s)) i = Some t \<Longrightarrow> i \<in> known_ids db"
  by (auto simp: known_ok_def Let_def dest!: map_of_SomeD intro: rev_image_eqI)

lemma inv_recoverLost:
  assumes inv: "sched_inv s" and t: "map_of (sc_tasks (sy_sched s)) i = Some t" "active t"
    and free: "i \<notin> sc_dispatching (sy_sched s)"
  shows "sched_inv (snd (recoverLost e m i t s))"
proof (cases "sy_store s = None \<or> t_run_id t = []")
  case True
  with inv show ?thesis by (auto simp: recoverLost_def)
next
  case False
  then obtain db where db: "sy_store s = Some db" by auto
  note I = sched_invD [OF inv]
  let ?sc = "sy_sched s" and ?p = "lost_prepared e (sy_sched s) m t"
  have id: "t_id t = i" and ok: "task_ok t" using table_okD [OF I(2)] t by auto
  obtain r s1 where sv: "store_save e [?p] None (Some ''FAILED'') None (Some (t_worker_id t, lost_action ?sc m t)) s = (r, s1)"
    by fastforce
  note F = store_save_frame [OF sv]
  define s2 where "s2 = (if t_recovery_required t then s1 else put_wm (snd (releaseSlot (t_worker_id t) (sy_wm s1))) s1)"
  have s2: "sy_wm s2 = (if t_recovery_required t then sy_wm s else snd (releaseSlot (t_worker_id t) (sy_wm s)))"
    "store_grows s s2"
    using F by (auto simp: s2_def)
  show ?thesis
  proof (cases r)
    case (Inl x)
    with False sv inv_store_save [OF inv sv] show ?thesis by (auto simp: recoverLost_def Let_def)
  next
    case (Inr u)
    have "storable ?p"
      using store_save_storable [OF sv [unfolded Inr] db] known_of_table [OF I(4) db t(1)]
      by (simp add: lost_prepared_simps id)
    then have seq: "t_queue_sequence ?p < 2 ^ 63" by (simp add: storable_def sint_nonneg_u64)
    have bst: "batch_stopped ?sc ?p = batch_stopped ?sc t"
      by (intro batch_stopped_cong batchId_cong) (simp_all add: lost_prepared_simps)
    have "sched_inv (put_sched (if lost_retry ?sc m t then enqueue (t_id t) (t_priority t) (set_task i ?p ?sc)
                                else set_task i ?p ?sc) s2)"
    proof (cases "lost_retry ?sc m t")
      case True
      then have ns: "\<not> batch_stopped ?sc t" by (simp add: lost_retry_def)
      show ?thesis
      proof (rule inv_requeue_released [OF inv t])
        show "task_ok ?p"
          by (rule task_ok_queued [OF ok])
             (use True ns seq ok in \<open>auto simp: lost_prepared_simps task_ok_def\<close>)
      qed (use True ns s2 id free bst in \<open>auto simp: lost_prepared_simps\<close>)
    next
      case nr: False
      have fin: "terminal (t_status ?p)" using nr by (auto simp: lost_prepared_simps terminal_def)
      show ?thesis
      proof (rule inv_terminal [OF inv t(1)])
        show "task_ok ?p"
          by (rule task_ok_terminal [OF ok fin]) (use nr in \<open>auto simp: lost_prepared_simps\<close>)
      qed (use nr s2 id fin t(2) in \<open>auto simp: lost_prepared_simps\<close>)
    qed
    with False sv Inr show ?thesis
      by (simp add: recoverLost_def Let_def s2_def F split: if_splits)
  qed
qed

lemma inv_recover_idle:
  "sched_inv s \<Longrightarrow> sched_inv (snd (recover_idle e m w is s))"
proof (induction "is" arbitrary: s)
  case (Cons i "is")
  show ?case
  proof (cases "map_of (sc_tasks (sy_sched s)) i")
    case None
    with Cons show ?thesis by simp
  next
    case (Some t)
    have id: "t_id t = i" using table_okD(2) [OF sched_invD(2) [OF Cons.prems] Some] .
    have "sched_inv (snd (recoverLost e m i t s))" if "t_status t = ASSIGNED" "i \<notin> sc_dispatching (sy_sched s)"
      by (rule inv_recoverLost [OF Cons.prems Some]) (use that in \<open>auto simp: active_def\<close>)
    with Some Cons id show ?thesis
      by (auto simp: split: sum.splits prod.splits)
  qed
qed simp

lemma inv_set_reconciling:
  assumes "sched_inv s"
  shows "sched_inv (put_sched ((sy_sched s)\<lparr>sc_reconciling := R\<rparr>) s)"
  by (rule inv_frame [OF assms]) (use sched_invD(1) [OF assms] in simp_all)

lemma inv_holdWorker: "sched_inv s \<Longrightarrow> sched_inv (holdWorker w s)"
  by (simp add: holdWorker_def inv_set_reconciling)

lemma inv_ready:
  assumes "sched_inv s"
  shows "sched_inv (put_sched ((releaseRecoveryHold w (sy_sched s))\<lparr>sc_reconciling := R\<rparr>) s)"
  using inv_set_reconciling [OF inv_releaseRecoveryHold [OF assms, of w], of R] by simp

lemma inv_recoverWorker:
  assumes inv: "sched_inv s"
  shows "sched_inv (snd (recoverWorker e w state i run_id m s))"
proof -
  have idle: "sched_inv s1" if "recover_idle e m w is s = (r, s1)" for r s1 "is"
    using inv_recover_idle [OF inv, of e m w "is"] that by simp
  have lost: "sched_inv s1"
    if "map_of (sc_tasks (sy_sched s)) i = Some t" "t_status t = ASSIGNED \<or> t_status t = RUNNING"
      "i \<notin> sc_dispatching (sy_sched s)" "recoverLost e m i t (holdWorker w s) = (r, s1)" for t r s1
    using inv_recoverLost [OF inv_holdWorker [OF inv, of w], where i = i and t = t and e = e and m = m] that
    by (simp add: holdWorker_def active_def)
  obtain r s1 where R: "recover_idle e m w (map fst (sc_tasks (sy_sched s))) s = (r, s1)" by fastforce
  have s1: "sched_inv s1" by (rule idle [OF R])
  consider "m < 0 \<or> 100 < m" | "\<not> (m < 0 \<or> 100 < m)" "state = ''idle''"
    | "\<not> (m < 0 \<or> 100 < m)" "state \<noteq> ''idle''" by blast
  then show ?thesis
  proof cases
    case 1
    then show ?thesis using inv by (simp add: recoverWorker_def)
  next
    case 2
    then show ?thesis using s1 inv_ready [OF s1]
      by (simp add: recoverWorker_def R Let_def split: sum.split option.split)
  next
    case 3
    define prior where "prior = (if state = ''lost''
      then (case sy_store s of None \<Rightarrow> Inr None | Some db \<Rightarrow> recoveryDecision run_id i w db) else Inr None)"
    show ?thesis
    proof (cases "prior = Inr None \<and> map_of (sc_tasks (sy_sched s)) i \<noteq> None")
      case False
      with 3 inv show ?thesis
        unfolding recoverWorker_def Let_def prior_def [symmetric]
        by (auto split: sum.split option.split)
    next
      case True
      then obtain t where t: "map_of (sc_tasks (sy_sched s)) i = Some t" and pr: "prior = Inr None" by blast
      obtain q s2 where q: "recoverLost e m i t (holdWorker w s) = (q, s2)" by fastforce
      show ?thesis
        using 3 inv inv_set_reconciling [OF inv] lost [OF t _ _ q]
        unfolding recoverWorker_def Let_def prior_def [symmetric]
        by (simp add: t pr q split: sum.split)
    qed
  qed
qed

text \<open>The task a rollback publishes: waiting again, or cancelled when its batch was stopped.\<close>

definition rolled_back :: "time_point \<Rightarrow> Scheduler \<Rightarrow> Task \<Rightarrow> Task" where
  "rolled_back now sc t =
     (if batch_stopped sc t then snd (transitionTo now CANCELLED (clearWorkerId t))
      else setQueueSequence (sc_next_sequence sc) (snd (transitionTo now QUEUED (clearWorkerId t))))"

lemma rolled_back_simps:
  "t_id (rolled_back now sc t) = t_id t" "t_type (rolled_back now sc t) = t_type t"
  "t_payload (rolled_back now sc t) = t_payload t" "t_priority (rolled_back now sc t) = t_priority t"
  "t_retry_count (rolled_back now sc t) = t_retry_count t" "t_worker_id (rolled_back now sc t) = []"
  "t_recovery_required (rolled_back now sc t) = t_recovery_required t"
  "t_run_id (rolled_back now sc t) = t_run_id t"
  "t_queue_sequence (rolled_back now sc t) =
     (if batch_stopped sc t then t_queue_sequence t else sc_next_sequence sc)"
  "t_status t = ASSIGNED \<Longrightarrow>
   t_status (rolled_back now sc t) = (if batch_stopped sc t then CANCELLED else QUEUED)"
  by (simp_all add: rolled_back_def task_setters transitionTo_status canTransitionTo_def)

definition rollback_sched :: "TaskId \<Rightarrow> Task \<Rightarrow> Task \<Rightarrow> Scheduler \<Rightarrow> Scheduler" where
  "rollback_sched i t t' sc =
     (if batch_stopped sc t then set_task i t' sc else enqueue (t_id t) (t_priority t) (set_task i t' sc))"

text \<open>\<open>rollbackAssignment\<close> on an assigned task, with and without a store.\<close>

lemma rollback_assigned:
  assumes t: "map_of (sc_tasks (sy_sched s)) i = Some t" "t_status t = ASSIGNED" "t_worker_id t \<noteq> []"
    and free: "i \<notin> sc_dispatching (sy_sched s)"
  shows "sy_store s = None \<Longrightarrow> rollbackAssignment e i s =
      (case releaseSlot (t_worker_id t) (sy_wm s) of
         (False, wm) \<Rightarrow> (Inr False, put_wm wm s)
       | (True, wm) \<Rightarrow> (Inr True, put_sched (rollback_sched i t (rolled_back (e_commit_now e i) (sy_sched s) t) (sy_sched s))
                                 (put_wm wm s)))"
    and "sy_store s \<noteq> None \<Longrightarrow>
      store_save e [rolled_back (e_prepare_now e i) (sy_sched s) t] None (Some ''DISPATCH_FAILED'') None None s = (r, s1) \<Longrightarrow>
      rollbackAssignment e i s =
      (case r of Inl x \<Rightarrow> (Inl x, s1)
       | Inr _ \<Rightarrow>
           (case releaseSlot (t_worker_id t) (sy_wm s1) of
              (False, wm) \<Rightarrow> (Inl (Runtime_error ''slot release failed after persisted dispatch rollback''), put_wm wm s1)
            | (True, wm) \<Rightarrow>
                (Inr True, put_sched (rollback_sched i t (rolled_back (e_prepare_now e i) (sy_sched s) t) (sy_sched s))
                             (put_wm wm s1))))"
proof -
  have c: "transitionTo now st (clearWorkerId t) = (True, snd (transitionTo now st (clearWorkerId t)))"
    if "st = QUEUED \<or> st = CANCELLED" for now st
    using that t(2) by (auto simp: prod_eq_iff canTransitionTo_def clearWorkerId_def)
  note C = c [of QUEUED, simplified] c [of CANCELLED, simplified]
  show "rollbackAssignment e i s =
      (case releaseSlot (t_worker_id t) (sy_wm s) of
         (False, wm) \<Rightarrow> (Inr False, put_wm wm s)
       | (True, wm) \<Rightarrow> (Inr True, put_sched (rollback_sched i t (rolled_back (e_commit_now e i) (sy_sched s) t) (sy_sched s))
                                 (put_wm wm s)))" if "sy_store s = None"
    using that t free C(1) [of "e_commit_now e i"] C(2) [of "e_commit_now e i"]
    by (cases "batch_stopped (sy_sched s) t")
       (auto simp: rollbackAssignment_def Let_def rolled_back_def rollback_sched_def split: prod.split bool.split)
  show "rollbackAssignment e i s =
      (case r of Inl x \<Rightarrow> (Inl x, s1)
       | Inr _ \<Rightarrow>
           (case releaseSlot (t_worker_id t) (sy_wm s1) of
              (False, wm) \<Rightarrow> (Inl (Runtime_error ''slot release failed after persisted dispatch rollback''), put_wm wm s1)
            | (True, wm) \<Rightarrow>
                (Inr True, put_sched (rollback_sched i t (rolled_back (e_prepare_now e i) (sy_sched s) t) (sy_sched s))
                             (put_wm wm s1))))"
    if "sy_store s \<noteq> None" and sv: "store_save e [rolled_back (e_prepare_now e i) (sy_sched s) t] None (Some ''DISPATCH_FAILED'') None None s = (r, s1)"
  proof (cases "batch_stopped (sy_sched s) t")
    case True
    with that t free C(2) [of "e_prepare_now e i"] show ?thesis
      by (auto simp: rollbackAssignment_def Let_def rolled_back_def rollback_sched_def
          split: prod.split bool.split sum.split)
  next
    case False
    with that t free C(1) [of "e_prepare_now e i"] show ?thesis
      by (auto simp: rollbackAssignment_def Let_def rolled_back_def rollback_sched_def
          split: prod.split bool.split sum.split)
  qed
qed

lemma rollback_refused:
  assumes "i \<in> sc_dispatching (sy_sched s)
    \<or> \<not> (\<exists>t. map_of (sc_tasks (sy_sched s)) i = Some t \<and> t_status t = ASSIGNED \<and> t_worker_id t \<noteq> [])"
  shows "rollbackAssignment e i s = (Inr False, s)"
  using assms by (auto simp: rollbackAssignment_def Let_def split: option.split)

lemma inv_rollback_commit:
  assumes inv: "sched_inv s" and t: "map_of (sc_tasks (sy_sched s)) i = Some t" "t_status t = ASSIGNED"
    and free: "i \<notin> sc_dispatching (sy_sched s)" and nr: "\<not> t_recovery_required t"
    and room: "\<not> batch_stopped (sy_sched s) t \<Longrightarrow> sc_next_sequence (sy_sched s) < 2 ^ 63"
    and s': "sy_sched s' = rollback_sched i t (rolled_back now (sy_sched s) t) (sy_sched s)"
      "sy_wm s' = snd (releaseSlot (t_worker_id t) (sy_wm s))" "store_grows s s'"
  shows "sched_inv s'"
proof -
  note I = sched_invD [OF inv]
  let ?p = "rolled_back now (sy_sched s) t"
  have id: "t_id t = i" and ok: "task_ok t" using table_okD [OF I(2)] t by auto
  have act: "active t" using t(2) by (simp add: active_def)
  have bst: "batch_stopped (sy_sched s) ?p = batch_stopped (sy_sched s) t"
    by (intro batch_stopped_cong batchId_cong) (simp_all add: rolled_back_simps)
  show ?thesis
  proof (cases "batch_stopped (sy_sched s) t")
    case True
    have fin: "terminal (t_status ?p)" using True t(2) by (simp add: rolled_back_simps terminal_def)
    show ?thesis
    proof (rule inv_terminal [OF inv t(1)])
      show "task_ok ?p"
        by (rule task_ok_terminal [OF ok fin]) (use True nr in \<open>auto simp: rolled_back_simps\<close>)
    qed (use True s' fin act nr id in \<open>auto simp: rollback_sched_def rolled_back_simps\<close>)
  next
    case False
    show ?thesis
    proof (rule inv_requeue_released [OF inv t(1) act])
      show "task_ok ?p"
        by (rule task_ok_queued [OF ok]) (use False t nr room ok in \<open>auto simp: rolled_back_simps task_ok_def\<close>)
    qed (use False s' t nr id free bst in \<open>auto simp: rollback_sched_def rolled_back_simps\<close>)
  qed
qed

text \<open>
  A recovered assignment holds no slot of this process, so its worker has none to give back and
  the rollback is refused.
\<close>

lemma recovered_no_slot:
  assumes inv: "sched_inv s" and t: "map_of (sc_tasks (sy_sched s)) i = Some t" "active t" "t_recovery_required t"
  shows "used (sy_wm s) (t_worker_id t) = 0"
proof -
  note I = sched_invD [OF inv]
  have "\<not> occupies (t_worker_id t) u" if "(j, u) \<in> set (sc_tasks (sy_sched s))" for j u
    using I(5) t that table_okD(1) [OF I(2)] unfolding quarantine_ok_def by (meson map_of_is_SomeI)
  then show ?thesis
    using I(8) by (auto simp: slots_match_def count_vals_zero_iff)
qed

lemma releaseSlot_cases:
  obtains "used wm w \<noteq> 0" "releaseSlot w wm = (True, snd (releaseSlot w wm))"
  | "used wm w = 0" "releaseSlot w wm = (False, wm)"
  using releaseSlot_flag [of w wm] releaseSlot_False [of w wm] by (metis prod.collapse)

lemma inv_rollbackAssignment:
  assumes inv: "sched_inv s" and room: "sc_next_sequence (sy_sched s) < 2 ^ 63"
  shows "sched_inv (snd (rollbackAssignment e i s))"
proof (cases "i \<in> sc_dispatching (sy_sched s)
    \<or> \<not> (\<exists>t. map_of (sc_tasks (sy_sched s)) i = Some t \<and> t_status t = ASSIGNED \<and> t_worker_id t \<noteq> [])")
  case True
  with inv show ?thesis by (simp add: rollback_refused)
next
  case False
  then obtain t where t: "map_of (sc_tasks (sy_sched s)) i = Some t" "t_status t = ASSIGNED" "t_worker_id t \<noteq> []"
    and free: "i \<notin> sc_dispatching (sy_sched s)" by auto
  note R = rollback_assigned [OF t free] and I = sched_invD [OF inv]
  have nr: "\<not> t_recovery_required t" if "used (sy_wm s) (t_worker_id t) \<noteq> 0"
    using recovered_no_slot [OF inv t(1)] t(2) that by (auto simp: active_def)
  have commit: "sched_inv s'"
    if "sy_sched s' = rollback_sched i t (rolled_back now (sy_sched s) t) (sy_sched s)"
      "sy_wm s' = snd (releaseSlot (t_worker_id t) (sy_wm s))" "store_grows s s'"
      "used (sy_wm s) (t_worker_id t) \<noteq> 0" for s' now
    by (rule inv_rollback_commit [OF inv t(1,2) free nr [OF that(4)] _ that(1-3)]) (rule room)
  show ?thesis
  proof (cases "sy_store s")
    case None
    have same: "put_wm (sy_wm s) s = s" by (simp add: put_wm_def)
    show ?thesis
      by (cases rule: releaseSlot_cases [of "sy_wm s" "t_worker_id t"])
         (use inv in \<open>auto simp: R(1) [OF None] same split: prod.split intro!: commit\<close>)
  next
    case (Some db)
    obtain r s1 where sv: "store_save e [rolled_back (e_prepare_now e i) (sy_sched s) t] None
        (Some ''DISPATCH_FAILED'') None None s = (r, s1)" by fastforce
    note F = store_save_frame [OF sv] and R2 = R(2) [OF _ sv]
    have s1: "sched_inv s1" by (rule inv_store_save [OF inv sv])
    have same: "put_wm (sy_wm s) s1 = s1" using F(1) by (simp add: put_wm_def)
    show ?thesis
      by (cases rule: releaseSlot_cases [of "sy_wm s" "t_worker_id t"]; cases r)
         (use s1 F Some in \<open>auto simp: R2 same intro!: commit split: prod.split\<close>)
  qed
qed

section \<open>Dispatch claims\<close>

lemma inv_dispatch_claim:
  assumes inv: "sched_inv s"
  shows "sched_inv (snd (dispatch_claim a s))"
proof (cases "fst (dispatch_claim a s)")
  case None
  then have "snd (dispatch_claim a s) = s"
    by (auto simp: dispatch_claim_def Let_def split: option.splits if_splits)
  with inv show ?thesis by simp
next
  case (Some t)
  let ?sc = "(sy_sched s)\<lparr>sc_dispatching := insert (a_task_id a) (sc_dispatching (sy_sched s))\<rparr>"
  from Some have t: "map_of (sc_tasks (sy_sched s)) (a_task_id a) = Some t" "t_status t = ASSIGNED"
    and s': "snd (dispatch_claim a s) = put_sched ?sc s"
    by (auto simp: dispatch_claim_def Let_def split: option.splits if_splits)
  note I = sched_invD [OF inv]
  have bs: "batch_stopped ?sc = batch_stopped (sy_sched s)"
    by (simp add: batch_stopped_def fun_eq_iff split: option.split)
  show ?thesis
    unfolding s'
  proof (rule sched_invI)
    show "dispatch_ok (sy_sched (put_sched ?sc s))"
      using I(7) t unfolding dispatch_ok_def by auto
  qed (use I in \<open>simp_all add: table_ok_def queue_ok_def known_ok_def Let_def stop_ok_def quarantine_ok_def bs
      split: option.splits\<close>)
qed

lemma inv_dispatch_finish:
  assumes "sched_inv s"
  shows "sched_inv (dispatch_finish i s)"
  unfolding dispatch_finish_def
  by (rule inv_frame [OF assms]) (use sched_invD(1) [OF assms] in auto)

section \<open>Submission\<close>

lemma batch_stopped_tasks [simp]: "batch_stopped (sc\<lparr>sc_tasks := ts\<rparr>) = batch_stopped sc"
  by (simp add: batch_stopped_def fun_eq_iff split: option.split)

lemma evict_simps [simp]:
  "sc_queue (evict sc) = sc_queue sc" "sc_dispatching (evict sc) = sc_dispatching sc"
  "sc_stopped_batches (evict sc) = sc_stopped_batches sc" "sc_quarantined (evict sc) = sc_quarantined sc"
  "sc_next_sequence (evict sc) = sc_next_sequence sc" "batch_stopped (evict sc) = batch_stopped sc"
  by (simp_all add: evict_def)

lemma evict_lookup:
  assumes "distinct (map fst (sc_tasks sc))"
  shows "map_of (sc_tasks (evict sc)) i = Some t \<Longrightarrow> map_of (sc_tasks sc) i = Some t"
    and "map_of (sc_tasks sc) i = Some t \<Longrightarrow> \<not> evictable sc i t \<Longrightarrow> map_of (sc_tasks (evict sc)) i = Some t"
  using assms by (auto simp: evict_def map_of_al_filter split: if_splits option.splits)

lemma evict_keeps_active: "active t \<or> t_status t = QUEUED \<Longrightarrow> \<not> evictable sc i t"
  by (auto simp: evictable_def active_def)

lemma evict_slots: "slots_match u (sc_tasks (evict sc)) = slots_match u (sc_tasks sc)"
proof -
  have "count_vals (occupies w) (filter (\<lambda>(i, t). \<not> evictable sc i t) (sc_tasks sc)) = count_vals (occupies w) (sc_tasks sc)" for w
    by (rule count_vals_filter_irrelevant) (auto simp: occupies_def evict_keeps_active)
  then show ?thesis by (simp add: evict_def slots_match_def)
qed

lemma inv_evict:
  assumes inv: "sched_inv s" and st: "sy_store s = Some db"
  shows "sched_inv (put_sched (evict (sy_sched s)) s)"
proof (rule sched_invI)
  note I = sched_invD [OF inv]
  let ?sc = "sy_sched s"
  note look = evict_lookup [OF table_okD(1) [OF I(2)]]
  show "wm_ok (sy_wm (put_sched (evict ?sc) s))" using I(1) by simp
  have d: "distinct (map fst (sc_tasks (evict ?sc)))"
    using table_okD(1) [OF I(2)] by (simp add: evict_def distinct_al_filter)
  then show "table_ok (sy_sched (put_sched (evict ?sc) s))"
    using I(2) look(1) unfolding table_ok_def put_simps by blast
  show "queue_ok (sy_sched (put_sched (evict ?sc) s))"
    using I(3) look(1) by (auto simp: queue_ok_def)
  have "fst ` set (sc_tasks (evict ?sc)) \<subseteq> fst ` set (sc_tasks ?sc)" by (auto simp: evict_def)
  then show "known_ok (put_sched (evict ?sc) s)"
    using I(4) st by (auto simp: known_ok_def Let_def)
  show "quarantine_ok (sy_sched (put_sched (evict ?sc) s))"
    using I(5) look(1) unfolding quarantine_ok_def by fastforce
  show "stop_ok (sy_sched (put_sched (evict ?sc) s))"
    using I(6) look(1) by (auto simp: stop_ok_def)
  show "dispatch_ok (sy_sched (put_sched (evict ?sc) s))"
    unfolding dispatch_ok_def
  proof
    fix i assume "i \<in> sc_dispatching (sy_sched (put_sched (evict ?sc) s))"
    then have i: "i \<in> sc_dispatching ?sc" by simp
    then obtain t where "map_of (sc_tasks ?sc) i = Some t" "t_status t \<noteq> QUEUED"
      using I(7) by (auto simp: dispatch_ok_def)
    moreover have "\<not> evictable ?sc i t" using i by (simp add: evictable_def)
    ultimately show "\<exists>t. map_of (sc_tasks (sy_sched (put_sched (evict ?sc) s))) i = Some t \<and> t_status t \<noteq> QUEUED"
      using look(2) by auto
  qed
  show "slots_match (used (sy_wm (put_sched (evict ?sc) s))) (sc_tasks (sy_sched (put_sched (evict ?sc) s)))"
    using I(8) by (simp add: evict_slots)
qed

text \<open>A new task enters table and queue.\<close>

lemma inv_insert:
  assumes inv: "sched_inv s" and fresh: "map_of (sc_tasks (sy_sched s)) i = None"
    and nq: "i \<notin> q_task_id ` set (sc_queue (sy_sched s))"
    and sc': "sy_sched s' = enqueue i (t_priority t) (set_task i t (sy_sched s))"
    and wm': "sy_wm s' = sy_wm s"
    and st: "store_grows s s'" "\<And>db. sy_store s' = Some db \<Longrightarrow> i \<in> known_ids db"
    and t: "t_id t = i" "i \<noteq> 0" "task_ok t" "t_status t = QUEUED"
      "t_queue_sequence t = sc_next_sequence (sy_sched s)" "\<not> batch_stopped (sy_sched s) t"
  shows "sched_inv s'"
proof (rule sched_invI)
  let ?sc = "sy_sched s"
  note I = sched_invD [OF inv]
  have room: "sc_next_sequence ?sc < 2 ^ 63" using t(3,5) by (simp add: task_ok_def)
  have grow: "x < sc_next_sequence ?sc + 1" if "x \<le> sc_next_sequence ?sc" for x
    using that room by (simp add: word_less_nat_alt word_le_nat_alt unat_word_ariths)
  have le: "sc_next_sequence ?sc + 1 \<le> 2 ^ 63"
    using room by (simp add: word_less_nat_alt word_le_nat_alt unat_word_ariths)
  have no: "\<not> active t" "\<not> occupies w t" for w using t(4) by (simp_all add: occupies_def active_def)
  have e: "entries i (sc_queue ?sc) = []" using nq by (simp add: entries_Nil_iff)
  show "wm_ok (sy_wm s')" using I(1) by (simp add: wm')
  show "table_ok (sy_sched s')"
    unfolding sc' by (simp add: table_ok_set [OF I(2) t(1,2,3)])
  show "queue_ok (sy_sched s')"
    unfolding queue_ok_def
  proof (intro conjI allI impI ballI)
    show "queue_sorted (sc_queue (sy_sched s'))"
      using queue_okD(1) [OF I(3)] by (simp add: sc' queue_push_sorted)
    show "sc_next_sequence (sy_sched s') \<le> 2 ^ 63" using le by (simp add: sc')
    fix q assume "q \<in> set (sc_queue (sy_sched s'))"
    then have "q_sequence q \<le> sc_next_sequence ?sc"
      using queue_okD(2) [OF I(3)] by (auto simp: sc' intro: less_imp_le)
    then show "q_sequence q < sc_next_sequence (sy_sched s')" using grow by (simp add: sc')
  next
    fix j u assume j: "map_of (sc_tasks (sy_sched s')) j = Some u"
    show "entries j (sc_queue (sy_sched s')) = [queue_entry u]" if "t_status u = QUEUED"
      using j that queue_okD(3) [OF I(3), of j u] e t
      by (auto simp: sc' entries_push [OF queue_okD(1) [OF I(3)]] queue_entry_def split: if_splits)
    show "entries j (sc_queue (sy_sched s')) = []" if "active u"
      using j that queue_okD(4) [OF I(3), of j u] no
      by (auto simp: sc' entries_push [OF queue_okD(1) [OF I(3)]] split: if_splits)
  qed
  have keys: "fst ` set (AList.update i t (sc_tasks ?sc)) = insert i (fst ` set (sc_tasks ?sc))"
    by (metis dom_fun_upd dom_map_of_conv_image_fst map_of_al_update option.distinct(1))
  show "known_ok s'"
  proof (cases "sy_store s")
    case None
    then have "sy_store s' = None" using st(1) by (simp add: store_grows_def)
    then show ?thesis using I(4) None by (auto simp: known_ok_def Let_def sc' keys)
  next
    case (Some db)
    then obtain db' where "sy_store s' = Some db'" "known_ids db \<subseteq> known_ids db'" "store_ok db \<longrightarrow> store_ok db'"
      using st(1) by (auto simp: store_grows_def option_rel_Some1)
    then show ?thesis using I(4) Some st(2) by (auto simp: known_ok_def Let_def sc' keys)
  qed
  show "quarantine_ok (sy_sched s')"
    using I(5) no unfolding sc' quarantine_ok_def by (auto split: if_splits)
  show "stop_ok (sy_sched s')"
    using I(6) t(6) unfolding sc' stop_ok_def by auto
  show "dispatch_ok (sy_sched s')"
    using I(7) fresh unfolding sc' dispatch_ok_def by fastforce
  show "slots_match (used (sy_wm s')) (sc_tasks (sy_sched s'))"
    using I(8) no fresh by (simp add: sc' wm' slots_match_def count_vals_update_new)
qed

text \<open>What a client may submit: a fresh REGRESSION task as the task service builds it.\<close>

definition submittable :: "Task \<Rightarrow> bool" where
  "submittable t \<longleftrightarrow>
     t_type t = REGRESSION \<and> - 100 \<le> t_priority t \<and> t_priority t \<le> 100 \<and> 0 \<le> t_retry_count t
     \<and> t_worker_id t = [] \<and> \<not> t_recovery_required t"

lemma loadTasks_known:
  assumes "known_ok s" and "sy_store s = Some db" and "loadTasks jc i False [] db = Inr []" and "i \<noteq> 0"
  shows "i \<notin> known_ids db" and "i \<notin> q_task_id ` set (sc_queue (sy_sched s))"
proof -
  show "i \<notin> known_ids db"
    using loadTasks_none [OF _ assms(3,4)] assms(1,2) by (simp add: known_ok_def Let_def)
  then show "i \<notin> q_task_id ` set (sc_queue (sy_sched s))"
    using assms(1,2) by (auto simp: known_ok_def Let_def)
qed

lemma inv_submit_new:
  assumes inv: "sched_inv s" and sub: "submittable task" "t_status task = PENDING" "t_id task \<noteq> 0"
    and nb: "\<not> batch_stopped (sy_sched s) task" and room: "sc_next_sequence (sy_sched s) < 2 ^ 63"
  shows "sched_inv (snd (submit_new e task key request s))"
proof -
  define i where "i = t_id task"
  define known where "known = (case sy_store s of None \<Rightarrow> Inr [] | Some db \<Rightarrow> loadTasks (e_codec e) i False [] db)"
  show ?thesis
  proof (cases "known = Inr []")
    case False
    with inv show ?thesis
      unfolding submit_new_def Let_def i_def [symmetric] known_def [symmetric] by (cases known) auto
  next
    case True
    define sc where "sc = (case sy_store s of None \<Rightarrow> sy_sched s | Some _ \<Rightarrow> evict (sy_sched s))"
    let ?s1 = "put_sched sc s"
    have s1: "sched_inv ?s1"
      using inv inv_evict [OF inv] by (auto simp: sc_def put_sched_def split: option.split)
    have sc: "sc_next_sequence sc = sc_next_sequence (sy_sched s)" "batch_stopped sc = batch_stopped (sy_sched s)"
      "sc_queue sc = sc_queue (sy_sched s)"
      by (auto simp: sc_def split: option.split)
    obtain t1 where t1: "transitionTo (e_prepare_now e i) QUEUED task = (True, t1)"
      using sub(2) by (cases "transitionTo (e_prepare_now e i) QUEUED task")
        (auto dest: transitionTo_E(1) simp: canTransitionTo_def)
    note T = transitionTo_E [OF t1]
    define t2 where "t2 = setQueueSequence (sc_next_sequence sc) t1"
    have t2: "t_id t2 = i" "t_status t2 = QUEUED" "t_priority t2 = t_priority task"
      "t_queue_sequence t2 = sc_next_sequence sc" "t_payload t2 = t_payload task" "task_ok t2" "storable t2"
      using T sub room sc(1)
      by (auto simp: t2_def task_setters i_def task_ok_def submittable_def active_def storable_def sint_nonneg_u64)
    obtain r s2 where sv: "store_save e [t2] None None
        (if key = [] then None else Some (key, request)) None ?s1 = (r, s2)" by fastforce
    note F = store_save_frame [OF sv]
    have s2: "sched_inv s2" by (rule inv_store_save [OF s1 sv])
    show ?thesis
    proof (cases "al_contains (sc_tasks sc) i")
      case True
      with \<open>known = Inr []\<close> s1 show ?thesis
        unfolding submit_new_def Let_def i_def [symmetric] known_def [symmetric] sc_def [symmetric] by simp
    next
      case False
      have run: "submit_new e task key request s =
        (case r of Inl x \<Rightarrow> (Inl x, s2)
         | Inr _ \<Rightarrow> (Inr (Some i), put_sched (enqueue i (t_priority task) (set_task i t2 sc)) s2))"
        unfolding submit_new_def Let_def i_def [symmetric] known_def [symmetric] sc_def [symmetric]
        using False True t1 sv by (simp add: t2_def [symmetric] split: sum.split)
      have nq: "i \<notin> q_task_id ` set (sc_queue sc)"
      proof (cases "sy_store s")
        case None
        then have "q_task_id ` set (sc_queue sc) \<subseteq> fst ` set (sc_tasks sc)"
          using sched_invD(4) [OF s1] by (simp add: known_ok_def Let_def)
        with False show ?thesis by auto
      next
        case (Some db)
        with True have "loadTasks (e_codec e) i False [] db = Inr []" by (simp add: known_def)
        from loadTasks_known(2) [OF sched_invD(4) [OF inv] Some this] sub(3) show ?thesis
          by (simp add: sc i_def)
      qed
      have "sched_inv (put_sched (enqueue i (t_priority task) (set_task i t2 sc)) s2)" if "r = Inr u" for u
      proof (rule inv_insert [OF s1, where i = i and t = t2])
        show "map_of (sc_tasks (sy_sched ?s1)) i = None" using False by (simp add: map_of_eq_None_iff)
        show "i \<in> known_ids db"
          if "sy_store (put_sched (enqueue i (t_priority task) (set_task i t2 sc)) s2) = Some db" for db
          using store_save_stored [OF sv [unfolded \<open>r = Inr u\<close>]] that t2 by auto
        show "\<not> batch_stopped (sy_sched ?s1) t2"
          using nb t2(5) sc(2) batchId_cong [of t2 task] by (simp add: batch_stopped_def)
      qed (use nq t2 F sub i_def in auto)
      with run s2 show ?thesis by (auto split: sum.splits)
    qed
  qed
qed

lemma inv_submitTask:
  assumes "sched_inv s" and "submittable task" and "sc_next_sequence (sy_sched s) < 2 ^ 63"
  shows "sched_inv (snd (submitTask e task key request s))"
proof -
  define prior where "prior = (if key = [] then None
      else case sy_store s of None \<Rightarrow> None | Some db \<Rightarrow> findSubmission key db)"
  show ?thesis
    using assms(1) inv_submit_new [OF assms(1,2) _ _ _ assms(3)]
    unfolding submitTask_def Let_def prior_def [symmetric]
    by (auto split: option.split)
qed

section \<open>Stopping a batch\<close>

lemma cancel_entry_simps [simp]:
  "t_id (cancel_entry e b i t) = t_id t" "t_payload (cancel_entry e b i t) = t_payload t"
  "t_worker_id (cancel_entry e b i t) = t_worker_id t" "t_type (cancel_entry e b i t) = t_type t"
  "t_priority (cancel_entry e b i t) = t_priority t" "t_retry_count (cancel_entry e b i t) = t_retry_count t"
  "t_queue_sequence (cancel_entry e b i t) = t_queue_sequence t"
  "t_recovery_required (cancel_entry e b i t) = t_recovery_required t"
  by (simp_all add: cancel_entry_def)

lemma cancel_entry_status:
  "t_status (cancel_entry e b i t) = (if batchId t = Some b \<and> waiting t then CANCELLED else t_status t)"
  by (auto simp: cancel_entry_def transitionTo_status canTransitionTo_def waiting_def)

lemma cancel_entry_active: "active (cancel_entry e b i t) = active t"
  by (auto simp: active_def cancel_entry_status waiting_def)

lemma cancel_entry_task_ok: "task_ok t \<Longrightarrow> task_ok (cancel_entry e b i t)"
  by (auto simp: task_ok_def cancel_entry_active cancel_entry_status)

lemma cancel_entry_occupies: "occupies w (cancel_entry e b i t) = occupies w t"
  by (simp add: occupies_def cancel_entry_active)

definition cancel_all :: "env \<Rightarrow> string \<Rightarrow> (TaskId \<times> Task) list \<Rightarrow> (TaskId \<times> Task) list" where
  "cancel_all e b ts = map (\<lambda>(i, t). (i, cancel_entry e b i t)) ts"

lemma cancel_all_lookup: "map_of (cancel_all e b ts) i = map_option (cancel_entry e b i) (map_of ts i)"
  unfolding cancel_all_def by (rule map_of_al_map_val)

lemma cancel_all_keys: "map fst (cancel_all e b ts) = map fst ts"
  unfolding cancel_all_def by (rule keys_al_map_val)

lemma cancel_all_slots: "slots_match u (cancel_all e b ts) = slots_match u ts"
proof -
  have "count_vals (occupies w) (cancel_all e b ts) = count_vals (occupies w) ts" for w
    by (induction ts) (auto simp: cancel_all_def count_vals_Cons cancel_entry_occupies)
  then show ?thesis by (simp add: slots_match_def)
qed

lemma inv_cancel_all:
  assumes inv: "sched_inv s" and sc': "sc_tasks (sy_sched s') = cancel_all e b (sc_tasks (sy_sched s))"
      "sc_queue (sy_sched s') = sc_queue (sy_sched s)"
      "sc_stopped_batches (sy_sched s') = insert b (sc_stopped_batches (sy_sched s))"
      "sc_quarantined (sy_sched s') = sc_quarantined (sy_sched s)"
      "sc_next_sequence (sy_sched s') = sc_next_sequence (sy_sched s)"
      "sc_dispatching (sy_sched s') = sc_dispatching (sy_sched s)"
    and s': "sy_wm s' = sy_wm s" "store_grows s s'"
  shows "sched_inv s'"
proof (rule sched_invI)
  note I = sched_invD [OF inv]
  note look = cancel_all_lookup [of e b "sc_tasks (sy_sched s)"]
  show "wm_ok (sy_wm s')" using I(1) s'(1) by simp
  show "table_ok (sy_sched s')"
    unfolding table_ok_def sc'(1) cancel_all_keys look
  proof (intro conjI allI impI)
    show "distinct (map fst (sc_tasks (sy_sched s)))" by (rule table_okD(1) [OF I(2)])
    fix i u assume "map_option (cancel_entry e b i) (map_of (sc_tasks (sy_sched s)) i) = Some u"
    then obtain t where t: "map_of (sc_tasks (sy_sched s)) i = Some t" and u: "u = cancel_entry e b i t"
      by (cases "map_of (sc_tasks (sy_sched s)) i") auto
    show "t_id u = i" "i \<noteq> 0" "task_ok u"
      using table_okD(2-4) [OF I(2) t] by (simp_all add: u cancel_entry_task_ok)
  qed
  show "queue_ok (sy_sched s')"
    unfolding queue_ok_def sc' look
    using I(3) by (auto simp: queue_ok_def cancel_entry_active cancel_entry_status queue_entry_def split: if_splits)
  have keys: "fst ` set (cancel_all e b ts) = fst ` set ts" for ts
    using cancel_all_keys [of e b ts] by (metis set_map)
  show "known_ok s'"
    by (rule known_ok_grow [OF I(4) s'(2)]) (simp_all add: sc' keys)
  show "quarantine_ok (sy_sched s')"
    unfolding quarantine_ok_def sc' look
    using I(5) by (auto simp: quarantine_ok_def cancel_entry_active cancel_entry_occupies)
  have bs: "batch_stopped (sy_sched s') t \<Longrightarrow> batchId t = Some b \<or> batch_stopped (sy_sched s) t" for t
    by (auto simp: batch_stopped_def sc' split: option.splits)
  have bc: "batchId (cancel_entry e b i t) = batchId t" for i t by (rule batchId_cong) simp
  have bd: "batch_stopped sc (cancel_entry e b i t) = batch_stopped sc t" for sc i t
    by (simp add: batch_stopped_def bc)
  show "stop_ok (sy_sched s')"
    unfolding stop_ok_def sc' look
    using I(6) by (auto simp: stop_ok_def cancel_entry_status bc bd waiting_def dest!: bs split: if_splits)
  show "dispatch_ok (sy_sched s')"
    unfolding dispatch_ok_def sc' look
    using I(7) by (fastforce simp: dispatch_ok_def cancel_entry_status)
  show "slots_match (used (sy_wm s')) (sc_tasks (sy_sched s'))"
    using I(8) s'(1) by (simp add: sc' cancel_all_slots)
qed

lemma inv_cancelBatch:
  assumes inv: "sched_inv s"
  shows "sched_inv (snd (cancelBatch e b s))"
proof -
  define rows where "rows = (case sy_store s of None \<Rightarrow> Inr [] | Some db \<Rightarrow> loadTasks (e_codec e) 0 False b db)"
  define changed where "changed = map (\<lambda>t. snd (transitionTo (e_prepare_now e (t_id t)) CANCELLED t))
     (filter waiting (batch_tasks b (sy_sched s)))"
  obtain r s1 where sv: "store_save e changed (Some b) None None None s = (r, s1)" by fastforce
  note F = store_save_frame [OF sv]
  define s2 where "s2 = put_sched ((sy_sched s)\<lparr>sc_tasks := cancel_all e b (sc_tasks (sy_sched s)),
      sc_stopped_batches := insert b (sc_stopped_batches (sy_sched s)),
      sc_generation := (if length changed \<noteq> 0 then sc_generation (sy_sched s) + 1 else sc_generation (sy_sched s))\<rparr>) s1"
  have s2: "sched_inv s2"
    by (rule inv_cancel_all [OF inv, where e = e and b = b]) (use F in \<open>simp_all add: s2_def\<close>)
  have "snd (cancelBatch e b s) \<in> {s, s1, s2}"
    unfolding cancelBatch_def Let_def rows_def [symmetric] changed_def [symmetric] cancel_all_def [symmetric]
    by (cases rows; cases r; simp add: sv s2_def split: option.split sum.split)
  with inv s2 inv_store_save [OF inv sv] show ?thesis by auto
qed

end
