(* ===== verification/SchedulePass.thy ===== *)
theory SchedulePass
  imports SchedulerInv
begin

text \<open>
  One scheduling pass: which worker the selection loop picks, what the loop over the queue takes
  and leaves, that a pass keeps the invariant, and that a pass whose durable write fails leaves
  tasks, queue and slots as they were.
\<close>

section \<open>Selection\<close>

definition selectable :: "Scheduler \<Rightarrow> Worker \<Rightarrow> bool" where
  "selectable sc w \<longleftrightarrow> w_id w \<notin> sc_quarantined sc \<and> w_id w \<notin> sc_reconciling sc"

lemma better_worker_total:
  "w_id x \<noteq> w_id y \<Longrightarrow> better_worker a x y \<or> better_worker a y x"
  by (auto simp: better_worker_def Let_def)

lemma better_worker_irrefl [simp]: "\<not> better_worker a x x"
  by (simp add: better_worker_def Let_def)

lemma better_worker_neg_trans:
  "\<not> better_worker a x y \<Longrightarrow> \<not> better_worker a y z \<Longrightarrow> \<not> better_worker a x z"
  by (auto simp: better_worker_def Let_def split: if_splits)

lemma better_worker_asym: "better_worker a x y \<Longrightarrow> \<not> better_worker a y x"
  using better_worker_neg_trans [of a x y x] by (auto simp: better_worker_def Let_def split: if_splits)

text \<open>The loop returns the best of the selectable workers and the worker it starts with.\<close>

lemma select_worker_best:
  assumes "select_worker sc a ws sel = Some w"
  shows "(sel = Some w \<or> w \<in> set ws \<and> selectable sc w)
    \<and> (\<forall>v. sel = Some v \<or> v \<in> set ws \<and> selectable sc v \<longrightarrow> \<not> better_worker a v w)"
  using assms
proof (induction sc a ws sel rule: select_worker.induct)
  case (1 sc a sel)
  then show ?case by simp
next
  case (2 sc a x ws sel)
  show ?case
  proof (cases "selectable sc x")
    case False
    with 2 show ?thesis by (auto simp: selectable_def)
  next
    case True
    then have X: "\<not> (w_id x \<in> sc_quarantined sc \<or> w_id x \<in> sc_reconciling sc)" by (simp add: selectable_def)
    show ?thesis
    proof (cases sel)
      case None
      with X 2(2) [OF X None] 2(4) True show ?thesis by auto
    next
      case (Some y)
      let ?z = "if better_worker a x y then Some x else sel"
      have ih: "(?z = Some w \<or> w \<in> set ws \<and> selectable sc w)
          \<and> (\<forall>v. ?z = Some v \<or> v \<in> set ws \<and> selectable sc v \<longrightarrow> \<not> better_worker a v w)"
        by (rule 2(3) [OF X Some]) (use 2(4) X Some in \<open>auto split: if_splits\<close>)
      have "\<not> better_worker a x w \<and> \<not> better_worker a y w"
        using ih Some better_worker_neg_trans [of a x y w] better_worker_neg_trans [of a y x w]
          better_worker_asym [of a x y] by (auto split: if_splits)
      with ih True Some show ?thesis by (auto split: if_splits)
    qed
  qed
qed

lemma select_worker_None:
  "select_worker sc a ws sel = None \<longleftrightarrow> sel = None \<and> (\<forall>v \<in> set ws. \<not> selectable sc v)"
  by (induction sc a ws sel rule: select_worker.induct)
     (auto simp: selectable_def split: option.splits if_splits)

text \<open>
  The choice does not depend on the order in which the workers are enumerated, as long as ids
  are unique.
\<close>

lemma select_worker_set:
  assumes "set ws = set ws'" and "\<And>x y. x \<in> set ws \<Longrightarrow> y \<in> set ws \<Longrightarrow> w_id x = w_id y \<Longrightarrow> x = y"
  shows "select_worker sc a ws None = select_worker sc a ws' None"
proof (cases "select_worker sc a ws None")
  case None
  then show ?thesis
    using select_worker_None [of sc a ws None] select_worker_None [of sc a ws' None] assms(1) by simp
next
  case (Some w)
  then obtain w' where w': "select_worker sc a ws' None = Some w'"
    using select_worker_None [of sc a ws None] select_worker_None [of sc a ws' None] assms(1)
    by (cases "select_worker sc a ws' None") auto
  from select_worker_best [OF Some] select_worker_best [OF w'] assms(1)
  have "w \<in> set ws" "w' \<in> set ws" "\<not> better_worker a w' w" "\<not> better_worker a w w'" by auto
  then have "w = w'" using better_worker_total [of w w' a] assms(2) by blast
  with Some w' show ?thesis by simp
qed

section \<open>The loop over the queue\<close>

definition entry_queued :: "Scheduler \<Rightarrow> QueuedTaskInfo \<Rightarrow> bool" where
  "entry_queued sc q \<longleftrightarrow> (\<exists>t. map_of (sc_tasks sc) (q_task_id q) = Some t \<and> t_status t = QUEUED)"

text \<open>A prepared change: a queued task with the worker it got, which was selectable.\<close>

definition change_ok :: "env \<Rightarrow> bool \<Rightarrow> Scheduler \<Rightarrow> TaskAssignment \<times> Task \<Rightarrow> bool" where
  "change_ok e stored sc c \<longleftrightarrow>
     (\<exists>t. map_of (sc_tasks sc) (a_task_id (fst c)) = Some t \<and> t_status t = QUEUED
          \<and> snd c = prepare_assignment e stored (a_worker_id (fst c)) t)
     \<and> a_worker_id (fst c) \<noteq> [] \<and> a_worker_id (fst c) \<notin> sc_quarantined sc \<and> a_worker_id (fst c) \<notin> sc_reconciling sc"

lemma getAvailableWorkers_iff:
  "w \<in> set (getAvailableWorkers wm) \<longleftrightarrow>
   (\<exists>i. (i, w) \<in> set (wm_workers wm)) \<and> w_status w = ONLINE \<and> acceptsTasks w \<and> hasFreeSlot w"
  by (force simp: getAvailableWorkers_def)

lemma available_lookup:
  "wm_ok wm \<Longrightarrow> w \<in> set (getAvailableWorkers wm) \<Longrightarrow>
   map_of (wm_workers wm) (w_id w) = Some w \<and> w_id w \<noteq> [] \<and> w_status w = ONLINE \<and> acceptsTasks w \<and> hasFreeSlot w"
  by (metis getAvailableWorkers_iff map_of_is_SomeI wm_okD)

text \<open>An available worker has a slot to give: the break after a refused slot is never taken.\<close>

lemma acquireSlot_available:
  "wm_ok wm \<Longrightarrow> w \<in> set (getAvailableWorkers wm) \<Longrightarrow> fst (acquireSlot (w_id w) wm)"
  using available_lookup [of wm w] by (auto simp: acquireSlot_def acquire_slot_def)

text \<open>
  The changes are the queued tasks of a prefix of the queue, in queue order, each worker has got
  one more slot per task it received, and the rest of the queue is untouched.
\<close>

lemma schedule_loop_spec:
  assumes "schedule_loop e stored sc qs wm after = (changes, rest, wm', after')" and "wm_ok wm"
  shows "wm_ok wm'
    \<and> (\<forall>w. used wm' w = used wm w + count_list (map (\<lambda>c. a_worker_id (fst c)) changes) w)
    \<and> (\<forall>c \<in> set changes. change_ok e stored sc c)
    \<and> (\<exists>taken. qs = taken @ rest
         \<and> map (\<lambda>c. a_task_id (fst c)) changes = map q_task_id (filter (entry_queued sc) taken))"
  using assms
proof (induction e stored sc qs wm after arbitrary: changes rest wm' after' rule: schedule_loop.induct)
  case (1 e stored sc wm after)
  then show ?case by simp
next
  case (2 e stored sc q qs wm after)
  show ?case
  proof (cases "entry_queued sc q")
    case False
    then have run: "schedule_loop e stored sc qs wm after = (changes, rest, wm', after')"
      using 2(4) by (auto simp: entry_queued_def split: option.splits)
    have ih: "wm_ok wm'
      \<and> (\<forall>w. used wm' w = used wm w + count_list (map (\<lambda>c. a_worker_id (fst c)) changes) w)
      \<and> (\<forall>c \<in> set changes. change_ok e stored sc c)
      \<and> (\<exists>taken. qs = taken @ rest
           \<and> map (\<lambda>c. a_task_id (fst c)) changes = map q_task_id (filter (entry_queued sc) taken))"
    proof (cases "map_of (sc_tasks sc) (q_task_id q)")
      case None
      then show ?thesis by (rule 2(1) [OF _ run 2(5)])
    next
      case (Some t)
      then show ?thesis by (rule 2(2) [OF _ _ run 2(5)]) (use False Some in \<open>auto simp: entry_queued_def\<close>)
    qed
    then obtain taken where "qs = taken @ rest" "map (\<lambda>c. a_task_id (fst c)) changes = map q_task_id (filter (entry_queued sc) taken)"
      by blast
    with ih False show ?thesis by (intro conjI exI [of _ "q # taken"]) auto
  next
    case True
    then obtain t where t: "map_of (sc_tasks sc) (q_task_id q) = Some t" "t_status t = QUEUED"
      by (auto simp: entry_queued_def)
    show ?thesis
    proof (cases "select_worker sc after (getAvailableWorkers wm) None")
      case None
      with 2(4,5) t show ?thesis by auto
    next
      case (Some w)
      from select_worker_best [OF Some] have av: "w \<in> set (getAvailableWorkers wm)" and sel: "selectable sc w"
        by auto
      note W = available_lookup [OF 2(5) av]
      obtain wm1 where acq: "acquireSlot (w_id w) wm = (True, wm1)"
        using acquireSlot_available [OF 2(5) av] by (cases "acquireSlot (w_id w) wm") auto
      obtain ch rs wm2 af where rec: "schedule_loop e stored sc qs wm1 (w_id w) = (ch, rs, wm2, af)"
        by (metis prod_cases4)
      have eq: "changes = (\<lparr>a_task_id = q_task_id q, a_worker_id = w_id w\<rparr>, prepare_assignment e stored (w_id w) t) # ch"
        "rest = rs" "wm' = wm2"
        using 2(4) t Some acq rec by auto
      have ih: "wm_ok wm2
        \<and> (\<forall>v. used wm2 v = used wm1 v + count_list (map (\<lambda>c. a_worker_id (fst c)) ch) v)
        \<and> (\<forall>c \<in> set ch. change_ok e stored sc c)
        \<and> (\<exists>taken. qs = taken @ rs \<and> map (\<lambda>c. a_task_id (fst c)) ch = map q_task_id (filter (entry_queued sc) taken))"
        by (rule 2(3) [OF t(1) _ Some acq [symmetric] _ rec acquireSlot_True(2) [OF acq 2(5)]]) (use t in auto)
      then obtain taken where "qs = taken @ rs" "map (\<lambda>c. a_task_id (fst c)) ch = map q_task_id (filter (entry_queued sc) taken)"
        by blast
      with ih True t W sel acquireSlot_True(1) [OF acq] show ?thesis
        unfolding eq by (intro conjI exI [of _ "q # taken"]) (auto simp: change_ok_def selectable_def)
    qed
  qed
qed

section \<open>Committing a pass\<close>

lemma prepare_assignment_simps:
  "t_id (prepare_assignment e stored w t) = t_id t" "t_type (prepare_assignment e stored w t) = t_type t"
  "t_payload (prepare_assignment e stored w t) = t_payload t"
  "t_priority (prepare_assignment e stored w t) = t_priority t"
  "t_retry_count (prepare_assignment e stored w t) = t_retry_count t"
  "t_queue_sequence (prepare_assignment e stored w t) = t_queue_sequence t"
  "t_worker_id (prepare_assignment e stored w t) = w" "t_status (prepare_assignment e stored w t) = ASSIGNED"
  "\<not> t_recovery_required (prepare_assignment e stored w t)"
  "t_execution_summary (prepare_assignment e stored w t) = JNull"
  "t_run_id (prepare_assignment e stored w t) = (if stored then newRunId e (t_id t) else [])"
  by (simp_all add: prepare_assignment_def Let_def restore_def task_setters transitionTo_status canTransitionTo_def)

lemma prepare_assignment_occupies: "occupies w (prepare_assignment e stored w' t) \<longleftrightarrow> w = w'"
  by (auto simp: occupies_def active_def prepare_assignment_simps)

lemma distinct_by_count:
  "(\<And>q. q \<in> set xs \<Longrightarrow> length (filter (\<lambda>x. f x = f q) xs) = 1) \<Longrightarrow> distinct (map f xs)"
proof (induction xs)
  case (Cons x xs)
  have "filter (\<lambda>y. f y = f x) xs = []" using Cons.prems [of x] by simp
  then have new: "f x \<notin> f ` set xs" by (auto simp: filter_empty_conv)
  have "length (filter (\<lambda>y. f y = f q) xs) = 1" if "q \<in> set xs" for q
    using Cons.prems [of q] that new by (auto split: if_splits)
  with Cons.IH new show ?case by simp
qed simp

lemma queued_ids_distinct:
  assumes "queue_ok sc"
  shows "distinct (map q_task_id (filter (entry_queued sc) (sc_queue sc)))"
proof (rule distinct_by_count)
  fix q assume q: "q \<in> set (filter (entry_queued sc) (sc_queue sc))"
  then obtain t where t: "map_of (sc_tasks sc) (q_task_id q) = Some t" "t_status t = QUEUED"
    by (auto simp: entry_queued_def)
  have "filter (\<lambda>x. q_task_id x = q_task_id q) (filter (entry_queued sc) (sc_queue sc))
      = entries (q_task_id q) (sc_queue sc)"
    using t unfolding entries_def filter_filter by (intro filter_cong) (auto simp: entry_queued_def)
  then show "length (filter (\<lambda>x. q_task_id x = q_task_id q) (filter (entry_queued sc) (sc_queue sc))) = 1"
    using queue_okD(3) [OF assms t] by simp
qed

lemma commit_changes_other:
  "i \<notin> (\<lambda>c. a_task_id (fst c)) ` set changes \<Longrightarrow> map_of (commit_changes changes ts) i = map_of ts i"
  unfolding commit_changes_def by (induction changes arbitrary: ts) (auto simp: split_beta)

lemma commit_changes_this:
  assumes "distinct (map (\<lambda>c. a_task_id (fst c)) changes)" and "c \<in> set changes"
  shows "map_of (commit_changes changes ts) (a_task_id (fst c)) = Some (snd c)"
  using assms
proof (induction changes arbitrary: ts)
  case (Cons d changes)
  show ?case
  proof (cases "c = d")
    case True
    with Cons.prems have "a_task_id (fst c) \<notin> (\<lambda>c. a_task_id (fst c)) ` set changes" by auto
    from commit_changes_other [OF this] True show ?thesis
      by (simp add: commit_changes_def split_beta)
  next
    case False
    with Cons show ?thesis by (simp add: commit_changes_def split_beta)
  qed
qed simp

lemma commit_changes_distinct:
  "distinct (map fst ts) \<Longrightarrow> distinct (map fst (commit_changes changes ts))"
  unfolding commit_changes_def by (induction changes arbitrary: ts) (auto simp: split_beta)

lemma commit_changes_keys:
  "(\<And>c. c \<in> set changes \<Longrightarrow> map_of ts (a_task_id (fst c)) \<noteq> None) \<Longrightarrow>
   fst ` set (commit_changes changes ts) = fst ` set ts"
proof (induction changes arbitrary: ts)
  case (Cons c changes)
  let ?ts = "AList.update (a_task_id (fst c)) (snd c) ts"
  have "fst ` set (commit_changes changes ?ts) = fst ` set ?ts"
    by (rule Cons.IH) (use Cons.prems in auto)
  moreover have "fst ` set ?ts = fst ` set ts"
  proof -
    obtain t where "map_of ts (a_task_id (fst c)) = Some t" using Cons.prems [of c] by auto
    then show ?thesis by (rule keys_update_present)
  qed
  ultimately show ?case by (simp add: commit_changes_def split_beta)
qed (simp add: commit_changes_def)

lemma commit_changes_count:
  assumes "distinct (map (\<lambda>c. a_task_id (fst c)) changes)"
    and "\<And>c. c \<in> set changes \<Longrightarrow> \<exists>t. map_of ts (a_task_id (fst c)) = Some t \<and> \<not> occupies w t"
    and "\<And>c. c \<in> set changes \<Longrightarrow> occupies w (snd c) \<longleftrightarrow> w = a_worker_id (fst c)"
  shows "count_vals (occupies w) (commit_changes changes ts)
       = count_vals (occupies w) ts + count_list (map (\<lambda>c. a_worker_id (fst c)) changes) w"
  using assms
proof (induction changes arbitrary: ts)
  case (Cons c changes)
  let ?ts = "AList.update (a_task_id (fst c)) (snd c) ts"
  obtain t where t: "map_of ts (a_task_id (fst c)) = Some t" "\<not> occupies w t" using Cons.prems(2) [of c] by auto
  have "count_vals (occupies w) (commit_changes changes ?ts)
      = count_vals (occupies w) ?ts + count_list (map (\<lambda>c. a_worker_id (fst c)) changes) w"
  proof (rule Cons.IH)
    fix d assume d: "d \<in> set changes"
    then have "a_task_id (fst d) \<noteq> a_task_id (fst c)"
      using Cons.prems(1) by (metis (no_types, lifting) distinct.simps(2) image_eqI list.simps(9) list.set_map)
    with d Cons.prems(2) [of d] show "\<exists>t. map_of ?ts (a_task_id (fst d)) = Some t \<and> \<not> occupies w t" by auto
  qed (use Cons.prems in auto)
  moreover have "count_vals (occupies w) ?ts = count_vals (occupies w) ts + (if w = a_worker_id (fst c) then 1 else 0)"
    using count_vals_update_old [OF t(1), of "occupies w" "snd c"] t(2) Cons.prems(3) [of c] by simp
  ultimately show ?case by (simp add: commit_changes_def split_beta)
qed (simp add: commit_changes_def)

text \<open>The state a pass commits, from the changes of its loop.\<close>

lemma inv_commit:
  assumes inv: "sched_inv s"
    and loop: "schedule_loop e stored (sy_sched s) (sc_queue (sy_sched s)) (sy_wm s) (sc_last_selected (sy_sched s))
               = (changes, pending, wm, after)"
    and sc': "sc_tasks (sy_sched s') = commit_changes changes (sc_tasks (sy_sched s))"
      "sc_queue (sy_sched s') = pending"
      "sc_stopped_batches (sy_sched s') = sc_stopped_batches (sy_sched s)"
      "sc_quarantined (sy_sched s') = sc_quarantined (sy_sched s)"
      "sc_next_sequence (sy_sched s') = sc_next_sequence (sy_sched s)"
      "sc_dispatching (sy_sched s') = sc_dispatching (sy_sched s)"
    and s': "sy_wm s' = wm" "store_grows s s'"
  shows "sched_inv s'"
proof (rule sched_invI)
  let ?sc = "sy_sched s"
  note I = sched_invD [OF inv] and L = schedule_loop_spec [OF loop sched_invD(1) [OF inv]]
  obtain taken where q: "sc_queue ?sc = taken @ pending"
    and ids: "map (\<lambda>c. a_task_id (fst c)) changes = map q_task_id (filter (entry_queued ?sc) taken)" using L by blast
  have ok: "\<exists>t. map_of (sc_tasks ?sc) (a_task_id (fst c)) = Some t \<and> t_status t = QUEUED
          \<and> snd c = prepare_assignment e stored (a_worker_id (fst c)) t" 
    "a_worker_id (fst c) \<noteq> []" "a_worker_id (fst c) \<notin> sc_quarantined ?sc" if "c \<in> set changes" for c
    using L that by (auto simp: change_ok_def)
  have stat: "t_status (snd c) = ASSIGNED" if "c \<in> set changes" for c
    using ok(1) [OF that] by (auto simp: prepare_assignment_simps)
  have norec: "\<not> t_recovery_required (snd c)" if "c \<in> set changes" for c
    using ok(1) [OF that] by (auto simp: prepare_assignment_simps)
  have dist: "distinct (map (\<lambda>c. a_task_id (fst c)) changes)"
    using queued_ids_distinct [OF I(3)] by (simp add: ids q)
  note this_one = commit_changes_this [OF dist]
  have new: "(\<exists>c \<in> set changes. i = a_task_id (fst c) \<and> u = snd c)
      \<or> i \<notin> a_task_id ` fst ` set changes \<and> map_of (sc_tasks ?sc) i = Some u"
    if "map_of (sc_tasks (sy_sched s')) i = Some u" for i u
    using that this_one commit_changes_other [of i changes "sc_tasks ?sc"] unfolding sc'(1) image_image
    by (cases "i \<in> (\<lambda>c. a_task_id (fst c)) ` set changes") auto
  show "wm_ok (sy_wm s')" using L s'(1) by simp
  show "table_ok (sy_sched s')"
    unfolding table_ok_def
  proof (intro conjI allI impI)
    show "distinct (map fst (sc_tasks (sy_sched s')))"
      unfolding sc'(1) by (rule commit_changes_distinct [OF table_okD(1) [OF I(2)]])
    fix i u assume "map_of (sc_tasks (sy_sched s')) i = Some u"
    from new [OF this] have "t_id u = i \<and> i \<noteq> 0 \<and> task_ok u"
    proof (elim disjE bexE conjE)
      fix c assume c: "c \<in> set changes" "i = a_task_id (fst c)" "u = snd c"
      from ok(1) [OF c(1)] obtain t where t: "map_of (sc_tasks ?sc) i = Some t"
        "u = prepare_assignment e stored (a_worker_id (fst c)) t" using c by auto
      have "task_ok u" using table_okD(4) [OF I(2) t(1)] ok(2) [OF c(1)]
        by (simp add: t(2) task_ok_def active_def prepare_assignment_simps)
      with t table_okD(2,3) [OF I(2) t(1)] show ?thesis by (simp add: prepare_assignment_simps)
    qed (use table_okD [OF I(2)] in blast)
    then show "t_id u = i" "i \<noteq> 0" "task_ok u" by auto
  qed
  show "queue_ok (sy_sched s')"
    unfolding queue_ok_def
  proof (intro conjI allI impI ballI)
    show "queue_sorted (sc_queue (sy_sched s'))"
      using queue_okD(1) [OF I(3)] by (simp add: sc' q queue_sorted_def sorted_wrt_append)
    show "sc_next_sequence (sy_sched s') \<le> 2 ^ 63" using queue_okD(5) [OF I(3)] by (simp add: sc')
    show "q_sequence x < sc_next_sequence (sy_sched s')" if "x \<in> set (sc_queue (sy_sched s'))" for x
      using queue_okD(2) [OF I(3), of x] that by (simp add: sc' q)
  next
    have split: "entries i (sc_queue ?sc) = entries i taken @ entries i pending" for i by (simp add: q entries_def)
    fix i u assume u: "map_of (sc_tasks (sy_sched s')) i = Some u"
    show "entries i (sc_queue (sy_sched s')) = [queue_entry u]" if "t_status u = QUEUED"
    proof -
      from new [OF u] have i: "i \<notin> (\<lambda>c. a_task_id (fst c)) ` set changes" "map_of (sc_tasks ?sc) i = Some u"
        using that stat by (auto simp only: image_image)
      have "i \<notin> q_task_id ` set (filter (entry_queued ?sc) taken)"
        using i(1) arg_cong [OF ids, of set] by (simp add: image_image)
      then have "entries i taken = []"
        using i(2) that by (auto simp: entries_Nil_iff entry_queued_def)
      with queue_okD(3) [OF I(3) i(2) that] split show ?thesis by (simp add: sc')
    qed
    show "entries i (sc_queue (sy_sched s')) = []" if "active u"
      using new [OF u]
    proof (elim disjE bexE conjE)
      fix c assume c: "c \<in> set changes" "i = a_task_id (fst c)" "u = snd c"
      then have "i \<in> q_task_id ` set (filter (entry_queued ?sc) taken)"
        using arg_cong [OF ids, of set] by auto
      then have "entries i taken \<noteq> []" by (auto simp: entries_Nil_iff)
      moreover obtain t where "map_of (sc_tasks ?sc) i = Some t" "t_status t = QUEUED" using ok(1) [OF c(1)] c by auto
      ultimately show ?thesis using queue_okD(3) [OF I(3)] split [of i] by (auto simp: sc' Cons_eq_append_conv)
    next
      assume "map_of (sc_tasks ?sc) i = Some u"
      with queue_okD(4) [OF I(3) this that] split [of i] show ?thesis by (simp add: sc')
    qed
  qed
  have keys: "fst ` set (commit_changes changes (sc_tasks ?sc)) = fst ` set (sc_tasks ?sc)"
    by (rule commit_changes_keys) (use ok(1) in fastforce)
  show "known_ok s'"
    by (rule known_ok_grow [OF I(4) s'(2)]) (auto simp: sc' keys q)
  show "quarantine_ok (sy_sched s')"
    unfolding quarantine_ok_def
  proof (intro allI impI conjI)
    fix i t assume t: "map_of (sc_tasks (sy_sched s')) i = Some t" "active t" "t_recovery_required t"
    from new [OF t(1)] t(3) norec have old: "map_of (sc_tasks ?sc) i = Some t" by auto
    note Q = I(5) [unfolded quarantine_ok_def, rule_format, OF old t(2,3)]
    show "t_worker_id t \<in> sc_quarantined (sy_sched s')" using Q by (simp add: sc')
    fix j u assume "map_of (sc_tasks (sy_sched s')) j = Some u"
    from new [OF this] show "\<not> occupies (t_worker_id t) u"
    proof (elim disjE bexE conjE)
      fix c assume c: "c \<in> set changes" "u = snd c"
      with ok(1) [OF c(1)] ok(3) [OF c(1)] Q show ?thesis by (auto simp: prepare_assignment_occupies)
    qed (use Q in auto)
  qed
  have bs: "batch_stopped (sy_sched s') = batch_stopped ?sc"
    by (simp add: batch_stopped_def sc' fun_eq_iff split: option.split)
  show "stop_ok (sy_sched s')"
    unfolding stop_ok_def bs using new ok(1) I(6) by (fastforce simp: stop_ok_def prepare_assignment_simps)
  show "dispatch_ok (sy_sched s')"
    unfolding dispatch_ok_def
  proof
    fix i assume "i \<in> sc_dispatching (sy_sched s')"
    then obtain t where t: "map_of (sc_tasks ?sc) i = Some t" "t_status t \<noteq> QUEUED"
      using I(7) by (auto simp: dispatch_ok_def sc')
    then have "i \<notin> (\<lambda>c. a_task_id (fst c)) ` set changes" using ok(1) by fastforce
    with t show "\<exists>t. map_of (sc_tasks (sy_sched s')) i = Some t \<and> t_status t \<noteq> QUEUED"
      by (auto simp: sc' commit_changes_other)
  qed
  show "slots_match (used (sy_wm s')) (sc_tasks (sy_sched s'))"
    unfolding slots_match_def s'(1) sc'(1)
  proof
    fix w
    have "count_vals (occupies w) (commit_changes changes (sc_tasks ?sc))
        = count_vals (occupies w) (sc_tasks ?sc) + count_list (map (\<lambda>c. a_worker_id (fst c)) changes) w"
      by (rule commit_changes_count [OF dist])
         (use ok(1) in \<open>fastforce simp: occupies_def active_def prepare_assignment_simps\<close>)+
    then show "used wm w = count_vals (occupies w) (commit_changes changes (sc_tasks ?sc))"
      using L I(8) by (simp add: slots_match_def)
  qed
qed

text \<open>The run of a pass by the outcome of its loop and of its durable write.\<close>

lemma schedule_run:
  assumes loop: "schedule_loop e (sy_store s \<noteq> None) (sy_sched s) (sc_queue (sy_sched s)) (sy_wm s)
                   (sc_last_selected (sy_sched s)) = (changes, pending, wm, after)"
    and sv: "(if changes = [] then (Inr (), put_wm wm s)
              else store_save e (map snd changes) None None None None (put_wm wm s)) = (r, s2)"
  shows "schedule e s =
    (case r of
       Inl x \<Rightarrow> (Inl x, put_wm (release_all (map (\<lambda>c. a_worker_id (fst c)) changes) wm) s2)
     | Inr _ \<Rightarrow>
         (Inr (map fst changes),
          put_sched ((sy_sched s)\<lparr>sc_tasks := commit_changes changes (sc_tasks (sy_sched s)),
             sc_generation := (if changes = [] then sc_generation (sy_sched s) else sc_generation (sy_sched s) + 1),
             sc_queue := pending, sc_last_selected := after\<rparr>) s2))"
  unfolding schedule_def Let_def loop prod.case sv by (simp add: comp_def split: sum.split)

lemma pass_frame:
  assumes "(if changes = [] then (Inr (), put_wm wm s)
            else store_save e ts None None None None (put_wm wm s)) = (r, s2)"
  shows "sy_sched s2 = sy_sched s" "sy_wm s2 = wm" "store_grows s s2" "sy_store s2 = None \<longleftrightarrow> sy_store s = None"
proof -
  have "sy_sched s2 = sy_sched s \<and> sy_wm s2 = wm \<and> store_grows s s2 \<and> (sy_store s2 = None \<longleftrightarrow> sy_store s = None)"
  proof (cases "changes = []")
    case True
    then show ?thesis using assms by auto
  next
    case False
    then have "store_save e ts None None None None (put_wm wm s) = (r, s2)" using assms by simp
    from store_save_frame [OF this] show ?thesis by simp
  qed
  then show "sy_sched s2 = sy_sched s" "sy_wm s2 = wm" "store_grows s s2"
    "sy_store s2 = None \<longleftrightarrow> sy_store s = None" by auto
qed

text \<open>A pass that throws has given back every slot it took and changed no task and no queue entry.\<close>

lemma schedule_throws:
  assumes "wm_ok (sy_wm s)" and "schedule e s = (Inl x, s')"
  shows "sy_sched s' = sy_sched s" "used (sy_wm s') = used (sy_wm s)" "wm_ok (sy_wm s')" "store_grows s s'"
proof -
  obtain changes pending wm after where loop:
    "schedule_loop e (sy_store s \<noteq> None) (sy_sched s) (sc_queue (sy_sched s)) (sy_wm s)
       (sc_last_selected (sy_sched s)) = (changes, pending, wm, after)" by (metis prod_cases4)
  obtain r s2 where sv: "(if changes = [] then (Inr (), put_wm wm s)
      else store_save e (map snd changes) None None None None (put_wm wm s)) = (r, s2)" by fastforce
  note F = pass_frame [OF sv] and L = schedule_loop_spec [OF loop assms(1)]
  let ?rel = "release_all (map (\<lambda>c. a_worker_id (fst c)) changes) wm"
  from assms(2) have s': "s' = put_wm ?rel s2"
    unfolding schedule_run [OF loop sv] by (auto split: sum.splits)
  show "sy_sched s' = sy_sched s" "store_grows s s'" using F by (simp_all add: s')
  show "wm_ok (sy_wm s')" using L by (simp add: s' release_all_def slots.release_many_good)
  show "used (sy_wm s') = used (sy_wm s)"
    unfolding s' put_simps release_all_def by (rule slots.release_many_undo) (use L in blast)
qed

lemma inv_schedule:
  assumes inv: "sched_inv s"
  shows "sched_inv (snd (schedule e s))"
proof -
  obtain changes pending wm after where loop:
    "schedule_loop e (sy_store s \<noteq> None) (sy_sched s) (sc_queue (sy_sched s)) (sy_wm s)
       (sc_last_selected (sy_sched s)) = (changes, pending, wm, after)" by (metis prod_cases4)
  obtain r s2 where sv: "(if changes = [] then (Inr (), put_wm wm s)
      else store_save e (map snd changes) None None None None (put_wm wm s)) = (r, s2)" by fastforce
  note F = pass_frame [OF sv]
  show ?thesis
  proof (cases "fst (schedule e s)")
    case (Inl x)
    then obtain s' where s': "schedule e s = (Inl x, s')" by (cases "schedule e s") auto
    note T = schedule_throws [OF sched_invD(1) [OF inv] s']
    show ?thesis
      unfolding s' snd_conv by (rule inv_frame [OF inv]) (use T in simp_all)
  next
    case (Inr as)
    then obtain u where r: "r = Inr u" unfolding schedule_run [OF loop sv] by (cases r) auto
    show ?thesis
      unfolding schedule_run [OF loop sv] r sum.case snd_conv
      by (rule inv_commit [OF inv loop]) (use F in simp_all)
  qed
qed

end
