(* ===== verification/System.thy ===== *)
theory System
  imports SchedulePass
begin

text \<open>
  The scheduler as a state machine: every public operation of the scheduler and of the worker
  manager is a step, in any order and with any environment (dispatching is two steps, so that
  other operations interleave with a dispatch in flight). A run starts with a new scheduler and
  a worker manager without workers, either without a store or restored from a database. The
  invariant holds in every reachable state.
\<close>

section \<open>Steps of the worker manager\<close>

definition run_wm :: "(WorkerManager \<times> StateStore option, 'a) op \<Rightarrow> (sys, 'a) op" where
  "run_wm f s = (case f (sy_wm s, sy_store s) of (r, (wm, store)) \<Rightarrow> (r, s\<lparr>sy_wm := wm, sy_store := store\<rparr>))"

lemma saveWorkerControls_tasks: "s_tasks (snd (saveWorkerControls jc j db)) = s_tasks db"
  by (simp add: saveWorkerControls_def Let_def split: option.split)

definition stores_agree :: "StateStore option \<Rightarrow> StateStore option \<Rightarrow> bool" where
  "stores_agree a b \<longleftrightarrow> rel_option (\<lambda>x y. s_tasks y = s_tasks x) a b"

lemma stores_agree_refl [simp]: "stores_agree a a"
  unfolding stores_agree_def by (rule option.rel_refl) simp

lemma commitControls_stores: "commitControls jc next s = (r, (wm', store')) \<Longrightarrow> stores_agree (snd s) store'"
  using saveWorkerControls_tasks [of jc "next"]
  by (auto simp: commitControls_def stores_agree_def Let_def option.rel_refl
      split: prod.splits sum.splits option.splits) (metis snd_conv)+

lemma control_stores: "stores_agree (snd s) (snd (snd (control jc machine target action operation_id scope s)))"
  by (auto simp: control_def dest: commitControls_stores split: sum.splits prod.splits)

lemma managementHeartbeat_stores: "stores_agree (snd s) (snd (snd (managementHeartbeat jc i ack s)))"
  by (auto simp: managementHeartbeat_def dest: commitControls_stores split: sum.splits prod.splits option.splits)

lemma stores_agree_grows:
  "stores_agree (sy_store s) (sy_store s') \<Longrightarrow> store_grows s s'"
  unfolding stores_agree_def store_grows_def
  by (erule option.rel_mono_strong) (simp add: known_ids_def store_ok_def)

lemma inv_run_wm:
  assumes inv: "sched_inv s"
    and same: "same_but_control (sy_wm s) (fst (snd (f (sy_wm s, sy_store s))))"
    and stores: "stores_agree (sy_store s) (snd (snd (f (sy_wm s, sy_store s))))"
  shows "sched_inv (snd (run_wm f s))"
proof -
  obtain r wm st where f: "f (sy_wm s, sy_store s) = (r, (wm, st))" by (metis prod_cases3)
  have s': "snd (run_wm f s) = s\<lparr>sy_wm := wm, sy_store := st\<rparr>" by (simp add: run_wm_def f)
  show ?thesis
    unfolding s'
    by (rule inv_frame [OF inv])
       (use same stores f same_but_control_keeps [of "sy_wm s" wm] sched_invD(1) [OF inv]
        in \<open>auto intro: stores_agree_grows\<close>)
qed

lemma inv_put_wm:
  assumes "sched_inv s" and "wm_ok wm" and "used wm = used (sy_wm s)"
  shows "sched_inv (put_wm wm s)"
  by (rule inv_frame [OF assms(1)]) (use assms(2,3) in simp_all)

section \<open>Restart\<close>

text \<open>
  A database the scheduler can be restored from: the active rows read back as well-formed tasks,
  all in-flight ones marked for recovery, and none waiting in a stopped batch.
\<close>

definition restorable_task :: "StateStore \<Rightarrow> Task \<Rightarrow> bool" where
  "restorable_task db t \<longleftrightarrow>
     t_id t \<noteq> 0 \<and> t_id t \<in> known_ids db \<and> task_ok t \<and> (active t \<longrightarrow> t_recovery_required t)
     \<and> (t_status t = QUEUED \<longrightarrow> (case batchId t of None \<Rightarrow> True | Some b \<Rightarrow> b \<notin> set (loadStoppedBatches db)))"

definition restorable :: "env \<Rightarrow> StateStore \<Rightarrow> bool" where
  "restorable e db \<longleftrightarrow>
     store_ok db \<and> snd (highWaterMarks db) < 2 ^ 63
     \<and> (case loadTasks (e_codec e) 0 True [] db of
          Inl _ \<Rightarrow> False
        | Inr loaded \<Rightarrow> distinct (map t_id loaded) \<and> list_all (restorable_task db) loaded)"

lemma restore_one_tasks:
  "t_id t \<notin> fst ` set (sc_tasks sc) \<Longrightarrow> sc_tasks (restore_one t sc) = AList.update (t_id t) t (sc_tasks sc)"
  by (simp add: restore_one_def Let_def)

lemma restore_one_simps:
  "sc_queue (restore_one t sc) =
     (if t_status t = QUEUED then queue_push (queue_entry t) (sc_queue sc) else sc_queue sc)"
  "sc_quarantined (restore_one t sc) =
     (if t_recovery_required t then insert (t_worker_id t) (sc_quarantined sc) else sc_quarantined sc)"
  "sc_next_sequence (restore_one t sc) = max (sc_next_sequence sc) (t_queue_sequence t + 1)"
  "sc_stopped_batches (restore_one t sc) = sc_stopped_batches sc"
  "sc_dispatching (restore_one t sc) = sc_dispatching sc"
  by (simp_all add: restore_one_def Let_def queue_entry_def)

text \<open>What the loop over the loaded tasks builds.\<close>

definition restored_from :: "Task list \<Rightarrow> Scheduler \<Rightarrow> bool" where
  "restored_from ts sc \<longleftrightarrow>
     distinct (map fst (sc_tasks sc))
     \<and> (\<forall>i t. map_of (sc_tasks sc) i = Some t \<longleftrightarrow> t \<in> set ts \<and> t_id t = i)
     \<and> queue_sorted (sc_queue sc)
     \<and> mset (sc_queue sc) = mset (map queue_entry (filter (\<lambda>t. t_status t = QUEUED) ts))
     \<and> (\<forall>t \<in> set ts. t_recovery_required t \<longrightarrow> t_worker_id t \<in> sc_quarantined sc)
     \<and> (\<forall>t \<in> set ts. t_queue_sequence t < sc_next_sequence sc) \<and> sc_next_sequence sc \<le> 2 ^ 63
     \<and> sc_dispatching sc = {} \<and> sc_stopped_batches sc = {}"

lemma u64_succ_bound:
  "x < 2 ^ 63 \<Longrightarrow> x < x + 1 \<and> x + 1 \<le> (2 :: u64) ^ 63"
  by (simp add: word_less_nat_alt word_le_nat_alt unat_word_ariths)

lemma restored_from_step:
  assumes R: "restored_from ts sc" and new: "t_id t \<notin> t_id ` set ts" and seq: "t_queue_sequence t < 2 ^ 63"
  shows "restored_from (ts @ [t]) (restore_one t sc)"
proof -
  note r = R [unfolded restored_from_def]
  have fresh: "t_id t \<notin> fst ` set (sc_tasks sc)"
    using r new by (force simp: dest: weak_map_of_SomeI)
  have other: "t_id u \<noteq> t_id t" if "u \<in> set ts" for u using new imageI [OF that, of t_id] by auto
  have lookup: "map_of (sc_tasks (restore_one t sc)) i = Some u \<longleftrightarrow> u \<in> set (ts @ [t]) \<and> t_id u = i" for i u
    using r other by (auto simp: restore_one_tasks [OF fresh] simp del: map_of_eq_Some_iff)
  have max: "u < max (sc_next_sequence sc) (t_queue_sequence t + 1)"
    if "u < sc_next_sequence sc \<or> u = t_queue_sequence t" for u
    using that u64_succ_bound [OF seq] by (auto simp: less_max_iff_disj)
  show ?thesis
    unfolding restored_from_def
    using r lookup u64_succ_bound [OF seq]
    by (auto simp: restore_one_tasks [OF fresh] restore_one_simps queue_push_sorted mset_queue_push
        max distinct_al_update simp del: map_of_eq_Some_iff)
qed

lemma restored_from_fold:
  assumes "distinct (map t_id ts)" and "\<forall>t \<in> set ts. t_queue_sequence t < 2 ^ 63"
  shows "restored_from ts (fold restore_one ts new_scheduler)"
  using assms
proof (induction ts rule: rev_induct)
  case Nil
  then show ?case by (simp add: restored_from_def new_scheduler_def queue_sorted_def)
next
  case (snoc t ts)
  then show ?case using restored_from_step [of ts _ t] by simp
qed

lemma mset_singleton_list: "mset xs = {#x#} \<Longrightarrow> xs = [x]"
  by (cases xs) auto

lemma restored_entries:
  assumes "restored_from ts sc" and "distinct (map t_id ts)" and "t \<in> set ts"
  shows "entries (t_id t) (sc_queue sc) = (if t_status t = QUEUED then [queue_entry t] else [])"
proof -
  have "filter (\<lambda>u. t_id u = t_id t) ts = [t]"
    using assms(2,3)
  proof (induction ts)
    case (Cons u ts)
    have "filter (\<lambda>v. t_id v = t_id u) ts = []" using Cons.prems(1) by (auto simp: filter_empty_conv) (metis image_eqI)
    then show ?case using Cons by (cases "u = t") (auto simp: rev_image_eqI)
  qed simp
  then have one: "{#u \<in># mset ts. t_id u = t_id t#} = {#t#}"
    by (metis mset_filter mset_single_iff_right)
  have "mset (entries (t_id t) (sc_queue sc))
      = image_mset queue_entry {#u \<in># {#u \<in># mset ts. t_id u = t_id t#}. t_status u = QUEUED#}"
    using assms(1)
    by (simp add: entries_def restored_from_def filter_mset_image_mset queue_entry_def filter_filter_mset
        conj_commute)
  also have "\<dots> = (if t_status t = QUEUED then {#queue_entry t#} else {#})" by (simp add: one)
  finally show ?thesis by (auto simp: mset_singleton_list split: if_splits)
qed

lemma inv_restored:
  assumes R: "restored_from ts sc" and d: "distinct (map t_id ts)" and ok: "list_all (restorable_task db) ts"
    and db: "store_ok db" and wm: "wm_ok (sy_wm s)" "\<And>w. used (sy_wm s) w = 0"
    and s: "sy_store s = Some db" "sc_tasks (sy_sched s) = sc_tasks sc" "sc_queue (sy_sched s) = sc_queue sc"
      "sc_quarantined (sy_sched s) = sc_quarantined sc" "sc_dispatching (sy_sched s) = {}"
      "sc_stopped_batches (sy_sched s) = set (loadStoppedBatches db)"
      "sc_next_sequence sc \<le> sc_next_sequence (sy_sched s)" "sc_next_sequence (sy_sched s) \<le> 2 ^ 63"
  shows "sched_inv s"
proof (rule sched_invI)
  note r = R [unfolded restored_from_def]
  have T: "t \<in> set ts" "t_id t = i" "restorable_task db t" if "map_of (sc_tasks sc) i = Some t" for i t
    using r that ok by (auto simp: list_all_iff)
  have no: "\<not> occupies w t" if "map_of (sc_tasks sc) i = Some t" for i t w
    using T(3) [OF that] by (auto simp: occupies_def restorable_task_def)
  show "wm_ok (sy_wm s)" by (rule wm)
  show "table_ok (sy_sched s)"
    unfolding table_ok_def s(2)
  proof (intro conjI allI impI)
    show "distinct (map fst (sc_tasks sc))" using r by blast
    fix i t assume t: "map_of (sc_tasks sc) i = Some t"
    show "t_id t = i" "i \<noteq> 0" "task_ok t" using T(2,3) [OF t] by (auto simp: restorable_task_def)
  qed
  have seq: "q_sequence q < sc_next_sequence sc" if "q \<in> set (sc_queue sc)" for q
  proof -
    from that have "q \<in># mset (sc_queue sc)" by simp
    also have "mset (sc_queue sc) = mset (map queue_entry (filter (\<lambda>t. t_status t = QUEUED) ts))" using r by blast
    finally show ?thesis using r by (auto simp: queue_entry_def)
  qed
  show "queue_ok (sy_sched s)"
    unfolding queue_ok_def s(2,3)
  proof (intro conjI ballI allI impI)
    show "queue_sorted (sc_queue sc)" using r by blast
    show "sc_next_sequence (sy_sched s) \<le> 2 ^ 63" by (rule s)
    show "q_sequence q < sc_next_sequence (sy_sched s)" if "q \<in> set (sc_queue sc)" for q
      using seq [OF that] s(7) by simp
    fix i t assume t: "map_of (sc_tasks sc) i = Some t"
    show "entries i (sc_queue sc) = [queue_entry t]" if "t_status t = QUEUED"
      using restored_entries [OF R d T(1) [OF t]] T(2) [OF t] that by simp
    show "entries i (sc_queue sc) = []" if "active t"
      using restored_entries [OF R d T(1) [OF t]] T(2) [OF t] that by (auto simp: active_def)
  qed
  have "i \<in> known_ids db" if i: "i \<in> fst ` set (sc_tasks sc)" for i
  proof -
    from i obtain t where t: "map_of (sc_tasks sc) i = Some t" by (force dest: weak_map_of_SomeI)
    show ?thesis using T(2,3) [OF t] by (simp add: restorable_task_def)
  qed
  moreover have "q_task_id q \<in> known_ids db" if "q \<in> set (sc_queue sc)" for q
  proof -
    from that have "q \<in># mset (sc_queue sc)" by simp
    also have "mset (sc_queue sc) = mset (map queue_entry (filter (\<lambda>t. t_status t = QUEUED) ts))" using r by blast
    finally show ?thesis using ok by (auto simp: queue_entry_def list_all_iff restorable_task_def)
  qed
  ultimately show "known_ok s" using db by (auto simp: known_ok_def s)
  show "quarantine_ok (sy_sched s)"
    using r T no unfolding quarantine_ok_def s by blast
  show "stop_ok (sy_sched s)"
    unfolding stop_ok_def s(2)
  proof (intro allI impI)
    fix i t assume "map_of (sc_tasks sc) i = Some t" "batch_stopped (sy_sched s) t"
    then show "t_status t \<noteq> QUEUED"
      using T(3) by (fastforce simp: restorable_task_def batch_stopped_def s split: option.splits)
  qed
  show "dispatch_ok (sy_sched s)" by (simp add: dispatch_ok_def s)
  have "count_vals (occupies w) (sc_tasks sc) = 0" for w
    using no r by (auto simp: count_vals_zero_iff)
  then show "slots_match (used (sy_wm s)) (sc_tasks (sy_sched s))"
    by (simp add: slots_match_def wm s)
qed

text \<open>A new process on a database: \<open>restoreFrom\<close> on a new scheduler and idle workers.\<close>

definition boot :: "WorkerManager \<Rightarrow> sys" where
  "boot wm = \<lparr>sy_wm = wm, sy_store = None, sy_sched = new_scheduler\<rparr>"

lemma inv_boot: "wm_ok wm \<Longrightarrow> wm_workers wm = [] \<Longrightarrow> sched_inv (boot wm)"
  by (auto simp: boot_def new_scheduler_def sched_inv_def table_ok_def queue_ok_def queue_sorted_def
      known_ok_def quarantine_ok_def stop_ok_def dispatch_ok_def slots_match_def used_def)

lemma wm_ok_empty: "wm_workers wm = [] \<Longrightarrow> wm_ok wm"
  by (simp add: wm_ok_def)

lemma inv_restoreFrom:
  assumes res: "restorable e db" and wm: "wm_workers wm = []"
  shows "fst (restoreFrom e db (boot wm)) = Inr ()" and "sched_inv (snd (restoreFrom e db (boot wm)))"
proof -
  from res obtain loaded where l: "loadTasks (e_codec e) 0 True [] db = Inr loaded"
    "distinct (map t_id loaded)" "list_all (restorable_task db) loaded"
    and db: "store_ok db" "snd (highWaterMarks db) < 2 ^ 63"
    by (auto simp: restorable_def split: sum.splits)
  have R: "restored_from loaded (fold restore_one loaded new_scheduler)"
    by (rule restored_from_fold [OF l(2)])
       (use l(3) in \<open>auto simp: list_all_iff restorable_task_def task_ok_def\<close>)
  let ?sc = "fold restore_one loaded new_scheduler"
  define sc where "sc = ?sc\<lparr>sc_stopped_batches := sc_stopped_batches ?sc \<union> set (loadStoppedBatches db),
      sc_next_sequence := max (sc_next_sequence ?sc) (snd (highWaterMarks db) + 1),
      sc_generation := sc_generation ?sc + 1\<rparr>"
  have "new_scheduler\<lparr>sc_queue := []\<rparr> = new_scheduler" by (simp add: new_scheduler_def)
  then have run: "restoreFrom e db (boot wm) = (Inr (), (boot wm)\<lparr>sy_sched := sc, sy_store := Some db\<rparr>)"
    by (simp add: restoreFrom_def boot_def Let_def l(1) sc_def) (simp add: new_scheduler_def)
  show "fst (restoreFrom e db (boot wm)) = Inr ()" by (simp add: run)
  show "sched_inv (snd (restoreFrom e db (boot wm)))"
    unfolding run snd_conv
    by (rule inv_restored [OF R l(2,3) db(1)])
       (use R u64_succ_bound [OF db(2)] wm in \<open>auto simp: sc_def boot_def restored_from_def used_def wm_ok_empty\<close>)
qed

section \<open>Reachable states\<close>

inductive sys_step :: "sys \<Rightarrow> sys \<Rightarrow> bool" where
  step_submit: "submittable task \<Longrightarrow> sc_next_sequence (sy_sched s) < 2 ^ 63 \<Longrightarrow>
     sys_step s (snd (submitTask e task key request s))"
| step_schedule: "sys_step s (snd (schedule e s))"
| step_claim: "sys_step s (snd (dispatch_claim a s))"
| step_finish: "sys_step s (dispatch_finish i s)"
| step_start: "sys_step s (snd (markTaskStarted e i w s))"
| step_complete: "sys_step s (snd (completeTask e i st j s))"
| step_cancel: "sys_step s (snd (cancelTask e i s))"
| step_stop: "sys_step s (snd (cancelBatch e b s))"
| step_rollback: "sc_next_sequence (sy_sched s) < 2 ^ 63 \<Longrightarrow> sys_step s (snd (rollbackAssignment e i s))"
| step_hold: "sys_step s (holdWorker w s)"
| step_recover: "sys_step s (snd (recoverWorker e w state i run_id m s))"
| step_register: "sys_step s (put_wm (snd (registerWorker now w hostname slots machine slot (sy_wm s))) s)"
| step_heartbeat: "sys_step s (put_wm (snd (heartbeat now w (sy_wm s))) s)"
| step_drain: "sys_step s (put_wm (snd (markDraining w (sy_wm s))) s)"
| step_offline: "sys_step s (put_wm (snd (markOffline w (sy_wm s))) s)"
| step_timeouts: "sys_step s (put_wm (checkTimeouts now timeout (sy_wm s)) s)"
| step_supported: "sys_step s (put_wm (setControlSupported w b (sy_wm s)) s)"
| step_control: "sys_step s (snd (run_wm (control jc machine target action operation scope) s))"
| step_management: "sys_step s (snd (run_wm (managementHeartbeat jc w ack) s))"

inductive reachable :: "sys \<Rightarrow> bool" where
  reach_boot: "wm_workers wm = [] \<Longrightarrow> reachable (boot wm)"
| reach_restore: "wm_workers wm = [] \<Longrightarrow> restorable e db \<Longrightarrow> reachable (snd (restoreFrom e db (boot wm)))"
| reach_step: "reachable s \<Longrightarrow> sys_step s s' \<Longrightarrow> reachable s'"

lemma sys_step_inv: "sys_step s s' \<Longrightarrow> sched_inv s \<Longrightarrow> sched_inv s'"
proof (induction rule: sys_step.induct)
  case (step_register s now w hostname slots machine slot)
  then show ?case
    by (intro inv_put_wm) (simp_all add: registerWorker_ok registerWorker_used sched_invD)
next
  case (step_control s jc machine target action operation scope)
  show ?case
    by (rule inv_run_wm [OF step_control])
       (use control_same [of "(sy_wm s, sy_store s)"] control_stores [of "(sy_wm s, sy_store s)"] in simp_all)
next
  case (step_management s jc w ack)
  show ?case
    by (rule inv_run_wm [OF step_management])
       (use managementHeartbeat_same [of "(sy_wm s, sy_store s)"] managementHeartbeat_stores [of "(sy_wm s, sy_store s)"]
        in simp_all)
qed (simp_all add: inv_submitTask inv_schedule inv_dispatch_claim inv_dispatch_finish inv_markTaskStarted
      inv_completeTask inv_cancelTask inv_cancelBatch inv_rollbackAssignment inv_holdWorker inv_recoverWorker
      inv_put_wm sched_invD)

lemma reachable_inv: "reachable s \<Longrightarrow> sched_inv s"
  by (induction rule: reachable.induct)
     (simp_all add: inv_boot wm_ok_empty inv_restoreFrom sys_step_inv)

end
