(* ===== verification/TaskHistory.thy ===== *)
theory TaskHistory
  imports System
begin

text \<open>
  How the operations move tasks: each operation moves a task at most one step along the status
  automaton (a lost running attempt may also be queued again, with its retry counted), keeps
  everything the client submitted, and never touches a terminal task; a task whose dispatch is
  in flight keeps its worker.
\<close>

definition same_request :: "Task \<Rightarrow> Task \<Rightarrow> bool" where
  "same_request t t' \<longleftrightarrow>
     t_id t' = t_id t \<and> t_type t' = t_type t \<and> t_target t' = t_target t \<and> t_revision t' = t_revision t
     \<and> t_payload t' = t_payload t \<and> t_priority t' = t_priority t \<and> t_created_at t' = t_created_at t"

definition task_move :: "Task \<Rightarrow> Task \<Rightarrow> bool" where
  "task_move t t' \<longleftrightarrow>
     same_request t t'
     \<and> (can_transition (t_status t) (t_status t')
        \<or> t_status t = RUNNING \<and> t_status t' = QUEUED \<and> t_retry_count t' = t_retry_count t + 1)"

text \<open>The change of one entry of the table in one operation; \<open>held\<close>: its dispatch is in flight.\<close>

definition entry_step :: "bool \<Rightarrow> Task option \<Rightarrow> Task option \<Rightarrow> bool" where
  "entry_step held a b =
     (case (a, b) of
        (None, None) \<Rightarrow> True
      | (None, Some t') \<Rightarrow> t_status t' = QUEUED
      | (Some t, None) \<Rightarrow> terminal (t_status t) \<and> \<not> held
      | (Some t, Some t') \<Rightarrow>
          t' = t \<or> task_move t t' \<and> (held \<longrightarrow> t_worker_id t' = t_worker_id t \<and> t_status t' \<noteq> QUEUED))"

definition table_step :: "sys \<Rightarrow> sys \<Rightarrow> bool" where
  "table_step s s' \<longleftrightarrow>
     (\<forall>i. entry_step (i \<in> sc_dispatching (sy_sched s)) (map_of (sc_tasks (sy_sched s)) i)
            (map_of (sc_tasks (sy_sched s')) i))"

lemma entry_step_same [simp]: "entry_step h a a"
  by (simp add: entry_step_def split: option.split)

lemma table_step_same: "sc_tasks (sy_sched s') = sc_tasks (sy_sched s) \<Longrightarrow> table_step s s'"
  by (simp add: table_step_def)

lemma table_step_set:
  assumes "map_of (sc_tasks (sy_sched s)) i = Some t" and "task_move t t'"
    and "sc_tasks (sy_sched s') = AList.update i t' (sc_tasks (sy_sched s))"
    and "i \<in> sc_dispatching (sy_sched s) \<Longrightarrow> t_worker_id t' = t_worker_id t \<and> t_status t' \<noteq> QUEUED"
  shows "table_step s s'"
  using assms by (auto simp: table_step_def entry_step_def split: option.split)

lemma transitionTo_move:
  assumes "transitionTo now next t = (True, t')"
  shows "task_move t t'"
proof -
  have t': "t' = snd (transitionTo now next t)" using assms by simp
  have "canTransitionTo t next" using transitionTo_E(1) [OF assms] by simp
  then show ?thesis
    unfolding task_move_def same_request_def t' by (simp add: transitionTo_status canTransitionTo_def)
qed

lemma table_markTaskStarted: "table_step s (snd (markTaskStarted e i w s))"
proof (cases "\<exists>t. map_of (sc_tasks (sy_sched s)) i = Some t \<and> t_status t = ASSIGNED \<and> t_worker_id t = w")
  case False
  then have "snd (markTaskStarted e i w s) = s"
    by (auto simp: markTaskStarted_def Let_def split: option.split)
  then show ?thesis by (simp add: table_step_same)
next
  case True
  then obtain t where t: "map_of (sc_tasks (sy_sched s)) i = Some t" "t_status t = ASSIGNED" "t_worker_id t = w" by blast
  obtain p where p: "transitionTo (e_prepare_now e i) RUNNING t = (True, p)"
    using t by (cases "transitionTo (e_prepare_now e i) RUNNING t")
      (auto dest: transitionTo_E(1) simp: canTransitionTo_def)
  obtain r s1 where sv: "store_save e [p] None None None None s = (r, s1)" by fastforce
  note F = store_save_frame [OF sv] and P = transitionTo_E [OF p]
  have "table_step s s1" by (rule table_step_same) (simp add: F)
  moreover have "table_step s (put_sched (set_task i p (sy_sched s)) s1)"
    by (rule table_step_set [OF t(1) transitionTo_move [OF p]]) (use P in auto)
  ultimately show ?thesis
    using t p sv by (auto simp: markTaskStarted_def Let_def split: sum.split)
qed

lemma releaseRecoveryHold_tasks [simp]: "sc_tasks (releaseRecoveryHold w sc) = sc_tasks sc"
  by (simp add: releaseRecoveryHold_def)

lemma table_completeTask: "table_step s (snd (completeTask e i st j s))"
proof (cases "(\<exists>t. map_of (sc_tasks (sy_sched s)) i = Some t \<and> t_status t = RUNNING \<and> t_worker_id t \<noteq> [])
              \<and> isValidFinalStatus st")
  case False
  then have "completeTask e i st j s = (Inr False, s)" by (intro completeTask_refused) blast
  then show ?thesis by (simp add: table_step_same)
next
  case True
  then obtain t where t: "map_of (sc_tasks (sy_sched s)) i = Some t" "t_status t = RUNNING" "t_worker_id t \<noteq> []"
    and st: "isValidFinalStatus st" by auto
  obtain r s1 where sv: "store_save e [completed e i st j t] None None None None s = (r, s1)" by fastforce
  note F = store_save_frame [OF sv]
  have mv: "task_move t (completed e i st j t)"
    unfolding task_move_def same_request_def completed_def
    using t(2) st by (auto simp: task_setters transitionTo_status canTransitionTo_def isValidFinalStatus_def)
  have stat: "t_status (completed e i st j t) \<noteq> QUEUED"
    using t(2) st by (auto simp: completed_simps isValidFinalStatus_def)
  have "table_step s s1" by (rule table_step_same) (simp add: F)
  moreover have "table_step s s'" if "sc_tasks (sy_sched s') = AList.update i (completed e i st j t) (sc_tasks (sy_sched s))" for s'
    by (rule table_step_set [OF t(1) mv that]) (use stat in \<open>auto simp: completed_simps\<close>)
  ultimately show ?thesis
    unfolding completeTask_running [OF t st sv] by (auto simp: Let_def split: sum.split prod.split)
qed

lemma table_cancelTask: "table_step s (snd (cancelTask e i s))"
proof (cases "i \<notin> sc_dispatching (sy_sched s) \<and> (\<exists>t. map_of (sc_tasks (sy_sched s)) i = Some t \<and> waiting t)")
  case False
  then have "snd (cancelTask e i s) = s"
    by (auto simp: cancelTask_def waiting_def split: option.split TaskStatus.split)
  then show ?thesis by (simp add: table_step_same)
next
  case True
  then obtain t where t: "map_of (sc_tasks (sy_sched s)) i = Some t" "waiting t"
    and free: "i \<notin> sc_dispatching (sy_sched s)" by blast
  obtain r s1 where sv: "store_save e [snd (transitionTo (e_prepare_now e i) CANCELLED t)] None None None None s = (r, s1)"
    by fastforce
  note F = store_save_frame [OF sv]
  obtain c where c: "transitionTo (e_commit_now e i) CANCELLED t = (True, c)"
    using t(2) by (cases "transitionTo (e_commit_now e i) CANCELLED t")
      (auto dest: transitionTo_E(1) simp: canTransitionTo_def waiting_def)
  have run: "cancelTask e i s = cancel_waiting e i t s"
    using t free by (auto simp: cancelTask_def waiting_def)
  have "table_step s s1" by (rule table_step_same) (simp add: F)
  moreover have "table_step s (put_sched (set_task i c (sy_sched s)) s1)"
    by (rule table_step_set [OF t(1) transitionTo_move [OF c]]) (use free in auto)
  ultimately show ?thesis
    unfolding run by (auto simp: cancel_waiting_def Let_def sv c F split: sum.split)
qed

lemma rolled_back_move: "t_status t = ASSIGNED \<Longrightarrow> task_move t (rolled_back now sc t)"
  unfolding task_move_def same_request_def rolled_back_def
  by (auto simp: task_setters transitionTo_status canTransitionTo_def)

lemma table_rollback: "table_step s (snd (rollbackAssignment e i s))"
proof (cases "i \<in> sc_dispatching (sy_sched s)
    \<or> \<not> (\<exists>t. map_of (sc_tasks (sy_sched s)) i = Some t \<and> t_status t = ASSIGNED \<and> t_worker_id t \<noteq> [])")
  case True
  then show ?thesis by (simp add: rollback_refused table_step_same)
next
  case False
  then obtain t where t: "map_of (sc_tasks (sy_sched s)) i = Some t" "t_status t = ASSIGNED" "t_worker_id t \<noteq> []"
    and free: "i \<notin> sc_dispatching (sy_sched s)" by auto
  note R = rollback_assigned [OF t free]
  have go: "table_step s s'" if "sy_sched s' = rollback_sched i t (rolled_back now (sy_sched s) t) (sy_sched s)" for s' now
    by (rule table_step_set [OF t(1) rolled_back_move [OF t(2)]]) (use that free in \<open>auto simp: rollback_sched_def\<close>)
  obtain r s1 where sv: "store_save e [rolled_back (e_prepare_now e i) (sy_sched s) t] None
        (Some ''DISPATCH_FAILED'') None None s = (r, s1)" by fastforce
  note F = store_save_frame [OF sv]
  have "sy_sched (snd (rollbackAssignment e i s)) = sy_sched s
      \<or> (\<exists>now. sy_sched (snd (rollbackAssignment e i s)) = rollback_sched i t (rolled_back now (sy_sched s) t) (sy_sched s))"
    by (cases "sy_store s = None")
       (auto simp: R(1) R(2) [OF _ sv] F split: prod.split bool.split sum.split)
  then show ?thesis using go by (auto intro: table_step_same)
qed

lemma lost_prepared_move:
  assumes "active t"
  shows "task_move t (lost_prepared e sc m t)"
  using assms unfolding task_move_def same_request_def active_def
  by (auto simp: lost_prepared_def restore_def Let_def lost_retry_def)

lemma recoverLost_tasks:
  "sc_dispatching (sy_sched (snd (recoverLost e m i t s))) = sc_dispatching (sy_sched s)
   \<and> (sc_tasks (sy_sched (snd (recoverLost e m i t s))) = sc_tasks (sy_sched s)
      \<or> sc_tasks (sy_sched (snd (recoverLost e m i t s))) =
          AList.update i (lost_prepared e (sy_sched s) m t) (sc_tasks (sy_sched s)))"
proof (cases "sy_store s = None \<or> t_run_id t = []")
  case True
  then show ?thesis by (auto simp: recoverLost_def)
next
  case False
  obtain r s1 where sv: "store_save e [lost_prepared e (sy_sched s) m t] None (Some ''FAILED'') None
      (Some (t_worker_id t, lost_action (sy_sched s) m t)) s = (r, s1)" by fastforce
  show ?thesis
    using False store_save_frame [OF sv] by (auto simp: recoverLost_def Let_def sv split: sum.split)
qed

text \<open>The loop of an \<^verbatim>\<open>idle\<close> report moves each task at most once, and none in flight.\<close>

lemma table_recover_idle:
  assumes "sched_inv s" and "distinct is"
  shows "table_step s (snd (recover_idle e m w is s))
    \<and> (\<forall>j. j \<notin> set is \<longrightarrow> map_of (sc_tasks (sy_sched (snd (recover_idle e m w is s)))) j = map_of (sc_tasks (sy_sched s)) j)"
  using assms
proof (induction "is" arbitrary: s)
  case Nil
  then show ?case by (simp add: table_step_same)
next
  case (Cons i "is")
  note IH = Cons.IH [OF _ distinct.simps(2) [THEN iffD1, OF Cons.prems(2), THEN conjunct2]]
  show ?case
  proof (cases "map_of (sc_tasks (sy_sched s)) i")
    case None
    with IH [OF Cons.prems(1)] show ?thesis by auto
  next
    case (Some t)
    have id: "t_id t = i" using table_okD(2) [OF sched_invD(2) [OF Cons.prems(1)] Some] .
    show ?thesis
    proof (cases "t_worker_id t = w \<and> t_status t = ASSIGNED \<and> i \<notin> sc_dispatching (sy_sched s)")
      case False
      with Some id IH [OF Cons.prems(1)] show ?thesis by (auto simp: table_step_same)
    next
      case True
      obtain r s1 where r: "recoverLost e m i t s = (r, s1)" by fastforce
      have s1: "sched_inv s1"
        using inv_recoverLost [OF Cons.prems(1) Some, of e m] True r by (auto simp: active_def)
      have disp: "sc_dispatching (sy_sched s1) = sc_dispatching (sy_sched s)"
        and tasks: "sc_tasks (sy_sched s1) = sc_tasks (sy_sched s)
          \<or> sc_tasks (sy_sched s1) = AList.update i (lost_prepared e (sy_sched s) m t) (sc_tasks (sy_sched s))"
        using recoverLost_tasks [of e m i t s] r by auto
      have one: "table_step s s1"
        using tasks
      proof
        assume up: "sc_tasks (sy_sched s1) = AList.update i (lost_prepared e (sy_sched s) m t) (sc_tasks (sy_sched s))"
        show ?thesis
          by (rule table_step_set [OF Some lost_prepared_move up]) (use True in \<open>auto simp: active_def\<close>)
      qed (rule table_step_same)
      have other: "map_of (sc_tasks (sy_sched s1)) j = map_of (sc_tasks (sy_sched s)) j" if "j \<noteq> i" for j
        using tasks that by auto
      let ?s' = "snd (recover_idle e m w is s1)"
      have rest: "table_step s1 ?s'"
        "\<And>j. j \<notin> set is \<Longrightarrow> map_of (sc_tasks (sy_sched ?s')) j = map_of (sc_tasks (sy_sched s1)) j"
        using IH [OF s1] by auto
      have "table_step s ?s'"
        unfolding table_step_def
      proof
        fix j
        show "entry_step (j \<in> sc_dispatching (sy_sched s)) (map_of (sc_tasks (sy_sched s)) j) (map_of (sc_tasks (sy_sched ?s')) j)"
        proof (cases "j = i")
          case True
          then have "map_of (sc_tasks (sy_sched ?s')) j = map_of (sc_tasks (sy_sched s1)) j"
            using rest(2) [of j] Cons.prems(2) by auto
          then show ?thesis using one by (simp add: table_step_def)
        next
          case False
          have "entry_step (j \<in> sc_dispatching (sy_sched s)) (map_of (sc_tasks (sy_sched s1)) j)
              (map_of (sc_tasks (sy_sched ?s')) j)" using rest(1) disp by (simp add: table_step_def)
          with other [OF False] show ?thesis by simp
        qed
      qed
      moreover have "map_of (sc_tasks (sy_sched ?s')) j = map_of (sc_tasks (sy_sched s)) j" if "j \<notin> set (i # is)" for j
        using rest(2) [of j] other [of j] that by auto
      moreover have "recover_idle e m w (i # is) s = (case r of Inl x \<Rightarrow> (Inl x, s1) | Inr _ \<Rightarrow> recover_idle e m w is s1)"
        using True Some id r by (simp split: sum.split)
      ultimately show ?thesis using one other by (auto split: sum.split)
    qed
  qed
qed

lemma table_step_cong:
  "sc_tasks (sy_sched s2) = sc_tasks (sy_sched s') \<Longrightarrow> table_step s s' \<Longrightarrow> table_step s s2"
  by (simp add: table_step_def)

lemma table_recoverWorker:
  assumes inv: "sched_inv s"
  shows "table_step s (snd (recoverWorker e w state i run_id m s))"
proof -
  obtain r s1 where R: "recover_idle e m w (map fst (sc_tasks (sy_sched s))) s = (r, s1)" by fastforce
  have s1: "table_step s s1"
    using table_recover_idle [OF inv table_okD(1) [OF sched_invD(2) [OF inv]], of e m w] R by simp
  have same: "table_step s s" by (simp add: table_step_same)
  consider "m < 0 \<or> 100 < m" | "\<not> (m < 0 \<or> 100 < m)" "state = ''idle''"
    | "\<not> (m < 0 \<or> 100 < m)" "state \<noteq> ''idle''" by blast
  then show ?thesis
  proof cases
    case 1
    then show ?thesis by (simp add: recoverWorker_def table_step_same)
  next
    case 2
    have "table_step s (put_sched ((releaseRecoveryHold w (sy_sched s1))\<lparr>sc_reconciling := Q\<rparr>) s1)" for Q
      by (rule table_step_cong [OF _ s1]) simp
    with 2 s1 show ?thesis
      by (simp add: recoverWorker_def R Let_def split: sum.split option.split)
  next
    case 3
    define prior where "prior = (if state = ''lost''
      then (case sy_store s of None \<Rightarrow> Inr None | Some db \<Rightarrow> recoveryDecision run_id i w db) else Inr None)"
    show ?thesis
    proof (cases "prior = Inr None \<and> map_of (sc_tasks (sy_sched s)) i \<noteq> None")
      case False
      with 3 same show ?thesis
        unfolding recoverWorker_def Let_def prior_def [symmetric]
        by (auto split: sum.split option.split)
    next
      case True
      then obtain t where t: "map_of (sc_tasks (sy_sched s)) i = Some t" and pr: "prior = Inr None" by blast
      obtain q s2 where q: "recoverLost e m i t (holdWorker w s) = (q, s2)" by fastforce
      have h: "sc_tasks (sy_sched (holdWorker w s)) = sc_tasks (sy_sched s)" by (simp add: holdWorker_def)
      have "table_step s s2" if "t_status t = ASSIGNED \<or> t_status t = RUNNING" "i \<notin> sc_dispatching (sy_sched s)"
        using recoverLost_tasks [of e m i t "holdWorker w s"] that
          table_step_set [OF t lost_prepared_move, of s2 e "sy_sched (holdWorker w s)" m]
        by (auto simp: q h active_def intro: table_step_same)
      moreover have "table_step s (put_sched ((sy_sched s)\<lparr>sc_reconciling := Q\<rparr>) s)" for Q
        by (rule table_step_same) simp
      ultimately show ?thesis
        using 3 same unfolding recoverWorker_def Let_def prior_def [symmetric]
        by (simp add: t pr q split: sum.split)
    qed
  qed
qed

lemma table_evict:
  assumes "distinct (map fst (sc_tasks sc))"
  shows "entry_step (i \<in> sc_dispatching sc) (map_of (sc_tasks sc) i) (map_of (sc_tasks (evict sc)) i)"
proof (cases "map_of (sc_tasks sc) i")
  case None
  then have "map_of (sc_tasks (evict sc)) i = None"
    using evict_lookup(1) [OF assms, of i] by (cases "map_of (sc_tasks (evict sc)) i") auto
  with None show ?thesis by simp
next
  case (Some t)
  show ?thesis
  proof (cases "map_of (sc_tasks (evict sc)) i")
    case None
    then have "evictable sc i t" using evict_lookup(2) [OF assms Some] by auto
    then show ?thesis using Some None by (auto simp: entry_step_def evictable_def terminal_def)
  next
    case (Some t')
    then show ?thesis
      using evict_lookup(1) [OF assms Some] \<open>map_of (sc_tasks sc) i = Some t\<close> by simp
  qed
qed

lemma table_submitTask:
  assumes inv: "sched_inv s"
  shows "table_step s (snd (submitTask e task key request s))"
proof -
  define i where "i = t_id task"
  define sc where "sc = (case sy_store s of None \<Rightarrow> sy_sched s | Some _ \<Rightarrow> evict (sy_sched s))"
  have d: "distinct (map fst (sc_tasks (sy_sched s)))" by (rule table_okD(1) [OF sched_invD(2) [OF inv]])
  have sc: "entry_step (j \<in> sc_dispatching (sy_sched s)) (map_of (sc_tasks (sy_sched s)) j) (map_of (sc_tasks sc) j)" for j
    using table_evict [OF d] by (simp add: sc_def split: option.split)
  have plain: "table_step s s'" if "sc_tasks (sy_sched s') = sc_tasks sc" for s'
    using sc that by (simp add: table_step_def)
  have same: "table_step s s" by (simp add: table_step_same)
  have new: "table_step s s'"
    if fresh: "\<not> al_contains (sc_tasks sc) i" and "t_status t2 = QUEUED"
      and "sc_tasks (sy_sched s') = AList.update i t2 (sc_tasks sc)"
      and gone: "map_of (sc_tasks (sy_sched s)) i = None" for s' t2
    using sc that by (auto simp: table_step_def entry_step_def)
  have gone: "map_of (sc_tasks (sy_sched s)) i = None"
    if "(case sy_store s of None \<Rightarrow> Inr [] | Some db \<Rightarrow> loadTasks (e_codec e) i False [] db) = Inr []"
      and "\<not> al_contains (sc_tasks sc) i" and "i \<noteq> 0"
  proof (cases "sy_store s")
    case None
    with that(2) show ?thesis by (simp add: sc_def map_of_eq_None_iff)
  next
    case (Some db)
    with that have "i \<notin> known_ids db" using loadTasks_known(1) [OF sched_invD(4) [OF inv] Some] by simp
    then show ?thesis
      using known_of_table [OF sched_invD(4) [OF inv] Some, of i] by (cases "map_of (sc_tasks (sy_sched s)) i") auto
  qed
  have sub: "table_step s (snd (submit_new e task key request s))" if "i \<noteq> 0"
  proof -
    define known where "known = (case sy_store s of None \<Rightarrow> Inr [] | Some db \<Rightarrow> loadTasks (e_codec e) i False [] db)"
    obtain b t1 where t1: "transitionTo (e_prepare_now e i) QUEUED task = (b, t1)" by fastforce
    obtain r s2 where sv: "store_save e [setQueueSequence (sc_next_sequence sc) t1] None None
        (if key = [] then None else Some (key, request)) None (put_sched sc s) = (r, s2)" by fastforce
    note F = store_save_frame [OF sv]
    have q: "t_status (setQueueSequence (sc_next_sequence sc) t1) = QUEUED" if b
      using transitionTo_E(2) [OF t1 that] by (simp add: setQueueSequence_def)
    show ?thesis
    proof (cases "known = Inr [] \<and> \<not> al_contains (sc_tasks sc) i \<and> b")
      case False
      then have "snd (submit_new e task key request s) \<in> {s, put_sched sc s}"
        unfolding submit_new_def Let_def i_def [symmetric] known_def [symmetric] sc_def [symmetric] t1
        by (cases known) auto
      then show ?thesis using same plain [of "put_sched sc s"] by auto
    next
      case True
      then have "snd (submit_new e task key request s) =
        (case r of Inl _ \<Rightarrow> s2 | Inr _ \<Rightarrow> put_sched (enqueue i (t_priority task)
           (set_task i (setQueueSequence (sc_next_sequence sc) t1) sc)) s2)"
        unfolding submit_new_def Let_def i_def [symmetric] known_def [symmetric] sc_def [symmetric] t1
        using sv by (simp split: sum.split)
      then show ?thesis
        using True q new [OF _ q _ gone [folded known_def]] plain [of s2] F that
        by (auto split: sum.splits)
    qed
  qed
  show ?thesis
    using same sub unfolding submitTask_def Let_def i_def [symmetric] by (auto split: option.split)
qed

lemma prepare_assignment_move: "t_status t = QUEUED \<Longrightarrow> task_move t (prepare_assignment e stored w t)"
  unfolding task_move_def same_request_def
  by (simp add: prepare_assignment_simps) (simp add: prepare_assignment_def Let_def restore_def task_setters)

lemma table_schedule:
  assumes inv: "sched_inv s"
  shows "table_step s (snd (schedule e s))"
proof -
  obtain changes pending wm after where loop:
    "schedule_loop e (sy_store s \<noteq> None) (sy_sched s) (sc_queue (sy_sched s)) (sy_wm s)
       (sc_last_selected (sy_sched s)) = (changes, pending, wm, after)" by (metis prod_cases4)
  obtain r s2 where sv: "(if changes = [] then (Inr (), put_wm wm s)
      else store_save e (map snd changes) None None None None (put_wm wm s)) = (r, s2)" by fastforce
  note F = pass_frame [OF sv] and L = schedule_loop_spec [OF loop sched_invD(1) [OF inv]]
  have dist: "distinct (map (\<lambda>c. a_task_id (fst c)) changes)"
    using L queued_ids_distinct [OF sched_invD(3) [OF inv]] by auto
  have go: "table_step s s'" if tasks: "sc_tasks (sy_sched s') = commit_changes changes (sc_tasks (sy_sched s))" for s'
    unfolding table_step_def
  proof
    fix i
    show "entry_step (i \<in> sc_dispatching (sy_sched s)) (map_of (sc_tasks (sy_sched s)) i) (map_of (sc_tasks (sy_sched s')) i)"
    proof (cases "\<exists>c \<in> set changes. i = a_task_id (fst c)")
      case False
      then have "i \<notin> (\<lambda>c. a_task_id (fst c)) ` set changes" by blast
      from commit_changes_other [OF this] show ?thesis by (simp add: tasks)
    next
      case True
      then obtain c t where c: "c \<in> set changes" "i = a_task_id (fst c)"
        and t: "map_of (sc_tasks (sy_sched s)) i = Some t" "t_status t = QUEUED"
          "snd c = prepare_assignment e (sy_store s \<noteq> None) (a_worker_id (fst c)) t"
        using L unfolding change_ok_def by blast
      have "i \<notin> sc_dispatching (sy_sched s)"
        using sched_invD(7) [OF inv] t by (auto simp: dispatch_ok_def)
      then show ?thesis
        using commit_changes_this [OF dist c(1)] c(2) t prepare_assignment_move [OF t(2)]
        by (simp add: tasks entry_step_def)
    qed
  qed
  have "sc_tasks (sy_sched (snd (schedule e s))) = sc_tasks (sy_sched s)
      \<or> sc_tasks (sy_sched (snd (schedule e s))) = commit_changes changes (sc_tasks (sy_sched s))"
    unfolding schedule_run [OF loop sv] using F by (auto split: sum.split)
  then show ?thesis using go by (auto intro: table_step_same)
qed

lemma cancel_entry_move:
  "cancel_entry e b i t = t \<or> task_move t (cancel_entry e b i t)
     \<and> t_worker_id (cancel_entry e b i t) = t_worker_id t \<and> t_status (cancel_entry e b i t) \<noteq> QUEUED"
proof (cases "batchId t = Some b \<and> waiting t")
  case True
  then have "transitionTo (e_commit_now e i) CANCELLED t = (True, cancel_entry e b i t)"
    by (auto simp: cancel_entry_def prod_eq_iff canTransitionTo_def waiting_def)
  from transitionTo_move [OF this] show ?thesis using True by (simp add: cancel_entry_status)
qed (auto simp: cancel_entry_def)

lemma table_cancelBatch: "table_step s (snd (cancelBatch e b s))"
proof -
  define rows where "rows = (case sy_store s of None \<Rightarrow> Inr [] | Some db \<Rightarrow> loadTasks (e_codec e) 0 False b db)"
  define changed where "changed = map (\<lambda>t. snd (transitionTo (e_prepare_now e (t_id t)) CANCELLED t))
     (filter waiting (batch_tasks b (sy_sched s)))"
  obtain r s1 where sv: "store_save e changed (Some b) None None None s = (r, s1)" by fastforce
  note F = store_save_frame [OF sv]
  have go: "table_step s s'" if "sc_tasks (sy_sched s') = cancel_all e b (sc_tasks (sy_sched s))" for s'
    using cancel_entry_move by (auto simp: table_step_def that cancel_all_lookup entry_step_def split: option.split)
  have "sc_tasks (sy_sched (snd (cancelBatch e b s))) = sc_tasks (sy_sched s)
      \<or> sc_tasks (sy_sched (snd (cancelBatch e b s))) = cancel_all e b (sc_tasks (sy_sched s))"
    unfolding cancelBatch_def Let_def rows_def [symmetric] changed_def [symmetric] cancel_all_def [symmetric]
    by (cases rows; cases r; simp add: sv F split: option.split sum.split)
  then show ?thesis using go by (auto intro: table_step_same)
qed

lemma sys_step_table: "sys_step s s' \<Longrightarrow> sched_inv s \<Longrightarrow> table_step s s'"
proof (induction rule: sys_step.induct)
  case (step_claim s a)
  have "sc_tasks (sy_sched (snd (dispatch_claim a s))) = sc_tasks (sy_sched s)"
    by (simp add: dispatch_claim_def Let_def split: option.split)
  then show ?case by (rule table_step_same)
next
  case (step_control s jc machine target action operation scope)
  show ?case by (rule table_step_same) (simp add: run_wm_def split: prod.split)
next
  case (step_management s jc w ack)
  show ?case by (rule table_step_same) (simp add: run_wm_def split: prod.split)
qed (simp_all add: table_submitTask table_schedule table_markTaskStarted table_completeTask table_cancelTask
      table_cancelBatch table_rollback table_recoverWorker table_step_same dispatch_finish_def holdWorker_def)

section \<open>Stopped batches\<close>

text \<open>The batches with a stop request; only \<open>cancelBatch\<close> and a restart add to them.\<close>

abbreviation stops :: "sys \<Rightarrow> string set" where
  "stops s \<equiv> sc_stopped_batches (sy_sched s)"

lemma stops_store_save: "store_save e ts sb ov su re s = (r, s1) \<Longrightarrow> stops s1 = stops s"
  using store_save_frame(2) by simp

lemma stops_submit_new: "stops (snd (submit_new e task key request s)) = stops s"
  by (auto simp: submit_new_def Let_def evict_def enqueue_def set_task_def
      split: option.splits sum.splits prod.splits bool.splits dest!: stops_store_save)

lemma stops_submitTask: "stops (snd (submitTask e task key request s)) = stops s"
  by (simp add: submitTask_def Let_def stops_submit_new split: option.split)

lemma stops_schedule: "stops (snd (schedule e s)) = stops s"
proof -
  obtain changes pending wm after where loop:
    "schedule_loop e (sy_store s \<noteq> None) (sy_sched s) (sc_queue (sy_sched s)) (sy_wm s)
       (sc_last_selected (sy_sched s)) = (changes, pending, wm, after)" by (metis prod_cases4)
  obtain r s2 where sv: "(if changes = [] then (Inr (), put_wm wm s)
      else store_save e (map snd changes) None None None None (put_wm wm s)) = (r, s2)" by fastforce
  show ?thesis unfolding schedule_run [OF loop sv] using pass_frame [OF sv] by (auto split: sum.split)
qed

lemma stops_markTaskStarted: "stops (snd (markTaskStarted e i w s)) = stops s"
  by (auto simp: markTaskStarted_def Let_def set_task_def
      split: option.splits sum.splits prod.splits bool.splits dest!: stops_store_save)

lemma stops_completeTask: "stops (snd (completeTask e i st j s)) = stops s"
  by (auto simp: completeTask_def Let_def set_task_def releaseRecoveryHold_def
      split: option.splits sum.splits prod.splits bool.splits dest!: stops_store_save)

lemma stops_cancelTask: "stops (snd (cancelTask e i s)) = stops s"
  by (auto simp: cancelTask_def cancel_waiting_def Let_def set_task_def
      split: option.splits sum.splits prod.splits bool.splits TaskStatus.splits dest!: stops_store_save)

lemma stops_rollback: "stops (snd (rollbackAssignment e i s)) = stops s"
proof (cases "sy_store s")
  case None
  then show ?thesis
    by (simp add: rollbackAssignment_def Let_def enqueue_def set_task_def split: option.split prod.split bool.split)
next
  case (Some db)
  then show ?thesis
    by (auto simp: rollbackAssignment_def Let_def enqueue_def set_task_def
        split: option.splits prod.splits bool.splits sum.splits dest!: stops_store_save)
qed

lemma stops_recoverLost: "stops (snd (recoverLost e m i t s)) = stops s"
  by (auto simp: recoverLost_def Let_def enqueue_def set_task_def
      split: prod.splits sum.splits dest!: stops_store_save)

lemma stops_recover_idle: "stops (snd (recover_idle e m w is s)) = stops s"
proof (induction "is" arbitrary: s)
  case (Cons i "is")
  have "stops s1 = stops s" if "recoverLost e m i t s = (r, s1)" for t r s1
    using stops_recoverLost [of e m i t s] that by simp
  with Cons show ?case by (auto split: option.split sum.split prod.split)
qed simp

lemma stops_recoverWorker: "stops (snd (recoverWorker e w state i run_id m s)) = stops s"
proof (cases "state = ''idle''")
  case True
  obtain r s1 where R: "recover_idle e m w (map fst (sc_tasks (sy_sched s))) s = (r, s1)" by fastforce
  with stops_recover_idle [of e m w "map fst (sc_tasks (sy_sched s))" s] have "stops s1 = stops s" by simp
  with True R show ?thesis
    by (simp add: recoverWorker_def Let_def releaseRecoveryHold_def split: sum.split option.split)
next
  case False
  have "stops s1 = stops s" if "recoverLost e m i t (holdWorker w s) = (r, s1)" for t r s1
    using stops_recoverLost [of e m i t "holdWorker w s"] that by (simp add: holdWorker_def)
  with False show ?thesis
    by (auto simp: recoverWorker_def Let_def split: sum.split option.split prod.split)
qed

lemma stops_cancelBatch: "stops s \<subseteq> stops (snd (cancelBatch e b s))"
proof -
  define rows where "rows = (case sy_store s of None \<Rightarrow> Inr [] | Some db \<Rightarrow> loadTasks (e_codec e) 0 False b db)"
  define changed where "changed = map (\<lambda>t. snd (transitionTo (e_prepare_now e (t_id t)) CANCELLED t))
     (filter waiting (batch_tasks b (sy_sched s)))"
  obtain r s1 where sv: "store_save e changed (Some b) None None None s = (r, s1)" by fastforce
  note F = store_save_frame [OF sv]
  have "stops (snd (cancelBatch e b s)) \<in> {stops s, insert b (stops s)}"
    unfolding cancelBatch_def Let_def rows_def [symmetric] changed_def [symmetric]
    by (cases rows; cases r; simp add: sv F split: option.split sum.split)
  then show ?thesis by auto
qed

lemma stopped_batches_grow: "sys_step s s' \<Longrightarrow> stops s \<subseteq> stops s'"
proof (induction rule: sys_step.induct)
  case (step_claim s a)
  show ?case by (simp add: dispatch_claim_def Let_def split: option.split)
next
  case (step_stop s e b)
  show ?case by (rule stops_cancelBatch)
qed (simp_all add: stops_submitTask stops_schedule stops_markTaskStarted stops_completeTask stops_cancelTask
      stops_rollback stops_recoverWorker dispatch_finish_def holdWorker_def run_wm_def split: prod.split)

section \<open>Rollback of an assignment of this process\<close>

text \<open>
  An assignment that holds a slot of this process and is not in flight: the rollback either
  throws from its durable write and changes nothing in memory, or publishes the rolled back task
  and gives the slot back.
\<close>

lemma rollback_own:
  assumes inv: "sched_inv s" and t: "map_of (sc_tasks (sy_sched s)) i = Some t" "t_status t = ASSIGNED"
    and nr: "\<not> t_recovery_required t" and free: "i \<notin> sc_dispatching (sy_sched s)"
    and run: "rollbackAssignment e i s = (r, s')"
  obtains x where "r = Inl x" "sy_sched s' = sy_sched s" "sy_wm s' = sy_wm s"
  | now where "r = Inr True" "sy_sched s' = rollback_sched i t (rolled_back now (sy_sched s) t) (sy_sched s)"
      "sy_wm s' = snd (releaseSlot (t_worker_id t) (sy_wm s))"
proof -
  have act: "active t" using t(2) by (simp add: active_def)
  have w: "t_worker_id t \<noteq> []"
    using table_okD(4) [OF sched_invD(2) [OF inv] t(1)] act by (simp add: task_ok_def)
  have "occupies (t_worker_id t) t" using nr act by (simp add: occupies_def)
  moreover have "(i, t) \<in> set (sc_tasks (sy_sched s))" by (rule map_of_SomeD [OF t(1)])
  ultimately have "used (sy_wm s) (t_worker_id t) \<noteq> 0"
    using sched_invD(8) [OF inv] by (auto simp: slots_match_def count_vals_def filter_empty_conv)
  then have rel: "releaseSlot (t_worker_id t) (sy_wm s) = (True, snd (releaseSlot (t_worker_id t) (sy_wm s)))"
    using slots.release_granted by (simp add: prod_eq_iff)
  note R = rollback_assigned [OF t w free]
  show thesis
  proof (cases "sy_store s = None")
    case True
    from run have "r = Inr True" "s' = put_sched (rollback_sched i t (rolled_back (e_commit_now e i) (sy_sched s) t) (sy_sched s))
        (put_wm (snd (releaseSlot (t_worker_id t) (sy_wm s))) s)"
      unfolding R(1) [OF True] by (subst (asm) rel, simp)+
    then show ?thesis by (intro that(2)) simp_all
  next
    case False
    obtain r1 s1 where sv: "store_save e [rolled_back (e_prepare_now e i) (sy_sched s) t] None
        (Some ''DISPATCH_FAILED'') None None s = (r1, s1)" by fastforce
    note F = store_save_frame [OF sv]
    note eq = R(2) [OF False sv, unfolded F]
    show ?thesis
    proof (cases r1)
      case (Inl x)
      with run eq have "r = Inl x" "s' = s1" by simp_all
      with F show ?thesis by (intro that(1)) simp_all
    next
      case (Inr u)
      from run have "r = Inr True" "s' = put_sched (rollback_sched i t (rolled_back (e_prepare_now e i) (sy_sched s) t) (sy_sched s))
          (put_wm (snd (releaseSlot (t_worker_id t) (sy_wm s))) s1)"
        unfolding eq Inr sum.case by (subst (asm) rel, simp)+
      then show ?thesis by (intro that(2)) simp_all
    qed
  qed
qed

end
