(* ===== verification/Demo.thy ===== *)
theory Demo
  imports System
begin

text \<open>
  A small concrete run used by the witnesses: two workers register, three tasks of different
  priority are submitted, a pass assigns two of them. The same run exists with a store, on a
  small codec that knows the one payload used.
\<close>

definition demo_codec :: json_codec where
  "demo_codec =
     \<lparr>jdump = (\<lambda>j. case j of
          JObject [] \<Rightarrow> Some ''{}''
        | JObject [(k, JString v)] \<Rightarrow> (if k = ''reason'' \<and> v = ''worker_lost'' then Some ''{lost}'' else None)
        | _ \<Rightarrow> None),
      jparse = (\<lambda>s. if s = ''{}'' then Some (JObject [])
                    else if s = ''{lost}'' then Some (JObject [(''reason'', JString ''worker_lost'')]) else None)\<rparr>"

definition demo_env :: env where
  "demo_env = \<lparr>e_codec = demo_codec, e_prepare_now = (\<lambda>_. 5000000), e_save_now = 6000000,
     e_commit_now = (\<lambda>_. 7000000), e_random = (\<lambda>_. (1, 2, 3, 4))\<rparr>"

definition demo_task :: "TaskId \<Rightarrow> int \<Rightarrow> Task" where
  "demo_task i p = setPriority p (new_task i REGRESSION ''t'' ''r'' 1000000)"

definition demo_wm0 :: WorkerManager where
  "demo_wm0 = \<lparr>wm_workers = [], wm_generation = 0,
     wm_controls = JObject [(''machines'', JObject []), (''requests'', JObject []), (''workers'', JObject [])]\<rparr>"

definition demo_db :: StateStore where
  "demo_db = \<lparr>s_tasks = [], s_batches = [], s_runs = [], s_submissions = [], s_decisions = [],
     s_controls = None, s_faults = (\<lambda>_. False), s_writes = 0\<rparr>"

definition demo_register :: "sys \<Rightarrow> sys" where
  "demo_register s =
     put_wm (snd (registerWorker 0 ''w2'' ''host'' 1 [] []
       (snd (registerWorker 0 ''w1'' ''host'' 1 [] [] (sy_wm s))))) s"

definition demo_submit :: "sys \<Rightarrow> sys" where
  "demo_submit s =
     snd (submitTask demo_env (demo_task 3 0) [] []
       (snd (submitTask demo_env (demo_task 2 5) [] []
         (snd (submitTask demo_env (demo_task 1 0) [] [] s)))))"

definition demo_queued :: sys where
  "demo_queued = demo_submit (demo_register (boot demo_wm0))"

definition demo_assigned :: sys where
  "demo_assigned = snd (schedule demo_env demo_queued)"

definition demo_disk :: sys where
  "demo_disk = demo_submit (demo_register (snd (restoreFrom demo_env demo_db (boot demo_wm0))))"


lemma put_wm_put_wm: "put_wm wm' (put_wm wm s) = put_wm wm' s"
  by (simp add: put_wm_def)

lemma reachable_register: "reachable s \<Longrightarrow> reachable (demo_register s)"
proof -
  assume "reachable s"
  let ?s1 = "put_wm (snd (registerWorker 0 ''w1'' ''host'' 1 [] [] (sy_wm s))) s"
  have 1: "reachable ?s1" by (rule reach_step [OF \<open>reachable s\<close> step_register])
  have "reachable (put_wm (snd (registerWorker 0 ''w2'' ''host'' 1 [] [] (sy_wm ?s1))) ?s1)"
    by (rule reach_step [OF 1 step_register])
  then show ?thesis by (simp add: demo_register_def put_wm_put_wm)
qed

lemma submittable_demo: "- 100 \<le> p \<Longrightarrow> p \<le> 100 \<Longrightarrow> submittable (demo_task i p)"
  by (simp add: submittable_def demo_task_def setPriority_def new_task_def)

lemma reachable_submit:
  assumes "reachable s" and "sc_next_sequence (sy_sched s) < 2 ^ 63" and "- 100 \<le> p" "p \<le> 100"
  shows "reachable (snd (submitTask demo_env (demo_task i p) key request s))"
  by (rule reach_step [OF assms(1) step_submit]) (use assms in \<open>auto intro: submittable_demo\<close>)

lemma demo_boot: "reachable (boot demo_wm0)"
  by (rule reach_boot) (simp add: demo_wm0_def)

lemma demo_restorable: "restorable demo_env demo_db"
  by (simp add: restorable_def store_ok_def demo_db_def highWaterMarks_def loadTasks_def)

lemma demo_restore: "reachable (snd (restoreFrom demo_env demo_db (boot demo_wm0)))"
  by (rule reach_restore [OF _ demo_restorable]) (simp add: demo_wm0_def)

text \<open>Room in the sequence counter along the two runs.\<close>

lemma demo_room:
  "sc_next_sequence (sy_sched (demo_register (boot demo_wm0))) < 2 ^ 63"
  "sc_next_sequence (sy_sched (snd (submitTask demo_env (demo_task 1 0) [] [] (demo_register (boot demo_wm0))))) < 2 ^ 63"
  "sc_next_sequence (sy_sched (snd (submitTask demo_env (demo_task 2 5) [] []
     (snd (submitTask demo_env (demo_task 1 0) [] [] (demo_register (boot demo_wm0))))))) < 2 ^ 63"
  by code_simp+

lemma demo_disk_room:
  "sc_next_sequence (sy_sched (demo_register (snd (restoreFrom demo_env demo_db (boot demo_wm0))))) < 2 ^ 63"
  "sc_next_sequence (sy_sched (snd (submitTask demo_env (demo_task 1 0) [] []
     (demo_register (snd (restoreFrom demo_env demo_db (boot demo_wm0))))))) < 2 ^ 63"
  "sc_next_sequence (sy_sched (snd (submitTask demo_env (demo_task 2 5) [] []
     (snd (submitTask demo_env (demo_task 1 0) [] []
       (demo_register (snd (restoreFrom demo_env demo_db (boot demo_wm0))))))))) < 2 ^ 63"
  by code_simp+

lemma reachable_demo_queued: "reachable demo_queued"
  unfolding demo_queued_def demo_submit_def
  by (intro reachable_submit reachable_register demo_boot demo_room) simp_all

lemma reachable_demo_disk: "reachable demo_disk"
  unfolding demo_disk_def demo_submit_def
  by (intro reachable_submit reachable_register demo_restore demo_disk_room) simp_all

lemma reachable_demo_assigned: "reachable demo_assigned"
  unfolding demo_assigned_def by (rule reach_step [OF reachable_demo_queued step_schedule])

text \<open>The same queue with the first worker held for reconciliation.\<close>

definition demo_held :: sys where
  "demo_held = holdWorker ''w1'' demo_queued"

lemma reachable_demo_held: "reachable demo_held"
  unfolding demo_held_def by (rule reach_step [OF reachable_demo_queued step_hold])

text \<open>The run on a disk that refuses the fourth write transaction.\<close>

definition demo_broken :: sys where
  "demo_broken = demo_submit (demo_register (snd (restoreFrom demo_env
     (demo_db\<lparr>s_faults := (\<lambda>n. n = 3)\<rparr>) (boot demo_wm0))))"

lemma broken_restorable: "restorable demo_env (demo_db\<lparr>s_faults := (\<lambda>n. n = 3)\<rparr>)"
  by (simp add: restorable_def store_ok_def demo_db_def highWaterMarks_def loadTasks_def)

lemma broken_restore: "reachable (snd (restoreFrom demo_env (demo_db\<lparr>s_faults := (\<lambda>n. n = 3)\<rparr>) (boot demo_wm0)))"
  by (rule reach_restore [OF _ broken_restorable]) (simp add: demo_wm0_def)

lemma broken_room:
  "sc_next_sequence (sy_sched (demo_register (snd (restoreFrom demo_env (demo_db\<lparr>s_faults := (\<lambda>n. n = 3)\<rparr>) (boot demo_wm0))))) < 2 ^ 63"
  "sc_next_sequence (sy_sched (snd (submitTask demo_env (demo_task 1 0) [] []
     (demo_register (snd (restoreFrom demo_env (demo_db\<lparr>s_faults := (\<lambda>n. n = 3)\<rparr>) (boot demo_wm0))))))) < 2 ^ 63"
  "sc_next_sequence (sy_sched (snd (submitTask demo_env (demo_task 2 5) [] []
     (snd (submitTask demo_env (demo_task 1 0) [] []
       (demo_register (snd (restoreFrom demo_env (demo_db\<lparr>s_faults := (\<lambda>n. n = 3)\<rparr>) (boot demo_wm0))))))))) < 2 ^ 63"
  by code_simp+

lemma reachable_demo_broken: "reachable demo_broken"
  unfolding demo_broken_def demo_submit_def
  by (intro reachable_submit reachable_register broken_restore broken_room) simp_all

text \<open>
  The store after a pass, opened and restored by a new process: the assigned tasks need recovery.
\<close>

definition demo_crashed :: StateStore where
  "demo_crashed = the (sy_store (snd (schedule demo_env demo_disk)))"

definition demo_reopened :: StateStore where
  "demo_reopened = (case open_store ''db'' 5000 True 3 True demo_crashed of Inr db \<Rightarrow> db | Inl _ \<Rightarrow> demo_crashed)"

definition demo_restarted :: sys where
  "demo_restarted = snd (restoreFrom demo_env demo_reopened (boot demo_wm0))"

lemma reopened_restorable: "restorable demo_env demo_reopened"
  by code_simp

lemma reachable_demo_restarted: "reachable demo_restarted"
  unfolding demo_restarted_def by (rule reach_restore [OF _ reopened_restorable]) (simp add: demo_wm0_def)

text \<open>A task of a batch is submitted, then the batch is stopped.\<close>

definition demo_batched :: Task where
  "demo_batched = setPayload (JObject [(''context'', JObject [(''batch_id'', JString ''b'')])]) (demo_task 7 0)"

definition demo_stopped :: sys where
  "demo_stopped = snd (cancelBatch demo_env ''b'' (snd (submitTask demo_env demo_batched [] [] (boot demo_wm0))))"

lemma reachable_demo_stopped: "reachable demo_stopped"
proof -
  have "submittable demo_batched" by code_simp
  moreover have "sc_next_sequence (sy_sched (boot demo_wm0)) < 2 ^ 63" by code_simp
  ultimately have "reachable (snd (submitTask demo_env demo_batched [] [] (boot demo_wm0)))"
    by (intro reach_step [OF demo_boot step_submit])
  then show ?thesis unfolding demo_stopped_def by (rule reach_step [OF _ step_stop])
qed

text \<open>The first assigned task has started on its worker.\<close>

definition demo_running :: sys where
  "demo_running = snd (markTaskStarted demo_env 2 ''w1'' demo_assigned)"

lemma reachable_demo_running: "reachable demo_running"
  unfolding demo_running_def by (rule reach_step [OF reachable_demo_assigned step_start])

end
