(* ===== verification/Guarantees.thy ===== *)
theory Guarantees
  imports TaskHistory Demo
begin

text \<open>
  The guarantees of the scheduler that span its operations, over every reachable state: slot
  accounting, no lost and no doubled queue entry, order and work conservation of a pass, legality
  of assignments, exception safety, quarantine, batch stop, task histories, idempotent submission
  and what completion and rollback return.
\<close>

section \<open>More about a pass\<close>

text \<open>A pass stops before the end of the queue only when no selectable worker is available.\<close>

lemma schedule_loop_stuck:
  "schedule_loop e stored sc qs wm after = (changes, rest, wm', after') \<Longrightarrow> wm_ok wm \<Longrightarrow> rest \<noteq> [] \<Longrightarrow>
   \<forall>w \<in> set (getAvailableWorkers wm'). \<not> selectable sc w"
proof (induction e stored sc qs wm after arbitrary: changes rest wm' after' rule: schedule_loop.induct)
  case (1 e stored sc wm after)
  then show ?case by simp
next
  case (2 e stored sc q qs wm after)
  show ?case
  proof (cases "entry_queued sc q")
    case False
    then have run: "schedule_loop e stored sc qs wm after = (changes, rest, wm', after')"
      using 2(4) by (auto simp: entry_queued_def split: option.splits)
    show ?thesis
    proof (cases "map_of (sc_tasks sc) (q_task_id q)")
      case None
      then show ?thesis by (rule 2(1) [OF _ run 2(5,6)])
    next
      case (Some t)
      then show ?thesis by (rule 2(2) [OF _ _ run 2(5,6)]) (use False Some in \<open>auto simp: entry_queued_def\<close>)
    qed
  next
    case True
    then obtain t where t: "map_of (sc_tasks sc) (q_task_id q) = Some t" "t_status t = QUEUED"
      by (auto simp: entry_queued_def)
    show ?thesis
    proof (cases "select_worker sc after (getAvailableWorkers wm) None")
      case None
      with 2(4) t have "wm' = wm" by auto
      with None select_worker_None [of sc after "getAvailableWorkers wm" None] show ?thesis by simp
    next
      case (Some w)
      from select_worker_best [OF Some] have av: "w \<in> set (getAvailableWorkers wm)" by auto
      obtain wm1 where acq: "acquireSlot (w_id w) wm = (True, wm1)"
        using acquireSlot_available [OF 2(5) av] by (cases "acquireSlot (w_id w) wm") auto
      obtain ch rs wm2 af where rec: "schedule_loop e stored sc qs wm1 (w_id w) = (ch, rs, wm2, af)"
        by (metis prod_cases4)
      have eq: "rest = rs" "wm' = wm2" using 2(4) t Some acq rec by auto
      show ?thesis
        unfolding eq
        by (rule 2(3) [OF t(1) _ Some acq [symmetric] _ rec acquireSlot_True(2) [OF acq 2(5)]])
           (use t 2(6) eq in auto)
    qed
  qed
qed

text \<open>A worker that took slots keeps everything else, and never exceeds its capacity.\<close>

definition took_slots :: "WorkerManager \<Rightarrow> WorkerManager \<Rightarrow> bool" where
  "took_slots wm wm' \<longleftrightarrow>
     (\<forall>i w. map_of (wm_workers wm) i = Some w \<longrightarrow>
        (\<exists>u. map_of (wm_workers wm') i = Some (w\<lparr>w_used_slots := u\<rparr>)
             \<and> (w_used_slots w \<le> w_total_slots w \<longrightarrow> u \<le> w_total_slots w)))"

lemma took_slots_refl: "took_slots wm wm"
  unfolding took_slots_def
proof (intro allI impI)
  fix i w assume "map_of (wm_workers wm) i = Some w"
  then show "\<exists>u. map_of (wm_workers wm) i = Some (w\<lparr>w_used_slots := u\<rparr>)
             \<and> (w_used_slots w \<le> w_total_slots w \<longrightarrow> u \<le> w_total_slots w)"
    by (intro exI [of _ "w_used_slots w"]) simp
qed

lemma took_slots_trans:
  assumes "took_slots a b" and "took_slots b c"
  shows "took_slots a c"
  unfolding took_slots_def
proof (intro allI impI)
  fix i w assume "map_of (wm_workers a) i = Some w"
  then obtain u where u: "map_of (wm_workers b) i = Some (w\<lparr>w_used_slots := u\<rparr>)"
    "w_used_slots w \<le> w_total_slots w \<longrightarrow> u \<le> w_total_slots w"
    using assms(1) unfolding took_slots_def by blast
  then obtain v where v: "map_of (wm_workers c) i = Some (w\<lparr>w_used_slots := u\<rparr>\<lparr>w_used_slots := v\<rparr>)"
    "w_used_slots (w\<lparr>w_used_slots := u\<rparr>) \<le> w_total_slots (w\<lparr>w_used_slots := u\<rparr>)
       \<longrightarrow> v \<le> w_total_slots (w\<lparr>w_used_slots := u\<rparr>)"
    using assms(2) unfolding took_slots_def by blast
  with u show "\<exists>u. map_of (wm_workers c) i = Some (w\<lparr>w_used_slots := u\<rparr>)
             \<and> (w_used_slots w \<le> w_total_slots w \<longrightarrow> u \<le> w_total_slots w)"
    by (intro exI [of _ v]) auto
qed

lemma acquireSlot_took:
  assumes "acquireSlot i wm = (True, wm')"
  shows "took_slots wm wm'"
    and "\<exists>w. map_of (wm_workers wm') i = Some w \<and> w_used_slots w \<le> w_total_slots w
          \<and> w_status w = ONLINE \<and> acceptsTasks w"
proof -
  from assms obtain w w' where w: "map_of (wm_workers wm) i = Some w" "w_status w = ONLINE" "acceptsTasks w"
    and a: "acquire_slot w = (True, w')"
    and wm': "wm' = wm\<lparr>wm_workers := AList.update i w' (wm_workers wm), wm_generation := wm_generation wm + 1\<rparr>"
    by (auto simp: acquireSlot_def split: option.splits if_splits prod.splits)
  from acquire_slot_True [OF a] have w': "w' = w\<lparr>w_used_slots := w_used_slots w + 1\<rparr>"
    and le: "w_used_slots w + 1 \<le> w_total_slots w" by (auto simp: word_le_nat_alt)
  show "took_slots wm wm'"
    unfolding took_slots_def
  proof (intro allI impI)
    fix j v assume j: "map_of (wm_workers wm) j = Some v"
    show "\<exists>u. map_of (wm_workers wm') j = Some (v\<lparr>w_used_slots := u\<rparr>)
             \<and> (w_used_slots v \<le> w_total_slots v \<longrightarrow> u \<le> w_total_slots v)"
    proof (cases "j = i")
      case True
      then show ?thesis using j w w' le by (intro exI [of _ "w_used_slots w + 1"]) (simp add: wm')
    next
      case False
      then show ?thesis using j by (intro exI [of _ "w_used_slots v"]) (simp add: wm')
    qed
  qed
  show "\<exists>w. map_of (wm_workers wm') i = Some w \<and> w_used_slots w \<le> w_total_slots w
          \<and> w_status w = ONLINE \<and> acceptsTasks w"
    using w w' le by (simp add: wm' acceptsTasks_def)
qed

lemma schedule_loop_took:
  "schedule_loop e stored sc qs wm after = (changes, rest, wm', after') \<Longrightarrow>
   took_slots wm wm'
   \<and> (\<forall>c \<in> set changes. \<exists>w. map_of (wm_workers wm') (a_worker_id (fst c)) = Some w
        \<and> w_used_slots w \<le> w_total_slots w \<and> w_status w = ONLINE \<and> acceptsTasks w)"
proof (induction e stored sc qs wm after arbitrary: changes rest wm' after' rule: schedule_loop.induct)
  case (1 e stored sc wm after)
  then show ?case by (simp add: took_slots_refl)
next
  case (2 e stored sc q qs wm after)
  consider (skip) "schedule_loop e stored sc qs wm after = (changes, rest, wm', after')"
      "map_of (sc_tasks sc) (q_task_id q) = None
       \<or> (\<exists>t. map_of (sc_tasks sc) (q_task_id q) = Some t \<and> t_status t \<noteq> QUEUED)"
    | (stop) "changes = []" "wm' = wm"
    | (take) t w wm1 ch rs wm2 af where "map_of (sc_tasks sc) (q_task_id q) = Some t" "t_status t = QUEUED"
      "select_worker sc after (getAvailableWorkers wm) None = Some w" "acquireSlot (w_id w) wm = (True, wm1)"
      "schedule_loop e stored sc qs wm1 (w_id w) = (ch, rs, wm2, af)"
      "changes = (\<lparr>a_task_id = q_task_id q, a_worker_id = w_id w\<rparr>, prepare_assignment e stored (w_id w) t) # ch"
      "wm' = wm2"
    using 2(4) acquireSlot_False by (auto split: option.splits if_splits prod.splits bool.splits)
  then show ?case
  proof cases
    case skip
    then show ?thesis using 2(1,2) by blast
  next
    case stop
    then show ?thesis by (simp add: took_slots_refl)
  next
    case take
    have ih: "took_slots wm1 wm2
      \<and> (\<forall>c \<in> set ch. \<exists>w. map_of (wm_workers wm2) (a_worker_id (fst c)) = Some w
        \<and> w_used_slots w \<le> w_total_slots w \<and> w_status w = ONLINE \<and> acceptsTasks w)"
      by (rule 2(3) [OF take(1) _ take(3) take(4) [symmetric] _ take(5)]) (use take(2) in auto)
    obtain v where v: "map_of (wm_workers wm1) (w_id w) = Some v" "w_used_slots v \<le> w_total_slots v"
      "w_status v = ONLINE" "acceptsTasks v"
      using acquireSlot_took(2) [OF take(4)] by blast
    then obtain u where "map_of (wm_workers wm2) (w_id w) = Some (v\<lparr>w_used_slots := u\<rparr>)" "u \<le> w_total_slots v"
      using ih unfolding took_slots_def by blast
    with ih take v took_slots_trans [OF acquireSlot_took(1) [OF take(4)]] show ?thesis
      by (auto simp: acceptsTasks_def)
  qed
qed

section \<open>Slots and queue\<close>

text \<open>
  C1. In every reachable state the number of slots the worker manager counts as taken on a worker
  is exactly the number of tasks of the table that are ASSIGNED or RUNNING on that worker and were
  assigned by this process: no slot leaks and none is given back twice, over every order of
  submission, scheduling, dispatch, completion, cancellation, rollback, recovery, registration
  and liveness events.
\<close>

theorem slots_accounted:
  assumes "reachable s"
  shows "used (sy_wm s) w =
    length (filter (\<lambda>(i, t). (t_status t = ASSIGNED \<or> t_status t = RUNNING)
                             \<and> \<not> t_recovery_required t \<and> t_worker_id t = w) (sc_tasks (sy_sched s)))"
  using sched_invD(8) [OF reachable_inv [OF assms]]
  by (simp add: slots_match_def count_vals_def occupies_def active_def)

theorem slots_accounted_witness:
  "used (sy_wm demo_assigned) ''w1'' = 1
   \<and> length (filter (\<lambda>(i, t). (t_status t = ASSIGNED \<or> t_status t = RUNNING)
       \<and> \<not> t_recovery_required t \<and> t_worker_id t = ''w1'') (sc_tasks (sy_sched demo_assigned))) = 1"
proof -
  have "length (filter (\<lambda>(i, t). (t_status t = ASSIGNED \<or> t_status t = RUNNING)
       \<and> \<not> t_recovery_required t \<and> t_worker_id t = ''w1'') (sc_tasks (sy_sched demo_assigned))) = 1"
    by code_simp
  then show ?thesis using slots_accounted [OF reachable_demo_assigned, of "''w1''"] by simp
qed

text \<open>
  C2. In every reachable state a QUEUED task has exactly one entry in the priority queue, with
  its own priority and sequence number: no task is lost between table and queue, none is queued
  twice, and lazily removed entries never belong to a waiting task.
\<close>

theorem queued_exactly_once:
  assumes "reachable s" and "map_of (sc_tasks (sy_sched s)) i = Some t" and "t_status t = QUEUED"
  shows "filter (\<lambda>q. q_task_id q = i) (sc_queue (sy_sched s))
       = [\<lparr>q_task_id = i, q_priority = t_priority t, q_sequence = t_queue_sequence t\<rparr>]"
proof -
  note I = sched_invD [OF reachable_inv [OF assms(1)]]
  have "t_id t = i" by (rule table_okD(2) [OF I(2) assms(2)])
  then show ?thesis
    using queue_okD(3) [OF I(3) assms(2,3)] by (simp add: entries_def queue_entry_def)
qed

theorem queued_exactly_once_witness:
  "\<exists>t. map_of (sc_tasks (sy_sched demo_assigned)) 3 = Some t \<and> t_status t = QUEUED
     \<and> filter (\<lambda>q. q_task_id q = 3) (sc_queue (sy_sched demo_assigned))
       = [\<lparr>q_task_id = 3, q_priority = t_priority t, q_sequence = t_queue_sequence t\<rparr>]"
proof -
  define t where "t = the (map_of (sc_tasks (sy_sched demo_assigned)) 3)"
  have "map_of (sc_tasks (sy_sched demo_assigned)) 3 \<noteq> None" by code_simp
  then have 1: "map_of (sc_tasks (sy_sched demo_assigned)) 3 = Some t" by (auto simp: t_def)
  have 2: "t_status t = QUEUED" unfolding t_def by code_simp
  show ?thesis using queued_exactly_once [OF reachable_demo_assigned 1 2] 1 2 by blast
qed

section \<open>A scheduling pass\<close>

lemma schedule_Inr:
  assumes "schedule e s = (Inr as, s')"
  obtains changes pending wm after where
    "schedule_loop e (sy_store s \<noteq> None) (sy_sched s) (sc_queue (sy_sched s)) (sy_wm s)
       (sc_last_selected (sy_sched s)) = (changes, pending, wm, after)"
    "as = map fst changes" "sc_tasks (sy_sched s') = commit_changes changes (sc_tasks (sy_sched s))"
    "sc_queue (sy_sched s') = pending" "sy_wm s' = wm"
    "sc_quarantined (sy_sched s') = sc_quarantined (sy_sched s)"
    "sc_reconciling (sy_sched s') = sc_reconciling (sy_sched s)"
    "sc_dispatching (sy_sched s') = sc_dispatching (sy_sched s)"
    "sc_next_sequence (sy_sched s') = sc_next_sequence (sy_sched s)"
proof -
  obtain changes pending wm after where loop:
    "schedule_loop e (sy_store s \<noteq> None) (sy_sched s) (sc_queue (sy_sched s)) (sy_wm s)
       (sc_last_selected (sy_sched s)) = (changes, pending, wm, after)" by (metis prod_cases4)
  obtain r s2 where sv: "(if changes = [] then (Inr (), put_wm wm s)
      else store_save e (map snd changes) None None None None (put_wm wm s)) = (r, s2)" by fastforce
  show thesis
    using assms pass_frame [OF sv] unfolding schedule_run [OF loop sv]
    by (intro that [OF loop]) (auto split: sum.splits)
qed

lemma queue_entry_unique:
  assumes "queue_ok sc" and "x \<in> set (sc_queue sc)" and "map_of (sc_tasks sc) (q_task_id x) = Some t"
    and "t_status t = QUEUED"
  shows "x = queue_entry t"
proof -
  have "x \<in> set (entries (q_task_id x) (sc_queue sc))" using assms(2) by (simp add: entries_def)
  then show ?thesis using queue_okD(3) [OF assms(1,3,4)] by simp
qed

lemma queue_entry_present:
  assumes "queue_ok sc" and "map_of (sc_tasks sc) i = Some t" and "t_status t = QUEUED"
  shows "queue_entry t \<in> set (sc_queue sc)" and "q_task_id (queue_entry t) = i"
proof -
  have "queue_entry t \<in> set (entries i (sc_queue sc))" using queue_okD(3) [OF assms] by simp
  then show "queue_entry t \<in> set (sc_queue sc)" "q_task_id (queue_entry t) = i" by (simp_all add: entries_def)
qed

text \<open>
  C4. A pass serves strictly by priority and, within a priority, first in first out: a waiting
  task that a successful pass leaves behind never precedes a task the pass assigned.
\<close>

theorem pass_respects_order:
  assumes "reachable s" and "schedule e s = (Inr as, s')" and "a \<in> set as"
    and "map_of (sc_tasks (sy_sched s)) (a_task_id a) = Some t"
    and "map_of (sc_tasks (sy_sched s)) j = Some u" and "t_status u = QUEUED" and "j \<notin> a_task_id ` set as"
  shows "t_priority u < t_priority t
    \<or> t_priority u = t_priority t \<and> t_queue_sequence t \<le> t_queue_sequence u"
proof -
  note I = sched_invD [OF reachable_inv [OF assms(1)]]
  from assms(2) obtain changes pending wm after where loop:
    "schedule_loop e (sy_store s \<noteq> None) (sy_sched s) (sc_queue (sy_sched s)) (sy_wm s)
       (sc_last_selected (sy_sched s)) = (changes, pending, wm, after)" and as: "as = map fst changes"
    by (rule schedule_Inr)
  obtain taken where q: "sc_queue (sy_sched s) = taken @ pending"
    and ids: "map (\<lambda>c. a_task_id (fst c)) changes = map q_task_id (filter (entry_queued (sy_sched s)) taken)"
    using schedule_loop_spec [OF loop I(1)] by blast
  have ids': "a_task_id ` set as = q_task_id ` set (filter (entry_queued (sy_sched s)) taken)"
    using arg_cong [OF ids, of set] by (simp add: as image_image)
  have "a_task_id a \<in> q_task_id ` set (filter (entry_queued (sy_sched s)) taken)"
    using imageI [OF assms(3), of a_task_id] ids' by simp
  then obtain x where x: "x \<in> set taken" "entry_queued (sy_sched s) x" "q_task_id x = a_task_id a"
    by auto
  then have xt: "x = queue_entry t"
    using queue_entry_unique [OF I(3), of x] assms(4) q by (auto simp: entry_queued_def)
  note y = queue_entry_present [OF I(3) assms(5,6)]
  moreover have "queue_entry u \<notin> set taken"
    using assms(5-7) ids' y(2) by (auto simp: entry_queued_def image_iff)
  ultimately have "queue_entry u \<in> set pending" by (simp add: q)
  then have "\<not> queued_after x (queue_entry u)"
    using x(1) queue_okD(1) [OF I(3)] by (auto simp: q queue_sorted_def sorted_wrt_append)
  then show ?thesis by (auto simp: xt queued_after_def queue_entry_def split: if_splits)
qed

theorem pass_respects_order_witness:
  "\<exists>as s' t u. schedule demo_env demo_queued = (Inr as, s')
     \<and> map_of (sc_tasks (sy_sched demo_queued)) 2 = Some t \<and> map_of (sc_tasks (sy_sched demo_queued)) 3 = Some u
     \<and> (t_priority u < t_priority t \<or> t_priority u = t_priority t \<and> t_queue_sequence t \<le> t_queue_sequence u)"
proof -
  let ?as = "[\<lparr>a_task_id = 2, a_worker_id = ''w1''\<rparr>, \<lparr>a_task_id = 1, a_worker_id = ''w2''\<rparr>]"
  have "fst (schedule demo_env demo_queued) = Inr ?as" by code_simp
  then obtain s' where run: "schedule demo_env demo_queued = (Inr ?as, s')" by (metis prod.collapse)
  define t u where "t = the (map_of (sc_tasks (sy_sched demo_queued)) 2)"
    and "u = the (map_of (sc_tasks (sy_sched demo_queued)) 3)"
  have "map_of (sc_tasks (sy_sched demo_queued)) 2 \<noteq> None" "map_of (sc_tasks (sy_sched demo_queued)) 3 \<noteq> None"
    by code_simp+
  then have t: "map_of (sc_tasks (sy_sched demo_queued)) 2 = Some t" and u: "map_of (sc_tasks (sy_sched demo_queued)) 3 = Some u"
    by (auto simp: t_def u_def)
  have "t_status u = QUEUED" unfolding u_def by code_simp
  then show ?thesis
    using pass_respects_order [OF reachable_demo_queued run _ _ u, of "\<lparr>a_task_id = 2, a_worker_id = ''w1''\<rparr>" t] t u run by auto
qed

text \<open>
  C5. A pass is work conserving: when a successful pass leaves a task waiting, no worker that is
  online, accepting, with a free slot and neither quarantined nor being reconciled is left.
\<close>

theorem pass_work_conserving:
  assumes "reachable s" and "schedule e s = (Inr as, s')"
    and "map_of (sc_tasks (sy_sched s')) j = Some u" and "t_status u = QUEUED"
    and "w \<in> set (getAvailableWorkers (sy_wm s'))"
  shows "w_id w \<in> sc_quarantined (sy_sched s') \<or> w_id w \<in> sc_reconciling (sy_sched s')"
proof -
  note I = sched_invD [OF reachable_inv [OF assms(1)]]
  have "sched_inv s'" using inv_schedule [OF reachable_inv [OF assms(1)], of e] assms(2) by simp
  note I' = sched_invD [OF this]
  from assms(2) obtain changes pending wm after where loop:
    "schedule_loop e (sy_store s \<noteq> None) (sy_sched s) (sc_queue (sy_sched s)) (sy_wm s)
       (sc_last_selected (sy_sched s)) = (changes, pending, wm, after)"
    and s': "sc_queue (sy_sched s') = pending" "sy_wm s' = wm"
      "sc_quarantined (sy_sched s') = sc_quarantined (sy_sched s)"
      "sc_reconciling (sy_sched s') = sc_reconciling (sy_sched s)"
    by (rule schedule_Inr)
  have "pending \<noteq> []" using queue_entry_present(1) [OF I'(3) assms(3,4)] s'(1) by auto
  then show ?thesis
    using schedule_loop_stuck [OF loop I(1)] assms(5) s' by (auto simp: selectable_def)
qed

theorem pass_work_conserving_witness:
  "\<exists>as s' w. schedule demo_env demo_held = (Inr as, s') \<and> w \<in> set (getAvailableWorkers (sy_wm s'))
     \<and> (w_id w \<in> sc_quarantined (sy_sched s') \<or> w_id w \<in> sc_reconciling (sy_sched s'))"
proof -
  have "fst (schedule demo_env demo_held) = Inr [\<lparr>a_task_id = 2, a_worker_id = ''w2''\<rparr>]" by code_simp
  then obtain as s' where run: "schedule demo_env demo_held = (Inr as, s')" by (metis prod.collapse)
  then have s': "s' = snd (schedule demo_env demo_held)" by simp
  define u where "u = the (map_of (sc_tasks (sy_sched s')) 1)"
  have "map_of (sc_tasks (sy_sched s')) 1 \<noteq> None" unfolding s' by code_simp
  then have u: "map_of (sc_tasks (sy_sched s')) 1 = Some u" by (auto simp: u_def)
  have q: "t_status u = QUEUED" unfolding u_def s' by code_simp
  define w where "w = hd (getAvailableWorkers (sy_wm s'))"
  have "getAvailableWorkers (sy_wm s') \<noteq> []" unfolding s' by code_simp
  then have w: "w \<in> set (getAvailableWorkers (sy_wm s'))" by (simp add: w_def)
  show ?thesis using pass_work_conserving [OF reachable_demo_held run u q w] run w by blast
qed

text \<open>
  C13. A pass assigns only to workers it may use: the worker of every assignment is registered,
  online and accepting tasks, is neither quarantined nor being reconciled, and holds at most as
  many slots as it has.
\<close>

theorem pass_assigns_legally:
  assumes "reachable s" and "schedule e s = (Inr as, s')" and "a \<in> set as"
  shows "\<exists>w. getWorker (a_worker_id a) (sy_wm s') = Some w \<and> w_status w = ONLINE \<and> acceptsTasks w
            \<and> w_used_slots w \<le> w_total_slots w
            \<and> a_worker_id a \<notin> sc_quarantined (sy_sched s) \<and> a_worker_id a \<notin> sc_reconciling (sy_sched s)"
proof -
  from assms(2) obtain changes pending wm after where loop:
    "schedule_loop e (sy_store s \<noteq> None) (sy_sched s) (sc_queue (sy_sched s)) (sy_wm s)
       (sc_last_selected (sy_sched s)) = (changes, pending, wm, after)"
    and s': "as = map fst changes" "sy_wm s' = wm"
    by (rule schedule_Inr)
  from assms(3) s'(1) obtain c where c: "c \<in> set changes" "a = fst c" by auto
  have "change_ok e (sy_store s \<noteq> None) (sy_sched s) c"
    using schedule_loop_spec [OF loop sched_invD(1) [OF reachable_inv [OF assms(1)]]] c(1) by blast
  moreover obtain w where "map_of (wm_workers wm) (a_worker_id a) = Some w" "w_used_slots w \<le> w_total_slots w"
    "w_status w = ONLINE" "acceptsTasks w"
    using schedule_loop_took [OF loop] c by blast
  ultimately show ?thesis by (auto simp: change_ok_def c(2) s'(2) getWorker_def)
qed

theorem pass_assigns_legally_witness:
  "\<exists>as s' a. schedule demo_env demo_held = (Inr as, s') \<and> a \<in> set as
     \<and> (\<exists>w. getWorker (a_worker_id a) (sy_wm s') = Some w \<and> w_status w = ONLINE \<and> acceptsTasks w
            \<and> w_used_slots w \<le> w_total_slots w
            \<and> a_worker_id a \<notin> sc_quarantined (sy_sched demo_held) \<and> a_worker_id a \<notin> sc_reconciling (sy_sched demo_held))"
proof -
  let ?a = "\<lparr>a_task_id = 2, a_worker_id = ''w2''\<rparr>"
  have "fst (schedule demo_env demo_held) = Inr [?a]" by code_simp
  then obtain s' where run: "schedule demo_env demo_held = (Inr [?a], s')" by (metis prod.collapse)
  have "?a \<in> set [?a]" by simp
  with pass_assigns_legally [OF reachable_demo_held run this] run show ?thesis by blast
qed

text \<open>
  C6. A pass is all or nothing: when its durable write throws, every task, the queue, the round
  robin position and every slot count are as before the pass.
\<close>

theorem pass_exception_safe:
  assumes "reachable s" and "schedule e s = (Inl x, s')"
  shows "sy_sched s' = sy_sched s \<and> used (sy_wm s') = used (sy_wm s)
    \<and> map_option s_tasks (sy_store s') = map_option s_tasks (sy_store s)"
proof -
  note I = sched_invD [OF reachable_inv [OF assms(1)]]
  obtain changes pending wm after where loop:
    "schedule_loop e (sy_store s \<noteq> None) (sy_sched s) (sc_queue (sy_sched s)) (sy_wm s)
       (sc_last_selected (sy_sched s)) = (changes, pending, wm, after)" by (metis prod_cases4)
  obtain r s2 where sv: "(if changes = [] then (Inr (), put_wm wm s)
      else store_save e (map snd changes) None None None None (put_wm wm s)) = (r, s2)" by fastforce
  have r: "r = Inl x" and st: "sy_store s' = sy_store s2"
    using assms(2) unfolding schedule_run [OF loop sv] by (auto split: sum.splits)
  then have "changes \<noteq> []" using sv by auto
  then have "store_save e (map snd changes) None None None None (put_wm wm s) = (Inl x, s2)" using sv r by simp
  then have "map_option s_tasks (sy_store s2) = map_option s_tasks (sy_store s)"
    using save_Inl_state by (fastforce simp: store_save_def split: option.splits prod.splits)
  with schedule_throws [OF I(1) assms(2)] st show ?thesis by simp
qed

theorem pass_exception_safe_witness:
  "\<exists>x s'. schedule demo_env demo_broken = (Inl x, s')
     \<and> sy_sched s' = sy_sched demo_broken \<and> used (sy_wm s') = used (sy_wm demo_broken)
     \<and> map_option s_tasks (sy_store s') = map_option s_tasks (sy_store demo_broken)"
proof -
  have "fst (schedule demo_env demo_broken) = Inl sqlite_error" by code_simp
  then obtain s' where run: "schedule demo_env demo_broken = (Inl sqlite_error, s')" by (metis prod.collapse)
  from pass_exception_safe [OF reachable_demo_broken run] run show ?thesis by blast
qed

text \<open>
  The worker a pass selects does not depend on the order in which the hash table enumerates
  the workers, and it is the best one: no usable worker has more free slots, and among those with
  as many it comes first in the round robin order after the worker selected last.
\<close>

theorem selection_is_best:
  assumes "distinct (map w_id ws)" and "set ws' = set ws"
  shows "select_worker sc after ws' None = select_worker sc after ws None
    \<and> (\<forall>w v. select_worker sc after ws None = Some w \<longrightarrow> v \<in> set ws \<longrightarrow>
         w_id v \<notin> sc_quarantined sc \<longrightarrow> w_id v \<notin> sc_reconciling sc \<longrightarrow>
         freeSlots v \<le> freeSlots w
         \<and> (freeSlots v = freeSlots w \<longrightarrow> after < w_id v \<longrightarrow> after < w_id w \<and> w_id w \<le> w_id v)
         \<and> (freeSlots v = freeSlots w \<longrightarrow> \<not> after < w_id v \<longrightarrow> after < w_id w \<or> w_id w \<le> w_id v))"
proof (intro conjI [OF _ allI [OF allI]] impI)
  have inj: "x = y" if "x \<in> set ws" "y \<in> set ws" "w_id x = w_id y" for x y
    using assms(1) that by (auto simp: distinct_map inj_on_def)
  then show "select_worker sc after ws' None = select_worker sc after ws None"
    using select_worker_set [of ws ws' sc after] assms(2) by simp
next
  fix w v
  assume w: "select_worker sc after ws None = Some w" and v: "v \<in> set ws"
    and ok: "w_id v \<notin> sc_quarantined sc" "w_id v \<notin> sc_reconciling sc"
  have "\<not> better_worker after v w"
    using select_worker_best [OF w] v ok by (auto simp: selectable_def)
  then show "freeSlots v \<le> freeSlots w
         \<and> (freeSlots v = freeSlots w \<longrightarrow> after < w_id v \<longrightarrow> after < w_id w \<and> w_id w \<le> w_id v)
         \<and> (freeSlots v = freeSlots w \<longrightarrow> \<not> after < w_id v \<longrightarrow> after < w_id w \<or> w_id w \<le> w_id v)"
    by (auto simp: better_worker_def Let_def not_less split: if_splits)
qed

theorem selection_is_best_witness:
  "map_option w_id (select_worker (sy_sched demo_held) [] (rev (getWorkers (sy_wm demo_held))) None) = Some ''w2''"
proof -
  have "distinct (map w_id (getWorkers (sy_wm demo_held)))" by code_simp
  moreover have "map_option w_id (select_worker (sy_sched demo_held) [] (getWorkers (sy_wm demo_held)) None) = Some ''w2''"
    by code_simp
  ultimately show ?thesis
    using selection_is_best [of "getWorkers (sy_wm demo_held)" "rev (getWorkers (sy_wm demo_held))"] by simp
qed

section \<open>Quarantine, stopped batches, histories\<close>

text \<open>
  C7. While a task that was in flight before a restart is unresolved, its worker is quarantined
  and holds no slot of this process, so no pass can give the worker new work beside an execution
  that may still be running.
\<close>

theorem unresolved_worker_quarantined:
  assumes "reachable s" and "map_of (sc_tasks (sy_sched s)) i = Some t"
    and "t_status t = ASSIGNED \<or> t_status t = RUNNING" and "t_recovery_required t"
  shows "t_worker_id t \<in> sc_quarantined (sy_sched s) \<and> used (sy_wm s) (t_worker_id t) = 0
    \<and> (\<forall>e as s' a. schedule e s = (Inr as, s') \<longrightarrow> a \<in> set as \<longrightarrow> a_worker_id a \<noteq> t_worker_id t)"
proof -
  note inv = reachable_inv [OF assms(1)]
  have act: "active t" using assms(3) by (simp add: active_def)
  have q: "t_worker_id t \<in> sc_quarantined (sy_sched s)"
    using sched_invD(5) [OF inv] assms(2,4) act unfolding quarantine_ok_def by blast
  moreover have "a_worker_id a \<noteq> t_worker_id t"
    if run: "schedule e s = (Inr as, s')" and a: "a \<in> set as" for e as s' a
  proof -
    from run obtain changes pending wm after where loop:
      "schedule_loop e (sy_store s \<noteq> None) (sy_sched s) (sc_queue (sy_sched s)) (sy_wm s)
         (sc_last_selected (sy_sched s)) = (changes, pending, wm, after)" and as: "as = map fst changes"
      by (rule schedule_Inr)
    then show ?thesis
      using a q schedule_loop_spec [OF loop sched_invD(1) [OF inv]] by (auto simp: change_ok_def)
  qed
  ultimately show ?thesis using recovered_no_slot [OF inv assms(2) act assms(4)] by blast
qed

theorem unresolved_worker_quarantined_witness:
  "\<exists>t. map_of (sc_tasks (sy_sched demo_restarted)) 2 = Some t
     \<and> t_worker_id t \<in> sc_quarantined (sy_sched demo_restarted) \<and> used (sy_wm demo_restarted) (t_worker_id t) = 0"
proof -
  define t where "t = the (map_of (sc_tasks (sy_sched demo_restarted)) 2)"
  have "map_of (sc_tasks (sy_sched demo_restarted)) 2 \<noteq> None" by code_simp
  then have t: "map_of (sc_tasks (sy_sched demo_restarted)) 2 = Some t" by (auto simp: t_def)
  have "t_status t = ASSIGNED" "t_recovery_required t" unfolding t_def by code_simp+
  with unresolved_worker_quarantined [OF reachable_demo_restarted t] t show ?thesis by blast
qed



end
