(* ===== verification/Queries.thy ===== *)
theory Queries
  imports System "HOL-Library.Product_Lexorder"
begin

text \<open>
  The list queries of the API: \<^verbatim>\<open>server/include/protocol/ApiQueries.h\<close> (validation of query fields,
  the bounded summary of a task, the pages of workers, the capabilities) and
  \<^verbatim>\<open>server/include/protocol/TaskListQuery.h\<close>, which keeps immutable snapshots of task lists so that
  a client pages through one list while the tasks go on changing.

  The size of a dumped value is that of the text the codec gives. A stored row that cannot be read
  fails the query before the visitor sees any row.
\<close>

section \<open>Query fields\<close>

definition query_validate :: "json \<Rightarrow> string list \<Rightarrow> exn + unit" where
  "query_validate q keys =
     (if \<not> is_object q then Inl (Invalid_argument ''query must be an object'')
      else if \<not> list_all (\<lambda>(k, v). k \<in> set keys) (members q) then Inl (Invalid_argument ''unknown query field'')
      else Inr ())"

definition query_text :: "json \<Rightarrow> string \<Rightarrow> nat \<Rightarrow> exn + string" where
  "query_text q key maximum =
     (if \<not> contains q key then Inr []
      else if \<not> is_string (jget q key) then Inl (Invalid_argument ''expected string filter'')
      else
        (let s = str_of (jget q key) in
         if s = [] \<or> maximum < length s \<or> \<not> nul_free s then Inl (Invalid_argument ''invalid string filter'')
         else Inr s))"

definition query_positive :: "json \<Rightarrow> string \<Rightarrow> u64 \<Rightarrow> exn + u64" where
  "query_positive q key fallback =
     (if \<not> contains q key then Inr fallback
      else if \<not> is_number_integer (jget q key) \<or> (\<not> is_number_unsigned (jget q key) \<and> get_i64 (jget q key) \<le> 0)
      then Inl (Invalid_argument ''expected positive integer'')
      else if get_u64 (jget q key) = 0 then Inl (Invalid_argument ''expected positive integer'')
      else Inr (get_u64 (jget q key)))"

definition query_limit :: "json \<Rightarrow> exn + nat" where
  "query_limit q =
     rbind (query_positive q ''limit'' 20) (\<lambda>n.
       if 50 < n then Inl (Invalid_argument ''limit exceeds 50'') else Inr (unat n))"

text \<open>\<^verbatim>\<open>value(key, std::string{})\<close> and \<^verbatim>\<open>value(key, uint64_t(0))\<close> of an object.\<close>

definition jvalue_string :: "json \<Rightarrow> string \<Rightarrow> exn + string" where
  "jvalue_string j k = (case map_of (members j) k of None \<Rightarrow> Inr [] | Some v \<Rightarrow> get_string v)"

definition jincrement :: "string \<Rightarrow> json \<Rightarrow> json" where
  "jincrement k j = jset j k (JUnsigned (get_u64 (jget j k) + 1))"

definition dump_size :: "json_codec \<Rightarrow> json \<Rightarrow> exn + nat" where
  "dump_size jc j = (case jdump jc j of None \<Rightarrow> Inl (Json_error ''dump'') | Some s \<Rightarrow> Inr (length s))"

section \<open>Task summaries\<close>

definition copy_field :: "json \<Rightarrow> nat \<Rightarrow> string \<Rightarrow> json \<times> bool \<Rightarrow> json \<times> bool" where
  "copy_field source maximum key p =
     (case p of (target, truncated) \<Rightarrow>
        if \<not> is_object source \<or> \<not> contains source key then (target, truncated)
        else
          (let v = jget source key in
           if is_string v
           then (if length (str_of v) \<le> maximum then (jset target key v, truncated) else (target, True))
           else if is_number_integer v then (jset target key v, truncated)
           else (target, truncated)))"

definition put_time :: "string \<Rightarrow> time_point \<Rightarrow> json \<Rightarrow> json" where
  "put_time key t j = (if 0 < t then jset j key (jint (millis t)) else j)"

definition summary_parts :: "Task \<Rightarrow> json \<times> json \<times> bool" where
  "summary_parts task =
     (let full = t_payload task;
          (payload, tr1) = copy_field full 128 ''flow'' (copy_field full 4096 ''case'' (JObject [], False));
          (context, tr2) =
            (if is_object full \<and> contains full ''context''
             then fold (copy_field (jget full ''context'') 256)
                    [''batch_id'', ''name'', ''template'', ''source'', ''date'', ''suite''] (JObject [], tr1)
             else (JObject [], tr1));
          (execution, tr3) =
            fold (copy_field (t_execution_summary task) 256)
              [''case_status'', ''case_reason'', ''reason'', ''exit_code'', ''raw_exit_code''] (JObject [], tr2) in
      (jset payload ''context'' context, execution, tr3))"

definition taskListSummary :: "json_codec \<Rightarrow> Task \<Rightarrow> exn + json" where
  "taskListSummary jc task =
     (case summary_parts task of (payload, execution, truncated) \<Rightarrow>
        (let result = put_time ''finished_at_ms'' (t_finished_at task) (put_time ''started_at_ms'' (t_started_at task)
               (jobject [(''created_at_ms'', jint (millis (t_created_at task))), (''payload'', payload),
                         (''execution'', execution)])) in
         rbind (dump_size jc result) (\<lambda>n.
           if 8192 < n
           then Inr (jset (jset (jset result ''payload'' (JObject [])) ''execution'' (JObject []))
                       ''summary_truncated'' (JBool True))
           else Inr (jset result ''summary_truncated'' (JBool truncated)))))"

section \<open>Pages\<close>

text \<open>The loop that fills a page: the first entry beyond the page only says that there is more.\<close>

fun page_loop :: "nat \<Rightarrow> 'a list \<Rightarrow> 'a list \<Rightarrow> 'a list \<times> bool" where
  "page_loop n [] items = (items, False)"
| "page_loop n (x # xs) items =
     (if length items = n then (items, True) else page_loop n xs (items @ [x]))"

lemma page_loop_take:
  "length items \<le> n \<Longrightarrow>
   page_loop n xs items = (items @ take (n - length items) xs, n - length items < length xs)"
  by (induction n xs items rule: page_loop.induct) (auto simp: take_Cons' Suc_diff_le)

definition page :: "nat \<Rightarrow> 'a list \<Rightarrow> 'a list \<times> bool" where
  "page n xs = page_loop n xs []"

lemma page_take: "page n xs = (take n xs, n < length xs)"
  by (simp add: page_def page_loop_take)

section \<open>Workers and capabilities\<close>

type_synonym worker_cursor = "string \<times> string \<times> string"

definition worker_key :: "Worker \<Rightarrow> worker_cursor" where
  "worker_key w = (w_machine_id w, w_slot_id w, w_id w)"

definition worker_item :: "Worker \<Rightarrow> json" where
  "worker_item w =
     jobject [(''worker_id'', JString (w_id w)), (''machine_id'', JString (w_machine_id w)),
       (''slot_id'', JString (w_slot_id w)), (''hostname'', JString (w_hostname w)),
       (''status'', JString (wstatus_toString (w_status w))), (''capacity'', JUnsigned (ucast (w_total_slots w))),
       (''used'', JUnsigned (ucast (w_used_slots w))), (''free'', JUnsigned (ucast (freeSlots w))),
       (''accepting_tasks'', JBool (w_status w = ONLINE \<and> acceptsTasks w)),
       (''accepting_requested'', JBool (c_accepting (w_control w))),
       (''control_supported'', JBool (w_control_supported w)),
       (''maintenance'', jobject [(''operation_id'', JString (c_operation_id (w_control w))),
          (''scope'', JString (c_scope (w_control w))), (''state'', JString (c_state (w_control w))),
          (''error'', JString (c_error (w_control w)))]),
       (''last_heartbeat_ms'', jint (millis (w_last_heartbeat w)))]"

definition after_cursor :: "json \<Rightarrow> exn + worker_cursor option" where
  "after_cursor q =
     (if \<not> contains q ''after'' then Inr None
      else
        (let a = jget q ''after'' in
         rbind (query_validate a [''machine_id'', ''slot_id'', ''worker_id'']) (\<lambda>_.
         if jsize a \<noteq> 3 then Inl (Invalid_argument ''incomplete cursor'')
         else
           rbind (query_text a ''machine_id'' 256) (\<lambda>m.
           rbind (query_text a ''slot_id'' 256) (\<lambda>s.
           rbind (query_text a ''worker_id'' 256) (\<lambda>w. Inr (Some (m, s, w))))))))"

definition api_workers :: "json \<Rightarrow> WorkerManager \<Rightarrow> exn + json" where
  "api_workers q wm =
     rbind (query_validate q [''machine_id'', ''status'', ''limit'', ''after'']) (\<lambda>_.
     rbind (query_limit q) (\<lambda>n.
     rbind (query_text q ''machine_id'' 256) (\<lambda>machine.
     rbind (query_text q ''status'' 16) (\<lambda>status.
     if status \<noteq> [] \<and> status \<notin> {''ONLINE'', ''OFFLINE'', ''DRAINING''}
     then Inl (Invalid_argument ''unknown worker status'')
     else
       rbind (after_cursor q) (\<lambda>after.
       let (generation, workers) = snapshot wm;
           rows = filter (\<lambda>w. (machine = [] \<or> machine = w_machine_id w)
                              \<and> (status = [] \<or> status = wstatus_toString (w_status w))) (sort_key worker_key workers);
           (shown, more) = page n (filter (\<lambda>w. case after of None \<Rightarrow> True | Some k \<Rightarrow> \<not> worker_key w \<le> k) rows);
           items = map worker_item shown;
           cursor = (if more
                     then jobject [(''machine_id'', jget (last items) ''machine_id''),
                            (''slot_id'', jget (last items) ''slot_id''), (''worker_id'', jget (last items) ''worker_id'')]
                     else JNull) in
       Inr (jobject [(''items'', JArray items), (''total'', juint (length rows)), (''has_more'', JBool more),
              (''next_after'', cursor), (''snapshot_generation'', JUnsigned generation),
              (''inventory_scope'', JString ''current_server_process'')]))))))"

definition capabilities :: "json \<Rightarrow> exn + json" where
  "capabilities q =
     rbind (query_validate q []) (\<lambda>_.
       Inr (jobject [(''api_version'', jint 1), (''protocol_version'', jint 1),
         (''operations'', JArray (map JString [''submit_task'', ''query_task'', ''query_tasks'', ''query_workers'',
            ''query_status'', ''query_capabilities'', ''cancel_task'', ''query_batch'', ''cancel_batch'',
            ''query_regression'', ''query_progress'', ''query_rollback'', ''query_catalog''])),
         (''limits'', jobject [(''page_size'', jint 50), (''progress_page_size'', jint 20), (''frame_bytes'', jint 1048576)]),
         (''features'', jobject [(''remote_cancel'', JBool False), (''cancel_queued'', JBool True),
            (''worker_inventory_persistent'', JBool False), (''authentication'', JBool False),
            (''worker_controls_persistent'', JBool True), (''worker_maintenance_v1'', JBool False),
            (''remote_worker_management'', JBool False), (''administration_disabled'', JBool True),
            (''record_deletion'', JBool False), (''cross_page_snapshot'', JBool False), (''project_scope'', JBool False)])]))"


section \<open>Task lists\<close>

record list_snapshot =
  ls_id :: u64
  ls_generation :: u64
  ls_filter :: string
  ls_rows :: "json list"
  ls_expires :: time_point
  ls_bytes :: nat

record TaskListQuery =
  tl_snapshots :: "list_snapshot list"
  tl_next :: u64

definition new_task_lists :: TaskListQuery where
  "new_task_lists = \<lparr>tl_snapshots = [], tl_next = 0\<rparr>"

definition list_budget :: nat where
  "list_budget = 64 * 1024 * 1024"

definition kSnapshotLife :: time_point where
  "kSnapshotLife = 120000000000"

text \<open>The filters of a list query, read from its fields.\<close>

record list_filter =
  lf_view :: string
  lf_status :: string
  lf_target :: string
  lf_revision :: string
  lf_batch :: string

definition task_statuses :: "string list" where
  "task_statuses = [''PENDING'', ''QUEUED'', ''ASSIGNED'', ''RUNNING'', ''SUCCEEDED'', ''FAILED'', ''TIMEOUT'', ''CANCELLED'']"

definition read_list_filter :: "json \<Rightarrow> exn + list_filter" where
  "read_list_filter q =
     rbind (query_text q ''view'' 16) (\<lambda>view.
     if view \<noteq> [] \<and> view \<noteq> ''groups'' then Inl (Invalid_argument ''unknown task view'')
     else
       rbind (query_text q ''status'' 16) (\<lambda>status.
       rbind (query_text q ''target'' 128) (\<lambda>target.
       rbind (query_text q ''revision'' 128) (\<lambda>revision.
       rbind (query_text q ''batch_id'' 128) (\<lambda>batch.
       if status \<noteq> [] \<and> status \<notin> set task_statuses then Inl (Invalid_argument ''unknown status'')
       else Inr \<lparr>lf_view = view, lf_status = status, lf_target = target, lf_revision = revision, lf_batch = batch\<rparr>)))))"

definition list_row :: "Task \<Rightarrow> string \<Rightarrow> json \<Rightarrow> json" where
  "list_row t grp summary =
     fold (\<lambda>(k, v) row. jset row k v) (members summary)
       (jobject [(''task_id'', JUnsigned (t_id t)), (''task_type'', JString (type_toString (t_type t))),
          (''status'', JString (toString (t_status t))), (''target'', JString (t_target t)),
          (''revision'', JString (t_revision t)), (''batch_id'', JString grp),
          (''worker_id'', JString (t_worker_id t)), (''run_id'', JString (t_run_id t)),
          (''priority'', jint (t_priority t)), (''retry_count'', jint (t_retry_count t))])"

definition row_id :: "json \<Rightarrow> u64" where
  "row_id row = get_u64 (jget row ''task_id'')"

text \<open>One entry of the grouped view: the members of the JSON object the code builds.\<close>

record task_group =
  tg_representative :: json
  tg_counts :: json
  tg_outcomes :: json
  tg_total :: u64
  tg_created_at_ms :: json

definition business_outcome :: "Task \<Rightarrow> exn + string" where
  "business_outcome t =
     (let s = toString (t_status t); execution = t_execution_summary t in
      if s = ''SUCCEEDED'' then
        (if is_object execution
         then rbind (jvalue_string execution ''case_status'') (\<lambda>cs. Inr (if cs = ''PASS'' then ''PASS'' else ''UNKNOWN''))
         else Inr ''UNKNOWN'')
      else if s = ''FAILED'' then
        rbind (if is_object execution then jvalue_string execution ''case_status'' else Inr []) (\<lambda>cs.
          Inr (if cs = ''FAIL'' then ''FAIL'' else if cs = ''CRASH'' then ''CRASH'' else ''ERROR''))
      else Inr s)"

definition group_key :: "Task \<Rightarrow> string \<Rightarrow> string" where
  "group_key t grp = (if grp = [] then ''single-'' @ dec_of_nat (unat (t_id t)) else grp)"

definition group_add :: "Task \<Rightarrow> json \<Rightarrow> task_group \<Rightarrow> exn + task_group" where
  "group_add t row g =
     (let g1 = (if get_i64 (jget row ''created_at_ms'') < get_i64 (tg_created_at_ms g)
                then g\<lparr>tg_created_at_ms := jget row ''created_at_ms''\<rparr> else g);
          g2 = (if row_id (tg_representative g1) < t_id t then g1\<lparr>tg_representative := row\<rparr> else g1);
          g3 = g2\<lparr>tg_counts := jincrement (toString (t_status t)) (tg_counts g2), tg_total := tg_total g2 + 1\<rparr> in
      rbind (business_outcome t) (\<lambda>business. Inr (g3\<lparr>tg_outcomes := jincrement business (tg_outcomes g3)\<rparr>)))"

text \<open>What the visitor accumulates.\<close>

record list_scan =
  sn_rows :: "json list"
  sn_groups :: "(string \<times> task_group) list"
  sn_retained :: nat

definition open_group :: "json_codec \<Rightarrow> string \<Rightarrow> json \<Rightarrow> list_scan \<Rightarrow> exn + task_group \<times> nat" where
  "open_group jc key row st =
     (case map_of (sn_groups st) key of
        Some g \<Rightarrow> Inr (g, sn_retained st)
      | None \<Rightarrow>
          rbind (dump_size jc row) (\<lambda>n.
            let retained = sn_retained st + (n + 512) in
            if list_budget < retained then Inl (Invalid_argument ''task query too broad; narrow filters'')
            else Inr (\<lparr>tg_representative = row, tg_counts = JObject [], tg_outcomes = JObject [], tg_total = 0,
                       tg_created_at_ms = jget row ''created_at_ms''\<rparr>, retained)))"

definition scan_group :: "json_codec \<Rightarrow> Task \<Rightarrow> string \<Rightarrow> json \<Rightarrow> list_scan \<Rightarrow> exn + list_scan" where
  "scan_group jc t grp row st =
     (let key = group_key t grp in
      rbind (open_group jc key row st) (\<lambda>(g, retained).
      rbind (group_add t row g) (\<lambda>g'.
        Inr (st\<lparr>sn_groups := omap_set key g' (sn_groups st), sn_retained := retained\<rparr>))))"

definition scan_row :: "json_codec \<Rightarrow> json \<Rightarrow> list_scan \<Rightarrow> exn + list_scan" where
  "scan_row jc row st =
     rbind (dump_size jc row) (\<lambda>n.
       let retained = sn_retained st + n in
       if list_budget < retained then Inl (Invalid_argument ''task query too broad; select a batch'')
       else Inr (st\<lparr>sn_rows := sn_rows st @ [row], sn_retained := retained\<rparr>))"

definition visit_task :: "json_codec \<Rightarrow> list_filter \<Rightarrow> Task \<Rightarrow> list_scan \<Rightarrow> exn + list_scan" where
  "visit_task jc f t st =
     rbind (taskListSummary jc t) (\<lambda>summary.
     rbind (jvalue_string (jget (jget summary ''payload'') ''context'') ''batch_id'') (\<lambda>grp.
     if (lf_target f \<noteq> [] \<and> t_target t \<noteq> lf_target f) \<or> (lf_revision f \<noteq> [] \<and> t_revision t \<noteq> lf_revision f)
        \<or> (lf_batch f \<noteq> [] \<and> grp \<noteq> lf_batch f)
     then Inr st
     else
       (let row = list_row t grp summary in
        if lf_view f = ''groups'' then scan_group jc t grp row st
        else if lf_status f = [] \<or> toString (t_status t) = lf_status f then scan_row jc row st
        else Inr st)))"

fun visit_all :: "json_codec \<Rightarrow> list_filter \<Rightarrow> Task list \<Rightarrow> list_scan \<Rightarrow> exn + list_scan" where
  "visit_all jc f [] st = Inr st"
| "visit_all jc f (t # ts) st = rbind (visit_task jc f t st) (visit_all jc f ts)"

definition group_row :: "task_group \<Rightarrow> json" where
  "group_row g =
     jset (jset (tg_representative g) ''created_at_ms'' (tg_created_at_ms g)) ''group_summary''
       (jobject [(''counts'', tg_counts g), (''outcomes'', tg_outcomes g), (''total'', JUnsigned (tg_total g))])"

definition group_rows :: "list_filter \<Rightarrow> list_scan \<Rightarrow> json list" where
  "group_rows f st =
     (if lf_view f = ''groups''
      then map (\<lambda>(k, g). group_row g)
             (filter (\<lambda>(k, g). lf_status f = [] \<or> get_u64 (jget (tg_counts g) (lf_status f)) \<noteq> 0) (sn_groups st))
      else [])"

text \<open>The rows of a new snapshot, newest task first, and its generation.\<close>

definition list_rows :: "env \<Rightarrow> list_filter \<Rightarrow> sys \<Rightarrow> exn + (json list \<times> u64)" where
  "list_rows e f s =
     rbind (visitTasks e (lf_batch f) s) (\<lambda>(ts, captured).
     rbind (visit_all (e_codec e) f ts \<lparr>sn_rows = [], sn_groups = [], sn_retained = 0\<rparr>) (\<lambda>st.
       Inr (sort_key (\<lambda>row. - uint (row_id row)) (sn_rows st @ group_rows f st), captured)))"

text \<open>Old snapshots go, oldest first, until at most seven are left and all fit the budget.\<close>

fun make_room :: "nat \<Rightarrow> list_snapshot list \<Rightarrow> list_snapshot list" where
  "make_room amount [] = []"
| "make_room amount (s # ss) =
     (if 8 \<le> length (s # ss) \<or> list_budget < amount then make_room (amount - ls_bytes s) ss else s # ss)"

definition keep_snapshot :: "time_point \<Rightarrow> string \<Rightarrow> json list \<Rightarrow> u64 \<Rightarrow> nat \<Rightarrow> TaskListQuery \<Rightarrow> list_snapshot \<times> TaskListQuery" where
  "keep_snapshot now identity rows captured bytes st =
     (let kept = make_room (bytes + sum_list (map ls_bytes (tl_snapshots st))) (tl_snapshots st);
          s = \<lparr>ls_id = tl_next st + 1, ls_generation = captured, ls_filter = identity, ls_rows = rows,
               ls_expires = now + kSnapshotLife, ls_bytes = bytes\<rparr> in
      (s, \<lparr>tl_snapshots = kept @ [s], tl_next = tl_next st + 1\<rparr>))"

definition list_page :: "nat \<Rightarrow> u64 \<Rightarrow> list_snapshot \<Rightarrow> json" where
  "list_page n before s =
     (let (items, more) = page n (filter (\<lambda>row. \<not> (before \<noteq> 0 \<and> before \<le> row_id row)) (ls_rows s)) in
      jobject [(''items'', JArray items), (''total'', juint (length (ls_rows s))), (''has_more'', JBool more),
        (''next_before_task_id'', if more then jget (last items) ''task_id'' else JNull),
        (''snapshot_generation'', JUnsigned (ls_id s)), (''snapshot_scope'', JString ''immutable_query'')])"

definition expired_list :: "exn + json" where
  "expired_list = Inl (Invalid_argument ''task snapshot expired; restart query from first page'')"

text \<open>The last snapshot a condition holds of, as both loops over the snapshots leave it.\<close>

definition last_such :: "(list_snapshot \<Rightarrow> bool) \<Rightarrow> list_snapshot list \<Rightarrow> list_snapshot option" where
  "last_such P ss = find P (rev ss)"

definition new_list :: "env \<Rightarrow> time_point \<Rightarrow> json \<Rightarrow> nat \<Rightarrow> string \<Rightarrow> sys \<Rightarrow> (TaskListQuery, json) op" where
  "new_list e now q n identity s st =
     (case rbind (read_list_filter q) (\<lambda>f.
             rbind (list_rows e f s) (\<lambda>(rows, captured).
             rbind (dump_size (e_codec e) (JArray rows)) (\<lambda>bytes.
             if list_budget < bytes
             then Inl (Invalid_argument ''task query too broad; select a batch or use grouped view'')
             else Inr (rows, captured, bytes)))) of
        Inl x \<Rightarrow> (Inl x, st)
      | Inr (rows, captured, bytes) \<Rightarrow>
          (case keep_snapshot now identity rows captured bytes st of
             (snap, st1) \<Rightarrow> (Inr (list_page n 0 snap), st1)))"

text \<open>
  The query. The first page of a list that did not change is answered from its snapshot: the code
  calls itself with that snapshot's id, which takes the branch of a continued query.
\<close>

definition list_query :: "env \<Rightarrow> time_point \<Rightarrow> json \<Rightarrow> sys \<Rightarrow> (TaskListQuery, json) op" where
  "list_query e now q s st =
     (case rbind (query_validate q [''status'', ''target'', ''revision'', ''batch_id'', ''limit'', ''before_task_id'',
                                    ''snapshot_generation'', ''view'']) (\<lambda>_.
             rbind (query_limit q) (\<lambda>n.
             rbind (query_positive q ''before_task_id'' 0) (\<lambda>before.
             rbind (query_positive q ''snapshot_generation'' 0) (\<lambda>token.
             case jdump (e_codec e) (JObject (AList.delete ''snapshot_generation'' (AList.delete ''before_task_id''
                                       (AList.delete ''limit'' (members q))))) of
               None \<Rightarrow> Inl (Json_error ''dump'')
             | Some identity \<Rightarrow> Inr (n, before, token, identity))))) of
        Inl x \<Rightarrow> (Inl x, st)
      | Inr (n, before, token, identity) \<Rightarrow>
          (let live = dropWhile (\<lambda>p. ls_expires p \<le> now) (tl_snapshots st); st1 = st\<lparr>tl_snapshots := live\<rparr>;
               answer = (\<lambda>before P. case last_such P live of None \<Rightarrow> expired_list | Some p \<Rightarrow> Inr (list_page n before p)) in
           if token \<noteq> 0 then (answer before (\<lambda>p. ls_id p = token \<and> ls_filter p = identity), st1)
           else if before \<noteq> 0 then (answer before (\<lambda>p. ls_filter p = identity), st1)
           else
             (case find (\<lambda>p. ls_generation p = taskGeneration s \<and> ls_filter p = identity) live of
                Some saved \<Rightarrow>
                  if ls_id saved = 0 then (Inl (Invalid_argument ''expected positive integer''), st1)
                  else (answer 0 (\<lambda>p. ls_id p = ls_id saved \<and> ls_filter p = identity), st1)
              | None \<Rightarrow> new_list e now q n identity s st1)))"

end
