(* ===== verification/Progress.thy ===== *)
theory Progress
  imports Queries
begin

text \<open>
  \<^verbatim>\<open>server/src/ProgressService.cpp\<close>: the progress of a target over its numeric revisions, from the
  latest attempt of every case at every revision, and the cases that passed at one revision and
  fail at another. The maps of the code are sorted maps; the order of revisions, shorter first and
  then lexicographic, is the order of the pairs of length and text.
\<close>

section \<open>Fields of a task\<close>

definition stringField :: "json \<Rightarrow> string \<Rightarrow> string" where
  "stringField v key =
     (if \<not> is_object v \<or> \<not> contains v key \<or> \<not> is_string (jget v key) then [] else str_of (jget v key))"

definition numericRevision :: "string \<Rightarrow> string" where
  "numericRevision v =
     (if v = [] \<or> 32 < length v \<or> \<not> list_all (\<lambda>c. CHR ''0'' \<le> c \<and> c \<le> CHR ''9'') v then []
      else
        (case dropWhile (\<lambda>c. c = CHR ''0'') v of [] \<Rightarrow> ''0'' | rest \<Rightarrow> rest))"

type_synonym revision_key = "nat \<times> string"

definition revision_key :: "string \<Rightarrow> revision_key" where
  "revision_key r = (length r, r)"

definition revision_less :: "string \<Rightarrow> string \<Rightarrow> bool" where
  "revision_less a b = (if length a \<noteq> length b then length a < length b else a < b)"

lemma revision_less_key: "revision_less a b \<longleftrightarrow> revision_key a < revision_key b"
  by (auto simp: revision_less_def revision_key_def)

definition progress_outcome :: "Task \<Rightarrow> string" where
  "progress_outcome t =
     (let case_status = stringField (t_execution_summary t) ''case_status'' in
      if t_status t = SUCCEEDED \<and> case_status = ''PASS'' then ''PASS''
      else if t_status t = FAILED \<and> case_status = ''FAIL'' then ''FAIL''
      else if t_status t = PENDING \<or> t_status t = QUEUED \<or> t_status t = ASSIGNED \<or> t_status t = RUNNING then ''ACTIVE''
      else if t_status t = TIMEOUT then ''TIMEOUT''
      else if t_status t = CANCELLED then ''CANCELLED''
      else if t_status t = FAILED then (if case_status = ''CRASH'' then ''CRASH'' else ''ERROR'')
      else ''UNKNOWN'')"

section \<open>Queries\<close>

definition validText :: "json \<Rightarrow> string \<Rightarrow> nat \<Rightarrow> bool \<Rightarrow> string option" where
  "validText q key maximum required =
     (if \<not> contains q key then (if required then None else Some [])
      else if \<not> is_string (jget q key) then None
      else if str_of (jget q key) = [] \<or> maximum < length (str_of (jget q key)) then None
      else Some (str_of (jget q key)))"

definition validLimit :: "json \<Rightarrow> nat \<Rightarrow> nat \<Rightarrow> nat option" where
  "validLimit q fallback maximum =
     (if \<not> contains q ''limit'' then Some fallback
      else if \<not> is_number_integer (jget q ''limit'') then None
      else
        (let v = get_i64 (jget q ''limit'') in
         if v < 1 \<or> int maximum < v then None else Some (nat v)))"

definition only_keys :: "json \<Rightarrow> string list \<Rightarrow> bool" where
  "only_keys q keys \<longleftrightarrow> list_all (\<lambda>(k, v). k \<in> set keys) (members q)"

text \<open>An optional positive task id.\<close>

definition optional_id :: "json \<Rightarrow> string \<Rightarrow> u64 option" where
  "optional_id q key =
     (if \<not> contains q key then Some 0
      else if \<not> is_number_integer (jget q key) then None
      else if \<not> is_number_unsigned (jget q key) \<and> get_i64 (jget q key) \<le> 0 then None
      else if get_u64 (jget q key) = 0 then None else Some (get_u64 (jget q key)))"

record ProgressQuery =
  pq_target :: string
  pq_flow :: string
  pq_before_revision :: string
  pq_limit :: nat

definition ProgressQuery_parse :: "json \<Rightarrow> ProgressQuery option" where
  "ProgressQuery_parse q =
     (if \<not> is_object q \<or> 4 < jsize q \<or> \<not> only_keys q [''target'', ''flow'', ''limit'', ''before_revision''] then None
      else
        (case (validText q ''target'' 128 True, validText q ''flow'' 64 False, validLimit q 20 20,
               validText q ''before_revision'' 32 False) of
           (Some target, Some flow, Some limit, Some before) \<Rightarrow>
             if before \<noteq> [] \<and> numericRevision before = [] then None
             else Some \<lparr>pq_target = target, pq_flow = flow,
                        pq_before_revision = (if before \<noteq> [] then numericRevision before else []), pq_limit = limit\<rparr>
         | _ \<Rightarrow> None))"

record RollbackQuery =
  rq_target :: string
  rq_flow :: string
  rq_from_revision :: string
  rq_to_revision :: string
  rq_after_task_id :: u64
  rq_limit :: nat

definition RollbackQuery_parse :: "json \<Rightarrow> RollbackQuery option" where
  "RollbackQuery_parse q =
     (if \<not> is_object q \<or> 6 < jsize q
         \<or> \<not> only_keys q [''target'', ''flow'', ''from_revision'', ''to_revision'', ''limit'', ''after_task_id''] then None
      else
        (case (validText q ''target'' 128 True, validText q ''flow'' 64 False, validText q ''from_revision'' 32 True,
               validText q ''to_revision'' 32 True, validLimit q 50 50) of
           (Some target, Some flow, Some first, Some second, Some limit) \<Rightarrow>
             (let a = numericRevision first; b = numericRevision second in
              if a = [] \<or> b = [] \<or> \<not> revision_less a b then None
              else
                map_option (\<lambda>i. \<lparr>rq_target = target, rq_flow = flow, rq_from_revision = a, rq_to_revision = b,
                                  rq_after_task_id = i, rq_limit = limit\<rparr>) (optional_id q ''after_task_id''))
         | _ \<Rightarrow> None))"

section \<open>Latest attempts\<close>

type_synonym cases = "(string \<times> Task) list"
type_synonym revisions = "(revision_key \<times> cases) list"

definition caseKey :: "Task \<Rightarrow> string" where
  "caseKey t =
     (let path = stringField (t_payload t) ''case'' in
      if path = [] then [] else path @ [CHR 0x00] @ stringField (t_payload t) ''flow'')"

definition collected :: "string \<Rightarrow> string \<Rightarrow> Task \<Rightarrow> bool" where
  "collected target flow t \<longleftrightarrow>
     t_type t = REGRESSION \<and> t_target t = target \<and> numericRevision (t_revision t) \<noteq> [] \<and> caseKey t \<noteq> []
     \<and> (flow = [] \<or> stringField (t_payload t) ''flow'' = flow)"

definition collect_task :: "string \<Rightarrow> string \<Rightarrow> Task \<Rightarrow> revisions \<Rightarrow> revisions" where
  "collect_task target flow t m =
     (if \<not> collected target flow t then m
      else
        (let r = revision_key (numericRevision (t_revision t));
             cs = (case map_of m r of None \<Rightarrow> [] | Some cs \<Rightarrow> cs) in
         omap_set r (case map_of cs (caseKey t) of
                       None \<Rightarrow> omap_set (caseKey t) t cs
                     | Some prior \<Rightarrow> if t_id prior < t_id t then omap_set (caseKey t) t cs else cs) m))"

definition collect :: "Task list \<Rightarrow> string \<Rightarrow> string \<Rightarrow> revisions" where
  "collect ts target flow = fold (collect_task target flow) ts []"

definition went :: "string \<Rightarrow> string \<Rightarrow> cases \<Rightarrow> string \<times> Task \<Rightarrow> bool" where
  "went before after previous entry \<longleftrightarrow>
     (case map_of previous (fst entry) of
        None \<Rightarrow> False
      | Some old \<Rightarrow> progress_outcome old = before \<and> progress_outcome (snd entry) = after)"

definition transitions :: "cases \<Rightarrow> cases \<Rightarrow> nat \<times> nat" where
  "transitions previous current =
     (length (filter (went ''PASS'' ''FAIL'' previous) current), length (filter (went ''FAIL'' ''PASS'' previous) current))"

section \<open>Progress\<close>

definition zero_counts :: "string list \<Rightarrow> json" where
  "zero_counts names = jobject (map (\<lambda>n. (n, jint 0)) names)"

definition progress_row :: "revision_key \<times> cases \<Rightarrow> (revision_key \<times> cases) option \<Rightarrow> json" where
  "progress_row r prior =
     (let counts = fold (\<lambda>(k, t). jincrement (progress_outcome t)) (snd r)
                     (zero_counts [''PASS'', ''FAIL'', ''ACTIVE'', ''TIMEOUT'', ''CRASH'', ''ERROR'', ''CANCELLED'', ''UNKNOWN'']);
          (rollbacks, fixes) = (case prior of None \<Rightarrow> (0, 0) | Some p \<Rightarrow> transitions (snd p) (snd r));
          new_cases = (case prior of None \<Rightarrow> 0
                       | Some p \<Rightarrow> length (filter (\<lambda>(k, t). map_of (snd p) k = None) (snd r)));
          missing = (case prior of None \<Rightarrow> 0
                     | Some p \<Rightarrow> length (filter (\<lambda>(k, t). map_of (snd r) k = None) (snd p))) in
      jobject [(''revision'', JString (snd (fst r))), (''cases'', juint (length (snd r))), (''counts'', counts),
        (''previous_revision'', case prior of None \<Rightarrow> JNull | Some p \<Rightarrow> JString (snd (fst p))),
        (''rollback_count'', juint rollbacks), (''fixed_count'', juint fixes),
        (''new_cases'', juint new_cases), (''missing_cases'', juint missing)])"

text \<open>The loop over the revisions, the highest first; the next one in the list is the previous revision.\<close>

fun progress_loop :: "ProgressQuery \<Rightarrow> revisions \<Rightarrow> json list \<Rightarrow> json list \<times> bool" where
  "progress_loop q [] rows = (rows, False)"
| "progress_loop q (r # rest) rows =
     (if pq_before_revision q \<noteq> [] \<and> \<not> revision_less (snd (fst r)) (pq_before_revision q) then progress_loop q rest rows
      else if length rows = pq_limit q then (rows, True)
      else progress_loop q rest (rows @ [progress_row r (case rest of [] \<Rightarrow> None | p # _ \<Rightarrow> Some p)]))"

definition queryProgress :: "env \<Rightarrow> ProgressQuery \<Rightarrow> sys \<Rightarrow> exn + json" where
  "queryProgress e q s =
     rbind (visitTasks e [] s) (\<lambda>(visited, generation).
       let ts = filter (\<lambda>t. t_target t = pq_target q
                            \<and> (pq_flow q = [] \<or> stringField (t_payload t) ''flow'' = pq_flow q)) visited;
           revisions = collect ts (pq_target q) (pq_flow q);
           (rows, more) = progress_loop q (rev revisions) [] in
       Inr (jobject [(''target'', JString (pq_target q)), (''flow'', JString (pq_flow q)),
              (''snapshot_generation'', JUnsigned generation), (''total_revisions'', juint (length revisions)),
              (''revisions'', JArray rows), (''has_more'', JBool more),
              (''next_before_revision'', if more then jget (last rows) ''revision'' else JNull)]))"

section \<open>Rollbacks\<close>

definition rollback_item :: "RollbackQuery \<Rightarrow> Task \<Rightarrow> Task \<Rightarrow> u64 \<times> json" where
  "rollback_item q prior t =
     (t_id t, jobject [(''case'', JString (stringField (t_payload t) ''case'')),
        (''flow'', JString (stringField (t_payload t) ''flow'')), (''previous_task_id'', JUnsigned (t_id prior)),
        (''current_task_id'', JUnsigned (t_id t)), (''previous_revision'', JString (rq_from_revision q)),
        (''current_revision'', JString (rq_to_revision q))])"

definition rollback_matches :: "RollbackQuery \<Rightarrow> revisions \<Rightarrow> (u64 \<times> json) list" where
  "rollback_matches q revisions =
     (case (map_of revisions (revision_key (rq_from_revision q)), map_of revisions (revision_key (rq_to_revision q))) of
        (Some old, Some current) \<Rightarrow>
          concat (map (\<lambda>(k, t). case map_of old k of
                                  None \<Rightarrow> []
                                | Some prior \<Rightarrow>
                                    if progress_outcome prior = ''PASS'' \<and> progress_outcome t = ''FAIL''
                                    then [rollback_item q prior t] else []) current)
      | _ \<Rightarrow> [])"

definition rollback_visited :: "RollbackQuery \<Rightarrow> Task \<Rightarrow> bool" where
  "rollback_visited q t \<longleftrightarrow>
     t_target t = rq_target q
     \<and> (numericRevision (t_revision t) = rq_from_revision q \<or> numericRevision (t_revision t) = rq_to_revision q)
     \<and> (rq_flow q = [] \<or> stringField (t_payload t) ''flow'' = rq_flow q)"

definition queryRollbacks :: "env \<Rightarrow> RollbackQuery \<Rightarrow> sys \<Rightarrow> exn + json" where
  "queryRollbacks e q s =
     rbind (visitTasks e [] s) (\<lambda>(visited, generation).
       let revisions = collect (filter (rollback_visited q) visited) (rq_target q) (rq_flow q);
           found = sort_key fst (rollback_matches q revisions);
           (items, more) = page (rq_limit q) (map snd (filter (\<lambda>(i, j). \<not> i \<le> rq_after_task_id q) found)) in
       Inr (jobject [(''target'', JString (rq_target q)), (''flow'', JString (rq_flow q)),
              (''from_revision'', JString (rq_from_revision q)), (''to_revision'', JString (rq_to_revision q)),
              (''snapshot_generation'', JUnsigned generation),
              (''from_available'', JBool (map_of revisions (revision_key (rq_from_revision q)) \<noteq> None)),
              (''to_available'', JBool (map_of revisions (revision_key (rq_to_revision q)) \<noteq> None)),
              (''total'', juint (length found)), (''items'', JArray items), (''has_more'', JBool more),
              (''next_after_task_id'', if more then jget (last items) ''current_task_id'' else JNull)]))"

end
