(* ===== verification/Regression.thy ===== *)
theory Regression
  imports Progress
begin

text \<open>
  \<^verbatim>\<open>server/src/RegressionService.cpp\<close>: the regression query with its counts and pages, the cache of
  its answers, and the comparison of two days. The cache is a hash table: which entry
  \<^verbatim>\<open>cache_.begin()\<close> is, is not specified, so the position evicted is a parameter of a query, as are
  the configuration of the cache and the reading of the steady clock.
\<close>

section \<open>Query\<close>

definition readFilter :: "json \<Rightarrow> string \<Rightarrow> nat \<Rightarrow> string option" where
  "readFilter q name max_length = validText q name max_length False"

definition batchOf :: "json \<Rightarrow> string" where
  "batchOf payload =
     (if \<not> is_object payload \<or> \<not> contains payload ''context'' then []
      else stringField (jget payload ''context'') ''batch_id'')"

definition contextOf :: "Task \<Rightarrow> string \<Rightarrow> string" where
  "contextOf t key =
     (if is_object (t_payload t) \<and> contains (t_payload t) ''context''
      then stringField (jget (t_payload t) ''context'') key else [])"

definition is_digit :: "char \<Rightarrow> bool" where
  "is_digit c \<longleftrightarrow> CHR ''0'' \<le> c \<and> c \<le> CHR ''9''"

text \<open>\<^verbatim>\<open>std::stoi\<close> of a text of digits.\<close>

definition digits_value :: "string \<Rightarrow> nat" where
  "digits_value s = fold (\<lambda>c n. 10 * n + (of_char c - 48)) s 0"

definition validDate :: "string \<Rightarrow> bool" where
  "validDate v \<longleftrightarrow>
     length v = 10 \<and> v ! 4 = CHR ''-'' \<and> v ! 7 = CHR ''-''
     \<and> list_all (\<lambda>i. i = 4 \<or> i = 7 \<or> is_digit (v ! i)) [0..<10]
     \<and> (let y = digits_value (take 4 v); m = digits_value (take 2 (drop 5 v)); d = digits_value (take 2 (drop 8 v)) in
        1 \<le> y \<and> 1 \<le> m \<and> m \<le> 12 \<and> 1 \<le> d
        \<and> d \<le> [31, 28, 31, 30, 31, 30, 31, 31, 30, 31, 30, 31] ! (m - 1)
               + (if m = 2 \<and> y mod 4 = 0 \<and> (y mod 100 \<noteq> 0 \<or> y mod 400 = 0) then 1 else 0))"

definition outcomeOf :: "Task \<Rightarrow> string" where
  "outcomeOf t =
     (if t_status t = TIMEOUT then ''TIMEOUT''
      else if t_status t = CANCELLED then ''CANCELLED''
      else if t_status t = PENDING \<or> t_status t = QUEUED \<or> t_status t = ASSIGNED \<or> t_status t = RUNNING then ''ACTIVE''
      else
        (let case_status = stringField (t_execution_summary t) ''case_status'' in
         if t_status t = SUCCEEDED \<and> case_status = ''PASS'' then ''PASS''
         else if t_status t = FAILED
         then (if case_status = ''FAIL'' then ''FAIL'' else if case_status = ''CRASH'' then ''CRASH'' else ''ERROR'')
         else ''UNKNOWN''))"

record RegressionQuery =
  gq_revision :: string
  gq_case :: string
  gq_flow :: string
  gq_batch_id :: string
  gq_date :: string
  gq_baseline_date :: string
  gq_template :: string
  gq_search :: string
  gq_change :: string
  gq_after_key :: string
  gq_limit :: nat
  gq_before_task_id :: u64

definition change_names :: "string list" where
  "change_names = [''REGRESSION'', ''IMPROVEMENT'', ''MISSING'', ''EXCEPTION'', ''UNCHANGED'']"

text \<open>The fields as text, before the checks between them.\<close>

definition read_regression :: "json \<Rightarrow> RegressionQuery option" where
  "read_regression q =
     (case (readFilter q ''revision'' 128, readFilter q ''case'' 512, readFilter q ''flow'' 64, readFilter q ''batch_id'' 128,
            readFilter q ''date'' 10, readFilter q ''baseline_date'' 10, readFilter q ''template'' 64,
            readFilter q ''search'' 512, readFilter q ''change'' 32, readFilter q ''after_key'' 1024) of
        (Some revision, Some path, Some flow, Some batch, Some date, Some baseline, Some template, Some search,
         Some change, Some after) \<Rightarrow>
          Some \<lparr>gq_revision = revision, gq_case = path, gq_flow = flow, gq_batch_id = batch, gq_date = date,
                gq_baseline_date = baseline, gq_template = template, gq_search = search, gq_change = change,
                gq_after_key = after, gq_limit = 20, gq_before_task_id = 0\<rparr>
      | _ \<Rightarrow> None)"

definition inconsistent :: "json \<Rightarrow> RegressionQuery \<Rightarrow> bool" where
  "inconsistent q r \<longleftrightarrow>
     (gq_revision r = [] \<and> gq_case r = [] \<and> gq_batch_id r = [] \<and> gq_date r = [])
     \<or> (gq_date r \<noteq> [] \<and> \<not> validDate (gq_date r))
     \<or> (gq_baseline_date r \<noteq> [] \<and> (\<not> validDate (gq_baseline_date r) \<or> gq_date r = []))
     \<or> (gq_baseline_date r = [] \<and> (gq_after_key r \<noteq> [] \<or> gq_change r \<noteq> [] \<or> gq_search r \<noteq> []))
     \<or> (gq_baseline_date r \<noteq> [] \<and> (contains q ''before_task_id'' \<or> gq_revision r \<noteq> [] \<or> gq_batch_id r \<noteq> []
          \<or> gq_case r \<noteq> [] \<or> gq_flow r \<noteq> []))
     \<or> (gq_change r \<noteq> [] \<and> gq_change r \<notin> set change_names)"

definition RegressionQuery_parse :: "json \<Rightarrow> RegressionQuery option" where
  "RegressionQuery_parse q =
     (if \<not> is_object q \<or> 12 < jsize q
         \<or> \<not> only_keys q [''revision'', ''case'', ''flow'', ''batch_id'', ''limit'', ''before_task_id'', ''date'',
                          ''baseline_date'', ''template'', ''search'', ''change'', ''after_key''] then None
      else
        (case read_regression q of
           None \<Rightarrow> None
         | Some r \<Rightarrow>
             if inconsistent q r then None
             else
               (case (validLimit q 20 50, optional_id q ''before_task_id'') of
                  (Some limit, Some before) \<Rightarrow> Some (r\<lparr>gq_limit := limit, gq_before_task_id := before\<rparr>)
                | _ \<Rightarrow> None)))"

definition regression_matches :: "RegressionQuery \<Rightarrow> Task \<Rightarrow> bool" where
  "regression_matches f t \<longleftrightarrow>
     t_type t = REGRESSION \<and> is_object (t_payload t) \<and> stringField (t_payload t) ''case'' \<noteq> []
     \<and> (gq_revision f = [] \<or> t_revision t = gq_revision f)
     \<and> (gq_case f = [] \<or> stringField (t_payload t) ''case'' = gq_case f)
     \<and> (gq_flow f = [] \<or> stringField (t_payload t) ''flow'' = gq_flow f)
     \<and> (gq_batch_id f = [] \<or> batchOf (t_payload t) = gq_batch_id f)
     \<and> (gq_template f = [] \<or> contextOf t ''template'' = gq_template f)
     \<and> (gq_date f = [] \<or> (contextOf t ''source'' = ''scheduled'' \<and> contextOf t ''date'' = gq_date f))"

definition rowOf :: "Task \<Rightarrow> json" where
  "rowOf t =
     (let row = jobject [(''task_id'', JUnsigned (t_id t)), (''revision'', JString (t_revision t)),
                  (''target'', JString (t_target t)), (''case'', JString (stringField (t_payload t) ''case'')),
                  (''flow'', JString (stringField (t_payload t) ''flow'')), (''batch_id'', JString (batchOf (t_payload t))),
                  (''status'', JString (toString (t_status t))), (''outcome'', JString (outcomeOf t)),
                  (''worker_id'', JString (t_worker_id t)), (''run_id'', JString (t_run_id t)),
                  (''retry_count'', jint (t_retry_count t)), (''created_at_ms'', jint (millis (t_created_at t)))];
          row1 = fold (\<lambda>key j. jset j key (JString (contextOf t key))) [''template'', ''source'', ''date''] row;
          row2 = put_time ''finished_at_ms'' (t_finished_at t) row1 in
      fold (\<lambda>key j. let v = stringField (t_execution_summary t) key in if v \<noteq> [] then jset j key (JString v) else j)
        [''reason'', ''case_status'', ''case_reason''] row2)"

section \<open>Pages with counts\<close>

record regression_scan =
  rn_counts :: json
  rn_rows :: "json list"
  rn_total :: nat
  rn_more :: bool

definition regression_visit :: "RegressionQuery \<Rightarrow> Task \<Rightarrow> regression_scan \<Rightarrow> regression_scan" where
  "regression_visit f t st =
     (if \<not> regression_matches f t then st
      else
        (let st1 = st\<lparr>rn_total := rn_total st + 1, rn_counts := jincrement (outcomeOf t) (rn_counts st)\<rparr> in
         if gq_before_task_id f \<noteq> 0 \<and> gq_before_task_id f \<le> t_id t then st1
         else if length (rn_rows st1) < gq_limit f then st1\<lparr>rn_rows := rn_rows st1 @ [rowOf t]\<rparr>
         else st1\<lparr>rn_more := True\<rparr>))"

text \<open>The answer computed from the tasks, and the generation it is of.\<close>

definition regression_answer :: "env \<Rightarrow> RegressionQuery \<Rightarrow> sys \<Rightarrow> exn + json \<times> u64" where
  "regression_answer e f s =
     rbind (visitTasks e (gq_batch_id f) s) (\<lambda>(visited, generation).
       let ts = sort_key (\<lambda>t. - uint (t_id t)) (filter (regression_matches f) visited);
           st = fold (regression_visit f) ts
                  \<lparr>rn_counts = zero_counts [''PASS'', ''FAIL'', ''TIMEOUT'', ''CRASH'', ''ERROR'', ''CANCELLED'', ''ACTIVE'', ''UNKNOWN''],
                   rn_rows = [], rn_total = 0, rn_more = False\<rparr> in
       Inr (jobject [(''filters'', jobject [(''revision'', JString (gq_revision f)), (''case'', JString (gq_case f)),
                 (''flow'', JString (gq_flow f)), (''batch_id'', JString (gq_batch_id f)), (''date'', JString (gq_date f)),
                 (''template'', JString (gq_template f))]),
              (''total'', juint (rn_total st)), (''counts'', rn_counts st), (''items'', JArray (rn_rows st)),
              (''has_more'', JBool (rn_more st)),
              (''next_before_task_id'', if rn_more st then jget (last (rn_rows st)) ''task_id'' else JNull),
              (''snapshot_generation'', JUnsigned generation)], generation))"

section \<open>The cache\<close>

record CacheEntry =
  ce_response :: json
  ce_expires_at :: time_point

record RegressionService =
  rg_generation :: u64
  rg_cache :: "(string \<times> CacheEntry) list"
  rg_hits :: u64
  rg_misses :: u64
  rg_invalidations :: u64

definition new_regression_service :: RegressionService where
  "new_regression_service = \<lparr>rg_generation = 0, rg_cache = [], rg_hits = 0, rg_misses = 0, rg_invalidations = 0\<rparr>"

record cache_env =
  ca_enabled :: bool
  ca_max_entries :: nat
  ca_ttl_seconds :: int
  ca_now :: time_point
  ca_victim :: nat

definition cache_on :: "cache_env \<Rightarrow> bool" where
  "cache_on ca \<longleftrightarrow> ca_enabled ca \<and> ca_max_entries ca \<noteq> 0 \<and> 0 < ca_ttl_seconds ca"

definition cache_key :: "RegressionQuery \<Rightarrow> json" where
  "cache_key f =
     JArray [JString (gq_revision f), JString (gq_case f), JString (gq_flow f), JString (gq_batch_id f),
       juint (gq_limit f), JUnsigned (gq_before_task_id f), JString (gq_date f), JString (gq_template f)]"

definition cache_lookup :: "cache_env \<Rightarrow> u64 \<Rightarrow> string \<Rightarrow> RegressionService \<Rightarrow> json option \<times> RegressionService" where
  "cache_lookup ca generation key st =
     (let st1 = (if rg_generation st \<noteq> generation
                 then st\<lparr>rg_invalidations := (if rg_cache st \<noteq> [] then rg_invalidations st + 1 else rg_invalidations st),
                         rg_cache := [], rg_generation := generation\<rparr>
                 else st) in
      (case map_of (rg_cache st1) key of
         Some entry \<Rightarrow>
           if ca_now ca < ce_expires_at entry
           then (Some (ce_response entry), st1\<lparr>rg_hits := rg_hits st1 + 1\<rparr>)
           else (None, st1\<lparr>rg_misses := rg_misses st1 + 1\<rparr>)
       | None \<Rightarrow> (None, st1\<lparr>rg_misses := rg_misses st1 + 1\<rparr>)))"

definition evict_begin :: "nat \<Rightarrow> 'a list \<Rightarrow> 'a list" where
  "evict_begin victim xs = (let i = victim mod length xs in take i xs @ drop (Suc i) xs)"

definition cache_insert :: "cache_env \<Rightarrow> u64 \<Rightarrow> string \<Rightarrow> json \<Rightarrow> RegressionService \<Rightarrow> RegressionService" where
  "cache_insert ca generation key response st =
     (let st1 = (if rg_generation st \<noteq> generation then st\<lparr>rg_cache := [], rg_generation := generation\<rparr> else st);
          room = (if ca_max_entries ca \<le> length (rg_cache st1) \<and> map_of (rg_cache st1) key = None
                  then evict_begin (ca_victim ca) (rg_cache st1) else rg_cache st1) in
      st1\<lparr>rg_cache := AList.update key \<lparr>ce_response = response,
              ce_expires_at = ca_now ca + ca_ttl_seconds ca * 1000000000\<rparr> room\<rparr>)"

definition cacheStats :: "RegressionService \<Rightarrow> json" where
  "cacheStats st =
     jobject [(''hits'', JUnsigned (rg_hits st)), (''misses'', JUnsigned (rg_misses st)),
       (''invalidations'', JUnsigned (rg_invalidations st)), (''entries'', juint (length (rg_cache st)))]"

section \<open>Comparing two days\<close>

definition daily_case :: "Task \<Rightarrow> bool" where
  "daily_case t \<longleftrightarrow> t_type t = REGRESSION \<and> stringField (t_payload t) ''case'' \<noteq> []"

definition unclassified :: "Task \<Rightarrow> bool" where
  "unclassified t \<longleftrightarrow>
     contextOf t ''source'' \<noteq> ''scheduled'' \<or> contextOf t ''template'' = [] \<or> \<not> validDate (contextOf t ''date'')"

text \<open>The latest task of a case on the baseline day and on the day compared with it.\<close>

type_synonym day_pair = "Task option \<times> Task option"

record daily_scan =
  dy_excluded :: nat
  dy_duplicates :: nat
  dy_templates :: "(string \<times> unit) list"
  dy_pairs :: "(string \<times> day_pair) list"

definition latest_of :: "Task \<Rightarrow> Task option \<Rightarrow> Task option" where
  "latest_of t side = (case side of None \<Rightarrow> Some t | Some u \<Rightarrow> if t_id u < t_id t then Some t else side)"

definition daily_visit :: "RegressionQuery \<Rightarrow> Task \<Rightarrow> daily_scan \<Rightarrow> daily_scan" where
  "daily_visit f t st =
     (let day = contextOf t ''date''; stage = contextOf t ''template'' in
      if \<not> daily_case t then st
      else if unclassified t then st\<lparr>dy_excluded := dy_excluded st + 1\<rparr>
      else if day \<noteq> gq_date f \<and> day \<noteq> gq_baseline_date f then st
      else
        (let st1 = st\<lparr>dy_templates := omap_set stage () (dy_templates st)\<rparr> in
         if gq_template f \<noteq> [] \<and> stage \<noteq> gq_template f then st1
         else
           (let key = stage @ ''|'' @ stringField (t_payload t) ''case'';
                pair = (case map_of (dy_pairs st1) key of None \<Rightarrow> (None, None) | Some p \<Rightarrow> p);
                side = (if day = gq_baseline_date f then fst pair else snd pair);
                pair1 = (if day = gq_baseline_date f then (latest_of t (fst pair), snd pair)
                         else (fst pair, latest_of t (snd pair)));
                pair2 = (if gq_date f = gq_baseline_date f then (fst pair1, fst pair1) else pair1) in
            st1\<lparr>dy_duplicates := (if side \<noteq> None then dy_duplicates st1 + 1 else dy_duplicates st1),
                dy_pairs := omap_set key pair2 (dy_pairs st1)\<rparr>)))"

definition change_of :: "day_pair \<Rightarrow> string" where
  "change_of p =
     (case p of
        (Some a, Some b) \<Rightarrow>
          (let ao = outcomeOf a; bo = outcomeOf b in
           if ao = ''PASS'' \<and> bo = ''FAIL'' then ''REGRESSION''
           else if ao = ''FAIL'' \<and> bo = ''PASS'' then ''IMPROVEMENT''
           else if bo \<noteq> ''PASS'' \<and> bo \<noteq> ''FAIL'' then ''EXCEPTION'' else ''UNCHANGED'')
      | _ \<Rightarrow> ''MISSING'')"

definition side_outcome :: "Task option \<Rightarrow> string" where
  "side_outcome side = (case side of None \<Rightarrow> ''MISSING'' | Some t \<Rightarrow> outcomeOf t)"

definition pair_task :: "day_pair \<Rightarrow> Task" where
  "pair_task p = (case snd p of Some b \<Rightarrow> b | None \<Rightarrow> the (fst p))"

definition stage_add :: "day_pair \<Rightarrow> json \<Rightarrow> json" where
  "stage_add p stages =
     (let stage = contextOf (pair_task p) ''template'';
          stats = (if contains stages stage then jget stages stage
                   else jobject [(''total'', jint 0), (''baseline'', JObject []), (''comparison'', JObject []),
                                 (''changes'', zero_counts change_names)]);
          s1 = jincrement ''total'' stats;
          s2 = jset s1 ''baseline'' (jincrement (side_outcome (fst p)) (jget s1 ''baseline''));
          s3 = jset s2 ''comparison'' (jincrement (side_outcome (snd p)) (jget s2 ''comparison''));
          s4 = jset s3 ''changes'' (jincrement (change_of p) (jget s3 ''changes'')) in
      jset stages stage s4)"

text \<open>\<^verbatim>\<open>find(search) == npos\<close>: no suffix of the text starts with what is searched.\<close>

fun occurs :: "string \<Rightarrow> string \<Rightarrow> bool" where
  "occurs s [] = (s = [])"
| "occurs s (c # cs) = (take (length s) (c # cs) = s \<or> occurs s cs)"

record daily_page =
  dp_rows :: "json list"
  dp_counts :: json
  dp_stages :: json
  dp_total :: nat
  dp_more :: bool
  dp_last :: string

definition daily_row :: "string \<Rightarrow> day_pair \<Rightarrow> json" where
  "daily_row key p =
     jobject [(''key'', JString key), (''template'', JString (contextOf (pair_task p) ''template'')),
       (''case'', JString (stringField (t_payload (pair_task p)) ''case'')),
       (''baseline'', case fst p of None \<Rightarrow> JNull | Some a \<Rightarrow> rowOf a),
       (''comparison'', case snd p of None \<Rightarrow> JNull | Some b \<Rightarrow> rowOf b), (''change'', JString (change_of p))]"

definition daily_entry :: "RegressionQuery \<Rightarrow> string \<times> day_pair \<Rightarrow> daily_page \<Rightarrow> daily_page" where
  "daily_entry f entry st =
     (let (key, p) = entry; change = change_of p; st1 = st\<lparr>dp_stages := stage_add p (dp_stages st)\<rparr> in
      if gq_search f \<noteq> [] \<and> \<not> occurs (gq_search f) (stringField (t_payload (pair_task p)) ''case'') then st1
      else if gq_change f \<noteq> [] \<and> change \<noteq> gq_change f then st1
      else
        (let st2 = st1\<lparr>dp_total := dp_total st1 + 1, dp_counts := jincrement change (dp_counts st1)\<rparr> in
         if key \<le> gq_after_key f then st2
         else if gq_limit f \<le> length (dp_rows st2) then st2\<lparr>dp_more := True\<rparr>
         else st2\<lparr>dp_rows := dp_rows st2 @ [daily_row key p], dp_last := key\<rparr>))"

definition compareDaily :: "env \<Rightarrow> RegressionQuery \<Rightarrow> sys \<Rightarrow> exn + json" where
  "compareDaily e f s =
     rbind (visitTasks e [] s) (\<lambda>(visited, generation).
       let excluded = length (filter (\<lambda>t. daily_case t \<and> unclassified t) visited);
           ts = filter (\<lambda>t. daily_case t \<and> \<not> unclassified t
                            \<and> (contextOf t ''date'' = gq_date f \<or> contextOf t ''date'' = gq_baseline_date f)) visited;
           sc = fold (daily_visit f) ts \<lparr>dy_excluded = excluded, dy_duplicates = 0, dy_templates = [], dy_pairs = []\<rparr>;
           pg = fold (daily_entry f) (dy_pairs sc)
                  \<lparr>dp_rows = [], dp_counts = zero_counts change_names, dp_stages = JObject [], dp_total = 0,
                   dp_more = False, dp_last = []\<rparr> in
       Inr (jobject [(''items'', JArray (dp_rows pg)), (''counts'', dp_counts pg), (''stages'', dp_stages pg),
              (''templates'', JArray (map (\<lambda>(k, _). JString k) (dy_templates sc))), (''total'', juint (dp_total pg)),
              (''has_more'', JBool (dp_more pg)),
              (''next_after_key'', if dp_more pg then JString (dp_last pg) else JNull),
              (''snapshot_generation'', JUnsigned generation),
              (''excluded_unclassified_or_manual'', juint (dy_excluded sc)),
              (''duplicate_records'', juint (dy_duplicates sc)),
              (''selection_policy'', JString ''latest_task_id_per_template_case_date''),
              (''baseline_date'', JString (gq_baseline_date f)), (''date'', JString (gq_date f))]))"

section \<open>The service\<close>

definition regression_query :: "env \<Rightarrow> cache_env \<Rightarrow> RegressionQuery \<Rightarrow> sys \<Rightarrow> (RegressionService, json) op" where
  "regression_query e ca f s st =
     (if gq_baseline_date f \<noteq> [] then (compareDaily e f s, st)
      else
        (case jdump (e_codec e) (cache_key f) of
           None \<Rightarrow> (Inl (Json_error ''dump''), st)
         | Some key \<Rightarrow>
             (let (cached, st1) = (if cache_on ca then cache_lookup ca (taskGeneration s) key st else (None, st)) in
              (case cached of
                 Some response \<Rightarrow> (Inr response, st1)
               | None \<Rightarrow>
                   (case regression_answer e f s of
                      Inl x \<Rightarrow> (Inl x, st1)
                    | Inr (response, generation) \<Rightarrow>
                        (Inr response,
                         if cache_on ca \<and> taskGeneration s = generation
                         then cache_insert ca generation key response st1 else st1))))))"

end
