(* ===== verification/Coherence.thy ===== *)
theory Coherence
  imports Regression System Demo
begin

text \<open>
  The cache of the regression query stays coherent: the scheduler counts a new generation with
  every change of the tasks a query can see, and an answer is served from the cache only under the
  generation it was computed of. So a cached answer is the one a fresh computation gives.
\<close>

section \<open>The generation marks every change\<close>

text \<open>What a query of all tasks reads: the rows of the store or, without one, the task table.\<close>

definition visible :: "sys \<Rightarrow> (u64 \<times> task_row) list + (TaskId \<times> Task) list" where
  "visible s = (case sy_store s of Some db \<Rightarrow> Inl (s_tasks db) | None \<Rightarrow> Inr (sc_tasks (sy_sched s)))"

definition marked :: "nat \<Rightarrow> sys \<Rightarrow> sys \<Rightarrow> bool" where
  "marked k s s' \<longleftrightarrow> taskGeneration s' = taskGeneration s + of_nat k \<and> (k = 0 \<longrightarrow> visible s' = visible s)"

definition marks :: "sys \<Rightarrow> sys \<Rightarrow> bool" where
  "marks s s' \<longleftrightarrow> marked 0 s s' \<or> marked 1 s s'"

lemma marks_refl [simp, intro]: "marks s s" by (simp add: marks_def marked_def)

lemma marks_frame:
  "sy_sched s' = sy_sched s \<Longrightarrow> visible s' = visible s \<Longrightarrow> marks s s'"
  by (simp add: marks_def marked_def taskGeneration_def)

lemma marks_counted: "sc_generation (sy_sched s') = sc_generation (sy_sched s) + 1 \<Longrightarrow> marks s s'"
  by (simp add: marks_def marked_def taskGeneration_def)

lemma visible_put [simp]: "visible (put_wm wm s) = visible s"
  by (simp add: visible_def put_wm_def split: option.split)

lemma generation_set [simp]: "sc_generation (set_task i t sc) = sc_generation sc + 1"
  by (simp add: set_task_def)

lemma generation_enqueue [simp]: "sc_generation (enqueue i p sc) = sc_generation sc"
  by (simp add: enqueue_def)

lemma generation_hold [simp]: "sc_generation (releaseRecoveryHold w sc) = sc_generation sc"
  by (simp add: releaseRecoveryHold_def)

lemma tasks_hold: "sc_tasks (releaseRecoveryHold w sc) = sc_tasks sc"
  by (simp add: releaseRecoveryHold_def)

lemma generation_evict [simp]: "sc_generation (evict sc) = sc_generation sc"
  by (simp add: evict_def)

text \<open>A transaction that fails, or that writes no task, leaves what is visible alone.\<close>

lemma save_failed: "save jc now ts sb ov su re db = (Inl x, db') \<Longrightarrow> s_tasks db' = s_tasks db"
  by (auto simp: save_def Let_def split: if_splits sum.splits)

lemma save_nothing:
  assumes "save jc now [] sb ov su re db = (r, db')"
  shows "s_tasks db' = s_tasks db"
proof (cases r)
  case (Inl x)
  with assms show ?thesis by (simp add: save_failed)
next
  case (Inr u)
  with assms have "save_body jc now [] sb ov su re (db\<lparr>s_writes := Suc (s_writes db)\<rparr>) = Inr db'"
    by (simp add: save_Inr_body)
  then show ?thesis by (rule save_body_E) simp
qed

lemma store_save_failed: "store_save e ts sb ov su re s = (Inl x, s1) \<Longrightarrow> visible s1 = visible s"
  by (auto simp: store_save_def visible_def dest: save_failed split: option.splits prod.splits)

lemma store_save_nothing: "store_save e [] sb ov su re s = (r, s1) \<Longrightarrow> visible s1 = visible s"
  by (auto simp: store_save_def visible_def dest: save_nothing split: option.splits prod.splits)

text \<open>Where nothing is counted, the tables a query reads are untouched.\<close>

lemma visible_put_sched:
  "sy_store s \<noteq> None \<or> sc_tasks sc = sc_tasks (sy_sched s) \<Longrightarrow> visible (put_sched sc s) = visible s"
  by (auto simp: visible_def put_sched_def split: option.split)

lemma sy_sched_put [simp]: "sy_sched (put_sched sc s) = sc" "sy_sched (put_wm wm s) = sy_sched s"
  by (simp_all add: put_sched_def put_wm_def)

lemma marks_uncounted:
  assumes "sc_generation sc = sc_generation (sy_sched s)" and "sy_store s \<noteq> None \<or> sc_tasks sc = sc_tasks (sy_sched s)"
  shows "marks s (put_sched sc s)"
  using assms visible_put_sched by (simp add: marks_def marked_def taskGeneration_def)

lemma marks_put_wm [simp]: "marks s (put_wm wm s)" by (simp add: marks_frame)

lemma marks_put_counted: "sc_generation sc = sc_generation (sy_sched s) + 1 \<Longrightarrow> marks s (put_sched sc s')"
  by (simp add: marks_counted)

section \<open>Operations\<close>

lemma marks_save_failed: "store_save e ts sb ov su re s = (Inl x, s1) \<Longrightarrow> marks s s1"
  using store_save_failed store_save_frame(2) by (intro marks_frame)

lemma marks_start: "marks s (snd (markTaskStarted e i w s))"
  using store_save_frame(2) marks_save_failed
  by (auto simp: markTaskStarted_def Let_def intro!: marks_counted split: option.split prod.split sum.split bool.split)

lemma marks_complete: "marks s (snd (completeTask e i st j s))"
  using store_save_frame(2) marks_save_failed
  by (auto simp: completeTask_def Let_def intro!: marks_counted split: option.split prod.split sum.split)

lemma marks_cancel_waiting:
  assumes "canTransitionTo t CANCELLED"
  shows "marks s (snd (cancel_waiting e i t s))"
proof -
  have "\<exists>t'. transitionTo (e_commit_now e i) CANCELLED t = (True, t')" using assms by (simp add: transitionTo_def Let_def)
  then show ?thesis
    using store_save_frame(2) marks_save_failed
    by (auto simp: cancel_waiting_def Let_def intro!: marks_counted split: prod.split sum.split)
qed

lemma marks_cancel: "marks s (snd (cancelTask e i s))"
  using marks_cancel_waiting
  by (auto simp: cancelTask_def canTransitionTo_def split: option.split TaskStatus.split)

lemma marks_submit_new: "marks s (snd (submit_new e task key request s))"
proof -
  define sc where "sc = (case sy_store s of None \<Rightarrow> sy_sched s | Some _ \<Rightarrow> evict (sy_sched s))"
  have sc: "sc_generation sc = sc_generation (sy_sched s)" "sy_store s \<noteq> None \<or> sc_tasks sc = sc_tasks (sy_sched s)"
    by (auto simp: sc_def split: option.split)
  have m: "marks s (put_sched sc s)" using sc by (rule marks_uncounted)
  have failed: "marks s s2" if "store_save e ts sb ov su re (put_sched sc s) = (Inl x, s2)" for ts sb ov su re x s2
    using that store_save_failed [OF that] store_save_frame(2) [OF that] sc visible_put_sched [of s sc]
    by (simp add: marks_def marked_def taskGeneration_def)
  obtain b t1 where tr: "transitionTo (e_prepare_now e (t_id task)) QUEUED task = (b, t1)" by (meson surj_pair)
  define su where "su = (if key = [] then None else Some (key, request))"
  obtain r s2 where run: "store_save e [setQueueSequence (sc_next_sequence sc) t1] None None su None (put_sched sc s) = (r, s2)"
    by (meson surj_pair)
  have "marks s (put_sched (enqueue i p (set_task i t sc)) s2)" for i p t
    using sc(1) by (intro marks_counted) simp
  moreover have "marks s s2" if "r = Inl x" for x using failed run that by simp
  ultimately show ?thesis
    using m
    unfolding submit_new_def Let_def sc_def [symmetric] su_def [symmetric] tr by (auto simp: run split: sum.split bool.split)
qed

lemma marks_submit: "marks s (snd (submitTask e task key request s))"
  using marks_submit_new by (auto simp: submitTask_def Let_def split: option.split)

lemma marks_schedule: "marks s (snd (schedule e s))"
proof -
  obtain changes pending wm after where
    loop: "schedule_loop e (sy_store s \<noteq> None) (sy_sched s) (sc_queue (sy_sched s)) (sy_wm s) (sc_last_selected (sy_sched s))
        = (changes, pending, wm, after)" by (metis prod_cases4)
  show ?thesis
  proof (cases "changes = []")
    case True
    then show ?thesis
      unfolding schedule_def Let_def loop
      by (simp add: marks_def marked_def taskGeneration_def visible_put_sched commit_changes_def)
  next
    case False
    obtain r s2 where run: "store_save e (map snd changes) None None None None (put_wm wm s) = (r, s2)" by (meson surj_pair)
    have "marks s (put_wm wm' s2)" if "r = Inl x" for x wm'
      using that run store_save_failed [of e _ _ _ _ _ "put_wm wm s"] store_save_frame(2) [OF run]
      by (intro marks_frame) auto
    with False store_save_frame(2) [OF run] show ?thesis
      unfolding schedule_def Let_def loop by (auto simp: run intro!: marks_counted split: sum.split)
  qed
qed

text \<open>The table after a stop that found no waiting task is the table before.\<close>

lemma cancel_nothing:
  assumes "filter waiting (batch_tasks batch_id sc) = []"
  shows "map (\<lambda>(i, t). (i, cancel_entry e batch_id i t)) (sc_tasks sc) = sc_tasks sc"
proof (rule map_idI)
  fix p assume "p \<in> set (sc_tasks sc)"
  with assms show "(case p of (i, t) \<Rightarrow> (i, cancel_entry e batch_id i t)) = p"
    by (cases p) (force simp: cancel_entry_def batch_tasks_def filter_empty_conv)
qed

lemma marks_stop: "marks s (snd (cancelBatch e batch_id s))"
proof -
  define waiters where "waiters = filter waiting (batch_tasks batch_id (sy_sched s))"
  define changed where "changed = map (\<lambda>t. snd (transitionTo (e_prepare_now e (t_id t)) CANCELLED t)) waiters"
  obtain r s1 where run: "store_save e changed (Some batch_id) None None None s = (r, s1)" by (meson surj_pair)
  note frame = store_save_frame(2,4) [OF run]
  have counted: "marks s (put_sched sc' s1)"
    if "sc_tasks sc' = map (\<lambda>(i, t). (i, cancel_entry e batch_id i t)) (sc_tasks (sy_sched s))"
      "sc_generation sc' = (if length changed \<noteq> 0 then sc_generation (sy_sched s) + 1 else sc_generation (sy_sched s))" for sc'
  proof (cases "changed = []")
    case True
    then have "visible s1 = visible s" using run store_save_nothing by metis
    moreover have "sc_tasks sc' = sc_tasks (sy_sched s)"
      using True that(1) cancel_nothing [of batch_id "sy_sched s"] by (simp add: changed_def waiters_def)
    ultimately show ?thesis
      using True that(2) frame(1) visible_put_sched [of s1 sc'] by (simp add: marks_def marked_def taskGeneration_def)
  qed (use that(2) in \<open>simp add: marks_counted\<close>)
  have "marks s s1" if "r = Inl x" for x using marks_save_failed run that by simp
  with counted show ?thesis
    unfolding cancelBatch_def Let_def waiters_def [symmetric] changed_def [symmetric] run
    by (auto split: sum.split option.split)
qed

text \<open>
  A rollback that is not abandoned after its durable write. It is abandoned, with the row
  requeued and nothing counted, when the slot of the assignment was not taken by this process.
\<close>

definition slot_lost :: exn where
  "slot_lost = Runtime_error ''slot release failed after persisted dispatch rollback''"

definition slot_gone :: "TaskId \<Rightarrow> sys \<Rightarrow> bool" where
  "slot_gone i s \<longleftrightarrow> (\<exists>t. map_of (sc_tasks (sy_sched s)) i = Some t \<and> t_status t = ASSIGNED
     \<and> \<not> fst (releaseSlot (t_worker_id t) (sy_wm s)))"

lemma marks_rollback:
  assumes "slot_gone i s \<longrightarrow> fst (rollbackAssignment e i s) \<noteq> Inl slot_lost"
  shows "marks s (snd (rollbackAssignment e i s))"
proof (cases "sy_store s")
  case None
  then show ?thesis
    by (auto simp: rollbackAssignment_def Let_def intro!: marks_put_counted split: option.split prod.split bool.split)
next
  case (Some db)
  let ?sc = "sy_sched s"
  show ?thesis
  proof (cases "\<exists>t. map_of (sc_tasks ?sc) i = Some t \<and> t_status t = ASSIGNED \<and> t_worker_id t \<noteq> [] \<and> i \<notin> sc_dispatching ?sc")
    case True
    then obtain t where t: "map_of (sc_tasks ?sc) i = Some t" "t_status t = ASSIGNED" "t_worker_id t \<noteq> []"
      "i \<notin> sc_dispatching ?sc" by auto
    define stopped where "stopped = batch_stopped ?sc t"
    obtain b t1 where tr: "transitionTo (e_prepare_now e i) (if stopped then CANCELLED else QUEUED) (clearWorkerId t) = (b, t1)"
      by (meson surj_pair)
    define prepared where "prepared = (if stopped then t1 else setQueueSequence (sc_next_sequence ?sc) t1)"
    obtain r s1 where run: "store_save e [prepared] None (Some ''DISPATCH_FAILED'') None None s = (r, s1)" by (meson surj_pair)
    obtain ok wm where rel: "releaseSlot (t_worker_id t) (sy_wm s1) = (ok, wm)" by (meson surj_pair)
    have eq: "rollbackAssignment e i s = (if \<not> b then (Inr False, s) else case r of Inl x \<Rightarrow> (Inl x, s1) | Inr _ \<Rightarrow>
        if \<not> ok then (Inl slot_lost, put_wm wm s1)
        else (Inr True, put_sched (if stopped then set_task i prepared ?sc
               else enqueue (t_id t) (t_priority t) (set_task i prepared ?sc)) (put_wm wm s1)))"
      using t Some
      by (simp add: rollbackAssignment_def Let_def stopped_def [symmetric] tr prepared_def [symmetric] run rel slot_lost_def
          split: sum.split)
    have held: "slot_gone i s \<or> ok" using t rel store_save_frame(1) [OF run] by (simp add: slot_gone_def)
    show ?thesis
      using assms run marks_save_failed held unfolding eq by (auto intro!: marks_put_counted split: sum.splits if_splits)
  next
    case False
    then show ?thesis by (auto simp: rollbackAssignment_def Let_def split: option.split)
  qed
qed

lemma marks_run_wm:
  assumes "stores_agree (snd (sy_wm s, sy_store s)) (snd (snd (f (sy_wm s, sy_store s))))"
  shows "marks s (snd (run_wm f s))"
  using assms by (intro marks_frame)
    (auto simp: run_wm_def visible_def stores_agree_def rel_option_iff split: prod.split option.splits)

lemma marks_lost: "marks s (snd (recoverLost e m i t s))"
  using store_save_frame(2) marks_save_failed
  by (auto simp: recoverLost_def Let_def intro!: marks_counted split: prod.split sum.split)

lemma marks_hold: "marked 0 s (holdWorker w s)"
  using visible_put_sched [of s] by (simp add: marked_def taskGeneration_def holdWorker_def)

lemma marked_trans: "marked k s s1 \<Longrightarrow> marked l s1 s2 \<Longrightarrow> marked (k + l) s s2"
  by (auto simp: marked_def)

lemma marks_bound: "marks s s' \<Longrightarrow> \<exists>k \<le> 1. marked k s s'"
  by (auto simp: marks_def)

lemma marked_idle: "\<exists>k \<le> length is. marked k s (snd (recover_idle e m w is s))"
proof (induction "is" arbitrary: s)
  case (Cons i "is")
  have refl: "\<exists>k \<le> length (i # is). marked k s s" by (rule exI [of _ 0]) (simp add: marked_def)
  have skip: "\<exists>k \<le> length (i # is). marked k s (snd (recover_idle e m w is s))"
    using Cons.IH [of s] by (auto intro: le_SucI)
  have lost: "\<exists>k \<le> length (i # is). marked k s (snd (case recoverLost e m i t s of
      (Inl x, s1) \<Rightarrow> (Inl x, s1) | (Inr _, s1) \<Rightarrow> recover_idle e m w is s1))" for t
  proof -
    obtain r s1 where run: "recoverLost e m i t s = (r, s1)" by (meson surj_pair)
    with marks_bound [OF marks_lost [of s e m i t]] obtain k where k: "k \<le> 1" "marked k s s1" by auto
    obtain l where l: "l \<le> length is" "marked l s1 (snd (recover_idle e m w is s1))" using Cons.IH by blast
    show ?thesis
    proof (cases r)
      case (Inl x)
      then show ?thesis using run k by (auto intro: exI [of _ k])
    next
      case (Inr u)
      then show ?thesis using run k l marked_trans [OF k(2) l(2)] by (auto intro: exI [of _ "k + l"])
    qed
  qed
  show ?case using refl skip lost by (auto split: option.split)
qed (simp add: marked_def)

lemma marked_uncounted:
  "sc_generation sc = sc_generation (sy_sched s) \<Longrightarrow> sc_tasks sc = sc_tasks (sy_sched s) \<Longrightarrow> marked 0 s (put_sched sc s)"
  using visible_put_sched by (simp add: marked_def taskGeneration_def)

lemma marked_recover:
  "\<exists>k \<le> max 1 (length (sc_tasks (sy_sched s))). marked k s (snd (recoverWorker e w state i run_id m s))"
proof -
  let ?B = "max 1 (length (sc_tasks (sy_sched s)))"
  have refl: "\<exists>k \<le> ?B. marked k s s" by (rule exI [of _ 0]) (simp add: marked_def)
  have same: "\<exists>k \<le> ?B. marked k s (put_sched ((sy_sched s)\<lparr>sc_reconciling := x\<rparr>) s)" for x
    by (rule exI [of _ 0]) (simp add: marked_uncounted)
  have lost: "\<exists>k \<le> ?B. marked k s (snd (recoverLost e m i t (holdWorker w s)))" for t
  proof -
    obtain k where "k \<le> 1" "marked k (holdWorker w s) (snd (recoverLost e m i t (holdWorker w s)))"
      using marks_bound [OF marks_lost] by blast
    with marked_trans [OF marks_hold this(2)] show ?thesis by (auto intro: exI [of _ k])
  qed
  obtain q s1 where run: "recover_idle e m w (map fst (sc_tasks (sy_sched s))) s = (q, s1)" by (meson surj_pair)
  obtain k where k: "k \<le> ?B" "marked k s s1"
    using marked_idle [of "map fst (sc_tasks (sy_sched s))" s e m w] run
    by (metis length_map max.coboundedI2 snd_conv)
  have idle: "\<exists>k \<le> ?B. marked k s (put_sched (releaseRecoveryHold w (sy_sched s1)\<lparr>sc_reconciling := x\<rparr>) s1)" for x
    using k marked_trans [OF k(2) marked_uncounted, of "releaseRecoveryHold w (sy_sched s1)\<lparr>sc_reconciling := x\<rparr>"]
    by (auto simp: tasks_hold)
  show ?thesis
  proof (cases "state = ''idle''")
    case True
    with refl idle k show ?thesis
      by (auto simp: recoverWorker_def run Let_def split: sum.split option.split)
  next
    case False
    have "\<exists>k \<le> ?B. marked k s (snd (case recoverLost e m i t (holdWorker w s) of
        (Inl x, s1) \<Rightarrow> (Inl x, s1) | (Inr a, s1) \<Rightarrow> (Inr (action_json a), s1)))" for t
      using lost [of t] by (auto split: prod.splits sum.splits)
    with False refl same show ?thesis
      by (auto simp: recoverWorker_def Let_def split: sum.split option.split)
  qed
qed

lemma table_length:
  assumes "table_ok sc"
  shows "max 1 (length (sc_tasks sc)) < 2 ^ 64"
proof -
  have "set (map fst (sc_tasks sc)) \<subseteq> UNIV - {0 :: u64}"
    using table_okD(3) [OF assms] table_okD(1) [OF assms] by (auto simp: map_of_eq_Some_iff)
  then have "card (set (map fst (sc_tasks sc))) \<le> card (UNIV - {0 :: u64})" by (intro card_mono) simp_all
  moreover have "card (UNIV - {0 :: u64}) = 2 ^ 64 - 1" by (subst card_Diff_singleton) (simp_all add: card_word)
  ultimately show ?thesis using distinct_card [OF table_okD(1) [OF assms]] by simp
qed

text \<open>
  A rollback abandoned after its durable write is the one step that changes a row without
  counting it.
\<close>

definition abandoned :: "sys \<Rightarrow> sys \<Rightarrow> bool" where
  "abandoned s s' \<longleftrightarrow> (\<exists>e i. slot_gone i s \<and> rollbackAssignment e i s = (Inl slot_lost, s'))"

text \<open>
  It can happen only to an assignment inherited from an earlier process: what this process has
  assigned holds its slot. The server rolls back only what its own pass has just assigned.
\<close>

lemma abandoned_inherited:
  assumes "sched_inv s" and "abandoned s s'"
  shows "\<exists>i t. map_of (sc_tasks (sy_sched s)) i = Some t \<and> t_status t = ASSIGNED \<and> t_recovery_required t"
proof -
  obtain i t where t: "map_of (sc_tasks (sy_sched s)) i = Some t" "t_status t = ASSIGNED"
    and lost: "\<not> fst (releaseSlot (t_worker_id t) (sy_wm s))" using assms(2) by (auto simp: abandoned_def slot_gone_def)
  have "used (sy_wm s) (t_worker_id t) \<noteq> 0" if "\<not> t_recovery_required t"
  proof -
    have "occupies (t_worker_id t) t" using that t(2) by (simp add: occupies_def active_def)
    with map_of_SomeD [OF t(1)] sched_invD(8) [OF assms(1)] show ?thesis
      by (auto simp: slots_match_def count_vals_def filter_empty_conv)
  qed
  with lost t slots.release_granted show ?thesis by blast
qed

lemma step_marked:
  assumes "sys_step s s'" and "sched_inv s" and "\<not> abandoned s s'"
  shows "\<exists>k < 2 ^ 64. marked k s s'"
proof -
  have one: "\<exists>k < 2 ^ 64. marked k s x" if "marks s x" for x
    using marks_bound [OF that] by (meson le_less_trans one_less_numeral_iff one_less_power pos2 semiring_norm(76) zero_less_numeral)
  from assms(1,3) show ?thesis
  proof (cases rule: sys_step.cases)
    case (step_recover e w state i run_id m)
    then show ?thesis
      using marked_recover [of s] table_length [OF sched_invD(2) [OF assms(2)]] le_less_trans by blast
  next
    case (step_rollback e i)
    moreover have "fst (rollbackAssignment e i s) \<noteq> Inl slot_lost" if "slot_gone i s"
      using assms(3) step_rollback that unfolding abandoned_def by (metis prod.collapse)
    ultimately show ?thesis using one marks_rollback by simp
  next
    case (step_claim a)
    have "marks s (snd (dispatch_claim a s))"
      by (auto simp: dispatch_claim_def Let_def intro: marks_uncounted split: option.split)
    then show ?thesis using one step_claim by simp
  next
    case (step_finish i)
    have "marks s (dispatch_finish i s)" by (auto simp: dispatch_finish_def intro: marks_uncounted)
    then show ?thesis using one step_finish by simp
  next
    case (step_hold w)
    then show ?thesis using one marks_hold by (simp add: marks_def)
  next
    case (step_control jc machine target action operation scope)
    then show ?thesis using one control_stores [of "(sy_wm s, sy_store s)" jc machine target action operation scope] marks_run_wm by metis
  next
    case (step_management jc w ack)
    then show ?thesis using one managementHeartbeat_stores [of "(sy_wm s, sy_store s)" jc w ack] marks_run_wm by metis
  qed (use one marks_submit marks_schedule marks_start marks_complete marks_cancel marks_stop in \<open>simp_all\<close>)
qed

section \<open>The cache\<close>

text \<open>An answer depends on what is visible, on the codec, and on the fields of the key.\<close>

lemma answer_visible:
  assumes "visible s' = visible s" and "taskGeneration s' = taskGeneration s" and "e_codec e' = e_codec e"
  shows "regression_answer e' f s' = regression_answer e f s"
proof -
  have "visitTasks e' b s' = visitTasks e b s" for b
    using assms
    by (cases "sy_store s"; cases "sy_store s'") (auto simp: visitTasks_def visible_def taskGeneration_def loadTasks_def)
  then show ?thesis by (simp add: regression_answer_def)
qed

definition limited :: "RegressionQuery \<Rightarrow> bool" where
  "limited f \<longleftrightarrow> gq_limit f \<le> 50"

lemma parse_limited: "RegressionQuery_parse q = Some f \<Longrightarrow> limited f"
  by (auto simp: RegressionQuery_parse_def validLimit_def limited_def Let_def split: if_splits option.splits)

lemma answer_key:
  assumes "cache_key f = cache_key g" and "limited f" and "limited g"
  shows "regression_answer e f s = regression_answer e g s"
proof -
  have same: "gq_revision f = gq_revision g" "gq_case f = gq_case g" "gq_flow f = gq_flow g" "gq_batch_id f = gq_batch_id g"
    "gq_before_task_id f = gq_before_task_id g" "gq_date f = gq_date g" "gq_template f = gq_template g"
    using assms(1) by (simp_all add: cache_key_def)
  have "(of_nat (gq_limit f) :: u64) = of_nat (gq_limit g)" using assms(1) by (simp add: cache_key_def juint_def)
  then have lim: "gq_limit f = gq_limit g"
    using assms(2,3) by (simp add: limited_def word_of_nat_eq_iff take_bit_nat_eq_self)
  have m: "regression_matches f = regression_matches g" using same by (simp add: fun_eq_iff regression_matches_def)
  then have "regression_visit f = regression_visit g" using same lim by (simp add: fun_eq_iff regression_visit_def Let_def)
  with m same show ?thesis by (simp add: regression_answer_def)
qed

definition entry_fresh :: "json_codec \<Rightarrow> sys \<Rightarrow> string \<times> CacheEntry \<Rightarrow> bool" where
  "entry_fresh jc s en \<longleftrightarrow>
     (\<exists>f. limited f \<and> jdump jc (cache_key f) = Some (fst en)
        \<and> (\<forall>e. e_codec e = jc \<longrightarrow> regression_answer e f s = Inr (ce_response (snd en), taskGeneration s)))"

text \<open>The generation of the cache lags behind by the changes counted since; without a lag it is fresh.\<close>

definition coherent :: "json_codec \<Rightarrow> nat \<Rightarrow> sys \<Rightarrow> RegressionService \<Rightarrow> bool" where
  "coherent jc n s st \<longleftrightarrow>
     rg_cache st = [] \<or> (\<exists>lag \<le> n. taskGeneration s = rg_generation st + of_nat lag
       \<and> (lag = 0 \<longrightarrow> (\<forall>en \<in> set (rg_cache st). entry_fresh jc s en)))"

lemma coherent_step:
  assumes "coherent jc n s st" and "marked k s s'"
  shows "coherent jc (n + k) s' st"
proof (cases "rg_cache st = []")
  case False
  with assms(1) obtain lag where lag: "lag \<le> n" "taskGeneration s = rg_generation st + of_nat lag"
    "lag = 0 \<longrightarrow> (\<forall>en \<in> set (rg_cache st). entry_fresh jc s en)" unfolding coherent_def by auto
  have "\<forall>en \<in> set (rg_cache st). entry_fresh jc s' en" if "lag + k = 0"
  proof -
    have "regression_answer e f s' = regression_answer e f s" for e f
      using that assms(2) by (intro answer_visible) (auto simp: marked_def)
    with that lag assms(2) show ?thesis by (simp add: entry_fresh_def marked_def)
  qed
  with lag assms(2) show ?thesis
    unfolding coherent_def marked_def by (intro disjI2 exI [of _ "lag + k"]) auto
qed (simp add: coherent_def)

lemma set_update_subset: "set (AList.update k v xs) \<subseteq> insert (k, v) (set xs)"
  by (induction xs) auto

text \<open>A lookup: what it keeps, and what it finds.\<close>

lemma lookup_cache:
  assumes "cache_lookup ca g key st = (found, st1)" and "coherent jc n s st" and "n < 2 ^ 64" and "g = taskGeneration s"
  shows "rg_generation st1 = g \<or> rg_cache st1 = []"
    and "\<forall>en \<in> set (rg_cache st1). entry_fresh jc s en"
    and "found = Some r \<Longrightarrow> \<exists>en \<in> set (rg_cache st1). fst en = key \<and> ce_response (snd en) = r"
proof -
  define st0 where "st0 = (if rg_generation st \<noteq> g
     then st\<lparr>rg_invalidations := (if rg_cache st \<noteq> [] then rg_invalidations st + 1 else rg_invalidations st),
             rg_cache := [], rg_generation := g\<rparr> else st)"
  have 0: "rg_generation st0 = g" by (simp add: st0_def)
  have 1: "rg_cache st1 = rg_cache st0" "rg_generation st1 = rg_generation st0"
    using assms(1) by (auto simp: cache_lookup_def Let_def st0_def [symmetric] split: option.splits if_splits)
  have 2: "\<forall>en \<in> set (rg_cache st0). entry_fresh jc s en"
  proof (cases "rg_generation st \<noteq> g \<or> rg_cache st = []")
    case False
    with assms(2,4) obtain lag where lag: "lag \<le> n" "(of_nat lag :: u64) = 0"
      "lag = 0 \<longrightarrow> (\<forall>en \<in> set (rg_cache st). entry_fresh jc s en)" unfolding coherent_def by auto
    moreover have "lag = 0"
      using lag(1,2) assms(3) dvd_imp_le [of "2 ^ 64" lag] by (auto simp: word_of_nat_eq_0_iff)
    ultimately show ?thesis using False by (simp add: st0_def)
  qed (auto simp: st0_def)
  show "rg_generation st1 = g \<or> rg_cache st1 = []" using 0 1 by simp
  show "\<forall>en \<in> set (rg_cache st1). entry_fresh jc s en" using 1 2 by simp
  show "\<exists>en \<in> set (rg_cache st1). fst en = key \<and> ce_response (snd en) = r" if "found = Some r"
    using assms(1) that 1
    by (auto simp: cache_lookup_def Let_def st0_def [symmetric] dest!: map_of_SomeD split: option.splits if_splits) force
qed

lemma insert_cache:
  "rg_generation (cache_insert ca g key r st) = g"
  "en \<in> set (rg_cache (cache_insert ca g key r st)) \<Longrightarrow> rg_generation st = g \<or> rg_cache st = [] \<Longrightarrow>
     (fst en = key \<and> ce_response (snd en) = r) \<or> en \<in> set (rg_cache st)"
proof -
  show "rg_generation (cache_insert ca g key r st) = g" by (simp add: cache_insert_def Let_def)
  have ev: "set (evict_begin v xs) \<subseteq> set xs" for v and xs :: "(string \<times> CacheEntry) list"
    by (auto simp: evict_begin_def Let_def dest: in_set_takeD in_set_dropD)
  assume "en \<in> set (rg_cache (cache_insert ca g key r st))" and "rg_generation st = g \<or> rg_cache st = []"
  with set_update_subset [of key] ev show "(fst en = key \<and> ce_response (snd en) = r) \<or> en \<in> set (rg_cache st)"
    by (fastforce simp: cache_insert_def Let_def split: if_splits)
qed

text \<open>A codec reads its own keys back; so two queries share a key only if they ask the same.\<close>

definition keys_parse_back :: "json_codec \<Rightarrow> bool" where
  "keys_parse_back jc \<longleftrightarrow> (\<forall>f key. jdump jc (cache_key f) = Some key \<longrightarrow> jparse jc key = Some (cache_key f))"

lemma fresh_answer:
  assumes "entry_fresh jc s en" and "keys_parse_back jc" and "jdump jc (cache_key f) = Some (fst en)" and "limited f"
    and "e_codec e = jc"
  shows "regression_answer e f s = Inr (ce_response (snd en), taskGeneration s)"
proof -
  from assms(1,5) obtain g where g: "limited g" "jdump jc (cache_key g) = Some (fst en)"
    "regression_answer e g s = Inr (ce_response (snd en), taskGeneration s)" unfolding entry_fresh_def by auto
  have "cache_key f = cache_key g" using g(2) assms(2,3) unfolding keys_parse_back_def by (metis option.inject)
  with answer_key g assms(4) show ?thesis by metis
qed

lemma answer_generation: "regression_answer e f s = Inr (r, g) \<Longrightarrow> g = taskGeneration s"
  by (auto simp: regression_answer_def visitTasks_def rbind_Inr_iff taskGeneration_def Let_def)

lemma query_uncached:
  assumes "\<not> cache_on ca"
  shows "regression_query e ca f s st =
    (if gq_baseline_date f \<noteq> [] then compareDaily e f s
     else case jdump (e_codec e) (cache_key f) of None \<Rightarrow> Inl (Json_error ''dump'')
       | Some _ \<Rightarrow> rbind (regression_answer e f s) (\<lambda>(r, _). Inr r), st)"
  using assms by (auto simp: regression_query_def split: option.split sum.split)

lemma query_coherent:
  assumes "coherent jc n s st" and "n < 2 ^ 64" and "keys_parse_back jc" and "limited f" and "e_codec e = jc"
  shows "fst (regression_query e ca f s st) = fst (regression_query e (ca\<lparr>ca_enabled := False\<rparr>) f s st)"
    and "coherent jc n s (snd (regression_query e ca f s st))"
proof -
  have off: "\<not> cache_on (ca\<lparr>ca_enabled := False\<rparr>)" by (simp add: cache_on_def)
  show "fst (regression_query e ca f s st) = fst (regression_query e (ca\<lparr>ca_enabled := False\<rparr>) f s st)"
    and "coherent jc n s (snd (regression_query e ca f s st))"
  proof (atomize (full), cases "gq_baseline_date f \<noteq> [] \<or> \<not> cache_on ca \<or> jdump jc (cache_key f) = None")
    case True
    have "regression_query e ca f s st = regression_query e (ca\<lparr>ca_enabled := False\<rparr>) f s st"
    proof (cases "cache_on ca")
      case True
      with \<open>gq_baseline_date f \<noteq> [] \<or> \<not> cache_on ca \<or> jdump jc (cache_key f) = None\<close> assms(5) show ?thesis
        by (elim disjE) (simp_all add: regression_query_def)
    qed (simp only: query_uncached [OF off] query_uncached not_False_eq_True)
    moreover have "snd (regression_query e (ca\<lparr>ca_enabled := False\<rparr>) f s st) = st" by (simp only: query_uncached [OF off] snd_conv)
    ultimately show "fst (regression_query e ca f s st) = fst (regression_query e (ca\<lparr>ca_enabled := False\<rparr>) f s st)
      \<and> coherent jc n s (snd (regression_query e ca f s st))" using assms(1) by simp
  next
    case False
    then obtain key where key: "jdump jc (cache_key f) = Some key" by auto
    obtain found st1 where look: "cache_lookup ca (taskGeneration s) key st = (found, st1)" by (meson surj_pair)
    note L = lookup_cache [OF look assms(1,2) refl]
    have st1: "coherent jc n s st1" using L(1,2) by (auto simp: coherent_def intro!: exI [of _ 0])
    have run: "regression_query e ca f s st = (case found of Some r \<Rightarrow> (Inr r, st1) | None \<Rightarrow>
        (case regression_answer e f s of Inl x \<Rightarrow> (Inl x, st1)
         | Inr (r, g) \<Rightarrow> (Inr r, if taskGeneration s = g then cache_insert ca g key r st1 else st1)))"
      using False key assms(5) by (simp add: regression_query_def look split: option.split sum.split)
    show "fst (regression_query e ca f s st) = fst (regression_query e (ca\<lparr>ca_enabled := False\<rparr>) f s st)
      \<and> coherent jc n s (snd (regression_query e ca f s st))"
    proof (cases found)
      case (Some r)
      then obtain en where "en \<in> set (rg_cache st1)" "fst en = key" "ce_response (snd en) = r" using L(3) by blast
      with L(2) fresh_answer [OF _ assms(3) _ assms(4,5)] key
      have "regression_answer e f s = Inr (r, taskGeneration s)" by metis
      with Some st1 False key assms(5) show ?thesis by (simp add: run query_uncached [OF off])
    next
      case None
      have "coherent jc n s (cache_insert ca g key r st1)" if "regression_answer e f s = Inr (r, g)" for r g
      proof -
        have g: "g = taskGeneration s" using answer_generation that by blast
        have "entry_fresh jc s en" if "en \<in> set (rg_cache (cache_insert ca g key r st1))" for en
          using insert_cache(2) [OF that] L(1,2) g \<open>regression_answer e f s = Inr (r, g)\<close> key assms(4,5)
            answer_visible [of s s _ e f]
          unfolding entry_fresh_def by metis
        then show ?thesis using g insert_cache(1) [of ca g key r st1] unfolding coherent_def by (intro disjI2 exI [of _ 0]) auto
      qed
      with None st1 False key assms(5) show ?thesis
        by (auto simp: run query_uncached [OF off] split: sum.split)
    qed
  qed
qed

section \<open>Coherence\<close>

text \<open>
  Runs of the scheduler with queries in between; \<open>n\<close> counts the generations that passed.
\<close>

inductive cached_run :: "json_codec \<Rightarrow> nat \<Rightarrow> sys \<Rightarrow> RegressionService \<Rightarrow> bool" for jc where
  cr_start: "reachable s \<Longrightarrow> cached_run jc 0 s new_regression_service"
| cr_step: "cached_run jc n s st \<Longrightarrow> sys_step s s' \<Longrightarrow> \<not> abandoned s s' \<Longrightarrow>
     cached_run jc (n + unat (taskGeneration s' - taskGeneration s)) s' st"
| cr_query: "cached_run jc n s st \<Longrightarrow> e_codec e = jc \<Longrightarrow> RegressionQuery_parse q = Some f \<Longrightarrow>
     cached_run jc n s (snd (regression_query e ca f s st))"

lemma marked_count: "marked k s s' \<Longrightarrow> k < 2 ^ 64 \<Longrightarrow> unat (taskGeneration s' - taskGeneration s) = k"
  by (simp add: marked_def unat_of_nat take_bit_nat_eq_self)

lemma cached_run_coherent:
  assumes "cached_run jc n s st" and "keys_parse_back jc" and "n < 2 ^ 64"
  shows "reachable s \<and> coherent jc n s st"
  using assms(1,3)
proof (induction rule: cached_run.induct)
  case (cr_start s)
  then show ?case by (simp add: coherent_def new_regression_service_def)
next
  case (cr_step n s st s')
  then have IH: "reachable s" "coherent jc n s st" by simp_all
  obtain k where "k < 2 ^ 64" "marked k s s'" using step_marked [OF cr_step.hyps(2) reachable_inv [OF IH(1)] cr_step.hyps(3)] by blast
  with coherent_step [OF IH(2)] marked_count reach_step [OF IH(1) cr_step.hyps(2)] show ?case by metis
next
  case (cr_query n s st e q f ca)
  then show ?case using query_coherent(2) assms(2) parse_limited by blast
qed

text \<open>
  C32. The cache of the regression query is invisible: in every state the scheduler reaches by any
  operations and any queries in between, save a rollback abandoned after its durable write, a query with the cache
  enabled returns exactly what the same query computes with the cache disabled, errors included, whatever was cached,
  evicted or expired before. An abandoned rollback changes a row without counting the change; it needs an
  assignment inherited from an earlier process, and without one no step is abandoned. The other hypotheses: fewer than
  2^64 changes were counted (the counter has not wrapped), and the text of a cache key parses back to the key.
\<close>

theorem cached_answer_fresh:
  assumes "cached_run jc n s st" and "n < 2 ^ 64" and "keys_parse_back jc" and "e_codec e = jc"
    and "RegressionQuery_parse q = Some f"
  shows "fst (regression_query e ca f s st) = fst (regression_query e (ca\<lparr>ca_enabled := False\<rparr>) f s st)
     \<and> ((\<exists>s'. abandoned s s') \<longrightarrow>
          (\<exists>i t. map_of (sc_tasks (sy_sched s)) i = Some t \<and> t_status t = ASSIGNED \<and> t_recovery_required t))"
proof -
  note run = cached_run_coherent [OF assms(1,3,2)]
  show ?thesis
    using query_coherent(1) [OF _ assms(2,3) parse_limited [OF assms(5)] assms(4)] run abandoned_inherited reachable_inv by blast
qed

definition demo_query :: json where
  "demo_query = jobject [(''revision'', JString ''r1'')]"

definition demo_filter :: RegressionQuery where
  "demo_filter = the (RegressionQuery_parse demo_query)"

definition cache_codec :: json_codec where
  "cache_codec = \<lparr>jdump = (\<lambda>j. if j = cache_key demo_filter then Some ''key'' else None),
     jparse = (\<lambda>s. if s = ''key'' then Some (cache_key demo_filter) else None)\<rparr>"

definition cache_demo_env :: env where
  "cache_demo_env = demo_env\<lparr>e_codec := cache_codec\<rparr>"

definition demo_cache :: cache_env where
  "demo_cache = \<lparr>ca_enabled = True, ca_max_entries = 4, ca_ttl_seconds = 60, ca_now = 0, ca_victim = 0\<rparr>"

definition cached_service :: RegressionService where
  "cached_service = snd (regression_query cache_demo_env demo_cache demo_filter (boot demo_wm0) new_regression_service)"

theorem cached_answer_fresh_witness:
  "rg_cache cached_service \<noteq> []
   \<and> fst (regression_query cache_demo_env demo_cache demo_filter (boot demo_wm0) cached_service)
     = fst (regression_query cache_demo_env (demo_cache\<lparr>ca_enabled := False\<rparr>) demo_filter (boot demo_wm0) cached_service)"
proof -
  have parsed: "RegressionQuery_parse demo_query = Some demo_filter" by code_simp
  have run: "cached_run cache_codec 0 (boot demo_wm0) cached_service"
    unfolding cached_service_def
    by (rule cr_query [OF cr_start _ parsed]) (simp_all add: reach_boot demo_wm0_def cache_demo_env_def)
  have keys: "keys_parse_back cache_codec" by (simp add: keys_parse_back_def cache_codec_def)
  have filled: "rg_cache cached_service \<noteq> []"
  proof -
    obtain r g where answer: "regression_answer cache_demo_env demo_filter (boot demo_wm0) = Inr (r, g)"
      by (simp add: regression_answer_def visitTasks_def boot_def Let_def)
    have "gq_baseline_date demo_filter = []" by code_simp
    moreover have "jdump (e_codec cache_demo_env) (cache_key demo_filter) = Some ''key''"
      by (simp add: cache_demo_env_def cache_codec_def)
    ultimately show ?thesis
      using answer answer_generation [OF answer]
      by (simp add: cached_service_def regression_query_def demo_cache_def cache_on_def cache_lookup_def cache_insert_def
          new_regression_service_def Let_def split: if_split)
  qed
  have codec: "e_codec cache_demo_env = cache_codec" by (simp add: cache_demo_env_def)
  from cached_answer_fresh [OF run _ keys codec parsed] filled show ?thesis by simp
qed

end
