(* ===== verification/ListPages.thy ===== *)
theory ListPages
  imports Queries Demo
begin

text \<open>
  Paging through a task list: the rows of a snapshot carry distinct task ids in descending order,
  so that the cursor of a page (the id of its last row) splits the list exactly, and a client that
  follows the cursors reads the whole list, whatever happens to the tasks and whatever other clients
  ask meanwhile, or is told that its snapshot is gone.
\<close>

section \<open>Rows of a snapshot\<close>

lemma jget_fold_jset:
  "is_object j \<Longrightarrow> l \<notin> fst ` set m \<Longrightarrow> jget (fold (\<lambda>(k, v) row. jset row k v) m j) l = jget j l"
  by (induction m arbitrary: j) (auto simp: jget_jset)

lemma is_object_fold_jset: "is_object j \<Longrightarrow> is_object (fold (\<lambda>(k, v) row. jset row k v) m j)"
  by (induction m arbitrary: j) auto

lemma summary_keys:
  assumes "taskListSummary jc t = Inr summary"
  shows "''task_id'' \<notin> fst ` set (members summary)"
proof -
  have "\<not> contains summary ''task_id''"
    using assms by (auto simp: taskListSummary_def put_time_def contains_jset rbind_Inr_iff Let_def split: prod.splits if_splits)
  then show ?thesis by (simp add: contains_def map_of_eq_None_iff)
qed

definition is_row :: "json \<Rightarrow> bool" where
  "is_row row \<longleftrightarrow> is_object row \<and> jget row ''task_id'' = JUnsigned (row_id row)"

lemma row_id_list_row:
  assumes "taskListSummary jc t = Inr summary"
  shows "row_id (list_row t grp summary) = t_id t" "is_row (list_row t grp summary)"
  by (simp_all add: is_row_def row_id_def list_row_def jget_fold_jset [OF _ summary_keys [OF assms]] is_object_fold_jset
      jobject_lookup)

lemma row_id_group_row:
  assumes "is_row (tg_representative g)"
  shows "row_id (group_row g) = row_id (tg_representative g)" "is_row (group_row g)"
  using assms by (simp_all add: is_row_def row_id_def group_row_def jget_jset)

text \<open>The group a task belongs to is a function of the task.\<close>

definition task_group_key :: "json_codec \<Rightarrow> Task \<Rightarrow> string option" where
  "task_group_key jc t =
     (case rbind (taskListSummary jc t) (\<lambda>summary. jvalue_string (jget (jget summary ''payload'') ''context'') ''batch_id'') of
        Inl _ \<Rightarrow> None | Inr grp \<Rightarrow> Some (group_key t grp))"

definition row_of_task :: "Task list \<Rightarrow> json \<Rightarrow> bool" where
  "row_of_task ts row \<longleftrightarrow> is_row row \<and> row_id row \<in> t_id ` set ts"

definition group_of_tasks :: "json_codec \<Rightarrow> Task list \<Rightarrow> string \<times> task_group \<Rightarrow> bool" where
  "group_of_tasks jc ts = (\<lambda>(k, g). is_row (tg_representative g)
     \<and> (\<exists>t \<in> set ts. task_group_key jc t = Some k \<and> row_id (tg_representative g) = t_id t))"

text \<open>What the visitor has built from the tasks \<open>ts\<close>.\<close>

definition scanned :: "json_codec \<Rightarrow> list_filter \<Rightarrow> Task list \<Rightarrow> list_scan \<Rightarrow> bool" where
  "scanned jc f ts st \<longleftrightarrow>
     (lf_view f = ''groups'' \<longrightarrow> sn_rows st = []) \<and> distinct (map row_id (sn_rows st))
     \<and> list_all (row_of_task ts) (sn_rows st)
     \<and> omap_wf (sn_groups st) \<and> list_all (group_of_tasks jc ts) (sn_groups st)"

lemma scanned_mono:
  assumes "scanned jc f ts st"
  shows "scanned jc f (ts @ [t]) st"
  using assms by (fastforce simp: scanned_def list_all_iff row_of_task_def group_of_tasks_def)

lemma set_omap_set: "omap_wf m \<Longrightarrow> set (omap_set k v m) \<subseteq> insert (k, v) (set m)"
  by (induction k v m rule: omap_set.induct) (auto simp: omap_wf_Cons)

lemma group_add_rep:
  assumes "group_add t row g = Inr g'"
  shows "tg_representative g' = (if row_id (tg_representative g) < t_id t then row else tg_representative g)"
  using assms by (auto simp: group_add_def Let_def rbind_Inr_iff)

lemma scanned_group:
  assumes sc: "scanned jc f ts st" and sum: "taskListSummary jc t = Inr summary"
    and grp: "jvalue_string (jget (jget summary ''payload'') ''context'') ''batch_id'' = Inr grp"
    and run: "scan_group jc t grp (list_row t grp summary) st = Inr st'"
  shows "scanned jc f (ts @ [t]) st'"
proof -
  let ?row = "list_row t grp summary" and ?key = "group_key t grp"
  note row = row_id_list_row [OF sum, of grp]
  have key: "task_group_key jc t = Some ?key" using sum grp by (simp add: task_group_key_def)
  obtain g r g' where opened: "open_group jc ?key ?row st = Inr (g, r)" and add: "group_add t ?row g = Inr g'"
    and st': "st' = st\<lparr>sn_groups := omap_set ?key g' (sn_groups st), sn_retained := r\<rparr>"
    using run by (auto simp: scan_group_def Let_def rbind_Inr_iff)
  have old: "map_of (sn_groups st) ?key = Some g \<or> tg_representative g = ?row"
    using opened by (auto simp: open_group_def rbind_Inr_iff Let_def split: option.splits if_splits)
  have "group_of_tasks jc (ts @ [t]) (?key, g')"
  proof (cases "tg_representative g' = ?row")
    case True
    then show ?thesis using key row by (simp add: group_of_tasks_def)
  next
    case False
    then have "tg_representative g' = tg_representative g" "map_of (sn_groups st) ?key = Some g"
      using group_add_rep [OF add] old by (auto split: if_splits)
    then show ?thesis using sc
      by (auto simp: scanned_def list_all_iff group_of_tasks_def dest!: map_of_SomeD)
  qed
  then show ?thesis
    using scanned_mono [OF sc, of t] set_omap_set [of "sn_groups st" ?key g']
    by (auto simp: scanned_def st' omap_wf_set list_all_iff)
qed

lemma scanned_visit:
  assumes sc: "scanned jc f ts st" and new: "t_id t \<notin> t_id ` set ts" and run: "visit_task jc f t st = Inr st'"
  shows "scanned jc f (ts @ [t]) st'"
proof -
  obtain summary grp where sum: "taskListSummary jc t = Inr summary"
    and grp: "jvalue_string (jget (jget summary ''payload'') ''context'') ''batch_id'' = Inr grp"
    and step: "st' = st \<or> (lf_view f = ''groups'' \<and> scan_group jc t grp (list_row t grp summary) st = Inr st')
      \<or> (lf_view f \<noteq> ''groups'' \<and> scan_row jc (list_row t grp summary) st = Inr st')"
    using run by (auto simp: visit_task_def rbind_Inr_iff Let_def split: if_splits)
  note row = row_id_list_row [OF sum, of grp]
  have "scanned jc f (ts @ [t]) st'" if "lf_view f \<noteq> ''groups''" "scan_row jc (list_row t grp summary) st = Inr st'"
  proof -
    have "sn_rows st' = sn_rows st @ [list_row t grp summary]" "sn_groups st' = sn_groups st"
      using that(2) by (auto simp: scan_row_def rbind_Inr_iff Let_def split: if_splits)
    moreover have "t_id t \<notin> row_id ` set (sn_rows st)"
      using sc new by (auto simp: scanned_def list_all_iff row_of_task_def)
    ultimately show ?thesis
      using that(1) row scanned_mono [OF sc, of t] by (auto simp: scanned_def row_of_task_def)
  qed
  with step scanned_mono [OF sc, of t] scanned_group [OF sc sum grp] show ?thesis by blast
qed

lemma scanned_all:
  assumes "scanned jc f us st" and "distinct (map t_id (us @ ts))" and "visit_all jc f ts st = Inr st'"
  shows "scanned jc f (us @ ts) st'"
  using assms
proof (induction ts arbitrary: us st)
  case (Cons t ts)
  from Cons.prems(3) obtain st1 where "visit_task jc f t st = Inr st1" "visit_all jc f ts st1 = Inr st'"
    by (auto simp: rbind_Inr_iff)
  with Cons.IH [of "us @ [t]" st1] scanned_visit [OF Cons.prems(1)] Cons.prems(2) show ?case by simp
qed simp

lemma group_ids_distinct:
  assumes wf: "omap_wf m" and "list_all (group_of_tasks jc ts) m" and ids: "distinct (map t_id ts)"
  shows "distinct (map (\<lambda>(k, g). row_id (group_row g)) m)"
  using assms
proof (induction m)
  case (Cons p m)
  obtain k g where p: "p = (k, g)" by (cases p)
  have "row_id (group_row g) \<noteq> row_id (group_row h)" if h: "(l, h) \<in> set m" for l h
  proof
    assume eq: "row_id (group_row g) = row_id (group_row h)"
    obtain t where t: "t \<in> set ts" "task_group_key jc t = Some k" "row_id (group_row g) = t_id t"
      using Cons.prems(2) by (auto simp: p group_of_tasks_def row_id_group_row)
    obtain u where u: "u \<in> set ts" "task_group_key jc u = Some l" "row_id (group_row h) = t_id u"
      using Cons.prems(2) h by (fastforce simp: p list_all_iff group_of_tasks_def row_id_group_row)
    have "t = u" using t u eq ids by (metis distinct_map inj_onD)
    then have "k = l" using t u by simp
    with Cons.prems(1) h show False by (auto simp: p omap_wf_Cons)
  qed
  with Cons show ?case by (auto simp: p omap_wf_Cons)
qed simp

text \<open>A visit never sees a task twice.\<close>

lemma task_of_row_id: "task_of_row jc r = Inr t \<Longrightarrow> t_id t = r_task_id r"
  by (auto simp: task_of_row_def rbind_Inr_iff Let_def restore_def setPriority_def new_task_def split: if_splits option.splits)

lemma distinct_loaded:
  assumes "store_ok db" and "loadTasks jc i active_only b db = Inr ts"
  shows "distinct (map t_id ts)"
proof -
  let ?rows = "filter (row_selected i active_only b) (map snd (s_tasks db))"
  have "rmap (task_of_row jc) ?rows = Inr ts" using assms(2) by (auto simp: loadTasks_def rbind_Inr_iff)
  then have "list_all2 (\<lambda>r t. t_id t = r_task_id r) ?rows ts"
    by (auto dest!: rmap_Inr_list_all2 elim!: list_all2_mono task_of_row_id)
  then have "map t_id ts = map r_task_id ?rows" by (induction rule: list_all2_induct) auto
  moreover have "map r_task_id (map snd (s_tasks db)) = map fst (s_tasks db)"
    using assms(1) omap_wf_distinct [of "s_tasks db"] by (auto simp: store_ok_def)
  then have "distinct (map r_task_id (map snd (s_tasks db)))"
    using assms(1) omap_wf_distinct [of "s_tasks db"] by (simp only: store_ok_def)
  then have "distinct (map r_task_id ?rows)" by (rule distinct_map_filter)
  ultimately show ?thesis by simp
qed

lemma visited_distinct:
  assumes inv: "sched_inv s" and run: "visitTasks e b s = Inr (ts, g)"
  shows "distinct (map t_id ts)"
proof (cases "sy_store s")
  case None
  note tab = table_okD [OF sched_invD(2) [OF inv]]
  have "map t_id (map snd (sc_tasks (sy_sched s))) = map fst (sc_tasks (sy_sched s))" using tab(1,2) by auto
  then have "distinct (map t_id (map snd (sc_tasks (sy_sched s))))" using tab(1) by (simp only:)
  from distinct_map_filter [OF this] run None show ?thesis by (auto simp: visitTasks_def)
next
  case (Some db)
  then have "store_ok db" using sched_invD(4) [OF inv] by (simp add: known_ok_def Let_def)
  with run Some distinct_loaded show ?thesis by (auto simp: visitTasks_def rbind_Inr_iff)
qed

text \<open>Rows with their task id, in strictly descending order.\<close>

definition rows_descend :: "json list \<Rightarrow> bool" where
  "rows_descend = sorted_wrt (\<lambda>a b. row_id b < row_id a)"

lemma sort_key_descends:
  assumes "distinct (map row_id rows)"
  shows "rows_descend (sort_key (\<lambda>row. - uint (row_id row)) rows)"
proof -
  let ?rows = "sort_key (\<lambda>row. - uint (row_id row)) rows"
  have "sorted (map (\<lambda>row. - uint (row_id row)) ?rows)" by simp
  then have up: "sorted_wrt (\<lambda>a b. row_id b \<le> row_id a) ?rows"
    by (simp add: sorted_wrt_map word_le_def)
  have "distinct (map row_id ?rows)"
    using assms by (metis distinct_map distinct_sort inj_on_cong set_sort)
  then have "sorted_wrt (\<lambda>a b. row_id a \<noteq> row_id b) ?rows"
    by (simp add: distinct_conv_nth sorted_wrt_iff_nth_less)
  with up show ?thesis
    unfolding rows_descend_def sorted_wrt_iff_nth_less by (metis order_le_less)
qed

lemma list_rows_descend:
  assumes inv: "sched_inv s" and run: "list_rows e f s = Inr (rows, g)"
  shows "rows_descend rows" "list_all is_row rows"
proof -
  obtain ts st where ts: "visitTasks e (lf_batch f) s = Inr (ts, g)"
    and st: "visit_all (e_codec e) f ts \<lparr>sn_rows = [], sn_groups = [], sn_retained = 0\<rparr> = Inr st"
    and rows: "rows = sort_key (\<lambda>row. - uint (row_id row)) (sn_rows st @ group_rows f st)"
    using run by (auto simp: list_rows_def rbind_Inr_iff)
  note ids = visited_distinct [OF inv ts]
  have "scanned (e_codec e) f [] \<lparr>sn_rows = [], sn_groups = [], sn_retained = 0\<rparr>"
    by (simp add: scanned_def)
  from scanned_all [OF this _ st] ids have sc: "scanned (e_codec e) f ts st" by simp
  have "distinct (map row_id (sn_rows st @ group_rows f st))"
  proof (cases "lf_view f = ''groups''")
    case True
    have "distinct (map (\<lambda>(k, g). row_id (group_row g)) (sn_groups st))"
      using group_ids_distinct [OF _ _ ids] sc by (auto simp: scanned_def)
    then have "distinct (map (\<lambda>(k, g). row_id (group_row g)) (filter (\<lambda>(k, g). lf_status f = []
        \<or> get_u64 (jget (tg_counts g) (lf_status f)) \<noteq> 0) (sn_groups st)))" by (rule distinct_map_filter)
    with True sc show ?thesis by (simp add: scanned_def group_rows_def comp_def case_prod_unfold)
  next
    case False
    with sc show ?thesis by (simp add: scanned_def group_rows_def)
  qed
  then show "rows_descend rows" unfolding rows by (rule sort_key_descends)
  show "list_all is_row rows"
    using sc by (auto simp: rows scanned_def list_all_iff row_of_task_def group_of_tasks_def group_rows_def
        split: if_splits intro: row_id_group_row(2))
qed

section \<open>Following the cursor\<close>

definition page_items :: "json \<Rightarrow> json list" where
  "page_items j = (case jget j ''items'' of JArray rows \<Rightarrow> rows | _ \<Rightarrow> [])"

text \<open>The next request of a client that reads the list of query \<open>q\<close> and was answered \<open>j\<close>.\<close>

definition continuation :: "json \<Rightarrow> json \<Rightarrow> json" where
  "continuation q j =
     jset (jset q ''snapshot_generation'' (jget j ''snapshot_generation'')) ''before_task_id'' (jget j ''next_before_task_id'')"

text \<open>
  The client: all rows, read by one request at each of the later moments as long as there is more. Before each of its
  requests other clients make theirs. It may be refused, and it may run out of moments.
\<close>

type_synonym list_request = "env \<times> time_point \<times> json \<times> sys"

definition other_requests :: "list_request list \<Rightarrow> TaskListQuery \<Rightarrow> TaskListQuery" where
  "other_requests = fold (\<lambda>(e, now, q, s) st. snd (list_query e now q s st))"

fun follow :: "env \<Rightarrow> json \<Rightarrow> json \<Rightarrow> (list_request list \<times> time_point \<times> sys) list \<Rightarrow> TaskListQuery
  \<Rightarrow> (exn + json list) option" where
  "follow e q j later st =
     (if \<not> bool_of (jget j ''has_more'') then Some (Inr (page_items j))
      else
        (case later of
           [] \<Rightarrow> None
         | (others, now, s) # later' \<Rightarrow>
             (case list_query e now (continuation q j) s (other_requests others st) of
                (Inl x, _) \<Rightarrow> Some (Inl x)
              | (Inr j', st') \<Rightarrow> map_option (map_sum id ((@) (page_items j))) (follow e q j' later' st'))))"

declare follow.simps [simp del]

definition rest_of :: "u64 \<Rightarrow> json list \<Rightarrow> json list" where
  "rest_of before rows = filter (\<lambda>row. \<not> (before \<noteq> 0 \<and> before \<le> row_id row)) rows"

lemma list_page_fields:
  "page_items (list_page n before p) = take n (rest_of before (ls_rows p))"
  "bool_of (jget (list_page n before p) ''has_more'') \<longleftrightarrow> n < length (rest_of before (ls_rows p))"
  "jget (list_page n before p) ''snapshot_generation'' = JUnsigned (ls_id p)"
  "n < length (rest_of before (ls_rows p)) \<Longrightarrow> jget (list_page n before p) ''next_before_task_id''
     = jget (last (take n (rest_of before (ls_rows p)))) ''task_id''"
  by (simp_all add: page_items_def list_page_def rest_of_def page_take jobject_lookup)

lemma rows_descend_split:
  assumes "rows_descend rows" and "0 < n" and "n < length rows"
  shows "filter (\<lambda>row. row_id row < row_id (rows ! (n - 1))) rows = drop n rows"
    and "0 < row_id (rows ! (n - 1))"
proof -
  note nth = assms(1) [unfolded rows_descend_def sorted_wrt_iff_nth_less, rule_format]
  let ?x = "row_id (rows ! (n - 1))"
  have front: "\<not> row_id row < ?x" if "row \<in> set (take n rows)" for row
  proof -
    from that obtain i where i: "i < n" "row = rows ! i" using assms(3) by (auto simp: in_set_conv_nth)
    then consider "i = n - 1" | "i < n - 1" by linarith
    then show ?thesis
    proof cases
      case 2
      then have "row_id (rows ! (n - 1)) < row_id (rows ! i)" using nth assms(3) by simp
      then show ?thesis using i(2) by (simp add: less_not_sym)
    qed (simp add: i(2))
  qed
  have tail: "row_id row < ?x" if "row \<in> set (drop n rows)" for row
  proof -
    from that obtain i where "i < length rows - n" "row = rows ! (n + i)" by (auto simp: in_set_conv_nth)
    then show ?thesis using nth [of "n - 1" "n + i"] assms(2) by simp
  qed
  have "filter (\<lambda>row. row_id row < ?x) (take n rows @ drop n rows) = drop n rows"
    using front tail by (simp only: filter_append) (auto simp: filter_empty_conv filter_id_conv)
  then show "filter (\<lambda>row. row_id row < ?x) rows = drop n rows" by simp
  show "0 < ?x" using tail [of "rows ! n"] assms(3) by (metis nth_via_drop Cons_nth_drop_Suc list.set_intros(1) word_gt_0 word_not_simps(1))
qed

lemma rest_of_last:
  assumes "rows_descend rows" and "0 < n" and "n < length (rest_of b rows)"
  shows "rest_of (row_id (last (take n (rest_of b rows)))) rows = drop n (rest_of b rows)"
    and "row_id (last (take n (rest_of b rows))) \<noteq> 0"
proof -
  let ?R = "rest_of b rows"
  have l: "last (take n ?R) = ?R ! (n - 1)" using assms(2,3) by (subst last_conv_nth) (auto simp: min_def)
  have "rows_descend ?R"
    using assms(1) unfolding rows_descend_def rest_of_def by (rule sorted_wrt_filter)
  note split = rows_descend_split [OF this assms(2,3)]
  have "?R ! (n - 1) \<in> set ?R" using assms(3) by simp
  then have low: "b = 0 \<or> row_id (?R ! (n - 1)) < b" by (auto simp: rest_of_def)
  have "rest_of (row_id (?R ! (n - 1))) rows = filter (\<lambda>row. row_id row < row_id (?R ! (n - 1))) rows"
    using split(2) by (auto simp: rest_of_def not_le intro!: filter_cong)
  also have "\<dots> = filter (\<lambda>row. row_id row < row_id (?R ! (n - 1))) ?R"
    using low by (auto simp: rest_of_def intro!: filter_cong)
  finally show "rest_of (row_id (last (take n ?R))) rows = drop n ?R" "row_id (last (take n ?R)) \<noteq> 0"
    using split by (simp_all add: l word_gt_0)
qed

text \<open>A continued query reads the fields of the first one, and finds the same snapshot.\<close>

lemma delete_omap_set: "AList.delete k (omap_set k v m) = AList.delete k m"
  by (induction k v m rule: omap_set.induct) auto

lemma continuation_identity:
  assumes "q = JObject m"
  shows "AList.delete ''snapshot_generation'' (AList.delete ''before_task_id'' (AList.delete ''limit'' (members (continuation q j))))
    = AList.delete ''snapshot_generation'' (AList.delete ''before_task_id'' (AList.delete ''limit'' m))"
proof -
  have c: "AList.delete a (AList.delete b (AList.delete c M)) = AList.delete c (AList.delete a (AList.delete b M))"
    for a b c and M :: "(string \<times> json) list" by (metis delete_twist)
  show ?thesis
    unfolding c [of _ _ "''limit''"]
    by (simp add: continuation_def assms delete_omap_set)
       (simp add: delete_twist [of "''snapshot_generation''"] delete_omap_set)
qed

lemma continuation_field:
  assumes "is_object q" and "k \<noteq> ''snapshot_generation''" and "k \<noteq> ''before_task_id''"
  shows "contains (continuation q j) k = contains q k" "jget (continuation q j) k = jget q k"
  using assms by (simp_all add: continuation_def contains_jset jget_jset)

lemma continuation_cursor:
  assumes "is_object q"
  shows "contains (continuation q j) ''snapshot_generation''" "contains (continuation q j) ''before_task_id''"
    "jget (continuation q j) ''snapshot_generation'' = jget j ''snapshot_generation''"
    "jget (continuation q j) ''before_task_id'' = jget j ''next_before_task_id''"
  using assms by (simp_all add: continuation_def contains_jset jget_jset)

lemma query_limit_cong:
  "contains q ''limit'' = contains q' ''limit'' \<Longrightarrow> jget q ''limit'' = jget q' ''limit'' \<Longrightarrow> query_limit q = query_limit q'"
  by (simp add: query_limit_def query_positive_def)

lemma query_limit_pos: "query_limit q = Inr n \<Longrightarrow> 0 < n"
  by (auto simp: query_limit_def query_positive_def rbind_Inr_iff unat_gt_0 split: if_splits)

abbreviation list_fields :: "string list" where
  "list_fields \<equiv> [''status'', ''target'', ''revision'', ''batch_id'', ''limit'', ''before_task_id'', ''snapshot_generation'', ''view'']"

definition list_identity :: "json_codec \<Rightarrow> json \<Rightarrow> string option" where
  "list_identity jc q = jdump jc (JObject (AList.delete ''snapshot_generation'' (AList.delete ''before_task_id''
     (AList.delete ''limit'' (members q)))))"

lemma validate_continuation:
  assumes "query_validate q list_fields = Inr ()"
  shows "query_validate (continuation q j) list_fields = Inr ()"
proof -
  obtain m where m: "q = JObject m" using assms by (cases q) (auto simp: query_validate_def)
  have keys: "list_all (\<lambda>(k, v). k \<in> set list_fields) M \<longleftrightarrow> fst ` set M \<subseteq> set list_fields" for M :: "(string \<times> json) list"
    by (fastforce simp: list_all_iff)
  show ?thesis
    using assms unfolding query_validate_def keys by (auto simp: m continuation_def keys_omap_set split: if_splits)
qed

definition list_gone :: exn where
  "list_gone = Invalid_argument ''task snapshot expired; restart query from first page''"

lemma list_query_continued:
  assumes valid: "query_validate q list_fields = Inr ()" and lim: "query_limit q = Inr n"
    and ident: "list_identity (e_codec e) q = Some identity"
    and j: "jget j ''snapshot_generation'' = JUnsigned token" "token \<noteq> 0"
      "jget j ''next_before_task_id'' = JUnsigned before" "before \<noteq> 0"
  shows "list_query e now (continuation q j) s st
    = (case last_such (\<lambda>p. ls_id p = token \<and> ls_filter p = identity) (dropWhile (\<lambda>p. ls_expires p \<le> now) (tl_snapshots st)) of
         None \<Rightarrow> Inl list_gone | Some p \<Rightarrow> Inr (list_page n before p),
       st\<lparr>tl_snapshots := dropWhile (\<lambda>p. ls_expires p \<le> now) (tl_snapshots st)\<rparr>)"
proof -
  obtain m where m: "q = JObject m" using valid by (cases q) (auto simp: query_validate_def)
  then have obj: "is_object q" by simp
  have "query_limit (continuation q j) = Inr n"
    using lim continuation_field [OF obj, of "''limit''" j] query_limit_cong [of "continuation q j" q] by simp
  moreover have "query_positive (continuation q j) ''before_task_id'' 0 = Inr before"
    "query_positive (continuation q j) ''snapshot_generation'' 0 = Inr token"
    using continuation_cursor [OF obj, of j] j by (simp_all add: query_positive_def)
  moreover have "jdump (e_codec e) (JObject (AList.delete ''snapshot_generation'' (AList.delete ''before_task_id''
      (AList.delete ''limit'' (members (continuation q j)))))) = Some identity"
    using ident continuation_identity [OF m, of j] by (simp add: list_identity_def m)
  ultimately show ?thesis
    using validate_continuation [OF valid, of j] j(2) unfolding list_query_def expired_list_def list_gone_def by (simp add: Let_def)
qed

section \<open>The snapshots kept\<close>

text \<open>
  A query removes snapshots from the front, and may add one at the end, with the next id: the list of its filter at that
  moment. A query with a cursor never adds one.
\<close>

definition snapshot_of :: "env \<Rightarrow> json \<Rightarrow> sys \<Rightarrow> list_snapshot \<Rightarrow> bool" where
  "snapshot_of e q s p \<longleftrightarrow> list_identity (e_codec e) q = Some (ls_filter p)
     \<and> (\<exists>f. read_list_filter q = Inr f \<and> list_rows e f s = Inr (ls_rows p, ls_generation p))"

definition continued :: "json \<Rightarrow> bool" where
  "continued q \<longleftrightarrow> contains q ''before_task_id'' \<or> contains q ''snapshot_generation''"

lemma make_room_suffix: "set (make_room n ss) \<subseteq> set ss"
  by (induction n ss rule: make_room.induct) auto

lemma sorted_make_room: "sorted_wrt R ss \<Longrightarrow> sorted_wrt R (make_room n ss)"
  by (induction n ss rule: make_room.induct) auto

lemma sorted_dropWhile: "sorted_wrt R ss \<Longrightarrow> sorted_wrt R (dropWhile P ss)"
  by (induction ss) auto

lemma query_positive_set: "contains q k \<Longrightarrow> query_positive q k d = Inr v \<Longrightarrow> v \<noteq> 0"
  by (auto simp: query_positive_def split: if_splits)

abbreviation live_at :: "time_point \<Rightarrow> TaskListQuery \<Rightarrow> list_snapshot list" where
  "live_at now st \<equiv> dropWhile (\<lambda>p. ls_expires p \<le> now) (tl_snapshots st)"

lemma new_list_effect:
  assumes "list_identity (e_codec e) q = Some identity"
  shows "snd (new_list e now q n identity s st) = st
    \<or> (\<exists>m p. snd (new_list e now q n identity s st) = \<lparr>tl_snapshots = make_room m (tl_snapshots st) @ [p], tl_next = tl_next st + 1\<rparr>
         \<and> ls_id p = tl_next st + 1 \<and> ls_expires p = now + kSnapshotLife \<and> snapshot_of e q s p)"
proof (cases "fst (new_list e now q n identity s st)")
  case (Inl x)
  then have "snd (new_list e now q n identity s st) = st"
    by (auto simp: new_list_def keep_snapshot_def Let_def split: sum.splits)
  then show ?thesis ..
next
  case (Inr j)
  then obtain st1 where run: "new_list e now q n identity s st = (Inr j, st1)" by (metis prod.collapse)
  then obtain f rows captured bytes p where f: "read_list_filter q = Inr f" "list_rows e f s = Inr (rows, captured)"
    and k: "keep_snapshot now identity rows captured bytes st = (p, st1)"
    by (auto simp: new_list_def rbind_Inr_iff split: sum.splits if_splits prod.splits)
  then show ?thesis using assms unfolding run by (auto simp: keep_snapshot_def Let_def snapshot_of_def)
qed

lemma list_query_read:
  assumes "query_validate q list_fields = Inr ()" and "query_limit q = Inr n" and "query_positive q ''before_task_id'' 0 = Inr before"
    and "query_positive q ''snapshot_generation'' 0 = Inr token" and "list_identity (e_codec e) q = Some identity"
  shows "token \<noteq> 0 \<or> before \<noteq> 0 \<Longrightarrow> snd (list_query e now q s st) = st\<lparr>tl_snapshots := live_at now st\<rparr>"
    and "snd (list_query e now q s st) = st\<lparr>tl_snapshots := live_at now st\<rparr>
      \<or> snd (list_query e now q s st) = snd (new_list e now q n identity s (st\<lparr>tl_snapshots := live_at now st\<rparr>))"
  using assms by (auto simp: list_query_def list_identity_def Let_def split: option.split)

lemma list_query_refused:
  assumes "\<nexists>n before token identity. query_validate q list_fields = Inr () \<and> query_limit q = Inr n
     \<and> query_positive q ''before_task_id'' 0 = Inr before \<and> query_positive q ''snapshot_generation'' 0 = Inr token
     \<and> list_identity (e_codec e) q = Some identity"
  shows "snd (list_query e now q s st) = st"
  using assms unfolding list_query_def list_identity_def
  by (cases "query_validate q list_fields"; cases "query_limit q"; cases "query_positive q ''before_task_id'' 0";
      cases "query_positive q ''snapshot_generation'' 0") (simp_all split: option.split)

lemma list_query_effect:
  obtains (same) "snd (list_query e now q s st) = st"
  | (kept) "snd (list_query e now q s st) = st\<lparr>tl_snapshots := live_at now st\<rparr>"
  | (added) n p where "\<not> continued q"
      "snd (list_query e now q s st) = \<lparr>tl_snapshots = make_room n (live_at now st) @ [p], tl_next = tl_next st + 1\<rparr>"
      "ls_id p = tl_next st + 1" "ls_expires p = now + kSnapshotLife" "snapshot_of e q s p"
proof -
  consider (refused) "snd (list_query e now q s st) = st"
    | (read) n before token identity where "query_validate q list_fields = Inr ()" "query_limit q = Inr n"
        "query_positive q ''before_task_id'' 0 = Inr before" "query_positive q ''snapshot_generation'' 0 = Inr token"
        "list_identity (e_codec e) q = Some identity"
    using list_query_refused by metis
  then show thesis
  proof cases
    case refused
    then show ?thesis by (rule same)
  next
    case (read n before token identity)
    note R = list_query_read [OF read, of now s st]
    show ?thesis
    proof (cases "snd (list_query e now q s st) = st\<lparr>tl_snapshots := live_at now st\<rparr>")
      case False
      then have "token = 0" "before = 0" using R(1) by auto
      then have "\<not> continued q" using read(3,4) query_positive_set unfolding continued_def by blast
      with False R(2) new_list_effect [OF read(5), of now n s "st\<lparr>tl_snapshots := live_at now st\<rparr>"] show ?thesis
        by (auto intro: added)
    qed (rule kept)
  qed
qed

text \<open>What the server has kept after any queries, at any states of the scheduler, as long as there are ids.\<close>

inductive lists_run :: "TaskListQuery \<Rightarrow> bool" where
  lr_new: "lists_run new_task_lists"
| lr_query: "lists_run st \<Longrightarrow> reachable s \<Longrightarrow> tl_next st + 1 \<noteq> 0 \<Longrightarrow> lists_run (snd (list_query e now q s st))"

definition lists_ok :: "TaskListQuery \<Rightarrow> bool" where
  "lists_ok st \<longleftrightarrow> sorted_wrt (\<lambda>a b. ls_id a < ls_id b) (tl_snapshots st)
     \<and> (\<forall>p \<in> set (tl_snapshots st). ls_id p \<noteq> 0 \<and> ls_id p \<le> tl_next st \<and> (\<exists>e q s. reachable s \<and> snapshot_of e q s p))"

lemma less_next: "i \<le> n \<Longrightarrow> n + 1 \<noteq> 0 \<Longrightarrow> i < n + (1 :: u64)"
  by (simp add: word_less_nat_alt word_le_nat_alt unatSuc add.commute)

lemma set_live: "set (live_at now st) \<subseteq> set (tl_snapshots st)"
  by (auto dest: set_dropWhileD)

lemma lists_ok_query:
  assumes ok: "lists_ok st" and s: "reachable s" and room: "tl_next st + 1 \<noteq> 0"
  shows "lists_ok (snd (list_query e now q s st))"
proof (cases rule: list_query_effect [of e now q s st])
  case same
  then show ?thesis using ok by simp
next
  case kept
  then show ?thesis using ok set_live [of now st] by (auto simp: lists_ok_def sorted_dropWhile)
next
  case (added n p)
  let ?old = "make_room n (live_at now st)"
  have old: "set ?old \<subseteq> set (tl_snapshots st)" using make_room_suffix set_live by blast
  have low: "ls_id p' < tl_next st + 1" if "p' \<in> set ?old" for p'
    using that old ok room less_next unfolding lists_ok_def by blast
  have "sorted_wrt (\<lambda>a b. ls_id a < ls_id b) ?old" using ok by (simp add: lists_ok_def sorted_make_room sorted_dropWhile)
  with low added(3) have "sorted_wrt (\<lambda>a b. ls_id a < ls_id b) (?old @ [p])" by (simp add: sorted_wrt_append)
  moreover have "ls_id p' \<noteq> 0 \<and> ls_id p' \<le> tl_next st + 1 \<and> (\<exists>e q s. reachable s \<and> snapshot_of e q s p')" if "p' \<in> set (?old @ [p])" for p'
    using that low old ok room added(3,5) s unfolding lists_ok_def by (auto intro: order_less_imp_le)
  ultimately show ?thesis unfolding lists_ok_def added(2) by simp
qed

lemma lists_run_ok: "lists_run st \<Longrightarrow> lists_ok st"
  by (induction rule: lists_run.induct) (simp add: lists_ok_def new_task_lists_def, rule lists_ok_query)

lemma lists_unique: "lists_ok st \<Longrightarrow> a \<in> set (tl_snapshots st) \<Longrightarrow> b \<in> set (tl_snapshots st) \<Longrightarrow> ls_id a = ls_id b \<Longrightarrow> a = b"
proof -
  have "sorted_wrt (\<lambda>a b. ls_id a < ls_id b) ss \<Longrightarrow> a \<in> set ss \<Longrightarrow> b \<in> set ss \<Longrightarrow> ls_id a = ls_id b \<Longrightarrow> a = b" for ss
    by (induction ss) auto
  then show "lists_ok st \<Longrightarrow> a \<in> set (tl_snapshots st) \<Longrightarrow> b \<in> set (tl_snapshots st) \<Longrightarrow> ls_id a = ls_id b \<Longrightarrow> a = b"
    by (auto simp: lists_ok_def)
qed

section \<open>Other clients\<close>

text \<open>The id of a snapshot is never given to another, so that what is found under it later is that snapshot or nothing.\<close>

definition owns :: "list_snapshot \<Rightarrow> TaskListQuery \<Rightarrow> bool" where
  "owns p st \<longleftrightarrow> (\<forall>p' \<in> set (tl_snapshots st). ls_id p' = ls_id p \<longrightarrow> p' = p) \<and> ls_id p \<le> tl_next st"

lemma owns_query:
  assumes "owns p st" and "tl_next st + 1 \<noteq> 0"
  shows "owns p (snd (list_query e now q s st))"
proof (cases rule: list_query_effect [of e now q s st])
  case same
  then show ?thesis using assms by simp
next
  case kept
  then show ?thesis using assms(1) set_live [of now st] by (auto simp: owns_def)
next
  case (added n p1)
  have "ls_id p < tl_next st + 1" using assms less_next by (simp add: owns_def)
  then show ?thesis
    using assms(1) added(3) make_room_suffix [of n "live_at now st"] set_live [of now st]
    unfolding owns_def added(2) by (auto intro: order_less_imp_le)
qed

lemma next_query: "unat (tl_next (snd (list_query e now q s st))) \<le> Suc (unat (tl_next st))"
proof -
  have "unat (x + 1) \<le> Suc (unat x)" for x :: u64 by (cases "x + 1 = 0") (simp_all add: unatSuc add.commute)
  then show ?thesis by (cases rule: list_query_effect [of e now q s st]) simp_all
qed

lemma next_room:
  assumes "unat n + 1 < 2 ^ 64"
  shows "n + 1 \<noteq> (0 :: u64)"
proof
  assume "n + 1 = 0"
  then have "(of_nat (unat n + 1) :: u64) = 0" by (simp only: of_nat_add of_nat_1 of_nat_unat ucast_id)
  then have "2 ^ 64 dvd unat n + 1" by (simp only: word_of_nat_eq_0_iff) simp
  with assms show False using dvd_imp_le [of "2 ^ 64" "unat n + 1"] by linarith
qed

lemma other_requests_own:
  "owns p st \<Longrightarrow> unat (tl_next st) + length others < 2 ^ 64 \<Longrightarrow>
     owns p (other_requests others st) \<and> unat (tl_next (other_requests others st)) \<le> unat (tl_next st) + length others"
proof (induction others arbitrary: st)
  case (Cons r others)
  obtain e now q s where r: "r = (e, now, q, s)" by (cases r)
  let ?st = "snd (list_query e now q s st)"
  have "owns p ?st" using Cons.prems by (intro owns_query next_room) simp_all
  moreover have "unat (tl_next ?st) \<le> Suc (unat (tl_next st))" by (rule next_query)
  ultimately show ?case using Cons.IH [of ?st] Cons.prems(2) by (auto simp: other_requests_def r)
qed (simp add: other_requests_def)

text \<open>Requests that open no list of their own, before the snapshot expires, leave it in place.\<close>

definition undisturbed :: "list_snapshot \<Rightarrow> (list_request list \<times> time_point \<times> sys) list \<Rightarrow> bool" where
  "undisturbed p later \<longleftrightarrow> (\<forall>(others, now, s) \<in> set later. now < ls_expires p
     \<and> (\<forall>(e', now', q', s') \<in> set others. continued q' \<and> now' < ls_expires p))"

lemma in_live: "p \<in> set (tl_snapshots st) \<Longrightarrow> now < ls_expires p \<Longrightarrow> p \<in> set (live_at now st)"
proof -
  have "p \<in> set ss \<Longrightarrow> now < ls_expires p \<Longrightarrow> p \<in> set (dropWhile (\<lambda>p. ls_expires p \<le> now) ss)" for ss by (induction ss) auto
  then show "p \<in> set (tl_snapshots st) \<Longrightarrow> now < ls_expires p \<Longrightarrow> p \<in> set (live_at now st)" by blast
qed

lemma other_requests_keep:
  "p \<in> set (tl_snapshots st) \<Longrightarrow> \<forall>(e', now', q', s') \<in> set others. continued q' \<and> now' < ls_expires p \<Longrightarrow>
     p \<in> set (tl_snapshots (other_requests others st))"
proof (induction others arbitrary: st)
  case (Cons r others)
  obtain e now q s where r: "r = (e, now, q, s)" by (cases r)
  have "p \<in> set (tl_snapshots (snd (list_query e now q s st)))"
    by (rule list_query_effect [of e now q s st]) (use Cons.prems in_live in \<open>auto simp: r\<close>)
  with Cons show ?case by (simp add: other_requests_def r)
qed (simp add: other_requests_def)

lemma owns_last:
  assumes "owns p st" and "ls_filter p = identity"
  shows "last_such (\<lambda>p'. ls_id p' = ls_id p \<and> ls_filter p' = identity) (live_at now st) = (if p \<in> set (live_at now st) then Some p else None)"
proof -
  have only: "\<forall>x \<in> set xs. (P x \<longleftrightarrow> x = p) \<Longrightarrow> find P xs = (if p \<in> set xs then Some p else None)" for P xs
    by (induction xs) auto
  have "\<forall>x \<in> set (rev (live_at now st)). (ls_id x = ls_id p \<and> ls_filter x = identity) \<longleftrightarrow> x = p"
    using assms set_live [of now st] by (auto simp: owns_def)
  from only [OF this] show ?thesis by (simp add: last_such_def)
qed

section \<open>Reading a list to its end\<close>

lemma follow_rows:
  assumes valid: "query_validate q list_fields = Inr ()" and lim: "query_limit q = Inr n"
    and ident: "list_identity (e_codec e) q = Some (ls_filter p)"
    and p: "rows_descend (ls_rows p)" "ls_id p \<noteq> 0" "list_all is_row (ls_rows p)"
  shows "\<lbrakk>owns p st; unat (tl_next st) + sum_list (map (length \<circ> fst) later) < 2 ^ 64; length (rest_of b (ls_rows p)) \<le> n * Suc (length later)\<rbrakk> \<Longrightarrow>
    follow e q (list_page n b p) later st = Some (Inr (rest_of b (ls_rows p)))
    \<or> (follow e q (list_page n b p) later st = Some (Inl list_gone) \<and> \<not> (p \<in> set (tl_snapshots st) \<and> undisturbed p later))"
proof (induction later arbitrary: b st)
  case Nil
  then show ?case by (subst (1) follow.simps) (simp add: list_page_fields)
next
  case (Cons x later)
  obtain others now s where x: "x = (others, now, s)" by (cases x)
  let ?R = "rest_of b (ls_rows p)"
  show ?case
  proof (cases "n < length ?R")
    case False
    then show ?thesis by (subst (1) follow.simps) (simp add: list_page_fields)
  next
    case True
    define b' where "b' = row_id (last (take n ?R))"
    have n: "0 < n" using query_limit_pos [OF lim] .
    note rest = rest_of_last [OF p(1) n True, folded b'_def]
    have "last (take n ?R) \<in> set (take n ?R)" using n True by (intro last_in_set) auto
    then have "last (take n ?R) \<in> set (ls_rows p)" by (auto simp: rest_of_def dest: in_set_takeD)
    then have cursor: "jget (list_page n b p) ''next_before_task_id'' = JUnsigned b'"
      using p(3) by (simp add: list_page_fields(4) [OF True] b'_def list_all_iff is_row_def)
    define st0 where "st0 = other_requests others st"
    define st1 where "st1 = st0\<lparr>tl_snapshots := live_at now st0\<rparr>"
    have own: "owns p st0" "unat (tl_next st0) \<le> unat (tl_next st) + length others"
      using other_requests_own [of p st others] Cons.prems(1,2) by (auto simp: x st0_def)
    have own1: "owns p st1" using own(1) set_live [of now st0] by (auto simp: owns_def st1_def)
    have Q: "list_query e now (continuation q (list_page n b p)) s st0
        = (if p \<in> set (live_at now st0) then Inr (list_page n b' p) else Inl list_gone, st1)"
      using list_query_continued [OF valid lim ident list_page_fields(3) p(2) cursor rest(2)] owns_last [OF own(1) refl]
      by (simp add: st1_def)
    have stay: "p \<in> set (live_at now st0)" if "p \<in> set (tl_snapshots st)" "undisturbed p (x # later)"
      using that other_requests_keep [of p st others] in_live [of p st0 now] by (auto simp: undisturbed_def x st0_def)
    have IH: "follow e q (list_page n b' p) later st1 = Some (Inr (rest_of b' (ls_rows p)))
      \<or> (follow e q (list_page n b' p) later st1 = Some (Inl list_gone) \<and> \<not> (p \<in> set (tl_snapshots st1) \<and> undisturbed p later))"
      using Cons.prems(2,3) own(2) by (intro Cons.IH own1) (auto simp: rest(1) x st1_def)
    have step: "follow e q (list_page n b p) (x # later) st = (if p \<in> set (live_at now st0)
        then map_option (map_sum id ((@) (take n ?R))) (follow e q (list_page n b' p) later st1) else Some (Inl list_gone))"
      using True Q by (subst follow.simps) (simp add: x list_page_fields st0_def)
    show ?thesis
    proof (cases "p \<in> set (live_at now st0)")
      case True
      have "undisturbed p later" if "undisturbed p (x # later)" using that by (simp add: undisturbed_def)
      with True IH show ?thesis unfolding step by (auto simp: rest(1) st1_def)
    qed (use stay step in auto)
  qed
qed

lemma rest_of_0: "rest_of 0 rows = rows"
  by (simp add: rest_of_def)

text \<open>What an answered first request was answered from.\<close>

lemma list_query_first:
  assumes run: "list_query e now q s st = (Inr first, st1)" and ok: "lists_ok st" and none: "\<not> continued q"
  obtains n p where "query_validate q list_fields = Inr ()" "query_limit q = Inr n"
    "list_identity (e_codec e) q = Some (ls_filter p)" "first = list_page n 0 p" "p \<in> set (tl_snapshots st1)"
    "(p \<in> set (tl_snapshots st) \<and> ls_generation p = taskGeneration s)
     \<or> (ls_id p = tl_next st + 1 \<and> ls_expires p = now + kSnapshotLife \<and> snapshot_of e q s p)"
proof -
  have none: "\<not> contains q ''before_task_id''" "\<not> contains q ''snapshot_generation''" using none by (auto simp: continued_def)
  obtain n identity where valid: "query_validate q list_fields = Inr ()" and lim: "query_limit q = Inr n"
    and ident: "list_identity (e_codec e) q = Some identity"
    using run none
    by (auto simp: list_query_def list_identity_def query_positive_def split: sum.splits option.splits elim!: rbind_Inr_E)
  let ?live = "live_at now st"
  let ?answer = "\<lambda>P. case last_such P ?live of None \<Rightarrow> expired_list | Some p \<Rightarrow> Inr (list_page n 0 p)"
  have step: "list_query e now q s st =
    (case find (\<lambda>p. ls_generation p = taskGeneration s \<and> ls_filter p = identity) ?live of
       Some saved \<Rightarrow>
         if ls_id saved = 0 then (Inl (Invalid_argument ''expected positive integer''), st\<lparr>tl_snapshots := ?live\<rparr>)
         else (?answer (\<lambda>p. ls_id p = ls_id saved \<and> ls_filter p = identity), st\<lparr>tl_snapshots := ?live\<rparr>)
     | None \<Rightarrow> new_list e now q n identity s (st\<lparr>tl_snapshots := ?live\<rparr>))"
    using valid lim ident none by (simp add: list_query_def list_identity_def query_positive_def Let_def)
  show thesis
  proof (cases "find (\<lambda>p. ls_generation p = taskGeneration s \<and> ls_filter p = identity) ?live")
    case (Some saved)
    then have saved: "saved \<in> set ?live" "ls_generation saved = taskGeneration s" "ls_filter saved = identity"
      by (auto simp: find_Some_iff)
    obtain p where p: "last_such (\<lambda>p. ls_id p = ls_id saved \<and> ls_filter p = identity) ?live = Some p"
      "first = list_page n 0 p" "st1 = st\<lparr>tl_snapshots := ?live\<rparr>"
      using run step Some by (auto simp: expired_list_def split: if_splits option.splits)
    then have "p \<in> set ?live" "ls_id p = ls_id saved" by (auto simp: last_such_def find_Some_iff) (metis nth_mem set_rev length_rev)
    then have "p = saved" using saved(1) set_live [of now st] lists_unique [OF ok] by blast
    with that [OF valid lim _ p(2)] p(3) saved ident set_live [of now st] show ?thesis by auto
  next
    case None
    then obtain f rows captured bytes p where "read_list_filter q = Inr f" "list_rows e f s = Inr (rows, captured)"
      and k: "keep_snapshot now identity rows captured bytes (st\<lparr>tl_snapshots := ?live\<rparr>) = (p, st1)" "first = list_page n 0 p"
      using run step by (auto simp: new_list_def rbind_Inr_iff split: sum.splits if_splits prod.splits)
    with ident show ?thesis
      by (intro that [OF valid lim _ k(2)]) (auto simp: keep_snapshot_def Let_def snapshot_of_def)
  qed
qed


text \<open>Two tasks, read one at a time.\<close>

definition one_by_one :: json where
  "one_by_one = JObject [(''limit'', JUnsigned 1)]"

definition page_env :: env where
  "page_env = demo_env\<lparr>e_codec := \<lparr>jdump = \<lambda>_. Some ''{}'', jparse = \<lambda>_. None\<rparr>\<rparr>"

lemma page_env_size: "dump_size (e_codec page_env) j = Inr 2"
  by (simp add: dump_size_def page_env_def)

lemma copy_field_empty: "copy_field (JObject []) n k p = p"
  by (cases p) (simp add: copy_field_def)

lemma visit_plain:
  assumes "t_payload t = JObject []" and "sn_retained st + 2 \<le> list_budget"
    and "f = \<lparr>lf_view = [], lf_status = [], lf_target = [], lf_revision = [], lf_batch = []\<rparr>"
  shows "\<exists>st'. visit_task (e_codec page_env) f t st = Inr st' \<and> sn_retained st' = sn_retained st + 2"
proof -
  have "fst (summary_parts t) = JObject [(''context'', JObject [])]"
    using assms(1) by (simp add: summary_parts_def copy_field_empty Let_def case_prod_unfold)
  then obtain x tr where parts: "summary_parts t = (JObject [(''context'', JObject [])], x, tr)"
    by (metis prod.collapse)
  obtain summary where sum: "taskListSummary (e_codec page_env) t = Inr summary"
    by (simp add: taskListSummary_def parts page_env_size Let_def)
  then have "jget summary ''payload'' = JObject [(''context'', JObject [])]"
    by (auto simp: taskListSummary_def parts page_env_size Let_def put_time_def jget_jset jobject_lookup split: if_splits)
  with sum assms(2,3) show ?thesis
    by (simp add: visit_task_def jget_def jvalue_string_def scan_row_def page_env_size)
qed

lemma visit_all_plain:
  assumes "f = \<lparr>lf_view = [], lf_status = [], lf_target = [], lf_revision = [], lf_batch = []\<rparr>"
  shows "list_all (\<lambda>t. t_payload t = JObject []) ts \<Longrightarrow> sn_retained st + 2 * length ts \<le> list_budget
    \<Longrightarrow> \<exists>st'. visit_all (e_codec page_env) f ts st = Inr st'"
proof (induction ts arbitrary: st)
  case (Cons t ts)
  then obtain st' where "visit_task (e_codec page_env) f t st = Inr st'" "sn_retained st' = sn_retained st + 2"
    using visit_plain [OF _ _ assms, of t st] by auto
  with Cons show ?case by simp
qed simp

lemma one_by_one_answered: "\<exists>first st1. list_query page_env 0 one_by_one demo_queued new_task_lists = (Inr first, st1)"
proof -
  let ?ts = "map snd (sc_tasks (sy_sched demo_queued))"
  let ?f = "\<lparr>lf_view = [], lf_status = [], lf_target = [], lf_revision = [], lf_batch = []\<rparr>"
  have "list_all (\<lambda>t. t_payload t = JObject []) ?ts" "length ?ts = 3" by code_simp+
  then obtain st where st: "visit_all (e_codec page_env) ?f ?ts \<lparr>sn_rows = [], sn_groups = [], sn_retained = 0\<rparr> = Inr st"
    using visit_all_plain [OF refl, of ?ts "\<lparr>sn_rows = [], sn_groups = [], sn_retained = 0\<rparr>"] by (auto simp: list_budget_def)
  have "sy_store demo_queued = None" by code_simp
  then have "visitTasks page_env [] demo_queued = Inr (?ts, sc_generation (sy_sched demo_queued))"
    by (simp add: visitTasks_def)
  with st obtain rows g where "list_rows page_env ?f demo_queued = Inr (rows, g)" by (simp add: list_rows_def)
  moreover have "read_list_filter one_by_one = Inr ?f"
    by (simp add: read_list_filter_def query_text_def one_by_one_def)
  ultimately obtain j st1 where "new_list page_env 0 one_by_one 1 ''{}'' demo_queued new_task_lists = (Inr j, st1)"
    by (simp add: new_list_def page_env_size list_budget_def keep_snapshot_def Let_def)
  then show ?thesis
    by (simp add: list_query_def query_validate_def query_limit_def query_positive_def one_by_one_def jget_def
        page_env_def new_task_lists_def)
qed

definition other_page :: list_request where
  "other_page = (page_env, 1, JObject [(''snapshot_generation'', JUnsigned 1)], boot demo_wm0)"


end
