(* ===== verification/ProgressFacts.thy ===== *)
theory ProgressFacts
  imports Progress ListPages
begin

text \<open>
  The rollback report against its specification: for every case, the latest attempt at either
  revision, wherever it stands among the tasks visited; the report is exactly the cases whose
  latest attempt went from PASS to FAIL, in the order of their current task ids, cut into pages.
\<close>

section \<open>The latest attempt\<close>

definition attempts :: "string \<Rightarrow> string \<Rightarrow> Task list \<Rightarrow> string \<Rightarrow> string \<Rightarrow> Task set" where
  "attempts target flow ts r k =
     {t \<in> set ts. collected target flow t \<and> numericRevision (t_revision t) = r \<and> caseKey t = k}"

definition latest_attempt :: "string \<Rightarrow> string \<Rightarrow> Task list \<Rightarrow> string \<Rightarrow> string \<Rightarrow> Task \<Rightarrow> bool" where
  "latest_attempt target flow ts r k t \<longleftrightarrow>
     t \<in> attempts target flow ts r k \<and> (\<forall>u \<in> attempts target flow ts r k. t_id u \<le> t_id t)"

text \<open>The cases that went from PASS to FAIL between the two revisions, each with its two attempts.\<close>

definition regressed_cases :: "RollbackQuery \<Rightarrow> Task list \<Rightarrow> (Task \<times> Task) set" where
  "regressed_cases q ts =
     {(a, b). \<exists>k. latest_attempt (rq_target q) (rq_flow q) ts (rq_from_revision q) k a
        \<and> latest_attempt (rq_target q) (rq_flow q) ts (rq_to_revision q) k b
        \<and> progress_outcome a = ''PASS'' \<and> progress_outcome b = ''FAIL''}"

section \<open>The collected table\<close>

definition cell :: "revisions \<Rightarrow> string \<Rightarrow> string \<Rightarrow> Task option" where
  "cell m r k = (case map_of m (revision_key r) of None \<Rightarrow> None | Some cs \<Rightarrow> map_of cs k)"

lemma cell_collect:
  "cell (collect_task target flow u m) r k =
     (if collected target flow u \<and> numericRevision (t_revision u) = r \<and> caseKey u = k
      then (case cell m r k of None \<Rightarrow> Some u | Some p \<Rightarrow> Some (if t_id p < t_id u then u else p)) else cell m r k)"
  by (auto simp: cell_def collect_task_def Let_def map_of_omap_set_any revision_key_def split: option.split)

definition cells_ok :: "string \<Rightarrow> string \<Rightarrow> Task list \<Rightarrow> revisions \<Rightarrow> bool" where
  "cells_ok target flow us m \<longleftrightarrow>
     (\<forall>r k. case cell m r k of None \<Rightarrow> attempts target flow us r k = {} | Some p \<Rightarrow> latest_attempt target flow us r k p)
     \<and> omap_wf m \<and> (\<forall>(r, cs) \<in> set m. omap_wf cs)"

lemma attempts_snoc:
  "attempts target flow (us @ [u]) r k = attempts target flow us r k
     \<union> (if collected target flow u \<and> numericRevision (t_revision u) = r \<and> caseKey u = k then {u} else {})"
  by (auto simp: attempts_def)

lemma cells_collect:
  assumes "cells_ok target flow us m"
  shows "cells_ok target flow (us @ [u]) (collect_task target flow u m)"
proof -
  let ?m = "collect_task target flow u m"
  have "case cell ?m r k of None \<Rightarrow> attempts target flow (us @ [u]) r k = {}
      | Some p \<Rightarrow> latest_attempt target flow (us @ [u]) r k p" for r k
  proof -
    have "case cell m r k of None \<Rightarrow> attempts target flow us r k = {} | Some p \<Rightarrow> latest_attempt target flow us r k p"
      using assms by (simp add: cells_ok_def)
    then show ?thesis
      by (auto simp: cell_collect attempts_snoc latest_attempt_def intro: le_less_trans less_imp_le split: option.splits if_splits)
  qed
  moreover have "omap_wf ?m" using assms by (simp add: cells_ok_def collect_task_def Let_def omap_wf_set)
  moreover have "\<forall>(r, cs) \<in> set ?m. omap_wf cs"
  proof (cases "collected target flow u")
    case True
    define r where "r = revision_key (numericRevision (t_revision u))"
    define cs where "cs = (case map_of m r of None \<Rightarrow> [] | Some cs \<Rightarrow> cs)"
    have "omap_wf cs" using assms by (auto simp: cs_def cells_ok_def dest: map_of_SomeD split: option.split)
    then have "omap_wf (case map_of cs (caseKey u) of None \<Rightarrow> omap_set (caseKey u) u cs
        | Some prior \<Rightarrow> if t_id prior < t_id u then omap_set (caseKey u) u cs else cs)"
      by (simp add: omap_wf_set split: option.split)
    with True assms set_omap_set [of m r] show ?thesis
      unfolding cells_ok_def collect_task_def Let_def r_def [symmetric] cs_def [symmetric] by fastforce
  qed (use assms in \<open>simp add: cells_ok_def collect_task_def\<close>)
  ultimately show ?thesis by (simp add: cells_ok_def)
qed

lemma cells_collected: "cells_ok target flow ts (collect ts target flow)"
proof -
  have "cells_ok target flow (us @ ts) (fold (collect_task target flow) ts m)" if "cells_ok target flow us m" for us m
    using that
  proof (induction ts arbitrary: us m)
    case (Cons t ts)
    from Cons.IH [OF cells_collect [OF Cons.prems], of t] show ?case by simp
  qed simp
  from this [of "[]" "[]"] show ?thesis by (simp add: collect_def cells_ok_def cell_def attempts_def)
qed

lemma attempts_filter:
  assumes "r = rq_from_revision q \<or> r = rq_to_revision q"
  shows "attempts (rq_target q) (rq_flow q) (filter (rollback_visited q) ts) r k = attempts (rq_target q) (rq_flow q) ts r k"
  using assms by (auto simp: attempts_def rollback_visited_def collected_def)

lemma latest_unique:
  assumes "distinct (map t_id ts)" and "latest_attempt target flow ts r k a" and "latest_attempt target flow ts r k b"
  shows "a = b"
  using assms unfolding latest_attempt_def attempts_def by (metis (no_types, lifting) antisym distinct_map inj_onD mem_Collect_eq)

section \<open>The pairs reported\<close>

definition rollback_pairs :: "RollbackQuery \<Rightarrow> revisions \<Rightarrow> (Task \<times> Task) list" where
  "rollback_pairs q m =
     (case (map_of m (revision_key (rq_from_revision q)), map_of m (revision_key (rq_to_revision q))) of
        (Some old, Some current) \<Rightarrow>
          concat (map (\<lambda>(k, t). case map_of old k of
                                  None \<Rightarrow> []
                                | Some prior \<Rightarrow>
                                    if progress_outcome prior = ''PASS'' \<and> progress_outcome t = ''FAIL''
                                    then [(prior, t)] else []) current)
      | _ \<Rightarrow> [])"

lemma matches_pairs: "rollback_matches q m = map (\<lambda>(a, b). rollback_item q a b) (rollback_pairs q m)"
proof -
  have "concat (map (\<lambda>(k, t). case map_of old k of None \<Rightarrow> [] | Some prior \<Rightarrow>
      if progress_outcome prior = ''PASS'' \<and> progress_outcome t = ''FAIL'' then [rollback_item q prior t] else []) cs)
    = map (\<lambda>(a, b). rollback_item q a b) (concat (map (\<lambda>(k, t). case map_of old k of None \<Rightarrow> [] | Some prior \<Rightarrow>
      if progress_outcome prior = ''PASS'' \<and> progress_outcome t = ''FAIL'' then [(prior, t)] else []) cs))"
    for old cs :: cases
    by (induction cs) (auto split: option.split)
  then show ?thesis by (simp add: rollback_matches_def rollback_pairs_def split: option.split)
qed

lemma pairs_cells:
  assumes "cells_ok target flow ts m"
  shows "(a, b) \<in> set (rollback_pairs q m) \<longleftrightarrow>
    (\<exists>k. cell m (rq_from_revision q) k = Some a \<and> cell m (rq_to_revision q) k = Some b
       \<and> progress_outcome a = ''PASS'' \<and> progress_outcome b = ''FAIL'')"
proof (cases "map_of m (revision_key (rq_to_revision q))")
  case None
  then show ?thesis by (simp add: rollback_pairs_def cell_def split: option.split)
next
  case (Some current)
  then have "omap_wf current" using assms by (auto simp: cells_ok_def dest: map_of_SomeD)
  then have "(k, t) \<in> set current \<longleftrightarrow> map_of current k = Some t" for k t
    using omap_wf_distinct by (metis map_of_eq_Some_iff)
  moreover have "(a, b) \<in> set (concat (map (\<lambda>(k, t). case map_of old k of None \<Rightarrow> [] | Some prior \<Rightarrow>
      if progress_outcome prior = ''PASS'' \<and> progress_outcome t = ''FAIL'' then [(prior, t)] else []) xs))
    \<longleftrightarrow> (\<exists>k. (k, b) \<in> set xs \<and> map_of old k = Some a \<and> progress_outcome a = ''PASS'' \<and> progress_outcome b = ''FAIL'')"
    for old xs :: cases by (induction xs) (auto split: option.split)
  ultimately show ?thesis
    using Some by (cases "map_of m (revision_key (rq_from_revision q))") (auto simp: rollback_pairs_def cell_def simp del: set_concat)
qed

lemma pairs_distinct:
  assumes "cells_ok target flow ts m" and "distinct (map t_id ts)"
  shows "distinct (map (\<lambda>p. t_id (snd p)) (rollback_pairs q m))"
proof (cases "map_of m (revision_key (rq_from_revision q)) = None \<or> map_of m (revision_key (rq_to_revision q)) = None")
  case False
  then obtain old current where cs: "map_of m (revision_key (rq_from_revision q)) = Some old"
    "map_of m (revision_key (rq_to_revision q)) = Some current" by auto
  define hit where "hit = (\<lambda>(k, t). \<exists>prior. map_of old k = Some prior
     \<and> progress_outcome prior = ''PASS'' \<and> progress_outcome t = ''FAIL'')"
  have "map snd (rollback_pairs q m) = map snd (filter hit current)"
  proof -
    have "map snd (concat (map (\<lambda>(k, t). case map_of old k of None \<Rightarrow> [] | Some prior \<Rightarrow>
        if progress_outcome prior = ''PASS'' \<and> progress_outcome t = ''FAIL'' then [(prior, t)] else []) xs))
      = map snd (filter hit xs)" for xs
      by (induction xs) (auto simp: hit_def split: option.split)
    then show ?thesis using cs by (simp add: rollback_pairs_def)
  qed
  then have "map t_id (map snd (rollback_pairs q m)) = map t_id (map snd (filter hit current))" by (simp only:)
  then have ids: "map (\<lambda>p. t_id (snd p)) (rollback_pairs q m) = map (\<lambda>p. t_id (snd p)) (filter hit current)"
    by (simp add: comp_def)
  have wf: "omap_wf current" using cs(2) assms(1) by (auto simp: cells_ok_def dest: map_of_SomeD)
  have entry: "t \<in> set ts \<and> caseKey t = k" if "(k, t) \<in> set current" for k t
  proof -
    have "cell m (rq_to_revision q) k = Some t"
      using that cs(2) omap_wf_distinct [OF wf] by (simp add: cell_def)
    with assms(1) have "latest_attempt target flow ts (rq_to_revision q) k t"
      unfolding cells_ok_def by (metis (no_types, lifting) option.simps(5))
    then show ?thesis by (simp add: latest_attempt_def attempts_def)
  qed
  have "inj_on (\<lambda>p. t_id (snd p)) (set current)"
  proof (rule inj_onI)
    fix x y assume x: "x \<in> set current" and y: "y \<in> set current" and eq: "t_id (snd x) = t_id (snd y)"
    from entry [of "fst x" "snd x"] entry [of "fst y" "snd y"] x y
    have "snd x \<in> set ts" "snd y \<in> set ts" "caseKey (snd x) = fst x" "caseKey (snd y) = fst y" by simp_all
    with eq assms(2) show "x = y" by (metis distinct_map inj_onD prod_eqI)
  qed
  moreover have "distinct current" using omap_wf_distinct [OF wf] by (simp add: distinct_map)
  ultimately have "distinct (map (\<lambda>p. t_id (snd p)) current)" by (simp add: distinct_map)
  then show ?thesis unfolding ids by (rule distinct_map_filter)
qed (auto simp: rollback_pairs_def split: option.split)

lemma sort_key_strict:
  assumes "distinct (map f xs)"
  shows "sorted_wrt (\<lambda>x y. f x < f y) (sort_key f xs)"
proof -
  have "distinct (map f (sort_key f xs))" using assms by (simp add: distinct_map)
  then have "sorted_wrt (<) (map f (sort_key f xs))" by (simp add: strict_sorted_iff)
  then show ?thesis by (simp add: sorted_wrt_map)
qed

lemma insort_map: "insort_key f (g x) (map g xs) = map g (insort_key (\<lambda>y. f (g y)) x xs)"
  by (induction xs) auto

lemma sort_map: "sort_key f (map g xs) = map g (sort_key (\<lambda>y. f (g y)) xs)"
  by (induction xs) (auto simp: insort_map)

text \<open>
  C33. The rollback report is exact: whatever the order in which the tasks are visited, the
  answer counts and lists exactly the cases whose latest attempt passed at the first revision and
  whose latest attempt failed at the second, each once, by ascending id of the failing task; a
  page holds the first \<open>limit\<close> of those after the cursor and says whether more follow.
\<close>

theorem rollbacks_exact:
  assumes "reachable s" and "visitTasks e [] s = Inr (ts, g)"
  shows "\<exists>pairs j. queryRollbacks e q s = Inr j \<and> set pairs = regressed_cases q ts
     \<and> sorted_wrt (\<lambda>x y. t_id (snd x) < t_id (snd y)) pairs \<and> jget j ''total'' = juint (length pairs)
     \<and> jget j ''items'' = JArray (take (rq_limit q)
          (map (\<lambda>(a, b). snd (rollback_item q a b)) (filter (\<lambda>(a, b). rq_after_task_id q < t_id b) pairs)))
     \<and> jget j ''has_more'' = JBool (rq_limit q < length (filter (\<lambda>(a, b). rq_after_task_id q < t_id b) pairs))"
proof -
  let ?vs = "filter (rollback_visited q) ts"
  define m where "m = collect ?vs (rq_target q) (rq_flow q)"
  define pairs where "pairs = sort_key (\<lambda>p. t_id (snd p)) (rollback_pairs q m)"
  have ids: "distinct (map t_id ts)" by (rule visited_distinct [OF reachable_inv [OF assms(1)] assms(2)])
  then have vids: "distinct (map t_id ?vs)" by (rule distinct_map_filter)
  have ok: "cells_ok (rq_target q) (rq_flow q) ?vs m" unfolding m_def by (rule cells_collected)
  have latest: "cell m r k = Some t \<longleftrightarrow> latest_attempt (rq_target q) (rq_flow q) ts r k t"
    if "r = rq_from_revision q \<or> r = rq_to_revision q" for r k t
  proof -
    have "latest_attempt (rq_target q) (rq_flow q) ?vs r k u \<longleftrightarrow> latest_attempt (rq_target q) (rq_flow q) ts r k u" for u
      by (simp add: latest_attempt_def attempts_filter [OF that])
    moreover have "case cell m r k of None \<Rightarrow> attempts (rq_target q) (rq_flow q) ?vs r k = {}
        | Some p \<Rightarrow> latest_attempt (rq_target q) (rq_flow q) ?vs r k p" using ok by (simp add: cells_ok_def)
    ultimately show ?thesis
      using latest_unique [OF vids] by (auto simp: latest_attempt_def [of _ _ ?vs] split: option.splits) metis
  qed
  have "set pairs = regressed_cases q ts"
    using pairs_cells [OF ok] latest by (auto simp: pairs_def regressed_cases_def)
  moreover have "sorted_wrt (\<lambda>x y. t_id (snd x) < t_id (snd y)) pairs"
    unfolding pairs_def by (rule sort_key_strict [OF pairs_distinct [OF ok vids]])
  moreover have "sort_key fst (rollback_matches q m) = map (\<lambda>(a, b). rollback_item q a b) pairs"
    by (simp add: matches_pairs sort_map pairs_def rollback_item_def case_prod_beta)
  moreover have "length (rollback_matches q m) = length pairs" by (simp add: matches_pairs pairs_def)
  ultimately show ?thesis
    using assms(2)
    by (intro exI [of _ pairs]) (simp add: queryRollbacks_def m_def [symmetric] Let_def page_take filter_map comp_def
        case_prod_unfold rollback_item_def not_le jget_def map_of_members_jobject)
qed

definition demo_rollbacks :: RollbackQuery where
  "demo_rollbacks = \<lparr>rq_target = ''t'', rq_flow = [], rq_from_revision = ''1'', rq_to_revision = ''2'', rq_after_task_id = 0,
     rq_limit = 50\<rparr>"

theorem rollbacks_exact_witness:
  "\<exists>pairs j. queryRollbacks demo_env demo_rollbacks demo_queued = Inr j
     \<and> set pairs = regressed_cases demo_rollbacks (map snd (sc_tasks (sy_sched demo_queued)))
     \<and> jget j ''total'' = juint (length pairs)"
proof -
  have "sy_store demo_queued = None" by code_simp
  then have "visitTasks demo_env [] demo_queued
      = Inr (map snd (sc_tasks (sy_sched demo_queued)), sc_generation (sy_sched demo_queued))"
    by (simp add: visitTasks_def)
  from rollbacks_exact [OF reachable_demo_queued this, of demo_rollbacks] show ?thesis by blast
qed

end
