(* ===== verification/Framing.thy ===== *)
theory Framing
  imports Prelude
begin

text \<open>
  \<^verbatim>\<open>common/src/Buffer.cpp\<close> and \<^verbatim>\<open>common/src/protocol/Message_codec.cpp\<close>: the byte buffer of a
  connection (a vector with a read and a write index) and the length-prefixed frames on it.
  The buffer refines a plain byte queue (the locale \<open>byte_queue\<close>, interpreted on the buffer);
  the facts about frames are proved on the queue and carried over.

  Sizes are natural numbers: a \<^verbatim>\<open>size_t\<close> cannot wrap on sizes of objects in memory. The length
  field of a frame is a 32-bit word.
\<close>

section \<open>Buffer\<close>

record Buffer =
  bf_buffer :: string
  bf_readerIndex :: nat
  bf_writerIndex :: nat

definition new_buffer :: "nat \<Rightarrow> Buffer" where
  "new_buffer initialSize =
     \<lparr>bf_buffer = replicate initialSize (char_of (0 :: nat)), bf_readerIndex = 0, bf_writerIndex = 0\<rparr>"

definition readableBytes :: "Buffer \<Rightarrow> nat" where
  "readableBytes b = bf_writerIndex b - bf_readerIndex b"

definition writableBytes :: "Buffer \<Rightarrow> nat" where
  "writableBytes b = length (bf_buffer b) - bf_writerIndex b"

text \<open>\<^verbatim>\<open>peek()\<close>: what the pointer points to, up to the end of the vector.\<close>

definition peek :: "Buffer \<Rightarrow> string" where
  "peek b = drop (bf_readerIndex b) (bf_buffer b)"

definition retrieveAll :: "Buffer \<Rightarrow> Buffer" where
  "retrieveAll b = b\<lparr>bf_readerIndex := 0, bf_writerIndex := 0\<rparr>"

definition retrieve :: "nat \<Rightarrow> Buffer \<Rightarrow> Buffer" where
  "retrieve len b =
     (if len < readableBytes b then b\<lparr>bf_readerIndex := bf_readerIndex b + len\<rparr> else retrieveAll b)"

definition retrieveAsString :: "nat \<Rightarrow> Buffer \<Rightarrow> string \<times> Buffer" where
  "retrieveAsString len b =
     (let n = min len (readableBytes b) in (take n (peek b), retrieve n b))"

definition retrieveAllAsString :: "Buffer \<Rightarrow> string \<times> Buffer" where
  "retrieveAllAsString b = retrieveAsString (readableBytes b) b"

text \<open>\<^verbatim>\<open>memcpy\<close>/\<^verbatim>\<open>memmove\<close> of bytes into a vector at an index.\<close>

definition overwrite :: "nat \<Rightarrow> string \<Rightarrow> string \<Rightarrow> string" where
  "overwrite i bytes v = take i v @ bytes @ drop (i + length bytes) v"

text \<open>\<^verbatim>\<open>resize\<close> to a larger size appends zero bytes.\<close>

definition resize :: "nat \<Rightarrow> string \<Rightarrow> string" where
  "resize n v = take n v @ replicate (n - length v) (char_of (0 :: nat))"

definition makeSpace :: "nat \<Rightarrow> Buffer \<Rightarrow> Buffer" where
  "makeSpace len b =
     (if len \<le> writableBytes b + bf_readerIndex b
      then (let readable = readableBytes b in
            b\<lparr>bf_buffer := overwrite 0 (take readable (peek b)) (bf_buffer b),
              bf_readerIndex := 0, bf_writerIndex := readable\<rparr>)
      else b\<lparr>bf_buffer := resize (bf_writerIndex b + len) (bf_buffer b)\<rparr>)"

definition ensureWritableBytes :: "nat \<Rightarrow> Buffer \<Rightarrow> Buffer" where
  "ensureWritableBytes len b = (if writableBytes b < len then makeSpace len b else b)"

definition buffer_append :: "string \<Rightarrow> Buffer \<Rightarrow> Buffer" where
  "buffer_append data b =
     (let b1 = ensureWritableBytes (length data) b in
      b1\<lparr>bf_buffer := overwrite (bf_writerIndex b1) data (bf_buffer b1),
         bf_writerIndex := bf_writerIndex b1 + length data\<rparr>)"

section \<open>Frames\<close>

definition kHeaderLength :: nat where
  "kHeaderLength = 4"

definition kMaxBodyLenght :: nat where
  "kMaxBodyLenght = 1024 * 1024"

text \<open>\<^verbatim>\<open>htonl\<close> and \<^verbatim>\<open>ntohl\<close> with the copies to and from the packet: the four bytes, highest first.\<close>

definition htonl :: "u32 \<Rightarrow> string" where
  "htonl n = map (\<lambda>k. char_of (unat n div 256 ^ k)) [3, 2, 1, 0]"

definition ntohl :: "string \<Rightarrow> u32" where
  "ntohl bytes = of_nat (foldl (\<lambda>a c. a * 256 + of_char c) 0 bytes)"

definition MessageCodec_encode :: "string \<Rightarrow> exn + string" where
  "MessageCodec_encode msg =
     (if kMaxBodyLenght < length msg then Inl (Length_error ''protocol frame too large'')
      else Inr (htonl (of_nat (length msg)) @ msg))"

datatype DecodeResult = Ok | NeedMoreData | Invalid

text \<open>\<open>out_msg\<close> is the argument passed by reference, written only on \<open>Ok\<close>.\<close>

definition tryDecode :: "Buffer \<Rightarrow> string \<Rightarrow> DecodeResult \<times> string \<times> Buffer" where
  "tryDecode buf out_msg =
     (if readableBytes buf < 4 then (NeedMoreData, out_msg, buf)
      else
        (let body_len = ntohl (take kHeaderLength (peek buf)) in
         if kMaxBodyLenght < unat body_len then (Invalid, out_msg, buf)
         else if readableBytes buf < unat (4 + body_len) then (NeedMoreData, out_msg, buf)
         else
           (let buf1 = retrieve kHeaderLength buf in
            if body_len = 0 then (Ok, [], buf1)
            else (case retrieveAsString (unat body_len) buf1 of (msg, buf2) \<Rightarrow> (Ok, msg, buf2)))))"

section \<open>The buffer as a byte queue\<close>

definition buffer_ok :: "Buffer \<Rightarrow> bool" where
  "buffer_ok b \<longleftrightarrow> bf_readerIndex b \<le> bf_writerIndex b \<and> bf_writerIndex b \<le> length (bf_buffer b)"

definition contents :: "Buffer \<Rightarrow> string" where
  "contents b = take (readableBytes b) (peek b)"

text \<open>What a byte queue promises: appending adds at the end, retrieving removes at the front.\<close>

locale byte_queue =
  fixes good :: "'b \<Rightarrow> bool"
    and bytes :: "'b \<Rightarrow> string"
    and put :: "string \<Rightarrow> 'b \<Rightarrow> 'b"
    and get :: "nat \<Rightarrow> 'b \<Rightarrow> string \<times> 'b"
    and skip :: "nat \<Rightarrow> 'b \<Rightarrow> 'b"
  assumes put_bytes: "good b \<Longrightarrow> bytes (put s b) = bytes b @ s"
    and put_good: "good b \<Longrightarrow> good (put s b)"
    and get_bytes: "good b \<Longrightarrow> fst (get n b) = take n (bytes b) \<and> bytes (snd (get n b)) = drop n (bytes b)"
    and get_good: "good b \<Longrightarrow> good (snd (get n b))"
    and skip_bytes: "good b \<Longrightarrow> bytes (skip n b) = drop n (bytes b)"
    and skip_good: "good b \<Longrightarrow> good (skip n b)"
begin

lemma put_all:
  "good b \<Longrightarrow> bytes (fold put chunks b) = bytes b @ concat chunks \<and> good (fold put chunks b)"
  by (induction chunks arbitrary: b) (auto simp: put_bytes put_good)

text \<open>Reading in pieces gives the same bytes as reading at once.\<close>

lemma get_twice:
  assumes "good b"
  shows "fst (get m b) @ fst (get n (snd (get m b))) = fst (get (m + n) b)"
  using assms get_bytes [OF assms, of m] get_bytes [OF get_good [OF assms, of m], of n]
    get_bytes [OF assms, of "m + n"]
  by (simp add: take_add)

end

lemma length_overwrite [simp]:
  "i + length s \<le> length v \<Longrightarrow> length (overwrite i s v) = length v"
  by (simp add: overwrite_def)

lemma contents_length: "buffer_ok b \<Longrightarrow> length (contents b) = readableBytes b"
  by (auto simp: contents_def peek_def buffer_ok_def readableBytes_def)

lemma peek_contents: "buffer_ok b \<Longrightarrow> n \<le> readableBytes b \<Longrightarrow> take n (peek b) = take n (contents b)"
  by (simp add: contents_def min_def)

lemma retrieve_contents:
  assumes "buffer_ok b"
  shows "contents (retrieve n b) = drop n (contents b)" "buffer_ok (retrieve n b)"
proof -
  have "drop n (contents b) = []" if "readableBytes b \<le> n" using that contents_length [OF assms] by simp
  then show "contents (retrieve n b) = drop n (contents b)"
    by (auto simp: retrieve_def contents_def peek_def retrieveAll_def readableBytes_def drop_take add.commute
        not_less diff_diff_eq)
  show "buffer_ok (retrieve n b)"
    using assms by (auto simp: retrieve_def buffer_ok_def retrieveAll_def readableBytes_def)
qed

lemma retrieveAsString_contents:
  assumes "buffer_ok b"
  shows "fst (retrieveAsString n b) = take n (contents b)" "contents (snd (retrieveAsString n b)) = drop n (contents b)"
    "buffer_ok (snd (retrieveAsString n b))"
  using assms contents_length [OF assms]
  by (auto simp: retrieveAsString_def Let_def retrieve_contents peek_contents min_def)

lemma ensureWritable:
  assumes "buffer_ok b"
  shows "buffer_ok (ensureWritableBytes n b)" "contents (ensureWritableBytes n b) = contents b"
    "n \<le> writableBytes (ensureWritableBytes n b)"
proof -
  have "buffer_ok (makeSpace n b) \<and> contents (makeSpace n b) = contents b \<and> n \<le> writableBytes (makeSpace n b)"
    if "writableBytes b < n"
  proof (cases "n \<le> writableBytes b + bf_readerIndex b")
    case True
    have len: "length (contents b) \<le> length (bf_buffer b)"
      using assms by (simp add: contents_length) (auto simp: readableBytes_def buffer_ok_def)
    with assms True show ?thesis
      by (auto simp: makeSpace_def Let_def buffer_ok_def writableBytes_def contents_def [symmetric]
          readableBytes_def overwrite_def)
         (auto simp: contents_def peek_def readableBytes_def)
  next
    case False
    with assms show ?thesis
      by (auto simp: makeSpace_def buffer_ok_def writableBytes_def contents_def peek_def readableBytes_def resize_def)
  qed
  then show "buffer_ok (ensureWritableBytes n b)" "contents (ensureWritableBytes n b) = contents b"
    "n \<le> writableBytes (ensureWritableBytes n b)"
    using assms by (auto simp: ensureWritableBytes_def)
qed

lemma append_contents:
  assumes "buffer_ok b"
  shows "contents (buffer_append s b) = contents b @ s" "buffer_ok (buffer_append s b)"
proof -
  define b1 where "b1 = ensureWritableBytes (length s) b"
  note E = ensureWritable [OF assms, of "length s", folded b1_def]
  have room: "bf_readerIndex b1 \<le> bf_writerIndex b1" "bf_writerIndex b1 + length s \<le> length (bf_buffer b1)"
    using E(1,3) by (auto simp: buffer_ok_def writableBytes_def)
  have "contents (buffer_append s b) = contents b1 @ s"
    using room by (simp add: buffer_append_def Let_def b1_def [symmetric] contents_def peek_def readableBytes_def
        overwrite_def drop_take)
  then show "contents (buffer_append s b) = contents b @ s" using E(2) by simp
  show "buffer_ok (buffer_append s b)"
    using room by (auto simp: buffer_append_def Let_def b1_def [symmetric] buffer_ok_def)
qed

interpretation buffer: byte_queue buffer_ok contents buffer_append retrieveAsString retrieve
  by unfold_locales (simp_all add: append_contents retrieveAsString_contents retrieve_contents)

section \<open>Frames on a byte queue\<close>

lemma length_htonl [simp]: "length (htonl n) = 4"
  by (simp add: htonl_def)

lemma be_digits:
  fixes n :: nat
  assumes "n < 2 ^ 32"
  shows "((n div 256 ^ 3 mod 256 * 256 + n div 256 ^ 2 mod 256) * 256 + n div 256 mod 256) * 256 + n mod 256 = n"
proof -
  define a b c where "a = n div 256" and "b = a div 256" and "c = b div 256"
  have eqs: "n div 256 ^ 3 = c" "n div 256 ^ 2 = b" "n div 256 = a"
    by (simp_all add: a_def b_def c_def div_mult2_eq [symmetric])
  have "c < 256" using assms by (simp add: eqs(1) [symmetric] div_less_iff_less_mult)
  moreover have "c * 256 + b mod 256 = b" "b * 256 + a mod 256 = a" "a * 256 + n mod 256 = n"
    by (simp_all add: a_def b_def c_def)
  ultimately show ?thesis unfolding eqs by simp
qed

lemma ntohl_htonl [simp]: "ntohl (htonl n) = n"
proof -
  have "unat n < 2 ^ 32" using unsigned_less [of n, where ?'a = nat] by simp
  note d = be_digits [OF this]
  have "foldl (\<lambda>a c. a * 256 + of_char c) 0 (htonl n) = unat n"
    unfolding htonl_def by (simp only: list.map foldl.simps of_char_of power_0 div_by_1 power_one_right
        mult_zero_left add_0 d)
  then show ?thesis by (simp add: ntohl_def)
qed

definition frame :: "string \<Rightarrow> string" where
  "frame msg = htonl (of_nat (length msg)) @ msg"

lemma MessageCodec_encode_frame:
  "MessageCodec_encode msg = (if length msg \<le> kMaxBodyLenght then Inr (frame msg)
     else Inl (Length_error ''protocol frame too large''))"
  by (auto simp: MessageCodec_encode_def frame_def)

text \<open>The reference decoder on the bytes received: the first frame, if it is there.\<close>

definition parse_frame :: "string \<Rightarrow> DecodeResult \<times> string \<times> string" where
  "parse_frame bs =
     (if length bs < 4 then (NeedMoreData, [], bs)
      else let n = unat (ntohl (take 4 bs)) in
        if kMaxBodyLenght < n then (Invalid, [], bs)
        else if length bs < 4 + n then (NeedMoreData, [], bs)
        else (Ok, take n (drop 4 bs), drop (4 + n) bs))"

lemma frame_size_no_wrap: "unat (n :: u32) \<le> kMaxBodyLenght \<Longrightarrow> unat (4 + n) = 4 + unat n"
  by (simp add: kMaxBodyLenght_def unat_word_ariths)

lemma tryDecode_refines:
  assumes "buffer_ok b" and "tryDecode b out = (r, m, b')"
  shows "buffer_ok b'" "parse_frame (contents b) = (r, if r = Ok then m else [], contents b')"
    "r \<noteq> Ok \<Longrightarrow> m = out \<and> b' = b"
proof -
  note L = contents_length [OF assms(1)]
  define n where "n = ntohl (take 4 (contents b))"
  have pk: "take kHeaderLength (peek b) = take 4 (contents b)" if "4 \<le> readableBytes b"
    using peek_contents [OF assms(1) that] by (simp add: kHeaderLength_def)
  have "buffer_ok b' \<and> parse_frame (contents b) = (r, if r = Ok then m else [], contents b') \<and> (r \<noteq> Ok \<longrightarrow> m = out \<and> b' = b)"
  proof (cases "readableBytes b < 4 \<or> kMaxBodyLenght < unat n \<or> readableBytes b < unat (4 + n)")
    case True
    then show ?thesis
      using assms pk L frame_size_no_wrap [of n]
      by (auto simp: tryDecode_def parse_frame_def Let_def n_def [symmetric] split: if_splits)
  next
    case False
    then have sz: "unat (4 + n) = 4 + unat n" by (simp add: frame_size_no_wrap)
    define b1 where "b1 = retrieve kHeaderLength b"
    have b1: "buffer_ok b1" "contents b1 = drop 4 (contents b)"
      using retrieve_contents [OF assms(1), of 4] by (simp_all add: b1_def kHeaderLength_def)
    have run: "tryDecode b out = (if n = 0 then (Ok, [], b1)
        else (Ok, fst (retrieveAsString (unat n) b1), snd (retrieveAsString (unat n) b1)))"
      using False pk by (simp add: tryDecode_def Let_def n_def [symmetric] b1_def [symmetric] split: prod.split)
    show ?thesis
      using assms(2) False sz L b1 retrieveAsString_contents [OF b1(1), of "unat n"]
      unfolding run parse_frame_def Let_def n_def [symmetric]
      by (auto simp: add.commute split: if_splits)
  qed
  then show "buffer_ok b'" "parse_frame (contents b) = (r, if r = Ok then m else [], contents b')"
    "r \<noteq> Ok \<Longrightarrow> m = out \<and> b' = b" by blast+
qed

lemma unat_frame_length: "n \<le> kMaxBodyLenght \<Longrightarrow> unat (of_nat n :: u32) = n"
  by (simp add: kMaxBodyLenght_def unat_of_nat)

lemma parse_frame_frame:
  "length msg \<le> kMaxBodyLenght \<Longrightarrow> parse_frame (frame msg @ rest) = (Ok, msg, rest)"
  by (simp add: parse_frame_def frame_def unat_frame_length Let_def not_less)

text \<open>A proper prefix of a frame never decodes.\<close>

lemma parse_frame_prefix:
  assumes "length msg \<le> kMaxBodyLenght" and "n < length (frame msg)"
  shows "parse_frame (take n (frame msg)) = (NeedMoreData, [], take n (frame msg))"
proof (cases "n < 4")
  case False
  then have "take 4 (take n (frame msg)) = htonl (of_nat (length msg))" by (simp add: frame_def)
  with assms False show ?thesis
    by (simp add: parse_frame_def unat_frame_length Let_def frame_def)
qed (use assms in \<open>simp add: parse_frame_def\<close>)

text \<open>
  The buffer is a byte queue: whatever sequence of appends, compactions and growth produced
  it, its content is exactly what was appended and not yet retrieved, in order, and the indices
  stay inside the vector.
\<close>

theorem buffer_is_byte_queue:
  assumes "buffer_ok b"
  shows "contents (buffer_append s b) = contents b @ s \<and> buffer_ok (buffer_append s b)
    \<and> fst (retrieveAsString n b) = take n (contents b)
    \<and> contents (snd (retrieveAsString n b)) = drop n (contents b) \<and> buffer_ok (snd (retrieveAsString n b))
    \<and> contents (retrieve n b) = drop n (contents b) \<and> buffer_ok (retrieve n b)
    \<and> readableBytes b = length (contents b)"
  using buffer.put_bytes [OF assms] buffer.put_good [OF assms] buffer.get_bytes [OF assms, of n]
    buffer.get_good [OF assms] buffer.skip_bytes [OF assms] buffer.skip_good [OF assms] contents_length [OF assms]
  by simp

theorem buffer_is_byte_queue_witness:
  "contents (buffer_append ''cdef'' \<lparr>bf_buffer = ''xabz'', bf_readerIndex = 1, bf_writerIndex = 3\<rparr>) = ''abcdef''"
proof -
  have "buffer_ok \<lparr>bf_buffer = ''xabz'', bf_readerIndex = 1, bf_writerIndex = 3\<rparr>" by code_simp
  moreover have "contents \<lparr>bf_buffer = ''xabz'', bf_readerIndex = 1, bf_writerIndex = 3\<rparr> = ''ab''" by code_simp
  ultimately show ?thesis using buffer_is_byte_queue by simp
qed

text \<open>
  C37. \<open>tryDecode\<close> implements the reference decoder of frames, whatever the layout of the buffer:
  the same verdict, the same message and the same bytes left; without a complete frame it changes
  neither the buffer nor the output argument. The 32-bit sum of the length check cannot wrap.
\<close>

theorem tryDecode_is_reference:
  assumes "buffer_ok b" and "tryDecode b out = (r, m, b')"
  shows "buffer_ok b' \<and> parse_frame (contents b) = (r, if r = Ok then m else [], contents b')
    \<and> (r = Ok \<longrightarrow> length m \<le> kMaxBodyLenght) \<and> (r \<noteq> Ok \<longrightarrow> m = out \<and> b' = b)"
proof -
  have "length m \<le> kMaxBodyLenght" if "r = Ok"
    using tryDecode_refines(2) [OF assms] that by (auto simp: parse_frame_def Let_def split: if_splits)
  with tryDecode_refines [OF assms] show ?thesis by blast
qed

theorem tryDecode_is_reference_witness:
  "\<exists>b'. tryDecode (buffer_append (frame ''hi'' @ ''rest'') (new_buffer 3)) ''old'' = (Ok, ''hi'', b') \<and> contents b' = ''rest''"
proof -
  define b where "b = buffer_append (frame ''hi'' @ ''rest'') (new_buffer 3)"
  obtain r m b' where t: "tryDecode b ''old'' = (r, m, b')" by (metis prod_cases3)
  have new: "buffer_ok (new_buffer 3)" "contents (new_buffer 3) = []" by code_simp+
  then have b: "buffer_ok b" "contents b = frame ''hi'' @ ''rest''"
    using append_contents [OF new(1)] by (simp_all add: b_def)
  have "parse_frame (contents b) = (Ok, ''hi'', ''rest'')"
    unfolding b(2) by (rule parse_frame_frame) (simp add: kMaxBodyLenght_def)
  with tryDecode_is_reference [OF b(1) t] t show ?thesis unfolding b_def by (auto split: if_splits)
qed

end
