(* ===== verification/Connection.thy ===== *)
theory Connection
  imports Framing
begin

text \<open>
  \<^verbatim>\<open>server/src/Connection.cpp\<close> and the message path of \<^verbatim>\<open>server/src/EchoServer.cpp\<close>: bounded
  reading of frames from a socket, buffered writing, the outgoing packets queued on the event
  loop, and the inbound queue of protocol messages drained by one business thread at a time.

  The kernel is a script of results: what each \<^verbatim>\<open>recv\<close> and \<^verbatim>\<open>send\<close> of a run returns, an empty
  script standing for \<^verbatim>\<open>EAGAIN\<close>. The logger is not modelled. The counters of a read or write
  are natural numbers; their fields have 64 bits and a turn moves at most 64 KiB.
\<close>

section \<open>State\<close>

datatype ConnState = Connected | Disconnecting | Disconnected

record Connection =
  cn_state :: ConnState
  cn_pending_packets :: int
  cn_inputBuffer :: Buffer
  cn_outputBuffer :: Buffer
  cn_pending_tasks :: int
  cn_protocol_messages :: "string list"
  cn_protocol_bytes :: nat
  cn_protocol_active :: bool
  cn_last_active_ms :: u64

definition new_connection :: "u64 \<Rightarrow> Connection" where
  "new_connection now =
     \<lparr>cn_state = Connected, cn_pending_packets = 0, cn_inputBuffer = new_buffer 1024,
      cn_outputBuffer = new_buffer 1024, cn_pending_tasks = 0, cn_protocol_messages = [],
      cn_protocol_bytes = 0, cn_protocol_active = False, cn_last_active_ms = now\<rparr>"

definition kReadBudgetBytes :: nat where
  "kReadBudgetBytes = 64 * 1024"

definition kReadBudgetMessages :: nat where
  "kReadBudgetMessages = 64"

record ReadResult =
  rr_ok :: bool
  rr_peer_close :: bool
  rr_decode_error :: bool
  rr_bytes_received :: nat
  rr_messages_decoded :: nat
  rr_heartbeat_messages :: nat

definition new_read_result :: ReadResult where
  "new_read_result = \<lparr>rr_ok = True, rr_peer_close = False, rr_decode_error = False,
     rr_bytes_received = 0, rr_messages_decoded = 0, rr_heartbeat_messages = 0\<rparr>"

record WriteResult =
  wr_ok :: bool
  wr_close :: bool
  wr_bytes_sent :: nat

definition setState :: "ConnState \<Rightarrow> Connection \<Rightarrow> Connection" where
  "setState st c = c\<lparr>cn_state := st\<rparr>"

definition conn_shutdown :: "Connection \<Rightarrow> Connection" where
  "conn_shutdown c = (if cn_state c = Connected then c\<lparr>cn_state := Disconnecting\<rparr> else c)"

definition isConnected :: "Connection \<Rightarrow> bool" where
  "isConnected c \<longleftrightarrow> cn_state c = Connected"

definition isDisconnecting :: "Connection \<Rightarrow> bool" where
  "isDisconnecting c \<longleftrightarrow> cn_state c = Disconnecting"

definition isDisconnected :: "Connection \<Rightarrow> bool" where
  "isDisconnected c \<longleftrightarrow> cn_state c = Disconnected"

definition incPendingTasks :: "Connection \<Rightarrow> Connection" where
  "incPendingTasks c = c\<lparr>cn_pending_tasks := cn_pending_tasks c + 1\<rparr>"

definition decPendingTasks :: "Connection \<Rightarrow> Connection" where
  "decPendingTasks c = c\<lparr>cn_pending_tasks := cn_pending_tasks c - 1\<rparr>"

definition hasPendingTasks :: "Connection \<Rightarrow> bool" where
  "hasPendingTasks c \<longleftrightarrow> 0 < cn_pending_tasks c"

definition wantWrite :: "Connection \<Rightarrow> bool" where
  "wantWrite c \<longleftrightarrow> 0 < readableBytes (cn_outputBuffer c)"

definition shouldCloseAfterWrite :: "Connection \<Rightarrow> bool" where
  "shouldCloseAfterWrite c \<longleftrightarrow> cn_state c = Disconnecting \<and> readableBytes (cn_outputBuffer c) = 0"

definition canBeClosed :: "Connection \<Rightarrow> bool" where
  "canBeClosed c \<longleftrightarrow>
     cn_state c = Disconnecting \<and> readableBytes (cn_outputBuffer c) = 0 \<and> \<not> hasPendingTasks c
     \<and> cn_pending_packets c = 0"

definition refreshActivity :: "u64 \<Rightarrow> Connection \<Rightarrow> Connection" where
  "refreshActivity now c = c\<lparr>cn_last_active_ms := now\<rparr>"

section \<open>Reading\<close>

datatype recv_event = RecvData string | RecvEof | RecvIntr | RecvAgain | RecvError

text \<open>One call of \<^verbatim>\<open>recv\<close> for at most \<open>amount\<close> bytes; what is not taken stays in the kernel.\<close>

fun recv :: "nat \<Rightarrow> recv_event list \<Rightarrow> recv_event \<times> recv_event list" where
  "recv amount [] = (RecvAgain, [])"
| "recv amount (RecvData bs # evs) =
     (RecvData (take amount bs), if length bs \<le> amount then evs else RecvData (drop amount bs) # evs)"
| "recv amount (ev # evs) = (ev, evs)"

text \<open>Subtraction of \<^verbatim>\<open>size_t\<close>.\<close>

definition sub_size :: "nat \<Rightarrow> nat \<Rightarrow> nat" where
  "sub_size a b = (if b \<le> a then a - b else 2 ^ 64 - (b - a))"

definition recv_amount :: "nat \<Rightarrow> nat \<Rightarrow> nat \<Rightarrow> nat" where
  "recv_amount frame_size readable received =
     min 4096 (min (sub_size frame_size readable) (sub_size kReadBudgetBytes received))"

definition script_size :: "recv_event list \<Rightarrow> nat" where
  "script_size evs = (\<Sum>ev \<leftarrow> evs. case ev of RecvData bs \<Rightarrow> Suc (length bs) | _ \<Rightarrow> 1)"

lemma script_size_simps [simp]:
  "script_size [] = 0"
  "script_size (ev # evs) = (case ev of RecvData bs \<Rightarrow> Suc (length bs) | _ \<Rightarrow> 1) + script_size evs"
  by (simp_all add: script_size_def)

lemma recv_shrinks:
  assumes "recv n evs = (ev, evs')" and "ev \<noteq> RecvAgain" and "ev \<noteq> RecvData []"
  shows "script_size evs' < script_size evs"
  using assms by (cases "(n, evs)" rule: recv.cases) (auto split: if_splits)

text \<open>
  One round of the loop of \<^verbatim>\<open>handleRead\<close> on the kernel script, the connection and the result so
  far: \<open>Inl\<close> leaves the loop, \<open>Inr\<close> goes round again. \<open>on_message\<close> is the message callback.
\<close>

type_synonym read_state = "ReadResult \<times> recv_event list \<times> Connection"

definition read_frame :: "(string \<Rightarrow> Connection \<Rightarrow> Connection) option \<Rightarrow> read_state \<Rightarrow> read_state + read_state" where
  "read_frame on_message = (\<lambda>(r, evs, c).
     (case tryDecode (cn_inputBuffer c) [] of
        (decoded, message, input) \<Rightarrow>
          (let c1 = c\<lparr>cn_inputBuffer := input\<rparr> in
           if decoded \<noteq> Ok
           then Inl (r\<lparr>rr_ok := False, rr_decode_error := True\<rparr>, evs, setState Disconnected c1)
           else
             (let r1 = r\<lparr>rr_messages_decoded := rr_messages_decoded r + 1,
                         rr_heartbeat_messages := rr_heartbeat_messages r
                           + (if message = ''__ping__'' then 1 else 0)\<rparr>;
                  c2 = (case on_message of None \<Rightarrow> c1 | Some f \<Rightarrow> f message (incPendingTasks c1)) in
              if isDisconnected c2 then Inl (r1, evs, c2) else Inr (r1, evs, c2)))))"

definition read_more :: "u64 \<Rightarrow> nat \<Rightarrow> read_state \<Rightarrow> read_state + read_state" where
  "read_more now frame_size = (\<lambda>(r, evs, c).
     (case recv (recv_amount frame_size (readableBytes (cn_inputBuffer c)) (rr_bytes_received r)) evs of
        (RecvData bs, evs') \<Rightarrow>
          if bs = [] then Inl (r\<lparr>rr_peer_close := True\<rparr>, evs', conn_shutdown c)
          else Inr (r\<lparr>rr_bytes_received := rr_bytes_received r + length bs\<rparr>, evs',
                    (refreshActivity now c)\<lparr>cn_inputBuffer := buffer_append bs (cn_inputBuffer c)\<rparr>)
      | (RecvEof, evs') \<Rightarrow> Inl (r\<lparr>rr_peer_close := True\<rparr>, evs', conn_shutdown c)
      | (RecvIntr, evs') \<Rightarrow> Inr (r, evs', c)
      | (RecvAgain, evs') \<Rightarrow> Inl (r, evs', c)
      | (RecvError, evs') \<Rightarrow> Inl (r\<lparr>rr_ok := False\<rparr>, evs', setState Disconnected c)))"

definition read_round :: "(string \<Rightarrow> Connection \<Rightarrow> Connection) option \<Rightarrow> u64 \<Rightarrow> read_state \<Rightarrow> read_state + read_state" where
  "read_round on_message now = (\<lambda>(r, evs, c).
     if \<not> rr_messages_decoded r < kReadBudgetMessages then Inl (r, evs, c)
     else
       (let readable = readableBytes (cn_inputBuffer c);
            header = (kHeaderLength \<le> readable);
            body_size = unat (ntohl (take 4 (peek (cn_inputBuffer c))));
            frame_size = (if header then kHeaderLength + body_size else kHeaderLength) in
        if header \<and> kMaxBodyLenght < body_size
        then Inl (r\<lparr>rr_ok := False, rr_decode_error := True\<rparr>, evs, setState Disconnected c)
        else if header \<and> readable = frame_size then read_frame on_message (r, evs, c)
        else if kReadBudgetBytes \<le> rr_bytes_received r then Inl (r, evs, c)
        else read_more now frame_size (r, evs, c)))"

definition read_left :: "read_state \<Rightarrow> nat" where
  "read_left = (\<lambda>(r, evs, c). (kReadBudgetMessages - rr_messages_decoded r) + script_size evs)"

lemma read_frame_left:
  "rr_messages_decoded (fst x) < kReadBudgetMessages \<Longrightarrow> read_frame f x = Inr y \<Longrightarrow> read_left y < read_left x"
  by (cases x) (auto simp: read_frame_def read_left_def Let_def split: prod.splits if_splits)

lemma read_more_left: "read_more now n x = Inr y \<Longrightarrow> read_left y < read_left x"
  using recv_shrinks
  by (cases x) (fastforce simp: read_more_def read_left_def split: prod.splits recv_event.splits if_splits)

lemma read_round_left: "read_round f now x = Inr y \<Longrightarrow> read_left y < read_left x"
  using read_frame_left [of x f y] read_more_left [of now _ x y]
  by (cases x) (auto simp: read_round_def Let_def split: if_splits)

function read_loop ::
  "(string \<Rightarrow> Connection \<Rightarrow> Connection) option \<Rightarrow> u64 \<Rightarrow> read_state \<Rightarrow> read_state" where
  "read_loop on_message now x =
     (case read_round on_message now x of Inl y \<Rightarrow> y | Inr y \<Rightarrow> read_loop on_message now y)"
  by pat_completeness auto

termination
  by (relation "measure (\<lambda>(on_message, now, x). read_left x)") (auto dest: read_round_left)

declare read_loop.simps [simp del]

definition handleRead ::
  "(string \<Rightarrow> Connection \<Rightarrow> Connection) option \<Rightarrow> u64 \<Rightarrow> recv_event list \<Rightarrow> Connection \<Rightarrow>
   ReadResult \<times> recv_event list \<times> Connection" where
  "handleRead on_message now evs c = read_loop on_message now (new_read_result, evs, c)"

section \<open>Writing\<close>

datatype send_event = SendBytes nat | SendIntr | SendAgain | SendError

text \<open>
  The loop of \<^verbatim>\<open>handleWrite\<close>: \<open>SendBytes n\<close> means the kernel takes up to \<open>n\<close> bytes. The second
  component is what the kernel was given.
\<close>

fun write_loop :: "u64 \<Rightarrow> send_event list \<Rightarrow> Connection \<Rightarrow> nat \<Rightarrow> string \<Rightarrow>
    WriteResult \<times> string \<times> send_event list \<times> Connection" where
  "write_loop now evs c n sent =
     (if readableBytes (cn_outputBuffer c) = 0
      then (if canBeClosed c
            then (\<lparr>wr_ok = True, wr_close = True, wr_bytes_sent = n\<rparr>, sent, evs, setState Disconnected c)
            else (\<lparr>wr_ok = True, wr_close = False, wr_bytes_sent = n\<rparr>, sent, evs, c))
      else
        (case evs of
           [] \<Rightarrow> (\<lparr>wr_ok = True, wr_close = False, wr_bytes_sent = n\<rparr>, sent, [], c)
         | SendAgain # evs' \<Rightarrow> (\<lparr>wr_ok = True, wr_close = False, wr_bytes_sent = n\<rparr>, sent, evs', c)
         | SendIntr # evs' \<Rightarrow> write_loop now evs' c n sent
         | SendError # evs' \<Rightarrow>
             (\<lparr>wr_ok = False, wr_close = True, wr_bytes_sent = n\<rparr>, sent, evs', setState Disconnected c)
         | SendBytes k # evs' \<Rightarrow>
             (let m = min k (readableBytes (cn_outputBuffer c)) in
              if m = 0
              then (\<lparr>wr_ok = False, wr_close = True, wr_bytes_sent = n\<rparr>, sent, evs', setState Disconnected c)
              else write_loop now evs'
                     ((refreshActivity now c)\<lparr>cn_outputBuffer := retrieve m (cn_outputBuffer c)\<rparr>)
                     (n + m) (sent @ take m (peek (cn_outputBuffer c))))))"

declare write_loop.simps [simp del]

definition handleWrite :: "u64 \<Rightarrow> send_event list \<Rightarrow> Connection \<Rightarrow>
    WriteResult \<times> string \<times> send_event list \<times> Connection" where
  "handleWrite now evs c = write_loop now evs c 0 []"

text \<open>
  \<^verbatim>\<open>sendPacket\<close>: \<open>accepting\<close> is the answer of \<^verbatim>\<open>tryQueueInLoop\<close>, false once the loop has quit. On
  true the packet is queued on the owner loop, which later runs \<open>packet_in_loop\<close>.
\<close>

definition sendPacket :: "bool \<Rightarrow> string \<Rightarrow> Connection \<Rightarrow> bool \<times> Connection" where
  "sendPacket accepting packet c =
     (if isDisconnected c \<or> packet = [] then (False, c)
      else if accepting then (True, c\<lparr>cn_pending_packets := cn_pending_packets c + 1\<rparr>)
      else (False, c))"

definition packet_in_loop :: "string \<Rightarrow> Connection \<Rightarrow> Connection" where
  "packet_in_loop packet c =
     (let c1 = c\<lparr>cn_pending_packets := cn_pending_packets c - 1\<rparr> in
      if isDisconnected c1 then c1
      else c1\<lparr>cn_outputBuffer := buffer_append packet (cn_outputBuffer c1)\<rparr>)"

section \<open>Inbound protocol messages\<close>

definition max_protocol_bytes :: nat where
  "max_protocol_bytes = 4 * 1024 * 1024"

text \<open>1: start a drain; 0: join the running one; -1: over the limit.\<close>

definition enqueueProtocolMessage :: "string \<Rightarrow> Connection \<Rightarrow> int \<times> Connection" where
  "enqueueProtocolMessage message c =
     (if sub_size max_protocol_bytes (cn_protocol_bytes c) < length message
         \<or> 512 \<le> length (cn_protocol_messages c)
      then (- 1, c)
      else
        (let c1 = c\<lparr>cn_protocol_messages := cn_protocol_messages c @ [message],
                    cn_protocol_bytes := cn_protocol_bytes c + length message\<rparr> in
         if cn_protocol_active c1 then (0, c1) else (1, c1\<lparr>cn_protocol_active := True\<rparr>)))"

definition nextProtocolMessage :: "Connection \<Rightarrow> string option \<times> Connection" where
  "nextProtocolMessage c =
     (case cn_protocol_messages c of
        [] \<Rightarrow> (None, c\<lparr>cn_protocol_active := False\<rparr>)
      | message # rest \<Rightarrow>
          (Some message, c\<lparr>cn_protocol_messages := rest,
                           cn_protocol_bytes := sub_size (cn_protocol_bytes c) (length message)\<rparr>))"

definition abandonProtocolMessages :: "Connection \<Rightarrow> nat \<times> Connection" where
  "abandonProtocolMessages c =
     (length (cn_protocol_messages c),
      c\<lparr>cn_protocol_messages := [], cn_protocol_bytes := 0, cn_protocol_active := False\<rparr>)"

text \<open>
  \<^verbatim>\<open>EchoServer::onMessage\<close> with a protocol callback: \<open>accepting\<close> is the answer of the thread pool. The
  result says whether a drain job was started and whether the removal of the connection was
  queued on its loop.
\<close>

definition EchoServer_onMessage :: "bool \<Rightarrow> string \<Rightarrow> Connection \<Rightarrow> bool \<times> bool \<times> Connection" where
  "EchoServer_onMessage accepting msg c =
     (case enqueueProtocolMessage msg c of
        (queued, c1) \<Rightarrow>
          if queued < 0 then (False, True, setState Disconnected (decPendingTasks c1))
          else if queued = 0 then (False, False, c1)
          else if accepting then (True, False, c1)
          else (case abandonProtocolMessages c1 of
                  (dropped, c2) \<Rightarrow> (False, True, setState Disconnected ((decPendingTasks ^^ dropped) c2))))"

section \<open>Reading conserves the stream\<close>

fun kernel_data :: "recv_event list \<Rightarrow> string" where
  "kernel_data [] = []"
| "kernel_data (RecvData bs # evs) = bs @ kernel_data evs"
| "kernel_data (ev # evs) = kernel_data evs"

lemma recv_data:
  "recv n evs = (ev, evs') \<Longrightarrow> (case ev of RecvData bs \<Rightarrow> bs | _ \<Rightarrow> []) @ kernel_data evs' = kernel_data evs"
  by (cases "(n, evs)" rule: recv.cases) (auto split: if_splits)

lemma recv_amount_bound: "recv n evs = (RecvData bs, evs') \<Longrightarrow> length bs \<le> n"
  by (cases "(n, evs)" rule: recv.cases) auto

text \<open>The input buffer holds at most one frame.\<close>

definition body_length :: "string \<Rightarrow> nat" where
  "body_length bs = unat (ntohl (take 4 bs))"

definition input_ok :: "Connection \<Rightarrow> bool" where
  "input_ok c \<longleftrightarrow>
     (let bs = contents (cn_inputBuffer c) in
      buffer_ok (cn_inputBuffer c)
      \<and> (length bs \<le> 4 \<or> (body_length bs \<le> kMaxBodyLenght \<and> length bs \<le> 4 + body_length bs)))"

lemma input_ok_bound: "input_ok c \<Longrightarrow> readableBytes (cn_inputBuffer c) \<le> 4 + kMaxBodyLenght"
  by (auto simp: input_ok_def Let_def contents_length)

lemma input_ok_cong: "cn_inputBuffer c' = cn_inputBuffer c \<Longrightarrow> input_ok c' = input_ok c"
  by (simp add: input_ok_def)

lemma body_length_peek:
  "buffer_ok b \<Longrightarrow> 4 \<le> readableBytes b \<Longrightarrow> unat (ntohl (take 4 (peek b))) = body_length (contents b)"
  by (simp add: body_length_def peek_contents)

lemma parse_frame_whole:
  assumes "length bs = 4 + body_length bs" and "body_length bs \<le> kMaxBodyLenght"
  shows "parse_frame bs = (Ok, drop 4 bs, [])"
  using assms by (simp add: parse_frame_def Let_def body_length_def [symmetric])

lemma htonl_ntohl:
  assumes "length bs = 4"
  shows "htonl (ntohl bs) = bs"
proof -
  from assms obtain a b c d where bs: "bs = [a, b, c, d]"
    by (auto simp: length_Suc_conv numeral_eq_Suc)
  have lt: "of_char x < (256 :: nat)" for x using of_char_mod_256 [of x, where ?'a = nat] by (metis mod_less_divisor zero_less_numeral)
  have last: "char_of (m * 256 + of_char x) = x" for m :: nat and x
    by (subst char_of_mod_256 [symmetric]) simp
  define n where "n = ((of_char a * 256 + of_char b) * 256 + of_char c) * 256 + (of_char d :: nat)"
  have "((A * 256 + B) * 256 + C) * 256 + D < 2 ^ 32" if "A < 256" "B < 256" "C < 256" "D < 256" for A B C D :: nat
    using that by simp
  then have n: "n < 2 ^ 32" unfolding n_def by (simp only: lt)
  have dv: "(m * 256 + D) div 256 = m" if "D < 256" for m D :: nat using that by simp
  have 1: "n div 256 = (of_char a * 256 + of_char b) * 256 + of_char c"
    unfolding n_def by (rule dv [OF lt])
  have 2: "n div 256 ^ 2 = of_char a * 256 + of_char b"
    unfolding power2_eq_square div_mult2_eq 1 by (rule dv [OF lt])
  have "n div 256 ^ 3 = n div 256 ^ 2 div 256" by (simp add: div_mult2_eq)
  then have 3: "n div 256 ^ 3 = of_char a" unfolding 2 by (simp only: dv lt)
  have "unat (of_nat n :: u32) = n" using n by (simp add: unat_of_nat)
  then have "htonl (of_nat n) = [char_of (n div 256 ^ 3), char_of (n div 256 ^ 2), char_of (n div 256), char_of n]"
    by (simp add: htonl_def)
  also have "\<dots> = bs"
    unfolding 1 2 3 bs unfolding n_def by (simp only: last char_of_char)
  finally show ?thesis by (simp add: ntohl_def bs n_def)
qed

lemma frame_whole:
  assumes "length bs = 4 + body_length bs" and "body_length bs \<le> kMaxBodyLenght"
  shows "frame (drop 4 bs) = bs"
proof -
  have "of_nat (length (drop 4 bs)) = ntohl (take 4 bs)" using assms(1) by (simp add: body_length_def)
  then show ?thesis using assms(1) by (simp add: frame_def htonl_ntohl)
qed

text \<open>
  What reading does to the stream (the bytes buffered and those still in the kernel): the frames
  of the messages \<open>ms\<close> leave it at the front, and the log of the connection grows by \<open>ms\<close>.
\<close>

definition conserves :: "(Connection \<Rightarrow> string list) \<Rightarrow> read_state \<Rightarrow> read_state \<Rightarrow> string list \<Rightarrow> bool" where
  "conserves log x y ms \<longleftrightarrow>
     (case (x, y) of ((r, evs, c), (r', evs', c')) \<Rightarrow>
        concat (map frame ms) @ contents (cn_inputBuffer c') @ kernel_data evs'
          = contents (cn_inputBuffer c) @ kernel_data evs
        \<and> (\<forall>m \<in> set ms. length m \<le> kMaxBodyLenght)
        \<and> rr_messages_decoded r' = rr_messages_decoded r + length ms
        \<and> input_ok c' \<and> (\<not> isDisconnected c' \<longrightarrow> log c' = log c @ ms))"

definition within_budget :: "read_state \<Rightarrow> bool" where
  "within_budget = (\<lambda>(r, evs, c).
     rr_bytes_received r \<le> kReadBudgetBytes \<and> rr_messages_decoded r \<le> kReadBudgetMessages)"

lemma conserves_trans:
  "conserves log x y ms \<Longrightarrow> conserves log y z ms' \<Longrightarrow> \<not> isDisconnected (snd (snd y)) \<Longrightarrow> conserves log x z (ms @ ms')"
  by (cases x; cases y; cases z) (auto simp: conserves_def)

text \<open>
  A message callback: it leaves the input buffer alone, and the messages it has taken are a log
  of the connection, which reading itself does not touch.
\<close>

locale message_sink =
  fixes f :: "string \<Rightarrow> Connection \<Rightarrow> Connection"
    and log :: "Connection \<Rightarrow> string list"
  assumes sink_input: "cn_inputBuffer (f m c) = cn_inputBuffer c"
    and sink_log: "\<not> isDisconnected (f m (incPendingTasks c)) \<Longrightarrow> log (f m (incPendingTasks c)) = log c @ [m]"
    and log_frame: "cn_protocol_messages c' = cn_protocol_messages c \<Longrightarrow> log c' = log c"
begin

lemma read_frame_conserves:
  assumes "input_ok c" and "readableBytes (cn_inputBuffer c) = 4 + body_length (contents (cn_inputBuffer c))"
    and "body_length (contents (cn_inputBuffer c)) \<le> kMaxBodyLenght"
    and "read_frame (Some f) (r, evs, c) = Inl y \<or> read_frame (Some f) (r, evs, c) = Inr y"
  shows "\<exists>ms. conserves log (r, evs, c) y ms \<and> rr_bytes_received (fst y) = rr_bytes_received r \<and> length ms \<le> 1
    \<and> (read_frame (Some f) (r, evs, c) = Inr y \<longrightarrow> \<not> isDisconnected (snd (snd y)))"
proof -
  let ?b = "cn_inputBuffer c" and ?m = "drop 4 (contents (cn_inputBuffer c))"
  have ok: "buffer_ok ?b" using assms(1) by (simp add: input_ok_def Let_def)
  have whole: "length (contents ?b) = 4 + body_length (contents ?b)" using assms(2) contents_length [OF ok] by simp
  obtain d m b' where t: "tryDecode ?b [] = (d, m, b')" by (metis prod_cases3)
  have T: "d = Ok" "m = ?m" "contents b' = []" "buffer_ok b'"
    using tryDecode_refines [OF ok t] parse_frame_whole [OF whole assms(3)] by (auto split: if_splits)
  define c1 where "c1 = incPendingTasks (c\<lparr>cn_inputBuffer := b'\<rparr>)"
  have y: "snd y = (evs, f ?m c1)" "rr_messages_decoded (fst y) = rr_messages_decoded r + 1"
    "rr_bytes_received (fst y) = rr_bytes_received r"
    "read_frame (Some f) (r, evs, c) = Inr y \<Longrightarrow> \<not> isDisconnected (f ?m c1)"
    using assms(4) by (auto simp: read_frame_def t T c1_def Let_def split: if_splits)
  have input: "cn_inputBuffer (f ?m c1) = b'" by (simp add: sink_input c1_def incPendingTasks_def)
  have "log (f ?m c1) = log c @ [?m]" if "\<not> isDisconnected (f ?m c1)"
    using sink_log that log_frame [of c "c\<lparr>cn_inputBuffer := b'\<rparr>"] by (simp add: c1_def)
  moreover have "input_ok (f ?m c1)" by (simp add: input_ok_def input T)
  ultimately have "conserves log (r, evs, c) y [?m]"
    using y frame_whole [OF whole assms(3)] assms(3) whole
    by (cases y) (auto simp: conserves_def input T)
  with y show ?thesis by (intro exI [of _ "[?m]"]) auto
qed

text \<open>Reading from the kernel never goes past the frame under way.\<close>

lemma read_more_conserves:
  assumes ok: "input_ok c" and live: "\<not> isDisconnected c" and bytes: "rr_bytes_received r < kReadBudgetBytes"
    and size: "readableBytes (cn_inputBuffer c) < n"
      "n = (if 4 \<le> readableBytes (cn_inputBuffer c) then 4 + body_length (contents (cn_inputBuffer c)) else 4)"
      "4 \<le> readableBytes (cn_inputBuffer c) \<Longrightarrow> body_length (contents (cn_inputBuffer c)) \<le> kMaxBodyLenght"
    and run: "read_more now n (r, evs, c) = Inl y \<or> read_more now n (r, evs, c) = Inr y"
  shows "conserves log (r, evs, c) y []" "rr_bytes_received (fst y) \<le> kReadBudgetBytes"
    "read_more now n (r, evs, c) = Inr y \<Longrightarrow> \<not> isDisconnected (snd (snd y))"
proof -
  let ?k = "readableBytes (cn_inputBuffer c)"
  have b: "buffer_ok (cn_inputBuffer c)" using ok by (simp add: input_ok_def Let_def)
  obtain ev evs' where R: "recv (recv_amount n ?k (rr_bytes_received r)) evs = (ev, evs')" by fastforce
  note D = recv_data [OF R]
  have same: "conserves log (r, evs, c) (r', evs', c') []"
    if "\<And>bs. ev = RecvData bs \<Longrightarrow> bs = []" "cn_inputBuffer c' = cn_inputBuffer c"
      "cn_protocol_messages c' = cn_protocol_messages c" "rr_messages_decoded r' = rr_messages_decoded r" for r' c'
    using that D ok log_frame [of c' c] by (cases ev) (auto simp: conserves_def input_ok_def)
  have upd: "conserves log (r, evs, c) (r\<lparr>rr_bytes_received := rr_bytes_received r + length bs\<rparr>, evs',
      (refreshActivity now c)\<lparr>cn_inputBuffer := buffer_append bs (cn_inputBuffer c)\<rparr>) []"
    and budget: "rr_bytes_received r + length bs \<le> kReadBudgetBytes" if ev: "ev = RecvData bs" for bs
  proof -
    let ?c' = "(refreshActivity now c)\<lparr>cn_inputBuffer := buffer_append bs (cn_inputBuffer c)\<rparr>"
    have len: "length bs \<le> n - ?k" "length bs \<le> kReadBudgetBytes - rr_bytes_received r"
      using recv_amount_bound [OF R [unfolded ev]] size(1) bytes by (auto simp: recv_amount_def sub_size_def)
    then show "rr_bytes_received r + length bs \<le> kReadBudgetBytes" using bytes by simp
    have cont: "contents (cn_inputBuffer ?c') = contents (cn_inputBuffer c) @ bs" "buffer_ok (cn_inputBuffer ?c')"
      using append_contents [OF b] by simp_all
    have "body_length (contents (cn_inputBuffer c) @ bs) = body_length (contents (cn_inputBuffer c))" if "4 \<le> ?k"
      using that contents_length [OF b] by (simp add: body_length_def)
    then have "input_ok ?c'"
      using cont len size contents_length [OF b] by (auto simp: input_ok_def Let_def split: if_splits)
    then show "conserves log (r, evs, c) (r\<lparr>rr_bytes_received := rr_bytes_received r + length bs\<rparr>, evs', ?c') []"
      using D ev cont log_frame [of ?c' c] by (auto simp: conserves_def refreshActivity_def)
  qed
  show "conserves log (r, evs, c) y []"
    using run same upd
    by (auto simp: read_more_def R setState_def conn_shutdown_def split: recv_event.splits if_splits)
  show "rr_bytes_received (fst y) \<le> kReadBudgetBytes"
    using run bytes budget by (auto simp: read_more_def R split: recv_event.splits if_splits)
  show "\<not> isDisconnected (snd (snd y))" if "read_more now n (r, evs, c) = Inr y"
    using that live by (auto simp: read_more_def R refreshActivity_def isDisconnected_def split: recv_event.splits if_splits)
qed

lemma read_round_conserves:
  assumes ok: "input_ok c" and live: "\<not> isDisconnected c" and budget: "within_budget (r, evs, c)"
    and run: "read_round (Some f) now (r, evs, c) = Inl y \<or> read_round (Some f) now (r, evs, c) = Inr y"
  shows "\<exists>ms. conserves log (r, evs, c) y ms \<and> within_budget y
    \<and> (read_round (Some f) now (r, evs, c) = Inr y \<longrightarrow> \<not> isDisconnected (snd (snd y)))"
proof -
  let ?k = "readableBytes (cn_inputBuffer c)" and ?n = "body_length (contents (cn_inputBuffer c))"
  have b: "buffer_ok (cn_inputBuffer c)" using ok by (simp add: input_ok_def Let_def)
  have stop: ?thesis if "read_round (Some f) now (r, evs, c) = Inl (r', evs, c')" "rr_messages_decoded r' = rr_messages_decoded r"
    "rr_bytes_received r' = rr_bytes_received r" "c' = c \<or> c' = setState Disconnected c" for r' c'
    using that run ok budget
    by (intro exI [of _ "[]"]) (auto simp: conserves_def within_budget_def setState_def isDisconnected_def input_ok_def)
  define fs where "fs = (if 4 \<le> ?k then 4 + ?n else 4)"
  have unf: "read_round (Some f) now (r, evs, c) =
      (if \<not> rr_messages_decoded r < kReadBudgetMessages then Inl (r, evs, c)
       else if 4 \<le> ?k \<and> kMaxBodyLenght < ?n
       then Inl (r\<lparr>rr_ok := False, rr_decode_error := True\<rparr>, evs, setState Disconnected c)
       else if 4 \<le> ?k \<and> ?k = fs then read_frame (Some f) (r, evs, c)
       else if kReadBudgetBytes \<le> rr_bytes_received r then Inl (r, evs, c)
       else read_more now fs (r, evs, c))"
    using body_length_peek [OF b] by (simp add: read_round_def Let_def kHeaderLength_def fs_def)
  show ?thesis
  proof (cases "rr_messages_decoded r < kReadBudgetMessages \<and> \<not> (4 \<le> ?k \<and> kMaxBodyLenght < ?n)")
    case False
    then show ?thesis
    proof (cases "rr_messages_decoded r < kReadBudgetMessages")
      case True
      with False show ?thesis
        by (intro stop [of "r\<lparr>rr_ok := False, rr_decode_error := True\<rparr>" "setState Disconnected c"]) (auto simp: unf)
    next
      case many: False
      then show ?thesis by (intro stop [of r c]) (simp_all add: unf)
    qed
  next
    case go: True
    show ?thesis
    proof (cases "4 \<le> ?k \<and> ?k = fs")
      case True
      then have eq: "read_round (Some f) now (r, evs, c) = read_frame (Some f) (r, evs, c)" using go by (simp add: unf)
      have k: "?k = 4 + ?n" "?n \<le> kMaxBodyLenght" using True go by (auto simp: fs_def split: if_splits)
      from read_frame_conserves [OF ok k run [unfolded eq]] obtain ms where
        "conserves log (r, evs, c) y ms" "rr_bytes_received (fst y) = rr_bytes_received r" "length ms \<le> 1"
        "read_frame (Some f) (r, evs, c) = Inr y \<longrightarrow> \<not> isDisconnected (snd (snd y))"
        by blast
      then show ?thesis
        unfolding eq using budget go by (intro exI [of _ ms]) (cases y, auto simp: within_budget_def conserves_def)
    next
      case False
      show ?thesis
      proof (cases "kReadBudgetBytes \<le> rr_bytes_received r")
        case True
        then show ?thesis using go False by (intro stop [of r c]) (auto simp: unf)
      next
        case less: False
        then have eq: "read_round (Some f) now (r, evs, c) = read_more now fs (r, evs, c)"
          using go False unfolding unf by presburger
        have "?k < fs"
          using ok go False contents_length [OF b] by (auto simp: fs_def input_ok_def Let_def split: if_splits)
        note M = read_more_conserves [OF ok live _ this fs_def, of r now evs y]
        show ?thesis
          unfolding eq using M go less run [unfolded eq] budget
          by (intro exI [of _ "[]"]) (cases y, auto simp: within_budget_def conserves_def)
      qed
    qed
  qed
qed

lemma read_loop_conserves:
  assumes "input_ok (snd (snd x))" and "\<not> isDisconnected (snd (snd x))" and "within_budget x"
  shows "\<exists>ms. conserves log x (read_loop (Some f) now x) ms \<and> within_budget (read_loop (Some f) now x)"
  using assms
proof (induction x rule: measure_induct_rule [of read_left])
  case (less x)
  obtain r evs c where x: "x = (r, evs, c)" by (metis prod_cases3)
  note R = read_round_conserves [of c r evs now, folded x]
  show ?case
  proof (cases "read_round (Some f) now x")
    case (Inl y)
    then have "read_loop (Some f) now x = y" by (simp add: read_loop.simps [of _ _ x])
    with R [of y] less.prems Inl show ?thesis by (auto simp: x)
  next
    case (Inr y)
    with R [of y] less.prems obtain ms where y: "conserves log x y ms" "within_budget y" "\<not> isDisconnected (snd (snd y))"
      by (auto simp: x)
    then have "input_ok (snd (snd y))" by (cases x; cases y) (simp add: conserves_def)
    from less.IH [OF read_round_left [OF Inr] this y(3,2)] obtain ms' where
      "conserves log y (read_loop (Some f) now y) ms'" "within_budget (read_loop (Some f) now y)" by blast
    moreover have "read_loop (Some f) now x = read_loop (Some f) now y" using Inr by (simp add: read_loop.simps [of _ _ x])
    ultimately show ?thesis using conserves_trans [OF y(1) _ y(3)] by metis
  qed
qed

end

text \<open>The handler the server installs, with a pool that accepts or not.\<close>

definition server_sink :: "bool \<Rightarrow> string \<Rightarrow> Connection \<Rightarrow> Connection" where
  "server_sink accepting msg c = snd (snd (EchoServer_onMessage accepting msg c))"

lemma decPendingTasks_many:
  "(decPendingTasks ^^ n) c = c\<lparr>cn_pending_tasks := cn_pending_tasks c - int n\<rparr>"
  by (induction n) (auto simp: decPendingTasks_def)

interpretation echo: message_sink "server_sink accepting" cn_protocol_messages for accepting
proof
  show "cn_inputBuffer (server_sink accepting m c) = cn_inputBuffer c" for m c
    by (simp add: server_sink_def EchoServer_onMessage_def enqueueProtocolMessage_def abandonProtocolMessages_def
        setState_def decPendingTasks_many Let_def) (simp add: decPendingTasks_def)
  show "cn_protocol_messages (server_sink accepting m (incPendingTasks c)) = cn_protocol_messages c @ [m]"
    if "\<not> isDisconnected (server_sink accepting m (incPendingTasks c))" for m c
    using that
    by (auto simp: server_sink_def EchoServer_onMessage_def enqueueProtocolMessage_def abandonProtocolMessages_def
        setState_def Let_def isDisconnected_def incPendingTasks_def split: if_splits)
qed simp

text \<open>
  C36. Reading loses, repeats and reorders nothing: whatever pieces the kernel delivers and
  wherever the read budget stops a turn, the frames of the messages handed to the protocol queue,
  followed by what is still buffered and what is still in the kernel, are exactly the bytes that
  were buffered or in the kernel before; the queue grew by exactly those messages in wire order.
\<close>

theorem read_conserves_stream:
  assumes "input_ok c" and "\<not> isDisconnected c"
    and "handleRead (Some (server_sink accepting)) now evs c = (r, evs', c')"
  shows "\<exists>ms. concat (map frame ms) @ contents (cn_inputBuffer c') @ kernel_data evs'
          = contents (cn_inputBuffer c) @ kernel_data evs
    \<and> length ms = rr_messages_decoded r
    \<and> (\<not> isDisconnected c' \<longrightarrow> cn_protocol_messages c' = cn_protocol_messages c @ ms)"
  using echo.read_loop_conserves [of "(new_read_result, evs, c)" accepting now] assms
  by (auto simp: handleRead_def within_budget_def new_read_result_def conserves_def)

theorem read_conserves_stream_witness:
  "\<exists>r evs' c' ms. handleRead (Some (server_sink True)) 7 [RecvData (take 5 (frame ''ab'')), RecvIntr, RecvData (drop 5 (frame ''ab'') @ ''x'')]
        (new_connection 0) = (r, evs', c')
      \<and> concat (map frame ms) @ contents (cn_inputBuffer c') @ kernel_data evs' = frame ''ab'' @ ''x''"
proof -
  let ?evs = "[RecvData (take 5 (frame ''ab'')), RecvIntr, RecvData (drop 5 (frame ''ab'') @ ''x'')]"
  obtain r evs' c' where run: "handleRead (Some (server_sink True)) 7 ?evs (new_connection 0) = (r, evs', c')"
    by (metis prod_cases3)
  have b: "buffer_ok (new_buffer 1024)" "contents (new_buffer 1024) = []"
    by (simp_all add: buffer_ok_def new_buffer_def contents_def readableBytes_def)
  then have c: "input_ok (new_connection 0)" "\<not> isDisconnected (new_connection 0)"
    "contents (cn_inputBuffer (new_connection 0)) = []"
    by (simp_all add: new_connection_def input_ok_def isDisconnected_def)
  have d: "kernel_data ?evs = frame ''ab'' @ ''x''" by simp
  from read_conserves_stream [OF c(1,2) run] obtain ms where
    "concat (map frame ms) @ contents (cn_inputBuffer c') @ kernel_data evs' = frame ''ab'' @ ''x''"
    unfolding c(3) d by auto
  with run show ?thesis by blast
qed

text \<open>
  A read turn is bounded: it takes at most 64 KiB from the kernel and hands over at most 64
  messages, never asks the kernel for more than the rest of the frame under way, and leaves the
  input buffer with at most one frame, that is 4 bytes and 1 MiB.
\<close>

theorem read_bounded:
  assumes "input_ok c" and "\<not> isDisconnected c"
    and "handleRead (Some (server_sink accepting)) now evs c = (r, evs', c')"
  shows "rr_bytes_received r \<le> 65536 \<and> rr_messages_decoded r \<le> 64
    \<and> readableBytes (cn_inputBuffer c') \<le> 4 + 1048576 \<and> input_ok c'"
proof -
  obtain ms where *: "conserves cn_protocol_messages (new_read_result, evs, c) (r, evs', c') ms" "within_budget (r, evs', c')"
    using echo.read_loop_conserves [of "(new_read_result, evs, c)" accepting now] assms
    by (auto simp: handleRead_def within_budget_def new_read_result_def)
  then have "input_ok c'" by (simp add: conserves_def)
  with * input_ok_bound [of c'] show ?thesis
    by (simp add: within_budget_def kReadBudgetBytes_def kReadBudgetMessages_def kMaxBodyLenght_def)
qed

theorem read_bounded_witness:
  "rr_messages_decoded (fst (handleRead (Some (server_sink True)) 7 [RecvData (frame ''ab'')] (new_connection 0))) \<le> 64"
proof -
  obtain r evs' c' where run: "handleRead (Some (server_sink True)) 7 [RecvData (frame ''ab'')] (new_connection 0) = (r, evs', c')"
    by (metis prod_cases3)
  have "input_ok (new_connection 0)" "\<not> isDisconnected (new_connection 0)"
    by (simp_all add: new_connection_def input_ok_def isDisconnected_def buffer_ok_def new_buffer_def contents_def readableBytes_def)
  from read_bounded [OF this run] run show ?thesis by simp
qed

end
