(* ===== verification/Streams.thy ===== *)
theory Streams
  imports Connection "HOL-Library.Sublist"
begin

text \<open>
  The two queues of a connection as state machines, under any interleaving of the threads that
  use them. Outbound: packets accepted by \<^verbatim>\<open>sendPacket\<close> wait as jobs of the owner loop, move to the
  output buffer and are written to the socket. Inbound: messages from the reading loop wait in
  the protocol queue for the drain job on the thread pool (the lambda of \<^verbatim>\<open>EchoServer::onMessage\<close>).
\<close>

section \<open>Outbound\<close>

text \<open>
  The connection, the packets queued as jobs of its loop, all packets accepted so far, and the
  bytes given to the kernel. The last two only record what happened.
\<close>

record outbound =
  ob_conn :: Connection
  ob_jobs :: "string list"
  ob_accepted :: "string list"
  ob_wire :: string

definition ob_send :: "bool \<Rightarrow> string \<Rightarrow> outbound \<Rightarrow> outbound" where
  "ob_send accepting packet s =
     (case sendPacket accepting packet (ob_conn s) of
        (ok, c) \<Rightarrow>
          if ok then s\<lparr>ob_conn := c, ob_jobs := ob_jobs s @ [packet], ob_accepted := ob_accepted s @ [packet]\<rparr>
          else s\<lparr>ob_conn := c\<rparr>)"

text \<open>The loop runs its first job.\<close>

definition ob_run :: "outbound \<Rightarrow> outbound" where
  "ob_run s =
     (case ob_jobs s of
        [] \<Rightarrow> s
      | packet # rest \<Rightarrow> s\<lparr>ob_conn := packet_in_loop packet (ob_conn s), ob_jobs := rest\<rparr>)"

definition ob_write :: "u64 \<Rightarrow> send_event list \<Rightarrow> outbound \<Rightarrow> outbound" where
  "ob_write now evs s =
     (case handleWrite now evs (ob_conn s) of
        (_, sent, _, c) \<Rightarrow> s\<lparr>ob_conn := c, ob_wire := ob_wire s @ sent\<rparr>)"

inductive ob_step :: "outbound \<Rightarrow> outbound \<Rightarrow> bool" where
  ob_step_send: "ob_step s (ob_send accepting packet s)"
| ob_step_run: "ob_step s (ob_run s)"
| ob_step_write: "ob_step s (ob_write now evs s)"
| ob_step_shutdown: "ob_step s (s\<lparr>ob_conn := conn_shutdown (ob_conn s)\<rparr>)"
| ob_step_disconnect: "ob_step s (s\<lparr>ob_conn := setState Disconnected (ob_conn s)\<rparr>)"
| ob_step_begin: "ob_step s (s\<lparr>ob_conn := incPendingTasks (ob_conn s)\<rparr>)"
| ob_step_end: "ob_step s (s\<lparr>ob_conn := decPendingTasks (ob_conn s)\<rparr>)"

definition ob_start :: "u64 \<Rightarrow> outbound" where
  "ob_start now = \<lparr>ob_conn = new_connection now, ob_jobs = [], ob_accepted = [], ob_wire = []\<rparr>"

inductive ob_reachable :: "outbound \<Rightarrow> bool" where
  ob_reach_start: "ob_reachable (ob_start now)"
| ob_reach_step: "ob_reachable s \<Longrightarrow> ob_step s s' \<Longrightarrow> ob_reachable s'"

text \<open>
  Unless the connection is lost, wire, output buffer and queued jobs make up the accepted packets;
  after a loss only what is on the wire and in the buffer counts.
\<close>

definition ob_inv :: "outbound \<Rightarrow> bool" where
  "ob_inv s \<longleftrightarrow>
     (let c = ob_conn s; out = ob_wire s @ contents (cn_outputBuffer c) in
      buffer_ok (cn_outputBuffer c) \<and> cn_pending_packets c = int (length (ob_jobs s))
      \<and> prefix out (concat (ob_accepted s))
      \<and> (\<not> isDisconnected c \<longrightarrow> out @ concat (ob_jobs s) = concat (ob_accepted s)))"

lemma write_loop_eqs:
  "readableBytes (cn_outputBuffer c) = 0 \<Longrightarrow> write_loop now evs c n sent =
     (\<lparr>wr_ok = True, wr_close = canBeClosed c, wr_bytes_sent = n\<rparr>, sent, evs,
      if canBeClosed c then setState Disconnected c else c)"
  "readableBytes (cn_outputBuffer c) \<noteq> 0 \<Longrightarrow> write_loop now [] c n sent =
     (\<lparr>wr_ok = True, wr_close = False, wr_bytes_sent = n\<rparr>, sent, [], c)"
  "readableBytes (cn_outputBuffer c) \<noteq> 0 \<Longrightarrow> write_loop now (SendAgain # rest) c n sent =
     (\<lparr>wr_ok = True, wr_close = False, wr_bytes_sent = n\<rparr>, sent, rest, c)"
  "readableBytes (cn_outputBuffer c) \<noteq> 0 \<Longrightarrow> write_loop now (SendIntr # rest) c n sent = write_loop now rest c n sent"
  "readableBytes (cn_outputBuffer c) \<noteq> 0 \<Longrightarrow> write_loop now (SendError # rest) c n sent =
     (\<lparr>wr_ok = False, wr_close = True, wr_bytes_sent = n\<rparr>, sent, rest, setState Disconnected c)"
  "readableBytes (cn_outputBuffer c) \<noteq> 0 \<Longrightarrow> write_loop now (SendBytes k # rest) c n sent =
     (let m = min k (readableBytes (cn_outputBuffer c)) in
      if m = 0
      then (\<lparr>wr_ok = False, wr_close = True, wr_bytes_sent = n\<rparr>, sent, rest, setState Disconnected c)
      else write_loop now rest ((refreshActivity now c)\<lparr>cn_outputBuffer := retrieve m (cn_outputBuffer c)\<rparr>)
             (n + m) (sent @ take m (peek (cn_outputBuffer c))))"
  by (simp_all add: write_loop.simps [of now evs] write_loop.simps [of now "[]"]
      write_loop.simps [of now "SendAgain # rest"] write_loop.simps [of now "SendIntr # rest"]
      write_loop.simps [of now "SendError # rest"] write_loop.simps [of now "SendBytes k # rest"])

text \<open>Writing moves bytes from the buffer to the wire and nothing else.\<close>

definition writes_through :: "Connection \<Rightarrow> string \<Rightarrow> string \<Rightarrow> Connection \<Rightarrow> bool" where
  "writes_through c sent sent' c' \<longleftrightarrow>
     buffer_ok (cn_outputBuffer c') \<and> sent' @ contents (cn_outputBuffer c') = sent @ contents (cn_outputBuffer c)
     \<and> cn_pending_packets c' = cn_pending_packets c \<and> (isDisconnected c \<longrightarrow> isDisconnected c')"

lemma write_loop_stream:
  assumes "buffer_ok (cn_outputBuffer c)" and "write_loop now evs c n sent = (r, sent', evs', c')"
  shows "writes_through c sent sent' c'"
  using assms
proof (induction evs arbitrary: c n sent)
  case Nil
  then show ?case
    by (cases "readableBytes (cn_outputBuffer c) = 0")
       (auto simp: write_loop_eqs writes_through_def setState_def isDisconnected_def)
next
  case (Cons ev rest)
  note ok = Cons.prems(1)
  show ?case
  proof (cases "readableBytes (cn_outputBuffer c) = 0")
    case True
    with Cons.prems show ?thesis by (auto simp: write_loop_eqs writes_through_def setState_def isDisconnected_def)
  next
    case False
    show ?thesis
    proof (cases ev)
      case (SendBytes k)
      define m where "m = min k (readableBytes (cn_outputBuffer c))"
      define c1 where "c1 = (refreshActivity now c)\<lparr>cn_outputBuffer := retrieve m (cn_outputBuffer c)\<rparr>"
      have c1: "buffer_ok (cn_outputBuffer c1)" "contents (cn_outputBuffer c1) = drop m (contents (cn_outputBuffer c))"
        "cn_pending_packets c1 = cn_pending_packets c" "isDisconnected c1 = isDisconnected c"
        using retrieve_contents [OF ok] by (simp_all add: c1_def refreshActivity_def isDisconnected_def)
      have pk: "take m (peek (cn_outputBuffer c)) = take m (contents (cn_outputBuffer c))"
        by (rule peek_contents [OF ok]) (simp add: m_def)
      have run: "write_loop now (ev # rest) c n sent =
         (if m = 0 then (\<lparr>wr_ok = False, wr_close = True, wr_bytes_sent = n\<rparr>, sent, rest, setState Disconnected c)
          else write_loop now rest c1 (n + m) (sent @ take m (peek (cn_outputBuffer c))))"
        unfolding SendBytes by (simp add: write_loop_eqs(6) [OF False] Let_def m_def [symmetric] c1_def)
      show ?thesis
      proof (cases "m = 0")
        case True
        with Cons.prems run show ?thesis by (auto simp: writes_through_def setState_def isDisconnected_def)
      next
        case pos: False
        then have "writes_through c1 (sent @ take m (peek (cn_outputBuffer c))) sent' c'"
          using Cons.IH [OF c1(1)] Cons.prems(2) run by simp
        then show ?thesis using c1 pk by (simp add: writes_through_def)
      qed
    next
      case SendIntr
      with Cons.IH [OF ok] Cons.prems(2) False show ?thesis by (simp add: write_loop_eqs)
    qed (use Cons.prems False in \<open>auto simp: write_loop_eqs writes_through_def setState_def isDisconnected_def\<close>)
  qed
qed

lemma ob_step_inv: "ob_step s s' \<Longrightarrow> ob_inv s \<Longrightarrow> ob_inv s'"
proof (induction rule: ob_step.induct)
  case (ob_step_send s accepting packet)
  then show ?case
    by (auto simp: ob_inv_def ob_send_def sendPacket_def Let_def isDisconnected_def prefix_def)
next
  case (ob_step_run s)
  show ?case
  proof (cases "ob_jobs s")
    case (Cons packet rest)
    have ok: "buffer_ok (cn_outputBuffer (ob_conn s))" using ob_step_run by (simp add: ob_inv_def Let_def)
    show ?thesis
      using ob_step_run Cons append_contents [OF ok]
      by (auto simp: ob_inv_def ob_run_def packet_in_loop_def Let_def isDisconnected_def prefix_def)
  qed (use ob_step_run in \<open>simp add: ob_run_def\<close>)
next
  case (ob_step_write s now evs)
  obtain r sent evs' c' where w: "handleWrite now evs (ob_conn s) = (r, sent, evs', c')" by (metis prod_cases4)
  have ok: "buffer_ok (cn_outputBuffer (ob_conn s))" using ob_step_write by (simp add: ob_inv_def Let_def)
  show ?case
    using ob_step_write write_loop_stream [OF ok w [unfolded handleWrite_def]]
    by (auto simp: ob_inv_def ob_write_def w Let_def writes_through_def)
       (metis append.assoc)
qed (auto simp: ob_inv_def Let_def conn_shutdown_def setState_def isDisconnected_def incPendingTasks_def decPendingTasks_def)

lemma ob_reachable_inv: "ob_reachable s \<Longrightarrow> ob_inv s"
proof (induction rule: ob_reachable.induct)
  case (ob_reach_start now)
  show ?case
    by (simp add: ob_inv_def ob_start_def new_connection_def buffer_ok_def new_buffer_def contents_def readableBytes_def)
qed (rule ob_step_inv)

text \<open>
  C35. The output stream is faithful under any interleaving of senders, loop and socket: the bytes
  given to the kernel are always a prefix of the accepted packets in the order of their
  acceptance, and a connection is only declared ready to close when every accepted packet is
  completely on the wire.
\<close>

theorem output_in_order:
  assumes "ob_reachable s"
  shows "prefix (ob_wire s) (concat (ob_accepted s))
    \<and> (canBeClosed (ob_conn s) \<longrightarrow> ob_wire s = concat (ob_accepted s))"
proof -
  note inv = ob_reachable_inv [OF assms]
  have "ob_wire s = concat (ob_accepted s)" if "canBeClosed (ob_conn s)"
  proof -
    have ok: "buffer_ok (cn_outputBuffer (ob_conn s))" using inv by (simp add: ob_inv_def Let_def)
    have "contents (cn_outputBuffer (ob_conn s)) = []" "ob_jobs s = []" "\<not> isDisconnected (ob_conn s)"
      using that contents_length [OF ok] inv by (auto simp: canBeClosed_def ob_inv_def Let_def isDisconnected_def)
    with inv show ?thesis by (simp add: ob_inv_def Let_def)
  qed
  moreover have "prefix (ob_wire s) (concat (ob_accepted s))"
    using inv by (auto simp: ob_inv_def Let_def prefix_def)
  ultimately show ?thesis by blast
qed

definition demo_outbound :: outbound where
  "demo_outbound =
     ob_write 1 [SendBytes 3, SendIntr, SendBytes 9]
       (ob_run (ob_run (ob_send True ''ef'' (ob_send True ''abcd'' (ob_start 0)))))"

lemma ob_reachable_demo: "ob_reachable demo_outbound"
  unfolding demo_outbound_def
  by (rule ob_reach_step [OF _ ob_step_write], rule ob_reach_step [OF _ ob_step_run],
      rule ob_reach_step [OF _ ob_step_run], rule ob_reach_step [OF _ ob_step_send],
      rule ob_reach_step [OF _ ob_step_send], rule ob_reach_start)

theorem output_in_order_witness:
  "ob_wire (demo_outbound\<lparr>ob_conn := conn_shutdown (ob_conn demo_outbound)\<rparr>) = ''abcdef''"
proof -
  let ?s = "demo_outbound\<lparr>ob_conn := conn_shutdown (ob_conn demo_outbound)\<rparr>"
  have r: "ob_reachable ?s" by (rule ob_reach_step [OF ob_reachable_demo ob_step_shutdown])
  have "canBeClosed (ob_conn ?s)" "concat (ob_accepted ?s) = ''abcdef''" by code_simp+
  with output_in_order [OF r] show ?thesis by simp
qed

section \<open>Inbound\<close>

text \<open>
  The connection, the drain jobs on the pool (each with the message it works on, \<open>None\<close> between
  two messages), the messages taken into the queue, those passed to \<^verbatim>\<open>protocol_message_\<close>, and those
  dropped because the connection was lost. The code keeps no
  list of drain jobs; that there is at most one is a theorem.
\<close>

record inbound =
  ib_conn :: Connection
  ib_drains :: "string option list"
  ib_taken :: "string list"
  ib_handled :: "string list"
  ib_dropped :: "string list"

text \<open>The reading loop hands a message to \<open>EchoServer_onMessage\<close>.\<close>

definition ib_arrive :: "bool \<Rightarrow> string \<Rightarrow> inbound \<Rightarrow> inbound" where
  "ib_arrive accepting msg s =
     (case EchoServer_onMessage accepting msg (incPendingTasks (ib_conn s)) of
        (started, removed, c) \<Rightarrow>
          s\<lparr>ib_conn := c,
            ib_drains := (if started then ib_drains s @ [None] else ib_drains s),
            ib_taken := (if removed then ib_taken s else ib_taken s @ [msg])\<rparr>)"

text \<open>
  A drain job between two messages: it takes the next one or ends. Then it passes the message to the
  callback (\<open>failed\<close>: the callback threw), or drops it when the connection is lost, and counts it done in any case.
\<close>

definition ib_next :: "nat \<Rightarrow> inbound \<Rightarrow> inbound" where
  "ib_next k s =
     (case nextProtocolMessage (ib_conn s) of
        (None, c) \<Rightarrow> s\<lparr>ib_conn := c, ib_drains := take k (ib_drains s) @ drop (Suc k) (ib_drains s)\<rparr>
      | (Some m, c) \<Rightarrow> s\<lparr>ib_conn := c, ib_drains := (ib_drains s)[k := Some m]\<rparr>)"

definition ib_handle :: "nat \<Rightarrow> bool \<Rightarrow> inbound \<Rightarrow> inbound" where
  "ib_handle k failed s =
     (let c = ib_conn s; m = the (ib_drains s ! k); s1 = s\<lparr>ib_drains := (ib_drains s)[k := None]\<rparr> in
      if isDisconnected c then s1\<lparr>ib_conn := decPendingTasks c, ib_dropped := ib_dropped s @ [m]\<rparr>
      else s1\<lparr>ib_conn := decPendingTasks (if failed then setState Disconnected c else c), ib_handled := ib_handled s @ [m]\<rparr>)"

inductive ib_step :: "inbound \<Rightarrow> inbound \<Rightarrow> bool" where
  ib_step_arrive: "ib_step s (ib_arrive accepting msg s)"
| ib_step_next: "k < length (ib_drains s) \<Longrightarrow> ib_drains s ! k = None \<Longrightarrow> ib_step s (ib_next k s)"
| ib_step_handle: "k < length (ib_drains s) \<Longrightarrow> ib_drains s ! k \<noteq> None \<Longrightarrow> ib_step s (ib_handle k failed s)"
| ib_step_shutdown: "ib_step s (s\<lparr>ib_conn := conn_shutdown (ib_conn s)\<rparr>)"
| ib_step_disconnect: "ib_step s (s\<lparr>ib_conn := setState Disconnected (ib_conn s)\<rparr>)"

definition ib_start :: "u64 \<Rightarrow> inbound" where
  "ib_start now = \<lparr>ib_conn = new_connection now, ib_drains = [], ib_taken = [], ib_handled = [], ib_dropped = []\<rparr>"

inductive ib_reachable :: "inbound \<Rightarrow> bool" where
  ib_reach_start: "ib_reachable (ib_start now)"
| ib_reach_step: "ib_reachable s \<Longrightarrow> ib_step s s' \<Longrightarrow> ib_reachable s'"

text \<open>The messages in the hands of drain jobs.\<close>

definition in_hand :: "inbound \<Rightarrow> string list" where
  "in_hand s = concat (map (\<lambda>d. case d of None \<Rightarrow> [] | Some m \<Rightarrow> [m]) (ib_drains s))"

definition ib_inv :: "inbound \<Rightarrow> bool" where
  "ib_inv s \<longleftrightarrow>
     (let c = ib_conn s; queue = cn_protocol_messages c in
      length (ib_drains s) = (if cn_protocol_active c then 1 else 0)
      \<and> (\<not> cn_protocol_active c \<longrightarrow> queue = [])
      \<and> cn_protocol_bytes c = sum_list (map length queue) \<and> cn_protocol_bytes c \<le> max_protocol_bytes
      \<and> length queue \<le> 512
      \<and> cn_pending_tasks c = int (length queue + length (in_hand s))
      \<and> ib_handled s @ ib_dropped s @ in_hand s @ queue = ib_taken s
      \<and> (ib_dropped s \<noteq> [] \<longrightarrow> isDisconnected c))"

lemma ib_arrive_inv:
  assumes inv: "ib_inv s"
  shows "ib_inv (ib_arrive accepting msg s)"
proof -
  let ?c = "ib_conn s"
  have room: "sub_size max_protocol_bytes (cn_protocol_bytes ?c) = max_protocol_bytes - cn_protocol_bytes ?c"
    using inv by (simp add: ib_inv_def Let_def sub_size_def)
  have over: ?thesis if "sub_size max_protocol_bytes (cn_protocol_bytes ?c) < length msg \<or> 512 \<le> length (cn_protocol_messages ?c)"
    using that inv
    by (auto simp: ib_inv_def ib_arrive_def EchoServer_onMessage_def enqueueProtocolMessage_def
        incPendingTasks_def decPendingTasks_def setState_def in_hand_def isDisconnected_def Let_def)
  have fits: ?thesis if "\<not> (sub_size max_protocol_bytes (cn_protocol_bytes ?c) < length msg \<or> 512 \<le> length (cn_protocol_messages ?c))"
  proof (cases "cn_protocol_active ?c")
    case True
    with that inv room show ?thesis
      by (auto simp: ib_inv_def ib_arrive_def EchoServer_onMessage_def enqueueProtocolMessage_def
          incPendingTasks_def in_hand_def isDisconnected_def Let_def)
  next
    case False
    then have none: "ib_drains s = []" "cn_protocol_messages ?c = []" using inv by (simp_all add: ib_inv_def Let_def)
    with that inv room False show ?thesis
      by (auto simp: ib_inv_def ib_arrive_def EchoServer_onMessage_def enqueueProtocolMessage_def
          abandonProtocolMessages_def incPendingTasks_def decPendingTasks_def setState_def in_hand_def isDisconnected_def Let_def)
  qed
  show ?thesis using over fits by blast
qed

lemma ib_one_drain:
  assumes "ib_inv s" and "k < length (ib_drains s)"
  shows "k = 0" "ib_drains s = [ib_drains s ! 0]" "cn_protocol_active (ib_conn s)"
  using assms by (auto simp: ib_inv_def Let_def length_Suc_conv split: if_splits)

lemma ib_next_inv:
  assumes inv: "ib_inv s" and k: "k < length (ib_drains s)" and d: "ib_drains s ! k = None"
  shows "ib_inv (ib_next k s)"
proof -
  note one = ib_one_drain [OF inv k]
  have drains: "ib_drains s = [None]" using one d by simp
  show ?thesis
  proof (cases "cn_protocol_messages (ib_conn s)")
    case Nil
    with inv one drains show ?thesis
      by (simp add: ib_inv_def ib_next_def nextProtocolMessage_def in_hand_def isDisconnected_def Let_def)
  next
    case (Cons m rest)
    with inv one drains show ?thesis
      by (auto simp: ib_inv_def ib_next_def nextProtocolMessage_def in_hand_def isDisconnected_def Let_def sub_size_def)
  qed
qed

lemma ib_handle_inv:
  assumes inv: "ib_inv s" and k: "k < length (ib_drains s)" and d: "ib_drains s ! k \<noteq> None"
  shows "ib_inv (ib_handle k failed s)"
proof -
  note one = ib_one_drain [OF inv k]
  then obtain m where drains: "ib_drains s = [Some m]" using d by (metis not_None_eq)
  with inv one show ?thesis
    by (auto simp: ib_inv_def ib_handle_def in_hand_def Let_def decPendingTasks_def setState_def isDisconnected_def)
qed

lemma ib_step_inv: "ib_step s s' \<Longrightarrow> ib_inv s \<Longrightarrow> ib_inv s'"
proof (induction rule: ib_step.induct)
  case (ib_step_shutdown s)
  then show ?case by (auto simp: ib_inv_def in_hand_def conn_shutdown_def isDisconnected_def Let_def)
next
  case (ib_step_disconnect s)
  then show ?case by (auto simp: ib_inv_def in_hand_def setState_def isDisconnected_def Let_def)
qed (simp_all add: ib_arrive_inv ib_next_inv ib_handle_inv)

lemma ib_reachable_inv: "ib_reachable s \<Longrightarrow> ib_inv s"
proof (induction rule: ib_reachable.induct)
  case (ib_reach_start now)
  show ?case by (simp add: ib_inv_def ib_start_def new_connection_def in_hand_def)
qed (rule ib_step_inv)


definition demo_inbound :: inbound where
  "demo_inbound = ib_handle 0 False (ib_next 0 (ib_arrive True ''b'' (ib_arrive True ''a'' (ib_start 0))))"

lemma demo_inbound_eval:
  "ib_drains (ib_arrive True ''b'' (ib_arrive True ''a'' (ib_start 0))) = [None]"
  "ib_drains (ib_next 0 (ib_arrive True ''b'' (ib_arrive True ''a'' (ib_start 0)))) = [Some ''a'']"
  by (simp_all add: ib_next_def ib_arrive_def EchoServer_onMessage_def enqueueProtocolMessage_def
      incPendingTasks_def ib_start_def new_connection_def Let_def sub_size_def max_protocol_bytes_def
      nextProtocolMessage_def isDisconnected_def)

lemma ib_reachable_demo: "ib_reachable demo_inbound"
  unfolding demo_inbound_def
  by (intro ib_reach_step [OF _ ib_step_handle] ib_reach_step [OF _ ib_step_next]
      ib_reach_step [OF _ ib_step_arrive] ib_reach_start) (simp_all add: demo_inbound_eval)

text \<open>Then the connection is lost, and the second message is dropped.\<close>

definition demo_lost :: inbound where
  "demo_lost = ib_handle 0 False (ib_next 0 (demo_inbound\<lparr>ib_conn := setState Disconnected (ib_conn demo_inbound)\<rparr>))"

lemma demo_lost_eval:
  "ib_drains demo_inbound = [None]" "ib_conn demo_inbound = (ib_conn demo_inbound)\<lparr>cn_protocol_messages := [''b'']\<rparr>"
  by (simp_all add: demo_inbound_def ib_handle_def ib_next_def ib_arrive_def EchoServer_onMessage_def
      enqueueProtocolMessage_def incPendingTasks_def decPendingTasks_def ib_start_def new_connection_def Let_def sub_size_def
      max_protocol_bytes_def nextProtocolMessage_def isDisconnected_def)

lemma ib_reachable_lost: "ib_reachable demo_lost"
proof -
  let ?s = "demo_inbound\<lparr>ib_conn := setState Disconnected (ib_conn demo_inbound)\<rparr>"
  have "ib_drains (ib_next 0 ?s) = [Some ''b'']"
    by (subst demo_lost_eval(2)) (simp add: ib_next_def nextProtocolMessage_def setState_def demo_lost_eval(1))
  moreover have "ib_reachable ?s" by (rule ib_reach_step [OF ib_reachable_demo ib_step_disconnect])
  ultimately show ?thesis
    unfolding demo_lost_def
    by (intro ib_reach_step [OF _ ib_step_handle] ib_reach_step [OF _ ib_step_next]) (simp_all add: demo_lost_eval(1))
qed


text \<open>
  The inbound queue is bounded: in every reachable state it holds at most 512 messages and
  4 MiB, its byte counter is the exact sum (so the unsigned subtraction of the limit check never
  wraps), and the pending-task counter is exactly the number of messages queued or in hand.
\<close>

theorem inbound_queue_bounded:
  assumes "ib_reachable s"
  shows "length (cn_protocol_messages (ib_conn s)) \<le> 512
    \<and> sum_list (map length (cn_protocol_messages (ib_conn s))) \<le> 4 * 1024 * 1024
    \<and> cn_protocol_bytes (ib_conn s) = sum_list (map length (cn_protocol_messages (ib_conn s)))
    \<and> cn_pending_tasks (ib_conn s) = int (length (cn_protocol_messages (ib_conn s)) + length (in_hand s))"
  using ib_reachable_inv [OF assms] by (simp add: ib_inv_def Let_def max_protocol_bytes_def)

theorem inbound_queue_bounded_witness:
  "cn_protocol_bytes (ib_conn demo_inbound) = 1 \<and> cn_pending_tasks (ib_conn demo_inbound) = 1"
proof -
  have "cn_protocol_messages (ib_conn demo_inbound) = [''b'']" "in_hand demo_inbound = []"
    by (simp_all add: demo_inbound_def ib_handle_def ib_next_def ib_arrive_def EchoServer_onMessage_def
        enqueueProtocolMessage_def incPendingTasks_def decPendingTasks_def ib_start_def new_connection_def Let_def
        sub_size_def max_protocol_bytes_def nextProtocolMessage_def in_hand_def)
  with inbound_queue_bounded [OF ib_reachable_demo] show ?thesis by simp
qed

end
