(* ===== verification/Protocol.thy ===== *)
theory Protocol
  imports Json
begin

text \<open>
  The message envelope: \<^verbatim>\<open>common/src/MessageType.cpp\<close>, \<^verbatim>\<open>common/include/protocol/ConnectionRole.h\<close>,
  \<^verbatim>\<open>common/src/ProtocolCodec.cpp\<close> and \<^verbatim>\<open>common/src/Response.cpp\<close>. The text codec of the JSON library
  is a parameter; the text of its exceptions is not part of the error messages here.
\<close>

section \<open>Message types and roles\<close>

datatype MessageType =
    SUBMIT_TASK | QUERY_TASK | QUERY_STATUS | QUERY_TASKS | QUERY_WORKERS | QUERY_CAPABILITIES
  | QUERY_CATALOG | CONTROL_WORKERS | CANCEL_TASK | QUERY_BATCH | CANCEL_BATCH | QUERY_REGRESSION
  | QUERY_PROGRESS | QUERY_ROLLBACK | QUERY_LOGS | READ_LOG
  | WORKER_REGISTER | WORKER_HEARTBEAT | WORKER_RECOVER | WORKER_DRAIN
  | TASK_ASSIGN | TASK_START | TASK_RESULT | LOG_APPEND
  | RESPONSE | UNKNOWN_MESSAGE

fun message_toString :: "MessageType \<Rightarrow> string" where
  "message_toString SUBMIT_TASK = ''submit_task''"
| "message_toString QUERY_TASK = ''query_task''"
| "message_toString QUERY_STATUS = ''query_status''"
| "message_toString QUERY_TASKS = ''query_tasks''"
| "message_toString QUERY_WORKERS = ''query_workers''"
| "message_toString QUERY_CAPABILITIES = ''query_capabilities''"
| "message_toString QUERY_CATALOG = ''query_catalog''"
| "message_toString CONTROL_WORKERS = ''control_workers''"
| "message_toString CANCEL_TASK = ''cancel_task''"
| "message_toString QUERY_BATCH = ''query_batch''"
| "message_toString CANCEL_BATCH = ''cancel_batch''"
| "message_toString QUERY_REGRESSION = ''query_regression''"
| "message_toString QUERY_PROGRESS = ''query_progress''"
| "message_toString QUERY_ROLLBACK = ''query_rollback''"
| "message_toString QUERY_LOGS = ''query_logs''"
| "message_toString READ_LOG = ''read_log''"
| "message_toString WORKER_REGISTER = ''worker_register''"
| "message_toString WORKER_HEARTBEAT = ''worker_heartbeat''"
| "message_toString WORKER_RECOVER = ''worker_recover''"
| "message_toString WORKER_DRAIN = ''worker_drain''"
| "message_toString TASK_ASSIGN = ''task_assign''"
| "message_toString TASK_START = ''task_start''"
| "message_toString TASK_RESULT = ''task_result''"
| "message_toString LOG_APPEND = ''log_append''"
| "message_toString RESPONSE = ''response''"
| "message_toString UNKNOWN_MESSAGE = ''unknown''"

definition type_map :: "(string \<times> MessageType) list" where
  "type_map =
     [(''submit_task'', SUBMIT_TASK), (''query_task'', QUERY_TASK), (''query_status'', QUERY_STATUS),
      (''query_tasks'', QUERY_TASKS), (''query_workers'', QUERY_WORKERS),
      (''query_capabilities'', QUERY_CAPABILITIES), (''query_catalog'', QUERY_CATALOG),
      (''control_workers'', CONTROL_WORKERS), (''cancel_task'', CANCEL_TASK),
      (''query_batch'', QUERY_BATCH), (''cancel_batch'', CANCEL_BATCH),
      (''query_regression'', QUERY_REGRESSION), (''query_progress'', QUERY_PROGRESS),
      (''query_rollback'', QUERY_ROLLBACK), (''query_logs'', QUERY_LOGS), (''read_log'', READ_LOG),
      (''worker_register'', WORKER_REGISTER), (''worker_heartbeat'', WORKER_HEARTBEAT),
      (''worker_recover'', WORKER_RECOVER), (''worker_drain'', WORKER_DRAIN),
      (''task_assign'', TASK_ASSIGN), (''task_start'', TASK_START), (''task_result'', TASK_RESULT),
      (''log_append'', LOG_APPEND), (''response'', RESPONSE)]"

definition messageTypeFromString :: "string \<Rightarrow> MessageType" where
  "messageTypeFromString v = (case map_of type_map v of Some t \<Rightarrow> t | None \<Rightarrow> UNKNOWN_MESSAGE)"

datatype ConnectionRole = UNKNOWN_ROLE | CLIENT | WORKER

definition isClientRequest :: "MessageType \<Rightarrow> bool" where
  "isClientRequest t \<longleftrightarrow>
     t = SUBMIT_TASK \<or> t = QUERY_TASK \<or> t = QUERY_STATUS \<or> t = QUERY_TASKS \<or> t = QUERY_WORKERS
     \<or> t = QUERY_CAPABILITIES \<or> t = QUERY_CATALOG \<or> t = CONTROL_WORKERS \<or> t = CANCEL_TASK
     \<or> t = QUERY_BATCH \<or> t = CANCEL_BATCH \<or> t = QUERY_REGRESSION \<or> t = QUERY_PROGRESS
     \<or> t = QUERY_ROLLBACK \<or> t = QUERY_LOGS \<or> t = READ_LOG"

definition isWorkerRequest :: "MessageType \<Rightarrow> bool" where
  "isWorkerRequest t \<longleftrightarrow>
     t = WORKER_REGISTER \<or> t = WORKER_HEARTBEAT \<or> t = WORKER_RECOVER \<or> t = WORKER_DRAIN
     \<or> t = TASK_START \<or> t = TASK_RESULT \<or> t = LOG_APPEND"

definition isAllowed :: "ConnectionRole \<Rightarrow> MessageType \<Rightarrow> bool" where
  "isAllowed role t =
     (case role of
        UNKNOWN_ROLE \<Rightarrow> isClientRequest t \<or> t = WORKER_REGISTER
      | CLIENT \<Rightarrow> isClientRequest t
      | WORKER \<Rightarrow> isWorkerRequest t)"

section \<open>Envelope\<close>

definition PROTOCOL_VERSION :: u32 where
  "PROTOCOL_VERSION = 1"

record ProtocolMessage =
  pm_version :: u32
  pm_type :: MessageType
  pm_request_id :: u64
  pm_data :: json

definition new_message :: "MessageType \<Rightarrow> u64 \<Rightarrow> json \<Rightarrow> ProtocolMessage" where
  "new_message t i d = \<lparr>pm_version = PROTOCOL_VERSION, pm_type = t, pm_request_id = i, pm_data = d\<rparr>"

datatype ProtocolErrorCode =
    NONE | INVALID_JSON | MISSING_FIELD | INVALID_FIELD_TYPE | INVALID_FIELD_VALUE
  | UNSUPPORTED_VERSION | UNKNOWN_MESSAGE_TYPE

record ProtocolError =
  pe_code :: ProtocolErrorCode
  pe_message :: string

definition perr :: "ProtocolErrorCode \<Rightarrow> string \<Rightarrow> ProtocolError" where
  "perr c m = \<lparr>pe_code = c, pe_message = m\<rparr>"

definition validateEnvelope :: "json \<Rightarrow> ProtocolError + ProtocolMessage" where
  "validateEnvelope j =
     (if \<not> contains j ''version'' then Inl (perr MISSING_FIELD ''Missing required field: version'')
      else if \<not> is_number_unsigned (jget j ''version'')
      then Inl (perr INVALID_FIELD_TYPE ''Invalid field type: version must be unsigned integer'')
      else
        (let version = get_u64 (jget j ''version'') in
         if version \<noteq> ucast PROTOCOL_VERSION
         then Inl (perr UNSUPPORTED_VERSION (''Unsupported protocol version: '' @ dec_of_nat (unat version)))
         else if \<not> contains j ''type'' then Inl (perr MISSING_FIELD ''Missing required field: type'')
         else if \<not> is_string (jget j ''type'')
         then Inl (perr INVALID_FIELD_TYPE ''Invalid field type: type must be string'')
         else
           (let type_str = str_of (jget j ''type''); t = messageTypeFromString type_str in
            if t = UNKNOWN_MESSAGE then Inl (perr UNKNOWN_MESSAGE_TYPE (''Unknown message type: '' @ type_str))
            else if \<not> contains j ''request_id'' then Inl (perr MISSING_FIELD ''Missing required field: request_id'')
            else if \<not> is_number_unsigned (jget j ''request_id'')
            then Inl (perr INVALID_FIELD_TYPE ''Invalid field type: request_id must be unsigned integer'')
            else if \<not> contains j ''data'' then Inl (perr MISSING_FIELD ''Missing required field: data'')
            else if \<not> is_object (jget j ''data'')
            then Inl (perr INVALID_FIELD_TYPE ''Invalid field type: data must be object'')
            else Inr \<lparr>pm_version = ucast version, pm_type = t,
                      pm_request_id = get_u64 (jget j ''request_id''), pm_data = jget j ''data''\<rparr>)))"

definition ProtocolCodec_decode :: "json_codec \<Rightarrow> string \<Rightarrow> ProtocolError + ProtocolMessage" where
  "ProtocolCodec_decode jc json_text =
     (case jparse jc json_text of
        None \<Rightarrow> Inl (perr INVALID_JSON ''JSON parse error: '')
      | Some j \<Rightarrow> validateEnvelope j)"

definition envelope :: "ProtocolMessage \<Rightarrow> json" where
  "envelope m =
     jobject [(''version'', JUnsigned (ucast (pm_version m))), (''type'', JString (message_toString (pm_type m))),
              (''request_id'', JUnsigned (pm_request_id m)), (''data'', pm_data m)]"

definition ProtocolCodec_encode :: "json_codec \<Rightarrow> ProtocolMessage \<Rightarrow> ProtocolError + string" where
  "ProtocolCodec_encode jc m =
     (case jdump jc (envelope m) of
        None \<Rightarrow> Inl (perr INVALID_JSON ''JSON encode error: '')
      | Some s \<Rightarrow> Inr s)"

section \<open>Response\<close>

datatype ResponseCode = OK | INVALID_REQUEST | NOT_FOUND | INVALID_STATE | INTERNAL_ERROR

fun response_code :: "ResponseCode \<Rightarrow> int" where
  "response_code OK = 0"
| "response_code INVALID_REQUEST = 1"
| "response_code NOT_FOUND = 2"
| "response_code INVALID_STATE = 3"
| "response_code INTERNAL_ERROR = 4"

record Response =
  rs_code :: int
  rs_message :: string
  rs_data :: json

definition new_response :: Response where
  "new_response = \<lparr>rs_code = 0, rs_message = [], rs_data = JNull\<rparr>"

definition response_reason :: "int \<Rightarrow> string" where
  "response_reason code =
     (if code = 0 then ''OK''
      else if code = 1 then ''INVALID_REQUEST''
      else if code = 2 then ''NOT_FOUND''
      else if code = 3 then ''INVALID_STATE''
      else ''INTERNAL_ERROR'')"

definition Response_toJson :: "Response \<Rightarrow> json" where
  "Response_toJson v =
     jobject [(''code'', jint (rs_code v)), (''message'', JString (rs_message v)), (''result'', rs_data v),
              (''error_reason'', JString (response_reason (rs_code v)))]"

text \<open>Fields that are missing or of another type leave \<open>out\<close> as it is.\<close>

definition Response_fromJson :: "json \<Rightarrow> Response \<Rightarrow> Response" where
  "Response_fromJson j out =
     (let o1 = (if contains j ''code'' \<and> is_number_integer (jget j ''code'')
                then out\<lparr>rs_code := get_i32 (jget j ''code'')\<rparr> else out);
          o2 = (if contains j ''message'' \<and> is_string (jget j ''message'')
                then o1\<lparr>rs_message := str_of (jget j ''message'')\<rparr> else o1)
      in if contains j ''result'' \<and> is_object (jget j ''result'') then o2\<lparr>rs_data := jget j ''result''\<rparr>
         else if contains j ''data'' \<and> is_object (jget j ''data'') then o2\<lparr>rs_data := jget j ''data''\<rparr>
         else o2)"

section \<open>Facts\<close>

lemma jget_jobject [simp]:
  "jget (jobject kvs) k = (case map_of (rev kvs) k of None \<Rightarrow> JNull | Some v \<Rightarrow> v)"
  by (simp add: jget_def map_of_members_jobject)

lemma type_map_toString: "t \<noteq> UNKNOWN_MESSAGE \<Longrightarrow> map_of type_map (message_toString t) = Some t"
  by (cases t) (simp_all add: type_map_def)

lemma type_map_range: "map_of type_map s = Some t \<Longrightarrow> message_toString t = s \<and> t \<noteq> UNKNOWN_MESSAGE"
  by (auto simp: type_map_def split: if_splits)

lemma messageTypeFromString_known:
  "messageTypeFromString s = t \<and> t \<noteq> UNKNOWN_MESSAGE \<longleftrightarrow> s = message_toString t \<and> t \<noteq> UNKNOWN_MESSAGE"
  using type_map_range [of s] type_map_toString [of t]
  by (auto simp: messageTypeFromString_def split: option.splits)

text \<open>
  The names of message types are a bijection: a string decodes to a known type exactly when
  it is that type's name, so distinct types have distinct names and any other string is unknown.
\<close>

theorem message_names_roundtrip:
  "(messageTypeFromString s = t \<and> t \<noteq> UNKNOWN_MESSAGE) = (s = message_toString t \<and> t \<noteq> UNKNOWN_MESSAGE)
   \<and> messageTypeFromString (message_toString t) = t"
  using messageTypeFromString_known [of s t] type_map_toString [of t]
  by (cases "t = UNKNOWN_MESSAGE") (auto simp: messageTypeFromString_def type_map_def)

text \<open>What a decoded message satisfies, and what decodes.\<close>

lemma validateEnvelope_ok:
  assumes "validateEnvelope j = Inr m"
  shows "pm_version m = PROTOCOL_VERSION" "pm_type m \<noteq> UNKNOWN_MESSAGE" "is_object (pm_data m)"
    "jget j ''type'' = JString (message_toString (pm_type m))" "jget j ''data'' = pm_data m"
proof -
  have ty: "jget j ''type'' = JString (message_toString (pm_type m))" "pm_type m \<noteq> UNKNOWN_MESSAGE"
  proof -
    from assms have s: "is_string (jget j ''type'')" and
      t: "messageTypeFromString (str_of (jget j ''type'')) = pm_type m" "pm_type m \<noteq> UNKNOWN_MESSAGE"
      by (auto simp: validateEnvelope_def Let_def split: if_splits)
    show "pm_type m \<noteq> UNKNOWN_MESSAGE" by (rule t)
    have "str_of (jget j ''type'') = message_toString (pm_type m)" using messageTypeFromString_known t by blast
    with s show "jget j ''type'' = JString (message_toString (pm_type m))" by (cases "jget j ''type''") auto
  qed
  then show "pm_type m \<noteq> UNKNOWN_MESSAGE" "jget j ''type'' = JString (message_toString (pm_type m))" by auto
  from assms show "pm_version m = PROTOCOL_VERSION" "is_object (pm_data m)" "jget j ''data'' = pm_data m"
    by (auto simp: validateEnvelope_def Let_def PROTOCOL_VERSION_def split: if_splits)
qed

lemma validateEnvelope_envelope:
  assumes "pm_type m \<noteq> UNKNOWN_MESSAGE" and "pm_version m = PROTOCOL_VERSION" and "is_object (pm_data m)"
  shows "validateEnvelope (envelope m) = Inr m"
proof -
  have "messageTypeFromString (message_toString (pm_type m)) = pm_type m"
    using messageTypeFromString_known assms(1) by blast
  with assms show ?thesis
    by (cases m) (simp add: validateEnvelope_def envelope_def Let_def PROTOCOL_VERSION_def)
qed

text \<open>
  The envelope round trip: a message of a known type and the current version whose data is an
  object, and whose envelope the text codec preserves, encodes, and decoding the text gives the
  same message back, with its request id and data.
\<close>

theorem envelope_roundtrip:
  assumes "pm_type m \<noteq> UNKNOWN_MESSAGE" and "pm_version m = PROTOCOL_VERSION" and "is_object (pm_data m)"
    and "codec_ok jc (envelope m)"
  shows "\<exists>s. ProtocolCodec_encode jc m = Inr s \<and> ProtocolCodec_decode jc s = Inr m"
proof -
  from assms(4) obtain s where "jdump jc (envelope m) = Some s" "jparse jc s = Some (envelope m)" by (rule codec_okE)
  then show ?thesis
    using validateEnvelope_envelope [OF assms(1-3)]
    by (simp add: ProtocolCodec_encode_def ProtocolCodec_decode_def)
qed

definition echo_codec :: "json \<Rightarrow> json_codec" where
  "echo_codec j = \<lparr>jdump = (\<lambda>x. if x = j then Some ''text'' else None),
     jparse = (\<lambda>s. if s = ''text'' then Some j else None)\<rparr>"

lemma codec_ok_echo: "codec_ok (echo_codec j) j"
  by (simp add: codec_ok_def echo_codec_def nul_free_def)

theorem envelope_roundtrip_witness:
  "\<exists>s. ProtocolCodec_encode (echo_codec (envelope (new_message QUERY_TASK 7 (JObject [])))) (new_message QUERY_TASK 7 (JObject [])) = Inr s
     \<and> ProtocolCodec_decode (echo_codec (envelope (new_message QUERY_TASK 7 (JObject [])))) s = Inr (new_message QUERY_TASK 7 (JObject []))"
  by (rule envelope_roundtrip) (simp_all add: new_message_def codec_ok_echo)

text \<open>
  Roles separate the two protocols: no message type is allowed to both a client and a worker
  connection, a connection without a role may only send a client request or register, and the
  types the server sends (assignments and responses) are allowed to no peer.
\<close>

theorem roles_separate:
  "\<not> (isAllowed CLIENT t \<and> isAllowed WORKER t)
   \<and> (isAllowed UNKNOWN_ROLE t \<longleftrightarrow> isAllowed CLIENT t \<or> t = WORKER_REGISTER)
   \<and> (\<forall>role. \<not> isAllowed role TASK_ASSIGN \<and> \<not> isAllowed role RESPONSE \<and> \<not> isAllowed role UNKNOWN_MESSAGE)
   \<and> (t \<in> {TASK_ASSIGN, RESPONSE, UNKNOWN_MESSAGE} \<or> isAllowed CLIENT t \<or> isAllowed WORKER t)"
  by (cases t) (auto simp: isAllowed_def isClientRequest_def isWorkerRequest_def split: ConnectionRole.split)

lemma get_i32_jint: "- (2 ^ 31) \<le> n \<Longrightarrow> n < 2 ^ 31 \<Longrightarrow> get_i32 (jint n) = n"
proof -
  assume a: "- (2 ^ 31) \<le> n" "n < 2 ^ 31"
  have "ucast (of_int n :: u64) = (of_int n :: u32)" by transfer (simp add: take_bit_take_bit)
  with a show ?thesis by (simp add: get_i32_def jint_def signed_of_int signed_take_bit_int_eq_self)
qed

text \<open>
  A response survives its JSON form: code (a C++ int), message and result are read back as
  they were written; a result that is null stays null.
\<close>

theorem response_roundtrip:
  assumes "- (2 ^ 31) \<le> rs_code v" and "rs_code v < 2 ^ 31" and "is_object (rs_data v) \<or> is_null (rs_data v)"
  shows "Response_fromJson (Response_toJson v) new_response = v"
proof -
  have "is_number_integer (jint (rs_code v))" by (simp add: jint_def)
  with assms get_i32_jint [OF assms(1,2)] show ?thesis
    by (cases v; cases "rs_data v") (auto simp: Response_fromJson_def Response_toJson_def new_response_def Let_def)
qed

theorem response_roundtrip_witness:
  "Response_fromJson (Response_toJson \<lparr>rs_code = - 5, rs_message = ''m'', rs_data = JObject []\<rparr>) new_response
     = \<lparr>rs_code = - 5, rs_message = ''m'', rs_data = JObject []\<rparr>"
  by (rule response_roundtrip) simp_all

end
