(* ===== verification/Dto.thy ===== *)
theory Dto
  imports Protocol Task
begin

text \<open>
  The payloads of the protocol messages: \<^verbatim>\<open>common/src/TaskDTO.cpp\<close>, \<^verbatim>\<open>common/src/WorkerDTO.cpp\<close> and
  \<^verbatim>\<open>common/include/task/RegressionPayload.h\<close>. A \<^verbatim>\<open>fromJson\<close> gives \<open>None\<close> where the code returns
  false (with the error it reports, where it reports one); the output argument is always freshly
  constructed by the callers, so it is not an argument here. Text sizes come from the JSON codec.
\<close>

section \<open>Regression payload\<close>

definition letter :: "char \<Rightarrow> bool" where
  "letter ch \<longleftrightarrow> (CHR ''a'' \<le> ch \<and> ch \<le> CHR ''z'') \<or> (CHR ''A'' \<le> ch \<and> ch \<le> CHR ''Z'')"

definition digit :: "char \<Rightarrow> bool" where
  "digit ch \<longleftrightarrow> CHR ''0'' \<le> ch \<and> ch \<le> CHR ''9''"

definition validFlowConfig :: "json \<Rightarrow> bool" where
  "validFlowConfig flow \<longleftrightarrow>
     is_object flow \<and> \<not> jempty flow \<and> \<not> 64 < jsize flow
     \<and> list_all (\<lambda>(key, v).
          \<not> (key = [] \<or> 64 < length key \<or> \<not> (letter (hd key) \<or> hd key = CHR ''_''))
          \<and> list_all (\<lambda>ch. letter ch \<or> digit ch \<or> ch = CHR ''_'') key
          \<and> is_number_integer v \<and> \<not> (get_i64 v < 0 \<or> 1000000 < get_i64 v)) (members flow)"

definition valid_context :: "json \<Rightarrow> bool" where
  "valid_context context \<longleftrightarrow>
     is_object context \<and> \<not> 6 < jsize context
     \<and> list_all (\<lambda>(key, v).
          key \<in> {''template'', ''suite'', ''batch_id'', ''name'', ''source'', ''date''}
          \<and> is_string v \<and> \<not> 128 < length (str_of v)) (members context)"

definition path_char :: "char \<Rightarrow> bool" where
  "path_char ch \<longleftrightarrow> letter ch \<or> digit ch \<or> ch = CHR ''_'' \<or> ch = CHR ''-'' \<or> ch = CHR ''.''"

lemma tl_dropWhile_shorter: "xs \<noteq> [] \<Longrightarrow> length (tl (dropWhile P xs)) < length xs"
  using length_dropWhile_le [of P xs] by (cases xs) auto

text \<open>
  The loop over the parts of the path, on the text from \<^verbatim>\<open>pos\<close> on: \<open>part\<close> is the text up to the
  next slash, and after a slash the loop goes on behind it.
\<close>

function path_parts_ok :: "string \<Rightarrow> bool" where
  "path_parts_ok rest =
     (if rest = [] then True
      else
        (let part = takeWhile (\<lambda>c. c \<noteq> CHR ''/'') rest; after = dropWhile (\<lambda>c. c \<noteq> CHR ''/'') rest in
         if part = [] \<or> part = ''.'' \<or> part = ''..'' then False
         else if \<not> list_all path_char part then False
         else if after = [] then True
         else path_parts_ok (tl after)))"
  by pat_completeness auto
termination
  by (relation "measure length") (use tl_dropWhile_shorter in \<open>auto simp del: length_tl\<close>)

declare path_parts_ok.simps [simp del]

definition valid_path :: "string \<Rightarrow> bool" where
  "valid_path path \<longleftrightarrow>
     \<not> (path = [] \<or> 512 < length path \<or> hd path = CHR ''/'' \<or> last path = CHR ''/''
        \<or> list_ex (\<lambda>c. c = CHR 0x5C) path
        \<or> list_ex (\<lambda>(a, b). a = CHR ''/'' \<and> b = CHR ''/'') (zip path (tl path))
        \<or> length path < 9 \<or> drop (length path - 8) path \<noteq> ''/run.tcl'')
     \<and> path_parts_ok path"

definition valid_flow :: "string \<Rightarrow> bool" where
  "valid_flow flow \<longleftrightarrow>
     \<not> (flow = [] \<or> 64 < length flow)
     \<and> list_all (\<lambda>ch. letter ch \<or> digit ch \<or> ch = CHR ''_'' \<or> ch = CHR ''-'') flow"

definition valid_spec :: "json \<Rightarrow> bool" where
  "valid_spec p \<longleftrightarrow>
     (if json_eq (jget p ''spec_version'') (jint 1) then jsize p = 4
      else if json_eq (jget p ''spec_version'') (jint 2)
      then \<not> ((jsize p \<noteq> 5 \<and> jsize p \<noteq> 6) \<or> \<not> contains p ''flow_config'' \<or> \<not> validFlowConfig (jget p ''flow_config''))
           \<and> (contains p ''context'' \<longrightarrow> valid_context (jget p ''context''))
      else False)"

text \<open>\<^verbatim>\<open>dump()\<close> throws on text that is not UTF-8.\<close>

definition validRegressionPayload :: "json_codec \<Rightarrow> json \<Rightarrow> exn + bool" where
  "validRegressionPayload jc p =
     (if \<not> is_object p then Inr False
      else case jdump jc p of
        None \<Rightarrow> Inl (Json_error ''dump'')
      | Some text \<Rightarrow>
          Inr (if 4096 < length text then False
               else if jempty p then True
               else if \<not> contains p ''spec_version'' \<or> \<not> contains p ''case'' \<or> \<not> contains p ''flow''
                       \<or> \<not> contains p ''timeout_seconds'' then False
               else if \<not> is_number_integer (jget p ''spec_version'') \<or> \<not> is_string (jget p ''case'')
                       \<or> \<not> is_string (jget p ''flow'') \<or> \<not> is_number_unsigned (jget p ''timeout_seconds'') then False
               else valid_spec p \<and> valid_path (str_of (jget p ''case'')) \<and> valid_flow (str_of (jget p ''flow''))
                    \<and> 1 \<le> get_u64 (jget p ''timeout_seconds'') \<and> get_u64 (jget p ''timeout_seconds'') \<le> 86400))"

section \<open>Task messages\<close>

record SubmitTaskRequest =
  su_task_type :: TaskType
  su_target :: string
  su_revision :: string
  su_priority :: int
  su_payload :: json
  su_submission_key :: string

record TaskStartRequest =
  st_task_id :: u64
  st_worker_id :: string
  st_run_id :: string

record TaskResultRequest =
  re_task_id :: u64
  re_worker_id :: string
  re_run_id :: string
  re_status :: TaskStatus
  re_message :: string

record TaskAssignRequest =
  as_task_id :: u64
  as_run_id :: string
  as_task_type :: TaskType
  as_target :: string
  as_revision :: string
  as_priority :: int
  as_payload :: json

definition taskTypeFromString :: "string \<Rightarrow> TaskType" where
  "taskTypeFromString s =
     (case map_of [(''REGRESSION'', REGRESSION), (''UNKNOWN'', UNKNOWN)] s of Some t \<Rightarrow> t | None \<Rightarrow> UNKNOWN)"

definition taskStatusFromString :: "string \<Rightarrow> TaskStatus" where
  "taskStatusFromString s =
     (case map_of [(''PENDING'', PENDING), (''QUEUED'', QUEUED), (''RUNNING'', RUNNING), (''SUCCEEDED'', SUCCEEDED),
                   (''FAILED'', FAILED), (''TIMEOUT'', TIMEOUT), (''CANCELLED'', CANCELLED)] s of
        Some t \<Rightarrow> t | None \<Rightarrow> PENDING)"

text \<open>A member that must be a string, and the optional priority with its default.\<close>

definition has_string :: "json \<Rightarrow> string \<Rightarrow> bool" where
  "has_string j k \<longleftrightarrow> contains j k \<and> is_string (jget j k)"

definition priority_bad :: "json \<Rightarrow> bool" where
  "priority_bad j \<longleftrightarrow>
     contains j ''priority''
     \<and> (\<not> is_number_integer (jget j ''priority'') \<or> jint_less (jget j ''priority'') (- 100)
        \<or> jint_greater (jget j ''priority'') 100)"

definition priority_of :: "json \<Rightarrow> int" where
  "priority_of j = (if contains j ''priority'' then get_i32 (jget j ''priority'') else 0)"

definition payload_of :: "json \<Rightarrow> json" where
  "payload_of j = (if contains j ''payload'' then jget j ''payload'' else JObject [])"

definition SubmitTaskRequest_fromJson :: "json_codec \<Rightarrow> json \<Rightarrow> exn + SubmitTaskRequest option" where
  "SubmitTaskRequest_fromJson jc j =
     (if \<not> is_object j then Inr None
      else if \<not> list_all (\<lambda>(k, _). k \<in> {''task_type'', ''target'', ''revision'', ''priority'', ''payload'', ''submission_key''})
                 (members j) then Inr None
      else if \<not> has_string j ''task_type'' then Inr None
      else if \<not> has_string j ''target'' then Inr None
      else if str_of (jget j ''target'') = [] then Inr None
      else if \<not> has_string j ''revision'' then Inr None
      else if str_of (jget j ''revision'') = [] then Inr None
      else if priority_bad j then Inr None
      else if contains j ''submission_key''
              \<and> (\<not> is_string (jget j ''submission_key'') \<or> str_of (jget j ''submission_key'') = []
                 \<or> 128 < length (str_of (jget j ''submission_key''))) then Inr None
      else
        (let t = taskTypeFromString (str_of (jget j ''task_type'')) in
         if t = UNKNOWN then Inr None
         else
           rbind (validRegressionPayload jc (payload_of j)) (\<lambda>ok.
             Inr (if ok then
                    Some \<lparr>su_task_type = t, su_target = str_of (jget j ''target''),
                          su_revision = str_of (jget j ''revision''), su_priority = priority_of j,
                          su_payload = payload_of j,
                          su_submission_key = (if contains j ''submission_key'' then str_of (jget j ''submission_key'') else [])\<rparr>
                  else None))))"

definition SubmitTaskRequest_toJson :: "SubmitTaskRequest \<Rightarrow> json" where
  "SubmitTaskRequest_toJson v =
     jobject ([(''task_type'', JString (type_toString (su_task_type v))), (''target'', JString (su_target v)),
               (''revision'', JString (su_revision v)), (''priority'', jint (su_priority v)),
               (''payload'', su_payload v)]
              @ (if su_submission_key v \<noteq> [] then [(''submission_key'', JString (su_submission_key v))] else []))"

text \<open>\<^verbatim>\<open>QueryTaskRequest\<close> and \<^verbatim>\<open>CancelTaskRequest\<close> have one member and the same two functions.\<close>

definition QueryTaskRequest_fromJson :: "json \<Rightarrow> u64 option" where
  "QueryTaskRequest_fromJson j =
     (if \<not> is_object j \<or> jsize j \<noteq> 1 then None
      else if \<not> contains j ''task_id'' \<or> \<not> is_number_unsigned (jget j ''task_id'') then None
      else if 0 < get_u64 (jget j ''task_id'') then Some (get_u64 (jget j ''task_id'')) else None)"

definition QueryTaskRequest_toJson :: "u64 \<Rightarrow> json" where
  "QueryTaskRequest_toJson i = jobject [(''task_id'', JUnsigned i)]"

definition CancelTaskRequest_fromJson :: "json \<Rightarrow> u64 option" where
  "CancelTaskRequest_fromJson j =
     (if \<not> is_object j \<or> jsize j \<noteq> 1 then None
      else if \<not> contains j ''task_id'' \<or> \<not> is_number_unsigned (jget j ''task_id'') then None
      else if 0 < get_u64 (jget j ''task_id'') then Some (get_u64 (jget j ''task_id'')) else None)"

definition CancelTaskRequest_toJson :: "u64 \<Rightarrow> json" where
  "CancelTaskRequest_toJson i = jobject [(''task_id'', JUnsigned i)]"

definition run_id_of :: "json \<Rightarrow> string" where
  "run_id_of j = (if contains j ''run_id'' then str_of (jget j ''run_id'') else [])"

definition TaskStartRequest_fromJson :: "json \<Rightarrow> TaskStartRequest option" where
  "TaskStartRequest_fromJson j =
     (if \<not> contains j ''task_id'' \<or> \<not> is_number_unsigned (jget j ''task_id'') then None
      else if \<not> has_string j ''worker_id'' then None
      else if contains j ''run_id'' \<and> \<not> is_string (jget j ''run_id'') then None
      else Some \<lparr>st_task_id = get_u64 (jget j ''task_id''), st_worker_id = str_of (jget j ''worker_id''),
                 st_run_id = run_id_of j\<rparr>)"

definition TaskStartRequest_toJson :: "TaskStartRequest \<Rightarrow> json" where
  "TaskStartRequest_toJson v =
     jobject ([(''task_id'', JUnsigned (st_task_id v)), (''worker_id'', JString (st_worker_id v))]
              @ (if st_run_id v \<noteq> [] then [(''run_id'', JString (st_run_id v))] else []))"

definition TaskResultRequest_fromJson :: "json \<Rightarrow> ProtocolError + TaskResultRequest" where
  "TaskResultRequest_fromJson j =
     (if \<not> contains j ''task_id'' \<or> \<not> is_number_unsigned (jget j ''task_id'')
      then Inl (perr MISSING_FIELD ''Missing or invalid field: task_id'')
      else if \<not> has_string j ''worker_id'' then Inl (perr MISSING_FIELD ''Missing or invalid field: worker_id'')
      else if contains j ''run_id'' \<and> \<not> is_string (jget j ''run_id'') then Inl (perr NONE [])
      else if \<not> has_string j ''status'' then Inl (perr MISSING_FIELD ''Missing or invalid field: status'')
      else
        (let status_str = str_of (jget j ''status''); status = taskStatusFromString status_str in
         if status \<noteq> SUCCEEDED \<and> status \<noteq> FAILED \<and> status \<noteq> TIMEOUT
         then Inl (perr INVALID_FIELD_VALUE (''Invalid status for TASK_RESULT: '' @ status_str
                     @ '' (must be SUCCEEDED, FAILED, or TIMEOUT)''))
         else Inr \<lparr>re_task_id = get_u64 (jget j ''task_id''), re_worker_id = str_of (jget j ''worker_id''),
                   re_run_id = run_id_of j, re_status = status,
                   re_message = (if has_string j ''message'' then str_of (jget j ''message'') else [])\<rparr>))"

definition TaskResultRequest_toJson :: "TaskResultRequest \<Rightarrow> json" where
  "TaskResultRequest_toJson v =
     jobject ([(''task_id'', JUnsigned (re_task_id v)), (''worker_id'', JString (re_worker_id v))]
              @ (if re_run_id v \<noteq> [] then [(''run_id'', JString (re_run_id v))] else [])
              @ [(''status'', JString (toString (re_status v))), (''message'', JString (re_message v))])"

definition TaskAssignRequest_fromJson :: "json_codec \<Rightarrow> json \<Rightarrow> exn + TaskAssignRequest option" where
  "TaskAssignRequest_fromJson jc j =
     (if \<not> contains j ''task_id'' \<or> \<not> is_number_unsigned (jget j ''task_id'') then Inr None
      else if contains j ''run_id'' \<and> \<not> is_string (jget j ''run_id'') then Inr None
      else if get_u64 (jget j ''task_id'') = 0 then Inr None
      else if \<not> has_string j ''task_type'' then Inr None
      else if taskTypeFromString (str_of (jget j ''task_type'')) = UNKNOWN then Inr None
      else if \<not> has_string j ''target'' \<or> str_of (jget j ''target'') = [] then Inr None
      else if \<not> has_string j ''revision'' \<or> str_of (jget j ''revision'') = [] then Inr None
      else if priority_bad j then Inr None
      else
        rbind (validRegressionPayload jc (payload_of j)) (\<lambda>ok.
          Inr (if ok then
                 Some \<lparr>as_task_id = get_u64 (jget j ''task_id''), as_run_id = run_id_of j,
                       as_task_type = taskTypeFromString (str_of (jget j ''task_type'')),
                       as_target = str_of (jget j ''target''), as_revision = str_of (jget j ''revision''),
                       as_priority = priority_of j, as_payload = payload_of j\<rparr>
               else None)))"

definition TaskAssignRequest_toJson :: "TaskAssignRequest \<Rightarrow> json" where
  "TaskAssignRequest_toJson v =
     jobject ([(''task_id'', JUnsigned (as_task_id v))]
              @ (if as_run_id v \<noteq> [] then [(''run_id'', JString (as_run_id v))] else [])
              @ [(''task_type'', JString (type_toString (as_task_type v))), (''target'', JString (as_target v)),
                 (''revision'', JString (as_revision v)), (''priority'', jint (as_priority v)),
                 (''payload'', as_payload v)])"

section \<open>Worker messages\<close>

record WorkerRegisterRequest =
  wr_worker_id :: string
  wr_hostname :: string
  wr_machine_id :: string
  wr_slot_id :: string
  wr_explicit_identity :: bool
  wr_control_v1 :: bool
  wr_slots :: u32

definition bad_identity :: "json \<Rightarrow> string \<Rightarrow> bool" where
  "bad_identity j field \<longleftrightarrow>
     contains j field
     \<and> (\<not> is_string (jget j field) \<or> str_of (jget j field) = [] \<or> 64 < length (str_of (jget j field)))"

definition WorkerRegisterRequest_fromJson :: "json \<Rightarrow> ProtocolError + WorkerRegisterRequest" where
  "WorkerRegisterRequest_fromJson j =
     (if \<not> has_string j ''worker_id'' then Inl (perr MISSING_FIELD ''Missing or invalid field: worker_id'')
      else if str_of (jget j ''worker_id'') = [] then Inl (perr INVALID_FIELD_VALUE ''worker_id cannot be empty'')
      else if \<not> has_string j ''hostname'' then Inl (perr MISSING_FIELD ''Missing or invalid field: hostname'')
      else if str_of (jget j ''hostname'') = [] then Inl (perr INVALID_FIELD_VALUE ''hostname cannot be empty'')
      else if contains j ''machine_id'' \<noteq> contains j ''slot_id''
      then Inl (perr MISSING_FIELD ''machine_id and slot_id must be supplied together'')
      else if bad_identity j ''machine_id'' then Inl (perr INVALID_FIELD_VALUE (''invalid field: '' @ ''machine_id''))
      else if bad_identity j ''slot_id'' then Inl (perr INVALID_FIELD_VALUE (''invalid field: '' @ ''slot_id''))
      else if contains j ''slots'' \<and> is_number_unsigned (jget j ''slots'') then
        (let slots = get_u64 (jget j ''slots'') in
         if slots = 0 \<or> 2 ^ 32 - 1 < slots then Inl (perr INVALID_FIELD_VALUE ''slots must be greater than 0'')
         else if contains j ''control_version''
                 \<and> (\<not> is_number_unsigned (jget j ''control_version'')
                    \<or> \<not> json_eq (jget j ''control_version'') (jint 1) \<or> ucast slots \<noteq> (1 :: u32))
         then Inl (perr NONE ''control v1 requires a single-slot Worker'')
         else
           (let explicit_identity = contains j ''machine_id'' in
            Inr \<lparr>wr_worker_id = str_of (jget j ''worker_id''), wr_hostname = str_of (jget j ''hostname''),
                 wr_machine_id = (if explicit_identity then str_of (jget j ''machine_id'') else []),
                 wr_slot_id = (if explicit_identity then str_of (jget j ''slot_id'') else []),
                 wr_explicit_identity = explicit_identity,
                 wr_control_v1 = contains j ''control_version'', wr_slots = ucast slots\<rparr>))
      else Inl (perr MISSING_FIELD ''Missing or invalid field: slots''))"

definition WorkerRegisterRequest_toJson :: "WorkerRegisterRequest \<Rightarrow> json" where
  "WorkerRegisterRequest_toJson v =
     jobject ([(''worker_id'', JString (wr_worker_id v)), (''hostname'', JString (wr_hostname v))]
              @ (if wr_explicit_identity v
                 then [(''machine_id'', JString (wr_machine_id v)), (''slot_id'', JString (wr_slot_id v))] else [])
              @ [(''slots'', JUnsigned (ucast (wr_slots v)))]
              @ (if wr_control_v1 v then [(''control_version'', jint 1)] else []))"

definition WorkerHeartbeatRequest_fromJson :: "json \<Rightarrow> string option" where
  "WorkerHeartbeatRequest_fromJson j =
     (if \<not> has_string j ''worker_id'' then None
      else if str_of (jget j ''worker_id'') = [] then None else Some (str_of (jget j ''worker_id'')))"

definition WorkerHeartbeatRequest_toJson :: "string \<Rightarrow> json" where
  "WorkerHeartbeatRequest_toJson w = jobject [(''worker_id'', JString w)]"

end
