(* ===== verification/DtoFacts.thy ===== *)
theory DtoFacts
  imports Dto
begin

text \<open>
  What the validation of requests guarantees: the path check is equivalent to a check on the
  components of the path, accepted requests are within their limits, and requests survive being
  written as JSON, also when the server forwards a submitted task to a worker.
\<close>

section \<open>Paths\<close>

fun split_slash :: "string \<Rightarrow> string list" where
  "split_slash [] = [[]]"
| "split_slash (c # cs) =
     (if c = CHR ''/'' then [] # split_slash cs
      else (case split_slash cs of [] \<Rightarrow> [[c]] | p # ps \<Rightarrow> (c # p) # ps))"

text \<open>A component that names a file or directory below the current one.\<close>

definition safe_part :: "string \<Rightarrow> bool" where
  "safe_part p \<longleftrightarrow> p \<noteq> [] \<and> p \<noteq> ''.'' \<and> p \<noteq> ''..'' \<and> list_all path_char p"

lemma split_slash_nonempty [simp]: "split_slash s \<noteq> []"
  by (induction s) (auto split: list.splits)

lemma split_slash_while:
  "split_slash s = takeWhile (\<lambda>c. c \<noteq> CHR ''/'') s
     # (case dropWhile (\<lambda>c. c \<noteq> CHR ''/'') s of [] \<Rightarrow> [] | _ # r \<Rightarrow> split_slash r)"
  by (induction s) (auto split: list.splits)

lemma path_parts_ok_split:
  assumes "s \<noteq> []" and "last s \<noteq> CHR ''/''"
  shows "path_parts_ok s \<longleftrightarrow> list_all safe_part (split_slash s)"
  using assms
proof (induction s rule: path_parts_ok.induct)
  case (1 s)
  define part where "part = takeWhile (\<lambda>c. c \<noteq> CHR ''/'') s"
  define after where "after = dropWhile (\<lambda>c. c \<noteq> CHR ''/'') s"
  have sp: "split_slash s = part # (case after of [] \<Rightarrow> [] | _ # r \<Rightarrow> split_slash r)"
    unfolding part_def after_def by (rule split_slash_while)
  have s: "s = part @ after" by (simp add: part_def after_def)
  show ?case
  proof (cases "safe_part part \<and> after \<noteq> []")
    case False
    with 1(2) sp show ?thesis
      by (subst path_parts_ok.simps)
         (auto simp: Let_def part_def [symmetric] after_def [symmetric] safe_part_def split: list.splits)
  next
    case True
    then obtain c r where after: "after = c # r" by (cases after) auto
    have c: "c = CHR ''/''" using after by (simp add: after_def dropWhile_eq_Cons_conv)
    have r: "r \<noteq> []" "last r \<noteq> CHR ''/''" using 1(3) s after c by (auto split: if_splits)
    have "path_parts_ok s = path_parts_ok r"
      using True after 1(2)
      by (subst path_parts_ok.simps) (simp add: Let_def part_def [symmetric] after_def [symmetric] safe_part_def)
    also have "\<dots> = list_all safe_part (split_slash r)"
      using 1(1) [OF 1(2) part_def after_def] after r True [unfolded safe_part_def] by simp
    finally show ?thesis using sp after True by simp
  qed
qed

lemma split_slash_append: "split_slash (s @ CHR ''/'' # t) = split_slash s @ split_slash t"
  by (induction s) (auto split: list.splits)

lemma split_slash_join: "split_slash s = ps @ [p] \<Longrightarrow> ps \<noteq> [] \<Longrightarrow> \<exists>t. s = t @ CHR ''/'' # p \<and> split_slash t = ps"
proof (induction s arbitrary: ps)
  case (Cons c cs)
  show ?case
  proof (cases "c = CHR ''/''")
    case True
    with Cons.prems obtain ps' where ps: "ps = [] # ps'" "split_slash cs = ps' @ [p]" by (cases ps) auto
    show ?thesis
    proof (cases "ps' = []")
      case True
      with ps \<open>c = CHR ''/''\<close> have "split_slash cs = [p]" by simp
      then have "CHR ''/'' \<notin> set cs \<and> cs = p" by (induction cs arbitrary: p) (auto split: if_splits list.splits)
      with True ps \<open>c = CHR ''/''\<close> show ?thesis by (intro exI [of _ "[]"]) auto
    next
      case False
      from Cons.IH [OF ps(2) False] obtain t where "cs = t @ CHR ''/'' # p" "split_slash t = ps'" by blast
      with True ps show ?thesis by (intro exI [of _ "c # t"]) auto
    qed
  next
    case False
    then obtain q qs where q: "split_slash cs = q # qs" by (meson list.exhaust split_slash_nonempty)
    with Cons.prems False obtain ps' where ps: "ps = (c # q) # ps'" "qs = ps' @ [p]" by (cases ps) auto
    with Cons.IH [of "q # ps'"] q obtain t where "cs = t @ CHR ''/'' # p" "split_slash t = q # ps'" by auto
    with False ps show ?thesis by (intro exI [of _ "c # t"]) auto
  qed
qed simp

lemma split_slash_set: "set s \<subseteq> insert (CHR ''/'') (\<Union> (set ` set (split_slash s)))"
proof (induction s)
  case (Cons c cs)
  obtain p ps where "split_slash cs = p # ps" by (meson list.exhaust split_slash_nonempty)
  with Cons show ?case by (simp add: subset_iff) blast
qed simp

lemma split_slash_chars:
  assumes "list_all safe_part (split_slash s)" and "c \<in> set s"
  shows "c = CHR ''/'' \<or> path_char c"
  using assms split_slash_set [of s] by (fastforce simp: list_all_iff safe_part_def)

lemma zip_tl_split: "(a, b) \<in> set (zip s (tl s)) \<Longrightarrow> \<exists>x y. s = x @ a # b # y"
proof (induction s)
  case (Cons c cs)
  show ?case
  proof (cases cs)
    case (Cons d ds)
    with \<open>(a, b) \<in> set (zip (c # cs) (tl (c # cs)))\<close> have "(a, b) = (c, d) \<or> (a, b) \<in> set (zip cs (tl cs))" by auto
    then show ?thesis
    proof
      assume "(a, b) = (c, d)"
      with Cons show ?thesis by (intro exI [of _ "[]"] exI [of _ ds]) simp
    next
      assume "(a, b) \<in> set (zip cs (tl cs))"
      then obtain x y where "cs = x @ a # b # y" using Cons.IH by blast
      then show ?thesis by (intro exI [of _ "c # x"] exI [of _ y]) simp
    qed
  qed (use Cons.prems in simp)
qed simp

lemma split_slash_no_double:
  assumes "list_all safe_part (split_slash s)" and "(a, b) \<in> set (zip s (tl s))"
  shows "\<not> (a = CHR ''/'' \<and> b = CHR ''/'')"
proof
  assume "a = CHR ''/'' \<and> b = CHR ''/''"
  with zip_tl_split [OF assms(2)] obtain x y where "s = x @ CHR ''/'' # (CHR ''/'' # y)" by auto
  then have "[] \<in> set (split_slash s)" by (simp only: split_slash_append) simp
  with assms(1) show False by (auto simp: list_all_iff safe_part_def)
qed

text \<open>
  The path check of a regression payload is exactly a check of the components: a path is
  accepted if and only if it has at most 512 bytes, at least one directory, the file name
  \<^verbatim>\<open>run.tcl\<close>, and every component is non-empty, neither \<^verbatim>\<open>.\<close> nor \<^verbatim>\<open>..\<close>, and made of letters, digits,
  \<^verbatim>\<open>_\<close>, \<^verbatim>\<open>-\<close> and \<^verbatim>\<open>.\<close> only. So an accepted path is relative and never leaves the directory it is
  resolved in.
\<close>

theorem valid_path_components:
  "valid_path p \<longleftrightarrow>
     length p \<le> 512 \<and> 2 \<le> length (split_slash p) \<and> last (split_slash p) = ''run.tcl''
     \<and> list_all (\<lambda>part. part \<noteq> [] \<and> part \<noteq> ''.'' \<and> part \<noteq> ''..'' \<and> list_all path_char part) (split_slash p)"
  (is "_ \<longleftrightarrow> ?R")
proof -
  have R: "?R \<longleftrightarrow> length p \<le> 512 \<and> 2 \<le> length (split_slash p) \<and> last (split_slash p) = ''run.tcl''
      \<and> list_all safe_part (split_slash p)"
    by (simp add: safe_part_def [abs_def])
  have "?R" if v: "valid_path p"
  proof -
    have p: "p \<noteq> []" "last p \<noteq> CHR ''/''" "length p \<le> 512" "9 \<le> length p"
      "drop (length p - 8) p = ''/run.tcl''" "path_parts_ok p"
      using v by (auto simp: valid_path_def)
    define t where "t = take (length p - 8) p"
    have "p = t @ CHR ''/'' # ''run.tcl''" using p(5) append_take_drop_id [of "length p - 8" p] by (simp add: t_def)
    then have sp: "split_slash p = split_slash t @ [''run.tcl'']" by (simp only: split_slash_append) simp
    moreover have "list_all safe_part (split_slash p)" using path_parts_ok_split [OF p(1,2)] p(6) by simp
    ultimately show ?thesis unfolding R using p(3) by (cases "split_slash t") auto
  qed
  moreover have "valid_path p" if r: "?R"
  proof -
    from r have safe: "list_all safe_part (split_slash p)" unfolding R by blast
    from r obtain ps where ps: "split_slash p = ps @ [''run.tcl'']" "ps \<noteq> []"
      by (metis (no_types, lifting) append_butlast_last_id length_append_singleton list.size(3) not_less_eq_eq
          numeral_2_eq_2 one_add_one order_refl plus_1_eq_Suc split_slash_nonempty append_Nil le_zero_eq nat.distinct(1))
    from split_slash_join [OF ps] obtain t where t: "p = t @ CHR ''/'' # ''run.tcl''" "split_slash t = ps" by blast
    have st: "list_all safe_part (split_slash t)" using safe ps t by simp
    then have ne: "t \<noteq> []" by (auto simp: safe_part_def)
    have hd: "hd p \<noteq> CHR ''/''" using st ne t(1) by (cases t) (auto simp: safe_part_def)
    have "path_char c \<Longrightarrow> c \<noteq> CHR 0x5C" for c
      by (auto simp: path_char_def letter_def digit_def)
    then have bs: "\<not> list_ex (\<lambda>c. c = CHR 0x5C) p"
      using split_slash_chars [OF safe] by (fastforce simp: list_ex_iff)
    have "path_parts_ok p" using path_parts_ok_split [of p] safe t(1) by simp
    then show ?thesis
      using r t(1) ne hd bs split_slash_no_double [OF safe]
      by (auto simp: valid_path_def list_ex_iff)
  qed
  ultimately show ?thesis by blast
qed

section \<open>Requests\<close>

lemma get_i32_small:
  assumes "- (2 ^ 31) \<le> get_i64 j" and "get_i64 j < 2 ^ 31"
  shows "get_i32 j = get_i64 j"
proof -
  have "get_u64 j = of_int (get_i64 j)" by (simp add: get_i64_def)
  then have "get_i32 j = get_i32 (jint (get_i64 j))" by (simp add: get_i32_def jint_def)
  with assms show ?thesis by (simp add: get_i32_jint)
qed

lemma priority_range: "\<not> priority_bad j \<Longrightarrow> - 100 \<le> priority_of j \<and> priority_of j \<le> 100"
  using get_i32_small [of "jget j ''priority''"]
  by (auto simp: priority_bad_def priority_of_def jint_less_def jint_greater_def)

lemma priority_jint:
  assumes "- 100 \<le> p" and "p \<le> 100" and "contains j ''priority''" and "jget j ''priority'' = jint p"
  shows "\<not> priority_bad j" "priority_of j = p"
proof -
  have "get_i64 (jint p) = p" by (rule get_i64_jint) (use assms in simp_all)
  moreover have "get_i32 (jint p) = p" by (rule get_i32_jint) (use assms in simp_all)
  ultimately show "\<not> priority_bad j" "priority_of j = p"
    using assms by (simp_all add: priority_bad_def priority_of_def jint_less_def jint_greater_def)
       (simp add: jint_def)
qed

lemma submit_accepted:
  assumes "SubmitTaskRequest_fromJson jc j = Inr (Some r)"
  shows "su_task_type r = REGRESSION" "su_target r \<noteq> []" "su_revision r \<noteq> []"
    "- 100 \<le> su_priority r" "su_priority r \<le> 100" "length (su_submission_key r) \<le> 128"
    "validRegressionPayload jc (su_payload r) = Inr True"
proof -
  have ty: "t = REGRESSION" if "t \<noteq> UNKNOWN" for t using that by (cases t) auto
  have "\<not> priority_bad j" "su_priority r = priority_of j"
    using assms by (auto simp: SubmitTaskRequest_fromJson_def Let_def rbind_Inr_iff split: if_splits)
  with priority_range show "- 100 \<le> su_priority r" "su_priority r \<le> 100" by auto
  show "su_task_type r = REGRESSION" "su_target r \<noteq> []" "su_revision r \<noteq> []"
    "length (su_submission_key r) \<le> 128" "validRegressionPayload jc (su_payload r) = Inr True"
    using assms ty by (auto simp: SubmitTaskRequest_fromJson_def Let_def rbind_Inr_iff split: if_splits)
qed

text \<open>
  What number the JSON gave as priority: the one read, or, for an unsigned number of at least 2^64 - 100, the one
  read plus 2^64.
\<close>

definition priority_given :: "json \<Rightarrow> int \<Rightarrow> bool" where
  "priority_given j p \<longleftrightarrow>
     (if \<not> contains j ''priority'' then p = 0
      else case jget j ''priority'' of
        JInteger w \<Rightarrow> sint w = p
      | JUnsigned w \<Rightarrow> uint w = p \<or> 2 ^ 64 - 100 \<le> uint w \<and> uint w = p + 2 ^ 64
      | _ \<Rightarrow> False)"

lemma sint_uint_u64: "sint (w :: u64) = (if uint w < 2 ^ 63 then uint w else uint w - 2 ^ 64)"
proof -
  have "sint w = signed_take_bit 63 (uint w)" by (simp add: sint_uint)
  also have "\<dots> = (uint w + 2 ^ 63) mod 2 ^ 64 - 2 ^ 63" by (simp add: signed_take_bit_eq_take_bit_shift take_bit_eq_mod)
  also have "\<dots> = (if uint w < 2 ^ 63 then uint w else uint w - 2 ^ 64)"
    using uint_ge_0 [of w] uint_lt2p [of w] mod_add_self2 [of "uint w - 2 ^ 63" "2 ^ 64"] by (auto simp: mod_pos_pos_trivial add.commute)
  finally show ?thesis .
qed

lemma priority_given_of:
  assumes "\<not> priority_bad j"
  shows "priority_given j (priority_of j)"
proof (cases "contains j ''priority''")
  case True
  let ?p = "jget j ''priority''"
  have r: "is_number_integer ?p" "- 100 \<le> get_i64 ?p" "get_i64 ?p \<le> 100"
    using assms True by (auto simp: priority_bad_def jint_less_def jint_greater_def)
  then have "priority_of j = get_i64 ?p" using get_i32_small [of ?p] True by (simp add: priority_of_def)
  with r True show ?thesis
    by (cases ?p) (auto simp: priority_given_def get_i64_def sint_uint_u64 split: if_splits)
qed (simp add: priority_given_def priority_of_def)

text \<open>
  C39. The request the submission decoder returns is within its limits, whatever JSON arrives, integers of any
  size included: task type REGRESSION, target and revision not empty, priority between -100 and 100,
  submission key of at most 128 bytes, payload of at most 4096 bytes of JSON and, unless it is
  the empty legacy payload, with a safe relative path and a timeout of 1 to 86400 seconds. Its priority is the number
  in the JSON, or 0 when there is none, but an unsigned number from 2^64 - 100 on is read as a negative one.
\<close>

theorem submit_within_limits:
  assumes "SubmitTaskRequest_fromJson jc j = Inr (Some r)"
  shows "su_task_type r = REGRESSION \<and> su_target r \<noteq> [] \<and> su_revision r \<noteq> []
    \<and> - 100 \<le> su_priority r \<and> su_priority r \<le> 100 \<and> priority_given j (su_priority r) \<and> length (su_submission_key r) \<le> 128
    \<and> (\<exists>text. jdump jc (su_payload r) = Some text \<and> length text \<le> 4096)
    \<and> (\<not> jempty (su_payload r) \<longrightarrow>
         valid_path (str_of (jget (su_payload r) ''case''))
         \<and> 1 \<le> get_u64 (jget (su_payload r) ''timeout_seconds'')
         \<and> get_u64 (jget (su_payload r) ''timeout_seconds'') \<le> 86400)"
proof -
  have "\<not> priority_bad j" "su_priority r = priority_of j"
    using assms by (auto simp: SubmitTaskRequest_fromJson_def Let_def rbind_Inr_iff split: if_splits)
  then have "priority_given j (su_priority r)" using priority_given_of by simp
  with submit_accepted [OF assms] show ?thesis by (auto simp: validRegressionPayload_def split: if_splits option.splits)
qed

definition limit_codec :: json_codec where
  "limit_codec = \<lparr>jdump = (\<lambda>j. Some ''{}''), jparse = (\<lambda>s. Some (JObject []))\<rparr>"

text \<open>A regression of a case with a timeout, and a submission whose priority wraps around.\<close>

definition demo_submission :: json where
  "demo_submission = jobject [(''task_type'', JString ''REGRESSION''), (''target'', JString ''t''),
     (''revision'', JString ''r''), (''priority'', JUnsigned 7),
     (''payload'', jobject [(''spec_version'', JUnsigned 1), (''case'', JString ''suite/run.tcl''), (''flow'', JString ''quick''),
        (''timeout_seconds'', JUnsigned 60)])]"

definition wrapping_submission :: json where
  "wrapping_submission = jset demo_submission ''priority'' (JUnsigned (2 ^ 64 - 1))"

lemma demo_submission_accepted:
  "case SubmitTaskRequest_fromJson limit_codec demo_submission of
     Inr (Some r) \<Rightarrow> su_priority r = 7 \<and> \<not> jempty (su_payload r) | _ \<Rightarrow> False"
  by code_simp

theorem submit_within_limits_witness:
  "\<exists>r. SubmitTaskRequest_fromJson limit_codec demo_submission = Inr (Some r) \<and> su_priority r = 7 \<and> priority_given demo_submission 7
     \<and> valid_path (str_of (jget (su_payload r) ''case'')) \<and> get_u64 (jget (su_payload r) ''timeout_seconds'') \<le> 86400"
proof -
  from demo_submission_accepted obtain r where r: "SubmitTaskRequest_fromJson limit_codec demo_submission = Inr (Some r)"
    "su_priority r = 7" "\<not> jempty (su_payload r)" by (auto split: sum.splits option.splits)
  with submit_within_limits [OF r(1)] show ?thesis by auto
qed

text \<open>The number 2^64 - 1 is accepted, as the priority -1.\<close>

theorem wrapped_priority_accepted:
  "\<exists>r. SubmitTaskRequest_fromJson limit_codec wrapping_submission = Inr (Some r) \<and> su_priority r = - 1
     \<and> jget wrapping_submission ''priority'' = JUnsigned (2 ^ 64 - 1)"
proof -
  have "case SubmitTaskRequest_fromJson limit_codec wrapping_submission of
      Inr (Some r) \<Rightarrow> su_priority r = - 1 \<and> jget wrapping_submission ''priority'' = JUnsigned (2 ^ 64 - 1) | _ \<Rightarrow> False"
    by code_simp
  then show ?thesis by (auto split: sum.splits option.splits)
qed

lemma taskTypeFromString_REGRESSION: "taskTypeFromString ''REGRESSION'' = REGRESSION"
  by (simp add: taskTypeFromString_def)

text \<open>
  C38. What a client submits is what a worker receives: the assignment built from an accepted
  submission (with any non-zero task id and any run id) is accepted by the worker's decoder,
  which reads back the same id, run, target, revision, priority and payload; and writing the
  submission itself as JSON and reading it again gives the same submission.
\<close>

theorem submission_reaches_worker:
  assumes "SubmitTaskRequest_fromJson jc j = Inr (Some r)" and "i \<noteq> 0"
  shows "TaskAssignRequest_fromJson jc (TaskAssignRequest_toJson
          \<lparr>as_task_id = i, as_run_id = run, as_task_type = su_task_type r, as_target = su_target r,
           as_revision = su_revision r, as_priority = su_priority r, as_payload = su_payload r\<rparr>)
        = Inr (Some \<lparr>as_task_id = i, as_run_id = run, as_task_type = su_task_type r, as_target = su_target r,
           as_revision = su_revision r, as_priority = su_priority r, as_payload = su_payload r\<rparr>)
    \<and> SubmitTaskRequest_fromJson jc (SubmitTaskRequest_toJson r) = Inr (Some r)"
proof
  note A = submit_accepted [OF assms(1)]
  let ?a = "\<lparr>as_task_id = i, as_run_id = run, as_task_type = su_task_type r, as_target = su_target r,
           as_revision = su_revision r, as_priority = su_priority r, as_payload = su_payload r\<rparr>"
  define ja where "ja = TaskAssignRequest_toJson ?a"
  have ja: "contains ja ''priority''" "jget ja ''priority'' = jint (su_priority r)"
    by (simp_all add: ja_def TaskAssignRequest_toJson_def)
  have rest: "contains ja ''task_id''" "jget ja ''task_id'' = JUnsigned i"
    "contains ja ''run_id'' \<longleftrightarrow> run \<noteq> []" "run \<noteq> [] \<Longrightarrow> jget ja ''run_id'' = JString run"
    "has_string ja ''task_type''" "str_of (jget ja ''task_type'') = type_toString REGRESSION"
    "has_string ja ''target''" "str_of (jget ja ''target'') = su_target r"
    "has_string ja ''revision''" "str_of (jget ja ''revision'') = su_revision r"
    "payload_of ja = su_payload r"
    using A(1) by (auto simp: ja_def TaskAssignRequest_toJson_def has_string_def payload_of_def)
  have "TaskAssignRequest_fromJson jc ja = Inr (Some ?a)"
    using A rest priority_jint [OF A(4,5) ja] assms(2)
    by (auto simp: TaskAssignRequest_fromJson_def run_id_of_def taskTypeFromString_REGRESSION)
  then show "TaskAssignRequest_fromJson jc (TaskAssignRequest_toJson ?a) = Inr (Some ?a)" by (simp add: ja_def)
  define js where "js = SubmitTaskRequest_toJson r"
  have js: "contains js ''priority''" "jget js ''priority'' = jint (su_priority r)"
    by (simp_all add: js_def SubmitTaskRequest_toJson_def)
  have keys: "is_object js" "list_all (\<lambda>(k, _). k \<in> {''task_type'', ''target'', ''revision'', ''priority'', ''payload'', ''submission_key''}) (members js)"
    by (simp_all add: js_def SubmitTaskRequest_toJson_def)
       (auto simp: list_all_iff jobject_def)
  have rest: "contains js ''submission_key'' \<longleftrightarrow> su_submission_key r \<noteq> []"
    "su_submission_key r \<noteq> [] \<Longrightarrow> jget js ''submission_key'' = JString (su_submission_key r)"
    "has_string js ''task_type''" "str_of (jget js ''task_type'') = type_toString REGRESSION"
    "has_string js ''target''" "str_of (jget js ''target'') = su_target r"
    "has_string js ''revision''" "str_of (jget js ''revision'') = su_revision r"
    "payload_of js = su_payload r"
    using A(1) by (auto simp: js_def SubmitTaskRequest_toJson_def has_string_def payload_of_def)
  have "SubmitTaskRequest_fromJson jc js = Inr (Some r)"
    using A keys rest priority_jint [OF A(4,5) js]
    by (cases r) (auto simp: SubmitTaskRequest_fromJson_def taskTypeFromString_REGRESSION)
  then show "SubmitTaskRequest_fromJson jc (SubmitTaskRequest_toJson r) = Inr (Some r)" by (simp add: js_def)
qed

theorem submission_reaches_worker_witness:
  "\<exists>r. SubmitTaskRequest_fromJson limit_codec demo_submission = Inr (Some r)
     \<and> SubmitTaskRequest_fromJson limit_codec (SubmitTaskRequest_toJson r) = Inr (Some r)"
proof -
  define x where "x = SubmitTaskRequest_fromJson limit_codec demo_submission"
  have "case x of Inr (Some r) \<Rightarrow> True | _ \<Rightarrow> False" unfolding x_def by code_simp
  then obtain r where r: "SubmitTaskRequest_fromJson limit_codec demo_submission = Inr (Some r)"
    unfolding x_def by (auto simp: x_def split: sum.splits option.splits)
  then show ?thesis using submission_reaches_worker [OF r, of 1] by simp
qed

text \<open>Reports of a worker survive their JSON form.\<close>

lemma start_roundtrip: "TaskStartRequest_fromJson (TaskStartRequest_toJson v) = Some v"
  by (cases v) (auto simp: TaskStartRequest_fromJson_def TaskStartRequest_toJson_def has_string_def run_id_of_def)

lemma result_roundtrip:
  assumes "re_status v \<in> {SUCCEEDED, FAILED, TIMEOUT}"
  shows "TaskResultRequest_fromJson (TaskResultRequest_toJson v) = Inr v"
proof -
  define j where "j = TaskResultRequest_toJson v"
  have J: "contains j ''task_id''" "jget j ''task_id'' = JUnsigned (re_task_id v)"
    "has_string j ''worker_id''" "jget j ''worker_id'' = JString (re_worker_id v)"
    "contains j ''run_id'' \<longleftrightarrow> re_run_id v \<noteq> []" "re_run_id v \<noteq> [] \<Longrightarrow> jget j ''run_id'' = JString (re_run_id v)"
    "has_string j ''status''" "jget j ''status'' = JString (toString (re_status v))"
    "has_string j ''message''" "jget j ''message'' = JString (re_message v)"
    by (auto simp: j_def TaskResultRequest_toJson_def has_string_def)
  have "taskStatusFromString (toString (re_status v)) = re_status v"
    using assms by (auto simp: taskStatusFromString_def)
  then show ?thesis
    using J assms unfolding j_def [symmetric] by (cases v) (auto simp: TaskResultRequest_fromJson_def run_id_of_def Let_def)
qed

text \<open>A task result the decoder accepts always carries a final status.\<close>

lemma result_accepted:
  "TaskResultRequest_fromJson j = Inr v \<Longrightarrow> re_status v = SUCCEEDED \<or> re_status v = FAILED \<or> re_status v = TIMEOUT"
  by (auto simp: TaskResultRequest_fromJson_def Let_def split: if_splits)

text \<open>
  C40. A worker registration the decoder accepts is well-formed for any JSON: worker id and host
  name are not empty, the slot count is between 1 and 2^32 - 1 and is the number that was sent
  (no truncation), machine and slot id come together with 1 to 64 bytes each, and a worker with
  controls has exactly one slot. Reports of a task result always carry a final status.
\<close>

theorem registration_wellformed:
  assumes "WorkerRegisterRequest_fromJson j = Inr v"
  shows "wr_worker_id v \<noteq> [] \<and> wr_hostname v \<noteq> [] \<and> wr_slots v \<noteq> 0
    \<and> unat (wr_slots v) = unat (get_u64 (jget j ''slots''))
    \<and> (wr_explicit_identity v \<longrightarrow> wr_machine_id v \<noteq> [] \<and> length (wr_machine_id v) \<le> 64
        \<and> wr_slot_id v \<noteq> [] \<and> length (wr_slot_id v) \<le> 64)
    \<and> (\<not> wr_explicit_identity v \<longrightarrow> wr_machine_id v = [] \<and> wr_slot_id v = [])
    \<and> (wr_control_v1 v \<longrightarrow> wr_slots v = 1)"
proof -
  define n where "n = get_u64 (jget j ''slots'')"
  have n: "n \<noteq> 0" "\<not> 2 ^ 32 - 1 < n" "wr_slots v = ucast n"
    using assms by (auto simp: WorkerRegisterRequest_fromJson_def Let_def n_def split: if_splits)
  have "unat n < 2 ^ 32" using n(2) by (simp add: word_less_nat_alt)
  then have u: "unat (wr_slots v) = unat n" by (simp add: n(3) unsigned_ucast_eq unsigned_take_bit_eq take_bit_nat_eq_self)
  then have "wr_slots v \<noteq> 0" using n(1) by (metis unat_0 unat_eq_zero)
  with u show ?thesis
    using assms by (auto simp: WorkerRegisterRequest_fromJson_def Let_def n_def bad_identity_def split: if_splits)
qed

theorem registration_wellformed_witness:
  "\<exists>v. WorkerRegisterRequest_fromJson (jobject [(''worker_id'', JString ''w''), (''hostname'', JString ''h''), (''slots'', JUnsigned 2)]) = Inr v
     \<and> wr_slots v \<noteq> 0"
proof -
  let ?j = "jobject [(''worker_id'', JString ''w''), (''hostname'', JString ''h''), (''slots'', JUnsigned 2)]"
  have "case WorkerRegisterRequest_fromJson ?j of Inr v \<Rightarrow> True | _ \<Rightarrow> False" by code_simp
  then obtain v where v: "WorkerRegisterRequest_fromJson ?j = Inr v" by (auto split: sum.splits)
  with registration_wellformed [OF v] show ?thesis by blast
qed

end
