(* ===== verification/Registry.thy ===== *)
theory Registry
  imports Worker
begin

text \<open>
  \<^verbatim>\<open>server/src/WorkerConnectionRegistry.cpp\<close>: which connection currently speaks for a worker. A new
  registration of the same worker replaces the connection and gets a fresh handle; closing a
  connection gives up its binding only when its handle is still the current one. A connection
  object is named by a number; a weak pointer to it can be locked while the number is in the set
  \<open>live\<close>. The contract is the locale \<open>binding_table\<close>, interpreted on the registry.
\<close>

section \<open>The registry\<close>

type_synonym conn_id = nat
type_synonym HandleId = u64

record ConnectionEntry =
  ce_handle :: conn_id
  ce_handle_id :: HandleId

record Registry =
  rg_registry :: "(WorkerId \<times> ConnectionEntry) list"
  rg_next_handle_id :: HandleId

definition new_registry :: Registry where
  "new_registry = \<lparr>rg_registry = [], rg_next_handle_id = 1\<rparr>"

definition bindWithHandle :: "WorkerId \<Rightarrow> conn_id option \<Rightarrow> Registry \<Rightarrow> HandleId option \<times> Registry" where
  "bindWithHandle worker_id connection r =
     (if worker_id = [] then (None, r)
      else
        (case connection of
           None \<Rightarrow> (None, r)
         | Some c \<Rightarrow>
             (let h = rg_next_handle_id r in
              (Some h, r\<lparr>rg_registry := AList.update worker_id \<lparr>ce_handle = c, ce_handle_id = h\<rparr> (rg_registry r),
                         rg_next_handle_id := h + 1\<rparr>))))"

definition bind :: "WorkerId \<Rightarrow> conn_id option \<Rightarrow> Registry \<Rightarrow> bool \<times> Registry" where
  "bind worker_id connection r = (case bindWithHandle worker_id connection r of (h, r') \<Rightarrow> (h \<noteq> None, r'))"

definition isCurrent :: "conn_id set \<Rightarrow> WorkerId \<Rightarrow> HandleId \<Rightarrow> Registry \<Rightarrow> bool" where
  "isCurrent live worker_id h r =
     (case map_of (rg_registry r) worker_id of
        None \<Rightarrow> False
      | Some en \<Rightarrow> ce_handle_id en = h \<and> ce_handle en \<in> live)"

text \<open>The callback runs under the registry's lock, on the state \<open>x\<close> it is about.\<close>

definition unbind :: "WorkerId \<Rightarrow> HandleId \<Rightarrow> ('x \<Rightarrow> 'x) \<Rightarrow> Registry \<times> 'x \<Rightarrow> bool \<times> Registry \<times> 'x" where
  "unbind worker_id h on_unbound s =
     (case s of (r, x) \<Rightarrow>
        (case map_of (rg_registry r) worker_id of
           None \<Rightarrow> (False, r, x)
         | Some en \<Rightarrow>
             if ce_handle_id en \<noteq> h then (False, r, x)
             else (True, r\<lparr>rg_registry := AList.delete worker_id (rg_registry r)\<rparr>, on_unbound x)))"

definition getConnection :: "conn_id set \<Rightarrow> WorkerId \<Rightarrow> Registry \<Rightarrow> conn_id option" where
  "getConnection live worker_id r =
     (case map_of (rg_registry r) worker_id of
        None \<Rightarrow> None
      | Some en \<Rightarrow> if ce_handle en \<in> live then Some (ce_handle en) else None)"

definition hasConnection :: "conn_id set \<Rightarrow> WorkerId \<Rightarrow> Registry \<Rightarrow> bool" where
  "hasConnection live worker_id r =
     (case map_of (rg_registry r) worker_id of None \<Rightarrow> False | Some en \<Rightarrow> ce_handle en \<in> live)"

definition getHandleId :: "WorkerId \<Rightarrow> Registry \<Rightarrow> HandleId" where
  "getHandleId worker_id r =
     (case map_of (rg_registry r) worker_id of None \<Rightarrow> 0 | Some en \<Rightarrow> ce_handle_id en)"

section \<open>The contract of a binding table\<close>

text \<open>
  \<open>holder s w\<close> is the binding of \<open>w\<close>, \<open>age h\<close> orders the handles by issue, \<open>clock s\<close> is the number
  of handles issued and \<open>limit\<close> the number there are.
\<close>

locale binding_table =
  fixes bindt :: "'w \<Rightarrow> 'c \<Rightarrow> 's \<Rightarrow> 'h \<times> 's"
    and unbindt :: "'w \<Rightarrow> 'h \<Rightarrow> 's \<Rightarrow> bool \<times> 's"
    and holder :: "'s \<Rightarrow> 'w \<Rightarrow> ('c \<times> 'h) option"
    and age :: "'h \<Rightarrow> nat"
    and clock :: "'s \<Rightarrow> nat"
    and limit :: nat
    and valid :: "'w \<Rightarrow> bool"
  assumes bind_holder: "valid w \<Longrightarrow> holder (snd (bindt w c s)) = (holder s)(w \<mapsto> (c, fst (bindt w c s)))"
    and bind_age: "valid w \<Longrightarrow> clock s < limit \<Longrightarrow> age (fst (bindt w c s)) = clock s"
    and bind_clock: "valid w \<Longrightarrow> Suc (clock s) < limit \<Longrightarrow> clock (snd (bindt w c s)) = Suc (clock s)"
    and unbind_iff: "fst (unbindt w h s) \<longleftrightarrow> (\<exists>c. holder s w = Some (c, h))"
    and unbind_holder: "holder (snd (unbindt w h s)) = (if fst (unbindt w h s) then (holder s)(w := None) else holder s)"
    and unbind_clock: "clock (snd (unbindt w h s)) = clock s"
begin

text \<open>A sequence of registrations and closings, by any workers.\<close>

fun table_run :: "('w \<times> 'c + 'w \<times> 'h) list \<Rightarrow> 's \<Rightarrow> 's" where
  "table_run [] s = s"
| "table_run (Inl (w, c) # ops) s = table_run ops (snd (bindt w c s))"
| "table_run (Inr (w, h) # ops) s = table_run ops (snd (unbindt w h s))"

definition valid_ops :: "('w \<times> 'c + 'w \<times> 'h) list \<Rightarrow> bool" where
  "valid_ops ops \<longleftrightarrow> (\<forall>w c. Inl (w, c) \<in> set ops \<longrightarrow> valid w)"

text \<open>The current binding survives whatever happens to other workers and to older handles.\<close>

lemma binding_survives:
  assumes "holder s w = Some (c, h)" and "valid_ops ops"
    and "\<And>c'. Inl (w, c') \<notin> set ops" and "Inr (w, h) \<notin> set ops"
  shows "holder (table_run ops s) w = Some (c, h)"
  using assms
proof (induction ops arbitrary: s)
  case (Cons op ops)
  have rest: "valid_ops ops" "\<And>c'. Inl (w, c') \<notin> set ops" "Inr (w, h) \<notin> set ops"
    using Cons.prems by (auto simp: valid_ops_def)
  show ?case
  proof (cases op)
    case (Inl p)
    obtain v c' where p: "p = (v, c')" by (cases p)
    have "v \<noteq> w" "valid v" using Cons.prems Inl p by (auto simp: valid_ops_def)
    then show ?thesis using Cons.IH [OF _ rest] Cons.prems(1) Inl p by (simp add: bind_holder)
  next
    case (Inr p)
    obtain v h' where p: "p = (v, h')" by (cases p)
    have "v \<noteq> w \<or> h' \<noteq> h" using Cons.prems Inr p by auto
    then have "holder (snd (unbindt v h' s)) w = Some (c, h)"
      using Cons.prems(1) by (auto simp: unbind_holder unbind_iff)
    then show ?thesis using Cons.IH [OF _ rest] Inr p by simp
  qed
qed simp

text \<open>A handle older than the current binding never closes anything again.\<close>

lemma stale_refused:
  assumes "\<And>c h. holder s w = Some (c, h) \<Longrightarrow> age old < age h" and "age old < clock s"
    and "valid_ops ops" and "clock s + length ops < limit"
  shows "\<not> fst (unbindt w old (table_run ops s))"
  using assms
proof (induction ops arbitrary: s)
  case Nil
  then show ?case by (fastforce simp: unbind_iff)
next
  case (Cons op ops)
  have rest: "valid_ops ops" using Cons.prems(3) by (auto simp: valid_ops_def)
  show ?case
  proof (cases op)
    case (Inl p)
    obtain v c' where p: "p = (v, c')" by (cases p)
    have v: "valid v" using Cons.prems(3) Inl p by (auto simp: valid_ops_def)
    have clk: "clock (snd (bindt v c' s)) = Suc (clock s)" "age (fst (bindt v c' s)) = clock s"
      using Cons.prems(4) by (auto simp: bind_clock [OF v] bind_age [OF v])
    show ?thesis
      unfolding Inl p table_run.simps
      by (rule Cons.IH) (use Cons.prems rest clk v in \<open>auto simp: bind_holder split: if_splits\<close>)
  next
    case (Inr p)
    obtain v h' where p: "p = (v, h')" by (cases p)
    show ?thesis
      unfolding Inr p table_run.simps
      by (rule Cons.IH) (use Cons.prems rest in \<open>auto simp: unbind_holder unbind_clock split: if_splits\<close>)
  qed
qed

end

section \<open>The registry is a binding table\<close>

definition bind_open :: "WorkerId \<Rightarrow> conn_id \<Rightarrow> Registry \<Rightarrow> HandleId \<times> Registry" where
  "bind_open w c r = (case bindWithHandle w (Some c) r of (h, r') \<Rightarrow> (the h, r'))"

definition unbind_only :: "WorkerId \<Rightarrow> HandleId \<Rightarrow> Registry \<Rightarrow> bool \<times> Registry" where
  "unbind_only w h r = (case unbind w h id (r, ()) of (ok, r', _) \<Rightarrow> (ok, r'))"

definition registry_holder :: "Registry \<Rightarrow> WorkerId \<Rightarrow> (conn_id \<times> HandleId) option" where
  "registry_holder r w = map_option (\<lambda>en. (ce_handle en, ce_handle_id en)) (map_of (rg_registry r) w)"

interpretation rtable: binding_table bind_open unbind_only registry_holder unat "\<lambda>r. unat (rg_next_handle_id r)"
  "2 ^ 64" "\<lambda>w. w \<noteq> []"
proof
  show "registry_holder (snd (bind_open w c s)) = (registry_holder s)(w \<mapsto> (c, fst (bind_open w c s)))"
    if "w \<noteq> []" for w c s
    using that
    by (auto simp: fun_eq_iff registry_holder_def bind_open_def bindWithHandle_def Let_def update_conv)
  show "unat (rg_next_handle_id (snd (bind_open w c s))) = Suc (unat (rg_next_handle_id s))"
    if "w \<noteq> []" "Suc (unat (rg_next_handle_id s)) < 2 ^ 64" for w c s
    using that by (simp add: bind_open_def bindWithHandle_def Let_def unat_word_ariths)
  show "registry_holder (snd (unbind_only w h s)) =
      (if fst (unbind_only w h s) then (registry_holder s)(w := None) else registry_holder s)" for w h s
    by (auto simp: fun_eq_iff registry_holder_def unbind_only_def unbind_def delete_conv split: option.splits)
qed (auto simp: bind_open_def bindWithHandle_def unbind_only_def unbind_def registry_holder_def Let_def split: option.splits)

text \<open>
  A stale close is harmless, for ever: once a worker has registered again, the handle of its
  earlier connection gives up nothing after any further sequence of registrations and closings
  (fewer than the handles that are left), and as long as nobody registers the worker again or
  closes its current connection, every other operation keeps the binding and its connection.
\<close>

theorem stale_close_harmless:
  assumes "bindWithHandle w (Some c) r = (Some h, r')" and "unat old < unat (rg_next_handle_id r)"
    and "rtable.valid_ops ops" and "unat (rg_next_handle_id r) + Suc (length ops) < 2 ^ 64"
  shows "fst (unbind w old on_unbound (rtable.table_run ops r', x)) = False
    \<and> ((\<forall>c'. Inl (w, c') \<notin> set ops) \<longrightarrow> Inr (w, h) \<notin> set ops \<longrightarrow>
         getHandleId w (rtable.table_run ops r') = h
         \<and> (\<forall>live. getConnection live w (rtable.table_run ops r') = (if c \<in> live then Some c else None)))"
proof -
  have w: "w \<noteq> []" and b: "bind_open w c r = (h, r')"
    using assms(1) by (auto simp: bindWithHandle_def bind_open_def split: if_splits)
  have holder: "registry_holder r' w = Some (c, h)"
    using rtable.bind_holder [OF w, of c r] b by simp
  have age: "unat h = unat (rg_next_handle_id r)" "unat (rg_next_handle_id r') = Suc (unat (rg_next_handle_id r))"
    using rtable.bind_age [OF w, of r c] rtable.bind_clock [OF w, of r c] b assms(4) by auto
  have "\<not> fst (unbind_only w old (rtable.table_run ops r'))"
    by (rule rtable.stale_refused) (use assms age holder in auto)
  then have stale: "fst (unbind w old on_unbound (rtable.table_run ops r', x)) = False"
    by (auto simp: unbind_only_def unbind_def split: option.splits if_splits)
  show ?thesis
  proof (intro conjI impI stale)
    assume "\<forall>c'. Inl (w, c') \<notin> set ops" "Inr (w, h) \<notin> set ops"
    then have "registry_holder (rtable.table_run ops r') w = Some (c, h)"
      using rtable.binding_survives [OF holder assms(3)] by blast
    then show "getHandleId w (rtable.table_run ops r') = h"
      and "\<forall>live. getConnection live w (rtable.table_run ops r') = (if c \<in> live then Some c else None)"
      by (auto simp: registry_holder_def getHandleId_def getConnection_def)
  qed
qed

theorem stale_close_harmless_witness:
  "fst (unbind ''w'' 1 (\<lambda>_. True) (rtable.table_run [Inr (''w'', 1), Inl (''v'', 9)]
      (snd (bindWithHandle ''w'' (Some 8) (snd (bindWithHandle ''w'' (Some 7) new_registry)))), False)) = False
   \<and> getHandleId ''w'' (rtable.table_run [Inr (''w'', 1), Inl (''v'', 9)]
      (snd (bindWithHandle ''w'' (Some 8) (snd (bindWithHandle ''w'' (Some 7) new_registry))))) = 2"
  using stale_close_harmless [of "''w''" 8 "snd (bindWithHandle ''w'' (Some 7) new_registry)" 2
      "snd (bindWithHandle ''w'' (Some 8) (snd (bindWithHandle ''w'' (Some 7) new_registry)))" 1
      "[Inr (''w'', 1), Inl (''v'', 9)]" "\<lambda>_. True" False]
  by (simp add: rtable.valid_ops_def bindWithHandle_def new_registry_def)

end
