(* ===== verification/Dispatch.thy ===== *)
theory Dispatch
  imports Guarantees Streams DtoFacts Registry "HOL-Library.Sublist"
begin

text \<open>
  \<^verbatim>\<open>server/src/SchedulingCoordinator.cpp\<close> and \<^verbatim>\<open>server/src/NetworkWorkerDispatcher.cpp\<close>: a scheduling
  pass followed by the dispatch of its assignments over the connections of the workers, with the
  rollback of the ones that could not be sent.

  The abstract class \<^verbatim>\<open>WorkerDispatcher\<close> is the locale \<open>worker_dispatcher\<close>; the facts about a pass
  are proved from its contract and hold for the network dispatcher by interpretation. The server
  runs a pass under one mutex that all requests take, so no other operation runs between its
  parts here; \<open>System\<close> treats the interleaved case.
\<close>

section \<open>The network\<close>

text \<open>
  The registry, the open connections, the packets accepted by the loops of the connections and
  not yet written to their output buffers, and the two fields of the dispatcher.
\<close>

record net =
  nt_registry :: Registry
  nt_conns :: "(conn_id \<times> Connection) list"
  nt_jobs :: "(conn_id \<times> string) list"
  nt_protocol_version :: u8
  nt_next_request_id :: u64

definition live :: "net \<Rightarrow> conn_id set" where
  "live n = fst ` set (nt_conns n)"

text \<open>
  \<^verbatim>\<open>sendPacket\<close> on a connection of the network. What a handler takes from outside: the JSON text
  codec, and which loops accept a job (\<^verbatim>\<open>tryQueueInLoop\<close>).
\<close>

record net_env =
  ne_codec :: json_codec
  ne_accepting :: "conn_id \<Rightarrow> bool"

definition net_send :: "net_env \<Rightarrow> conn_id \<Rightarrow> string \<Rightarrow> net \<Rightarrow> bool \<times> net" where
  "net_send ne c packet n =
     (case map_of (nt_conns n) c of
        None \<Rightarrow> (False, n)
      | Some conn \<Rightarrow>
          (case sendPacket (ne_accepting ne c) packet conn of
             (ok, conn') \<Rightarrow>
               (ok, n\<lparr>nt_conns := AList.update c conn' (nt_conns n),
                      nt_jobs := (if ok then nt_jobs n @ [(c, packet)] else nt_jobs n)\<rparr>)))"

section \<open>The network dispatcher\<close>

definition assign_request :: "Task \<Rightarrow> TaskAssignRequest" where
  "assign_request t =
     \<lparr>as_task_id = t_id t, as_run_id = t_run_id t, as_task_type = t_type t, as_target = t_target t,
      as_revision = t_revision t, as_priority = t_priority t, as_payload = t_payload t\<rparr>"

definition buildTaskAssignMessage :: "Task \<Rightarrow> net \<Rightarrow> ProtocolMessage \<times> net" where
  "buildTaskAssignMessage t n =
     (\<lparr>pm_version = ucast (nt_protocol_version n), pm_type = TASK_ASSIGN, pm_request_id = nt_next_request_id n,
       pm_data = TaskAssignRequest_toJson (assign_request t)\<rparr>,
      n\<lparr>nt_next_request_id := nt_next_request_id n + 1\<rparr>)"

definition dispatch :: "net_env \<Rightarrow> WorkerId \<Rightarrow> Task \<Rightarrow> net \<Rightarrow> bool \<times> net" where
  "dispatch ne worker_id t n =
     (if \<not> hasConnection (live n) worker_id (nt_registry n) then (False, n)
      else
        (case getConnection (live n) worker_id (nt_registry n) of
           None \<Rightarrow> (False, n)
         | Some c \<Rightarrow>
             (case map_of (nt_conns n) c of
                None \<Rightarrow> (False, n)
              | Some conn \<Rightarrow>
                  if \<not> isConnected conn then (False, n)
                  else
                    (case buildTaskAssignMessage t n of
                       (message, n1) \<Rightarrow>
                         (case ProtocolCodec_encode (ne_codec ne) message of
                            Inl _ \<Rightarrow> (False, n1)
                          | Inr serialized \<Rightarrow>
                              (case MessageCodec_encode serialized of
                                 Inl _ \<Rightarrow> (False, n1)
                               | Inr framed \<Rightarrow> net_send ne c framed n1))))))"

section \<open>The coordinator\<close>

record SchedulingResult =
  sr_assigned_count :: nat
  sr_dispatched_count :: nat
  sr_dispatch_failed_count :: nat
  sr_rollback_failed_count :: nat

definition new_result :: SchedulingResult where
  "new_result = \<lparr>sr_assigned_count = 0, sr_dispatched_count = 0, sr_dispatch_failed_count = 0,
     sr_rollback_failed_count = 0\<rparr>"

text \<open>The loop over the assignments; a throwing dispatch counts as refused.\<close>

fun dispatch_all ::
  "env \<Rightarrow> (WorkerId \<Rightarrow> Task \<Rightarrow> (sys \<times> 'n, bool) op) \<Rightarrow> TaskAssignment list \<Rightarrow> SchedulingResult \<Rightarrow>
   (sys \<times> 'n, SchedulingResult) op" where
  "dispatch_all e d [] r x = (Inr r, x)"
| "dispatch_all e d (a # as) r x =
     (case dispatchAssignment a d x of
        (res, x1) \<Rightarrow>
          (case (case res of Inl _ \<Rightarrow> Some False | Inr accepted \<Rightarrow> accepted) of
             None \<Rightarrow> dispatch_all e d as r x1
           | Some True \<Rightarrow> dispatch_all e d as (r\<lparr>sr_dispatched_count := sr_dispatched_count r + 1\<rparr>) x1
           | Some False \<Rightarrow>
               (let r1 = r\<lparr>sr_dispatch_failed_count := sr_dispatch_failed_count r + 1\<rparr> in
                (case rollbackAssignment e (a_task_id a) (fst x1) of
                   (Inl exc, s2) \<Rightarrow> (Inl exc, (s2, snd x1))
                 | (Inr True, s2) \<Rightarrow> dispatch_all e d as r1 (s2, snd x1)
                 | (Inr False, s2) \<Rightarrow>
                     dispatch_all e d as (r1\<lparr>sr_rollback_failed_count := sr_rollback_failed_count r1 + 1\<rparr>)
                       (s2, snd x1)))))"

definition runOnce ::
  "env \<Rightarrow> (WorkerId \<Rightarrow> Task \<Rightarrow> (sys \<times> 'n, bool) op) \<Rightarrow> (sys \<times> 'n, SchedulingResult) op" where
  "runOnce e d x =
     (case schedule e (fst x) of
        (Inl exc, s1) \<Rightarrow> (Inl exc, (s1, snd x))
      | (Inr as, s1) \<Rightarrow> dispatch_all e d as (new_result\<lparr>sr_assigned_count := length as\<rparr>) (s1, snd x))"

text \<open>A dispatcher that runs alone: it changes only its own state and does not throw.\<close>

definition alone :: "(WorkerId \<Rightarrow> Task \<Rightarrow> 'n \<Rightarrow> bool \<times> 'n) \<Rightarrow> WorkerId \<Rightarrow> Task \<Rightarrow> (sys \<times> 'n, bool) op" where
  "alone d w t x = (case d w t (snd x) of (b, n) \<Rightarrow> (Inr b, (fst x, n)))"

section \<open>One dispatch\<close>

text \<open>An assignment as a pass leaves it: assigned by this process and not in flight.\<close>

definition assigned_to :: "sys \<Rightarrow> TaskAssignment \<Rightarrow> Task \<Rightarrow> bool" where
  "assigned_to s a t \<longleftrightarrow>
     map_of (sc_tasks (sy_sched s)) (a_task_id a) = Some t \<and> t_status t = ASSIGNED
     \<and> t_worker_id t = a_worker_id a \<and> \<not> t_recovery_required t \<and> a_task_id a \<notin> sc_dispatching (sy_sched s)"

lemma claim_finish:
  assumes "dispatch_claim a s = (Some t, s1)"
  shows "dispatch_finish (a_task_id a) s1 = s"
proof -
  have free: "a_task_id a \<notin> sc_dispatching (sy_sched s)"
    and s1: "s1 = put_sched ((sy_sched s)\<lparr>sc_dispatching := insert (a_task_id a) (sc_dispatching (sy_sched s))\<rparr>) s"
    using assms by (auto simp: dispatch_claim_def Let_def split: option.splits if_splits)
  show ?thesis unfolding s1 using free by (simp add: dispatch_finish_def put_sched_def)
qed

text \<open>Run alone, a dispatch leaves the system as it was; only the dispatcher's state moves.\<close>

lemma dispatch_alone:
  "dispatchAssignment a (alone d) (s, n) =
     (case dispatch_claim a s of
        (None, _) \<Rightarrow> (Inr None, (s, n))
      | (Some t, _) \<Rightarrow> (case d (a_worker_id a) t n of (b, n') \<Rightarrow> (Inr (Some b), (s, n'))))"
proof (cases "dispatch_claim a s")
  case (Pair c s1)
  have "s1 = s" if "c = None"
    using Pair that by (auto simp: dispatch_claim_def Let_def split: option.splits if_splits)
  with Pair show ?thesis
    by (auto simp: dispatchAssignment_def alone_def claim_finish split: option.split prod.split)
qed

lemma dispatch_assigned:
  "assigned_to s a t \<Longrightarrow>
   dispatchAssignment a (alone d) (s, n) = (case d (a_worker_id a) t n of (b, n') \<Rightarrow> (Inr (Some b), (s, n')))"
  by (simp add: dispatch_alone assigned_to_def dispatch_claim_def Let_def)

text \<open>A rollback moves the sequence counter by one at most.\<close>

lemma rollback_sched_sequence:
  "sc_next_sequence (rollback_sched i t t' sc) = (if batch_stopped sc t then sc_next_sequence sc else sc_next_sequence sc + 1)"
  by (simp add: rollback_sched_def enqueue_def set_task_def)

lemma rollback_sequence:
  assumes "rollbackAssignment e i s = (r, s')"
  shows "sc_next_sequence (sy_sched s') = sc_next_sequence (sy_sched s)
    \<or> sc_next_sequence (sy_sched s') = sc_next_sequence (sy_sched s) + 1"
proof (cases "i \<in> sc_dispatching (sy_sched s)
    \<or> \<not> (\<exists>t. map_of (sc_tasks (sy_sched s)) i = Some t \<and> t_status t = ASSIGNED \<and> t_worker_id t \<noteq> [])")
  case True
  then show ?thesis using rollback_refused [of i s e] assms by simp
next
  case False
  then obtain t where t: "map_of (sc_tasks (sy_sched s)) i = Some t" "t_status t = ASSIGNED" "t_worker_id t \<noteq> []"
    "i \<notin> sc_dispatching (sy_sched s)" by blast
  obtain r1 s1 where sv: "store_save e [rolled_back (e_prepare_now e i) (sy_sched s) t] None
      (Some ''DISPATCH_FAILED'') None None s = (r1, s1)" by fastforce
  note R = rollback_assigned [OF t] and F = store_save_frame [OF sv]
  show ?thesis
    using assms F R(1) R(2) [OF _ sv]
    by (cases "sy_store s = None") (auto simp: rollback_sched_sequence split: sum.splits prod.splits bool.splits if_splits)
qed

definition room :: "nat \<Rightarrow> sys \<Rightarrow> bool" where
  "room k s \<longleftrightarrow> unat (sc_next_sequence (sy_sched s)) + k \<le> 2 ^ 63"

lemma room_mono: "room k s \<Longrightarrow> j \<le> k \<Longrightarrow> room j s"
  by (simp add: room_def)

lemma room_less: "room (Suc k) s \<Longrightarrow> sc_next_sequence (sy_sched s) < 2 ^ 63"
  by (simp add: room_def word_less_nat_alt)

lemma room_rollback:
  assumes "rollbackAssignment e i s = (r, s')" and "room (Suc k) s"
  shows "room k s'"
  using rollback_sequence [OF assms(1)] assms(2) by (auto simp: room_def unat_word_ariths)

section \<open>A pass, over any dispatcher\<close>

text \<open>
  The contract of \<^verbatim>\<open>WorkerDispatcher::dispatch\<close>: true when exactly one message that carries the task
  to the worker was accepted, false when nothing was. \<open>jobs\<close> are the accepted messages and
  \<open>carries n w t j\<close> says that \<open>j\<close> brings \<open>t\<close> to \<open>w\<close>.
\<close>

locale worker_dispatcher =
  fixes disp :: "WorkerId \<Rightarrow> Task \<Rightarrow> 'n \<Rightarrow> bool \<times> 'n"
    and jobs :: "'n \<Rightarrow> 'j list"
    and carries :: "'n \<Rightarrow> WorkerId \<Rightarrow> Task \<Rightarrow> 'j \<Rightarrow> bool"
  assumes accepted: "disp w t n = (True, n') \<Longrightarrow> \<exists>j. jobs n' = jobs n @ [j] \<and> carries n w t j"
    and refused: "disp w t n = (False, n') \<Longrightarrow> jobs n' = jobs n"
    and stable: "disp w t n = (b, n') \<Longrightarrow> carries n' = carries n"
begin

text \<open>What the loop over the assignments \<open>as\<close> does between two states.\<close>

definition settled :: "TaskAssignment list \<Rightarrow> sys \<Rightarrow> 'n \<Rightarrow> sys \<Rightarrow> 'n \<Rightarrow> TaskAssignment list \<Rightarrow> bool" where
  "settled as s n s' n' sent \<longleftrightarrow>
     (\<exists>js. jobs n' = jobs n @ js
        \<and> list_all2 (\<lambda>a j. \<exists>t. assigned_to s' a t \<and> carries n (a_worker_id a) t j) sent js)
     \<and> carries n' = carries n \<and> subseq sent as
     \<and> (\<forall>a \<in> set as - set sent. \<exists>t. map_of (sc_tasks (sy_sched s')) (a_task_id a) = Some t
            \<and> t_worker_id t = [] \<and> (t_status t = QUEUED \<or> t_status t = CANCELLED))
     \<and> (\<forall>i. i \<notin> a_task_id ` set as \<longrightarrow> map_of (sc_tasks (sy_sched s')) i = map_of (sc_tasks (sy_sched s)) i)
     \<and> sc_dispatching (sy_sched s') = sc_dispatching (sy_sched s) \<and> sched_inv s'"

lemma settled_sent:
  assumes "assigned_to s a t" and "a_task_id a \<notin> a_task_id ` set as" and "disp (a_worker_id a) t n = (True, n1)"
    and S: "settled as s n1 s' n' sent"
  shows "settled (a # as) s n s' n' (a # sent)"
proof -
  note S' = S [unfolded settled_def]
  obtain j where j: "jobs n1 = jobs n @ [j]" "carries n (a_worker_id a) t j" using accepted [OF assms(3)] by blast
  have c: "carries n1 = carries n" by (rule stable [OF assms(3)])
  have a: "assigned_to s' a t" using S' assms(1,2) by (simp add: assigned_to_def)
  obtain js where js: "jobs n' = jobs n1 @ js"
    "list_all2 (\<lambda>a j. \<exists>t. assigned_to s' a t \<and> carries n1 (a_worker_id a) t j) sent js" using S' by blast
  show ?thesis
    unfolding settled_def
    by (intro conjI exI [of _ "j # js"]) (use S' j c a js assms(2) in auto)
qed

lemma settled_rolled_back:
  assumes A: "assigned_to s a t" and new: "a_task_id a \<notin> a_task_id ` set as"
    and d: "disp (a_worker_id a) t n = (False, n1)"
    and s1: "sy_sched s1 = rollback_sched (a_task_id a) t (rolled_back now (sy_sched s) t) (sy_sched s)"
    and S: "settled as s1 n1 s' n' sent"
  shows "settled (a # as) s n s' n' sent"
proof -
  note S' = S [unfolded settled_def]
  have tasks: "map_of (sc_tasks (sy_sched s1)) = (map_of (sc_tasks (sy_sched s)))(a_task_id a \<mapsto> rolled_back now (sy_sched s) t)"
    "sc_dispatching (sy_sched s1) = sc_dispatching (sy_sched s)"
    unfolding s1 by (simp_all add: rollback_sched_def enqueue_def set_task_def update_conv fun_eq_iff)
  have here: "map_of (sc_tasks (sy_sched s')) (a_task_id a) = Some (rolled_back now (sy_sched s) t)"
    using S' new tasks by simp
  have st: "t_worker_id (rolled_back now (sy_sched s) t) = []"
    "t_status (rolled_back now (sy_sched s) t) = QUEUED \<or> t_status (rolled_back now (sy_sched s) t) = CANCELLED"
    using A by (auto simp: rolled_back_simps assigned_to_def)
  show ?thesis
    unfolding settled_def
    by (intro conjI) (use S' refused [OF d] stable [OF d] here st tasks in auto)
qed

lemma dispatch_all_settles:
  assumes "sched_inv s" and "\<And>a. a \<in> set as \<Longrightarrow> \<exists>t. assigned_to s a t" and "distinct (map a_task_id as)"
    and "room (length as) s" and "dispatch_all e (alone disp) as r (s, n) = (Inr r', (s', n'))"
  shows "\<exists>sent. settled as s n s' n' sent
    \<and> r' = r\<lparr>sr_dispatched_count := sr_dispatched_count r + length sent,
            sr_dispatch_failed_count := sr_dispatch_failed_count r + (length as - length sent)\<rparr>"
  using assms
proof (induction as arbitrary: s n r)
  case Nil
  then show ?case by (auto simp: settled_def intro!: exI [of _ "[]"])
next
  case (Cons a as)
  obtain t where t: "assigned_to s a t" using Cons.prems(2) [of a] by auto
  have new: "a_task_id a \<notin> a_task_id ` set as" using Cons.prems(3) by auto
  obtain b n1 where d: "disp (a_worker_id a) t n = (b, n1)" by (meson surj_pair)
  note D = dispatch_assigned [OF t, of disp n, unfolded d prod.case]
  show ?case
  proof (cases b)
    case True
    have run: "dispatch_all e (alone disp) as (r\<lparr>sr_dispatched_count := sr_dispatched_count r + 1\<rparr>) (s, n1) = (Inr r', (s', n'))"
      using Cons.prems(5) D True by simp
    obtain sent where sent: "settled as s n1 s' n' sent"
      "r' = r\<lparr>sr_dispatched_count := sr_dispatched_count r + 1 + length sent,
            sr_dispatch_failed_count := sr_dispatch_failed_count r + (length as - length sent)\<rparr>"
      using Cons.IH [OF Cons.prems(1) _ _ _ run] Cons.prems(2-4) room_mono [of "length (a # as)" s] by fastforce
    show ?thesis
      by (rule exI [of _ "a # sent"]) (use settled_sent [OF t new _ sent(1)] d True sent(2) in simp)
  next
    case False
    obtain res s1 where rb: "rollbackAssignment e (a_task_id a) s = (res, s1)" by (meson surj_pair)
    from t have own: "map_of (sc_tasks (sy_sched s)) (a_task_id a) = Some t" "t_status t = ASSIGNED"
      "\<not> t_recovery_required t" "a_task_id a \<notin> sc_dispatching (sy_sched s)" by (simp_all add: assigned_to_def)
    have "\<nexists>x. res = Inl x" using Cons.prems(5) D False rb by auto
    with rollback_own [OF Cons.prems(1) own rb] obtain now where res: "res = Inr True"
      and s1: "sy_sched s1 = rollback_sched (a_task_id a) t (rolled_back now (sy_sched s) t) (sy_sched s)" by metis
    have run: "dispatch_all e (alone disp) as (r\<lparr>sr_dispatch_failed_count := sr_dispatch_failed_count r + 1\<rparr>) (s1, n1) = (Inr r', (s', n'))"
      using Cons.prems(5) D False rb res by simp
    have inv1: "sched_inv s1"
      using inv_rollbackAssignment [OF Cons.prems(1), of e "a_task_id a"] room_less Cons.prems(4) rb by auto
    have ready: "\<exists>t. assigned_to s1 c t" if c: "c \<in> set as" for c
    proof -
      have "a_task_id c \<noteq> a_task_id a" using new c by (metis imageI)
      moreover obtain u where "assigned_to s c u" using Cons.prems(2) [of c] c by auto
      ultimately have "assigned_to s1 c u"
        by (auto simp: assigned_to_def s1 rollback_sched_def enqueue_def set_task_def)
      then show ?thesis ..
    qed
    have rm: "room (length as) s1" using room_rollback [OF rb] Cons.prems(4) by simp
    obtain sent where sent: "settled as s1 n1 s' n' sent"
      "r' = r\<lparr>sr_dispatched_count := sr_dispatched_count r + length sent,
            sr_dispatch_failed_count := sr_dispatch_failed_count r + 1 + (length as - length sent)\<rparr>"
      using Cons.IH [OF inv1 ready _ rm run] Cons.prems(3) by auto
    have "length sent \<le> length as" using sent(1) by (auto simp: settled_def dest: list_emb_length)
    then show ?thesis
      by (intro exI [of _ sent]) (use settled_rolled_back [OF t new _ s1 sent(1)] d False sent(2) in simp)
  qed
qed

end

section \<open>The network dispatcher keeps the contract\<close>

text \<open>
  The job carries the task when it is a frame for the connection that speaks for the worker and
  its text is the encoding of a TASK_ASSIGN message with the task's assignment.
\<close>

definition carries_task :: "net_env \<Rightarrow> net \<Rightarrow> WorkerId \<Rightarrow> Task \<Rightarrow> conn_id \<times> string \<Rightarrow> bool" where
  "carries_task ne n w t j \<longleftrightarrow>
     getConnection (live n) w (nt_registry n) = Some (fst j)
     \<and> (\<exists>m text. ProtocolCodec_encode (ne_codec ne) m = Inr text \<and> snd j = frame text
          \<and> pm_type m = TASK_ASSIGN \<and> pm_version m = ucast (nt_protocol_version n)
          \<and> pm_data m = TaskAssignRequest_toJson (assign_request t))"

lemma net_send_simps:
  "nt_registry (snd (net_send ne c p n)) = nt_registry n"
  "nt_protocol_version (snd (net_send ne c p n)) = nt_protocol_version n"
  "live (snd (net_send ne c p n)) = live n"
  "nt_jobs (snd (net_send ne c p n)) = (if fst (net_send ne c p n) then nt_jobs n @ [(c, p)] else nt_jobs n)"
  by (auto simp: net_send_def live_def keys_update_present map_of_SomeD image_iff split: option.splits prod.splits)

lemma dispatch_cases:
  assumes "dispatch ne w t n = (b, n')"
  obtains "\<not> b" "n' = n \<or> n' = snd (buildTaskAssignMessage t n)"
  | c body where "getConnection (live n) w (nt_registry n) = Some c"
      "ProtocolCodec_encode (ne_codec ne) (fst (buildTaskAssignMessage t n)) = Inr body"
      "net_send ne c (frame body) (snd (buildTaskAssignMessage t n)) = (b, n')"
  using assms
  by (auto simp: dispatch_def MessageCodec_encode_frame split: if_splits option.splits prod.splits sum.splits)

lemma build_simps:
  "nt_registry (snd (buildTaskAssignMessage t n)) = nt_registry n"
  "nt_jobs (snd (buildTaskAssignMessage t n)) = nt_jobs n"
  "nt_protocol_version (snd (buildTaskAssignMessage t n)) = nt_protocol_version n"
  "live (snd (buildTaskAssignMessage t n)) = live n"
  by (simp_all add: buildTaskAssignMessage_def live_def)

interpretation network: worker_dispatcher "dispatch ne" nt_jobs "carries_task ne" for ne
proof
  fix w t and n n' :: net and b
  show "\<exists>j. nt_jobs n' = nt_jobs n @ [j] \<and> carries_task ne n w t j" if "dispatch ne w t n = (True, n')"
    using that
  proof (cases rule: dispatch_cases)
    case (2 c body)
    have "nt_jobs n' = nt_jobs n @ [(c, frame body)]"
      using net_send_simps(4) [of ne c "frame body" "snd (buildTaskAssignMessage t n)"] 2(3) by (simp add: build_simps)
    moreover have "carries_task ne n w t (c, frame body)"
      unfolding carries_task_def
      using 2 by (intro conjI exI [of _ "fst (buildTaskAssignMessage t n)"] exI [of _ body])
        (simp_all add: buildTaskAssignMessage_def)
    ultimately show ?thesis by blast
  qed simp
  show "nt_jobs n' = nt_jobs n" if "dispatch ne w t n = (False, n')"
    using that
  proof (cases rule: dispatch_cases)
    case (2 c body)
    then show ?thesis
      using net_send_simps(4) [of ne c "frame body" "snd (buildTaskAssignMessage t n)"] by (simp add: build_simps)
  qed (auto simp: build_simps)
  show "carries_task ne n' = carries_task ne n" if "dispatch ne w t n = (b, n')"
    using that
  proof (cases rule: dispatch_cases)
    case (2 c body)
    then show ?thesis
      using net_send_simps(1-3) [of ne c "frame body" "snd (buildTaskAssignMessage t n)"]
      by (simp add: build_simps carries_task_def fun_eq_iff)
  next
    case 1
    then show ?thesis by (elim disjE) (simp_all add: build_simps carries_task_def fun_eq_iff)
  qed
qed

section \<open>The assignments of a pass\<close>

lemma schedule_assigned:
  assumes inv: "sched_inv s" and run: "schedule e s = (Inr as, s')"
  shows "distinct (map a_task_id as)"
    and "\<And>a. a \<in> set as \<Longrightarrow> \<exists>t. assigned_to s' a t"
    and "\<And>a. a \<in> set as \<Longrightarrow> \<exists>t. map_of (sc_tasks (sy_sched s)) (a_task_id a) = Some t \<and> t_status t = QUEUED"
    and "\<And>i. i \<notin> a_task_id ` set as \<Longrightarrow> map_of (sc_tasks (sy_sched s')) i = map_of (sc_tasks (sy_sched s)) i"
    and "sc_next_sequence (sy_sched s') = sc_next_sequence (sy_sched s)"
    and "length as \<le> length (sc_queue (sy_sched s))"
proof -
  note I = sched_invD [OF inv]
  from run obtain changes pending wm after where loop:
    "schedule_loop e (sy_store s \<noteq> None) (sy_sched s) (sc_queue (sy_sched s)) (sy_wm s)
       (sc_last_selected (sy_sched s)) = (changes, pending, wm, after)"
    and s': "as = map fst changes" "sc_tasks (sy_sched s') = commit_changes changes (sc_tasks (sy_sched s))"
    "sc_dispatching (sy_sched s') = sc_dispatching (sy_sched s)"
    and seq: "sc_next_sequence (sy_sched s') = sc_next_sequence (sy_sched s)"
    by (rule schedule_Inr)
  note L = schedule_loop_spec [OF loop I(1)]
  obtain taken where q: "sc_queue (sy_sched s) = taken @ pending"
    and ids: "map (\<lambda>c. a_task_id (fst c)) changes = map q_task_id (filter (entry_queued (sy_sched s)) taken)" using L by blast
  have dist: "distinct (map (\<lambda>c. a_task_id (fst c)) changes)"
    using queued_ids_distinct [OF I(3)] by (simp add: ids q)
  show "distinct (map a_task_id as)" using dist by (simp add: s'(1) comp_def)
  show "sc_next_sequence (sy_sched s') = sc_next_sequence (sy_sched s)" by (rule seq)
  have "length as = length (filter (entry_queued (sy_sched s)) taken)"
    using arg_cong [OF ids, of length] by (simp add: s'(1))
  then show "length as \<le> length (sc_queue (sy_sched s))"
    using length_filter_le [of "entry_queued (sy_sched s)" taken] unfolding q length_append by linarith
  show "map_of (sc_tasks (sy_sched s')) i = map_of (sc_tasks (sy_sched s)) i" if "i \<notin> a_task_id ` set as" for i
    unfolding s'(2) by (rule commit_changes_other) (use that s'(1) in \<open>auto simp: image_image\<close>)
  fix a assume "a \<in> set as"
  then obtain c where c: "c \<in> set changes" "a = fst c" by (auto simp: s'(1))
  have "change_ok e (sy_store s \<noteq> None) (sy_sched s) c" using L c(1) by blast
  then obtain t where t: "map_of (sc_tasks (sy_sched s)) (a_task_id a) = Some t" "t_status t = QUEUED"
    "snd c = prepare_assignment e (sy_store s \<noteq> None) (a_worker_id a) t" by (auto simp: change_ok_def c(2))
  then show "\<exists>t. map_of (sc_tasks (sy_sched s)) (a_task_id a) = Some t \<and> t_status t = QUEUED" by blast
  have "a_task_id a \<notin> sc_dispatching (sy_sched s)"
    using I(7) t(1,2) by (auto simp: dispatch_ok_def)
  with commit_changes_this [OF dist c(1), of "sc_tasks (sy_sched s)"] show "\<exists>t. assigned_to s' a t"
    by (auto simp: assigned_to_def s'(2,3) c(2) t(3) [unfolded c(2)] prepare_assignment_simps)
qed

section \<open>Slots taken by a pass\<close>

lemma count_vals_card:
  assumes "distinct (map fst m)"
  shows "count_vals P m = card {k. \<exists>v. map_of m k = Some v \<and> P v}"
proof -
  have "{k. \<exists>v. map_of m k = Some v \<and> P v} = fst ` set (filter (\<lambda>(k, v). P v) m)"
    using assms by (force simp: map_of_eq_Some_iff)
  moreover have "distinct (map fst (filter (\<lambda>(k, v). P v) m))" using assms by (simp add: distinct_map_filter)
  ultimately show ?thesis using distinct_card by (fastforce simp: count_vals_def)
qed

definition occupied :: "sys \<Rightarrow> WorkerId \<Rightarrow> TaskId set" where
  "occupied s w = {i. \<exists>t. map_of (sc_tasks (sy_sched s)) i = Some t \<and> occupies w t}"

lemma used_card:
  assumes "sched_inv s"
  shows "used (sy_wm s) w = card (occupied s w)" "finite (occupied s w)"
proof -
  note I = sched_invD [OF assms]
  show "used (sy_wm s) w = card (occupied s w)"
    using I(8) count_vals_card [OF table_okD(1) [OF I(2)]] by (simp add: slots_match_def occupied_def)
  have "occupied s w \<subseteq> dom (map_of (sc_tasks (sy_sched s)))" by (auto simp: occupied_def)
  then show "finite (occupied s w)" using finite_dom_map_of finite_subset by blast
qed

lemma used_after_pass:
  assumes inv: "sched_inv s" "sched_inv s'" and dist: "distinct (map a_task_id sent)" and sub: "set sent \<subseteq> set as"
    and before: "\<And>a. a \<in> set as \<Longrightarrow> \<exists>t. map_of (sc_tasks (sy_sched s)) (a_task_id a) = Some t \<and> t_status t = QUEUED"
    and sent: "\<And>a. a \<in> set sent \<Longrightarrow> \<exists>t. assigned_to s' a t"
    and undone: "\<And>a. a \<in> set as - set sent \<Longrightarrow> \<exists>t. map_of (sc_tasks (sy_sched s')) (a_task_id a) = Some t
       \<and> (t_status t = QUEUED \<or> t_status t = CANCELLED)"
    and other: "\<And>i. i \<notin> a_task_id ` set as \<Longrightarrow> map_of (sc_tasks (sy_sched s')) i = map_of (sc_tasks (sy_sched s)) i"
  shows "used (sy_wm s') w = used (sy_wm s) w + length (filter (\<lambda>a. a_worker_id a = w) sent)"
proof -
  let ?new = "a_task_id ` set (filter (\<lambda>a. a_worker_id a = w) sent)"
  have off: "i \<notin> occupied s w" if "i \<in> a_task_id ` set as" for i
    using before that by (fastforce simp: occupied_def occupies_def active_def)
  have "occupied s' w = occupied s w \<union> ?new"
  proof (intro set_eqI)
    fix i
    consider (sent) a where "a \<in> set sent" "i = a_task_id a" | (undone) a where "a \<in> set as - set sent" "i = a_task_id a" "i \<notin> a_task_id ` set sent"
      | (other) "i \<notin> a_task_id ` set as" by blast
    then show "i \<in> occupied s' w \<longleftrightarrow> i \<in> occupied s w \<union> ?new"
    proof cases
      case sent
      then obtain t where t: "assigned_to s' a t" using assms(6) [OF sent(1)] by blast
      have one: "b = a" if "b \<in> set sent" "a_task_id b = a_task_id a" for b using dist that sent(1) by (meson distinct_map inj_onD)
      from t have "i \<in> occupied s' w \<longleftrightarrow> a_worker_id a = w" unfolding sent(2) by (simp add: occupied_def assigned_to_def occupies_def active_def)
      moreover have "i \<in> ?new \<longleftrightarrow> a_worker_id a = w"
        unfolding sent(2) image_iff Bex_def set_filter mem_Collect_eq using one sent(1) by metis
      ultimately show ?thesis using off sent sub by auto
    next
      case undone
      then have "i \<notin> occupied s' w" using assms(7) by (fastforce simp: occupied_def occupies_def active_def)
      then show ?thesis using undone off by auto
    next
      case other
      then have "i \<notin> ?new" using sub by auto
      with assms(8) [OF other] show ?thesis by (simp add: occupied_def)
    qed
  qed
  moreover have "occupied s w \<inter> ?new = {}" using off sub by auto
  moreover have "card ?new = length (filter (\<lambda>a. a_worker_id a = w) sent)"
    using dist distinct_card [of "map a_task_id (filter (\<lambda>a. a_worker_id a = w) sent)"] by (simp add: distinct_map_filter)
  ultimately show ?thesis
    using used_card [OF inv(1)] used_card [OF inv(2)] by (simp add: card_Un_disjoint)
qed

text \<open>
  C14. A pass delivers or takes back, and never leaves an assignment behind that nobody was told
  of: after a pass that returns, the tasks that went from waiting to ASSIGNED are exactly those
  for which one TASK_ASSIGN message with the task's data was accepted by the connection that
  speaks for the worker, in the order of the pass; every other task is as it was, or was assigned
  and is waiting again (or CANCELLED with its batch) with no worker; on every worker exactly as many slots more are
  taken as tasks were delivered to it, so what was taken back holds none; and the counters the pass
  returns say how many of each there are.
\<close>

theorem pass_delivers_or_takes_back:
  assumes "reachable s" and "room (length (sc_queue (sy_sched s))) s"
    and "runOnce e (alone (dispatch ne)) (s, n) = (Inr r, (s', n'))"
  shows "\<exists>sent js. nt_jobs n' = nt_jobs n @ js \<and> length js = sr_dispatched_count r
    \<and> list_all2 (\<lambda>a j. \<exists>t. assigned_to s' a t \<and> carries_task ne n (a_worker_id a) t j) sent js
    \<and> distinct (map a_task_id sent)
    \<and> (\<forall>i t'. map_of (sc_tasks (sy_sched s')) i = Some t' \<longrightarrow>
         i \<in> a_task_id ` set sent
         \<or> map_of (sc_tasks (sy_sched s)) i = Some t'
         \<or> (\<exists>t. map_of (sc_tasks (sy_sched s)) i = Some t \<and> t_status t = QUEUED)
            \<and> t_worker_id t' = [] \<and> (t_status t' = QUEUED \<or> t_status t' = CANCELLED))
    \<and> (\<forall>w. used (sy_wm s') w = used (sy_wm s) w + length (filter (\<lambda>a. a_worker_id a = w) sent))
    \<and> sr_assigned_count r = sr_dispatched_count r + sr_dispatch_failed_count r
    \<and> sr_rollback_failed_count r = 0"
proof -
  note inv = reachable_inv [OF assms(1)]
  obtain as s1 where sch: "schedule e s = (Inr as, s1)"
    and run: "dispatch_all e (alone (dispatch ne)) as (new_result\<lparr>sr_assigned_count := length as\<rparr>) (s1, n) = (Inr r, (s', n'))"
    using assms(3) by (auto simp: runOnce_def split: prod.splits sum.splits)
  note A = schedule_assigned [OF inv sch]
  have inv1: "sched_inv s1" using inv_schedule [OF inv, of e] sch by simp
  have rm: "room (length as) s1" using assms(2) A(5,6) by (simp add: room_def)
  from network.dispatch_all_settles [OF inv1 A(2) A(1) rm run] obtain sent where
    S: "network.settled ne as s1 n s' n' sent"
    and r: "r = (new_result\<lparr>sr_assigned_count := length as\<rparr>)\<lparr>sr_dispatched_count := length sent,
        sr_dispatch_failed_count := length as - length sent\<rparr>" by (auto simp: new_result_def)
  note S' = S [unfolded network.settled_def]
  obtain js where js: "nt_jobs n' = nt_jobs n @ js"
    "list_all2 (\<lambda>a j. \<exists>t. assigned_to s' a t \<and> carries_task ne n (a_worker_id a) t j) sent js" using S' by blast
  have sub: "subseq sent as" using S' by blast
  have dist: "distinct (map a_task_id sent)"
    using A(1) sub by (simp add: subseq_conv_nths) (metis distinct_nthsI nths_map)
  have slots: "used (sy_wm s') w = used (sy_wm s) w + length (filter (\<lambda>a. a_worker_id a = w) sent)" for w
  proof (rule used_after_pass [OF inv _ dist _ A(3)])
    show "sched_inv s'" "set sent \<subseteq> set as" using S' sub by (auto dest: notin_set_nthsI simp: subseq_conv_nths set_nths)
    show "\<exists>t. assigned_to s' a t" if "a \<in> set sent" for a using js(2) that by (auto simp: list_all2_conv_all_nth in_set_conv_nth)
  qed (use S' A(4) in auto)
  have "length sent \<le> length as" using sub by (rule list_emb_length)
  moreover have "i \<in> a_task_id ` set sent \<or> map_of (sc_tasks (sy_sched s)) i = Some t'
      \<or> (\<exists>t. map_of (sc_tasks (sy_sched s)) i = Some t \<and> t_status t = QUEUED)
         \<and> t_worker_id t' = [] \<and> (t_status t' = QUEUED \<or> t_status t' = CANCELLED)"
    if "map_of (sc_tasks (sy_sched s')) i = Some t'" for i t'
  proof (cases "i \<in> a_task_id ` set as")
    case True
    then obtain a where a: "a \<in> set as" "i = a_task_id a" by blast
    show ?thesis
    proof (cases "a \<in> set sent")
      case False
      then have "\<exists>t. map_of (sc_tasks (sy_sched s')) i = Some t \<and> t_worker_id t = []
          \<and> (t_status t = QUEUED \<or> t_status t = CANCELLED)" using S' a by blast
      then show ?thesis using that A(3) [OF a(1)] a(2) by auto
    qed (use a(2) in blast)
  next
    case False
    then show ?thesis using that A(4) [OF False] S' by simp
  qed
  ultimately show ?thesis
    using js r list_all2_lengthD [OF js(2)] dist slots
    by (intro exI [of _ sent] exI [of _ js]) (simp add: new_result_def)
qed

text \<open>Two workers with a connection each, one pass.\<close>

definition demo_net :: net where
  "demo_net = \<lparr>nt_registry = snd (bindWithHandle ''w2'' (Some 5) (snd (bindWithHandle ''w1'' (Some 4) new_registry))),
     nt_conns = [(4, new_connection 0), (5, new_connection 0)],
     nt_jobs = [], nt_protocol_version = 1, nt_next_request_id = 1\<rparr>"

definition demo_net_env :: net_env where
  "demo_net_env = \<lparr>ne_codec = \<lparr>jdump = \<lambda>_. Some ''{}'', jparse = \<lambda>_. None\<rparr>, ne_accepting = \<lambda>_. True\<rparr>"

lemma demo_dispatch:
  "fst (dispatch demo_net_env ''w1'' t demo_net)"
  "fst (dispatch demo_net_env ''w2'' u (snd (dispatch demo_net_env ''w1'' t demo_net)))"
  by (simp_all add: dispatch_def demo_net_def demo_net_env_def hasConnection_def getConnection_def live_def
      bindWithHandle_def new_registry_def isConnected_def new_connection_def buildTaskAssignMessage_def
      ProtocolCodec_encode_def MessageCodec_encode_frame kMaxBodyLenght_def net_send_def sendPacket_def
      isDisconnected_def frame_def htonl_def split: prod.split)

lemma demo_pass:
  "fst (schedule demo_env demo_queued) =
     Inr [\<lparr>a_task_id = 2, a_worker_id = ''w1''\<rparr>, \<lparr>a_task_id = 1, a_worker_id = ''w2''\<rparr>]"
  by code_simp

theorem pass_delivers_or_takes_back_witness:
  "\<exists>r s' n' sent js. runOnce demo_env (alone (dispatch demo_net_env)) (demo_queued, demo_net) = (Inr r, (s', n'))
     \<and> nt_jobs n' = js \<and> length js = 2
     \<and> list_all2 (\<lambda>a j. \<exists>t. assigned_to s' a t \<and> carries_task demo_net_env demo_net (a_worker_id a) t j) sent js"
proof -
  define a where "a = \<lparr>a_task_id = 2 :: u64, a_worker_id = ''w1''\<rparr>"
  define b where "b = \<lparr>a_task_id = 1 :: u64, a_worker_id = ''w2''\<rparr>"
  obtain s1 where sch: "schedule demo_env demo_queued = (Inr [a, b], s1)"
    using demo_pass by (metis a_def b_def prod.collapse)
  note inv = reachable_inv [OF reachable_demo_queued]
  obtain t u where t: "assigned_to s1 a t" and u: "assigned_to s1 b u"
    using schedule_assigned(2) [OF inv sch, of a] schedule_assigned(2) [OF inv sch, of b] by auto
  define n1 where "n1 = snd (dispatch demo_net_env (a_worker_id a) t demo_net)"
  define n2 where "n2 = snd (dispatch demo_net_env (a_worker_id b) u n1)"
  have d: "dispatch demo_net_env (a_worker_id a) t demo_net = (True, n1)"
    "dispatch demo_net_env (a_worker_id b) u n1 = (True, n2)"
    using demo_dispatch by (simp_all add: prod_eq_iff n1_def n2_def a_def b_def)
  define r where "r = new_result\<lparr>sr_assigned_count := 2, sr_dispatched_count := 2\<rparr>"
  have run: "runOnce demo_env (alone (dispatch demo_net_env)) (demo_queued, demo_net) = (Inr r, (s1, n2))"
    using dispatch_assigned [OF t, of "dispatch demo_net_env" demo_net] d
      dispatch_assigned [OF u, of "dispatch demo_net_env" n1]
    by (simp add: runOnce_def sch r_def new_result_def)
  have "length (sc_queue (sy_sched demo_queued)) \<le> 4" "sc_next_sequence (sy_sched demo_queued) \<le> 4" by code_simp+
  then have rm: "room (length (sc_queue (sy_sched demo_queued))) demo_queued"
    by (simp add: room_def word_le_nat_alt)
  have "nt_jobs demo_net = []" "sr_dispatched_count r = 2" by (simp_all add: demo_net_def r_def)
  with pass_delivers_or_takes_back [OF reachable_demo_queued rm run] run show ?thesis by fastforce
qed

end
