(* ===== verification/Driver.thy ===== *)
theory Driver
  imports Main
begin

text \<open>
  \<^verbatim>\<open>server/src/SchedulingDriver.cpp\<close>: scheduling requests from any thread are coalesced so that one
  pass runs at a time and no request is lost. The function is cut at its lock: a request enters,
  the thread that became the runner starts a pass (with the lock released), and ends it. Threads
  interleave freely between the cuts.
\<close>

section \<open>The driver\<close>

record SchedulingDriver =
  sd_running :: bool
  sd_pending :: bool

definition new_driver :: SchedulingDriver where
  "new_driver = \<lparr>sd_running = False, sd_pending = False\<rparr>"

text \<open>Entry: register the request; true when the calling thread becomes the runner.\<close>

definition request_enter :: "SchedulingDriver \<Rightarrow> bool \<times> SchedulingDriver" where
  "request_enter d =
     (let d1 = d\<lparr>sd_pending := True\<rparr> in
      if sd_running d1 then (False, d1) else (True, d1\<lparr>sd_running := True\<rparr>))"

text \<open>The head of the loop body, up to the release of the lock.\<close>

definition pass_begin :: "SchedulingDriver \<Rightarrow> SchedulingDriver" where
  "pass_begin d = d\<lparr>sd_pending := False\<rparr>"

text \<open>After the pass, with the lock taken again: true when the loop goes round.\<close>

definition pass_end :: "SchedulingDriver \<Rightarrow> bool \<times> SchedulingDriver" where
  "pass_end d = (if sd_pending d then (True, d) else (False, d\<lparr>sd_running := False\<rparr>))"

section \<open>Threads\<close>

text \<open>
  Threads inside \<^verbatim>\<open>requestSchedule\<close>, each at the head of the loop or in a pass. The history counts
  the requests, and for every pass begun the number of requests made before it began. The code
  holds the lock from the entry to the first head and from the end of a pass to the next head;
  here other threads may act there too, so the model has more interleavings than the code.
\<close>

datatype at = Head | In_pass

record driver_run =
  dv_driver :: SchedulingDriver
  dv_threads :: "at list"
  dv_requests :: nat
  dv_begun :: "nat list"
  dv_ended :: nat

definition dv_start :: driver_run where
  "dv_start = \<lparr>dv_driver = new_driver, dv_threads = [], dv_requests = 0, dv_begun = [], dv_ended = 0\<rparr>"

definition dv_request :: "driver_run \<Rightarrow> driver_run" where
  "dv_request s =
     (case request_enter (dv_driver s) of (runner, d) \<Rightarrow>
        s\<lparr>dv_driver := d, dv_requests := dv_requests s + 1,
          dv_threads := (if runner then dv_threads s @ [Head] else dv_threads s)\<rparr>)"

definition dv_begin :: "nat \<Rightarrow> driver_run \<Rightarrow> driver_run" where
  "dv_begin k s =
     s\<lparr>dv_driver := pass_begin (dv_driver s), dv_threads := (dv_threads s)[k := In_pass],
       dv_begun := dv_begun s @ [dv_requests s]\<rparr>"

definition dv_end :: "nat \<Rightarrow> driver_run \<Rightarrow> driver_run" where
  "dv_end k s =
     (case pass_end (dv_driver s) of (again, d) \<Rightarrow>
        s\<lparr>dv_driver := d, dv_ended := dv_ended s + 1,
          dv_threads := (if again then (dv_threads s)[k := Head] else take k (dv_threads s) @ drop (Suc k) (dv_threads s))\<rparr>)"

inductive dv_step :: "driver_run \<Rightarrow> driver_run \<Rightarrow> bool" where
  dv_step_request: "dv_step s (dv_request s)"
| dv_step_begin: "k < length (dv_threads s) \<Longrightarrow> dv_threads s ! k = Head \<Longrightarrow> dv_step s (dv_begin k s)"
| dv_step_end: "k < length (dv_threads s) \<Longrightarrow> dv_threads s ! k = In_pass \<Longrightarrow> dv_step s (dv_end k s)"

inductive dv_reachable :: "driver_run \<Rightarrow> bool" where
  dv_init: "dv_reachable dv_start"
| dv_next: "dv_reachable s \<Longrightarrow> dv_step s s' \<Longrightarrow> dv_reachable s'"

text \<open>Requests not yet covered by a pass that began after them.\<close>

definition uncovered :: "driver_run \<Rightarrow> nat" where
  "uncovered s = dv_requests s - (if dv_begun s = [] then 0 else last (dv_begun s))"

definition dv_inv :: "driver_run \<Rightarrow> bool" where
  "dv_inv s \<longleftrightarrow>
     length (dv_threads s) = (if sd_running (dv_driver s) then 1 else 0)
     \<and> (0 < uncovered s \<longleftrightarrow> sd_pending (dv_driver s))
     \<and> (Head \<in> set (dv_threads s) \<longrightarrow> sd_pending (dv_driver s))
     \<and> (sd_pending (dv_driver s) \<longrightarrow> sd_running (dv_driver s))
     \<and> (\<forall>n \<in> set (dv_begun s). n \<le> dv_requests s)
     \<and> length (dv_begun s) = dv_ended s + length (filter (\<lambda>a. a = In_pass) (dv_threads s))"

lemma dv_one_thread:
  "dv_inv s \<Longrightarrow> k < length (dv_threads s) \<Longrightarrow> dv_threads s ! k = a \<Longrightarrow> k = 0 \<and> dv_threads s = [a] \<and> sd_running (dv_driver s)"
  by (cases "dv_threads s") (auto simp: dv_inv_def split: if_splits)

lemma dv_step_inv: "dv_step s s' \<Longrightarrow> dv_inv s \<Longrightarrow> dv_inv s'"
proof (induction rule: dv_step.induct)
  case (dv_step_request s)
  have "dv_begun s \<noteq> [] \<Longrightarrow> last (dv_begun s) < Suc (dv_requests s)"
    using dv_step_request last_in_set [of "dv_begun s"] by (auto simp: dv_inv_def less_Suc_eq_le)
  with dv_step_request show ?case
    by (auto simp: dv_inv_def dv_request_def request_enter_def Let_def uncovered_def)
next
  case (dv_step_begin k s)
  with dv_one_thread [of s k] show ?case
    by (auto simp: dv_inv_def dv_begin_def pass_begin_def uncovered_def)
next
  case (dv_step_end k s)
  with dv_one_thread [of s k] show ?case
    by (auto simp: dv_inv_def dv_end_def pass_end_def uncovered_def)
qed

lemma dv_reachable_inv: "dv_reachable s \<Longrightarrow> dv_inv s"
proof (induction rule: dv_reachable.induct)
  case dv_init
  then show ?case by (simp add: dv_inv_def dv_start_def new_driver_def uncovered_def)
qed (rule dv_step_inv)

text \<open>With no further request the runner is back to idle after at most two passes.\<close>

definition dv_work :: "driver_run \<Rightarrow> nat" where
  "dv_work s =
     2 * (if sd_pending (dv_driver s) then 1 else 0) + length (filter (\<lambda>a. a = In_pass) (dv_threads s))"

lemma dv_progress:
  assumes "dv_inv s" and "dv_threads s \<noteq> []"
  shows "\<exists>s'. dv_step s s' \<and> dv_requests s' = dv_requests s \<and> dv_work s' < dv_work s"
proof -
  have "0 < length (dv_threads s)" using assms(2) by simp
  from dv_one_thread [OF assms(1) this refl] obtain a where th: "dv_threads s = [a]" by metis
  show ?thesis
  proof (cases a)
    case Head
    then have "dv_step s (dv_begin 0 s)" using th by (auto intro: dv_step.intros)
    moreover have "sd_pending (dv_driver s)" using assms(1) th Head by (auto simp: dv_inv_def)
    ultimately show ?thesis using th Head
      by (intro exI [of _ "dv_begin 0 s"]) (simp add: dv_work_def dv_begin_def pass_begin_def)
  next
    case In_pass
    then have "dv_step s (dv_end 0 s)" using th by (auto intro: dv_step.intros)
    then show ?thesis using th In_pass
      by (intro exI [of _ "dv_end 0 s"]) (simp add: dv_work_def dv_end_def pass_end_def)
  qed
qed

lemma dv_quiesce:
  assumes "dv_reachable s"
  shows "\<exists>s'. dv_step\<^sup>*\<^sup>* s s' \<and> dv_reachable s' \<and> dv_requests s' = dv_requests s \<and> dv_threads s' = []"
  using assms
proof (induction "dv_work s" arbitrary: s rule: less_induct)
  case less
  show ?case
  proof (cases "dv_threads s = []")
    case False
    obtain s1 where s1: "dv_step s s1" "dv_requests s1 = dv_requests s" "dv_work s1 < dv_work s"
      using dv_progress [OF dv_reachable_inv [OF less.prems] False] by blast
    from less.hyps [OF s1(3)] dv_next [OF less.prems s1(1)] obtain s' where
      "dv_step\<^sup>*\<^sup>* s1 s'" "dv_reachable s'" "dv_requests s' = dv_requests s1" "dv_threads s' = []" by blast
    with s1 show ?thesis by (metis converse_rtranclp_into_rtranclp)
  qed (use less.prems in blast)
qed

text \<open>
  C28. No scheduling request is lost and passes never overlap, under every interleaving of threads:
  at most one thread is inside the loop; when the driver is idle every request made so far was
  followed by a pass that began after it and has ended; and from every reachable state, passes
  that end bring the driver to that idle state without any further request.
\<close>

theorem no_request_lost:
  assumes "dv_reachable s"
  shows "length (dv_threads s) \<le> 1
    \<and> (\<not> sd_running (dv_driver s) \<longrightarrow> 0 < dv_requests s \<longrightarrow>
         dv_begun s \<noteq> [] \<and> last (dv_begun s) = dv_requests s \<and> dv_ended s = length (dv_begun s))
    \<and> (\<exists>s'. dv_step\<^sup>*\<^sup>* s s' \<and> dv_requests s' = dv_requests s \<and> \<not> sd_running (dv_driver s'))"
proof (intro conjI)
  note inv = dv_reachable_inv [OF assms, unfolded dv_inv_def]
  show "length (dv_threads s) \<le> 1" using inv by (auto split: if_splits)
  show "\<not> sd_running (dv_driver s) \<longrightarrow> 0 < dv_requests s \<longrightarrow>
      dv_begun s \<noteq> [] \<and> last (dv_begun s) = dv_requests s \<and> dv_ended s = length (dv_begun s)"
  proof (intro impI)
    assume idle: "\<not> sd_running (dv_driver s)" and "0 < dv_requests s"
    then have none: "uncovered s = 0" and th: "dv_threads s = []" using inv by auto
    then have "dv_begun s \<noteq> []" using \<open>0 < dv_requests s\<close> by (auto simp: uncovered_def)
    then show "dv_begun s \<noteq> [] \<and> last (dv_begun s) = dv_requests s \<and> dv_ended s = length (dv_begun s)"
      using none th inv last_in_set [of "dv_begun s"] by (fastforce simp: uncovered_def)
  qed
  obtain s' where s': "dv_step\<^sup>*\<^sup>* s s'" "dv_reachable s'" "dv_requests s' = dv_requests s" "dv_threads s' = []"
    using dv_quiesce [OF assms] by blast
  have "\<not> sd_running (dv_driver s')" using dv_reachable_inv [OF s'(2)] s'(4) by (auto simp: dv_inv_def)
  with s' show "\<exists>s'. dv_step\<^sup>*\<^sup>* s s' \<and> dv_requests s' = dv_requests s \<and> \<not> sd_running (dv_driver s')" by blast
qed

text \<open>A request that arrives during a pass causes a second one.\<close>

definition demo_driver :: driver_run where
  "demo_driver = dv_end 0 (dv_begin 0 (dv_end 0 (dv_request (dv_begin 0 (dv_request dv_start)))))"

lemma dv_reachable_demo: "dv_reachable demo_driver"
  unfolding demo_driver_def
  by (intro dv_next [OF _ dv_step_end] dv_next [OF _ dv_step_begin] dv_next [OF _ dv_step_request] dv_init)
     (simp_all add: dv_start_def new_driver_def dv_request_def request_enter_def dv_begin_def pass_begin_def
       dv_end_def pass_end_def)

theorem no_request_lost_witness:
  "\<not> sd_running (dv_driver demo_driver) \<and> dv_requests demo_driver = 2
   \<and> last (dv_begun demo_driver) = dv_requests demo_driver \<and> dv_ended demo_driver = 2"
proof -
  have "\<not> sd_running (dv_driver demo_driver)" "dv_requests demo_driver = 2" "length (dv_begun demo_driver) = 2"
    by (simp_all add: demo_driver_def dv_start_def new_driver_def dv_request_def request_enter_def dv_begin_def
        pass_begin_def dv_end_def pass_end_def)
  with no_request_lost [OF dv_reachable_demo] show ?thesis by simp
qed

end
