(* ===== verification/Archive.thy ===== *)
theory Archive
  imports Json "HOL-Library.Sublist"
begin

text \<open>
  \<^verbatim>\<open>server/src/RunLogArchive.cpp\<close>: the per-run log files workers upload and clients read. The file
  system below the configured root is a table from (task id, run id, file name) to the bytes of the
  file and whether its \<^verbatim>\<open>.done\<close> marker exists. Every step that may fail in the kernel fails or not as
  the argument \<open>io\<close> says, a write possibly after part of its bytes; the archive's own root is
  assumed free of symbolic links, which the code refuses to follow. Retention (\<open>pruneOlderThan\<close>)
  sees for every run the entries of its directory with their times.
\<close>

section \<open>Names and hexadecimal text\<close>

definition kFileLimit :: nat where
  "kFileLimit = 1024 * 1024 * 1024"

definition kChunkLimit :: nat where
  "kChunkLimit = 16384"

definition archive_names :: "string list" where
  "archive_names = [''stdout.log'', ''stderr.log'', ''result.env'', ''result.json'', ''flow_config'',
     ''evidence.run'', ''runner.log'', ''case-run.log'']"

definition nibble :: "char \<Rightarrow> int" where
  "nibble c =
     (if CHR ''0'' \<le> c \<and> c \<le> CHR ''9'' then of_char c - of_char (CHR ''0'')
      else if CHR ''a'' \<le> c \<and> c \<le> CHR ''f'' then of_char c - of_char (CHR ''a'') + 10
      else if CHR ''A'' \<le> c \<and> c \<le> CHR ''F'' then of_char c - of_char (CHR ''A'') + 10
      else - 1)"

fun decode_pairs :: "string \<Rightarrow> exn + string" where
  "decode_pairs (x # y # rest) =
     (let a = nibble x; b = nibble y in
      if a < 0 \<or> b < 0 then Inl (Invalid_argument ''invalid log hex'')
      else rbind (decode_pairs rest) (\<lambda>out. Inr (char_of (nat (a * 16 + b)) # out)))"
| "decode_pairs _ = Inr []"

definition hex_decode :: "string \<Rightarrow> exn + string" where
  "hex_decode value =
     (if 2 * kChunkLimit < length value \<or> odd (length value) then Inl (Invalid_argument ''invalid log chunk length'')
      else decode_pairs value)"

definition hex_encode :: "string \<Rightarrow> string" where
  "hex_encode value =
     concat (map (\<lambda>c. [''0123456789abcdef'' ! (of_char c div 16), ''0123456789abcdef'' ! (of_char c mod 16)]) value)"

definition run_id_char :: "char \<Rightarrow> bool" where
  "run_id_char c \<longleftrightarrow>
     list_ex (\<lambda>(first, final). first \<le> c \<and> c \<le> final)
       [(CHR ''a'', CHR ''z''), (CHR ''A'', CHR ''Z''), (CHR ''0'', CHR ''9'')] \<or> c \<in> {CHR ''-'', CHR ''_''}"

definition validRunId :: "string \<Rightarrow> bool" where
  "validRunId value \<longleftrightarrow> value \<noteq> [] \<and> length value \<le> 128 \<and> list_all run_id_char value"

definition validName :: "string \<Rightarrow> bool" where
  "validName value \<longleftrightarrow> value \<in> set archive_names"

section \<open>The archive\<close>

type_synonym log_file = "u64 \<times> string \<times> string"

text \<open>The bytes of a file, if it exists, and its marker.\<close>

record log_entry =
  le_bytes :: string
  le_done :: bool

type_synonym archive = "(log_file \<times> log_entry) list"

datatype io = Io_ok | Io_open_fails | Io_write_fails nat | Io_sync_fails | Io_marker_fails | Io_marker_sync_fails

definition archive_file :: "u64 \<Rightarrow> string \<Rightarrow> string \<Rightarrow> exn + log_file" where
  "archive_file task_id run_id name =
     (if task_id = 0 \<or> \<not> validRunId run_id \<or> \<not> validName name then Inl (Invalid_argument ''invalid log identity'')
      else Inr (task_id, run_id, name))"

definition log_lookup :: "log_file \<Rightarrow> archive \<Rightarrow> log_entry" where
  "log_lookup f ar = (case map_of ar f of None \<Rightarrow> \<lparr>le_bytes = [], le_done = False\<rparr> | Some en \<Rightarrow> en)"

definition append_reply :: "nat \<Rightarrow> bool \<Rightarrow> json" where
  "append_reply next fin = jobject [(''next_offset'', juint next), (''complete'', JBool fin)]"

text \<open>
  From the opening of the file on. Opening creates it; a failing write leaves the part that was
  written; the marker is created before its own sync may fail.
\<close>

definition append_open :: "io \<Rightarrow> log_file \<Rightarrow> nat \<Rightarrow> string \<Rightarrow> bool \<Rightarrow> (archive, json) op" where
  "append_open io f offset bytes fin ar =
     (if io = Io_open_fails then (Inl (Runtime_error ''cannot open log file''), ar)
      else
        (let en = log_lookup f ar; ar1 = AList.update f en ar; size = length (le_bytes en) in
         if kFileLimit < size then (Inl (Runtime_error ''log file limit exceeded''), ar1)
         else if offset \<noteq> size \<or> le_done en then (Inr (append_reply size (le_done en)), ar1)
         else
           (case io of
              Io_write_fails k \<Rightarrow>
                (Inl (Runtime_error ''log write failed''),
                 AList.update f (en\<lparr>le_bytes := le_bytes en @ take k bytes\<rparr>) ar1)
            | Io_sync_fails \<Rightarrow>
                (Inl (Runtime_error ''log sync failed''), AList.update f (en\<lparr>le_bytes := le_bytes en @ bytes\<rparr>) ar1)
            | _ \<Rightarrow>
                (let en2 = en\<lparr>le_bytes := le_bytes en @ bytes\<rparr> in
                 if fin \<and> io = Io_marker_fails
                 then (Inl (Runtime_error ''cannot complete log file''), AList.update f en2 ar1)
                 else if fin \<and> io = Io_marker_sync_fails
                 then (Inl (Runtime_error ''cannot sync log marker''), AList.update f (en2\<lparr>le_done := True\<rparr>) ar1)
                 else (Inr (append_reply (size + length bytes) fin),
                       AList.update f (en2\<lparr>le_done := fin\<rparr>) ar1)))))"

definition log_append :: "io \<Rightarrow> u64 \<Rightarrow> string \<Rightarrow> string \<Rightarrow> u64 \<Rightarrow> string \<Rightarrow> bool \<Rightarrow> (archive, json) op" where
  "log_append io task_id run_id name offset hex fin ar =
     (case hex_decode hex of
        Inl x \<Rightarrow> (Inl x, ar)
      | Inr bytes \<Rightarrow>
          if kFileLimit < unat offset \<or> kFileLimit - unat offset < length bytes
          then (Inl (Invalid_argument ''log file limit exceeded''), ar)
          else
            (case archive_file task_id run_id name of
               Inl x \<Rightarrow> (Inl x, ar)
             | Inr f \<Rightarrow> append_open io f (unat offset) bytes fin ar))"

definition log_item :: "archive \<Rightarrow> u64 \<Rightarrow> string \<Rightarrow> string \<Rightarrow> json option" where
  "log_item ar task_id run_id name =
     map_option (\<lambda>en. jobject [(''name'', JString name), (''size'', juint (length (le_bytes en))),
        (''complete'', JBool (le_done en))]) (map_of ar (task_id, run_id, name))"

definition log_list :: "u64 \<Rightarrow> string \<Rightarrow> archive \<Rightarrow> exn + json" where
  "log_list task_id run_id ar =
     (if task_id = 0 \<or> \<not> validRunId run_id then Inl (Invalid_argument ''invalid log identity'')
      else Inr (jobject [(''task_id'', JUnsigned task_id), (''run_id'', JString run_id),
        (''items'', JArray (List.map_filter (log_item ar task_id run_id) archive_names))]))"

text \<open>\<open>got\<close> is the number of bytes \<^verbatim>\<open>pread\<close> returns, at most what was asked for.\<close>

definition log_read :: "nat \<Rightarrow> u64 \<Rightarrow> string \<Rightarrow> string \<Rightarrow> u64 \<Rightarrow> nat \<Rightarrow> archive \<Rightarrow> exn + json" where
  "log_read got task_id run_id name offset limit ar =
     (if limit = 0 \<or> kChunkLimit < limit then Inl (Invalid_argument ''invalid log read limit'')
      else
        rbind (archive_file task_id run_id name) (\<lambda>f.
          (case map_of ar f of
             None \<Rightarrow> Inl (Invalid_argument ''log file not found'')
           | Some en \<Rightarrow>
               if length (le_bytes en) < unat offset then Inl (Invalid_argument ''log offset beyond end'')
               else
                 (let bytes = take got (take limit (drop (unat offset) (le_bytes en))) in
                  Inr (jobject [(''task_id'', JUnsigned task_id), (''run_id'', JString run_id), (''name'', JString name),
                    (''offset'', JUnsigned offset), (''next_offset'', juint (unat offset + length bytes)),
                    (''size'', juint (length (le_bytes en))), (''complete'', JBool (le_done en)),
                    (''data_hex'', JString (hex_encode bytes))])))))"

section \<open>Retention\<close>

text \<open>The directory tree below the root as the iteration sees it; times are clock ticks (ns).\<close>

record dir_entry =
  de_name :: string
  de_symlink :: bool
  de_regular :: bool
  de_time :: int

record run_dir =
  rd_name :: string
  rd_symlink :: bool
  rd_directory :: bool
  rd_entries :: "dir_entry list"

record task_dir =
  td_name :: string
  td_symlink :: bool
  td_directory :: bool
  td_runs :: "run_dir list"

definition strip_done :: "string \<Rightarrow> string" where
  "strip_done filename =
     (if 5 < length filename \<and> drop (length filename - 5) filename = ''.done''
      then take (length filename - 5) filename else filename)"

definition prunable :: "int \<Rightarrow> run_dir \<Rightarrow> bool" where
  "prunable cutoff run \<longleftrightarrow>
     \<not> rd_symlink run \<and> rd_directory run \<and> validRunId (rd_name run)
     \<and> list_all (\<lambda>en. \<not> de_symlink en \<and> de_regular en \<and> validName (strip_done (de_name en))) (rd_entries run)
     \<and> rd_entries run \<noteq> [] \<and> Max (de_time ` set (rd_entries run)) < cutoff"

definition prune_task :: "int \<Rightarrow> task_dir \<Rightarrow> nat \<times> task_dir list" where
  "prune_task cutoff td =
     (if td_symlink td \<or> \<not> td_directory td \<or> td_name td = [] \<or> hd (td_name td) = CHR ''0''
         \<or> \<not> list_all (\<lambda>c. CHR ''0'' \<le> c \<and> c \<le> CHR ''9'') (td_name td) then (0, [td])
      else
        (let kept = filter (\<lambda>run. \<not> prunable cutoff run) (td_runs td) in
         (length (td_runs td) - length kept, if kept = [] then [] else [td\<lparr>td_runs := kept\<rparr>])))"

definition pruneOlderThan :: "int \<Rightarrow> int \<Rightarrow> task_dir list \<Rightarrow> exn + nat \<times> task_dir list" where
  "pruneOlderThan days now tree =
     (if days < 1 \<or> 3650 < days then Inl (Invalid_argument ''invalid log retention days'')
      else
        (let cutoff = now - 24 * days * 3600 * 1000000000; parts = map (prune_task cutoff) tree in
         Inr (sum_list (map fst parts), concat (map snd parts))))"

text \<open>A run with a file younger than the retention period stays, with all its files.\<close>

lemma prune_keeps_recent:
  assumes "pruneOlderThan days now tree = Inr (n, tree')" and "td \<in> set tree" and "run \<in> set (td_runs td)"
    and "en \<in> set (rd_entries run)" and "now - 24 * days * 3600 * 1000000000 \<le> de_time en"
  shows "\<exists>td' \<in> set tree'. td_name td' = td_name td \<and> run \<in> set (td_runs td')"
proof -
  define cutoff where "cutoff = now - 24 * days * 3600 * 1000000000"
  have tree': "tree' = concat (map (\<lambda>td. snd (prune_task cutoff td)) tree)"
    using assms(1) by (auto simp: pruneOlderThan_def Let_def cutoff_def comp_def split: if_splits)
  have "de_time en \<le> Max (de_time ` set (rd_entries run))" using assms(4) by (intro Max_ge) auto
  then have "\<not> prunable cutoff run" using assms(5) by (auto simp: prunable_def cutoff_def)
  then have "\<exists>td' \<in> set (snd (prune_task cutoff td)). td_name td' = td_name td \<and> run \<in> set (td_runs td')"
    using assms(3) by (auto simp: prune_task_def Let_def filter_empty_conv)
  then show ?thesis unfolding tree' using assms(2) by auto
qed

section \<open>Hexadecimal text round trips\<close>

lemma nibble_digit: "n < 16 \<Longrightarrow> nibble (''0123456789abcdef'' ! n) = int n"
proof -
  have "\<forall>n \<in> set [0..<16]. nibble (''0123456789abcdef'' ! n) = int n" by code_simp
  then show "n < 16 \<Longrightarrow> nibble (''0123456789abcdef'' ! n) = int n" by auto
qed

lemma decode_encode: "decode_pairs (hex_encode s) = Inr s"
proof (induction s)
  case (Cons c s)
  define v :: nat where "v = of_char c"
  have v: "v < 256" by (simp add: v_def)
  have "nibble (''0123456789abcdef'' ! (v div 16)) = int (v div 16)" "nibble (''0123456789abcdef'' ! (v mod 16)) = int (v mod 16)"
    using v by (intro nibble_digit, simp)+
  moreover have "nat (int (v div 16) * 16 + int (v mod 16)) = v"
    by (simp flip: of_nat_mult of_nat_add add: zmod_int zdiv_int)
  ultimately show ?case
    using Cons.IH by (simp add: hex_encode_def Let_def v_def)
qed (simp add: hex_encode_def)

lemma length_hex_encode: "length (hex_encode s) = 2 * length s"
  by (induction s) (simp_all add: hex_encode_def)

lemma hex_roundtrip: "length s \<le> kChunkLimit \<Longrightarrow> hex_decode (hex_encode s) = Inr s"
  by (simp add: hex_decode_def length_hex_encode decode_encode)

section \<open>Uploads are resumable\<close>

text \<open>
  Append requests for one file, with what the kernel does to each. A request comes from a source
  \<open>d\<close> when it carries the bytes of \<open>d\<close> at its offset, and asks for completion only with the last
  of them; nothing is said about their order or number.
\<close>

type_synonym append_request = "io \<times> u64 \<times> string \<times> bool"

fun uploads :: "u64 \<Rightarrow> string \<Rightarrow> string \<Rightarrow> append_request list \<Rightarrow> archive \<Rightarrow> archive" where
  "uploads task_id run_id name [] ar = ar"
| "uploads task_id run_id name ((io, offset, hex, fin) # rest) ar =
     uploads task_id run_id name rest (snd (log_append io task_id run_id name offset hex fin ar))"

fun from_source :: "string \<Rightarrow> append_request \<Rightarrow> bool" where
  "from_source d (io, offset, hex, fin) \<longleftrightarrow>
     (case hex_decode hex of
        Inl _ \<Rightarrow> False
      | Inr bytes \<Rightarrow> unat offset \<le> length d \<and> prefix bytes (drop (unat offset) d)
                     \<and> (fin \<longrightarrow> unat offset + length bytes = length d))"

definition holds_part :: "string \<Rightarrow> log_entry \<Rightarrow> bool" where
  "holds_part d en \<longleftrightarrow> prefix (le_bytes en) d \<and> (le_done en \<longrightarrow> le_bytes en = d)"

lemma prefix_extend: "prefix x d \<Longrightarrow> prefix b (drop (length x) d) \<Longrightarrow> prefix (x @ take k b) d"
  by (auto simp: prefix_def) (metis append.assoc append_take_drop_id)

lemma append_open_part:
  assumes "holds_part d (log_lookup f ar)" and "offset \<le> length d" and "prefix bytes (drop offset d)"
    and "fin \<longrightarrow> offset + length bytes = length d"
  shows "holds_part d (log_lookup f (snd (append_open io f offset bytes fin ar)))"
    and "g \<noteq> f \<Longrightarrow> map_of (snd (append_open io f offset bytes fin ar)) g = map_of ar g"
proof -
  define en where "en = log_lookup f ar"
  have lk: "log_lookup f (AList.update f en' ar') = en'" for en' ar' by (simp add: log_lookup_def)
  have ext: "prefix (le_bytes en @ take k bytes) d" if "offset = length (le_bytes en)" for k
    using prefix_extend [of "le_bytes en" d bytes k] assms(1,3) that by (simp add: holds_part_def en_def)
  have all: "prefix (le_bytes en @ bytes) d" if "offset = length (le_bytes en)"
    using ext [OF that, of "length bytes"] by simp
  have whole: "le_bytes en @ bytes = d" if "offset = length (le_bytes en)" "fin"
    using all [OF that(1)] assms(4) that by (auto simp: prefix_def)
  show "holds_part d (log_lookup f (snd (append_open io f offset bytes fin ar)))"
    using assms(1) ext all whole
    unfolding append_open_def Let_def en_def [symmetric]
    by (auto simp: lk en_def [symmetric] holds_part_def split: io.split)
  show "map_of (snd (append_open io f offset bytes fin ar)) g = map_of ar g" if "g \<noteq> f"
    unfolding append_open_def Let_def en_def [symmetric] using that by (auto split: io.split)
qed

lemma uploads_part:
  assumes "list_all (from_source d) ops" and "holds_part d (log_lookup (task_id, run_id, name) ar)"
  shows "holds_part d (log_lookup (task_id, run_id, name) (uploads task_id run_id name ops ar))"
    and "g \<noteq> (task_id, run_id, name) \<Longrightarrow> map_of (uploads task_id run_id name ops ar) g = map_of ar g"
proof -
  have step: "holds_part d (log_lookup (task_id, run_id, name) (snd (log_append io task_id run_id name offset hex fin ar)))
      \<and> (g \<noteq> (task_id, run_id, name) \<longrightarrow> map_of (snd (log_append io task_id run_id name offset hex fin ar)) g = map_of ar g)"
    if "from_source d (io, offset, hex, fin)" "holds_part d (log_lookup (task_id, run_id, name) ar)" for io offset hex fin ar
    using that append_open_part [of d "(task_id, run_id, name)" ar "unat offset"]
    by (auto simp: log_append_def archive_file_def split: sum.split sum.splits)
  show "holds_part d (log_lookup (task_id, run_id, name) (uploads task_id run_id name ops ar))"
    and "g \<noteq> (task_id, run_id, name) \<Longrightarrow> map_of (uploads task_id run_id name ops ar) g = map_of ar g"
    using assms step by (induction ops arbitrary: ar) auto
qed

text \<open>
  C30. The log archive stores exactly what was sent, whatever goes wrong: after any sequence of
  append requests taken from a source, duplicated, reordered or failing anywhere, even in the
  middle of a write, the file is a prefix of the source, a completed file is the whole source, and
  no other file has changed; an append at the end of an unfinished file always makes progress when
  the kernel does not fail; and every chunk a client reads decodes to the bytes of the source at
  its offset.
\<close>

theorem uploads_resumable:
  assumes "list_all (from_source d) ops" and "map_of ar (i, run, name) = None"
    and "i \<noteq> 0" and "validRunId run" and "validName name" and "length d \<le> kFileLimit"
  shows "prefix (le_bytes (log_lookup (i, run, name) (uploads i run name ops ar))) d
    \<and> (le_done (log_lookup (i, run, name) (uploads i run name ops ar)) \<longrightarrow>
         le_bytes (log_lookup (i, run, name) (uploads i run name ops ar)) = d)
    \<and> (\<forall>g. g \<noteq> (i, run, name) \<longrightarrow> map_of (uploads i run name ops ar) g = map_of ar g)
    \<and> (\<forall>n k fin. n = length (le_bytes (log_lookup (i, run, name) (uploads i run name ops ar))) \<longrightarrow> k \<le> kChunkLimit \<longrightarrow>
         \<not> le_done (log_lookup (i, run, name) (uploads i run name ops ar)) \<longrightarrow>
         fst (log_append Io_ok i run name (of_nat n) (hex_encode (take k (drop n d))) fin (uploads i run name ops ar))
           = Inr (append_reply (n + min k (length d - n)) fin))
    \<and> (\<forall>got offset limit j. log_read got i run name offset limit (uploads i run name ops ar) = Inr j \<longrightarrow>
         (\<exists>m \<le> limit. hex_decode (str_of (jget j ''data_hex''))
            = Inr (take m (drop (unat offset) (le_bytes (log_lookup (i, run, name) (uploads i run name ops ar)))))))"
proof -
  define ar' where "ar' = uploads i run name ops ar"
  define en where "en = log_lookup (i, run, name) ar'"
  have "holds_part d (log_lookup (i, run, name) ar)" using assms(2) by (simp add: holds_part_def log_lookup_def)
  note U = uploads_part [OF assms(1) this]
  have part: "holds_part d en" using U(1) by (simp add: en_def ar'_def)
  then have len: "length (le_bytes en) \<le> length d" by (auto simp: holds_part_def dest: prefix_length_le)
  have f: "archive_file i run name = Inr (i, run, name)" using assms(3-5) by (simp add: archive_file_def)
  have more: "fst (log_append Io_ok i run name (of_nat n) (hex_encode (take k (drop n d))) fin ar')
      = Inr (append_reply (n + min k (length d - n)) fin)"
    if n: "n = length (le_bytes en)" and k: "k \<le> kChunkLimit" and "\<not> le_done en" for n k fin
  proof -
    have "n \<le> kFileLimit" using n len assms(6) by simp
    then have u: "unat (of_nat n :: u64) = n" by (simp add: unat_of_nat kFileLimit_def)
    have "hex_decode (hex_encode (take k (drop n d))) = Inr (take k (drop n d))"
      by (rule hex_roundtrip) (use k in simp)
    moreover have "\<not> kFileLimit - n < length (take k (drop n d))" using n len assms(6) by auto
    ultimately show ?thesis
      using that(3) \<open>n \<le> kFileLimit\<close>
      by (simp add: log_append_def u f append_open_def Let_def en_def [symmetric] min.commute flip: n)
  qed
  have rd: "\<exists>m \<le> limit. hex_decode (str_of (jget j ''data_hex'')) = Inr (take m (drop (unat offset) (le_bytes en)))"
    if read: "log_read got i run name offset limit ar' = Inr j" for got offset limit j
  proof -
    define bytes where "bytes = take got (take limit (drop (unat offset) (le_bytes en)))"
    have "limit \<le> kChunkLimit" "jget j ''data_hex'' = JString (hex_encode bytes)"
      using read by (auto simp: log_read_def f Let_def bytes_def en_def log_lookup_def jget_def jobject_def
          split: if_splits option.splits)
    moreover have "bytes = take (min got limit) (drop (unat offset) (le_bytes en))" by (simp add: bytes_def)
    ultimately show ?thesis
      using hex_roundtrip [of bytes] by (intro exI [of _ "min got limit"]) (auto simp: min_def)
  qed
  show ?thesis
    using part U(2) more rd unfolding holds_part_def ar'_def [symmetric] en_def [symmetric] by blast
qed

text \<open>A first chunk cut in the middle by the kernel, sent again, then resumed and completed.\<close>

theorem uploads_resumable_witness:
  "le_bytes (log_lookup (5, ''r1'', ''stdout.log'') (uploads 5 ''r1'' ''stdout.log''
      [(Io_write_fails 1, 0, hex_encode ''abc'', False), (Io_ok, 0, hex_encode ''abc'', False),
       (Io_ok, 1, hex_encode ''bc'', True)] [])) = ''abc''"
proof -
  define ops where "ops = [(Io_write_fails 1, 0, hex_encode ''abc'', False), (Io_ok, 0 :: u64, hex_encode ''abc'', False),
       (Io_ok, 1, hex_encode ''bc'', True)]"
  have src: "list_all (from_source ''abc'') ops"
    unfolding ops_def by (simp add: hex_roundtrip kChunkLimit_def)
  have ok: "validRunId ''r1''" "validName ''stdout.log''" by code_simp+
  have sizes: "length ''abc'' \<le> kFileLimit" by (simp add: kFileLimit_def)
  have "le_done (log_lookup (5, ''r1'', ''stdout.log'') (uploads 5 ''r1'' ''stdout.log'' ops []))"
    using ok unfolding ops_def
    by (simp add: log_append_def hex_roundtrip kChunkLimit_def kFileLimit_def archive_file_def append_open_def Let_def log_lookup_def)
  with uploads_resumable [OF src _ _ ok sizes, of "[]" 5] show ?thesis unfolding ops_def by simp
qed

end
