(* ===== verification/Catalog.thy ===== *)
theory Catalog
  imports Regression
begin

text \<open>
  \<^verbatim>\<open>server/src/GuiCatalog.cpp\<close>: the catalog of cases, templates and revisions a client may use, scanned
  from three directories of the server and served in pages of a snapshot. The files are a
  parameter: the entries of a directory in the order the system lists them, the text of a file, and
  whether the clock has passed the deadline of the scan at its n-th entry. An exception inside one
  source is a warning of the catalog; the text of an exception of the JSON library is a stand-in.
\<close>

section \<open>Files\<close>

datatype fs_node =
    Fs_dir string "fs_node list"
  | Fs_unreadable string string
  | Fs_file string
  | Fs_symlink string
  | Fs_other string

record fs_env =
  fe_config :: "string \<Rightarrow> string"
  fe_directory :: "string \<Rightarrow> (string + fs_node list) option"
  fe_read :: "string \<Rightarrow> string option"
  fe_late :: "nat \<Rightarrow> bool"

definition readBounded :: "fs_env \<Rightarrow> string \<Rightarrow> string \<Rightarrow> nat \<Rightarrow> string + string" where
  "readBounded fe path filename limit =
     (case fe_read fe path of
        None \<Rightarrow> Inl (''cannot read '' @ filename)
      | Some v \<Rightarrow> if limit < length v then Inl (''file exceeds size limit: '' @ filename) else Inr v)"

text \<open>\<^verbatim>\<open>stem()\<close> and \<^verbatim>\<open>extension()\<close> of a file name.\<close>

definition fs_stem :: "string \<Rightarrow> string" where
  "fs_stem name =
     (case dropWhile (\<lambda>c. c \<noteq> CHR ''.'') (rev name) of [] \<Rightarrow> name | [_] \<Rightarrow> name | _ # stem \<Rightarrow> rev stem)"

definition fs_extension :: "string \<Rightarrow> string" where
  "fs_extension name = drop (length (fs_stem name)) name"

definition word_char :: "char \<Rightarrow> bool" where
  "word_char c \<longleftrightarrow> is_digit c \<or> c \<in> set ''ABCDEFGHIJKLMNOPQRSTUVWXYZ'' \<or> c \<in> set ''abcdefghijklmnopqrstuvwxyz''"

definition case_path_char :: "char \<Rightarrow> bool" where
  "case_path_char c \<longleftrightarrow> word_char c \<or> c \<in> set ''_./-''"

section \<open>Cases\<close>

record case_walk =
  cw_visited :: nat
  cw_bytes :: nat
  cw_paths :: "string list"

definition skipped_directory :: "nat \<Rightarrow> string \<Rightarrow> bool" where
  "skipped_directory depth name \<longleftrightarrow>
     32 < depth \<or> (name \<noteq> [] \<and> hd name = CHR ''.'') \<or> name = ''vivado_runner'' \<or> name = ''runtime''"

definition walk_file :: "nat \<Rightarrow> string \<Rightarrow> string \<Rightarrow> case_walk \<Rightarrow> string + case_walk" where
  "walk_file depth prefix name st =
     (let relative = prefix @ name in
      if name \<noteq> ''run.tcl'' \<or> depth = 0 then Inr st
      else if 512 < length relative \<or> \<not> list_all case_path_char relative then Inr st
      else
        (let st1 = st\<lparr>cw_bytes := cw_bytes st + length relative, cw_paths := cw_paths st @ [relative]\<rparr> in
         if 50000 < length (cw_paths st1) \<or> 16 * 1024 * 1024 < cw_bytes st1
         then Inl ''too many cases; narrow server.work_root'' else Inr st1))"

text \<open>The recursive directory iterator, in the order it visits the entries.\<close>

fun walk :: "fs_env \<Rightarrow> nat \<Rightarrow> string \<Rightarrow> fs_node list \<Rightarrow> case_walk \<Rightarrow> string + case_walk" where
  "walk fe depth prefix [] st = Inr st"
| "walk fe depth prefix (node # rest) st =
     (let st1 = st\<lparr>cw_visited := cw_visited st + 1\<rparr> in
      if 200000 < cw_visited st1 \<or> fe_late fe (cw_visited st1)
      then Inl ''scan limit exceeded; narrow server.work_root''
      else
        (case node of
           Fs_dir name children \<Rightarrow>
             if skipped_directory depth name then walk fe depth prefix rest st1
             else
               (case walk fe (Suc depth) (prefix @ name @ ''/'') children st1 of
                  Inl x \<Rightarrow> Inl x
                | Inr st2 \<Rightarrow> walk fe depth prefix rest st2)
         | Fs_unreadable name what \<Rightarrow>
             if skipped_directory depth name then walk fe depth prefix rest st1 else Inl what
         | Fs_file name \<Rightarrow>
             (case walk_file depth prefix name st1 of Inl x \<Rightarrow> Inl x | Inr st2 \<Rightarrow> walk fe depth prefix rest st2)
         | _ \<Rightarrow> walk fe depth prefix rest st1))"

section \<open>The scan\<close>

definition add_warning :: "string \<Rightarrow> json \<Rightarrow> json" where
  "add_warning w out =
     jset out ''warnings'' (JArray ((case jget out ''warnings'' of JArray ws \<Rightarrow> ws | _ \<Rightarrow> []) @ [JString w]))"

text \<open>
  One source: what it collects changes the catalog even when it ends with an exception. \<open>Inl\<close> is
  the text of the exception.
\<close>

type_synonym collector = "fs_node list \<Rightarrow> json \<Rightarrow> (string + unit) \<times> json"

definition scan_source :: "fs_env \<Rightarrow> string \<Rightarrow> collector \<Rightarrow> json \<Rightarrow> json" where
  "scan_source fe key collect_entries out =
     (let path = fe_config fe key;
          (r, out1) =
            (if path = [] then (Inl (''configure '' @ key), out)
             else
               (case fe_directory fe path of
                  None \<Rightarrow> (Inl (key @ '' is not a readable directory''), out)
                | Some (Inl what) \<Rightarrow> (Inl what, out)
                | Some (Inr nodes) \<Rightarrow> collect_entries nodes out)) in
      (case r of
         Inr _ \<Rightarrow> jset out1 ''sources'' (jset (jget out1 ''sources'') key (JString ''READY''))
       | Inl what \<Rightarrow>
           add_warning (key @ '': '' @ what)
             (jset out1 ''sources'' (jset (jget out1 ''sources'') key (JString ''ERROR'')))))"

definition collect_cases :: "fs_env \<Rightarrow> collector" where
  "collect_cases fe nodes out =
     (case walk fe 0 [] nodes \<lparr>cw_visited = 0, cw_bytes = 0, cw_paths = []\<rparr> of
        Inl what \<Rightarrow> (Inl what, out)
      | Inr st \<Rightarrow>
          (let out1 = jset out ''cases'' (JArray (map JString (sort (cw_paths st)))) in
           (Inr (), if cw_paths st = [] then add_warning ''server.work_root: no testcase run.tcl found'' out1 else out1)))"

definition template_name_ok :: "string \<Rightarrow> bool" where
  "template_name_ok name \<longleftrightarrow>
     name \<noteq> [] \<and> length name \<le> 64 \<and> word_char (hd name) \<and> list_all (\<lambda>c. word_char c \<or> c = CHR ''_'' \<or> c = CHR ''-'') name"

definition flow_option_ok :: "string \<times> json \<Rightarrow> bool" where
  "flow_option_ok kv \<longleftrightarrow>
     (case kv of (k, v) \<Rightarrow>
        k \<noteq> [] \<and> length k \<le> 64 \<and> word_char (hd k) \<and> \<not> is_digit (hd k) \<and> list_all (\<lambda>c. word_char c \<or> c = CHR ''_'') k
        \<and> is_number_integer v \<and> \<not> jint_less v 0 \<and> \<not> jint_greater v 1000000)"

text \<open>A template that is read: its name, its flow and the bytes it counts for.\<close>

definition read_template :: "json_codec \<Rightarrow> fs_env \<Rightarrow> string \<Rightarrow> string \<Rightarrow> string + json \<times> nat" where
  "read_template jc fe dir filename =
     (let name = fs_stem filename in
      if \<not> template_name_ok name then Inl ''invalid template name''
      else
        (case readBounded fe (dir @ ''/'' @ filename) filename 65536 of
           Inl x \<Rightarrow> Inl x
         | Inr content \<Rightarrow>
             (case jparse jc content of
                None \<Rightarrow> Inl ''parse''
              | Some data \<Rightarrow>
                  (case jat data ''flow_config'' of
                     Inl _ \<Rightarrow> Inl ''at''
                   | Inr flow \<Rightarrow>
                       if \<not> is_object flow \<or> jempty flow \<or> 64 < jsize flow then Inl ''invalid flow_config''
                       else if \<not> list_all flow_option_ok (members flow) then Inl ''invalid flow_config option''
                       else
                         (case jdump jc flow of
                            None \<Rightarrow> Inl ''dump''
                          | Some s \<Rightarrow> Inr (flow, length s + length name + 32))))))"

record template_scan =
  ts_visited :: nat
  ts_bytes :: nat
  ts_templates :: json

fun scan_templates ::
  "json_codec \<Rightarrow> fs_env \<Rightarrow> string \<Rightarrow> fs_node list \<Rightarrow> template_scan \<Rightarrow> json \<Rightarrow> (string + template_scan) \<times> json" where
  "scan_templates jc fe dir [] st out = (Inr st, out)"
| "scan_templates jc fe dir (node # rest) st out =
     (let st1 = st\<lparr>ts_visited := ts_visited st + 1\<rparr> in
      if 10000 < ts_visited st1 then (Inl ''template directory entry limit exceeded'', out)
      else
        (case node of
           Fs_file filename \<Rightarrow>
             if fs_extension filename \<noteq> ''.json'' then scan_templates jc fe dir rest st1 out
             else
               (let name = fs_stem filename;
                    (st2, out1) =
                      (case read_template jc fe dir filename of
                         Inl what \<Rightarrow> (st1, add_warning (''template '' @ name @ '': '' @ what) out)
                       | Inr (flow, n) \<Rightarrow>
                           if 128 \<le> jsize (ts_templates st1) \<or> 131072 < ts_bytes st1 + n
                           then (st1, add_warning (''template '' @ name @ '': template snapshot limit exceeded'') out)
                           else (st1\<lparr>ts_templates := jset (ts_templates st1) name (jobject [(''flow_config'', flow)]),
                                     ts_bytes := ts_bytes st1 + n\<rparr>, out)) in
                if 128 < jsize (jget out1 ''warnings'') then (Inl ''too many invalid templates'', out1)
                else scan_templates jc fe dir rest st2 out1)
         | _ \<Rightarrow> scan_templates jc fe dir rest st1 out))"

definition collect_templates :: "json_codec \<Rightarrow> fs_env \<Rightarrow> collector" where
  "collect_templates jc fe nodes out =
     (case scan_templates jc fe (fe_config fe ''server.templates_dir'') nodes
             \<lparr>ts_visited = 0, ts_bytes = 0, ts_templates = JObject []\<rparr> out of
        (Inl what, out1) \<Rightarrow> (Inl what, out1)
      | (Inr st, out1) \<Rightarrow>
          (let out2 = jset out1 ''templates'' (ts_templates st) in
           (Inr (), if jempty (ts_templates st) then add_warning ''server.templates_dir: no valid templates found'' out2
                    else out2)))"

section \<open>Revisions\<close>

definition normalized :: "string \<Rightarrow> string" where
  "normalized s = (case dropWhile (\<lambda>c. c = CHR ''0'') s of [] \<Rightarrow> ''0'' | rest \<Rightarrow> rest)"

definition newer :: "string \<Rightarrow> string \<Rightarrow> bool" where
  "newer a b =
     (let x = normalized a; y = normalized b in
      if length x \<noteq> length y then length y < length x else if x \<noteq> y then y < x else b < a)"

definition version_key :: "string \<Rightarrow> nat \<times> string \<times> string" where
  "version_key a = (length (normalized a), normalized a, a)"

lemma newer_key: "newer a b \<longleftrightarrow> version_key b < version_key a"
  by (auto simp: newer_def version_key_def Let_def)

definition version_text :: "string \<Rightarrow> bool" where
  "version_text s \<longleftrightarrow> s \<noteq> [] \<and> length s \<le> 32 \<and> list_all is_digit s"

text \<open>The number in \<^verbatim>\<open>GalaxCore_N.zip\<close>.\<close>

definition archive_version :: "string \<Rightarrow> string option" where
  "archive_version name =
     (let digits = take (length name - 14) (drop 10 name) in
      if 14 < length name \<and> (take 10 name = ''GalaxCore_'' \<or> take 10 name = ''Galaxcore_'')
         \<and> drop (length name - 4) name = ''.zip'' \<and> version_text digits
      then Some digits else None)"

fun scan_versions :: "fs_node list \<Rightarrow> nat \<Rightarrow> string list \<Rightarrow> string + string list" where
  "scan_versions [] visited versions = Inr versions"
| "scan_versions (node # rest) visited versions =
     (if 200000 < visited + 1 then Inl ''artifact directory entry limit exceeded''
      else
        scan_versions rest (visited + 1)
          (case node of
             Fs_file name \<Rightarrow> (case archive_version name of None \<Rightarrow> versions | Some v \<Rightarrow> v # versions)
           | _ \<Rightarrow> versions))"

definition is_space :: "char \<Rightarrow> bool" where
  "is_space c \<longleftrightarrow> c = CHR '' '' \<or> (9 \<le> (of_char c :: nat) \<and> (of_char c :: nat) \<le> 13)"

text \<open>Words separated by white space, as \<^verbatim>\<open>operator>>\<close> reads them.\<close>

fun split_words :: "string \<Rightarrow> string \<Rightarrow> string list" where
  "split_words [] acc = (if acc = [] then [] else [acc])"
| "split_words (c # cs) acc =
     (if is_space c then (if acc = [] then split_words cs [] else acc # split_words cs [])
      else split_words cs (acc @ [c]))"

definition newest_first :: "string list \<Rightarrow> string list" where
  "newest_first vs = rev (sort_key version_key (remdups vs))"

fun pick_revisions :: "string list \<Rightarrow> nat \<Rightarrow> string list \<Rightarrow> string list" where
  "pick_revisions protected index [] = []"
| "pick_revisions protected index (v # vs) =
     (if index < 50 \<or> v \<in> set protected then v # pick_revisions protected (index + 1) vs
      else pick_revisions protected (index + 1) vs)"

definition collect_revisions :: "fs_env \<Rightarrow> collector" where
  "collect_revisions fe nodes out =
     (case scan_versions nodes 0 [] of
        Inl what \<Rightarrow> (Inl what, out)
      | Inr found \<Rightarrow>
          (let versions = newest_first found;
               path = fe_config fe ''server.protect_versions_file'';
               (protected, out1) =
                 (if path = [] then ([], out)
                  else
                    (case readBounded fe path (rev (takeWhile (\<lambda>c. c \<noteq> CHR ''/'') (rev path))) 4096 of
                       Inl what \<Rightarrow> ([], add_warning (''server.protect_versions_file: '' @ what) out)
                     | Inr content \<Rightarrow> (filter (\<lambda>w. version_text w \<and> w \<in> set versions) (split_words content []), out)));
               out2 = jset (jset out1 ''revisions'' (JArray (map JString (pick_revisions protected 0 versions))))
                        ''protected_revisions'' (JArray (map JString (filter (\<lambda>v. v \<in> set protected) versions))) in
           (Inr (), if versions = [] then add_warning ''server.artifact_root: no GalaxCore_N.zip found'' out2 else out2)))"

definition scan :: "json_codec \<Rightarrow> fs_env \<Rightarrow> json" where
  "scan jc fe =
     scan_source fe ''server.artifact_root'' (collect_revisions fe)
       (scan_source fe ''server.templates_dir'' (collect_templates jc fe)
         (scan_source fe ''server.work_root'' (collect_cases fe)
           (jobject [(''version'', jint 1), (''cases'', JArray []), (''templates'', JObject []), (''revisions'', JArray []),
              (''protected_revisions'', JArray []), (''sources'', JObject []), (''warnings'', JArray [])])))"

section \<open>The snapshots\<close>

record GuiCatalog =
  gc_snapshot :: json
  gc_recent :: "(u64 \<times> json) list"
  gc_generation :: u64
  gc_created :: time_point

definition new_catalog :: GuiCatalog where
  "new_catalog = \<lparr>gc_snapshot = JNull, gc_recent = [], gc_generation = 0, gc_created = 0\<rparr>"

text \<open>The checks of a catalog request: its offset and the generation it continues.\<close>

definition catalog_request :: "json \<Rightarrow> exn + u64 \<times> u64 option" where
  "catalog_request q =
     rbind (query_validate q [''offset'', ''snapshot_generation'', ''refresh'']) (\<lambda>_.
     let n = jget q ''offset''; continuation = contains q ''snapshot_generation''; refresh = jget q ''refresh'' in
     if contains q ''offset'' \<and> (\<not> is_number_integer n \<or> jint_less n 0 \<or> jint_greater n 50000)
     then Inl (Invalid_argument ''invalid catalog offset'')
     else if contains q ''refresh'' \<and> \<not> is_boolean refresh then Inl (Invalid_argument ''refresh must be boolean'')
     else
       rbind (if continuation then query_positive q ''snapshot_generation'' 0 else Inr 0) (\<lambda>generation.
       let offset = (if contains q ''offset'' then get_u64 n else 0) in
       if offset \<noteq> 0 \<and> \<not> continuation then Inl (Invalid_argument ''catalog offset requires snapshot_generation'')
       else if continuation \<and> bool_of refresh then Inl (Invalid_argument ''cannot refresh a continuation'')
       else Inr (offset, if continuation then Some generation else None)))"

definition catalog_rescan :: "json_codec \<Rightarrow> fs_env \<Rightarrow> time_point \<Rightarrow> GuiCatalog \<Rightarrow> GuiCatalog" where
  "catalog_rescan jc fe now st =
     (let recent = (if is_null (gc_snapshot st) then gc_recent st
                    else (let r = omap_set (gc_generation st) (gc_snapshot st) (gc_recent st) in drop (length r - 3) r)) in
      \<lparr>gc_snapshot = scan jc fe, gc_recent = recent, gc_generation = gc_generation st + 1, gc_created = now\<rparr>)"

definition catalog_page :: "json \<Rightarrow> u64 \<Rightarrow> u64 option \<Rightarrow> u64 \<Rightarrow> exn + json" where
  "catalog_page selected offset continued generation =
     (let cases = (case jget selected ''cases'' of JArray cs \<Rightarrow> cs | _ \<Rightarrow> []);
          start = unat offset; finish = min (length cases) (start + 200) in
      if length cases < start then Inl (Invalid_argument ''catalog offset exceeds total'')
      else
        (let result = jobject [(''version'', jint 1),
                 (''snapshot_generation'', JUnsigned (case continued of None \<Rightarrow> generation | Some g \<Rightarrow> g)),
                 (''total_cases'', juint (length cases)), (''cases'', JArray (take (finish - start) (drop start cases))),
                 (''next_offset'', if finish < length cases then juint finish else JNull)] in
         Inr (if continued = None
              then fold (\<lambda>key j. jset j key (jget selected key))
                     [''templates'', ''revisions'', ''protected_revisions'', ''sources'', ''warnings''] result
              else result)))"

definition catalog_query :: "json_codec \<Rightarrow> fs_env \<Rightarrow> time_point \<Rightarrow> json \<Rightarrow> (GuiCatalog, json) op" where
  "catalog_query jc fe now q st =
     (case catalog_request q of
        Inl x \<Rightarrow> (Inl x, st)
      | Inr (offset, Some generation) \<Rightarrow>
          if is_null (gc_snapshot st) \<or> (generation \<noteq> gc_generation st \<and> map_of (gc_recent st) generation = None)
          then (Inl (Logic_error ''catalog snapshot expired; refresh catalog''), st)
          else (catalog_page (if generation \<noteq> gc_generation st then the (map_of (gc_recent st) generation) else gc_snapshot st)
                  offset (Some generation) (gc_generation st), st)
      | Inr (offset, None) \<Rightarrow>
          (let st1 = (if is_null (gc_snapshot st) \<or> bool_of (jget q ''refresh'') \<or> 60000000000 < now - gc_created st
                      then catalog_rescan jc fe now st else st) in
           (catalog_page (gc_snapshot st1) offset None (gc_generation st1), st1)))"

end
