(* ===== verification/Service.thy ===== *)
theory Service
  imports Dispatch Driver Archive Catalog
begin

text \<open>
  The core the request handlers share: the scheduler with its workers and store, the network, the
  scheduling driver and the generator of task ids; \<^verbatim>\<open>SchedulingDriver::requestSchedule\<close> as a handler
  calls it; and \<^verbatim>\<open>server/src/TaskService.cpp\<close>, which turns an accepted submission into a task.

  Handlers run one at a time under the server's session mutex, so the driver is idle when one of
  them requests a pass and no other request arrives during it: the loop of the driver runs once.
  What a handler takes from outside is the record \<open>senv\<close>: the clocks, random draws and codec of
  its operations (\<open>se_env\<close>) and of the pass it may request (\<open>se_pass\<close>), the loops that accept
  packets, the configuration it reads, the files under the templates directory, what the kernel
  does to the log archive, and the steady clock, the files and the cache settings the queries use.
\<close>

section \<open>State and environment\<close>

record core =
  co_sys :: sys
  co_net :: net
  co_driver :: SchedulingDriver
  co_next_id :: u64

record senv =
  se_env :: env
  se_pass :: env
  se_accepting :: "conn_id \<Rightarrow> bool"
  se_now :: time_point
  se_templates_dir :: string
  se_file :: "string \<Rightarrow> string option"
  se_max_retries :: int
  se_instance_id :: string
  se_heartbeat_now :: time_point
  se_io :: io
  se_pread :: nat
  se_steady :: time_point
  se_cache :: cache_env
  se_fs :: fs_env

definition se_codec :: "senv \<Rightarrow> json_codec" where
  "se_codec se = e_codec (se_env se)"

definition se_net :: "senv \<Rightarrow> net_env" where
  "se_net se = \<lparr>ne_codec = se_codec se, ne_accepting = se_accepting se\<rparr>"

definition pass_env :: "senv \<Rightarrow> env" where
  "pass_env se = (se_pass se)\<lparr>e_codec := se_codec se\<rparr>"

definition on_sys :: "(sys, 'a) op \<Rightarrow> (core, 'a) op" where
  "on_sys f c = (case f (co_sys c) of (r, s) \<Rightarrow> (r, c\<lparr>co_sys := s\<rparr>))"

definition on_wm :: "(WorkerManager \<Rightarrow> bool \<times> WorkerManager) \<Rightarrow> core \<Rightarrow> bool \<times> core" where
  "on_wm f c = (case f (sy_wm (co_sys c)) of (b, wm) \<Rightarrow> (b, c\<lparr>co_sys := put_wm wm (co_sys c)\<rparr>))"

section \<open>Requesting a pass\<close>

definition requestSchedule :: "senv \<Rightarrow> (core, unit) op" where
  "requestSchedule se c =
     (case request_enter (co_driver c) of
        (False, d1) \<Rightarrow> (Inr (), c\<lparr>co_driver := d1\<rparr>)
      | (True, d1) \<Rightarrow>
          (case runOnce (pass_env se) (alone (dispatch (se_net se))) (co_sys c, co_net c) of
             (r, (s, n)) \<Rightarrow>
               (map_sum id (\<lambda>_. ()) r,
                c\<lparr>co_sys := s, co_net := n, co_driver := snd (pass_end (pass_begin d1))\<rparr>)))"

text \<open>The callers that must not fail because of a pass log its exception and go on.\<close>

definition schedule_quietly :: "senv \<Rightarrow> core \<Rightarrow> core" where
  "schedule_quietly se c = snd (requestSchedule se c)"

lemma loop_runs_once: "fst (pass_end (pass_begin d)) = False"
  by (simp add: pass_end_def pass_begin_def)

section \<open>The task service\<close>

record CreateTaskRequest =
  ct_type :: TaskType
  ct_target :: string
  ct_revision :: string
  ct_priority :: int
  ct_payload :: json
  ct_submission_key :: string

definition kMaxTaskMetadataBytes :: nat where
  "kMaxTaskMetadataBytes = 128 * 1024"

definition isPriorityValid :: "int \<Rightarrow> bool" where
  "isPriorityValid priority \<longleftrightarrow> - 100 \<le> priority \<and> priority \<le> 100"

definition fingerprint :: "CreateTaskRequest \<Rightarrow> json" where
  "fingerprint rq =
     jobject [(''type'', JString (type_toString (ct_type rq))), (''target'', JString (ct_target rq)),
              (''revision'', JString (ct_revision rq)), (''priority'', jint (ct_priority rq)),
              (''payload'', ct_payload rq)]"

text \<open>\<^verbatim>\<open>path(directory) / name\<close> for a relative name.\<close>

definition path_join :: "string \<Rightarrow> string \<Rightarrow> string" where
  "path_join directory name =
     (if directory \<noteq> [] \<and> last directory = CHR ''/'' then directory @ name else directory @ ''/'' @ name)"

text \<open>
  The payload a new task gets: a spec 1 payload takes the flow configuration of the server's
  template, when a templates directory is configured. \<open>None\<close> rejects the request.
\<close>

definition with_template :: "senv \<Rightarrow> json \<Rightarrow> exn + json option" where
  "with_template se payload =
     (if jempty payload \<or> \<not> json_eq (jget payload ''spec_version'') (jint 1) \<or> se_templates_dir se = []
      then Inr (Some payload)
      else
        (case se_file se (path_join (se_templates_dir se) (str_of (jget payload ''flow'') @ ''.json'')) of
           None \<Rightarrow> Inr None
         | Some stream \<Rightarrow>
             (case jparse (se_codec se) stream of
                None \<Rightarrow> Inr None
              | Some source \<Rightarrow>
                  if \<not> is_object source \<or> \<not> contains source ''flow_config''
                     \<or> \<not> validFlowConfig (jget source ''flow_config'') then Inr None
                  else
                    (let upgraded = jset (jset payload ''spec_version'' (jint 2)) ''flow_config''
                                      (jget source ''flow_config'') in
                     rbind (validRegressionPayload (se_codec se) upgraded)
                       (\<lambda>ok. Inr (if ok then Some upgraded else None))))))"

definition created_task :: "senv \<Rightarrow> CreateTaskRequest \<Rightarrow> json \<Rightarrow> TaskId \<Rightarrow> Task" where
  "created_task se rq payload i =
     setPayload payload (setPriority (ct_priority rq)
       (new_task i (ct_type rq) (ct_target rq) (ct_revision rq) (se_now se)))"

text \<open>From the drawing of the id on.\<close>

definition create_new :: "senv \<Rightarrow> CreateTaskRequest \<Rightarrow> string \<Rightarrow> json \<Rightarrow> (core, TaskId option) op" where
  "create_new se rq print payload c =
     (let i = co_next_id c; c1 = c\<lparr>co_next_id := i + 1\<rparr> in
      (case on_sys (submitTask (se_env se) (created_task se rq payload i) (ct_submission_key rq) print) c1 of
         (Inl x, c2) \<Rightarrow> (Inl x, c2)
       | (Inr None, c2) \<Rightarrow> (Inr None, c2)
       | (Inr (Some j), c2) \<Rightarrow> (Inr (Some j), schedule_quietly se c2)))"

definition createTask :: "senv \<Rightarrow> CreateTaskRequest \<Rightarrow> (core, TaskId option) op" where
  "createTask se rq c =
     (case jdump (se_codec se) (fingerprint rq) of
        None \<Rightarrow> (Inl (Json_error ''dump''), c)
      | Some print \<Rightarrow>
          if kMaxTaskMetadataBytes < length (ct_target rq)
             \<or> kMaxTaskMetadataBytes - length (ct_target rq) < length (ct_revision rq) then (Inr None, c)
          else
            (case findSubmittedTask (ct_submission_key rq) print (co_sys c) of
               Some prior \<Rightarrow> (Inr (Some prior), c)
             | None \<Rightarrow>
                 (case validRegressionPayload (se_codec se) (ct_payload rq) of
                    Inl x \<Rightarrow> (Inl x, c)
                  | Inr False \<Rightarrow> (Inr None, c)
                  | Inr True \<Rightarrow>
                      (case with_template se (ct_payload rq) of
                         Inl x \<Rightarrow> (Inl x, c)
                       | Inr None \<Rightarrow> (Inr None, c)
                       | Inr (Some payload) \<Rightarrow>
                           if ct_type rq = UNKNOWN \<or> ct_target rq = [] \<or> ct_revision rq = []
                              \<or> \<not> isPriorityValid (ct_priority rq) then (Inr None, c)
                           else create_new se rq print payload c))))"

definition service_cancelTask :: "senv \<Rightarrow> TaskId \<Rightarrow> (core, bool) op" where
  "service_cancelTask se i c =
     (case on_sys (cancelTask (se_env se) i) c of
        (Inl x, c1) \<Rightarrow> (Inl x, c1)
      | (Inr True, c1) \<Rightarrow> (Inr True, schedule_quietly se c1)
      | (Inr False, c1) \<Rightarrow> (Inr False, c1))"

section \<open>How far the queue grows\<close>

text \<open>One operation takes at most \<open>k\<close> sequence numbers and adds at most \<open>k\<close> queue entries.\<close>

definition grows :: "nat \<Rightarrow> sys \<Rightarrow> sys \<Rightarrow> bool" where
  "grows k s s' \<longleftrightarrow>
     unat (sc_next_sequence (sy_sched s')) \<le> unat (sc_next_sequence (sy_sched s)) + k
     \<and> length (sc_queue (sy_sched s')) \<le> length (sc_queue (sy_sched s)) + k"

lemma grows_refl [simp]: "grows k s s"
  by (simp add: grows_def)

lemma grows_mono: "grows j s s' \<Longrightarrow> j \<le> k \<Longrightarrow> grows k s s'"
  by (auto simp: grows_def)

lemma grows_trans: "grows j s s1 \<Longrightarrow> grows k s1 s2 \<Longrightarrow> grows (j + k) s s2"
  by (auto simp: grows_def)

lemma grows_same: "sc_next_sequence (sy_sched s') = sc_next_sequence (sy_sched s) \<Longrightarrow>
    sc_queue (sy_sched s') = sc_queue (sy_sched s) \<Longrightarrow> grows k s s'"
  by (simp add: grows_def)

lemma length_queue_push: "length (queue_push q qs) = Suc (length qs)"
  by (induction qs) auto

lemma unat_Suc_le: "unat (x + 1 :: u64) \<le> Suc (unat x)"
  by (simp add: unat_word_ariths)

lemma store_save_sched: "store_save e ts sb ov su re s = (r, s1) \<Longrightarrow> sy_sched s1 = sy_sched s"
  using store_save_frame(2) by simp

lemma grows_submit_new: "grows (Suc 0) s (snd (submit_new e task key request s))"
proof -
  have ev: "sc_next_sequence (evict sc) = sc_next_sequence sc" "sc_queue (evict sc) = sc_queue sc" for sc
    by (simp_all add: evict_def Let_def)
  show ?thesis
    unfolding submit_new_def Let_def
    by (auto simp: ev grows_def length_queue_push unat_Suc_le enqueue_def set_task_def
        split: option.splits sum.splits prod.splits bool.splits dest!: store_save_sched)
qed

lemma grows_submitTask: "grows (Suc 0) s (snd (submitTask e task key request s))"
  by (simp add: submitTask_def Let_def grows_submit_new split: option.split)

lemma grows_markTaskStarted: "grows 0 s (snd (markTaskStarted e i w s))"
  by (auto simp: markTaskStarted_def Let_def set_task_def
      split: option.splits sum.splits prod.splits bool.splits dest!: store_save_sched intro!: grows_same)

lemma grows_completeTask: "grows 0 s (snd (completeTask e i st j s))"
  by (auto simp: completeTask_def Let_def set_task_def releaseRecoveryHold_def
      split: option.splits sum.splits prod.splits bool.splits dest!: store_save_sched intro!: grows_same)

lemma grows_cancelTask: "grows 0 s (snd (cancelTask e i s))"
  by (auto simp: cancelTask_def cancel_waiting_def Let_def set_task_def
      split: option.splits sum.splits prod.splits bool.splits TaskStatus.splits dest!: store_save_sched intro!: grows_same)

lemma grows_recoverLost: "grows (Suc 0) s (snd (recoverLost e m i t s))"
  by (auto simp: recoverLost_def Let_def grows_def length_queue_push unat_Suc_le enqueue_def set_task_def
      split: prod.splits sum.splits dest!: store_save_sched)

lemma grows_recover_idle: "grows (length is) s (snd (recover_idle e m w is s))"
proof (induction "is" arbitrary: s)
  case (Cons i "is")
  have step: "grows (length (i # is)) s (snd (recover_idle e m w is s1))"
    if "recoverLost e m i t s = (r, s1)" for t r s1
    using grows_trans [of "Suc 0" s s1 "length is"] grows_recoverLost [of s e m i t] Cons [of s1] that by simp
  have lost: "grows (length (i # is)) s s1" if "recoverLost e m i t s = (r, s1)" for t r s1
    using grows_mono [of "Suc 0" s s1 "length (i # is)"] grows_recoverLost [of s e m i t] that by simp
  show ?case
    using step lost grows_mono [OF Cons [of s], of "length (i # is)"]
    by (auto split: option.split sum.split prod.split)
qed simp

lemma grows_recoverWorker:
  "grows (Suc (length (sc_tasks (sy_sched s)))) s (snd (recoverWorker e w state i run_id m s))"
proof (cases "state = ''idle''")
  case True
  obtain r s1 where R: "recover_idle e m w (map fst (sc_tasks (sy_sched s))) s = (r, s1)" by fastforce
  have "grows (Suc (length (sc_tasks (sy_sched s)))) s s1"
    using grows_mono [OF grows_recover_idle [of "map fst (sc_tasks (sy_sched s))" s e m w]] R by simp
  then show ?thesis
    using True R by (simp add: recoverWorker_def Let_def releaseRecoveryHold_def grows_def split: sum.split option.split)
next
  case False
  have "grows (Suc (length (sc_tasks (sy_sched s)))) s s1" if "recoverLost e m i t (holdWorker w s) = (r, s1)" for t r s1
    using grows_mono [OF grows_recoverLost [of "holdWorker w s" e m i t], of "Suc (length (sc_tasks (sy_sched s)))"] that
    by (simp add: grows_def holdWorker_def)
  with False show ?thesis
    by (auto simp: recoverWorker_def Let_def grows_same split: sum.split option.split prod.split)
qed

lemma grows_cancelBatch: "grows 0 s (snd (cancelBatch e b s))"
proof -
  define rows where "rows = (case sy_store s of None \<Rightarrow> Inr [] | Some db \<Rightarrow> loadTasks (e_codec e) 0 False b db)"
  define changed where "changed = map (\<lambda>t. snd (transitionTo (e_prepare_now e (t_id t)) CANCELLED t))
     (filter waiting (batch_tasks b (sy_sched s)))"
  obtain r s1 where sv: "store_save e changed (Some b) None None None s = (r, s1)" by fastforce
  note F = store_save_frame [OF sv]
  show ?thesis
    unfolding cancelBatch_def Let_def rows_def [symmetric] changed_def [symmetric]
    by (cases rows; cases r; simp add: sv F grows_same split: option.split sum.split)
qed

section \<open>The core runs the scheduler\<close>

text \<open>
  Everything a handler does to the scheduler is a sequence of its steps, so the core of a server
  that runs handlers is always in a reachable state. \<open>core_room\<close> keeps the sequence counter below
  half its range through one handler.
\<close>

definition core_room :: "core \<Rightarrow> bool" where
  "core_room c \<longleftrightarrow>
     room (length (sc_queue (sy_sched (co_sys c))) + 2 * Suc (length (sc_tasks (sy_sched (co_sys c))))) (co_sys c)"

lemma room_grows:
  assumes "grows k s s'" and "room (length (sc_queue (sy_sched s)) + 2 * k) s"
  shows "room (length (sc_queue (sy_sched s'))) s'"
  using assms by (simp add: grows_def room_def)

lemma reachable_dispatch_all:
  "reachable s \<Longrightarrow> room (length as) s \<Longrightarrow> reachable (fst (snd (dispatch_all e (alone d) as r (s, n))))"
proof (induction as arbitrary: s n r)
  case (Cons a as)
  have "\<exists>res n1. dispatchAssignment a (alone d) (s, n) = (Inr res, (s, n1))"
    unfolding dispatch_alone by (auto split: prod.split option.split)
  then obtain res n1 where D: "dispatchAssignment a (alone d) (s, n) = (Inr res, (s, n1))" by blast
  obtain res2 s2 where rb: "rollbackAssignment e (a_task_id a) s = (res2, s2)" by (meson surj_pair)
  have s2: "reachable s2" "room (length as) s2"
    using reach_step [OF Cons.prems(1) step_rollback, of e "a_task_id a"] room_less Cons.prems(2) rb
      room_rollback [OF rb] by auto
  have s: "room (length as) s" by (rule room_mono [OF Cons.prems(2)]) simp
  show ?case
    using Cons.IH [OF Cons.prems(1) s] Cons.IH [OF s2] s2(1)
    by (auto simp: D rb Let_def split: option.split bool.split sum.split)
qed simp

lemma reachable_runOnce:
  assumes "reachable s" and "room (length (sc_queue (sy_sched s))) s"
  shows "reachable (fst (snd (runOnce e (alone d) (s, n))))"
proof (cases "schedule e s")
  case (Pair r s1)
  have s1: "reachable s1" using reach_step [OF assms(1) step_schedule, of e] Pair by simp
  show ?thesis
  proof (cases r)
    case (Inr as)
    note A = schedule_assigned [OF reachable_inv [OF assms(1)] Pair [unfolded Inr]]
    have "room (length as) s1" using assms(2) A(5,6) by (simp add: room_def)
    then show ?thesis using reachable_dispatch_all [OF s1] Pair Inr by (simp add: runOnce_def)
  qed (use s1 Pair in \<open>simp add: runOnce_def\<close>)
qed

lemma reachable_requestSchedule:
  assumes "reachable (co_sys c)" and "room (length (sc_queue (sy_sched (co_sys c)))) (co_sys c)"
  shows "reachable (co_sys (snd (requestSchedule se c)))"
  using assms(1) reachable_runOnce [OF assms, of "pass_env se" "dispatch (se_net se)" "co_net c"]
  by (auto simp: requestSchedule_def split: prod.split bool.split)

text \<open>An operation of the scheduler and then a pass.\<close>

lemma reachable_then_pass:
  assumes "reachable (co_sys c)" and "core_room c" and "reachable s'" and "grows (Suc (length (sc_tasks (sy_sched (co_sys c))))) (co_sys c) s'"
  shows "reachable (co_sys (snd (requestSchedule se (c'\<lparr>co_sys := s'\<rparr>))))"
  by (rule reachable_requestSchedule)
     (use assms room_grows [OF assms(4)] in \<open>simp_all add: core_room_def\<close>)

lemma core_room_step: "core_room c \<Longrightarrow> sc_next_sequence (sy_sched (co_sys c)) < 2 ^ 63"
  by (simp add: core_room_def room_def word_less_nat_alt)

lemma created_task_submittable:
  "ct_type rq \<noteq> UNKNOWN \<Longrightarrow> isPriorityValid (ct_priority rq) \<Longrightarrow> submittable (created_task se rq payload i)"
  by (cases "ct_type rq") (simp_all add: submittable_def created_task_def isPriorityValid_def setPayload_def setPriority_def new_task_def)

lemma reachable_createTask:
  assumes "reachable (co_sys c)" and "core_room c"
  shows "reachable (co_sys (snd (createTask se rq c)))"
proof -
  have new: "reachable (co_sys (snd (create_new se rq print payload c)))"
    if ok: "submittable (created_task se rq payload (co_next_id c))" for print payload
  proof -
    obtain r s' where sub: "submitTask (se_env se) (created_task se rq payload (co_next_id c)) (ct_submission_key rq) print
        (co_sys c) = (r, s')" by (meson surj_pair)
    have s': "reachable s'"
      using reach_step [OF assms(1) step_submit [OF ok core_room_step [OF assms(2)]]] sub by (metis snd_conv)
    have "grows (Suc (length (sc_tasks (sy_sched (co_sys c))))) (co_sys c) s'"
      using grows_mono [OF grows_submitTask [of "co_sys c" "se_env se" "created_task se rq payload (co_next_id c)"
            "ct_submission_key rq" print]] sub by simp
    then have "reachable (co_sys (snd (requestSchedule se (c'\<lparr>co_sys := s'\<rparr>))))" for c'
      by (rule reachable_then_pass [OF assms s'])
    then show ?thesis
      using s' sub by (auto simp: create_new_def Let_def on_sys_def schedule_quietly_def split: sum.split option.split)
  qed
  show ?thesis
    using assms(1) new created_task_submittable [of rq se _ "co_next_id c"]
    by (auto simp: createTask_def split: option.split sum.split bool.split)
qed

lemma reachable_cancelTask:
  assumes "reachable (co_sys c)" and "core_room c"
  shows "reachable (co_sys (snd (service_cancelTask se i c)))"
proof -
  obtain r s' where can: "cancelTask (se_env se) i (co_sys c) = (r, s')" by (meson surj_pair)
  have s': "reachable s'" using reach_step [OF assms(1) step_cancel, of "se_env se" i] can by simp
  have "grows (Suc (length (sc_tasks (sy_sched (co_sys c))))) (co_sys c) s'"
    using grows_mono [OF grows_cancelTask [of "co_sys c" "se_env se" i]] can by simp
  from reachable_then_pass [OF assms s' this] s' can show ?thesis
    by (auto simp: service_cancelTask_def on_sys_def schedule_quietly_def split: sum.split bool.split)
qed

section \<open>A pass keeps what was submitted\<close>

text \<open>The request is the same, a finished task is not touched at all, and none is started.\<close>

definition unstarted :: "Task \<Rightarrow> bool" where
  "unstarted t \<longleftrightarrow> t_status t = QUEUED \<or> t_status t = ASSIGNED \<or> t_status t = CANCELLED"

definition kept :: "Task \<Rightarrow> Task \<Rightarrow> bool" where
  "kept t t' \<longleftrightarrow> same_request t t' \<and> (terminal (t_status t) \<longrightarrow> t' = t) \<and> (unstarted t \<longrightarrow> unstarted t')"

definition requests_kept :: "sys \<Rightarrow> sys \<Rightarrow> bool" where
  "requests_kept s s' \<longleftrightarrow>
     (\<forall>i t. map_of (sc_tasks (sy_sched s)) i = Some t \<longrightarrow>
        (\<exists>t'. map_of (sc_tasks (sy_sched s')) i = Some t' \<and> kept t t'))"

lemma same_request_refl [simp]: "same_request t t"
  by (simp add: same_request_def)

lemma same_request_trans: "same_request t u \<Longrightarrow> same_request u v \<Longrightarrow> same_request t v"
  by (simp add: same_request_def)

lemma requests_kept_refl [simp]: "requests_kept s s"
  by (simp add: requests_kept_def kept_def)

lemma kept_trans: "kept t u \<Longrightarrow> kept u v \<Longrightarrow> kept t v"
  by (auto simp: kept_def intro: same_request_trans)

lemma requests_kept_trans: "requests_kept s s1 \<Longrightarrow> requests_kept s1 s2 \<Longrightarrow> requests_kept s s2"
  unfolding requests_kept_def by (meson kept_trans)

lemma requests_keptI:
  assumes "table_step s s'" and "\<And>i. map_of (sc_tasks (sy_sched s)) i \<noteq> None \<Longrightarrow> map_of (sc_tasks (sy_sched s')) i \<noteq> None"
    and "\<And>i t'. map_of (sc_tasks (sy_sched s')) i = Some t' \<Longrightarrow> map_of (sc_tasks (sy_sched s)) i = Some t' \<or> unstarted t'"
  shows "requests_kept s s'"
  unfolding requests_kept_def
proof (intro allI impI)
  fix i t assume t: "map_of (sc_tasks (sy_sched s)) i = Some t"
  with assms(2) [of i] obtain t' where t': "map_of (sc_tasks (sy_sched s')) i = Some t'" by auto
  from assms(1) t t' have "entry_step (i \<in> sc_dispatching (sy_sched s)) (Some t) (Some t')"
    unfolding table_step_def by metis
  moreover have "unstarted t \<longrightarrow> unstarted t'" using assms(3) [OF t'] t by auto
  ultimately have "kept t t'" by (auto simp: entry_step_def task_move_def kept_def can_transition_terminal terminal_def)
  with t' show "\<exists>t'. map_of (sc_tasks (sy_sched s')) i = Some t' \<and> kept t t'" by blast
qed

lemma rollback_tasks:
  assumes "rollbackAssignment e i s = (r, s')"
  shows "sc_tasks (sy_sched s') = sc_tasks (sy_sched s)
    \<or> (\<exists>t. unstarted t \<and> sc_tasks (sy_sched s') = AList.update i t (sc_tasks (sy_sched s)))"
proof (cases "i \<in> sc_dispatching (sy_sched s)
    \<or> \<not> (\<exists>t. map_of (sc_tasks (sy_sched s)) i = Some t \<and> t_status t = ASSIGNED \<and> t_worker_id t \<noteq> [])")
  case True
  then show ?thesis using rollback_refused [of i s e] assms by simp
next
  case False
  then obtain t where t: "map_of (sc_tasks (sy_sched s)) i = Some t" "t_status t = ASSIGNED" "t_worker_id t \<noteq> []"
    "i \<notin> sc_dispatching (sy_sched s)" by blast
  obtain r1 s1 where sv: "store_save e [rolled_back (e_prepare_now e i) (sy_sched s) t] None
      (Some ''DISPATCH_FAILED'') None None s = (r1, s1)" by fastforce
  note R = rollback_assigned [OF t] and F = store_save_frame [OF sv]
  have "\<exists>u. unstarted u \<and> sc_tasks (rollback_sched i t (rolled_back now (sy_sched s) t) (sy_sched s)) = AList.update i u (sc_tasks (sy_sched s))" for now
    using t(2) by (intro exI [of _ "rolled_back now (sy_sched s) t"])
      (auto simp: rollback_sched_def enqueue_def set_task_def unstarted_def rolled_back_simps)
  then show ?thesis
    using assms F R(1) [of e] R(2) [OF _ sv]
    by (cases "sy_store s = None") (auto split: sum.splits prod.splits bool.splits)
qed

lemma requests_kept_rollback:
  assumes "rollbackAssignment e i s = (r, s')"
  shows "requests_kept s s'"
  by (rule requests_keptI)
     (use table_rollback [of s e i] rollback_tasks [OF assms] assms in \<open>auto simp: map_of_al_update split: if_splits\<close>)

lemma requests_kept_schedule:
  assumes inv: "sched_inv s" and run: "schedule e s = (r, s')"
  shows "requests_kept s s'"
proof (cases r)
  case (Inl x)
  then show ?thesis
    using schedule_throws(1) [OF sched_invD(1) [OF inv]] run by (auto simp: requests_kept_def kept_def)
next
  case (Inr as)
  note A = schedule_assigned [OF inv run [unfolded Inr]]
  show ?thesis
  proof (rule requests_keptI)
    show "table_step s s'" using table_schedule [OF inv, of e] run by simp
    show "map_of (sc_tasks (sy_sched s')) i \<noteq> None" if "map_of (sc_tasks (sy_sched s)) i \<noteq> None" for i
      using that A(2,4) by (cases "i \<in> a_task_id ` set as") (auto simp: assigned_to_def)
    show "map_of (sc_tasks (sy_sched s)) i = Some t' \<or> unstarted t'" if "map_of (sc_tasks (sy_sched s')) i = Some t'" for i t'
    proof (cases "i \<in> a_task_id ` set as")
      case True
      then obtain a where "a \<in> set as" "i = a_task_id a" by blast
      with A(2) [of a] that show ?thesis by (auto simp: assigned_to_def unstarted_def)
    qed (use that A(4) in simp)
  qed
qed

lemma requests_kept_dispatch_all: "requests_kept s (fst (snd (dispatch_all e (alone d) as r (s, n))))"
proof (induction as arbitrary: s n r)
  case (Cons a as)
  have "\<exists>res n1. dispatchAssignment a (alone d) (s, n) = (Inr res, (s, n1))"
    unfolding dispatch_alone by (auto split: prod.split option.split)
  then obtain res n1 where D: "dispatchAssignment a (alone d) (s, n) = (Inr res, (s, n1))" by blast
  obtain res2 s2 where rb: "rollbackAssignment e (a_task_id a) s = (res2, s2)" by (meson surj_pair)
  note k = requests_kept_rollback [OF rb]
  show ?case
    using Cons.IH [of s] requests_kept_trans [OF k Cons.IH [of s2]] k
    by (auto simp: D rb Let_def split: option.split bool.split sum.split)
qed simp

lemma requests_kept_requestSchedule:
  assumes "sched_inv (co_sys c)"
  shows "requests_kept (co_sys c) (co_sys (snd (requestSchedule se c)))"
proof -
  have "requests_kept s (fst (snd (runOnce e (alone d) (s, n))))" if "sched_inv s" for s e d and n :: net
  proof (cases "schedule e s")
    case (Pair r s1)
    note k = requests_kept_schedule [OF that Pair]
    show ?thesis
      using k requests_kept_trans [OF k requests_kept_dispatch_all]
      by (auto simp: runOnce_def Pair split: sum.split)
  qed
  from this [OF assms, of "pass_env se" "dispatch (se_net se)" "co_net c"] show ?thesis
    by (auto simp: requestSchedule_def split: prod.split bool.split)
qed

section \<open>What a created task is\<close>

lemma submitted_task:
  assumes "submitTask e task key request s = (Inr (Some i), s')" and "findSubmittedTask key request s = None"
  shows "i = t_id task" and "\<exists>t. map_of (sc_tasks (sy_sched s')) i = Some t \<and> same_request task t \<and> t_status t = QUEUED"
proof -
  have new: "submit_new e task key request s = (Inr (Some i), s')"
    using assms by (auto simp: submitTask_def findSubmittedTask_def Let_def split: if_splits option.splits)
  obtain b t1 where t1: "transitionTo (e_prepare_now e (t_id task)) QUEUED task = (b, t1)" by fastforce
  define sc where "sc = (case sy_store s of None \<Rightarrow> sy_sched s | Some _ \<Rightarrow> evict (sy_sched s))"
  obtain r s2 where sv: "store_save e [setQueueSequence (sc_next_sequence sc) t1] None None
      (if key = [] then None else Some (key, request)) None (put_sched sc s) = (r, s2)" by fastforce
  have run: "i = t_id task \<and> b \<and> s' = put_sched (enqueue i (t_priority task)
      (set_task i (setQueueSequence (sc_next_sequence sc) t1) sc)) s2"
    using new unfolding submit_new_def Let_def sc_def [symmetric] t1
    using sv by (auto split: sum.splits if_splits bool.splits)
  show "i = t_id task" using run by simp
  have "same_request task t1 \<and> t_status t1 = QUEUED"
    using transitionTo_move [of _ QUEUED task t1] t1 run
    by (auto simp: task_move_def) (auto simp: transitionTo_def Let_def split: if_splits)
  then show "\<exists>t. map_of (sc_tasks (sy_sched s')) i = Some t \<and> same_request task t \<and> t_status t = QUEUED"
    using run by (auto simp: same_request_def setQueueSequence_def enqueue_def set_task_def)
qed

lemma reachable_submitted:
  assumes "reachable s" and "submittable task" and "sc_next_sequence (sy_sched s) < 2 ^ 63"
    and "submitTask e task key request s = (r, s')"
  shows "sched_inv s'"
  using reachable_inv [OF reach_step [OF assms(1) step_submit [OF assms(2,3)], of e key request]] assms(4) by simp

text \<open>
  The payload of the task: a spec 1 payload on a server with templates is the client's with the flow configuration
  of the template file of its flow, as spec 2; any other is the client's.
\<close>

definition payload_for :: "senv \<Rightarrow> json \<Rightarrow> json \<Rightarrow> bool" where
  "payload_for se asked given \<longleftrightarrow>
     (if jempty asked \<or> \<not> json_eq (jget asked ''spec_version'') (jint 1) \<or> se_templates_dir se = [] then given = asked
      else
        (\<exists>stream source. se_file se (path_join (se_templates_dir se) (str_of (jget asked ''flow'') @ ''.json'')) = Some stream
           \<and> jparse (se_codec se) stream = Some source \<and> contains source ''flow_config'' \<and> validFlowConfig (jget source ''flow_config'')
           \<and> jget given ''spec_version'' = jint 2 \<and> jget given ''flow_config'' = jget source ''flow_config''
           \<and> (\<forall>k. k \<noteq> ''spec_version'' \<longrightarrow> k \<noteq> ''flow_config'' \<longrightarrow>
                 contains given k = contains asked k \<and> jget given k = jget asked k)))"

lemma with_template_payload:
  assumes "with_template se payload = Inr (Some p)" and "validRegressionPayload (se_codec se) payload = Inr True"
  shows "validRegressionPayload (se_codec se) p = Inr True" and "payload_for se payload p"
proof -
  have obj: "is_object payload" using assms(2) by (auto simp: validRegressionPayload_def split: if_splits)
  show "validRegressionPayload (se_codec se) p = Inr True" "payload_for se payload p"
    using assms obj
    by (auto simp: with_template_def payload_for_def Let_def rbind_Inr_iff jget_jset contains_jset split: if_splits option.splits)
qed

text \<open>
  C29. A task the service creates is what the client asked for, and fit for a worker: when
  \<open>createTask\<close> returns the id of a new task, the id is the next of the generator, and after the
  pass that follows the scheduler holds a task under it that waits or is assigned (or was cancelled with its batch),
  with the requested type, target, revision and priority (in range), and a payload that passes the worker's validation
  and is the client's, or for a spec 1 payload on a server with flow templates the client's as spec 2 with the flow
  configuration of the template of its flow.
\<close>

theorem created_task_fit:
  assumes "reachable (co_sys c)" and "core_room c" and "jdump (se_codec se) (fingerprint rq) = Some print"
    and "findSubmittedTask (ct_submission_key rq) print (co_sys c) = None"
    and "createTask se rq c = (Inr (Some i), c')"
  shows "i = co_next_id c \<and> co_next_id c' = i + 1
    \<and> (\<exists>t. map_of (sc_tasks (sy_sched (co_sys c'))) i = Some t
          \<and> (t_status t = QUEUED \<or> t_status t = ASSIGNED \<or> t_status t = CANCELLED)
          \<and> t_type t = ct_type rq \<and> t_type t = REGRESSION \<and> t_target t = ct_target rq \<and> t_revision t = ct_revision rq
          \<and> t_priority t = ct_priority rq \<and> - 100 \<le> t_priority t \<and> t_priority t \<le> 100
          \<and> validRegressionPayload (se_codec se) (t_payload t) = Inr True
          \<and> payload_for se (ct_payload rq) (t_payload t))"
proof -
  obtain p where ok: "validRegressionPayload (se_codec se) (ct_payload rq) = Inr True"
    and p: "with_template se (ct_payload rq) = Inr (Some p)"
    and good: "ct_type rq \<noteq> UNKNOWN" "isPriorityValid (ct_priority rq)"
    and new: "create_new se rq print p c = (Inr (Some i), c')"
    using assms(3-5) by (auto simp: createTask_def split: if_splits option.splits sum.splits bool.splits)
  let ?task = "created_task se rq p (co_next_id c)"
  obtain r s1 where sub: "submitTask (se_env se) ?task (ct_submission_key rq) print (co_sys c) = (r, s1)" by (meson surj_pair)
  define c1 where "c1 = c\<lparr>co_next_id := co_next_id c + 1, co_sys := s1\<rparr>"
  have r: "r = Inr (Some i)" and c': "c' = schedule_quietly se c1"
    using new sub by (auto simp: create_new_def Let_def on_sys_def c1_def split: sum.splits option.splits)
  note S = submitted_task [OF sub [unfolded r] assms(4)]
  obtain t1 where t1: "map_of (sc_tasks (sy_sched s1)) i = Some t1" "same_request ?task t1" "unstarted t1"
    using S(2) by (auto simp: unstarted_def)
  have "sched_inv s1"
    by (rule reachable_submitted [OF assms(1) created_task_submittable [OF good] core_room_step [OF assms(2)] sub])
  then have "requests_kept s1 (co_sys c')"
    using requests_kept_requestSchedule [of c1 se] by (simp add: c1_def c' schedule_quietly_def)
  with t1 obtain t where t: "map_of (sc_tasks (sy_sched (co_sys c'))) i = Some t" "same_request ?task t" "unstarted t"
    unfolding requests_kept_def kept_def by (meson same_request_trans)
  have eqs: "t_type t = ct_type rq" "t_target t = ct_target rq" "t_revision t = ct_revision rq"
    "t_priority t = ct_priority rq" "t_payload t = p" "t_id ?task = co_next_id c"
    using t(2) by (simp_all add: same_request_def created_task_def setPayload_def setPriority_def new_task_def)
  have "co_next_id c' = co_next_id c + 1"
    by (simp add: c' schedule_quietly_def requestSchedule_def c1_def split: prod.split bool.split)
  moreover have "t_type t = REGRESSION" using good(1) eqs(1) by (cases "t_type t") auto
  ultimately show ?thesis
    using t(1,3) eqs good(2) S(1) with_template_payload [OF p ok]
    by (intro conjI exI [of _ t]) (auto simp: isPriorityValid_def unstarted_def)
qed

text \<open>A spec 1 submission on a server with a template for its flow.\<close>

definition template_senv :: senv where
  "template_senv =
     \<lparr>se_env = demo_env\<lparr>e_codec := \<lparr>jdump = \<lambda>_. Some ''{}'',
                                jparse = \<lambda>_. Some (JObject [(''flow_config'', JObject [(''steps'', jint 3)])])\<rparr>\<rparr>,
      se_pass = demo_env, se_accepting = \<lambda>_. True, se_now = 1000000, se_templates_dir = ''/t'',
      se_file = \<lambda>f. if f = ''/t/quick.json'' then Some ''template'' else None, se_max_retries = 1,
      se_instance_id = ''i'', se_heartbeat_now = 0, se_io = Io_ok, se_pread = 0, se_steady = 0,
      se_cache = \<lparr>ca_enabled = True, ca_max_entries = 2, ca_ttl_seconds = 5, ca_now = 0, ca_victim = 0\<rparr>,
      se_fs = \<lparr>fe_config = \<lambda>_. [], fe_directory = \<lambda>_. None, fe_read = \<lambda>_. None, fe_late = \<lambda>_. False\<rparr>\<rparr>"

definition spec1_request :: CreateTaskRequest where
  "spec1_request =
     \<lparr>ct_type = REGRESSION, ct_target = ''t'', ct_revision = ''r'', ct_priority = 3,
      ct_payload = JObject [(''case'', JString ''suite/run.tcl''), (''flow'', JString ''quick''),
                            (''spec_version'', jint 1), (''timeout_seconds'', JUnsigned 60)],
      ct_submission_key = []\<rparr>"

definition demo_core :: core where
  "demo_core = \<lparr>co_sys = boot demo_wm0, co_net = demo_net, co_driver = new_driver, co_next_id = 9\<rparr>"

definition spec2_payload :: json where
  "spec2_payload = JObject [(''case'', JString ''suite/run.tcl''), (''flow'', JString ''quick''),
     (''flow_config'', JObject [(''steps'', jint 3)]), (''spec_version'', jint 2), (''timeout_seconds'', JUnsigned 60)]"

lemma demo_core_ok: "reachable (co_sys demo_core)" "core_room demo_core"
  by (simp add: demo_core_def demo_boot) (simp add: demo_core_def core_room_def room_def boot_def new_scheduler_def)

lemma spec1_valid:
  "validRegressionPayload (se_codec template_senv) (ct_payload spec1_request) = Inr True"
  "validRegressionPayload (se_codec template_senv) spec2_payload = Inr True"
  by code_simp+

lemma spec1_template: "with_template template_senv (ct_payload spec1_request) = Inr (Some spec2_payload)"
  by code_simp

lemma spec1_submit:
  "fst (submitTask (se_env template_senv) (created_task template_senv spec1_request spec2_payload 9) [] ''{}'' (boot demo_wm0)) = Inr (Some 9)"
  by code_simp

theorem created_task_fit_witness:
  "\<exists>c' t. createTask template_senv spec1_request demo_core = (Inr (Some 9), c')
     \<and> map_of (sc_tasks (sy_sched (co_sys c'))) 9 = Some t \<and> t_target t = ''t''
     \<and> jget (t_payload t) ''flow_config'' = JObject [(''steps'', jint 3)] \<and> jget (t_payload t) ''case'' = JString ''suite/run.tcl''"
proof -
  have print: "jdump (se_codec template_senv) (fingerprint spec1_request) = Some ''{}''"
    by (simp add: se_codec_def template_senv_def)
  have template: "\<not> jempty (ct_payload spec1_request)" "json_eq (jget (ct_payload spec1_request) ''spec_version'') (jint 1)"
    "se_templates_dir template_senv \<noteq> []" "jget (ct_payload spec1_request) ''case'' = JString ''suite/run.tcl''"
    "jparse (se_codec template_senv) stream = Some source \<Longrightarrow> jget source ''flow_config'' = JObject [(''steps'', jint 3)]"
    for stream source by (auto simp: template_senv_def se_codec_def spec1_request_def jempty_def jget_def jint_def)
  have fresh: "findSubmittedTask (ct_submission_key spec1_request) ''{}'' (co_sys demo_core) = None"
    by (simp add: findSubmittedTask_def spec1_request_def)
  have "fst (create_new template_senv spec1_request ''{}'' spec2_payload demo_core) = Inr (Some 9)"
    using spec1_submit
    by (auto simp: create_new_def Let_def on_sys_def demo_core_def spec1_request_def split: prod.split sum.split option.split)
  then have "fst (createTask template_senv spec1_request demo_core) = Inr (Some 9)"
    using print fresh spec1_valid(1) spec1_template
    by (simp add: createTask_def spec1_request_def kMaxTaskMetadataBytes_def isPriorityValid_def)
  then obtain c' where run: "createTask template_senv spec1_request demo_core = (Inr (Some 9), c')"
    by (metis prod.collapse)
  from created_task_fit [OF demo_core_ok print fresh run] obtain t where
    t: "map_of (sc_tasks (sy_sched (co_sys c'))) 9 = Some t" "t_target t = ''t''"
      "payload_for template_senv (ct_payload spec1_request) (t_payload t)" by (auto simp: spec1_request_def)
  then have "jget (t_payload t) ''flow_config'' = JObject [(''steps'', jint 3)] \<and> jget (t_payload t) ''case'' = JString ''suite/run.tcl''"
    using template unfolding payload_for_def by fastforce
  with t run show ?thesis by blast
qed

end
