(* ===== verification/Router.thy ===== *)
theory Router
  imports Service
begin

text \<open>
  \<^verbatim>\<open>server/src/ProtocolRouter.cpp\<close>: the handler of every request type. Each handler of \<^verbatim>\<open>handle\<close> that
  changes state is one function here, with the answer it builds; \<open>router_handle\<close> is the switch with
  its catch of every exception. The queries call the services of \<^verbatim>\<open>Queries\<close>, \<^verbatim>\<open>Progress\<close>, \<^verbatim>\<open>Regression\<close>
  and \<^verbatim>\<open>Catalog\<close>.
\<close>

section \<open>Answers\<close>

type_synonym answer = "ResponseCode \<times> string \<times> json"

definition buildResponse :: "senv \<Rightarrow> ProtocolMessage \<Rightarrow> answer \<Rightarrow> ProtocolMessage" where
  "buildResponse se request a =
     (case a of (code, message, data) \<Rightarrow>
        \<lparr>pm_version = PROTOCOL_VERSION, pm_type = RESPONSE, pm_request_id = pm_request_id request,
         pm_data = jset (Response_toJson \<lparr>rs_code = response_code code, rs_message = message, rs_data = data\<rparr>)
                     ''server_instance_id'' (JString (se_instance_id se))\<rparr>)"

definition ok :: answer where
  "ok = (OK, ''ok'', JNull)"

definition batchRequest :: "json \<Rightarrow> bool" where
  "batchRequest data \<longleftrightarrow>
     is_object data \<and> jsize data = 1 \<and> contains data ''batch_id'' \<and> is_string (jget data ''batch_id'')
     \<and> str_of (jget data ''batch_id'') \<noteq> [] \<and> length (str_of (jget data ''batch_id'')) \<le> 128"

definition batchResult :: "string \<Rightarrow> BatchSnapshot \<Rightarrow> json" where
  "batchResult i b =
     jobject [(''batch_id'', JString i), (''stop_requested'', JBool (b_stop_requested b)),
       (''cancelled_now'', juint (b_cancelled_now b)), (''total'', juint (b_total b)),
       (''pending'', juint (b_pending b)), (''queued'', juint (b_queued b)),
       (''assigned'', juint (b_assigned b)), (''running'', juint (b_running b)),
       (''in_flight'', juint (b_assigned b + b_running b)),
       (''succeeded'', juint (b_succeeded b)), (''failed'', juint (b_failed b)),
       (''timeout'', juint (b_timeout b)), (''cancelled'', juint (b_cancelled b)),
       (''finished'', juint (b_succeeded b + b_failed b + b_timeout b)),
       (''complete'', JBool (b_pending b + b_queued b + b_assigned b + b_running b = 0))]"

section \<open>Execution summaries\<close>

definition keep_text :: "json \<Rightarrow> string \<Rightarrow> json \<Rightarrow> json" where
  "keep_text source key summary =
     (if contains source key \<and> is_string (jget source key) \<and> length (str_of (jget source key)) \<le> 256
      then jset summary key (jget source key) else summary)"

definition keep_number :: "json \<Rightarrow> string \<Rightarrow> json \<Rightarrow> json" where
  "keep_number source key summary =
     (let item = jget source key in
      if \<not> contains source key then summary
      else if is_number_unsigned item
      then (if get_u64 item \<le> 1000000000 then jset summary key (JUnsigned (get_u64 item)) else summary)
      else if is_number_integer item
      then (if - 1000000000 \<le> get_i64 item \<and> get_i64 item \<le> 1000000000
            then jset summary key (jint (get_i64 item)) else summary)
      else summary)"

definition executionSummary :: "json_codec \<Rightarrow> string \<Rightarrow> TaskStatus \<Rightarrow> json" where
  "executionSummary jc message status =
     (if message = [] \<or> 8192 < length message then JNull
      else
        (case jparse jc message of
           None \<Rightarrow> JNull
         | Some source \<Rightarrow>
             if \<not> is_object source then JNull
             else if contains source ''status''
                     \<and> (\<not> is_string (jget source ''status'') \<or> str_of (jget source ''status'') \<noteq> toString status)
             then JNull
             else
               (let s1 = fold (keep_text source) [''reason'', ''case_status'', ''case_reason''] (JObject []);
                    s2 = fold (keep_number source) [''case_ret_code'', ''raw_exit_code'', ''exit_code'', ''pid''] s1 in
                if jempty s2 then JNull else s2)))"

definition recovery_fields :: "WorkerManager \<Rightarrow> Task \<Rightarrow> json \<Rightarrow> json" where
  "recovery_fields wm t j =
     (let j1 = (if t_recovery_required t
                then jset (jset j ''recovery_required'' (JBool True)) ''recovery_reason''
                       (JString ''server_restart_pending_reconciliation'')
                else j) in
      if (t_status t = ASSIGNED \<or> t_status t = RUNNING)
         \<and> (case getWorker (t_worker_id t) wm of None \<Rightarrow> True | Some w \<Rightarrow> w_status w = OFFLINE)
      then jset (jset j1 ''recovery_required'' (JBool True)) ''recovery_reason'' (JString ''worker_offline'')
      else j1)"

definition taskToJson :: "WorkerManager \<Rightarrow> Task \<Rightarrow> json" where
  "taskToJson wm t =
     (let j1 = jobject [(''task_id'', JUnsigned (t_id t)), (''task_type'', JString (type_toString (t_type t))),
                 (''status'', JString (toString (t_status t))), (''target'', JString (t_target t)),
                 (''revision'', JString (t_revision t)), (''worker_id'', JString (t_worker_id t))];
          j2 = (if t_run_id t \<noteq> [] then jset j1 ''run_id'' (JString (t_run_id t)) else j1);
          j3 = recovery_fields wm t j2;
          j4 = jset (jset j3 ''priority'' (jint (t_priority t))) ''payload'' (t_payload t);
          j5 = (if \<not> is_null (t_execution_summary t) then jset j4 ''execution'' (t_execution_summary t) else j4);
          j6 = jset j5 ''retry_count'' (jint (t_retry_count t)) in
      put_time ''finished_at_ms'' (t_finished_at t)
        (put_time ''started_at_ms'' (t_started_at t) (put_time ''created_at_ms'' (t_created_at t) j6)))"

section \<open>Client requests\<close>

definition create_request :: "SubmitTaskRequest \<Rightarrow> CreateTaskRequest" where
  "create_request r =
     \<lparr>ct_type = su_task_type r, ct_target = su_target r, ct_revision = su_revision r, ct_priority = su_priority r,
      ct_payload = su_payload r, ct_submission_key = su_submission_key r\<rparr>"

definition rejected_answer :: "senv \<Rightarrow> json \<Rightarrow> core \<Rightarrow> exn + answer" where
  "rejected_answer se payload c =
     rbind (validRegressionPayload (se_codec se) payload) (\<lambda>valid.
       Inr (if valid \<and> contains payload ''context'' \<and> contains (jget payload ''context'') ''batch_id''
               \<and> isBatchStopped (str_of (jget (jget payload ''context'') ''batch_id'')) (co_sys c)
            then (INVALID_STATE, ''batch stopped'', JNull)
            else (INVALID_REQUEST, ''invalid task parameters'', JNull)))"

definition handle_submit :: "senv \<Rightarrow> json \<Rightarrow> (core, answer) op" where
  "handle_submit se data c =
     (case SubmitTaskRequest_fromJson (se_codec se) data of
        Inl x \<Rightarrow> (Inl x, c)
      | Inr None \<Rightarrow> (Inr (INVALID_REQUEST, ''invalid submit task request'', JNull), c)
      | Inr (Some r) \<Rightarrow>
          (case createTask se (create_request r) c of
             (Inl x, c1) \<Rightarrow> (Inl x, c1)
           | (Inr None, c1) \<Rightarrow> (rejected_answer se (su_payload r) c1, c1)
           | (Inr (Some i), c1) \<Rightarrow> (Inr (OK, ''ok'', jobject [(''task_id'', JUnsigned i)]), c1)))"

definition handle_query_task :: "senv \<Rightarrow> json \<Rightarrow> core \<Rightarrow> exn + answer" where
  "handle_query_task se data c =
     (case QueryTaskRequest_fromJson data of
        None \<Rightarrow> Inr (INVALID_REQUEST, ''invalid query task request'', JNull)
      | Some i \<Rightarrow>
          rbind (getTask (se_env se) i (co_sys c)) (\<lambda>task.
            Inr (case task of
                   None \<Rightarrow> (NOT_FOUND, ''task not found'', JNull)
                 | Some t \<Rightarrow> (OK, ''ok'', taskToJson (sy_wm (co_sys c)) t))))"

definition handle_cancel_task :: "senv \<Rightarrow> json \<Rightarrow> (core, answer) op" where
  "handle_cancel_task se data c =
     (case CancelTaskRequest_fromJson data of
        None \<Rightarrow> (Inr (INVALID_REQUEST, ''invalid cancel task request'', JNull), c)
      | Some i \<Rightarrow>
          (case getTask (se_env se) i (co_sys c) of
             Inl x \<Rightarrow> (Inl x, c)
           | Inr None \<Rightarrow> (Inr (NOT_FOUND, ''task not found'', JNull), c)
           | Inr (Some _) \<Rightarrow>
               (case service_cancelTask se i c of
                  (Inl x, c1) \<Rightarrow> (Inl x, c1)
                | (Inr True, c1) \<Rightarrow> (Inr ok, c1)
                | (Inr False, c1) \<Rightarrow>
                    (Inr (INVALID_STATE,
                       ''only PENDING/QUEUED tasks can be cancelled; remote cancellation is not supported'', JNull), c1))))"

definition handle_query_batch :: "senv \<Rightarrow> json \<Rightarrow> core \<Rightarrow> exn + answer" where
  "handle_query_batch se data c =
     (if \<not> batchRequest data then Inr (INVALID_REQUEST, ''invalid batch id'', JNull)
      else
        (let i = str_of (jget data ''batch_id'') in
         rbind (queryBatch (se_env se) i (co_sys c)) (\<lambda>snapshot.
           Inr (case snapshot of
                  None \<Rightarrow> (NOT_FOUND, ''batch not found'', JNull)
                | Some b \<Rightarrow> (OK, ''ok'', batchResult i b)))))"

definition handle_cancel_batch :: "senv \<Rightarrow> json \<Rightarrow> (core, answer) op" where
  "handle_cancel_batch se data c =
     (if \<not> batchRequest data then (Inr (INVALID_REQUEST, ''invalid batch id'', JNull), c)
      else
        (let i = str_of (jget data ''batch_id'') in
         (case on_sys (cancelBatch (se_env se) i) c of
            (Inl x, c1) \<Rightarrow> (Inl x, c1)
          | (Inr None, c1) \<Rightarrow> (Inr (NOT_FOUND, ''batch not found'', JNull), c1)
          | (Inr (Some b), c1) \<Rightarrow> (Inr (OK, ''ok'', batchResult i b), schedule_quietly se c1))))"

section \<open>Worker requests\<close>

definition handle_register :: "senv \<Rightarrow> json \<Rightarrow> (core, answer) op" where
  "handle_register se data c =
     (case WorkerRegisterRequest_fromJson data of
        Inl _ \<Rightarrow> (Inr (INVALID_REQUEST, ''invalid worker register request'', JNull), c)
      | Inr r \<Rightarrow>
          (case registerWorker (se_heartbeat_now se) (wr_worker_id r) (wr_hostname r) (wr_slots r) (wr_machine_id r)
                  (wr_slot_id r) (sy_wm (co_sys c)) of
             (Inl x, wm) \<Rightarrow> (Inl x, c\<lparr>co_sys := put_wm wm (co_sys c)\<rparr>)
           | (Inr False, wm) \<Rightarrow>
               (Inr (INVALID_REQUEST, ''invalid worker registration'', JNull), c\<lparr>co_sys := put_wm wm (co_sys c)\<rparr>)
           | (Inr True, wm) \<Rightarrow>
               (Inr ok, c\<lparr>co_sys := put_wm (setControlSupported (wr_worker_id r) (wr_control_v1 r) wm) (co_sys c)\<rparr>)))"

text \<open>The report of a worker's state: idle, or the identity of the run it holds or lost.\<close>

definition bad_recovery :: "json \<Rightarrow> bool" where
  "bad_recovery d \<longleftrightarrow>
     str_of (jget d ''state'') \<noteq> ''idle''
     \<and> ((str_of (jget d ''state'') \<noteq> ''active'' \<and> str_of (jget d ''state'') \<noteq> ''lost'')
        \<or> \<not> contains d ''task_id'' \<or> \<not> is_number_unsigned (jget d ''task_id'') \<or> get_u64 (jget d ''task_id'') = 0
        \<or> \<not> contains d ''run_id'' \<or> \<not> is_string (jget d ''run_id'') \<or> str_of (jget d ''run_id'') = []
        \<or> 128 < length (str_of (jget d ''run_id'')))"

definition handle_recover :: "senv \<Rightarrow> json \<Rightarrow> (core, answer) op" where
  "handle_recover se d c =
     (if \<not> is_object d \<or> \<not> contains d ''worker_id'' \<or> \<not> is_string (jget d ''worker_id'')
         \<or> \<not> contains d ''state'' \<or> \<not> is_string (jget d ''state'')
      then (Inr (INVALID_REQUEST, ''invalid recovery request'', JNull), c)
      else if bad_recovery d then (Inr (INVALID_REQUEST, ''invalid recovery identity'', JNull), c)
      else
        (let state = str_of (jget d ''state''); idle = (state = ''idle'');
             i = (if idle then 0 else get_u64 (jget d ''task_id''));
             run_id = (if idle then [] else str_of (jget d ''run_id'')) in
         (case on_sys (recoverWorker (se_env se) (str_of (jget d ''worker_id'')) state i run_id (se_max_retries se)) c of
            (Inl x, c1) \<Rightarrow> (Inl x, c1)
          | (Inr result, c1) \<Rightarrow>
              if json_eq (jget result ''action'') (JString ''ready'')
              then (case requestSchedule se c1 of
                      (Inl x, c2) \<Rightarrow> (Inl x, c2)
                    | (Inr _, c2) \<Rightarrow> (Inr (OK, ''ok'', result), c2))
              else (Inr (OK, ''ok'', result), c1))))"

definition handle_drain :: "json \<Rightarrow> core \<Rightarrow> answer \<times> core" where
  "handle_drain data c =
     (if \<not> is_object data \<or> jsize data \<noteq> 1 \<or> \<not> contains data ''worker_id'' \<or> \<not> is_string (jget data ''worker_id'')
         \<or> str_of (jget data ''worker_id'') = []
      then ((INVALID_REQUEST, ''invalid drain request'', JNull), c)
      else
        (case on_wm (markDraining (str_of (jget data ''worker_id''))) c of
           (False, c1) \<Rightarrow> ((NOT_FOUND, ''worker not found'', JNull), c1)
         | (True, c1) \<Rightarrow> (ok, c1)))"

text \<open>The part of a heartbeat inside the handler's own \<^verbatim>\<open>try\<close> block.\<close>

definition heartbeat_management :: "senv \<Rightarrow> WorkerId \<Rightarrow> json \<Rightarrow> (core, answer) op" where
  "heartbeat_management se w data c =
     (let ack = (if contains data ''maintenance_ack'' then jget data ''maintenance_ack'' else JNull) in
      (case on_sys (run_wm (managementHeartbeat (se_codec se) w ack)) c of
         (Inl x, c1) \<Rightarrow> (Inl x, c1)
       | (Inr management, c1) \<Rightarrow>
           (case requestSchedule se c1 of
              (Inl x, c2) \<Rightarrow> (Inl x, c2)
            | (Inr _, c2) \<Rightarrow>
                (Inr (OK, ''ok'', jset (jset management ''command'' JNull) ''administration_disabled'' (JBool True)), c2))))"

definition handle_heartbeat :: "senv \<Rightarrow> json \<Rightarrow> (core, answer) op" where
  "handle_heartbeat se data c =
     (case WorkerHeartbeatRequest_fromJson data of
        None \<Rightarrow> (Inr (INVALID_REQUEST, ''invalid heartbeat request'', JNull), c)
      | Some w \<Rightarrow>
          (case on_wm (heartbeat (se_heartbeat_now se) w) c of
             (False, c1) \<Rightarrow> (Inr (NOT_FOUND, ''worker not found'', JNull), c1)
           | (True, c1) \<Rightarrow>
               (case heartbeat_management se w data c1 of
                  (Inl (Invalid_argument what), c2) \<Rightarrow> (Inr (INVALID_REQUEST, what, JNull), c2)
                | (Inl (Logic_error what), c2) \<Rightarrow> (Inr (INVALID_STATE, what, JNull), c2)
                | (Inl (Length_error what), c2) \<Rightarrow> (Inr (INVALID_STATE, what, JNull), c2)
                | other \<Rightarrow> other)))"

definition start_answer :: "senv \<Rightarrow> TaskStartRequest \<Rightarrow> Task \<Rightarrow> (core, answer) op" where
  "start_answer se r t c =
     (if t_run_id t \<noteq> st_run_id r then (Inr (INVALID_STATE, ''run id mismatch'', JNull), c)
      else if t_worker_id t \<noteq> st_worker_id r then (Inr (INVALID_REQUEST, ''worker_id mismatch'', JNull), c)
      else if t_run_id t \<noteq> [] \<and> t_status t = RUNNING then (Inr ok, c)
      else if t_status t \<noteq> ASSIGNED then (Inr (INVALID_STATE, ''task not ready to start'', JNull), c)
      else
        (case on_sys (markTaskStarted (se_env se) (st_task_id r) (st_worker_id r)) c of
           (Inl x, c1) \<Rightarrow> (Inl x, c1)
         | (Inr False, c1) \<Rightarrow> (Inr (INVALID_STATE, ''failed to start task'', JNull), c1)
         | (Inr True, c1) \<Rightarrow> (Inr ok, c1)))"

definition handle_start :: "senv \<Rightarrow> json \<Rightarrow> (core, answer) op" where
  "handle_start se data c =
     (case TaskStartRequest_fromJson data of
        None \<Rightarrow> (Inr (INVALID_REQUEST, ''invalid task start request'', JNull), c)
      | Some r \<Rightarrow>
          (case getTask (se_env se) (st_task_id r) (co_sys c) of
             Inl x \<Rightarrow> (Inl x, c)
           | Inr None \<Rightarrow> (Inr (NOT_FOUND, ''task not found'', JNull), c)
           | Inr (Some t) \<Rightarrow> start_answer se r t c))"

definition result_answer :: "senv \<Rightarrow> TaskResultRequest \<Rightarrow> Task \<Rightarrow> (core, answer) op" where
  "result_answer se r t c =
     (let summary = executionSummary (se_codec se) (re_message r) (re_status r) in
      if t_run_id t \<noteq> re_run_id r then (Inr (INVALID_STATE, ''run id mismatch'', JNull), c)
      else if t_worker_id t \<noteq> re_worker_id r then (Inr (INVALID_REQUEST, ''worker_id mismatch'', JNull), c)
      else if t_status t = re_status r \<and> json_eq (t_execution_summary t) summary then (Inr ok, c)
      else if t_status t \<noteq> RUNNING then (Inr (INVALID_STATE, ''task not running'', JNull), c)
      else
        (case on_sys (completeTask (se_env se) (re_task_id r) (re_status r) summary) c of
           (Inl x, c1) \<Rightarrow> (Inl x, c1)
         | (Inr False, c1) \<Rightarrow> (Inr (INTERNAL_ERROR, ''failed to complete task'', JNull), c1)
         | (Inr True, c1) \<Rightarrow> (Inr ok, schedule_quietly se c1)))"

definition handle_result :: "senv \<Rightarrow> json \<Rightarrow> (core, answer) op" where
  "handle_result se data c =
     (case TaskResultRequest_fromJson data of
        Inl _ \<Rightarrow> (Inr (INVALID_REQUEST, ''invalid task result request'', JNull), c)
      | Inr r \<Rightarrow>
          if re_status r \<noteq> SUCCEEDED \<and> re_status r \<noteq> FAILED \<and> re_status r \<noteq> TIMEOUT
          then (Inr (INVALID_REQUEST, ''invalid task result status'', JNull), c)
          else
            (case getTask (se_env se) (re_task_id r) (co_sys c) of
               Inl x \<Rightarrow> (Inl x, c)
             | Inr None \<Rightarrow> (Inr (NOT_FOUND, ''task not found'', JNull), c)
             | Inr (Some t) \<Rightarrow> result_answer se r t c))"

section \<open>Logs\<close>

definition bad_log_identity :: "MessageType \<Rightarrow> json \<Rightarrow> bool" where
  "bad_log_identity ty d \<longleftrightarrow>
     \<not> is_object d \<or> jsize d \<noteq> (if ty = LOG_APPEND then 7 else if ty = READ_LOG then 5 else 2)
     \<or> \<not> contains d ''task_id'' \<or> \<not> is_number_unsigned (jget d ''task_id'') \<or> get_u64 (jget d ''task_id'') = 0
     \<or> \<not> contains d ''run_id'' \<or> \<not> is_string (jget d ''run_id'') \<or> \<not> validRunId (str_of (jget d ''run_id''))"

definition bad_upload :: "WorkerId \<Rightarrow> json \<Rightarrow> bool" where
  "bad_upload owner d \<longleftrightarrow>
     \<not> contains d ''worker_id'' \<or> \<not> is_string (jget d ''worker_id'') \<or> owner \<noteq> str_of (jget d ''worker_id'')
     \<or> \<not> contains d ''data_hex'' \<or> \<not> is_string (jget d ''data_hex'')
     \<or> \<not> contains d ''complete'' \<or> \<not> is_boolean (jget d ''complete'')"

text \<open>Inside the handler's \<^verbatim>\<open>try\<close> block: list, read or append.\<close>

definition log_access :: "senv \<Rightarrow> MessageType \<Rightarrow> WorkerId \<Rightarrow> json \<Rightarrow> (archive, answer) op" where
  "log_access se ty owner d ar =
     (let i = get_u64 (jget d ''task_id''); run_id = str_of (jget d ''run_id''); name = str_of (jget d ''name'');
          offset = get_u64 (jget d ''offset''); reply = (\<lambda>j. (OK, ''ok'', j)) in
      if ty \<noteq> LOG_APPEND \<and> ty \<noteq> READ_LOG then (map_sum id reply (log_list i run_id ar), ar)
      else if \<not> contains d ''name'' \<or> \<not> is_string (jget d ''name'') \<or> \<not> validName name
              \<or> \<not> contains d ''offset'' \<or> \<not> is_number_unsigned (jget d ''offset'')
      then (Inr (INVALID_REQUEST, ''invalid log file or offset'', JNull), ar)
      else if ty = READ_LOG then
        (if \<not> contains d ''limit'' \<or> \<not> is_number_unsigned (jget d ''limit'') \<or> get_u64 (jget d ''limit'') < 1
            \<or> 16384 < get_u64 (jget d ''limit'')
         then (Inr (INVALID_REQUEST, ''invalid log read limit'', JNull), ar)
         else (map_sum id reply (log_read (se_pread se) i run_id name offset (unat (get_u64 (jget d ''limit''))) ar), ar))
      else if bad_upload owner d then (Inr (INVALID_REQUEST, ''invalid log upload'', JNull), ar)
      else
        (case log_append (se_io se) i run_id name offset (str_of (jget d ''data_hex'')) (bool_of (jget d ''complete'')) ar of
           (r, ar1) \<Rightarrow> (map_sum id reply r, ar1)))"

definition handle_log :: "senv \<Rightarrow> MessageType \<Rightarrow> json \<Rightarrow> core \<Rightarrow> (archive, answer) op" where
  "handle_log se ty d c ar =
     (if bad_log_identity ty d then (Inr (INVALID_REQUEST, ''invalid log identity'', JNull), ar)
      else
        (case getTask (se_env se) (get_u64 (jget d ''task_id'')) (co_sys c) of
           Inl x \<Rightarrow> (Inl x, ar)
         | Inr None \<Rightarrow> (Inr (NOT_FOUND, ''task not found'', JNull), ar)
         | Inr (Some _) \<Rightarrow>
             (case archiveOwner (get_u64 (jget d ''task_id'')) (str_of (jget d ''run_id'')) (co_sys c) of
                Inl x \<Rightarrow> (Inl x, ar)
              | Inr None \<Rightarrow> (Inr (INVALID_STATE, ''run is not finished'', JNull), ar)
              | Inr (Some owner) \<Rightarrow>
                  (case log_access se ty owner d ar of
                     (Inl (Invalid_argument what), ar1) \<Rightarrow> (Inr (INVALID_REQUEST, what, JNull), ar1)
                   | other \<Rightarrow> other))))"

section \<open>Queries\<close>

text \<open>What the router keeps besides the core: the log archive and the state of the query services.\<close>

record host =
  ho_core :: core
  ho_archive :: archive
  ho_lists :: TaskListQuery
  ho_regression :: RegressionService
  ho_catalog :: GuiCatalog

abbreviation ho_sys :: "host \<Rightarrow> sys" where
  "ho_sys h \<equiv> co_sys (ho_core h)"

text \<open>An exception of the kinds the handler catches becomes an answer; the others go on.\<close>

definition answer_result :: "exn + json \<Rightarrow> exn + answer" where
  "answer_result r =
     (case r of
        Inr j \<Rightarrow> Inr (OK, ''ok'', j)
      | Inl (Invalid_argument what) \<Rightarrow> Inr (INVALID_REQUEST, what, JNull)
      | Inl x \<Rightarrow> Inl x)"

definition handle_catalog :: "senv \<Rightarrow> json \<Rightarrow> (host, answer) op" where
  "handle_catalog se data h =
     (case catalog_query (se_codec se) (se_fs se) (se_steady se) data (ho_catalog h) of
        (r, st) \<Rightarrow>
          (case answer_result r of
             Inl (Logic_error what) \<Rightarrow> Inr (INVALID_STATE, what, JNull)
           | Inl (Length_error what) \<Rightarrow> Inr (INVALID_STATE, what, JNull)
           | other \<Rightarrow> other,
           h\<lparr>ho_catalog := st\<rparr>))"

definition handle_tasks :: "senv \<Rightarrow> json \<Rightarrow> (host, answer) op" where
  "handle_tasks se data h =
     (case list_query (se_env se) (se_steady se) data (ho_sys h) (ho_lists h) of
        (r, st) \<Rightarrow> (answer_result r, h\<lparr>ho_lists := st\<rparr>))"

definition handle_regression :: "senv \<Rightarrow> json \<Rightarrow> (host, answer) op" where
  "handle_regression se data h =
     (case RegressionQuery_parse data of
        None \<Rightarrow> (Inr (INVALID_REQUEST, ''invalid regression query'', JNull), h)
      | Some f \<Rightarrow>
          (case regression_query (se_env se) (se_cache se) f (ho_sys h) (ho_regression h) of
             (r, st) \<Rightarrow> (map_sum id (\<lambda>j. (OK, ''ok'', j)) r, h\<lparr>ho_regression := st\<rparr>)))"

definition handle_progress :: "senv \<Rightarrow> json \<Rightarrow> host \<Rightarrow> exn + answer" where
  "handle_progress se data h =
     (case ProgressQuery_parse data of
        None \<Rightarrow> Inr (INVALID_REQUEST, ''invalid progress query'', JNull)
      | Some q \<Rightarrow> map_sum id (\<lambda>j. (OK, ''ok'', j)) (queryProgress (se_env se) q (ho_sys h)))"

definition handle_rollback :: "senv \<Rightarrow> json \<Rightarrow> host \<Rightarrow> exn + answer" where
  "handle_rollback se data h =
     (case RollbackQuery_parse data of
        None \<Rightarrow> Inr (INVALID_REQUEST, ''invalid rollback query'', JNull)
      | Some q \<Rightarrow> map_sum id (\<lambda>j. (OK, ''ok'', j)) (queryRollbacks (se_env se) q (ho_sys h)))"

definition status_worker :: "Worker \<Rightarrow> json" where
  "status_worker w =
     jobject [(''worker_id'', JString (w_id w)), (''machine_id'', JString (w_machine_id w)),
       (''slot_id'', JString (w_slot_id w)), (''status'', JString (wstatus_toString (w_status w))),
       (''capacity'', JUnsigned (ucast (w_total_slots w))), (''used'', JUnsigned (ucast (w_used_slots w)))]"

text \<open>The counters of a machine are read and written as \<^verbatim>\<open>int\<close>.\<close>

definition add_int :: "string \<Rightarrow> int \<Rightarrow> json \<Rightarrow> json" where
  "add_int key n j = jset j key (jint (get_i32 (jget j key) + n))"

definition status_machine :: "Worker \<Rightarrow> json \<Rightarrow> json" where
  "status_machine w machines =
     (let machine = w_machine_id w;
          m = (if contains machines machine then jget machines machine
               else jobject [(''slots'', jint 0), (''online'', jint 0), (''running'', jint 0)]) in
      jset machines machine
        (add_int ''running'' (sint (w_used_slots w))
          (add_int ''online'' (if w_status w = ONLINE then 1 else 0) (add_int ''slots'' 1 m))))"

definition handle_status :: "json \<Rightarrow> host \<Rightarrow> answer" where
  "handle_status data h =
     (if \<not> is_object data \<or> \<not> jempty data then (INVALID_REQUEST, ''invalid status request'', JNull)
      else
        (let counts = statusCounts (ho_sys h); workers = getWorkers (sy_wm (ho_sys h));
             number = (\<lambda>k. JUnsigned (get_u64 (jget counts k))) in
         (OK, ''ok'', jobject [(''queued'', number ''QUEUED''), (''assigned'', number ''ASSIGNED''),
            (''running'', number ''RUNNING''), (''pending'', number ''PENDING''),
            (''total'', JUnsigned (sum_list (map (\<lambda>(k, v). get_u64 v) (members counts)))),
            (''workers'', JArray (map status_worker workers)),
            (''machines'', fold status_machine workers (JObject [])),
            (''regression_cache'', cacheStats (ho_regression h))])))"

section \<open>The switch\<close>

definition on_core :: "(core, answer) op \<Rightarrow> (host, answer) op" where
  "on_core f h = (case f (ho_core h) of (r, c) \<Rightarrow> (r, h\<lparr>ho_core := c\<rparr>))"

definition route :: "senv \<Rightarrow> MessageType \<Rightarrow> json \<Rightarrow> (host, answer) op" where
  "route se ty data h =
     (if ty = RESPONSE then (Inr (INVALID_REQUEST, ''unexpected response message'', JNull), h)
      else if ty = CONTROL_WORKERS
      then (Inr (INVALID_STATE, ''remote worker administration disabled until authentication is implemented'', JNull), h)
      else if ty = LOG_APPEND \<or> ty = QUERY_LOGS \<or> ty = READ_LOG
      then (case handle_log se ty data (ho_core h) (ho_archive h) of (r, ar) \<Rightarrow> (r, h\<lparr>ho_archive := ar\<rparr>))
      else if ty = QUERY_CATALOG then handle_catalog se data h
      else if ty = QUERY_TASKS then handle_tasks se data h
      else if ty = QUERY_WORKERS then (answer_result (api_workers data (sy_wm (ho_sys h))), h)
      else if ty = QUERY_CAPABILITIES then (answer_result (capabilities data), h)
      else if ty = SUBMIT_TASK then on_core (handle_submit se data) h
      else if ty = QUERY_TASK then (handle_query_task se data (ho_core h), h)
      else if ty = QUERY_REGRESSION then handle_regression se data h
      else if ty = QUERY_PROGRESS then (handle_progress se data h, h)
      else if ty = QUERY_ROLLBACK then (handle_rollback se data h, h)
      else if ty = QUERY_STATUS then (Inr (handle_status data h), h)
      else if ty = CANCEL_TASK then on_core (handle_cancel_task se data) h
      else if ty = QUERY_BATCH then (handle_query_batch se data (ho_core h), h)
      else if ty = CANCEL_BATCH then on_core (handle_cancel_batch se data) h
      else if ty = WORKER_REGISTER then on_core (handle_register se data) h
      else if ty = WORKER_RECOVER then on_core (handle_recover se data) h
      else if ty = WORKER_DRAIN then on_core (\<lambda>c. case handle_drain data c of (a, c1) \<Rightarrow> (Inr a, c1)) h
      else if ty = WORKER_HEARTBEAT then on_core (handle_heartbeat se data) h
      else if ty = TASK_START then on_core (handle_start se data) h
      else if ty = TASK_RESULT then on_core (handle_result se data) h
      else (Inr (INVALID_REQUEST, ''unknown message type'', JNull), h))"

definition router_handle :: "senv \<Rightarrow> ProtocolMessage \<Rightarrow> host \<Rightarrow> ProtocolMessage \<times> host" where
  "router_handle se request h =
     (case route se (pm_type request) (pm_data request) h of
        (Inr a, h1) \<Rightarrow> (buildResponse se request a, h1)
      | (Inl _, h1) \<Rightarrow> (buildResponse se request (INTERNAL_ERROR, ''server state unavailable'', JNull), h1))"

text \<open>The code a client reads from a response.\<close>

definition answer_code :: "ProtocolMessage \<Rightarrow> int" where
  "answer_code m = get_i32 (jget (pm_data m) ''code'')"

lemma answer_code_build: "answer_code (buildResponse se request (code, message, data)) = response_code code"
  by (cases code)
     (simp_all add: answer_code_def buildResponse_def Response_toJson_def jget_def jobject_def map_of_omap_set_any
       get_i32_jint)

end
