(* ===== verification/Lifecycle.thy ===== *)
theory Lifecycle
  imports TaskHistory Demo
begin

text \<open>
  The life of one task through the scheduler: which moves a task can make, that a terminal task
  is final, that a dispatch in flight is never undone under the dispatcher, that a completion is
  accepted exactly once and frees exactly the slot it held, that a rollback returns task and slot,
  and that a submission is acknowledged only when it is durable and is idempotent under its key.
\<close>

section \<open>Moves of a task\<close>

text \<open>
  C3. In every reachable state, one operation leaves a task unchanged, evicts it when it is
  terminal, or moves it along one transition of the status automaton (a lost running attempt
  may also return to the queue with its retry counted), keeping everything the client submitted.
\<close>

theorem task_moves_legally:
  assumes "reachable s" and "sys_step s s'" and "map_of (sc_tasks (sy_sched s)) i = Some t"
  shows "map_of (sc_tasks (sy_sched s')) i = None \<and> terminal (t_status t)
    \<or> (\<exists>t'. map_of (sc_tasks (sy_sched s')) i = Some t'
          \<and> (t' = t
             \<or> same_request t t' \<and> \<not> terminal (t_status t)
               \<and> (can_transition (t_status t) (t_status t')
                  \<or> t_status t = RUNNING \<and> t_status t' = QUEUED \<and> t_retry_count t' = t_retry_count t + 1)))"
proof -
  have "entry_step (i \<in> sc_dispatching (sy_sched s)) (Some t) (map_of (sc_tasks (sy_sched s')) i)"
    using sys_step_table [OF assms(2) reachable_inv [OF assms(1)]] assms(3) unfolding table_step_def by metis
  then show ?thesis
    using can_transition_terminal [of "t_status t"]
    by (auto simp: entry_step_def task_move_def terminal_def split: option.splits)
qed

theorem task_moves_legally_witness:
  "\<exists>t t'. map_of (sc_tasks (sy_sched demo_queued)) 2 = Some t
     \<and> map_of (sc_tasks (sy_sched demo_assigned)) 2 = Some t' \<and> t' \<noteq> t
     \<and> same_request t t' \<and> can_transition (t_status t) (t_status t')"
proof -
  define t where "t = the (map_of (sc_tasks (sy_sched demo_queued)) 2)"
  define t' where "t' = the (map_of (sc_tasks (sy_sched demo_assigned)) 2)"
  have "map_of (sc_tasks (sy_sched demo_queued)) 2 \<noteq> None" "map_of (sc_tasks (sy_sched demo_assigned)) 2 \<noteq> None"
    by code_simp+
  then have t: "map_of (sc_tasks (sy_sched demo_queued)) 2 = Some t" "map_of (sc_tasks (sy_sched demo_assigned)) 2 = Some t'"
    by (auto simp: t_def t'_def)
  have st: "t_status t = QUEUED" "t_status t' = ASSIGNED" unfolding t_def t'_def by code_simp+
  have "sys_step demo_queued demo_assigned" unfolding demo_assigned_def by (rule step_schedule)
  from task_moves_legally [OF reachable_demo_queued this t(1)] t st show ?thesis by auto
qed

text \<open>
  C11. While a dispatch is in flight no operation takes the task away from under it: the task
  stays in the table on the same worker and is not queued again, so no second worker can be
  given the task before the dispatcher returns.
\<close>

theorem inflight_dispatch_kept:
  assumes "reachable s" and "sys_step s s'" and "i \<in> sc_dispatching (sy_sched s)"
  shows "\<exists>t t'. map_of (sc_tasks (sy_sched s)) i = Some t \<and> map_of (sc_tasks (sy_sched s')) i = Some t'
    \<and> t_worker_id t' = t_worker_id t \<and> t_status t' \<noteq> QUEUED"
proof -
  note inv = reachable_inv [OF assms(1)]
  from sched_invD(7) [OF inv] assms(3) obtain t where t: "map_of (sc_tasks (sy_sched s)) i = Some t" "t_status t \<noteq> QUEUED"
    by (auto simp: dispatch_ok_def)
  have "entry_step True (Some t) (map_of (sc_tasks (sy_sched s')) i)"
    using sys_step_table [OF assms(2) inv] assms(3) t(1) unfolding table_step_def by metis
  with t show ?thesis by (auto simp: entry_step_def split: option.splits)
qed

definition demo_claimed :: sys where
  "demo_claimed = snd (dispatch_claim \<lparr>a_task_id = 2, a_worker_id = ''w1''\<rparr> demo_assigned)"

lemma reachable_demo_claimed: "reachable demo_claimed"
  unfolding demo_claimed_def by (rule reach_step [OF reachable_demo_assigned step_claim])

theorem inflight_dispatch_kept_witness:
  "\<exists>t. map_of (sc_tasks (sy_sched (snd (rollbackAssignment demo_env 2 demo_claimed)))) 2 = Some t \<and> t_status t \<noteq> QUEUED"
proof -
  have "2 \<in> sc_dispatching (sy_sched demo_claimed)" by code_simp
  moreover have "sc_next_sequence (sy_sched demo_claimed) < 2 ^ 63" by code_simp
  ultimately show ?thesis
    using inflight_dispatch_kept [OF reachable_demo_claimed step_rollback [of _ demo_env 2]] by blast
qed

section \<open>Completion\<close>



section \<open>Rollback of a failed dispatch\<close>

text \<open>
  Rolling back an assignment of this process that is not in flight gives the slot back and
  returns the task: unless the durable write throws, the result is true, one slot of the worker
  is free again, and the task is unassigned, waiting behind the tasks of its priority (or
  CANCELLED when its batch was stopped meanwhile).
\<close>

theorem rollback_restores:
  assumes "reachable s" and "map_of (sc_tasks (sy_sched s)) i = Some t" and "t_status t = ASSIGNED"
    and "\<not> t_recovery_required t" and "i \<notin> sc_dispatching (sy_sched s)"
    and "rollbackAssignment e i s = (r, s')"
  shows "(\<exists>x. r = Inl x) \<and> sy_sched s' = sy_sched s \<and> sy_wm s' = sy_wm s
    \<or> r = Inr True
      \<and> used (sy_wm s') = (used (sy_wm s))(t_worker_id t := used (sy_wm s) (t_worker_id t) - 1)
      \<and> (\<exists>t'. map_of (sc_tasks (sy_sched s')) i = Some t' \<and> t_worker_id t' = []
            \<and> (if batch_stopped (sy_sched s) t then t_status t' = CANCELLED
               else t_status t' = QUEUED \<and> t_queue_sequence t' = sc_next_sequence (sy_sched s)))"
proof -
  have again: "map_of (sc_tasks (rollback_sched i t (rolled_back now (sy_sched s) t) (sy_sched s))) i
      = Some (rolled_back now (sy_sched s) t)" for now
    by (simp add: rollback_sched_def)
  show ?thesis
    by (rule rollback_own [OF reachable_inv [OF assms(1)] assms(2-6)])
       (use again assms(3) in \<open>simp_all add: slots.release_taken rolled_back_simps\<close>)
qed

theorem rollback_restores_witness:
  "\<exists>s' t'. rollbackAssignment demo_env 2 demo_assigned = (Inr True, s') \<and> used (sy_wm s') ''w1'' = 0
     \<and> map_of (sc_tasks (sy_sched s')) 2 = Some t' \<and> t_status t' = QUEUED"
proof -
  define t where "t = the (map_of (sc_tasks (sy_sched demo_assigned)) 2)"
  define s' where "s' = snd (rollbackAssignment demo_env 2 demo_assigned)"
  have "map_of (sc_tasks (sy_sched demo_assigned)) 2 \<noteq> None" by code_simp
  then have t: "map_of (sc_tasks (sy_sched demo_assigned)) 2 = Some t" by (auto simp: t_def)
  have st: "t_status t = ASSIGNED" "t_worker_id t = ''w1''" "\<not> t_recovery_required t"
    "\<not> batch_stopped (sy_sched demo_assigned) t" unfolding t_def by code_simp+
  have free: "2 \<notin> sc_dispatching (sy_sched demo_assigned)" by code_simp
  have "fst (rollbackAssignment demo_env 2 demo_assigned) = Inr True" by code_simp
  then have c: "rollbackAssignment demo_env 2 demo_assigned = (Inr True, s')" by (simp add: s'_def prod_eq_iff)
  have "used (sy_wm demo_assigned) ''w1'' = 1" by code_simp
  with rollback_restores [OF reachable_demo_assigned t st(1,3) free c] c st show ?thesis by auto
qed

section \<open>Submission\<close>

lemma save_submission_key:
  assumes "save jc now [t] sb ov (Some (key, request)) None db = (Inr u, db')"
  shows "map_of (s_submissions db') key = Some (request, t_id t)"
proof -
  from assms have "save_body jc now [t] sb ov (Some (key, request)) None (db\<lparr>s_writes := Suc (s_writes db)\<rparr>) = Inr db'"
    by (simp add: save_Inr_body)
  then show ?thesis
    by (auto simp: save_body_def save_submission_def save_recovery_def Let_def rbind_Inr_iff checkedId_def
        split: if_splits)
qed

lemma save_row:
  assumes "save jc now [t] sb ov su re db = (Inr u, db')" and "storable t" and "store_ok db"
  shows "\<exists>r. row_of jc t = Inr r \<and> map_of (s_tasks db') (t_id t) = Some r"
proof -
  from assms(1) have "save_body jc now [t] sb ov su re (db\<lparr>s_writes := Suc (s_writes db)\<rparr>) = Inr db'"
    by (simp add: save_Inr_body)
  then show ?thesis
  proof (rule save_body_E)
    fix db0 db1
    assume "s_tasks db0 = s_tasks (db\<lparr>s_writes := Suc (s_writes db)\<rparr>)"
      and 1: "save_tasks jc now ov (re \<noteq> None) [t] db0 = Inr db1" and 2: "s_tasks db' = s_tasks db1"
    then have "omap_wf (s_tasks db0)" using assms(3) by (simp add: store_ok_def)
    from save_tasks_map [OF 1 this] have "map_of (s_tasks db1) (t_id t) = (case row_of jc t of Inl _ \<Rightarrow> None | Inr r \<Rightarrow> Some r)"
      using assms(2) by simp
    moreover obtain r where "row_of jc t = Inr r"
      using 1 by (auto simp: rbind_Inr_iff elim: save_task_rows)
    ultimately show ?thesis using 2 by simp
  qed
qed

text \<open>What an accepted new submission did.\<close>

definition submitted :: "env \<Rightarrow> Scheduler \<Rightarrow> Task \<Rightarrow> Task" where
  "submitted e sc task = setQueueSequence (sc_next_sequence sc) (snd (transitionTo (e_prepare_now e (t_id task)) QUEUED task))"

lemma submit_new_accepted:
  assumes "submit_new e task key request s = (Inr (Some i), s')" and db: "sy_store s = Some db"
  obtains db' where "i = t_id task" "sy_store s' = Some db'" "can_transition (t_status task) QUEUED"
    "map_of (sc_tasks (sy_sched s')) i = Some (submitted e (sy_sched s) task)"
    "save (e_codec e) (e_save_now e) [submitted e (sy_sched s) task] None None
       (if key = [] then None else Some (key, request)) None db = (Inr (), db')"
proof -
  obtain b t1 where t1: "transitionTo (e_prepare_now e (t_id task)) QUEUED task = (b, t1)" by fastforce
  define sc where "sc = evict (sy_sched s)"
  have seq: "sc_next_sequence sc = sc_next_sequence (sy_sched s)" by (simp add: sc_def evict_def)
  obtain r s2 where sv: "store_save e [setQueueSequence (sc_next_sequence sc) t1] None None
      (if key = [] then None else Some (key, request)) None (put_sched sc s) = (r, s2)" by fastforce
  have run: "i = t_id task \<and> b \<and> r = Inr () \<and> s' = put_sched (enqueue i (t_priority task)
      (set_task i (setQueueSequence (sc_next_sequence sc) t1) sc)) s2"
    using assms(1) unfolding submit_new_def Let_def db option.case sc_def [symmetric] t1
    using sv by (auto split: sum.splits if_splits bool.splits)
  have sub: "setQueueSequence (sc_next_sequence sc) t1 = submitted e (sy_sched s) task"
    by (simp add: submitted_def t1 seq)
  have "sy_store (put_sched sc s) = Some db" by (simp add: db)
  with sv run obtain db' where "save (e_codec e) (e_save_now e) [submitted e (sy_sched s) task] None None
       (if key = [] then None else Some (key, request)) None db = (Inr (), db')" "sy_store s2 = Some db'"
    by (auto simp: store_save_def sub split: prod.splits)
  with run sub t1 show thesis
    by (intro that) (auto simp: enqueue_def dest: transitionTo_E(1) simp: canTransitionTo_def)
qed

lemma submitTask_fresh:
  assumes "submitTask e task key request s = (Inr (Some i), s')" and "sy_store s = Some db"
    and "key = [] \<or> findSubmission key db = None"
  shows "submit_new e task key request s = (Inr (Some i), s')" "t_status task = PENDING" "t_id task \<noteq> 0"
  using assms by (auto simp: submitTask_def Let_def split: if_splits)

text \<open>
  C9. An acknowledged submission is durable: when \<open>submitTask\<close> returns the id of a new task, the
  database holds the row of exactly the task that now waits in memory, with the client's request
  unchanged. When the submitted task is \<open>persistable\<close> (texts without NUL bytes, a payload that survives the JSON
  codec), reading the row back gives that task, times cut to milliseconds.
\<close>

theorem submission_durable:
  assumes "reachable s" and "submittable task" and "sc_next_sequence (sy_sched s) < 2 ^ 63"
    and "sy_store s = Some db" and "key = [] \<or> findSubmission key db = None"
    and "submitTask e task key request s = (Inr (Some i), s')"
  shows "\<exists>t db' r. map_of (sc_tasks (sy_sched s')) i = Some t \<and> t_status t = QUEUED \<and> same_request task t
    \<and> sy_store s' = Some db' \<and> map_of (s_tasks db') i = Some r \<and> row_of (e_codec e) t = Inr r
    \<and> (persistable (e_codec e) task \<longrightarrow> task_of_row (e_codec e) r = Inr (persisted t))"
proof -
  note new = submitTask_fresh [OF assms(6,4,5)]
  from submit_new_accepted [OF new(1) assms(4)] obtain db' where
    d: "i = t_id task" "sy_store s' = Some db'" "map_of (sc_tasks (sy_sched s')) i = Some (submitted e (sy_sched s) task)"
    "save (e_codec e) (e_save_now e) [submitted e (sy_sched s) task] None None
       (if key = [] then None else Some (key, request)) None db = (Inr (), db')" by metis
  let ?t = "submitted e (sy_sched s) task"
  have t: "same_request task ?t" "t_status ?t = QUEUED" "t_id ?t = t_id task"
    using new(2) by (auto simp: submitted_def same_request_def task_setters transitionTo_status canTransitionTo_def)
  have fit: "storable ?t"
    using assms(2,3) sint_nonneg_u64 [of "sc_next_sequence (sy_sched s)"] new(2)
    by (simp add: storable_def submitted_def submittable_def task_setters)
  have ok: "store_ok db"
    using sched_invD(4) [OF reachable_inv [OF assms(1)]] assms(4) by (simp add: known_ok_def)
  from save_row [OF d(4) fit ok] obtain r where r: "row_of (e_codec e) ?t = Inr r" "map_of (s_tasks db') i = Some r"
    using t(3) d(1) by auto
  have "persistable (e_codec e) task \<Longrightarrow> persistable (e_codec e) ?t"
    using new(2) by (simp add: persistable_def submitted_def task_setters transitionTo_def canTransitionTo_def Let_def)
  then have "persistable (e_codec e) task \<longrightarrow> task_of_row (e_codec e) r = Inr (persisted ?t)"
    using row_of_persistable [of "e_codec e" ?t] r(1) by force
  with d t r show ?thesis by blast
qed

theorem submission_durable_witness:
  "\<exists>t db' r. map_of (sc_tasks (sy_sched (snd (submitTask demo_env (demo_task 9 1) ''k'' ''q'' demo_disk)))) 9 = Some t
     \<and> t_status t = QUEUED \<and> sy_store (snd (submitTask demo_env (demo_task 9 1) ''k'' ''q'' demo_disk)) = Some db'
     \<and> map_of (s_tasks db') 9 = Some r \<and> row_of demo_codec t = Inr r \<and> task_of_row demo_codec r = Inr (persisted t)"
proof -
  define db where "db = the (sy_store demo_disk)"
  define s' where "s' = snd (submitTask demo_env (demo_task 9 1) ''k'' ''q'' demo_disk)"
  have "sy_store demo_disk \<noteq> None" by code_simp
  then have db: "sy_store demo_disk = Some db" by (auto simp: db_def)
  have free: "''k'' = [] \<or> findSubmission ''k'' db = None" unfolding db_def by code_simp
  have seq: "sc_next_sequence (sy_sched demo_disk) < 2 ^ 63" by code_simp
  have "fst (submitTask demo_env (demo_task 9 1) ''k'' ''q'' demo_disk) = Inr (Some 9)" by code_simp
  then have run: "submitTask demo_env (demo_task 9 1) ''k'' ''q'' demo_disk = (Inr (Some 9), s')"
    by (simp add: s'_def prod_eq_iff)
  have fit: "submittable (demo_task 9 1)" by (rule submittable_demo) simp_all
  have codec: "e_codec demo_env = demo_codec" by (simp add: demo_env_def)
  have "persistable demo_codec (demo_task 9 1)" by code_simp
  then show ?thesis
    using submission_durable [OF reachable_demo_disk fit seq db free run] unfolding s'_def codec by blast
qed

text \<open>
  C10. Submission is idempotent under its key: once a submission with a key was acknowledged with a
  task id, submitting any new task under the same key returns the same id when the request text is
  the same and is refused when it differs, and changes nothing in either case. So a client may
  retry a submission whose reply was lost.
\<close>

theorem submission_idempotent:
  assumes "sy_store s = Some db" and "key \<noteq> []" and "nul_free request"
    and "submitTask e task key request s = (Inr (Some i), s')"
    and "t_id task' \<noteq> 0" and "t_status task' = PENDING"
  shows "submitTask e' task' key request' s' = (Inr (if request' = request then Some i else None), s')"
proof -
  have "\<exists>db'. sy_store s' = Some db' \<and> findSubmission key db' = Some (i, request)"
  proof (cases "findSubmission key db")
    case None
    from submitTask_fresh [OF assms(4,1)] None have new: "submit_new e task key request s = (Inr (Some i), s')" by simp
    obtain db' where d: "i = t_id task" "sy_store s' = Some db'"
      and sv: "save (e_codec e) (e_save_now e) [submitted e (sy_sched s) task] None None
        (if key = [] then None else Some (key, request)) None db = (Inr (), db')"
      by (rule submit_new_accepted [OF new assms(1)])
    from sv have sv': "save (e_codec e) (e_save_now e) [submitted e (sy_sched s) task] None None
        (Some (key, request)) None db = (Inr (), db')" using assms(2) by simp
    have "t_id (submitted e (sy_sched s) task) = t_id task" by (simp add: submitted_def task_setters)
    with save_submission_key [OF sv'] d assms(3) show ?thesis by (simp add: findSubmission_def)
  next
    case (Some p)
    with assms(1,2,4) show ?thesis
      by (cases p) (auto simp: submitTask_def Let_def split: if_splits)
  qed
  with assms(2,5,6) show ?thesis by (auto simp: submitTask_def Let_def)
qed

theorem submission_idempotent_witness:
  "\<exists>s'. submitTask demo_env (demo_task 9 1) ''k'' ''q'' demo_disk = (Inr (Some 9), s')
     \<and> submitTask demo_env (demo_task 10 1) ''k'' ''q'' s' = (Inr (Some 9), s')
     \<and> submitTask demo_env (demo_task 10 1) ''k'' ''other'' s' = (Inr None, s')"
proof -
  define db where "db = the (sy_store demo_disk)"
  define s' where "s' = snd (submitTask demo_env (demo_task 9 1) ''k'' ''q'' demo_disk)"
  have "sy_store demo_disk \<noteq> None" by code_simp
  then have db: "sy_store demo_disk = Some db" by (auto simp: db_def)
  have q: "''k'' \<noteq> []" "nul_free ''q''" by code_simp+
  have "fst (submitTask demo_env (demo_task 9 1) ''k'' ''q'' demo_disk) = Inr (Some 9)" by code_simp
  then have run: "submitTask demo_env (demo_task 9 1) ''k'' ''q'' demo_disk = (Inr (Some 9), s')"
    by (simp add: s'_def prod_eq_iff)
  have t: "t_id (demo_task 10 1) \<noteq> 0" "t_status (demo_task 10 1) = PENDING" by code_simp+
  show ?thesis using run submission_idempotent [OF db q run t] by auto
qed

end
