(* ===== verification/RouterFacts.thy ===== *)
theory RouterFacts
  imports Router Lifecycle
begin

text \<open>
  What the router guarantees: reports from a worker that does not hold the task have no effect,
  repeating an accepted result is harmless, and every request keeps the scheduler in a reachable
  state, so that all its invariants hold in a running server.
\<close>

section \<open>Foreign reports\<close>

text \<open>
  C17. A report about a task from a worker that is not its owner, or about another run of it, has
  no effect: a TASK_START or TASK_RESULT whose worker or run id is not the one of the task is
  answered with an error and changes nothing, neither in memory nor in the store.
\<close>

theorem foreign_report_harmless:
  assumes "pm_type m = TASK_START \<or> pm_type m = TASK_RESULT"
    and "getTask (se_env se) (get_u64 (jget (pm_data m) ''task_id'')) (ho_sys h) = Inr (Some t)"
    and "t_worker_id t \<noteq> str_of (jget (pm_data m) ''worker_id'') \<or> t_run_id t \<noteq> run_id_of (pm_data m)"
  shows "snd (router_handle se m h) = h \<and> answer_code (fst (router_handle se m h)) \<noteq> 0"
proof -
  let ?d = "pm_data m"
  have same: "h\<lparr>ho_core := ho_core h\<rparr> = h" by simp
  have start: "\<exists>code msg. handle_start se ?d (ho_core h) = (Inr (code, msg, JNull), ho_core h) \<and> code \<noteq> OK"
    using assms(2,3)
    by (auto simp: handle_start_def TaskStartRequest_fromJson_def start_answer_def Let_def split: if_splits)
  have result: "\<exists>code msg. handle_result se ?d (ho_core h) = (Inr (code, msg, JNull), ho_core h) \<and> code \<noteq> OK"
    using assms(2,3)
    by (auto simp: handle_result_def TaskResultRequest_fromJson_def result_answer_def Let_def split: if_splits)
  have "route se TASK_START ?d h = on_core (handle_start se ?d) h" "route se TASK_RESULT ?d h = on_core (handle_result se ?d) h"
    by (simp_all add: route_def)
  then obtain code msg where "route se (pm_type m) ?d h = (Inr (code, msg, JNull), h)" "code \<noteq> OK"
    using assms(1) start result by (auto simp: on_core_def same)
  moreover from this have "response_code code \<noteq> 0" by (cases code) auto
  ultimately show ?thesis by (simp add: router_handle_def answer_code_build)
qed

definition running_host :: host where
  "running_host = \<lparr>ho_core = demo_core\<lparr>co_sys := demo_running\<rparr>, ho_archive = [], ho_lists = new_task_lists,
     ho_regression = new_regression_service, ho_catalog = new_catalog\<rparr>"

definition result_message :: "string \<Rightarrow> ProtocolMessage" where
  "result_message w = new_message TASK_RESULT 7 (jobject [(''task_id'', JUnsigned 2), (''worker_id'', JString w),
     (''status'', JString ''SUCCEEDED'')])"

theorem foreign_report_harmless_witness:
  "snd (router_handle template_senv (result_message ''w2'') running_host) = running_host
   \<and> answer_code (fst (router_handle template_senv (result_message ''w2'') running_host)) \<noteq> 0"
proof -
  define t where "t = the (map_of (sc_tasks (sy_sched demo_running)) 2)"
  have "map_of (sc_tasks (sy_sched demo_running)) 2 \<noteq> None" by code_simp
  then have t: "map_of (sc_tasks (sy_sched demo_running)) 2 = Some t" by (auto simp: t_def)
  have w: "t_worker_id t = ''w1''" unfolding t_def by code_simp
  have d: "jget (pm_data (result_message ''w2'')) ''task_id'' = JUnsigned 2"
    "jget (pm_data (result_message ''w2'')) ''worker_id'' = JString ''w2''"
    by (simp_all add: result_message_def new_message_def jobject_def jget_def)
  show ?thesis
    by (rule foreign_report_harmless [of _ _ _ t])
       (use t w in \<open>simp_all add: d running_host_def getTask_def result_message_def new_message_def\<close>)
qed

section \<open>Repeated results\<close>

text \<open>What a successful \<open>completeTask\<close> leaves in the table.\<close>

lemma completeTask_True:
  assumes "completeTask e i st j s = (Inr True, s')"
  obtains t where "map_of (sc_tasks (sy_sched s)) i = Some t" "t_status t = RUNNING" "isValidFinalStatus st"
    "map_of (sc_tasks (sy_sched s')) i = Some (completed e i st j t)"
proof -
  obtain t where t: "map_of (sc_tasks (sy_sched s)) i = Some t" "t_status t = RUNNING" "t_worker_id t \<noteq> []"
    and st: "isValidFinalStatus st"
    using assms by (auto simp: completeTask_def Let_def split: if_splits option.splits)
  obtain r s1 where sv: "store_save e [completed e i st j t] None None None None s = (r, s1)" by fastforce
  note F = store_save_frame [OF sv] and run = completeTask_running [OF t st sv]
  have "sc_tasks (sy_sched s') = AList.update i (completed e i st j t) (sc_tasks (sy_sched s))"
    using assms unfolding run by (auto simp: Let_def F releaseRecoveryHold_def set_task_def split: sum.splits if_splits prod.splits)
  with t st that show thesis by simp
qed

lemma getTask_codec: "e_codec e = e_codec e' \<Longrightarrow> getTask e i s = getTask e' i s"
  unfolding getTask_def by (simp cong: option.case_cong)

lemma answer_zero: "answer_code (buildResponse se m a) = 0 \<longleftrightarrow> fst a = OK"
  by (cases a; cases "fst a") (auto simp: answer_code_build)

lemma result_repeated:
  assumes "reachable (co_sys c)" and "handle_result se d c = (Inr a, c')" and "fst a = OK" and "se_codec se' = se_codec se"
  shows "handle_result se' d c' = (Inr ok, c')"
proof -
  obtain r t where r: "TaskResultRequest_fromJson d = Inr r"
    and st: "re_status r = SUCCEEDED \<or> re_status r = FAILED \<or> re_status r = TIMEOUT"
    and t: "getTask (se_env se) (re_task_id r) (co_sys c) = Inr (Some t)"
    and ans: "result_answer se r t c = (Inr a, c')"
    using assms(2,3) by (auto simp: handle_result_def split: sum.splits if_splits option.splits)
  define summary where "summary = executionSummary (se_codec se) (re_message r) (re_status r)"
  have again: "handle_result se' d c' = (Inr ok, c')"
    if "getTask (se_env se') (re_task_id r) (co_sys c') = Inr (Some t')" "t_run_id t' = re_run_id r"
      "t_worker_id t' = re_worker_id r" "t_status t' = re_status r" "json_eq (t_execution_summary t') summary" for t'
    using that r st assms(4) by (auto simp: handle_result_def result_answer_def Let_def summary_def)
  have own: "t_run_id t = re_run_id r" "t_worker_id t = re_worker_id r"
    using ans assms(3) by (auto simp: result_answer_def Let_def split: if_splits)
  show ?thesis
  proof (cases "t_status t = re_status r \<and> json_eq (t_execution_summary t) summary")
    case True
    then have "c' = c" using ans own by (auto simp: result_answer_def Let_def summary_def)
    moreover have "getTask (se_env se') (re_task_id r) (co_sys c) = Inr (Some t)"
      using t assms(4) getTask_codec [of "se_env se'" "se_env se"] by (simp add: se_codec_def)
    ultimately show ?thesis using again own True by blast
  next
    case False
    obtain q s1 where run: "completeTask (se_env se) (re_task_id r) (re_status r) summary (co_sys c) = (q, s1)"
      by (meson surj_pair)
    have "t_status t = RUNNING"
      using ans own False assms(3) unfolding result_answer_def Let_def summary_def [symmetric] by (auto split: if_splits)
    then have step: "(case on_sys (completeTask (se_env se) (re_task_id r) (re_status r) summary) c of
           (Inl x, c1) \<Rightarrow> (Inl x, c1)
         | (Inr False, c1) \<Rightarrow> (Inr (INTERNAL_ERROR, ''failed to complete task'', JNull), c1)
         | (Inr True, c1) \<Rightarrow> (Inr ok, schedule_quietly se c1)) = (Inr a, c')"
      using ans own False unfolding result_answer_def Let_def summary_def [symmetric] by auto
    have com1: "q = Inr True" and c'1: "c' = schedule_quietly se (c\<lparr>co_sys := s1\<rparr>)"
      using step assms(3) by (simp_all add: on_sys_def run split: sum.splits bool.splits) auto
    define c1 where "c1 = c\<lparr>co_sys := s1\<rparr>"
    have com: "completeTask (se_env se) (re_task_id r) (re_status r) summary (co_sys c) = (Inr True, co_sys c1)"
      and c': "c' = schedule_quietly se c1" using com1 c'1 run by (simp_all add: c1_def)
    obtain u where u: "map_of (sc_tasks (sy_sched (co_sys c))) (re_task_id r) = Some u" "t_status u = RUNNING"
      "isValidFinalStatus (re_status r)"
      and dn: "map_of (sc_tasks (sy_sched (co_sys c1))) (re_task_id r)
        = Some (completed (se_env se) (re_task_id r) (re_status r) summary u)"
      using completeTask_True [OF com] by blast
    have "u = t" using t u(1) by (simp add: getTask_def)
    have fin: "t_status (completed (se_env se) (re_task_id r) (re_status r) summary u) = re_status r"
      "terminal (re_status r)"
      using u(2,3) by (auto simp: completed_simps isValidFinalStatus_def terminal_def)
    have "sched_inv (co_sys c1)"
      using inv_completeTask [OF reachable_inv [OF assms(1)], of "se_env se" "re_task_id r" "re_status r" summary] com by simp
    then have "requests_kept (co_sys c1) (co_sys c')"
      unfolding c' schedule_quietly_def by (rule requests_kept_requestSchedule)
    then have "map_of (sc_tasks (sy_sched (co_sys c'))) (re_task_id r)
        = Some (completed (se_env se) (re_task_id r) (re_status r) summary u)"
      using dn fin unfolding requests_kept_def kept_def by fastforce
    then have "getTask (se_env se') (re_task_id r) (co_sys c')
        = Inr (Some (completed (se_env se) (re_task_id r) (re_status r) summary u))" by (simp add: getTask_def)
    from again [OF this] fin own \<open>u = t\<close> show ?thesis by (simp add: completed_simps)
  qed
qed

text \<open>
  C18. Reporting a result twice is harmless: once a TASK_RESULT was answered with OK, the same
  message is answered with OK again and changes nothing, although the answer may have been lost
  and other tasks were scheduled meanwhile in the same step.
\<close>

theorem result_report_idempotent:
  assumes "reachable (ho_sys h)" and "pm_type m = TASK_RESULT" and "se_codec se' = se_codec se"
    and "router_handle se m h = (resp, h')" and "answer_code resp = 0"
  shows "snd (router_handle se' m h') = h' \<and> answer_code (fst (router_handle se' m h')) = 0"
proof -
  have r: "route se (pm_type m) (pm_data m) h = (case handle_result se (pm_data m) (ho_core h) of (r, c) \<Rightarrow> (r, h\<lparr>ho_core := c\<rparr>))" for se h
    using assms(2) by (simp add: route_def on_core_def)
  obtain a c' where a: "handle_result se (pm_data m) (ho_core h) = (Inr a, c')" "fst a = OK" "h' = h\<lparr>ho_core := c'\<rparr>"
    using assms(4,5) unfolding router_handle_def r
    by (auto simp: answer_zero split: prod.splits sum.splits)
  show ?thesis
    using result_repeated [OF assms(1) a(1,2) assms(3)] a(3)
    by (simp add: router_handle_def r answer_zero ok_def)
qed

theorem result_report_idempotent_witness:
  "\<exists>resp h'. router_handle template_senv (result_message ''w1'') running_host = (resp, h') \<and> answer_code resp = 0
     \<and> snd (router_handle template_senv (result_message ''w1'') h') = h'"
proof -
  obtain resp h' where run: "router_handle template_senv (result_message ''w1'') running_host = (resp, h')" by (meson surj_pair)
  define t where "t = the (map_of (sc_tasks (sy_sched demo_running)) 2)"
  have "map_of (sc_tasks (sy_sched demo_running)) 2 \<noteq> None" by code_simp
  then have t: "getTask (se_env template_senv) 2 demo_running = Inr (Some t)" by (auto simp: t_def getTask_def)
  have own: "t_worker_id t = ''w1''" "t_run_id t = []" "t_status t = RUNNING" unfolding t_def by code_simp+
  have r: "TaskResultRequest_fromJson (pm_data (result_message ''w1''))
      = Inr \<lparr>re_task_id = 2, re_worker_id = ''w1'', re_run_id = [], re_status = SUCCEEDED, re_message = []\<rparr>"
    by code_simp
  obtain q s1 where com: "completeTask (se_env template_senv) 2 SUCCEEDED JNull demo_running = (q, s1)" by (meson surj_pair)
  moreover have "fst (completeTask (se_env template_senv) 2 SUCCEEDED JNull demo_running) = Inr True" by code_simp
  ultimately have q: "q = Inr True" by simp
  have "fst (handle_result template_senv (pm_data (result_message ''w1'')) (ho_core running_host)) = Inr ok"
    using t own com q
    by (simp add: handle_result_def r running_host_def result_answer_def executionSummary_def Let_def on_sys_def)
  then have "answer_code (fst (router_handle template_senv (result_message ''w1'') running_host)) = 0"
    by (auto simp: router_handle_def route_def on_core_def result_message_def new_message_def answer_zero ok_def
          split: prod.splits)
  then have zero: "answer_code resp = 0" using run by simp
  have "reachable (ho_sys running_host)" by (simp add: running_host_def reachable_demo_running)
  from result_report_idempotent [OF this _ refl run zero] run zero show ?thesis
    by (simp add: result_message_def new_message_def)
qed

end
