(* ===== verification/RouterReach.thy ===== *)
theory RouterReach
  imports Router
begin

text \<open>
  Every request keeps the scheduler in a reachable state: a handler is a sequence of steps of the
  scheduler, the worker manager and the passes it requests. So all invariants of reachable states
  hold in a running server.
\<close>

section \<open>One step and a pass\<close>

abbreviation steps_of :: "core \<Rightarrow> nat" where
  "steps_of c \<equiv> Suc (length (sc_tasks (sy_sched (co_sys c))))"

lemma handler_pass:
  assumes "reachable (co_sys c)" and "core_room c" and "on_sys f c = (r, c1)"
    and "sys_step (co_sys c) (snd (f (co_sys c)))" and "grows (steps_of c) (co_sys c) (snd (f (co_sys c)))"
  shows "reachable (co_sys c1)" "reachable (co_sys (snd (requestSchedule se c1)))"
    "reachable (co_sys (schedule_quietly se c1))"
proof -
  have c1: "c1 = c\<lparr>co_sys := snd (f (co_sys c))\<rparr>" using assms(3) by (auto simp: on_sys_def split: prod.splits)
  have "reachable (snd (f (co_sys c)))" by (rule reach_step [OF assms(1,4)])
  with reachable_then_pass [OF assms(1,2) this assms(5)] show "reachable (co_sys c1)"
    "reachable (co_sys (snd (requestSchedule se c1)))" "reachable (co_sys (schedule_quietly se c1))"
    by (simp_all add: c1 schedule_quietly_def)
qed

lemma keeps_cancel_batch:
  assumes "reachable (co_sys c)" and "core_room c"
  shows "reachable (co_sys (snd (handle_cancel_batch se data c)))"
proof -
  let ?f = "cancelBatch (se_env se) (str_of (jget data ''batch_id''))"
  obtain r c1 where run: "on_sys ?f c = (r, c1)" by (meson surj_pair)
  have "grows (steps_of c) (co_sys c) (snd (?f (co_sys c)))" by (rule grows_mono [OF grows_cancelBatch]) simp
  from handler_pass [OF assms run step_stop this] assms(1) run show ?thesis
    by (simp add: handle_cancel_batch_def Let_def split: sum.split option.split)
qed

lemma keeps_recover:
  assumes "reachable (co_sys c)" and "core_room c"
  shows "reachable (co_sys (snd (handle_recover se d c)))"
proof -
  define st where "st = str_of (jget d ''state'')"
  define i where "i = (if st = ''idle'' then 0 else get_u64 (jget d ''task_id''))"
  define run_id where "run_id = (if st = ''idle'' then [] else str_of (jget d ''run_id''))"
  obtain r c1 where run: "on_sys (recoverWorker (se_env se) (str_of (jget d ''worker_id'')) st i run_id (se_max_retries se)) c = (r, c1)"
    by (meson surj_pair)
  note R = handler_pass(1) [OF assms run step_recover grows_recoverWorker]
    handler_pass(2) [OF assms run step_recover grows_recoverWorker, of se]
  obtain q c2 where pass: "requestSchedule se c1 = (q, c2)" by (meson surj_pair)
  show ?thesis
    using assms(1) R(1,2)
    unfolding handle_recover_def Let_def st_def [symmetric] i_def [symmetric] run_id_def [symmetric] run
    by (simp add: pass split: sum.split)
qed

lemma keeps_complete:
  assumes "reachable (co_sys c)" and "core_room c"
  shows "reachable (co_sys (snd (handle_result se d c)))"
proof -
  have R: "reachable (co_sys c1)" "reachable (co_sys (schedule_quietly se c1))"
    if "on_sys (completeTask (se_env se) i st j) c = (r, c1)" for i st j r c1
    using handler_pass [OF assms that step_complete grows_mono [OF grows_completeTask]] by simp_all
  have "reachable (co_sys (snd (result_answer se q t c)))" for q t
  proof -
    obtain r c1 where run: "on_sys (completeTask (se_env se) (re_task_id q) (re_status q)
        (executionSummary (se_codec se) (re_message q) (re_status q))) c = (r, c1)" by (meson surj_pair)
    with R [OF run] assms(1) show ?thesis
      by (simp add: result_answer_def Let_def split: sum.split bool.split)
  qed
  with assms(1) show ?thesis by (simp add: handle_result_def split: sum.split option.split)
qed


lemma keeps_start:
  assumes "reachable (co_sys c)"
  shows "reachable (co_sys (snd (handle_start se d c)))"
proof -
  have "reachable (co_sys (snd (start_answer se q t c)))" for q t
  proof -
    obtain r s1 where run: "markTaskStarted (se_env se) (st_task_id q) (st_worker_id q) (co_sys c) = (r, s1)" by (meson surj_pair)
    with assms reach_step [OF assms step_start, of "se_env se" "st_task_id q" "st_worker_id q"] show ?thesis
      by (simp add: start_answer_def on_sys_def split: sum.split bool.split)
  qed
  with assms show ?thesis by (simp add: handle_start_def split: sum.split option.split)
qed

lemma keeps_register:
  assumes "reachable (co_sys c)"
  shows "reachable (co_sys (snd (handle_register se d c)))"
proof -
  have R: "reachable (put_wm wm (co_sys c))" "reachable (put_wm (setControlSupported v b wm) (co_sys c))"
    if "registerWorker now w host slots machine slot (sy_wm (co_sys c)) = (r, wm)"
    for now w host slots machine slot r wm v b
  proof -
    have 1: "reachable (put_wm wm (co_sys c))"
      using reach_step [OF assms step_register, of now w host slots machine slot] that by simp
    then show "reachable (put_wm wm (co_sys c))" .
    show "reachable (put_wm (setControlSupported v b wm) (co_sys c))"
      using reach_step [OF 1 step_supported, of v b] by (simp add: put_wm_def)
  qed
  show ?thesis
    using assms R by (simp add: handle_register_def split: sum.split prod.split bool.split)
qed

lemma keeps_drain:
  assumes "reachable (co_sys c)"
  shows "reachable (co_sys (snd (handle_drain d c)))"
proof -
  obtain b wm where run: "markDraining (str_of (jget d ''worker_id'')) (sy_wm (co_sys c)) = (b, wm)" by (meson surj_pair)
  with assms reach_step [OF assms step_drain, of "str_of (jget d ''worker_id'')"] show ?thesis
    by (simp add: handle_drain_def on_wm_def split: bool.split)
qed

lemma keeps_heartbeat:
  assumes "reachable (co_sys c)" and "core_room c"
  shows "reachable (co_sys (snd (handle_heartbeat se d c)))"
proof -
  have beat: "reachable (co_sys c1) \<and> sy_sched (co_sys c1) = sy_sched (co_sys c)"
    if "on_wm (heartbeat (se_heartbeat_now se) w) c = (b, c1)" for w b c1
    using reach_step [OF assms(1) step_heartbeat, of "se_heartbeat_now se" w] that
    by (auto simp: on_wm_def put_wm_def split: prod.splits)
  have manage: "reachable (co_sys (snd (heartbeat_management se w d c1)))"
    if c1: "reachable (co_sys c1)" "sy_sched (co_sys c1) = sy_sched (co_sys c)" for w c1
  proof -
    let ?f = "run_wm (managementHeartbeat (se_codec se) w
      (if contains d ''maintenance_ack'' then jget d ''maintenance_ack'' else JNull))"
    obtain r c2 where run: "on_sys ?f c1 = (r, c2)" by (meson surj_pair)
    obtain q c3 where pass: "requestSchedule se c2 = (q, c3)" by (meson surj_pair)
    have room: "core_room c1" using assms(2) c1(2) by (simp add: core_room_def room_def)
    have "sy_sched (snd (?f (co_sys c1))) = sy_sched (co_sys c1)" by (auto simp: run_wm_def split: prod.split)
    then have "grows (steps_of c1) (co_sys c1) (snd (?f (co_sys c1)))" by (intro grows_same) simp_all
    note G = handler_pass(1) [OF c1(1) room run step_management this] handler_pass(2) [OF c1(1) room run step_management this, of se]
    then show ?thesis
      unfolding heartbeat_management_def Let_def run by (simp add: pass split: sum.split)
  qed
  show ?thesis
  proof (cases "WorkerHeartbeatRequest_fromJson d")
    case (Some w)
    obtain b c1 where hb: "on_wm (heartbeat (se_heartbeat_now se) w) c = (b, c1)" by (meson surj_pair)
    obtain r c2 where m: "heartbeat_management se w d c1 = (r, c2)" by (meson surj_pair)
    with manage [of c1 w] beat [OF hb] have "reachable (co_sys c1)" "reachable (co_sys c2)" by simp_all
    with Some hb m show ?thesis by (simp add: handle_heartbeat_def split: sum.split bool.split exn.split)
  qed (use assms(1) in \<open>simp add: handle_heartbeat_def\<close>)
qed

lemma keeps_submit_request:
  assumes "reachable (co_sys c)" and "core_room c"
  shows "reachable (co_sys (snd (handle_submit se d c)))"
proof -
  have "reachable (co_sys c1)" if "createTask se rq c = (r, c1)" for rq r c1
    using reachable_createTask [OF assms, of se rq] that by simp
  with assms(1) show ?thesis by (auto simp: handle_submit_def split: sum.split option.split prod.split)
qed

lemma keeps_cancel_request:
  assumes "reachable (co_sys c)" and "core_room c"
  shows "reachable (co_sys (snd (handle_cancel_task se d c)))"
proof -
  have "reachable (co_sys c1)" if "service_cancelTask se i c = (r, c1)" for i r c1
    using reachable_cancelTask [OF assms, of se i] that by simp
  with assms(1) show ?thesis by (auto simp: handle_cancel_task_def split: sum.split option.split prod.split bool.split)
qed

section \<open>The router\<close>

lemma on_core_sys: "ho_core (snd (on_core f h)) = snd (f (ho_core h))"
  by (simp add: on_core_def split: prod.split)

lemma reachable_route:
  assumes "reachable (ho_sys h)" and "core_room (ho_core h)"
  shows "reachable (ho_sys (snd (route se ty d h)))"
proof -
  have queries: "ho_core (snd (handle_catalog se d h)) = ho_core h" "ho_core (snd (handle_tasks se d h)) = ho_core h"
    "ho_core (snd (handle_regression se d h)) = ho_core h"
    by (simp_all add: handle_catalog_def handle_tasks_def handle_regression_def split: prod.split option.split)
  have drain: "snd (case handle_drain d c of (a, c1) \<Rightarrow> (Inr a, c1)) = snd (handle_drain d c)" for c
    by (simp split: prod.split)
  have logs: "ho_core (snd (case x of (r, ar) \<Rightarrow> (r, h\<lparr>ho_archive := ar\<rparr>))) = ho_core h" for x
    by (simp split: prod.split)
  note R = keeps_submit_request [OF assms] keeps_cancel_request [OF assms] keeps_cancel_batch [OF assms]
    keeps_register [OF assms(1)] keeps_recover [OF assms] keeps_drain [OF assms(1)]
    keeps_heartbeat [OF assms] keeps_start [OF assms(1)] keeps_complete [OF assms]
  show ?thesis
    using assms(1) by (cases ty) (simp_all add: route_def on_core_sys R queries drain logs)
qed

lemma reachable_router:
  assumes "reachable (ho_sys h)" and "core_room (ho_core h)"
  shows "reachable (ho_sys (snd (router_handle se m h)))"
  using reachable_route [OF assms, of se "pm_type m" "pm_data m"]
  by (auto simp: router_handle_def split: prod.splits sum.splits)

end
