(* ===== verification/Session.thy ===== *)
theory Session
  imports RouterReach
begin

text \<open>
  \<^verbatim>\<open>server/src/WorkerSession.cpp\<close>, \<^verbatim>\<open>server/src/ConnectionSession.cpp\<close> and \<^verbatim>\<open>server/src/WorkerServer.cpp\<close>: the
  sessions of the connections, their roles and bindings, and the server that calls them. The
  callbacks of a connection run under the session mutex, so each is one step; log requests are
  jobs of their own threads. A weak pointer to a connection is its id: it is gone when the
  connection is no longer in the network.
\<close>

section \<open>Sending\<close>

definition host_net :: "host \<Rightarrow> net" where
  "host_net h = co_net (ho_core h)"

definition put_net :: "net \<Rightarrow> host \<Rightarrow> host" where
  "put_net n h = h\<lparr>ho_core := (ho_core h)\<lparr>co_net := n\<rparr>\<rparr>"

definition put_sys :: "sys \<Rightarrow> host \<Rightarrow> host" where
  "put_sys s h = h\<lparr>ho_core := (ho_core h)\<lparr>co_sys := s\<rparr>\<rparr>"

definition host_send :: "senv \<Rightarrow> conn_id \<Rightarrow> string \<Rightarrow> host \<Rightarrow> host" where
  "host_send se c packet h = put_net (snd (net_send (se_net se) c packet (host_net h))) h"

section \<open>Worker sessions\<close>

record WorkerSession =
  ws_connection :: "conn_id option"
  ws_worker_id :: "WorkerId option"
  ws_recovery_protocol :: bool
  ws_binding_handle :: "HandleId option"

definition new_worker_session :: "conn_id \<Rightarrow> WorkerSession" where
  "new_worker_session c = \<lparr>ws_connection = Some c, ws_worker_id = None, ws_recovery_protocol = False, ws_binding_handle = None\<rparr>"

definition isRegistered :: "WorkerSession \<Rightarrow> bool" where
  "isRegistered ws \<longleftrightarrow> ws_worker_id ws \<noteq> None"

definition session_connection :: "WorkerSession \<Rightarrow> host \<Rightarrow> conn_id option" where
  "session_connection ws h =
     (case ws_connection ws of None \<Rightarrow> None | Some c \<Rightarrow> if c \<in> live (host_net h) then Some c else None)"

definition sendToConnection :: "senv \<Rightarrow> WorkerSession \<Rightarrow> string \<Rightarrow> host \<Rightarrow> host" where
  "sendToConnection se ws packet h =
     (case session_connection ws h of
        None \<Rightarrow> h
      | Some c \<Rightarrow> if packet \<noteq> [] then host_send se c packet h else h)"

text \<open>A response that does not serialize is dropped; one beyond the frame limit throws.\<close>

definition encodeResponse :: "senv \<Rightarrow> ProtocolMessage \<Rightarrow> exn + string" where
  "encodeResponse se response =
     (case ProtocolCodec_encode (se_codec se) response of
        Inl _ \<Rightarrow> Inr []
      | Inr json_text \<Rightarrow> MessageCodec_encode json_text)"

definition send_response :: "senv \<Rightarrow> WorkerSession \<Rightarrow> ProtocolMessage \<Rightarrow> (host, unit) op" where
  "send_response se ws response h =
     (case encodeResponse se response of
        Inl x \<Rightarrow> (Inl x, h)
      | Inr packet \<Rightarrow> (Inr (), sendToConnection se ws packet h))"

definition plain_response :: "u64 \<Rightarrow> ResponseCode \<Rightarrow> string \<Rightarrow> ProtocolMessage" where
  "plain_response request_id code message =
     \<lparr>pm_version = PROTOCOL_VERSION, pm_type = RESPONSE, pm_request_id = request_id,
      pm_data = Response_toJson \<lparr>rs_code = response_code code, rs_message = message, rs_data = JNull\<rparr>\<rparr>"

definition worker_reply :: "senv \<Rightarrow> WorkerSession \<Rightarrow> u64 \<Rightarrow> ResponseCode \<Rightarrow> string \<Rightarrow> (host, unit) op" where
  "worker_reply se ws request_id code message = send_response se ws (plain_response request_id code message)"

definition validateWorkerIdentity :: "WorkerSession \<Rightarrow> ProtocolMessage \<Rightarrow> bool" where
  "validateWorkerIdentity ws m \<longleftrightarrow>
     (case ws_worker_id ws of
        None \<Rightarrow> False
      | Some w \<Rightarrow> contains (pm_data m) ''worker_id'' \<and> is_string (jget (pm_data m) ''worker_id'')
                  \<and> str_of (jget (pm_data m) ''worker_id'') = w)"

definition session_current :: "WorkerSession \<Rightarrow> host \<Rightarrow> bool" where
  "session_current ws h \<longleftrightarrow>
     (case (ws_worker_id ws, ws_binding_handle ws) of
        (Some w, Some handle) \<Rightarrow> isCurrent (live (host_net h)) w handle (nt_registry (host_net h))
      | _ \<Rightarrow> False)"

definition permitsLogUpload :: "WorkerSession \<Rightarrow> ProtocolMessage \<Rightarrow> host \<Rightarrow> bool" where
  "permitsLogUpload ws m h \<longleftrightarrow> session_current ws h \<and> validateWorkerIdentity ws m"

text \<open>The state of a session step: the host and the session.\<close>

definition on_host :: "(host, unit) op \<Rightarrow> (host \<times> 'w, unit) op" where
  "on_host f x = (case f (fst x) of (r, h) \<Rightarrow> (r, (h, snd x)))"

text \<open>A registration whose request is well formed and whose connection is up.\<close>

definition register_worker :: "senv \<Rightarrow> ProtocolMessage \<Rightarrow> WorkerRegisterRequest \<Rightarrow> conn_id \<Rightarrow> (host \<times> WorkerSession, unit) op" where
  "register_worker se request dto c x =
     (let h = fst x; ws = snd x; data = pm_data request; i = pm_request_id request;
          recovering = contains data ''recovery_version'' in
      if recovering \<and> (\<not> json_eq (jget data ''recovery_version'') (jint 1) \<or> wr_slots dto \<noteq> 1)
      then on_host (worker_reply se ws i INVALID_REQUEST ''recovery v1 requires one slot'') x
      else
        (let h1 = (if recovering then put_sys (holdWorker (wr_worker_id dto) (ho_sys h)) h else h) in
         (case registerWorker (se_heartbeat_now se) (wr_worker_id dto) (wr_hostname dto) (wr_slots dto)
                 (wr_machine_id dto) (wr_slot_id dto) (sy_wm (ho_sys h1)) of
            (Inl e, wm) \<Rightarrow> (Inl e, (put_sys (put_wm wm (ho_sys h1)) h1, ws))
          | (Inr False, wm) \<Rightarrow>
              on_host (worker_reply se ws i INVALID_REQUEST ''invalid worker registration'')
                (put_sys (put_wm wm (ho_sys h1)) h1, ws)
          | (Inr True, wm) \<Rightarrow>
              (let h2 = put_sys (put_wm wm (ho_sys h1)) h1 in
               (case bindWithHandle (wr_worker_id dto) (Some c) (nt_registry (host_net h2)) of
                  (None, registry) \<Rightarrow> on_host (worker_reply se ws i INTERNAL_ERROR ''connection binding failed'') (h2, ws)
                | (Some handle, registry) \<Rightarrow>
                    (let h3 = put_net ((host_net h2)\<lparr>nt_registry := registry\<rparr>) h2;
                         ws1 = ws\<lparr>ws_worker_id := Some (wr_worker_id dto), ws_recovery_protocol := recovering,
                                  ws_binding_handle := Some handle\<rparr>;
                         h4 = put_sys (put_wm (setControlSupported (wr_worker_id dto) (wr_control_v1 dto)
                                (sy_wm (ho_sys h3))) (ho_sys h3)) h3 in
                     (case worker_reply se ws1 i OK ''ok'' h4 of
                        (Inl e, h5) \<Rightarrow> (Inl e, (h5, ws1))
                      | (Inr _, h5) \<Rightarrow>
                          if recovering then (Inr (), (h5, ws1))
                          else (case requestSchedule se (ho_core h5) of
                                  (r, core) \<Rightarrow> (r, (h5\<lparr>ho_core := core\<rparr>, ws1))))))))))"

definition handleRequest :: "senv \<Rightarrow> ProtocolMessage \<Rightarrow> (host \<times> WorkerSession, unit) op" where
  "handleRequest se request x =
     (let h = fst x; ws = snd x; i = pm_request_id request;
          refuse = (\<lambda>code message. on_host (worker_reply se ws i code message) x) in
      if isRegistered ws \<and> \<not> session_current ws h then refuse INVALID_STATE ''worker connection replaced''
      else if pm_type request = WORKER_REGISTER then
        (case WorkerRegisterRequest_fromJson (pm_data request) of
           Inl error \<Rightarrow> refuse INVALID_REQUEST (pe_message error)
         | Inr dto \<Rightarrow>
             if isRegistered ws \<and> ws_worker_id ws \<noteq> Some (wr_worker_id dto)
             then refuse INVALID_REQUEST ''worker identity change not allowed''
             else
               (case session_connection ws h of
                  None \<Rightarrow> (Inr (), x)
                | Some c \<Rightarrow>
                    if \<not> isConnected (the (map_of (nt_conns (host_net h)) c)) then (Inr (), x)
                    else register_worker se request dto c x))
      else if \<not> isAllowed WORKER (pm_type request) then refuse INVALID_REQUEST ''message not allowed on worker connection''
      else if \<not> isRegistered ws then refuse INVALID_STATE ''worker not registered''
      else if \<not> validateWorkerIdentity ws request then refuse INVALID_REQUEST ''worker identity mismatch''
      else if pm_type request = WORKER_RECOVER \<and> \<not> ws_recovery_protocol ws
      then refuse INVALID_STATE ''register recovery_version first''
      else
        (case router_handle se request h of
           (response, h1) \<Rightarrow> on_host (send_response se ws response) (h1, ws)))"

definition worker_onMessage :: "senv \<Rightarrow> string \<Rightarrow> (host \<times> WorkerSession, unit) op" where
  "worker_onMessage se json_msg x =
     (case ProtocolCodec_decode (se_codec se) json_msg of
        Inl _ \<Rightarrow> on_host (worker_reply se (snd x) 0 INVALID_REQUEST ''invalid protocol message'') x
      | Inr request \<Rightarrow>
          (case handleRequest se request x of
             (Inl (Json_error _), (h1, ws1)) \<Rightarrow>
               on_host (worker_reply se ws1 (pm_request_id request) INVALID_REQUEST ''invalid message fields'') (h1, ws1)
           | other \<Rightarrow> other))"

definition worker_handleClose :: "host \<times> WorkerSession \<Rightarrow> host \<times> WorkerSession" where
  "worker_handleClose x =
     (let h = fst x; ws = snd x in
      (case ws_worker_id ws of
         None \<Rightarrow> x
       | Some w \<Rightarrow>
           (let h1 = (case ws_binding_handle ws of
                        None \<Rightarrow> h
                      | Some handle \<Rightarrow>
                          (case unbind w handle (\<lambda>wm. snd (markOffline w wm)) (nt_registry (host_net h), sy_wm (ho_sys h)) of
                             (_, registry, wm) \<Rightarrow>
                               put_sys (put_wm wm (ho_sys h)) (put_net ((host_net h)\<lparr>nt_registry := registry\<rparr>) h))) in
            (h1, ws\<lparr>ws_connection := None, ws_worker_id := None, ws_binding_handle := None\<rparr>))))"

section \<open>Connection sessions\<close>

record ConnectionSession =
  cs_connection :: conn_id
  cs_role :: ConnectionRole
  cs_worker :: WorkerSession

definition new_session :: "conn_id \<Rightarrow> ConnectionSession" where
  "new_session c = \<lparr>cs_connection = c, cs_role = UNKNOWN_ROLE, cs_worker = new_worker_session c\<rparr>"

definition sendResponse :: "senv \<Rightarrow> conn_id \<Rightarrow> ProtocolMessage \<Rightarrow> (host, unit) op" where
  "sendResponse se c response h =
     (case ProtocolCodec_encode (se_codec se) response of
        Inl _ \<Rightarrow> (Inl (Runtime_error ''response serialization failed''), h)
      | Inr first_text \<Rightarrow>
          (case (if kMaxBodyLenght < length first_text
                 then (case ProtocolCodec_encode (se_codec se) (plain_response (pm_request_id response) INTERNAL_ERROR
                              ''response exceeds frame limit'') of
                         Inl _ \<Rightarrow> Inl (Runtime_error ''fallback serialization failed'')
                       | Inr fallback \<Rightarrow> Inr fallback)
                 else Inr first_text) of
             Inl x \<Rightarrow> (Inl x, h)
           | Inr body \<Rightarrow>
               if c \<notin> live (host_net h) then (Inr (), h)
               else
                 (case MessageCodec_encode body of
                    Inl x \<Rightarrow> (Inl x, h)
                  | Inr packet \<Rightarrow> (Inr (), host_send se c packet h))))"

definition session_reply :: "senv \<Rightarrow> conn_id \<Rightarrow> u64 \<Rightarrow> ResponseCode \<Rightarrow> string \<Rightarrow> (host, unit) op" where
  "session_reply se c request_id code message = sendResponse se c (plain_response request_id code message)"

definition client_request :: "senv \<Rightarrow> conn_id \<Rightarrow> ProtocolMessage \<Rightarrow> (host, unit) op" where
  "client_request se c request h =
     (case router_handle se request h of
        (response, h1) \<Rightarrow>
          (case sendResponse se c response h1 of
             (Inl (Json_error _), h2) \<Rightarrow> session_reply se c (pm_request_id request) INVALID_REQUEST ''invalid message fields'' h2
           | (Inl _, h2) \<Rightarrow> session_reply se c (pm_request_id request) INTERNAL_ERROR ''request processing failed'' h2
           | (Inr _, h2) \<Rightarrow> (Inr (), h2)))"

definition session_onMessage :: "senv \<Rightarrow> string \<Rightarrow> (host \<times> ConnectionSession, unit) op" where
  "session_onMessage se message x =
     (let cs = snd x; c = cs_connection cs in
      (case ProtocolCodec_decode (se_codec se) message of
         Inl _ \<Rightarrow> on_host (session_reply se c 0 INVALID_REQUEST ''invalid protocol message'') x
       | Inr request \<Rightarrow>
           if \<not> isAllowed (cs_role cs) (pm_type request)
           then on_host (session_reply se c (pm_request_id request) INVALID_REQUEST
                  ''message is not allowed for this connection role'') x
           else if isWorkerRequest (pm_type request) then
             (case worker_onMessage se message (fst x, cs_worker cs) of
                (Inl e, (h1, ws)) \<Rightarrow> (Inl e, (h1, cs\<lparr>cs_worker := ws\<rparr>))
              | (Inr _, (h1, ws)) \<Rightarrow>
                  (Inr (), (h1, cs\<lparr>cs_worker := ws, cs_role := (if isRegistered ws then WORKER else cs_role cs)\<rparr>)))
           else on_host (client_request se c request) (fst x, cs\<lparr>cs_role := CLIENT\<rparr>)))"

definition session_handleClose :: "host \<times> ConnectionSession \<Rightarrow> host \<times> ConnectionSession" where
  "session_handleClose x =
     (case worker_handleClose (fst x, cs_worker (snd x)) of (h1, ws) \<Rightarrow> (h1, (snd x)\<lparr>cs_worker := ws\<rparr>))"

definition authorizeLog :: "ProtocolMessage \<Rightarrow> host \<Rightarrow> ConnectionSession \<Rightarrow> bool \<times> ConnectionSession" where
  "authorizeLog request h cs =
     (if pm_type request = LOG_APPEND then (cs_role cs = WORKER \<and> permitsLogUpload (cs_worker cs) request h, cs)
      else if pm_type request \<noteq> QUERY_LOGS \<and> pm_type request \<noteq> READ_LOG then (False, cs)
      else if cs_role cs = WORKER then (False, cs)
      else (True, cs\<lparr>cs_role := CLIENT\<rparr>))"

end
