(* ===== verification/Server.thy ===== *)
theory Server
  imports Session
begin

text \<open>
  \<^verbatim>\<open>server/src/WorkerServer.cpp\<close>: the callbacks the transport calls, the queue of log jobs, the
  liveness check, and the server as a state machine over them. Every step keeps the scheduler in a
  reachable state, and the registry binds exactly the sessions that are open.
\<close>

section \<open>The server\<close>

record server =
  sv_host :: host
  sv_sessions :: "(conn_id \<times> ConnectionSession) list"
  sv_log_jobs :: "(conn_id \<times> ProtocolMessage) list"
  sv_log_stopping :: bool
  sv_liveness :: "(int \<times> int) option"

text \<open>The settings the constructor reads; \<open>sv_liveness\<close> keeps the timeout in seconds and the retention in days.\<close>

record server_config =
  cf_worker_timeout_seconds :: int
  cf_recovery_max_retries :: int
  cf_retention_days :: int

definition config_check :: "server_config \<Rightarrow> exn + unit" where
  "config_check cf =
     (if cf_worker_timeout_seconds cf < 2 \<or> 3600 < cf_worker_timeout_seconds cf
         \<or> cf_recovery_max_retries cf < 0 \<or> 100 < cf_recovery_max_retries cf
      then Inl (Runtime_error ''invalid worker recovery configuration'')
      else if cf_retention_days cf < 1 \<or> 3650 < cf_retention_days cf
      then Inl (Runtime_error ''invalid log.retention_days'')
      else Inr ())"

definition new_host :: "sys \<Rightarrow> u64 \<Rightarrow> host" where
  "new_host s next_id =
     \<lparr>ho_core = \<lparr>co_sys = s,
        co_net = \<lparr>nt_registry = new_registry, nt_conns = [], nt_jobs = [], nt_protocol_version = 1, nt_next_request_id = 1\<rparr>,
        co_driver = new_driver, co_next_id = next_id\<rparr>,
      ho_archive = [], ho_lists = new_task_lists, ho_regression = new_regression_service, ho_catalog = new_catalog\<rparr>"

text \<open>
  The constructor: a scheduler without a store, or one restored from the database whose settings
  are in range, with its liveness thread; the archive holds the logs of earlier processes.
\<close>

definition new_server :: "env \<Rightarrow> server_config \<Rightarrow> StateStore option \<Rightarrow> WorkerManager \<Rightarrow> archive \<Rightarrow> exn + server" where
  "new_server e cf store wm logs =
     (let start = (\<lambda>s i liveness. \<lparr>sv_host = (new_host s i)\<lparr>ho_archive := logs\<rparr>, sv_sessions = [], sv_log_jobs = [],
                          sv_log_stopping = False, sv_liveness = liveness\<rparr>) in
      (case store of
         None \<Rightarrow> Inr (start (boot wm) 1 None)
       | Some db \<Rightarrow>
           (case restoreFrom e db (boot wm) of
              (Inl x, _) \<Rightarrow> Inl x
            | (Inr _, s) \<Rightarrow>
                rbind (nextTaskId s) (\<lambda>i. rbind (config_check cf) (\<lambda>_.
                  Inr (start s i (Some (cf_worker_timeout_seconds cf, cf_retention_days cf))))))))"

definition server_sys :: "server \<Rightarrow> sys" where
  "server_sys sv = ho_sys (sv_host sv)"

section \<open>Log jobs\<close>

definition kMaxLogJobs :: nat where
  "kMaxLogJobs = 64"

definition on_connection :: "(Connection \<Rightarrow> Connection) \<Rightarrow> conn_id \<Rightarrow> host \<Rightarrow> host" where
  "on_connection f c h =
     (case map_of (nt_conns (host_net h)) c of
        None \<Rightarrow> h
      | Some conn \<Rightarrow> put_net ((host_net h)\<lparr>nt_conns := AList.update c (f conn) (nt_conns (host_net h))\<rparr>) h)"

definition sendLogResponse :: "senv \<Rightarrow> conn_id \<Rightarrow> ProtocolMessage \<Rightarrow> (host, unit) op" where
  "sendLogResponse se c response h =
     (case ProtocolCodec_encode (se_codec se) response of
        Inl _ \<Rightarrow> (Inr (), h)
      | Inr encoded \<Rightarrow>
          (case MessageCodec_encode encoded of
             Inl x \<Rightarrow> (Inl x, h)
           | Inr packet \<Rightarrow> (Inr (), host_send se c packet h)))"

definition logFailure :: "u64 \<Rightarrow> string \<Rightarrow> ProtocolMessage" where
  "logFailure i message =
     \<lparr>pm_version = PROTOCOL_VERSION, pm_type = RESPONSE, pm_request_id = i,
      pm_data = jobject [(''code'', jint 4), (''message'', JString message), (''result'', JNull)]\<rparr>"

text \<open>The oldest job, run by a log thread; the lease on the connection ends with it.\<close>

definition run_log_job :: "senv \<Rightarrow> server \<Rightarrow> server" where
  "run_log_job se sv =
     (case sv_log_jobs sv of
        [] \<Rightarrow> sv
      | (c, request) # rest \<Rightarrow>
          (case router_handle se request (sv_host sv) of
             (response, h1) \<Rightarrow>
               (let h2 = (case sendLogResponse se c response h1 of
                            (Inr _, h2) \<Rightarrow> h2
                          | (Inl _, h2) \<Rightarrow>
                              snd (sendLogResponse se c (logFailure (pm_request_id request) ''log I/O failed; retry later'') h2)) in
                sv\<lparr>sv_host := on_connection decPendingTasks c h2, sv_log_jobs := rest\<rparr>)))"

section \<open>Callbacks\<close>

definition server_open :: "conn_id \<Rightarrow> Connection \<Rightarrow> server \<Rightarrow> server" where
  "server_open c conn sv =
     (let n = host_net (sv_host sv) in
      sv\<lparr>sv_host := put_net (n\<lparr>nt_conns := AList.update c conn (nt_conns n)\<rparr>) (sv_host sv),
         sv_sessions := (if map_of (sv_sessions sv) c = None then AList.update c (new_session c) (sv_sessions sv)
                         else sv_sessions sv)\<rparr>)"

definition log_type :: "MessageType \<Rightarrow> bool" where
  "log_type ty \<longleftrightarrow> ty = LOG_APPEND \<or> ty = QUERY_LOGS \<or> ty = READ_LOG"

definition queue_log :: "senv \<Rightarrow> conn_id \<Rightarrow> ProtocolMessage \<Rightarrow> server \<Rightarrow> (exn + unit) \<times> server" where
  "queue_log se c request sv =
     (if \<not> sv_log_stopping sv \<and> length (sv_log_jobs sv) < kMaxLogJobs
      then (Inr (), sv\<lparr>sv_host := on_connection incPendingTasks c (sv_host sv),
                       sv_log_jobs := sv_log_jobs sv @ [(c, request)]\<rparr>)
      else
        (case sendLogResponse se c (logFailure (pm_request_id request) ''log I/O queue full; retry later'') (sv_host sv) of
           (r, h) \<Rightarrow> (r, sv\<lparr>sv_host := h\<rparr>)))"

definition deliver :: "senv \<Rightarrow> conn_id \<Rightarrow> string \<Rightarrow> (server, unit) op" where
  "deliver se c message sv =
     (case map_of (sv_sessions sv) c of
        None \<Rightarrow> (Inr (), sv)
      | Some cs \<Rightarrow>
          (case session_onMessage se message (sv_host sv, cs) of
             (r, (h, cs1)) \<Rightarrow> (r, sv\<lparr>sv_host := h, sv_sessions := AList.update c cs1 (sv_sessions sv)\<rparr>)))"

definition server_message :: "senv \<Rightarrow> conn_id \<Rightarrow> string \<Rightarrow> (server, unit) op" where
  "server_message se c message sv =
     (case ProtocolCodec_decode (se_codec se) message of
        Inl _ \<Rightarrow> deliver se c message sv
      | Inr request \<Rightarrow>
          if \<not> log_type (pm_type request) then deliver se c message sv
          else
            (case map_of (sv_sessions sv) c of
               None \<Rightarrow> deliver se c message sv
             | Some cs \<Rightarrow>
                 (case authorizeLog request (sv_host sv) cs of
                    (permitted, cs1) \<Rightarrow>
                      (let sv1 = sv\<lparr>sv_sessions := AList.update c cs1 (sv_sessions sv)\<rparr> in
                       if permitted then queue_log se c request sv1 else deliver se c message sv1))))"

definition server_close :: "conn_id \<Rightarrow> server \<Rightarrow> server" where
  "server_close c sv =
     (case map_of (sv_sessions sv) c of
        None \<Rightarrow> sv
      | Some cs \<Rightarrow>
          (case session_handleClose (sv_host sv, cs) of
             (h, _) \<Rightarrow> sv\<lparr>sv_host := h, sv_sessions := AList.delete c (sv_sessions sv)\<rparr>))"

text \<open>
  The liveness thread, with the timeout it was started with; its hourly retention removes whole
  runs of the archive (\<open>pruneOlderThan\<close> chooses them by the times of their files); and a pass
  requested from outside.
\<close>

definition server_tick :: "time_point \<Rightarrow> server \<Rightarrow> server" where
  "server_tick now sv =
     (case sv_liveness sv of
        None \<Rightarrow> sv
      | Some (timeout, _) \<Rightarrow>
          sv\<lparr>sv_host := put_sys (put_wm (checkTimeouts now timeout (sy_wm (server_sys sv))) (server_sys sv)) (sv_host sv)\<rparr>)"

definition server_prune :: "(u64 \<times> string \<Rightarrow> bool) \<Rightarrow> server \<Rightarrow> server" where
  "server_prune expired sv =
     (if sv_liveness sv = None then sv
      else sv\<lparr>sv_host := (sv_host sv)\<lparr>ho_archive :=
             filter (\<lambda>((task_id, run_id, _), _). \<not> expired (task_id, run_id)) (ho_archive (sv_host sv))\<rparr>\<rparr>)"

definition server_runOnce :: "senv \<Rightarrow> server \<Rightarrow> server" where
  "server_runOnce se sv =
     (let core = ho_core (sv_host sv) in
      (case runOnce (pass_env se) (alone (dispatch (se_net se))) (co_sys core, co_net core) of
         (r, (s, n)) \<Rightarrow> sv\<lparr>sv_host := (sv_host sv)\<lparr>ho_core := core\<lparr>co_sys := s, co_net := n\<rparr>\<rparr>\<rparr>))"

text \<open>
  The transport between the callbacks: the loops read, write and change the states of their
  connections, and drop a connection after its close callback has run.
\<close>

definition transport :: "(conn_id \<times> Connection) list \<Rightarrow> (conn_id \<times> string) list \<Rightarrow> server \<Rightarrow> server" where
  "transport conns jobs sv =
     sv\<lparr>sv_host := put_net ((host_net (sv_host sv))\<lparr>nt_conns := conns, nt_jobs := jobs\<rparr>) (sv_host sv)\<rparr>"

section \<open>Steps\<close>

inductive server_step :: "server \<Rightarrow> server \<Rightarrow> bool" where
  sv_open: "map_of (sv_sessions sv) c = None \<Longrightarrow> c \<notin> live (host_net (sv_host sv)) \<Longrightarrow>
     server_step sv (server_open c (new_connection now) sv)"
| sv_message: "core_room (ho_core (sv_host sv)) \<Longrightarrow> server_step sv (snd (server_message se c message sv))"
| sv_log_job: "core_room (ho_core (sv_host sv)) \<Longrightarrow> server_step sv (run_log_job se sv)"
| sv_close: "server_step sv (server_close c sv)"
| sv_tick: "server_step sv (server_tick now sv)"
| sv_prune: "server_step sv (server_prune expired sv)"
| sv_pass: "core_room (ho_core (sv_host sv)) \<Longrightarrow> server_step sv (server_runOnce se sv)"
| sv_stop: "server_step sv (sv\<lparr>sv_log_stopping := True\<rparr>)"
| sv_transport: "fst ` set conns \<subseteq> live (host_net (sv_host sv)) \<Longrightarrow>
     fst ` set (sv_sessions sv) \<subseteq> fst ` set conns \<Longrightarrow> server_step sv (transport conns jobs sv)"

inductive server_reachable :: "server \<Rightarrow> bool" where
  sv_start: "wm_workers wm = [] \<Longrightarrow> (\<forall>db. store = Some db \<longrightarrow> restorable e db) \<Longrightarrow>
     new_server e cf store wm logs = Inr sv \<Longrightarrow> server_reachable sv"
| sv_next: "server_reachable sv \<Longrightarrow> server_step sv sv' \<Longrightarrow> server_reachable sv'"

end
