(* ===== verification/ServerFacts.thy ===== *)
theory ServerFacts
  imports Server
begin

text \<open>
  What holds in every reachable state of the server: the scheduler's state is reachable, and the
  registry binds only sessions that are open and hold exactly that binding.
\<close>

section \<open>Frames\<close>

lemma put_net_simps [simp]:
  "ho_core (put_net n h) = (ho_core h)\<lparr>co_net := n\<rparr>" "host_net (put_net n h) = n" "ho_sys (put_net n h) = ho_sys h"
  by (simp_all add: put_net_def host_net_def)

lemma put_sys_simps [simp]:
  "ho_core (put_sys s h) = (ho_core h)\<lparr>co_sys := s\<rparr>" "host_net (put_sys s h) = host_net h" "ho_sys (put_sys s h) = s"
  by (simp_all add: put_sys_def host_net_def)

text \<open>A network whose bindings and set of connections are those of another.\<close>

definition same_links :: "net \<Rightarrow> net \<Rightarrow> bool" where
  "same_links n n' \<longleftrightarrow> nt_registry n' = nt_registry n \<and> live n' = live n"

lemma same_links_refl [simp]: "same_links n n"
  by (simp add: same_links_def)

lemma same_links_trans: "same_links a b \<Longrightarrow> same_links b c \<Longrightarrow> same_links a c"
  by (simp add: same_links_def)

lemma live_update: "map_of (nt_conns n) c = Some conn \<Longrightarrow> live (n\<lparr>nt_conns := AList.update c conn' (nt_conns n)\<rparr>) = live n"
  by (auto simp: live_def dom_update dest: map_of_SomeD intro: rev_image_eqI)

lemma same_links_send: "same_links n (snd (net_send ne c packet n))"
  by (auto simp: net_send_def same_links_def live_update live_def dom_update split: option.split prod.split
      dest: map_of_SomeD intro: rev_image_eqI)

lemma same_links_dispatch: "same_links n (snd (dispatch ne w t n))"
proof -
  have build: "same_links n (snd (buildTaskAssignMessage t n))"
    by (simp add: buildTaskAssignMessage_def same_links_def live_def)
  have sent: "same_links n (snd (net_send ne c p n1))" if "buildTaskAssignMessage t n = (m, n1)" for c p m n1
    using build that same_links_trans [OF _ same_links_send] by fastforce
  show ?thesis
    using build sent by (auto simp: dispatch_def split: option.split prod.split sum.split)
qed

lemma same_links_dispatch_all: "same_links n (snd (snd (dispatch_all e (alone (dispatch ne)) as r (s, n))))"
proof (induction as arbitrary: r s n)
  case (Cons a as)
  have "\<exists>res n1. dispatchAssignment a (alone (dispatch ne)) (s, n) = (Inr res, (s, n1)) \<and> same_links n n1"
    unfolding dispatch_alone using same_links_dispatch [of n ne] by (auto split: prod.split option.split) (metis snd_conv)
  then obtain res n1 where D: "dispatchAssignment a (alone (dispatch ne)) (s, n) = (Inr res, (s, n1))" "same_links n n1" by blast
  note step = same_links_trans [OF D(2) Cons.IH]
  obtain res2 s2 where rb: "rollbackAssignment e (a_task_id a) s = (res2, s2)" by (meson surj_pair)
  show ?case using step D(2) by (auto simp: D(1) rb Let_def split: option.split bool.split sum.split)
qed simp

lemma same_links_runOnce: "same_links n (snd (snd (runOnce e (alone (dispatch ne)) (s, n))))"
  by (auto simp: runOnce_def same_links_dispatch_all split: prod.split sum.split)

lemma same_links_pass:
  "same_links (co_net c) (co_net (snd (requestSchedule se c)))" "same_links (co_net c) (co_net (schedule_quietly se c))"
proof -
  show "same_links (co_net c) (co_net (snd (requestSchedule se c)))"
    using same_links_runOnce [of "co_net c" "pass_env se" "se_net se" "co_sys c"]
    by (auto simp: requestSchedule_def split: prod.split bool.split)
  then show "same_links (co_net c) (co_net (schedule_quietly se c))" by (simp add: schedule_quietly_def)
qed


section \<open>The router keeps the links\<close>

lemma on_sys_net: "on_sys f c = (r, c1) \<Longrightarrow> co_net c1 = co_net c"
  by (auto simp: on_sys_def split: prod.splits)

lemma on_wm_net: "on_wm f c = (r, c1) \<Longrightarrow> co_net c1 = co_net c"
  by (auto simp: on_wm_def split: prod.splits)

text \<open>After a step on the scheduler, with or without a pass.\<close>

lemma links_after:
  assumes "co_net c1 = co_net c"
  shows "same_links (co_net c) (co_net c1)" "same_links (co_net c) (co_net (schedule_quietly se c1))"
    "requestSchedule se c1 = (q, c2) \<Longrightarrow> same_links (co_net c) (co_net c2)"
  using same_links_pass [of c1 se] by (auto simp flip: assms)

lemmas keeps_links = links_after [OF on_sys_net] links_after [OF on_wm_net]

lemma links_createTask: "createTask se rq c = (r, c1) \<Longrightarrow> same_links (co_net c) (co_net c1)"
proof -
  have "same_links (co_net c) (co_net c2)" if "create_new se rq print payload c = (q, c2)" for print payload q c2
  proof -
    let ?f = "submitTask (se_env se) (created_task se rq payload (co_next_id c)) (ct_submission_key rq) print"
    obtain a c3 where run: "on_sys ?f (c\<lparr>co_next_id := co_next_id c + 1\<rparr>) = (a, c3)" by (meson surj_pair)
    then have "co_net c3 = co_net c" using on_sys_net by fastforce
    from links_after(1,2) [OF this] that run show ?thesis
      by (auto simp: create_new_def Let_def split: sum.splits option.splits)
  qed
  then show "createTask se rq c = (r, c1) \<Longrightarrow> same_links (co_net c) (co_net c1)"
    by (auto simp: createTask_def split: option.splits sum.splits if_splits bool.splits)
qed

lemma links_submit: "same_links (co_net c) (co_net (snd (handle_submit se d c)))"
  using links_createTask by (auto simp: handle_submit_def split: sum.split option.split prod.split)

lemma links_cancel_task: "same_links (co_net c) (co_net (snd (handle_cancel_task se d c)))"
proof -
  have "same_links (co_net c) (co_net c1)" if "service_cancelTask se i c = (r, c1)" for i r c1
  proof -
    obtain a c3 where run: "on_sys (cancelTask (se_env se) i) c = (a, c3)" by (meson surj_pair)
    with that keeps_links(1,2) [OF run] show ?thesis by (auto simp: service_cancelTask_def split: sum.splits bool.splits)
  qed
  then show ?thesis by (auto simp: handle_cancel_task_def split: sum.split option.split prod.split bool.split)
qed

lemma links_cancel_batch: "same_links (co_net c) (co_net (snd (handle_cancel_batch se d c)))"
proof -
  obtain a c3 where run: "on_sys (cancelBatch (se_env se) (str_of (jget d ''batch_id''))) c = (a, c3)" by (meson surj_pair)
  with keeps_links(1,2) [OF run] show ?thesis
    by (simp add: handle_cancel_batch_def Let_def split: sum.split option.split)
qed

lemma links_recover: "same_links (co_net c) (co_net (snd (handle_recover se d c)))"
  by (auto simp: handle_recover_def Let_def dest: keeps_links(1,3) split: sum.split prod.split)

lemma links_result: "same_links (co_net c) (co_net (snd (handle_result se d c)))"
proof -
  have "same_links (co_net c) (co_net (snd (result_answer se q t c)))" for q t
  proof -
    obtain r c1 where run: "on_sys (completeTask (se_env se) (re_task_id q) (re_status q)
        (executionSummary (se_codec se) (re_message q) (re_status q))) c = (r, c1)" by (meson surj_pair)
    with keeps_links(1,2) [OF run] show ?thesis by (simp add: result_answer_def Let_def split: sum.split bool.split)
  qed
  then show ?thesis by (simp add: handle_result_def split: sum.split option.split)
qed

lemma links_start: "same_links (co_net c) (co_net (snd (handle_start se d c)))"
proof -
  have "same_links (co_net c) (co_net (snd (start_answer se q t c)))" for q t
  proof -
    obtain r c1 where run: "on_sys (markTaskStarted (se_env se) (st_task_id q) (st_worker_id q)) c = (r, c1)" by (meson surj_pair)
    with keeps_links(1) [OF run] show ?thesis by (simp add: start_answer_def split: sum.split bool.split)
  qed
  then show ?thesis by (simp add: handle_start_def split: sum.split option.split)
qed

lemma links_register: "same_links (co_net c) (co_net (snd (handle_register se d c)))"
  by (simp add: handle_register_def split: sum.split prod.split bool.split)

lemma links_drain: "same_links (co_net c) (co_net (snd (handle_drain d c)))"
  by (auto simp: handle_drain_def dest: keeps_links(4) split: prod.split bool.split)

lemma links_heartbeat: "same_links (co_net c) (co_net (snd (handle_heartbeat se d c)))"
proof -
  have manage: "same_links (co_net c1) (co_net (snd (heartbeat_management se w d c1)))" for w c1
  proof -
    let ?f = "run_wm (managementHeartbeat (se_codec se) w
      (if contains d ''maintenance_ack'' then jget d ''maintenance_ack'' else JNull))"
    obtain r c2 where run: "on_sys ?f c1 = (r, c2)" by (meson surj_pair)
    obtain q c3 where pass: "requestSchedule se c2 = (q, c3)" by (meson surj_pair)
    show ?thesis
      using keeps_links(1) [OF run] keeps_links(3) [OF run pass]
      unfolding heartbeat_management_def Let_def run by (simp add: pass split: sum.split)
  qed
  show ?thesis
  proof (cases "WorkerHeartbeatRequest_fromJson d")
    case (Some w)
    obtain b c1 where hb: "on_wm (heartbeat (se_heartbeat_now se) w) c = (b, c1)" by (meson surj_pair)
    obtain r c2 where m: "heartbeat_management se w d c1 = (r, c2)" by (meson surj_pair)
    have "same_links (co_net c) (co_net c1)" "same_links (co_net c) (co_net c2)"
      using manage [of c1 w] m on_wm_net [OF hb] by simp_all
    with Some hb m show ?thesis by (simp add: handle_heartbeat_def split: sum.split bool.split exn.split)
  qed (simp add: handle_heartbeat_def)
qed

lemma links_router: "same_links (host_net h) (host_net (snd (router_handle se m h)))"
proof -
  have queries: "ho_core (snd (handle_catalog se d h)) = ho_core h" "ho_core (snd (handle_tasks se d h)) = ho_core h"
    "ho_core (snd (handle_regression se d h)) = ho_core h" for d
    by (simp_all add: handle_catalog_def handle_tasks_def handle_regression_def split: prod.split option.split)
  have drain: "snd (case handle_drain d c of (a, c1) \<Rightarrow> (Inr a, c1)) = snd (handle_drain d c)" for d c
    by (simp split: prod.split)
  have logs: "ho_core (snd (case x of (r, ar) \<Rightarrow> (r, h\<lparr>ho_archive := ar\<rparr>))) = ho_core h" for x
    by (simp split: prod.split)
  have "same_links (host_net h) (host_net (snd (route se ty d h)))" for ty d
    unfolding host_net_def
    by (cases ty) (simp_all add: route_def on_core_sys queries drain logs links_submit links_cancel_task links_cancel_batch
        links_recover links_result links_start links_register links_drain links_heartbeat)
  from this [of "pm_type m" "pm_data m"] show ?thesis by (auto simp: router_handle_def split: prod.splits sum.splits)
qed


section \<open>Answers change nothing else\<close>

definition quiet :: "host \<Rightarrow> host \<Rightarrow> bool" where
  "quiet h h' \<longleftrightarrow> ho_sys h' = ho_sys h \<and> same_links (host_net h) (host_net h')"

lemma quiet_refl [simp]: "quiet h h"
  by (simp add: quiet_def)

lemma quiet_trans: "quiet a b \<Longrightarrow> quiet b c \<Longrightarrow> quiet a c"
  by (auto simp: quiet_def intro: same_links_trans)

lemma quiet_host_send: "quiet h (host_send se c packet h)"
  by (simp add: quiet_def host_send_def same_links_send)

lemma quiet_send_response: "quiet h (snd (send_response se ws response h))"
  by (simp add: send_response_def sendToConnection_def quiet_host_send split: sum.split option.split)

lemma quiet_worker_reply: "quiet h (snd (worker_reply se ws i code message h))"
  by (simp add: worker_reply_def quiet_send_response)

lemma quiet_sendResponse: "quiet h (snd (sendResponse se c response h))"
  by (simp add: sendResponse_def quiet_host_send split: sum.split)

lemma quiet_session_reply: "quiet h (snd (session_reply se c i code message h))"
  by (simp add: session_reply_def quiet_sendResponse)

lemma quiet_sendLogResponse: "quiet h (snd (sendLogResponse se c response h))"
  by (simp add: sendLogResponse_def quiet_host_send split: sum.split)

lemma quiet_on_connection: "quiet h (on_connection f c h)"
  by (auto simp: on_connection_def quiet_def same_links_def live_update split: option.split)

section \<open>Sessions and their bindings\<close>

abbreviation entries_of :: "host \<Rightarrow> (WorkerId \<times> ConnectionEntry) list" where
  "entries_of h \<equiv> rg_registry (nt_registry (host_net h))"

text \<open>A step of the session on connection \<open>c\<close>: the bindings stay, or the session binds its worker to \<open>c\<close>.\<close>

definition session_links :: "conn_id \<Rightarrow> host \<times> WorkerSession \<Rightarrow> host \<times> WorkerSession \<Rightarrow> bool" where
  "session_links c x x' \<longleftrightarrow>
     live (host_net (fst x')) = live (host_net (fst x)) \<and> ws_connection (snd x') = ws_connection (snd x)
     \<and> ((ws_worker_id (snd x') = ws_worker_id (snd x) \<and> ws_binding_handle (snd x') = ws_binding_handle (snd x)
         \<and> entries_of (fst x') = entries_of (fst x))
        \<or> (\<exists>w handle. ws_worker_id (snd x') = Some w \<and> ws_binding_handle (snd x') = Some handle
             \<and> (ws_worker_id (snd x) = None \<or> ws_worker_id (snd x) = Some w)
             \<and> entries_of (fst x') = AList.update w \<lparr>ce_handle = c, ce_handle_id = handle\<rparr> (entries_of (fst x))))"

lemma session_links_quiet:
  assumes "session_links c x (h, ws)" and "same_links (host_net h) (host_net h')"
  shows "session_links c x (h', ws)"
  using assms by (simp add: session_links_def same_links_def)

lemma session_links_refl [simp]: "session_links c x x"
  by (simp add: session_links_def)

lemma session_links_same: "same_links (host_net h) (host_net h') \<Longrightarrow> session_links c (h, ws) (h', ws)"
  by (simp add: session_links_def same_links_def)

lemma links_on_host_reply: "session_links c x (snd (on_host (worker_reply se ws i code message) x))"
  using quiet_worker_reply [of "fst x" se ws i code message]
  by (cases x) (auto simp: on_host_def quiet_def intro: session_links_same split: prod.split)

lemma links_register_worker:
  assumes id: "ws_worker_id (snd x) = None \<or> ws_worker_id (snd x) = Some (wr_worker_id dto)"
  shows "session_links c x (snd (register_worker se request dto c x))"
proof -
  obtain h ws where x: "x = (h, ws)" by (cases x)
  let ?i = "pm_request_id request"
  define rec where "rec = contains (pm_data request) ''recovery_version''"
  define h1 where "h1 = (if rec then put_sys (holdWorker (wr_worker_id dto) (ho_sys h)) h else h)"
  have n1: "host_net h1 = host_net h" by (simp add: h1_def)
  obtain r wm where reg: "registerWorker (se_heartbeat_now se) (wr_worker_id dto) (wr_hostname dto) (wr_slots dto)
      (wr_machine_id dto) (wr_slot_id dto) (sy_wm (ho_sys h1)) = (r, wm)" by (meson surj_pair)
  define h2 where "h2 = put_sys (put_wm wm (ho_sys h1)) h1"
  have n2: "host_net h2 = host_net h" by (simp add: h2_def n1)
  have same: "session_links c x (h2, ws)" by (simp add: x session_links_def n2)
  have refused: "session_links c x (snd (on_host (worker_reply se ws ?i code message) (h2, ws)))" for code message
    using quiet_worker_reply [of h2 se ws ?i code message] session_links_quiet [OF same]
    by (auto simp: on_host_def quiet_def split: prod.split)
  obtain b registry where bind: "bindWithHandle (wr_worker_id dto) (Some c) (nt_registry (host_net h2)) = (b, registry)"
    by (meson surj_pair)
  have accepted: "session_links c x (snd (case worker_reply se ws1 ?i OK ''ok'' h4 of
        (Inl e, h5) \<Rightarrow> (Inl e, (h5, ws1))
      | (Inr _, h5) \<Rightarrow>
          if rec then (Inr (), (h5, ws1))
          else (case requestSchedule se (ho_core h5) of (r, core) \<Rightarrow> (r, (h5\<lparr>ho_core := core\<rparr>, ws1)))))"
    if h4: "host_net h4 = (host_net h2)\<lparr>nt_registry := registry\<rparr>" and b: "b = Some handle"
      and ws1: "ws1 = ws\<lparr>ws_worker_id := Some (wr_worker_id dto), ws_recovery_protocol := rec, ws_binding_handle := Some handle\<rparr>"
    for h4 ws1 handle
  proof -
    obtain q h5 where rep: "worker_reply se ws1 ?i OK ''ok'' h4 = (q, h5)" by (meson surj_pair)
    obtain p core where pass: "requestSchedule se (ho_core h5) = (p, core)" by (meson surj_pair)
    have "rg_registry registry = AList.update (wr_worker_id dto) \<lparr>ce_handle = c, ce_handle_id = handle\<rparr> (entries_of h)"
      using bind b n2 by (auto simp: bindWithHandle_def Let_def split: if_splits)
    then have l4: "session_links c x (h4, ws1)" using id
      by (auto simp: x session_links_def h4 n2 ws1 live_def)
    have "quiet h4 h5" using quiet_worker_reply [of h4 se ws1 ?i OK "''ok''"] rep by simp
    then have l5: "session_links c x (h5, ws1)" using session_links_quiet [OF l4] by (simp add: quiet_def)
    have "same_links (host_net h5) (host_net (h5\<lparr>ho_core := core\<rparr>))"
      using same_links_pass(1) [of "ho_core h5" se] pass by (simp add: host_net_def)
    from session_links_quiet [OF l5 this] l5 show ?thesis by (simp add: rep pass split: sum.split)
  qed
  show ?thesis
    using links_on_host_reply [of c x se ws ?i] same refused accepted
    unfolding register_worker_def Let_def x fst_conv snd_conv rec_def [symmetric] h1_def [symmetric] reg
    by (auto simp: h2_def [symmetric] bind split: sum.split bool.split option.split)
qed


lemma links_handleRequest:
  assumes "ws_connection (snd x) = Some c"
  shows "session_links c x (snd (handleRequest se request x))"
proof -
  obtain h ws where x: "x = (h, ws)" by (cases x)
  have conn: "session_connection ws h = None \<or> session_connection ws h = Some c"
    using assms by (simp add: x session_connection_def)
  obtain response h1 where run: "router_handle se request h = (response, h1)" by (meson surj_pair)
  have "same_links (host_net h) (host_net h1)" using links_router [of h se request] run by simp
  then have routed: "session_links c x (snd (on_host (send_response se ws response) (h1, ws)))"
    using quiet_send_response [of h1 se ws response]
    by (auto simp: x on_host_def quiet_def intro!: session_links_same split: prod.split intro: same_links_trans)
  have reg: "session_links c x (snd (register_worker se request dto c x))"
    if "\<not> (isRegistered ws \<and> ws_worker_id ws \<noteq> Some (wr_worker_id dto))" for dto
    by (rule links_register_worker) (use that in \<open>auto simp: x isRegistered_def\<close>)
  note R = links_on_host_reply [of c x se ws "pm_request_id request"]
  show ?thesis
    using routed reg R conn unfolding handleRequest_def Let_def x fst_conv snd_conv run
    by (auto simp: x split: sum.split option.split)
qed

lemma links_worker_onMessage:
  assumes "ws_connection (snd x) = Some c"
  shows "session_links c x (snd (worker_onMessage se message x))"
proof (cases "ProtocolCodec_decode (se_codec se) message")
  case (Inl e)
  then show ?thesis using links_on_host_reply by (simp add: worker_onMessage_def)
next
  case (Inr request)
  obtain r h1 ws1 where run: "handleRequest se request x = (r, (h1, ws1))" by (metis prod_cases3)
  have l: "session_links c x (h1, ws1)" using links_handleRequest [OF assms, of se request] run by simp
  have "session_links c x (snd (on_host (worker_reply se ws1 (pm_request_id request) code msg) (h1, ws1)))" for code msg
    using quiet_worker_reply [of h1 se ws1 "pm_request_id request" code msg] session_links_quiet [OF l]
    by (auto simp: on_host_def quiet_def split: prod.split)
  with l show ?thesis by (simp add: worker_onMessage_def Inr run split: sum.split exn.split)
qed

lemma links_client_request: "same_links (host_net h) (host_net (snd (client_request se c request h)))"
proof -
  obtain response h1 where run: "router_handle se request h = (response, h1)" by (meson surj_pair)
  obtain r h2 where send: "sendResponse se c response h1 = (r, h2)" by (meson surj_pair)
  have "same_links (host_net h) (host_net h2)"
    using links_router [of h se request] run quiet_sendResponse [of h1 se c response] send
    by (auto simp: quiet_def intro: same_links_trans)
  then have "same_links (host_net h) (host_net h2)
      \<and> same_links (host_net h) (host_net (snd (session_reply se c i code msg h2)))" for i code msg
    using quiet_session_reply [of h2 se c i code msg] by (auto simp: quiet_def intro: same_links_trans)
  then show ?thesis by (simp add: client_request_def run send split: sum.split exn.split)
qed

lemma links_session_onMessage:
  assumes "ws_connection (cs_worker cs) = Some c" and "session_onMessage se message (h, cs) = (r, (h', cs'))"
  shows "session_links c (h, cs_worker cs) (h', cs_worker cs')" "cs_connection cs' = cs_connection cs"
proof -
  obtain q h1 ws where run: "worker_onMessage se message (h, cs_worker cs) = (q, (h1, ws))" by (metis prod_cases3)
  have l: "session_links c (h, cs_worker cs) (h1, ws)"
    using links_worker_onMessage [of "(h, cs_worker cs)" c se message] assms(1) run by simp
  have R: "session_links c (h, cs_worker cs) (h2, cs_worker cs)"
    if "session_reply se d i code msg h = (p, h2)" for d i code msg p h2
    using quiet_session_reply [of h se d i code msg] that by (auto simp: quiet_def intro: session_links_same)
  have C: "session_links c (h, cs_worker cs) (h2, cs_worker cs)"
    if "client_request se d request h = (p, h2)" for d request p h2
    using links_client_request [of h se d request] that by (auto intro: session_links_same)
  show "session_links c (h, cs_worker cs) (h', cs_worker cs')" "cs_connection cs' = cs_connection cs"
    using assms(2) l R C
    by (auto simp: session_onMessage_def Let_def on_host_def run split: sum.splits if_splits prod.splits)
qed

section \<open>The invariant of the bindings\<close>

definition bindings_ok :: "(conn_id \<times> ConnectionSession) list \<Rightarrow> host \<Rightarrow> bool" where
  "bindings_ok ss h \<longleftrightarrow>
     (\<forall>w en. map_of (entries_of h) w = Some en \<longrightarrow>
        (\<exists>cs. map_of ss (ce_handle en) = Some cs \<and> ws_worker_id (cs_worker cs) = Some w
              \<and> ws_binding_handle (cs_worker cs) = Some (ce_handle_id en)))
     \<and> (\<forall>c cs. map_of ss c = Some cs \<longrightarrow> cs_connection cs = c \<and> ws_connection (cs_worker cs) = Some c)
     \<and> fst ` set ss \<subseteq> live (host_net h)"

lemma bindings_same:
  "bindings_ok ss h \<Longrightarrow> same_links (host_net h) (host_net h') \<Longrightarrow> bindings_ok ss h'"
  by (simp add: bindings_ok_def same_links_def)

lemma entry_eq: "\<lparr>ce_handle = c, ce_handle_id = i\<rparr> = en \<longleftrightarrow> ce_handle en = c \<and> ce_handle_id en = i"
  by (cases en) auto

lemma bindings_session:
  assumes ok: "bindings_ok ss h" and cs: "map_of ss c = Some cs"
    and links: "session_links c (h, cs_worker cs) (h', cs_worker cs')" and conn: "cs_connection cs' = cs_connection cs"
  shows "bindings_ok (AList.update c cs' ss) h'"
proof -
  note O = ok [unfolded bindings_ok_def]
  have "\<exists>cs2. map_of (AList.update c cs' ss) (ce_handle en) = Some cs2 \<and> ws_worker_id (cs_worker cs2) = Some w
      \<and> ws_binding_handle (cs_worker cs2) = Some (ce_handle_id en)"
    if en: "map_of (entries_of h') w = Some en" for w en
  proof (cases "map_of (entries_of h) w = Some en")
    case True
    with O obtain cs2 where cs2: "map_of ss (ce_handle en) = Some cs2" "ws_worker_id (cs_worker cs2) = Some w"
      "ws_binding_handle (cs_worker cs2) = Some (ce_handle_id en)" by blast
    show ?thesis
    proof (cases "ce_handle en = c")
      case True
      then have "cs2 = cs" using cs2 cs by simp
      then show ?thesis using links en True cs2 by (auto simp: session_links_def entry_eq split: if_splits)
    qed (use cs2 in simp)
  next
    case False
    with links en show ?thesis by (auto simp: session_links_def entry_eq split: if_splits)
  qed
  moreover have "cs_connection cs' = c" "ws_connection (cs_worker cs') = Some c"
    using O cs links conn by (auto simp: session_links_def)
  moreover have "fst ` set (AList.update c cs' ss) \<subseteq> live (host_net h')"
  proof -
    have "c \<in> fst ` set ss" using map_of_SomeD [OF cs] by force
    moreover have "live (host_net h') = live (host_net h)" using links by (simp add: session_links_def)
    ultimately show ?thesis using O by (auto simp: dom_update)
  qed
  ultimately show ?thesis using O unfolding bindings_ok_def by (auto split: if_splits)
qed

text \<open>Closing a session removes its binding, if it is still its own, and then the session.\<close>

lemma bindings_close:
  assumes ok: "bindings_ok ss h" and cs: "map_of ss c = Some cs" and run: "session_handleClose (h, cs) = (h', cs')"
  shows "bindings_ok (AList.delete c ss) h'"
proof -
  note O = ok [unfolded bindings_ok_def]
  have live: "live (host_net h') = live (host_net h)"
    using run by (auto simp: session_handleClose_def worker_handleClose_def Let_def unbind_def live_def
        split: prod.splits option.splits if_splits)
  have entry: "map_of (entries_of h) w = Some en \<and> ce_handle en \<noteq> c" if "map_of (entries_of h') w = Some en" for w en
  proof -
    have old: "map_of (entries_of h) w = Some en"
      and kept: "ws_worker_id (cs_worker cs) = Some w \<Longrightarrow> ws_binding_handle (cs_worker cs) \<noteq> Some (ce_handle_id en)"
      using that run
      by (auto simp: session_handleClose_def worker_handleClose_def Let_def unbind_def
          split: prod.splits option.splits if_splits)
    with O cs show ?thesis by fastforce
  qed
  have keys: "fst ` set (AList.delete c ss) \<subseteq> fst ` set ss" by (auto simp: AList.delete_eq)
  show ?thesis
    unfolding bindings_ok_def
  proof (intro conjI allI impI)
    fix w en assume "map_of (entries_of h') w = Some en"
    from entry [OF this] O show "\<exists>cs. map_of (AList.delete c ss) (ce_handle en) = Some cs \<and> ws_worker_id (cs_worker cs) = Some w
      \<and> ws_binding_handle (cs_worker cs) = Some (ce_handle_id en)" by auto
  qed (use O keys live in \<open>auto split: if_splits dest!: subsetD [OF keys, OF imageI]\<close>)
qed


lemma bindings_open:
  assumes ok: "bindings_ok ss h" and new: "map_of ss c = None"
  shows "bindings_ok (AList.update c (new_session c) ss)
    (put_net ((host_net h)\<lparr>nt_conns := AList.update c conn (nt_conns (host_net h))\<rparr>) h)"
proof -
  note O = ok [unfolded bindings_ok_def]
  have "fst ` set (AList.update c (new_session c) ss) \<subseteq> insert c (live (host_net h))"
    using O by (auto simp: dom_update)
  moreover have "ce_handle en \<noteq> c" if "map_of (entries_of h) w = Some en" for w en using O new that by fastforce
  ultimately show ?thesis
    using O new unfolding bindings_ok_def
    by (auto simp: live_def dom_update new_session_def new_worker_session_def split: if_splits)
qed

text \<open>The server's state.\<close>

abbreviation server_bindings :: "server \<Rightarrow> bool" where
  "server_bindings sv \<equiv> bindings_ok (sv_sessions sv) (sv_host sv)"

lemma bindings_deliver:
  assumes "server_bindings sv"
  shows "server_bindings (snd (deliver se c message sv))"
proof (cases "map_of (sv_sessions sv) c")
  case (Some cs)
  obtain r h cs1 where run: "session_onMessage se message (sv_host sv, cs) = (r, (h, cs1))" by (metis prod_cases3)
  have "ws_connection (cs_worker cs) = Some c" using assms Some by (simp add: bindings_ok_def)
  from bindings_session [OF assms Some links_session_onMessage [OF this run]] Some run show ?thesis
    by (simp add: deliver_def)
qed (use assms in \<open>simp add: deliver_def\<close>)

lemma bindings_message:
  assumes "server_bindings sv"
  shows "server_bindings (snd (server_message se c message sv))"
proof -
  have auth: "bindings_ok (AList.update c cs1 (sv_sessions sv)) (sv_host sv)"
    if cs: "map_of (sv_sessions sv) c = Some cs" and "authorizeLog request (sv_host sv) cs = (b, cs1)" for request cs b cs1
  proof -
    have "cs_worker cs1 = cs_worker cs" "cs_connection cs1 = cs_connection cs"
      using that(2) by (auto simp: authorizeLog_def split: if_splits)
    with bindings_session [OF assms cs, of "sv_host sv" cs1] show ?thesis by simp
  qed
  have queue: "server_bindings (snd (queue_log se c request sv1))" if "server_bindings sv1" for request sv1
    using that quiet_on_connection [of "sv_host sv1" incPendingTasks c]
      quiet_sendLogResponse [of "sv_host sv1" se c "logFailure (pm_request_id request) ''log I/O queue full; retry later''"]
    by (auto simp: queue_log_def quiet_def intro: bindings_same split: prod.split)
  show ?thesis
    using bindings_deliver [OF assms] auth queue bindings_deliver
    by (auto simp: server_message_def Let_def split: sum.split option.split prod.split)
qed

lemma bindings_log_job:
  assumes "server_bindings sv"
  shows "server_bindings (run_log_job se sv)"
proof (cases "sv_log_jobs sv")
  case (Cons job rest)
  obtain c request where job: "job = (c, request)" by (cases job)
  obtain response h1 where run: "router_handle se request (sv_host sv) = (response, h1)" by (meson surj_pair)
  have l1: "same_links (host_net (sv_host sv)) (host_net h1)" using links_router [of "sv_host sv" se request] run by simp
  have Q: "same_links (host_net (sv_host sv)) (host_net (on_connection f d h2))"
    if "same_links (host_net (sv_host sv)) (host_net h2)" for f d h2
    using that quiet_on_connection [of h2 f d] by (auto simp: quiet_def intro: same_links_trans)
  have S: "same_links (host_net (sv_host sv)) (host_net h3)"
    if "same_links (host_net (sv_host sv)) (host_net h2)" "sendLogResponse se d m h2 = (r, h3)" for d m h2 r h3
    using that quiet_sendLogResponse [of h2 se d m] by (auto simp: quiet_def intro: same_links_trans)
  obtain r h2 where send: "sendLogResponse se c response h1 = (r, h2)" by (meson surj_pair)
  obtain q h3 where send2: "sendLogResponse se c (logFailure (pm_request_id request) ''log I/O failed; retry later'') h2 = (q, h3)"
    by (meson surj_pair)
  have "same_links (host_net (sv_host sv)) (host_net h2)" by (rule S [OF l1 send])
  moreover from this have "same_links (host_net (sv_host sv)) (host_net h3)" by (rule S [OF _ send2])
  ultimately show ?thesis
    using assms by (auto simp: run_log_job_def Cons job run send send2 Let_def intro!: bindings_same [OF assms] Q split: sum.split)
qed (use assms in \<open>simp add: run_log_job_def\<close>)

lemma server_step_bindings: "server_step sv sv' \<Longrightarrow> server_bindings sv \<Longrightarrow> server_bindings sv'"
proof (induction rule: server_step.induct)
  case (sv_open sv c now)
  then show ?case by (simp add: server_open_def Let_def bindings_open)
next
  case (sv_close sv c)
  then show ?case by (auto simp: server_close_def dest: bindings_close split: option.split prod.split)
next
  case (sv_pass sv se)
  have "same_links (host_net (sv_host sv)) (host_net (sv_host (server_runOnce se sv)))"
    using same_links_runOnce [of "co_net (ho_core (sv_host sv))" "pass_env se" "se_net se" "co_sys (ho_core (sv_host sv))"]
    by (auto simp: server_runOnce_def Let_def host_net_def split: prod.split)
  moreover have "sv_sessions (server_runOnce se sv) = sv_sessions sv" by (simp add: server_runOnce_def Let_def split: prod.split)
  ultimately show ?case using sv_pass bindings_same by metis
next
  case (sv_transport conns sv jobs)
  then show ?case by (auto simp: bindings_ok_def transport_def live_def)
next
  case (sv_tick sv now)
  then show ?case by (auto simp: server_tick_def intro: bindings_same split: option.split)
next
  case (sv_prune sv expired)
  then show ?case by (simp add: server_prune_def bindings_ok_def host_net_def)
qed (simp_all add: bindings_message bindings_log_job)

lemma server_reachable_bindings: "server_reachable sv \<Longrightarrow> server_bindings sv"
proof (induction rule: server_reachable.induct)
  case (sv_start wm store e cf logs sv)
  then show ?case
    by (auto simp: new_server_def new_host_def new_registry_def bindings_ok_def host_net_def Let_def rbind_Inr_iff
        split: option.splits prod.splits sum.splits)
qed (rule server_step_bindings)


section \<open>The scheduler in the server\<close>

lemma core_room_sched: "sy_sched (co_sys c') = sy_sched (co_sys c) \<Longrightarrow> core_room c' = core_room c"
  by (simp add: core_room_def room_def)

lemma reachable_register_worker:
  assumes "reachable (ho_sys (fst x))" and "core_room (ho_core (fst x))"
  shows "reachable (ho_sys (fst (snd (register_worker se request dto c x))))"
proof -
  obtain h ws where x: "x = (h, ws)" by (cases x)
  let ?i = "pm_request_id request"
  define rec where "rec = contains (pm_data request) ''recovery_version''"
  define h1 where "h1 = (if rec then put_sys (holdWorker (wr_worker_id dto) (ho_sys h)) h else h)"
  have r1: "reachable (ho_sys h1)" "core_room (ho_core h1)"
    using assms reach_step [OF assms(1) step_hold, of "wr_worker_id dto"]
    by (auto simp: x h1_def holdWorker_def core_room_def room_def)
  obtain r wm where reg: "registerWorker (se_heartbeat_now se) (wr_worker_id dto) (wr_hostname dto) (wr_slots dto)
      (wr_machine_id dto) (wr_slot_id dto) (sy_wm (ho_sys h1)) = (r, wm)" by (meson surj_pair)
  define h2 where "h2 = put_sys (put_wm wm (ho_sys h1)) h1"
  have r2: "reachable (ho_sys h2)"
    using reach_step [OF r1(1) step_register, of "se_heartbeat_now se" "wr_worker_id dto" "wr_hostname dto" "wr_slots dto"
        "wr_machine_id dto" "wr_slot_id dto"] reg by (simp add: h2_def)
  have refused: "reachable (ho_sys (fst (snd (on_host (worker_reply se ws ?i code message) (h3, ws)))))"
    if "reachable (ho_sys h3)" for code message h3
    using that quiet_worker_reply [of h3 se ws ?i code message] by (auto simp: on_host_def quiet_def split: prod.split)
  obtain b registry where bind: "bindWithHandle (wr_worker_id dto) (Some c) (nt_registry (host_net h2)) = (b, registry)"
    by (meson surj_pair)
  have r4: "reachable (ho_sys h4)" "core_room (ho_core h4)"
    if "ho_sys h4 = put_wm (setControlSupported (wr_worker_id dto) (wr_control_v1 dto) (sy_wm (ho_sys h2))) (ho_sys h2)" for h4
    using reach_step [OF r2 step_supported, of "wr_worker_id dto" "wr_control_v1 dto"] r1(2) that
    by (auto simp: h2_def put_wm_def core_room_def room_def)
  have accepted: "reachable (ho_sys (fst (snd (case worker_reply se ws1 ?i OK ''ok'' h4 of
        (Inl e, h5) \<Rightarrow> (Inl e, (h5, ws1))
      | (Inr _, h5) \<Rightarrow>
          if rec then (Inr (), (h5, ws1))
          else (case requestSchedule se (ho_core h5) of (r, core) \<Rightarrow> (r, (h5\<lparr>ho_core := core\<rparr>, ws1)))))))"
    if "ho_sys h4 = put_wm (setControlSupported (wr_worker_id dto) (wr_control_v1 dto) (sy_wm (ho_sys h2))) (ho_sys h2)" for h4 ws1
  proof -
    obtain q h5 where rep: "worker_reply se ws1 ?i OK ''ok'' h4 = (q, h5)" by (meson surj_pair)
    obtain p core where pass: "requestSchedule se (ho_core h5) = (p, core)" by (meson surj_pair)
    have s5: "ho_sys h5 = ho_sys h4" using quiet_worker_reply [of h4 se ws1 ?i OK "''ok''"] rep by (simp add: quiet_def)
    have "reachable (co_sys core)"
      using reachable_requestSchedule [of "ho_core h5" se] r4 [OF that] pass
      by (simp add: s5 core_room_def room_def)
    with r4 [OF that] s5 show ?thesis by (simp add: rep pass split: sum.split)
  qed
  show ?thesis
    using assms(1) refused r2 accepted
    unfolding register_worker_def Let_def x fst_conv snd_conv rec_def [symmetric] h1_def [symmetric] reg
    by (auto simp: h2_def [symmetric] bind split: sum.split bool.split option.split)
qed

lemma reachable_handleRequest:
  assumes "reachable (ho_sys (fst x))" and "core_room (ho_core (fst x))"
  shows "reachable (ho_sys (fst (snd (handleRequest se request x))))"
proof -
  obtain h ws where x: "x = (h, ws)" by (cases x)
  obtain response h1 where run: "router_handle se request h = (response, h1)" by (meson surj_pair)
  have "reachable (ho_sys h1)" using reachable_router [of h se request] assms run by (simp add: x)
  then have routed: "reachable (ho_sys (fst (snd (on_host (send_response se ws response) (h1, ws)))))"
    using quiet_send_response [of h1 se ws response] by (auto simp: on_host_def quiet_def split: prod.split)
  have refused: "reachable (ho_sys (fst (snd (on_host (worker_reply se ws i code message) x))))" for i code message
    using assms(1) quiet_worker_reply [of h se ws i code message] by (auto simp: x on_host_def quiet_def split: prod.split)
  note reg = reachable_register_worker [OF assms, of se request]
  show ?thesis
    using routed refused reg assms(1) unfolding handleRequest_def Let_def x fst_conv snd_conv run
    by (auto simp: x split: sum.split option.split)
qed

lemma reachable_session_onMessage:
  assumes "reachable (ho_sys h)" and "core_room (ho_core h)" and "session_onMessage se message (h, cs) = (r, (h', cs'))"
  shows "reachable (ho_sys h')"
proof -
  have R: "reachable (ho_sys h2)" if "session_reply se d i code msg h = (p, h2)" for d i code msg p h2
    using quiet_session_reply [of h se d i code msg] that assms(1) by (auto simp: quiet_def)
  have C: "reachable (ho_sys h2)" if "client_request se d request h = (p, h2)" for d request p h2
  proof -
    obtain response h1 where run: "router_handle se request h = (response, h1)" by (meson surj_pair)
    obtain q h3 where send: "sendResponse se d response h1 = (q, h3)" by (meson surj_pair)
    have "reachable (ho_sys h3)"
      using reachable_router [OF assms(1,2), of se request] run quiet_sendResponse [of h1 se d response] send
      by (simp add: quiet_def)
    moreover have "ho_sys (snd (session_reply se d i code msg h3)) = ho_sys h3" for i code msg
      using quiet_session_reply [of h3 se d i code msg] by (simp add: quiet_def)
    ultimately have "reachable (ho_sys (snd (client_request se d request h)))"
      by (simp add: client_request_def run send split: sum.split exn.split)
    with that show ?thesis by simp
  qed
  have W: "reachable (ho_sys h1)" if run: "worker_onMessage se message (h, ws) = (q, (h1, ws1))" for ws q h1 ws1
  proof (cases "ProtocolCodec_decode (se_codec se) message")
    case (Inl e)
    with run assms(1) quiet_worker_reply [of h se ws 0 INVALID_REQUEST "''invalid protocol message''"] show ?thesis
      by (auto simp: worker_onMessage_def on_host_def quiet_def split: prod.splits)
  next
    case (Inr request)
    obtain p h2 ws2 where hr: "handleRequest se request (h, ws) = (p, (h2, ws2))" by (metis prod_cases3)
    have "reachable (ho_sys h2)" using reachable_handleRequest [of "(h, ws)" se request] assms(1,2) hr by simp
    moreover have "ho_sys (fst (snd (on_host (worker_reply se ws2 i code msg) (h2, ws2)))) = ho_sys h2" for i code msg
      using quiet_worker_reply [of h2 se ws2 i code msg] by (auto simp: on_host_def quiet_def split: prod.split)
    ultimately have "reachable (ho_sys (fst (snd (worker_onMessage se message (h, ws)))))"
      by (simp add: worker_onMessage_def Inr hr split: sum.split exn.split)
    with run show ?thesis by simp
  qed
  show ?thesis
    using assms(1,3) R C W
    by (auto simp: session_onMessage_def Let_def on_host_def split: sum.splits if_splits prod.splits)
qed

lemma reachable_close:
  assumes "reachable (ho_sys h)"
  shows "reachable (ho_sys (fst (session_handleClose (h, cs))))"
  using assms reach_step [OF assms step_offline]
  by (auto simp: session_handleClose_def worker_handleClose_def Let_def unbind_def put_wm_def split: option.split prod.split)

lemma reachable_server_message:
  assumes "reachable (server_sys sv)" and "core_room (ho_core (sv_host sv))"
  shows "reachable (server_sys (snd (server_message se c message sv)))"
proof -
  have D: "reachable (server_sys (snd (deliver se c message sv1)))" if "sv_host sv1 = sv_host sv" for sv1
    using reachable_session_onMessage [of "sv_host sv1"] assms that
    by (auto simp: deliver_def server_sys_def split: option.split prod.split)
  have Q: "server_sys (snd (queue_log se c request sv1)) = server_sys sv" if "sv_host sv1 = sv_host sv" for request sv1
    using that quiet_on_connection [of "sv_host sv1" incPendingTasks c]
      quiet_sendLogResponse [of "sv_host sv1" se c "logFailure (pm_request_id request) ''log I/O queue full; retry later''"]
    by (auto simp: queue_log_def quiet_def server_sys_def split: prod.split)
  show ?thesis
    using D Q assms(1) by (auto simp: server_message_def Let_def split: sum.split option.split prod.split)
qed

lemma reachable_log_job:
  assumes "reachable (server_sys sv)" and "core_room (ho_core (sv_host sv))"
  shows "reachable (server_sys (run_log_job se sv))"
proof (cases "sv_log_jobs sv")
  case (Cons job rest)
  obtain c request where job: "job = (c, request)" by (cases job)
  obtain response h1 where run: "router_handle se request (sv_host sv) = (response, h1)" by (meson surj_pair)
  have "reachable (ho_sys h1)" using reachable_router [of "sv_host sv" se request] assms run by (simp add: server_sys_def)
  moreover have "ho_sys (on_connection f d h2) = ho_sys h2" "ho_sys (snd (sendLogResponse se d m h2)) = ho_sys h2" for f d m h2
    using quiet_on_connection [of h2 f d] quiet_sendLogResponse [of h2 se d m] by (simp_all add: quiet_def)
  ultimately show ?thesis
    by (auto simp: run_log_job_def Cons job run Let_def server_sys_def split: sum.split prod.split) (metis snd_conv)+
qed (use assms in \<open>simp add: run_log_job_def\<close>)

lemma server_step_reachable: "server_step sv sv' \<Longrightarrow> reachable (server_sys sv) \<Longrightarrow> reachable (server_sys sv')"
proof (induction rule: server_step.induct)
  case (sv_open sv c now)
  then show ?case by (simp add: server_open_def server_sys_def Let_def)
next
  case (sv_close sv c)
  then show ?case
    using reachable_close [of "sv_host sv"] by (auto simp: server_close_def server_sys_def split: option.split prod.split) (metis fst_conv)
next
  case (sv_tick sv now)
  then show ?case
    using reach_step [OF sv_tick step_timeouts] by (auto simp: server_tick_def server_sys_def split: option.split)
next
  case (sv_prune sv expired)
  then show ?case by (simp add: server_prune_def server_sys_def)
next
  case (sv_pass sv se)
  let ?c = "ho_core (sv_host sv)"
  have "room (length (sc_queue (sy_sched (co_sys ?c)))) (co_sys ?c)"
    using sv_pass(1) by (simp add: core_room_def room_def)
  from reachable_runOnce [OF _ this, of "pass_env se" "dispatch (se_net se)" "co_net ?c"] sv_pass(2) show ?case
    by (auto simp: server_runOnce_def server_sys_def Let_def split: prod.split)
qed (simp_all add: server_sys_def transport_def reachable_server_message [unfolded server_sys_def]
      reachable_log_job [unfolded server_sys_def])


lemma server_reachable_sys: "server_reachable sv \<Longrightarrow> reachable (server_sys sv)"
proof (induction rule: server_reachable.induct)
  case (sv_start wm store e cf logs sv)
  show ?case
  proof (cases store)
    case None
    with sv_start show ?thesis by (auto simp: new_server_def new_host_def server_sys_def Let_def intro: reach_boot)
  next
    case (Some db)
    with sv_start have "reachable (snd (restoreFrom e db (boot wm)))" by (intro reach_restore) auto
    with sv_start Some show ?thesis
      by (auto simp: new_server_def new_host_def server_sys_def Let_def rbind_Inr_iff split: prod.splits sum.splits)
  qed
qed (rule server_step_reachable)

section \<open>The server\<close>

text \<open>
  C15. The server runs the scheduler: in every state the server reaches, by any sequence of
  connections opened and closed, messages of any content on them, log jobs, liveness checks,
  passes and transport activity, the scheduler is in a state its own operations reach, so that all
  guarantees proved of reachable states hold in the running server.
\<close>

theorem server_runs_scheduler:
  assumes "server_reachable sv"
  shows "reachable (server_sys sv) \<and> sched_inv (server_sys sv)"
  using server_reachable_sys [OF assms] reachable_inv by blast

text \<open>
  The registry binds exactly open sessions: in every state the server reaches, a binding of a
  worker names a connection that is open in the network and whose session is registered as that
  worker with that very handle. So an assignment is only ever sent to a connection that registered
  as its worker and was not closed since, and a closed connection leaves no binding behind.
\<close>

theorem registry_binds_open_sessions:
  assumes "server_reachable sv"
    and "map_of (rg_registry (nt_registry (host_net (sv_host sv)))) w = Some en"
  shows "ce_handle en \<in> live (host_net (sv_host sv))
     \<and> (\<exists>cs. map_of (sv_sessions sv) (ce_handle en) = Some cs \<and> cs_connection cs = ce_handle en
          \<and> ws_worker_id (cs_worker cs) = Some w \<and> ws_binding_handle (cs_worker cs) = Some (ce_handle_id en))"
proof -
  note O = server_reachable_bindings [OF assms(1), unfolded bindings_ok_def]
  with assms(2) obtain cs where "map_of (sv_sessions sv) (ce_handle en) = Some cs" "ws_worker_id (cs_worker cs) = Some w"
    "ws_binding_handle (cs_worker cs) = Some (ce_handle_id en)" by blast
  moreover from this have "ce_handle en \<in> fst ` set (sv_sessions sv)" by (force dest: map_of_SomeD)
  ultimately show ?thesis using O by auto
qed

text \<open>A server on which a worker registers.\<close>

definition register_text :: string where
  "register_text = ''register''"

definition register_senv :: senv where
  "register_senv = template_senv\<lparr>se_env := demo_env\<lparr>e_codec := \<lparr>jdump = \<lambda>_. Some ''{}'',
     jparse = \<lambda>_. Some (envelope (new_message WORKER_REGISTER 1 (jobject [(''worker_id'', JString ''w1''),
       (''hostname'', JString ''host''), (''slots'', JUnsigned 1), (''recovery_version'', JUnsigned 1)])))\<rparr>\<rparr>\<rparr>"

definition demo_server :: server where
  "demo_server = server_open 1 (new_connection 0)
     \<lparr>sv_host = (new_host (boot demo_wm0) 1)\<lparr>ho_archive := []\<rparr>, sv_sessions = [], sv_log_jobs = [], sv_log_stopping = False, sv_liveness = None\<rparr>"

definition registered_server :: server where
  "registered_server = snd (server_message register_senv 1 register_text demo_server)"

lemma demo_server_reachable: "server_reachable demo_server"
proof -
  have "new_server demo_env cf None demo_wm0 [] = Inr \<lparr>sv_host = (new_host (boot demo_wm0) 1)\<lparr>ho_archive := []\<rparr>,
      sv_sessions = [], sv_log_jobs = [], sv_log_stopping = False, sv_liveness = None\<rparr>" by (simp add: new_server_def)
  then have "server_reachable \<lparr>sv_host = (new_host (boot demo_wm0) 1)\<lparr>ho_archive := []\<rparr>,
      sv_sessions = [], sv_log_jobs = [], sv_log_stopping = False, sv_liveness = None\<rparr>"
    by (rule sv_start [rotated 2]) (simp_all add: demo_wm0_def)
  then show ?thesis
    unfolding demo_server_def
    by (rule sv_next [OF _ sv_open]) (simp_all add: new_host_def host_net_def live_def)
qed

text \<open>An accepted registration binds the worker to the connection with the next handle.\<close>

lemma registration_binds:
  assumes ok: "\<not> (contains (pm_data request) ''recovery_version''
      \<and> (\<not> json_eq (jget (pm_data request) ''recovery_version'') (jint 1) \<or> wr_slots dto \<noteq> 1))"
    and reg: "fst (registerWorker (se_heartbeat_now se) (wr_worker_id dto) (wr_hostname dto) (wr_slots dto)
      (wr_machine_id dto) (wr_slot_id dto) (sy_wm (ho_sys h))) = Inr True" and w: "wr_worker_id dto \<noteq> []"
  shows "entries_of (fst (snd (register_worker se request dto c (h, ws))))
    = AList.update (wr_worker_id dto) \<lparr>ce_handle = c, ce_handle_id = rg_next_handle_id (nt_registry (host_net h))\<rparr> (entries_of h)"
proof -
  define rec where "rec = contains (pm_data request) ''recovery_version''"
  define h1 where "h1 = (if rec then put_sys (holdWorker (wr_worker_id dto) (ho_sys h)) h else h)"
  have n1: "host_net h1 = host_net h" by (simp add: h1_def)
  have wm1: "sy_wm (ho_sys h1) = sy_wm (ho_sys h)" by (simp add: h1_def holdWorker_def put_sched_def)
  obtain wm where run: "registerWorker (se_heartbeat_now se) (wr_worker_id dto) (wr_hostname dto) (wr_slots dto)
      (wr_machine_id dto) (wr_slot_id dto) (sy_wm (ho_sys h1)) = (Inr True, wm)" using reg by (metis prod.collapse wm1)
  have keep: "entries_of (fst (snd (case worker_reply se ws1 i OK ''ok'' h4 of
        (Inl e, h5) \<Rightarrow> (Inl e, (h5, ws1))
      | (Inr _, h5) \<Rightarrow>
          if rec then (Inr (), (h5, ws1))
          else (case requestSchedule se (ho_core h5) of (r, core) \<Rightarrow> (r, (h5\<lparr>ho_core := core\<rparr>, ws1)))))) = entries_of h4" for ws1 i h4
  proof -
    obtain q h5 where rep: "worker_reply se ws1 i OK ''ok'' h4 = (q, h5)" by (meson surj_pair)
    obtain p core where pass: "requestSchedule se (ho_core h5) = (p, core)" by (meson surj_pair)
    have "entries_of h5 = entries_of h4"
      using quiet_worker_reply [of h4 se ws1 i OK "''ok''"] rep by (simp add: quiet_def same_links_def)
    moreover have "nt_registry (co_net core) = nt_registry (co_net (ho_core h5))"
      using same_links_pass(1) [of "ho_core h5" se] pass by (simp add: same_links_def)
    ultimately show ?thesis by (simp add: rep pass host_net_def split: sum.split)
  qed
  show ?thesis
    using ok w unfolding register_worker_def Let_def fst_conv snd_conv rec_def [symmetric] h1_def [symmetric] run
    by (auto simp: bindWithHandle_def Let_def n1 keep)
qed

lemma worker_onMessage_entries:
  assumes "ProtocolCodec_decode (se_codec se) message = Inr request"
  shows "entries_of (fst (snd (worker_onMessage se message x))) = entries_of (fst (snd (handleRequest se request x)))"
proof -
  obtain r h1 ws1 where run: "handleRequest se request x = (r, (h1, ws1))" by (metis prod_cases3)
  have "entries_of (fst (snd (on_host (worker_reply se ws1 i code msg) (h1, ws1)))) = entries_of h1" for i code msg
    using quiet_worker_reply [of h1 se ws1 i code msg]
    by (auto simp: on_host_def quiet_def same_links_def split: prod.split)
  then show ?thesis by (simp add: worker_onMessage_def assms run split: sum.split exn.split)
qed

lemma registered_server_binding:
  "map_of (rg_registry (nt_registry (host_net (sv_host registered_server)))) ''w1'' = Some \<lparr>ce_handle = 1, ce_handle_id = 1\<rparr>"
proof -
  define request where "request = new_message WORKER_REGISTER 1 (jobject [(''worker_id'', JString ''w1''),
       (''hostname'', JString ''host''), (''slots'', JUnsigned 1), (''recovery_version'', JUnsigned 1)])"
  define h where "h = sv_host demo_server"
  define dto where "dto = \<lparr>wr_worker_id = ''w1'', wr_hostname = ''host'', wr_machine_id = [], wr_slot_id = [],
     wr_explicit_identity = False, wr_control_v1 = False, wr_slots = 1\<rparr>"
  have dec: "ProtocolCodec_decode (se_codec register_senv) register_text = Inr request"
    unfolding register_senv_def request_def by code_simp
  have parsed: "WorkerRegisterRequest_fromJson (pm_data request) = Inr dto" unfolding request_def dto_def by code_simp
  have conn: "session_connection (new_worker_session 1) h = Some 1"
    "map_of (nt_conns (host_net h)) 1 = Some (new_connection 0)" "entries_of h = []"
    "rg_next_handle_id (nt_registry (host_net h)) = 1"
    by (simp_all add: h_def demo_server_def server_open_def new_host_def host_net_def Let_def put_net_def live_def
        session_connection_def new_worker_session_def new_registry_def)
  have "fst (registerWorker 0 ''w1'' ''host'' 1 [] [] demo_wm0) = Inr True" by code_simp
  then have reg: "fst (registerWorker (se_heartbeat_now register_senv) (wr_worker_id dto) (wr_hostname dto) (wr_slots dto)
      (wr_machine_id dto) (wr_slot_id dto) (sy_wm (ho_sys h))) = Inr True"
    by (simp add: dto_def h_def demo_server_def server_open_def new_host_def Let_def boot_def register_senv_def template_senv_def)
  have "handleRequest register_senv request (h, new_worker_session 1)
      = register_worker register_senv request dto 1 (h, new_worker_session 1)"
    using parsed conn by (simp add: handleRequest_def isRegistered_def new_worker_session_def request_def new_message_def
        new_connection_def isConnected_def)
  then have "entries_of (fst (snd (worker_onMessage register_senv register_text (h, new_worker_session 1))))
      = [(''w1'', \<lparr>ce_handle = 1, ce_handle_id = 1\<rparr>)]"
    using worker_onMessage_entries [OF dec] registration_binds [where c = 1 and ws = "new_worker_session 1", OF _ reg] conn
    by (simp add: dto_def request_def new_message_def jobject_def jget_def jint_def)
  then have "entries_of (fst (snd (session_onMessage register_senv register_text (h, new_session 1)))) = [(''w1'', \<lparr>ce_handle = 1, ce_handle_id = 1\<rparr>)]"
    using dec by (auto simp: session_onMessage_def request_def new_message_def isAllowed_def isWorkerRequest_def new_session_def Let_def
        split: prod.split sum.split)
  moreover have "map_of (sv_sessions demo_server) 1 = Some (new_session 1)"
    by (simp add: demo_server_def server_open_def Let_def)
  moreover have "\<not> log_type (pm_type request)" by (simp add: log_type_def request_def new_message_def)
  ultimately show ?thesis
    using dec by (auto simp: registered_server_def server_message_def deliver_def h_def [symmetric] split: prod.split)
qed

lemma registered_server_reachable: "server_reachable registered_server"
proof -
  have "core_room (ho_core (sv_host demo_server))"
    by (simp add: demo_server_def server_open_def new_host_def Let_def core_room_def room_def boot_def new_scheduler_def)
  then show ?thesis unfolding registered_server_def by (rule sv_next [OF demo_server_reachable sv_message])
qed

theorem server_runs_scheduler_witness:
  "reachable (server_sys registered_server) \<and> nt_registry (host_net (sv_host registered_server)) \<noteq> new_registry"
  using server_runs_scheduler [OF registered_server_reachable] registered_server_binding by (auto simp: new_registry_def)

theorem registry_binds_open_sessions_witness:
  "\<exists>cs. map_of (sv_sessions registered_server) 1 = Some cs \<and> ws_worker_id (cs_worker cs) = Some ''w1''
     \<and> 1 \<in> live (host_net (sv_host registered_server))"
  using registry_binds_open_sessions [OF registered_server_reachable registered_server_binding] by auto

end
