(* ===== verification/Timers.thy ===== *)
theory Timers
  imports Prelude
begin

text \<open>
  \<^verbatim>\<open>server/src/EventLoop.cpp\<close>: the timers of a loop and its queue of functions. Timers are shared
  objects: the heap and the map of live timers refer to them by id, and cancelling one sets a flag
  of the object while the heap still holds it. A callback is identified by the id of its timer;
  what it does is whatever operations follow its start, so that a callback may add and cancel
  timers, and other threads may too. Waiting in \<^verbatim>\<open>epoll_wait\<close> and the events of descriptors are left
  to the kernel; what the code asks of it is the timeout. Times are milliseconds of the steady clock.
\<close>

section \<open>State\<close>

type_synonym TimerId = u64

record Timer =
  tm_expire_ms :: u64
  tm_interval_ms :: u64
  tm_canceled :: bool

text \<open>
  \<open>lp_timers\<close> are the timer objects, \<open>lp_heap\<close> the priority queue in the order it is emptied,
  \<open>lp_map\<close> the keys of the map of live timers; \<open>lp_expired\<close> and \<open>lp_started\<close> are the local vector of
  \<^verbatim>\<open>handleExpiredTimers\<close> and whether the callback of its first element was dealt with; \<open>lp_fired\<close>
  records the callbacks run, with the reading of the clock they were collected at.
\<close>

record loop =
  lp_timers :: "(TimerId \<times> Timer) list"
  lp_heap :: "TimerId list"
  lp_map :: "TimerId set"
  lp_next_id :: u64
  lp_expired :: "TimerId list"
  lp_started :: bool
  lp_collected_at :: u64
  lp_fired :: "(TimerId \<times> u64 \<times> u64) list"
  lp_pending :: "nat list"
  lp_quit :: bool

definition new_loop :: loop where
  "new_loop = \<lparr>lp_timers = [], lp_heap = [], lp_map = {}, lp_next_id = 1, lp_expired = [], lp_started = False,
     lp_collected_at = 0, lp_fired = [], lp_pending = [], lp_quit = False\<rparr>"

definition timer :: "loop \<Rightarrow> TimerId \<Rightarrow> Timer" where
  "timer lp i = (case map_of (lp_timers lp) i of None \<Rightarrow> \<lparr>tm_expire_ms = 0, tm_interval_ms = 0, tm_canceled = True\<rparr> | Some t \<Rightarrow> t)"

definition expire_ms :: "loop \<Rightarrow> TimerId \<Rightarrow> u64" where
  "expire_ms lp i = tm_expire_ms (timer lp i)"

section \<open>Functions queued\<close>

definition tryQueueInLoop :: "nat \<Rightarrow> loop \<Rightarrow> bool \<times> loop" where
  "tryQueueInLoop f lp = (if lp_quit lp then (False, lp) else (True, lp\<lparr>lp_pending := lp_pending lp @ [f]\<rparr>))"

definition queueInLoop :: "nat \<Rightarrow> loop \<Rightarrow> loop" where
  "queueInLoop f lp = snd (tryQueueInLoop f lp)"

text \<open>The functions to run, in order; what they queue meanwhile waits for the next turn.\<close>

definition doPending :: "loop \<Rightarrow> nat list \<times> loop" where
  "doPending lp = (lp_pending lp, lp\<lparr>lp_pending := []\<rparr>)"

definition loop_quit :: "loop \<Rightarrow> loop" where
  "loop_quit lp = lp\<lparr>lp_quit := True\<rparr>"

section \<open>Timers\<close>

text \<open>\<^verbatim>\<open>priority_queue::push\<close>: behind every timer that expires no later.\<close>

fun heap_push :: "(TimerId \<Rightarrow> u64) \<Rightarrow> TimerId \<Rightarrow> TimerId list \<Rightarrow> TimerId list" where
  "heap_push key i [] = [i]"
| "heap_push key i (j # js) = (if key i < key j then i # j # js else j # heap_push key i js)"

definition push_timer :: "TimerId \<Rightarrow> loop \<Rightarrow> loop" where
  "push_timer i lp = lp\<lparr>lp_heap := heap_push (expire_ms lp) i (lp_heap lp)\<rparr>"

definition add_timer :: "u64 \<Rightarrow> u64 \<Rightarrow> u64 \<Rightarrow> loop \<Rightarrow> TimerId \<times> loop" where
  "add_timer now delay interval lp =
     (let i = lp_next_id lp;
          lp1 = lp\<lparr>lp_next_id := i + 1,
                   lp_timers := AList.update i \<lparr>tm_expire_ms = now + delay, tm_interval_ms = interval, tm_canceled = False\<rparr>
                                  (lp_timers lp),
                   lp_map := insert i (lp_map lp)\<rparr>
      in (i, queueInLoop 0 (push_timer i lp1)))"

definition runAfter :: "u64 \<Rightarrow> u64 \<Rightarrow> loop \<Rightarrow> TimerId \<times> loop" where
  "runAfter now delay_ms = add_timer now delay_ms 0"

definition runEvery :: "u64 \<Rightarrow> u64 \<Rightarrow> loop \<Rightarrow> TimerId \<times> loop" where
  "runEvery now interval_ms = add_timer now interval_ms interval_ms"

definition cancelTimer :: "TimerId \<Rightarrow> loop \<Rightarrow> loop" where
  "cancelTimer i lp =
     (if i \<in> lp_map lp
      then lp\<lparr>lp_timers := AList.update i ((timer lp i)\<lparr>tm_canceled := True\<rparr>) (lp_timers lp), lp_map := lp_map lp - {i}\<rparr>
      else lp)"

text \<open>The loop under the lock: what is due, what stays in the heap, and the live timers left.\<close>

fun collect_expired :: "loop \<Rightarrow> u64 \<Rightarrow> TimerId list \<Rightarrow> TimerId set \<Rightarrow> TimerId list \<times> TimerId list \<times> TimerId set" where
  "collect_expired lp now [] m = ([], [], m)"
| "collect_expired lp now (i # heap) m =
     (if tm_canceled (timer lp i) then collect_expired lp now heap m
      else if i \<notin> m then collect_expired lp now heap m
      else if now < expire_ms lp i then ([], i # heap, m)
      else
        (case collect_expired lp now heap (if tm_interval_ms (timer lp i) = 0 then m - {i} else m) of
           (expired, rest, m1) \<Rightarrow> (i # expired, rest, m1)))"

definition begin_expired :: "u64 \<Rightarrow> loop \<Rightarrow> loop" where
  "begin_expired now lp =
     (case collect_expired lp now (lp_heap lp) (lp_map lp) of
        (expired, rest, m) \<Rightarrow> lp\<lparr>lp_heap := rest, lp_map := m, lp_expired := expired, lp_started := False, lp_collected_at := now\<rparr>)"

text \<open>One round of the loop over the vector: the callback, and then the next expiry of an interval.\<close>

definition start_expired :: "loop \<Rightarrow> loop" where
  "start_expired lp =
     (case lp_expired lp of
        [] \<Rightarrow> lp
      | i # _ \<Rightarrow>
          lp\<lparr>lp_started := True,
             lp_fired := (if tm_canceled (timer lp i) then lp_fired lp else lp_fired lp @ [(i, expire_ms lp i, lp_collected_at lp)])\<rparr>)"

definition finish_expired :: "u64 \<Rightarrow> loop \<Rightarrow> loop" where
  "finish_expired now lp =
     (case lp_expired lp of
        [] \<Rightarrow> lp
      | i # rest \<Rightarrow>
          (let t = timer lp i; lp0 = lp\<lparr>lp_expired := rest, lp_started := False\<rparr> in
           if \<not> tm_canceled t \<and> 0 < tm_interval_ms t
           then (let lp1 = lp0\<lparr>lp_timers := AList.update i (t\<lparr>tm_expire_ms := now + tm_interval_ms t\<rparr>) (lp_timers lp)\<rparr> in
                 if i \<in> lp_map lp then push_timer i lp1 else lp1)
           else lp0))"

text \<open>\<^verbatim>\<open>getPollTimeoutMs\<close>: the timeout, and the heap without the dead timers in front.\<close>

fun drop_dead :: "loop \<Rightarrow> TimerId list \<Rightarrow> TimerId list" where
  "drop_dead lp [] = []"
| "drop_dead lp (i # heap) = (if tm_canceled (timer lp i) \<or> i \<notin> lp_map lp then drop_dead lp heap else i # heap)"

definition getPollTimeoutMs :: "u64 \<Rightarrow> loop \<Rightarrow> int \<times> loop" where
  "getPollTimeoutMs now lp =
     (let heap = drop_dead lp (lp_heap lp) in
      (case heap of
         [] \<Rightarrow> (- 1, lp\<lparr>lp_heap := []\<rparr>)
       | i # _ \<Rightarrow>
           (if expire_ms lp i \<le> now then 0 else sint (ucast (expire_ms lp i - now) :: 32 word), lp\<lparr>lp_heap := heap\<rparr>)))"

section \<open>Runs\<close>

text \<open>Operations of any thread and, one after the other, those of the loop's own thread.\<close>

inductive loop_step :: "loop \<Rightarrow> loop \<Rightarrow> bool" where
  ls_after: "lp_next_id lp + 1 \<noteq> 0 \<Longrightarrow> loop_step lp (snd (runAfter now d lp))"
| ls_every: "lp_next_id lp + 1 \<noteq> 0 \<Longrightarrow> loop_step lp (snd (runEvery now d lp))"
| ls_cancel: "loop_step lp (cancelTimer i lp)"
| ls_begin: "lp_expired lp = [] \<Longrightarrow> loop_step lp (begin_expired now lp)"
| ls_start: "lp_expired lp \<noteq> [] \<Longrightarrow> \<not> lp_started lp \<Longrightarrow> loop_step lp (start_expired lp)"
| ls_finish: "lp_started lp \<Longrightarrow> loop_step lp (finish_expired now lp)"
| ls_poll: "lp_expired lp = [] \<Longrightarrow> loop_step lp (snd (getPollTimeoutMs now lp))"
| ls_queue: "loop_step lp (queueInLoop f lp)"
| ls_pending: "loop_step lp (snd (doPending lp))"
| ls_quit: "loop_step lp (loop_quit lp)"

inductive loop_reachable :: "loop \<Rightarrow> bool" where
  lr_new: "loop_reachable new_loop"
| lr_step: "loop_reachable lp \<Longrightarrow> loop_step lp lp' \<Longrightarrow> loop_reachable lp'"

section \<open>Invariant\<close>

definition one_shot :: "loop \<Rightarrow> TimerId \<Rightarrow> bool" where
  "one_shot lp i \<longleftrightarrow> tm_interval_ms (timer lp i) = 0"

definition firings :: "TimerId \<Rightarrow> loop \<Rightarrow> (TimerId \<times> u64 \<times> u64) list" where
  "firings i lp = filter (\<lambda>f. fst f = i) (lp_fired lp)"

definition heap_sorted :: "(TimerId \<Rightarrow> u64) \<Rightarrow> TimerId list \<Rightarrow> bool" where
  "heap_sorted key = sorted_wrt (\<lambda>i j. key i \<le> key j)"

text \<open>
  Live timers are in the heap, or are intervals about to be armed again; ids are below the
  next one; what was collected is due; a timer without an interval that ran is gone.
\<close>

definition timers_ok :: "loop \<Rightarrow> bool" where
  "timers_ok lp \<longleftrightarrow>
     distinct (lp_heap lp @ lp_expired lp) \<and> heap_sorted (expire_ms lp) (lp_heap lp)
     \<and> (\<forall>i \<in> lp_map lp. \<not> tm_canceled (timer lp i) \<and> (i \<in> set (lp_heap lp) \<or> (i \<in> set (lp_expired lp) \<and> \<not> one_shot lp i)))
     \<and> set (lp_heap lp) \<union> set (lp_expired lp) \<union> fst ` set (lp_fired lp) \<subseteq> {i. i < lp_next_id lp}
     \<and> (\<forall>i \<in> set (lp_expired lp). expire_ms lp i \<le> lp_collected_at lp)
     \<and> (\<forall>(i, due, at) \<in> set (lp_fired lp). due \<le> at)
     \<and> (\<forall>i. one_shot lp i \<longrightarrow> i \<in> fst ` set (lp_fired lp) \<longrightarrow>
          length (firings i lp) = 1 \<and> i \<notin> set (lp_heap lp) \<and> (i \<in> set (lp_expired lp) \<longrightarrow> lp_started lp \<and> i = hd (lp_expired lp)))"

lemma timers_okD:
  assumes "timers_ok lp"
  shows "distinct (lp_heap lp @ lp_expired lp)" "heap_sorted (expire_ms lp) (lp_heap lp)"
    "i \<in> lp_map lp \<Longrightarrow> \<not> tm_canceled (timer lp i) \<and> (i \<in> set (lp_heap lp) \<or> (i \<in> set (lp_expired lp) \<and> \<not> one_shot lp i))"
    "i \<in> set (lp_heap lp) \<union> set (lp_expired lp) \<union> fst ` set (lp_fired lp) \<Longrightarrow> i < lp_next_id lp"
    "i \<in> set (lp_expired lp) \<Longrightarrow> expire_ms lp i \<le> lp_collected_at lp"
    "(i, due, at) \<in> set (lp_fired lp) \<Longrightarrow> due \<le> at"
    "one_shot lp i \<Longrightarrow> i \<in> fst ` set (lp_fired lp) \<Longrightarrow>
       length (firings i lp) = 1 \<and> i \<notin> set (lp_heap lp) \<and> (i \<in> set (lp_expired lp) \<longrightarrow> lp_started lp \<and> i = hd (lp_expired lp))"
  using assms by (auto simp: timers_ok_def)

lemma set_heap_push [simp]: "set (heap_push key i h) = insert i (set h)"
  by (induction key i h rule: heap_push.induct) auto

lemma distinct_heap_push: "distinct (heap_push key i h) \<longleftrightarrow> i \<notin> set h \<and> distinct h"
  by (induction key i h rule: heap_push.induct) auto

lemma heap_sorted_push: "heap_sorted key h \<Longrightarrow> heap_sorted key (heap_push key i h)"
  by (induction key i h rule: heap_push.induct) (auto simp: heap_sorted_def not_less intro: less_imp_le order_trans)

lemma heap_sorted_cong: "(\<And>i. i \<in> set h \<Longrightarrow> key i = key' i) \<Longrightarrow> heap_sorted key h = heap_sorted key' h"
  by (induction h) (auto simp: heap_sorted_def)

lemma timer_update: "timer (lp\<lparr>lp_timers := AList.update i t (lp_timers lp)\<rparr>) j = (if j = i then t else timer lp j)"
  by (simp add: timer_def update_conv)

lemma timer_frame: "lp_timers lp' = lp_timers lp \<Longrightarrow> timer lp' = timer lp \<and> expire_ms lp' = expire_ms lp \<and> one_shot lp' = one_shot lp"
  by (simp add: fun_eq_iff timer_def expire_ms_def one_shot_def)

lemma collect_expired_suffix:
  assumes "collect_expired lp now h m = (ex, rest, m')"
  shows "\<exists>dead. mset h = mset ex + mset rest + mset dead \<and> (\<forall>i \<in> set dead. tm_canceled (timer lp i) \<or> i \<notin> m \<or> i \<in> set ex)"
    and "i \<in> set ex \<Longrightarrow> i \<in> m \<and> \<not> tm_canceled (timer lp i) \<and> expire_ms lp i \<le> now"
    and "m' = m - {i \<in> set ex. one_shot lp i}"
    and "heap_sorted (expire_ms lp) h \<Longrightarrow> heap_sorted (expire_ms lp) rest \<and> (\<forall>j \<in> set rest. now < expire_ms lp j)"
proof -
  have "(\<exists>dead. mset h = mset ex + mset rest + mset dead \<and> (\<forall>i \<in> set dead. tm_canceled (timer lp i) \<or> i \<notin> m \<or> i \<in> set ex))
    \<and> (\<forall>i \<in> set ex. i \<in> m \<and> \<not> tm_canceled (timer lp i) \<and> expire_ms lp i \<le> now)
    \<and> m' = m - {i \<in> set ex. one_shot lp i}
    \<and> (heap_sorted (expire_ms lp) h \<longrightarrow> heap_sorted (expire_ms lp) rest \<and> (\<forall>j \<in> set rest. now < expire_ms lp j))"
    using assms
  proof (induction h arbitrary: m ex)
    case (Cons i h)
    show ?case
    proof (cases "tm_canceled (timer lp i) \<or> i \<notin> m")
      case True
      with Cons.prems have run: "collect_expired lp now h m = (ex, rest, m')" by (auto split: if_splits)
      from Cons.IH [OF run] obtain dead where d: "mset h = mset ex + mset rest + mset dead"
        "\<forall>i \<in> set dead. tm_canceled (timer lp i) \<or> i \<notin> m \<or> i \<in> set ex" by blast
      with True have "\<exists>dead. mset (i # h) = mset ex + mset rest + mset dead
          \<and> (\<forall>i \<in> set dead. tm_canceled (timer lp i) \<or> i \<notin> m \<or> i \<in> set ex)"
        by (intro exI [of _ "i # dead"]) auto
      with Cons.IH [OF run] show ?thesis by (auto simp: heap_sorted_def)
    next
      case live: False
      show ?thesis
      proof (cases "now < expire_ms lp i")
        case True
        with live Cons.prems show ?thesis by (auto simp: heap_sorted_def intro: exI [of _ "[]"]) (meson less_le_trans)
      next
        case False
        define m0 where "m0 = (if tm_interval_ms (timer lp i) = 0 then m - {i} else m)"
        from live False Cons.prems obtain ex0 where run: "collect_expired lp now h m0 = (ex0, rest, m')" and ex: "ex = i # ex0"
          by (auto simp: m0_def [symmetric] split: prod.splits)
        from Cons.IH [OF run] obtain dead where d: "mset h = mset ex0 + mset rest + mset dead"
          "\<forall>i \<in> set dead. tm_canceled (timer lp i) \<or> i \<notin> m0 \<or> i \<in> set ex0" by blast
        then have "\<exists>dead. mset (i # h) = mset ex + mset rest + mset dead
            \<and> (\<forall>i \<in> set dead. tm_canceled (timer lp i) \<or> i \<notin> m \<or> i \<in> set ex)"
          by (intro exI [of _ dead]) (auto simp: ex m0_def split: if_splits)
        moreover have "m' = m - {i \<in> set ex. one_shot lp i}"
          using Cons.IH [OF run] by (auto simp: ex m0_def one_shot_def split: if_splits)
        moreover have "\<forall>i \<in> set ex. i \<in> m \<and> \<not> tm_canceled (timer lp i) \<and> expire_ms lp i \<le> now"
          using Cons.IH [OF run] live False by (auto simp: ex m0_def not_less split: if_splits)
        ultimately show ?thesis using Cons.IH [OF run] by (simp add: heap_sorted_def)
      qed
    qed
  qed (auto simp: heap_sorted_def)
  then show "\<exists>dead. mset h = mset ex + mset rest + mset dead \<and> (\<forall>i \<in> set dead. tm_canceled (timer lp i) \<or> i \<notin> m \<or> i \<in> set ex)"
    "i \<in> set ex \<Longrightarrow> i \<in> m \<and> \<not> tm_canceled (timer lp i) \<and> expire_ms lp i \<le> now"
    "m' = m - {i \<in> set ex. one_shot lp i}"
    "heap_sorted (expire_ms lp) h \<Longrightarrow> heap_sorted (expire_ms lp) rest \<and> (\<forall>j \<in> set rest. now < expire_ms lp j)"
    by blast+
qed

lemma collect_expired_all:
  assumes "collect_expired lp now h m = (ex, rest, m')" and "distinct h"
  shows "distinct (rest @ ex)" and "set ex \<union> set rest \<subseteq> set h"
    and "i \<in> set h \<Longrightarrow> i \<in> m \<Longrightarrow> \<not> tm_canceled (timer lp i) \<Longrightarrow> i \<in> set ex \<or> i \<in> set rest"
proof -
  obtain dead where d: "mset h = mset ex + mset rest + mset dead"
    "\<forall>i \<in> set dead. tm_canceled (timer lp i) \<or> i \<notin> m \<or> i \<in> set ex" using collect_expired_suffix(1) [OF assms(1)] by blast
  then have "mset h = mset (rest @ ex @ dead)" by simp
  then have perm: "distinct (rest @ ex @ dead)" "set h = set (rest @ ex @ dead)"
    using assms(2) mset_eq_imp_distinct_iff mset_eq_setD by blast+
  then show "distinct (rest @ ex)" "set ex \<union> set rest \<subseteq> set h" by auto
  show "i \<in> set ex \<or> i \<in> set rest" if "i \<in> set h" "i \<in> m" "\<not> tm_canceled (timer lp i)" using that perm(2) d(2) by auto
qed

lemma drop_dead_suffix: "\<exists>dead. h = dead @ drop_dead lp h \<and> (\<forall>i \<in> set dead. tm_canceled (timer lp i) \<or> i \<notin> lp_map lp)"
proof (induction h)
  case (Cons i h)
  then obtain dead where d: "h = dead @ drop_dead lp h" "\<forall>i \<in> set dead. tm_canceled (timer lp i) \<or> i \<notin> lp_map lp" by blast
  show ?case
  proof (cases "tm_canceled (timer lp i) \<or> i \<notin> lp_map lp")
    case True
    have "i # h = (i # dead) @ drop_dead lp (i # h)" using True d(1) by simp
    with True d(2) show ?thesis by (metis set_ConsD)
  qed simp
qed simp

section \<open>Operations keep the invariant\<close>

lemma ok_frame:
  assumes "timers_ok lp" and "lp_timers lp' = lp_timers lp" and "lp_heap lp' = lp_heap lp" and "lp_map lp' = lp_map lp"
    and "lp_next_id lp' = lp_next_id lp" and "lp_expired lp' = lp_expired lp" and "lp_started lp' = lp_started lp"
    and "lp_collected_at lp' = lp_collected_at lp" and "lp_fired lp' = lp_fired lp"
  shows "timers_ok lp'"
  using assms timer_frame [OF assms(2)] by (simp add: timers_ok_def firings_def)

lemma ok_queue: "timers_ok lp \<Longrightarrow> timers_ok (queueInLoop f lp)"
  by (cases "lp_quit lp") (auto simp: queueInLoop_def tryQueueInLoop_def elim: ok_frame)

lemma ok_add:
  assumes ok: "timers_ok lp" and room: "lp_next_id lp + 1 \<noteq> 0"
  shows "timers_ok (snd (add_timer now d v lp))"
proof -
  define i where "i = lp_next_id lp"
  define lp1 where "lp1 = lp\<lparr>lp_next_id := i + 1,
     lp_timers := AList.update i \<lparr>tm_expire_ms = now + d, tm_interval_ms = v, tm_canceled = False\<rparr> (lp_timers lp),
     lp_map := insert i (lp_map lp)\<rparr>"
  note D = timers_okD [OF ok]
  have i: "i < i + 1" using room unatSuc [of i] by (simp add: i_def word_less_nat_alt add.commute)
  have up: "x < i \<Longrightarrow> x < i + 1" for x using i by simp
  have fresh: "i \<notin> set (lp_heap lp)" "i \<notin> set (lp_expired lp)" "i \<notin> fst ` set (lp_fired lp)"
    using D(4) by (auto simp: i_def)
  have same: "timer lp1 j = (if j = i then \<lparr>tm_expire_ms = now + d, tm_interval_ms = v, tm_canceled = False\<rparr> else timer lp j)" for j
    by (simp add: lp1_def timer_def update_conv)
  then have ex: "expire_ms lp1 j = expire_ms lp j" "one_shot lp1 j = one_shot lp j" if "j \<noteq> i" for j
    using that by (simp_all add: expire_ms_def one_shot_def)
  have sorted: "heap_sorted (expire_ms lp1) (lp_heap lp)"
    using D(2) fresh(1) ex(1) heap_sorted_cong [of "lp_heap lp" "expire_ms lp1" "expire_ms lp"] by metis
  have fire: "firings j (push_timer i lp1) = firings j lp" for j by (simp add: firings_def push_timer_def lp1_def)
  have frame: "lp_timers (push_timer i lp1) = lp_timers lp1" by (simp add: push_timer_def)
  have rest: "lp_heap (push_timer i lp1) = heap_push (expire_ms lp1) i (lp_heap lp)" "lp_expired (push_timer i lp1) = lp_expired lp"
    "lp_map (push_timer i lp1) = insert i (lp_map lp)" "lp_next_id (push_timer i lp1) = i + 1"
    "lp_fired (push_timer i lp1) = lp_fired lp" "lp_collected_at (push_timer i lp1) = lp_collected_at lp"
    "lp_started (push_timer i lp1) = lp_started lp"
    by (simp_all add: push_timer_def lp1_def)
  have "timers_ok (push_timer i lp1)"
    unfolding timers_ok_def rest fire timer_frame [OF frame, THEN conjunct1] timer_frame [OF frame, THEN conjunct2, THEN conjunct1]
      timer_frame [OF frame, THEN conjunct2, THEN conjunct2]
  proof (intro conjI)
    show "distinct (heap_push (expire_ms lp1) i (lp_heap lp) @ lp_expired lp)"
      using D(1) fresh by (auto simp: distinct_heap_push)
    show "heap_sorted (expire_ms lp1) (heap_push (expire_ms lp1) i (lp_heap lp))" using sorted by (rule heap_sorted_push)
    show "\<forall>j \<in> insert i (lp_map lp). \<not> tm_canceled (timer lp1 j)
        \<and> (j \<in> set (heap_push (expire_ms lp1) i (lp_heap lp)) \<or> (j \<in> set (lp_expired lp) \<and> \<not> one_shot lp1 j))"
      using D(3) ex(2) by (auto simp: same)
    show "set (heap_push (expire_ms lp1) i (lp_heap lp)) \<union> set (lp_expired lp) \<union> fst ` set (lp_fired lp) \<subseteq> {j. j < i + 1}"
      using D(4) up i unfolding i_def [symmetric] by auto
    show "\<forall>j \<in> set (lp_expired lp). expire_ms lp1 j \<le> lp_collected_at lp" using D(5) ex(1) fresh(2) by fastforce
    show "\<forall>(j, due, at) \<in> set (lp_fired lp). due \<le> at" using D(6) by auto
    show "\<forall>j. one_shot lp1 j \<longrightarrow> j \<in> fst ` set (lp_fired lp) \<longrightarrow> length (firings j lp) = 1
        \<and> j \<notin> set (heap_push (expire_ms lp1) i (lp_heap lp))
        \<and> (j \<in> set (lp_expired lp) \<longrightarrow> lp_started lp \<and> j = hd (lp_expired lp))"
    proof (intro allI impI)
      fix j assume j: "one_shot lp1 j" "j \<in> fst ` set (lp_fired lp)"
      then have "j \<noteq> i" using fresh(3) by blast
      with D(7) [of j] ex(2) [of j] j show "length (firings j lp) = 1 \<and> j \<notin> set (heap_push (expire_ms lp1) i (lp_heap lp))
        \<and> (j \<in> set (lp_expired lp) \<longrightarrow> lp_started lp \<and> j = hd (lp_expired lp))" by simp
    qed
  qed
  then show ?thesis
    using ok_queue by (simp add: add_timer_def Let_def i_def [symmetric] lp1_def [symmetric])
qed

lemma ok_cancel:
  assumes ok: "timers_ok lp"
  shows "timers_ok (cancelTimer i lp)"
proof (cases "i \<in> lp_map lp")
  case True
  define lp1 where "lp1 = cancelTimer i lp"
  have lp1: "lp1 = lp\<lparr>lp_timers := AList.update i ((timer lp i)\<lparr>tm_canceled := True\<rparr>) (lp_timers lp), lp_map := lp_map lp - {i}\<rparr>"
    using True by (simp add: lp1_def cancelTimer_def)
  have t: "timer lp1 j = (if j = i then (timer lp i)\<lparr>tm_canceled := True\<rparr> else timer lp j)" for j
    by (simp add: lp1 timer_def update_conv)
  then have e: "expire_ms lp1 = expire_ms lp" "one_shot lp1 = one_shot lp" by (simp_all add: fun_eq_iff expire_ms_def one_shot_def)
  have fi: "firings j lp1 = firings j lp" for j by (simp add: lp1 firings_def)
  have fl: "lp_heap lp1 = lp_heap lp" "lp_expired lp1 = lp_expired lp" "lp_map lp1 = lp_map lp - {i}"
    "lp_next_id lp1 = lp_next_id lp" "lp_fired lp1 = lp_fired lp" "lp_collected_at lp1 = lp_collected_at lp"
    "lp_started lp1 = lp_started lp" by (simp_all add: lp1)
  have "timers_ok lp1" using ok unfolding timers_ok_def e fi fl by (simp add: t)
  then show ?thesis by (simp add: lp1_def)
qed (simp add: cancelTimer_def ok)

lemma ok_begin:
  assumes ok: "timers_ok lp" and idle: "lp_expired lp = []"
  shows "timers_ok (begin_expired now lp)"
proof -
  obtain ex rest m where run: "collect_expired lp now (lp_heap lp) (lp_map lp) = (ex, rest, m)" by (metis prod_cases3)
  note D = timers_okD [OF ok] and S = collect_expired_suffix [OF run]
  have dist: "distinct (lp_heap lp)" using D(1) by simp
  note A = collect_expired_all [OF run dist]
  define lp1 where "lp1 = begin_expired now lp"
  have lp1: "lp1 = lp\<lparr>lp_heap := rest, lp_map := m, lp_expired := ex, lp_started := False, lp_collected_at := now\<rparr>"
    by (simp add: lp1_def begin_expired_def run)
  note f = timer_frame [of lp1 lp]
  have "\<forall>i \<in> m. \<not> tm_canceled (timer lp i) \<and> (i \<in> set rest \<or> (i \<in> set ex \<and> \<not> one_shot lp i))"
  proof
    fix i assume "i \<in> m"
    then have i: "i \<in> lp_map lp" "i \<in> set ex \<longrightarrow> \<not> one_shot lp i" using S(3) by auto
    with D(3) [of i] A(3) idle show "\<not> tm_canceled (timer lp i) \<and> (i \<in> set rest \<or> (i \<in> set ex \<and> \<not> one_shot lp i))" by auto
  qed
  moreover have "one_shot lp i \<longrightarrow> i \<in> fst ` set (lp_fired lp) \<longrightarrow> length (firings i lp) = 1 \<and> i \<notin> set rest \<and> i \<notin> set ex" for i
    using D(7) A(2) by blast
  moreover have "set rest \<union> set ex \<union> fst ` set (lp_fired lp) \<subseteq> {i. i < lp_next_id lp}" using D(4) A(2) by blast
  moreover have "firings i lp1 = firings i lp" for i by (simp add: firings_def lp1)
  ultimately have "timers_ok lp1"
    using A(1) S(2,4) D(2,6) f unfolding timers_ok_def by (auto simp: lp1)
  then show ?thesis by (simp add: lp1_def)
qed

lemma ok_start:
  assumes ok: "timers_ok lp" and "lp_expired lp \<noteq> []" and new: "\<not> lp_started lp"
  shows "timers_ok (start_expired lp)"
proof -
  obtain i rest where ex: "lp_expired lp = i # rest" using assms(2) by (cases "lp_expired lp") auto
  define lp1 where "lp1 = start_expired lp"
  define fired where "fired = (if tm_canceled (timer lp i) then [] else [(i, expire_ms lp i, lp_collected_at lp)])"
  have lp1: "lp1 = lp\<lparr>lp_started := True, lp_fired := lp_fired lp @ fired\<rparr>" by (simp add: lp1_def start_expired_def ex fired_def)
  note D = timers_okD [OF ok] and f = timer_frame [of lp1 lp]
  have new_one: "i \<notin> fst ` set (lp_fired lp)" if "one_shot lp i" using D(7) [OF that] new ex by auto
  have fire: "firings j lp1 = firings j lp @ (if j = i then fired else [])" for j by (auto simp: firings_def lp1 fired_def)
  have once: "length (firings j lp1) = 1 \<and> j \<notin> set (lp_heap lp) \<and> (j \<in> set (lp_expired lp) \<longrightarrow> j = hd (lp_expired lp))"
    if j: "one_shot lp j" "j \<in> fst ` set (lp_fired lp1)" for j
  proof (cases "j = i")
    case True
    then have "firings i lp = []" "fired \<noteq> []" using new_one j by (force simp: firings_def filter_empty_conv lp1)+
    then have "length (firings j lp1) = 1" using True fire [of i] by (simp add: fired_def split: if_splits)
    then show ?thesis using D(1) True by (simp add: ex)
  next
    case False
    then have "j \<in> fst ` set (lp_fired lp)" using j(2) by (auto simp: lp1 fired_def split: if_splits)
    with D(7) [OF j(1) this] False new fire show ?thesis by auto
  qed
  have fs: "fst ` set fired \<subseteq> {i}" "\<forall>(j, due, at) \<in> set fired. due \<le> at" using D(5) [of i] by (auto simp: fired_def ex)
  have eqs: "timer lp1 = timer lp" "expire_ms lp1 = expire_ms lp" "one_shot lp1 = one_shot lp"
    "lp_heap lp1 = lp_heap lp" "lp_expired lp1 = lp_expired lp" "lp_map lp1 = lp_map lp" "lp_next_id lp1 = lp_next_id lp"
    "lp_collected_at lp1 = lp_collected_at lp" "lp_started lp1 = True" "lp_fired lp1 = lp_fired lp @ fired"
    using f by (simp_all add: lp1)
  have "timers_ok lp1"
    unfolding timers_ok_def eqs(1-9)
  proof (intro conjI)
    show "set (lp_heap lp) \<union> set (lp_expired lp) \<union> fst ` set (lp_fired lp1) \<subseteq> {i. i < lp_next_id lp}"
      using D(4) fs(1) ex by (fastforce simp: eqs(10))
    show "\<forall>(i, due, at) \<in> set (lp_fired lp1). due \<le> at" using D(6) fs(2) by (auto simp: eqs(10))
    show "\<forall>j. one_shot lp j \<longrightarrow> j \<in> fst ` set (lp_fired lp1) \<longrightarrow> length (firings j lp1) = 1
        \<and> j \<notin> set (lp_heap lp) \<and> (j \<in> set (lp_expired lp) \<longrightarrow> True \<and> j = hd (lp_expired lp))"
      using once by blast
  qed (use ok in \<open>simp_all add: timers_ok_def\<close>)
  then show ?thesis by (simp add: lp1_def)
qed

lemma ok_popped:
  assumes ok: "timers_ok lp" and ex: "lp_expired lp = i # rest" and gone: "i \<notin> lp_map lp"
  shows "timers_ok (lp\<lparr>lp_expired := rest, lp_started := False\<rparr>)"
proof -
  let ?lp = "lp\<lparr>lp_expired := rest, lp_started := False\<rparr>"
  note D = timers_okD [OF ok]
  have eqs: "timer ?lp = timer lp" "expire_ms ?lp = expire_ms lp" "one_shot ?lp = one_shot lp" using timer_frame [of ?lp lp] by simp_all
  have fi: "firings j ?lp = firings j lp" for j by (simp add: firings_def)
  show ?thesis
    unfolding timers_ok_def eqs fi
  proof (intro conjI)
    show "\<forall>j \<in> lp_map ?lp. \<not> tm_canceled (timer lp j) \<and> (j \<in> set (lp_heap ?lp) \<or> (j \<in> set (lp_expired ?lp) \<and> \<not> one_shot lp j))"
      using D(3) gone ex by auto
    show "\<forall>j. one_shot lp j \<longrightarrow> j \<in> fst ` set (lp_fired ?lp) \<longrightarrow> length (firings j lp) = 1
        \<and> j \<notin> set (lp_heap ?lp) \<and> (j \<in> set (lp_expired ?lp) \<longrightarrow> lp_started ?lp \<and> j = hd (lp_expired ?lp))"
    proof (intro allI impI)
      fix j assume j: "one_shot lp j" "j \<in> fst ` set (lp_fired ?lp)"
      have "j \<notin> set rest" using D(7) [OF j(1)] j(2) D(1) ex by auto
      with D(7) [OF j(1)] j(2) show "length (firings j lp) = 1 \<and> j \<notin> set (lp_heap ?lp)
          \<and> (j \<in> set (lp_expired ?lp) \<longrightarrow> lp_started ?lp \<and> j = hd (lp_expired ?lp))" by simp
    qed
  qed (use ok ex in \<open>auto simp: timers_ok_def\<close>)
qed

lemma ok_finish:
  assumes ok: "timers_ok lp"
  shows "timers_ok (finish_expired now lp)"
proof (cases "lp_expired lp")
  case (Cons i rest)
  define t where "t = timer lp i"
  define armed where "armed \<longleftrightarrow> \<not> tm_canceled t \<and> 0 < tm_interval_ms t"
  define lp1 where "lp1 = lp\<lparr>lp_expired := rest, lp_started := False,
     lp_timers := AList.update i (t\<lparr>tm_expire_ms := now + tm_interval_ms t\<rparr>) (lp_timers lp)\<rparr>"
  have fin: "finish_expired now lp = (if armed then if i \<in> lp_map lp then push_timer i lp1 else lp1
      else lp\<lparr>lp_expired := rest, lp_started := False\<rparr>)"
    by (simp add: finish_expired_def Cons Let_def t_def armed_def lp1_def)
  note D = timers_okD [OF ok]
  have i: "i \<notin> set (lp_heap lp)" "i \<notin> set rest" using D(1) Cons by auto
  have eqs: "timer lp1 j = (if j = i then t\<lparr>tm_expire_ms := now + tm_interval_ms t\<rparr> else timer lp j)"
    "j \<noteq> i \<Longrightarrow> expire_ms lp1 j = expire_ms lp j" "one_shot lp1 j = one_shot lp j" for j
    by (simp_all add: lp1_def timer_def update_conv expire_ms_def one_shot_def t_def)
  define heap2 where "heap2 = (if i \<in> lp_map lp then heap_push (expire_ms lp1) i (lp_heap lp) else lp_heap lp)"
  define lp2 where "lp2 = (if i \<in> lp_map lp then push_timer i lp1 else lp1)"
  have fl: "lp_heap lp2 = heap2" "lp_expired lp2 = rest" "lp_map lp2 = lp_map lp" "lp_next_id lp2 = lp_next_id lp"
    "lp_fired lp2 = lp_fired lp" "lp_collected_at lp2 = lp_collected_at lp" "lp_started lp2 = False"
    by (simp_all add: lp2_def heap2_def push_timer_def lp1_def)
  have fr: "timer lp2 = timer lp1" "expire_ms lp2 = expire_ms lp1" "one_shot lp2 = one_shot lp1"
    using timer_frame [of lp2 lp1] by (simp_all add: lp2_def push_timer_def)
  have fi: "firings j lp2 = firings j lp" for j by (simp add: firings_def fl(5))
  have heap2: "set heap2 = (if i \<in> lp_map lp then insert i (set (lp_heap lp)) else set (lp_heap lp))" by (simp add: heap2_def)
  have sorted: "heap_sorted (expire_ms lp1) (lp_heap lp)"
    using D(2) i(1) eqs(2) heap_sorted_cong [of "lp_heap lp" "expire_ms lp1" "expire_ms lp"] by metis
  have again: "timers_ok lp2" if "armed"
    unfolding timers_ok_def fl fr fi
  proof (intro conjI)
    show "distinct (heap2 @ rest)" using D(1) i by (auto simp: heap2_def distinct_heap_push Cons)
    show "heap_sorted (expire_ms lp1) heap2" using sorted by (simp add: heap2_def heap_sorted_push)
    show "\<forall>j \<in> lp_map lp. \<not> tm_canceled (timer lp1 j) \<and> (j \<in> set heap2 \<or> (j \<in> set rest \<and> \<not> one_shot lp1 j))"
      using D(3) that Cons by (auto simp: heap2 eqs(1,3) armed_def t_def)
    show "set heap2 \<union> set rest \<union> fst ` set (lp_fired lp) \<subseteq> {j. j < lp_next_id lp}"
      using D(4) Cons unfolding heap2 by auto
    show "\<forall>j \<in> set rest. expire_ms lp1 j \<le> lp_collected_at lp" using D(5) Cons i(2) eqs(2) by (metis list.set_intros(2))
    show "\<forall>(j, due, at) \<in> set (lp_fired lp). due \<le> at" using D(6) by auto
    show "\<forall>j. one_shot lp1 j \<longrightarrow> j \<in> fst ` set (lp_fired lp) \<longrightarrow> length (firings j lp) = 1
        \<and> j \<notin> set heap2 \<and> (j \<in> set rest \<longrightarrow> False \<and> j = hd rest)"
    proof (intro allI impI)
      fix j assume j: "one_shot lp1 j" "j \<in> fst ` set (lp_fired lp)"
      then have "j \<noteq> i" using that unfolding eqs(3) by (auto simp: one_shot_def armed_def t_def)
      with j D(7) [of j] Cons show "length (firings j lp) = 1 \<and> j \<notin> set heap2 \<and> (j \<in> set rest \<longrightarrow> False \<and> j = hd rest)"
        by (auto simp: eqs(3) heap2)
    qed
  qed
  have "timers_ok (lp\<lparr>lp_expired := rest, lp_started := False\<rparr>)" if "\<not> armed"
  proof (rule ok_popped [OF ok Cons])
    show "i \<notin> lp_map lp"
      using D(3) [of i] i(1) that by (auto simp: armed_def t_def one_shot_def word_gt_0)
  qed
  with again show ?thesis unfolding fin lp2_def by simp
qed (simp add: finish_expired_def ok)

lemma ok_poll:
  assumes ok: "timers_ok lp"
  shows "timers_ok (snd (getPollTimeoutMs now lp))"
proof -
  obtain dead where h: "lp_heap lp = dead @ drop_dead lp (lp_heap lp)"
    and d: "\<forall>i \<in> set dead. tm_canceled (timer lp i) \<or> i \<notin> lp_map lp" using drop_dead_suffix by blast
  define rest where "rest = drop_dead lp (lp_heap lp)"
  let ?lp = "lp\<lparr>lp_heap := rest\<rparr>"
  have poll: "snd (getPollTimeoutMs now lp) = ?lp"
    by (simp add: getPollTimeoutMs_def Let_def rest_def [symmetric] split: list.split)
  note D = timers_okD [OF ok]
  have eqs: "timer ?lp = timer lp" "expire_ms ?lp = expire_ms lp" "one_shot ?lp = one_shot lp" using timer_frame [of ?lp lp] by simp_all
  have fi: "firings j ?lp = firings j lp" for j by (simp add: firings_def)
  have sub: "set rest \<subseteq> set (lp_heap lp)" using h rest_def by (metis set_append Un_upper2)
  show ?thesis
    unfolding poll timers_ok_def eqs fi
  proof (intro conjI)
    show "distinct (lp_heap ?lp @ lp_expired ?lp)" using D(1) h by (auto simp: rest_def [symmetric])
    show "heap_sorted (expire_ms lp) (lp_heap ?lp)"
      using D(2) h by (simp add: rest_def [symmetric] heap_sorted_def sorted_wrt_append)
    show "\<forall>i \<in> lp_map ?lp. \<not> tm_canceled (timer lp i) \<and> (i \<in> set (lp_heap ?lp) \<or> (i \<in> set (lp_expired ?lp) \<and> \<not> one_shot lp i))"
      using D(3) d h by (auto simp: rest_def [symmetric])
    show "\<forall>j. one_shot lp j \<longrightarrow> j \<in> fst ` set (lp_fired ?lp) \<longrightarrow> length (firings j lp) = 1
        \<and> j \<notin> set (lp_heap ?lp) \<and> (j \<in> set (lp_expired ?lp) \<longrightarrow> lp_started ?lp \<and> j = hd (lp_expired ?lp))"
      using D(7) sub by auto
  qed (use ok sub in \<open>auto simp: timers_ok_def\<close>)
qed

lemma ok_reachable: "loop_reachable lp \<Longrightarrow> timers_ok lp"
proof (induction rule: loop_reachable.induct)
  case lr_new
  show ?case by (simp add: timers_ok_def new_loop_def heap_sorted_def)
next
  case (lr_step lp lp')
  from lr_step.hyps(2) lr_step.IH show ?case
    by (cases rule: loop_step.cases)
      (auto simp: runAfter_def runEvery_def doPending_def loop_quit_def
        intro: ok_add ok_cancel ok_begin ok_start ok_finish ok_poll ok_queue elim: ok_frame)
qed

section \<open>Cancelling is final\<close>

lemma update_subset: "fst ` set (AList.update i t xs) = insert i (fst ` set xs)"
  by (simp add: AList.dom_update)

lemma timer_ids: "loop_reachable lp \<Longrightarrow> fst ` set (lp_timers lp) \<subseteq> {i. i < lp_next_id lp}"
proof (induction rule: loop_reachable.induct)
  case (lr_step lp lp')
  note D = timers_okD [OF ok_reachable [OF lr_step.hyps(1)]]
  have add: "fst ` set (lp_timers (snd (add_timer now d v lp))) \<subseteq> {i. i < lp_next_id (snd (add_timer now d v lp))}"
    if "lp_next_id lp + 1 \<noteq> 0" for now d v
  proof -
    have "lp_next_id lp < lp_next_id lp + 1" using that unatSuc [of "lp_next_id lp"] by (simp add: word_less_nat_alt add.commute)
    then show ?thesis
      using lr_step.IH by (auto simp: add_timer_def Let_def push_timer_def queueInLoop_def tryQueueInLoop_def update_subset)
  qed
  have live: "i < lp_next_id lp" if "i \<in> lp_map lp" for i using D(3) [OF that] D(4) by auto
  from lr_step.hyps(2) add D(4) live lr_step.IH show ?case
    by (cases rule: loop_step.cases)
      (auto simp: runAfter_def runEvery_def cancelTimer_def begin_expired_def start_expired_def finish_expired_def
        getPollTimeoutMs_def queueInLoop_def tryQueueInLoop_def doPending_def loop_quit_def push_timer_def update_subset Let_def
        split: prod.splits list.splits if_splits)
qed (simp add: new_loop_def)

definition dead_timer :: "loop \<Rightarrow> TimerId \<Rightarrow> bool" where
  "dead_timer lp i \<longleftrightarrow> (\<exists>t. map_of (lp_timers lp) i = Some t \<and> tm_canceled t)"

lemma dead_step:
  assumes "loop_reachable lp" and "loop_step lp lp'" and "dead_timer lp i"
  shows "dead_timer lp' i \<and> firings i lp' = firings i lp"
proof -
  have "i \<in> fst ` set (lp_timers lp)" using assms(3) by (auto simp: dead_timer_def dest: map_of_SomeD intro: rev_image_eqI)
  then have "i \<noteq> lp_next_id lp" using timer_ids [OF assms(1)] by auto
  moreover have "tm_canceled (timer lp i)" using assms(3) by (auto simp: dead_timer_def timer_def)
  ultimately show ?thesis
    using assms(3)
    by (cases rule: loop_step.cases [OF assms(2)])
      (auto simp: dead_timer_def firings_def runAfter_def runEvery_def add_timer_def cancelTimer_def begin_expired_def
        start_expired_def finish_expired_def timer_def update_conv
        getPollTimeoutMs_def queueInLoop_def tryQueueInLoop_def doPending_def loop_quit_def push_timer_def Let_def
        split: prod.splits list.splits if_splits)
qed

lemma dead_steps:
  assumes "loop_step\<^sup>*\<^sup>* lp lp'" and "loop_reachable lp" and "dead_timer lp i"
  shows "loop_reachable lp' \<and> dead_timer lp' i \<and> firings i lp' = firings i lp"
  using assms
proof (induction rule: rtranclp_induct)
  case (step y z)
  with dead_step [of y z i] lr_step show ?case by auto
qed simp

text \<open>
  C26. Timers fire rightly: in every state a loop reaches, under any interleaving of callers, callbacks
  and the loop's own turns, no callback ran before its timer was due, a timer without interval ran at most
  once, and a live timer that is cancelled never runs its callback again.
\<close>

theorem timers_fire_rightly:
  assumes "loop_reachable lp"
  shows "(\<forall>(i, due, at) \<in> set (lp_fired lp). due \<le> at) \<and> (\<forall>i. one_shot lp i \<longrightarrow> length (firings i lp) \<le> 1)
     \<and> (\<forall>i lp'. i \<in> lp_map lp \<longrightarrow> loop_step\<^sup>*\<^sup>* (cancelTimer i lp) lp' \<longrightarrow> firings i lp' = firings i lp)"
proof (intro conjI allI impI)
  note D = timers_okD [OF ok_reachable [OF assms]]
  show "\<forall>(i, due, at) \<in> set (lp_fired lp). due \<le> at" using D(6) by auto
  show "length (firings i lp) \<le> 1" if "one_shot lp i" for i
  proof (cases "i \<in> fst ` set (lp_fired lp)")
    case False
    then have "firings i lp = []" by (force simp: firings_def filter_empty_conv)
    then show ?thesis by simp
  qed (use D(7) [OF that] in simp)
  fix i lp' assume i: "i \<in> lp_map lp" and steps: "loop_step\<^sup>*\<^sup>* (cancelTimer i lp) lp'"
  have "dead_timer (cancelTimer i lp) i" "firings i (cancelTimer i lp) = firings i lp"
    using i by (simp_all add: dead_timer_def cancelTimer_def firings_def update_conv)
  with dead_steps [OF steps lr_step [OF assms ls_cancel]] show "firings i lp' = firings i lp" by simp
qed

lemma poll_covers:
  assumes ok: "timers_ok lp" and "lp_expired lp = []" and "i \<in> lp_map lp"
  shows "expire_ms lp i \<le> now \<Longrightarrow> fst (getPollTimeoutMs now lp) = 0"
    and "now < expire_ms lp i \<Longrightarrow> expire_ms lp i - now < 2 ^ 31 \<Longrightarrow>
      0 \<le> fst (getPollTimeoutMs now lp) \<and> fst (getPollTimeoutMs now lp) \<le> uint (expire_ms lp i - now)"
proof -
  note D = timers_okD [OF ok]
  have live: "\<not> tm_canceled (timer lp i)" "i \<in> set (lp_heap lp)" using D(3) [OF assms(3)] assms(2) by auto
  obtain dead where h: "lp_heap lp = dead @ drop_dead lp (lp_heap lp)"
    and d: "\<forall>i \<in> set dead. tm_canceled (timer lp i) \<or> i \<notin> lp_map lp" using drop_dead_suffix by blast
  from live assms(3) h d have "i \<in> set (drop_dead lp (lp_heap lp))" by (metis Un_iff set_append)
  then obtain j rest where j: "drop_dead lp (lp_heap lp) = j # rest" by (cases "drop_dead lp (lp_heap lp)") auto
  have "heap_sorted (expire_ms lp) (j # rest)" using D(2) h j by (metis heap_sorted_def sorted_wrt_append)
  with \<open>i \<in> set (drop_dead lp (lp_heap lp))\<close> j have le: "expire_ms lp j \<le> expire_ms lp i" by (auto simp: heap_sorted_def)
  then show "fst (getPollTimeoutMs now lp) = 0" if "expire_ms lp i \<le> now"
    using that by (simp add: getPollTimeoutMs_def j Let_def) (meson order_trans)
  assume soon: "now < expire_ms lp i" "expire_ms lp i - now < 2 ^ 31"
  let ?d = "expire_ms lp j - now"
  have "0 \<le> sint (ucast ?d :: 32 word) \<and> sint (ucast ?d :: 32 word) \<le> uint (expire_ms lp i - now)" if "now < expire_ms lp j"
  proof -
    have "uint ?d \<le> uint (expire_ms lp i - now)"
      using that le soon uint_sub_lem [of now "expire_ms lp j"] uint_sub_lem [of now "expire_ms lp i"]
      by (simp add: word_le_def word_less_def)
    moreover from this soon have "uint ?d < 2 ^ 31" by (simp add: word_less_def)
    moreover from this have "signed_take_bit 31 (uint ?d) = uint ?d"
      by (intro signed_take_bit_int_eq_self) (use uint_ge_0 [of ?d] in linarith)+
    then have "sint (ucast ?d :: 32 word) = uint ?d" by (simp add: signed_ucast_eq)
    ultimately show ?thesis by simp
  qed
  then show "0 \<le> fst (getPollTimeoutMs now lp) \<and> fst (getPollTimeoutMs now lp) \<le> uint (expire_ms lp i - now)"
    by (simp add: getPollTimeoutMs_def j Let_def not_le)
qed

lemma begin_collects:
  assumes ok: "timers_ok lp" and "lp_expired lp = []" and "i \<in> lp_map lp" and "expire_ms lp i \<le> now"
  shows "i \<in> set (lp_expired (begin_expired now lp))"
proof -
  note D = timers_okD [OF ok]
  have live: "\<not> tm_canceled (timer lp i)" "i \<in> set (lp_heap lp)" using D(3) [OF assms(3)] assms(2) by auto
  obtain ex rest m where run: "collect_expired lp now (lp_heap lp) (lp_map lp) = (ex, rest, m)" by (metis prod_cases3)
  have "distinct (lp_heap lp)" using D(1) by simp
  from collect_expired_all(3) [OF run this live(2) assms(3) live(1)] collect_expired_suffix(4) [OF run D(2)] assms(4)
  show ?thesis by (auto simp: begin_expired_def run)
qed

text \<open>
  No live timer is missed: in every state in which a loop is about to poll, a live timer that is due is
  collected by the turn that reads that clock, and the loop does not sleep past a live timer: its
  timeout is not infinite and, when the timer expires within 2^31 ms, at most the time left.
\<close>

theorem timer_never_missed:
  assumes "loop_reachable lp" and "lp_expired lp = []" and "i \<in> lp_map lp"
  shows "(expire_ms lp i \<le> now \<longrightarrow> i \<in> set (lp_expired (begin_expired now lp)))
     \<and> (now < expire_ms lp i \<and> expire_ms lp i - now < 2 ^ 31 \<longrightarrow>
          0 \<le> fst (getPollTimeoutMs now lp) \<and> fst (getPollTimeoutMs now lp) \<le> uint (expire_ms lp i - now))"
  using poll_covers(2) [OF ok_reachable [OF assms(1)] assms(2,3), of now]
    begin_collects [OF ok_reachable [OF assms(1)] assms(2,3), of now] by blast

definition demo_loop :: loop where
  "demo_loop = start_expired (begin_expired 2000 (snd (runEvery 0 5000 (snd (runAfter 0 1000 new_loop)))))"

lemma demo_loop_reachable: "loop_reachable demo_loop"
proof -
  let ?one = "snd (runAfter 0 1000 new_loop)" and ?two = "snd (runEvery 0 5000 (snd (runAfter 0 1000 new_loop)))"
  have "lp_next_id new_loop + 1 \<noteq> 0" "lp_next_id ?one + 1 \<noteq> 0" "lp_expired ?two = []"
    "lp_expired (begin_expired 2000 ?two) = [1]" "\<not> lp_started (begin_expired 2000 ?two)" by code_simp+
  then have "loop_reachable ?one" "loop_reachable ?two" "loop_reachable (begin_expired 2000 ?two)"
    by (meson lr_new lr_step ls_after ls_every ls_begin)+
  then show ?thesis
    unfolding demo_loop_def
    using \<open>lp_expired (begin_expired 2000 ?two) = [1]\<close> \<open>\<not> lp_started (begin_expired 2000 ?two)\<close>
    by (intro lr_step [OF _ ls_start]) simp_all
qed

theorem timers_fire_rightly_witness:
  "firings 1 demo_loop = [(1, 1000, 2000)] \<and> one_shot demo_loop 1 \<and> length (firings 1 demo_loop) \<le> 1
   \<and> firings 2 (finish_expired 6000 (cancelTimer 2 demo_loop)) = firings 2 demo_loop"
proof -
  have "firings 1 demo_loop = [(1, 1000, 2000)]" "one_shot demo_loop 1" "2 \<in> lp_map demo_loop"
    "lp_started (cancelTimer 2 demo_loop)" by code_simp+
  with timers_fire_rightly [OF demo_loop_reachable] show ?thesis by (meson ls_finish r_into_rtranclp)
qed

theorem timer_never_missed_witness:
  "2 \<in> set (lp_expired (begin_expired 5000 (finish_expired 2000 demo_loop)))
   \<and> fst (getPollTimeoutMs 2000 (finish_expired 2000 demo_loop)) \<le> 3000"
proof -
  let ?lp = "finish_expired 2000 demo_loop"
  have lp: "lp_started demo_loop" "lp_expired ?lp = []" "2 \<in> lp_map ?lp" "expire_ms ?lp 2 = 5000" by code_simp+
  have "loop_reachable ?lp" by (rule lr_step [OF demo_loop_reachable ls_finish [OF lp(1)]])
  note T = timer_never_missed [OF this lp(2,3)]
  from T [of 5000] T [of 2000] show ?thesis by (simp add: lp(4))
qed

end
