(* ===== verification/Metrics.thy ===== *)
theory Metrics
  imports Prelude
begin

text \<open>
  \<^verbatim>\<open>server/src/ServerMetrics.cpp\<close> and \<^verbatim>\<open>MetricCounter.cpp\<close>: the counters of the network server. Counters and
  gauges are 64-bit words that wrap; a gauge is read as a signed number. Each operation on a
  counter is atomic, so that increments of different threads commute.
\<close>

datatype CloseReason = PeerClosed | IdleTimeout | EpollError | ReadError | WriteError | ForceShutdown

record ServerMetrics =
  sm_total_connections_accepted :: u64
  sm_current_connections :: u64
  sm_total_connections_closed :: u64
  sm_close_by_peer :: u64
  sm_close_by_idle_timeout :: u64
  sm_close_by_epoll_error :: u64
  sm_close_by_read_error :: u64
  sm_close_by_write_error :: u64
  sm_close_by_shutdown_force :: u64
  sm_messages_received :: u64
  sm_messages_decoded_ok :: u64
  sm_messages_decoded_invalid :: u64
  sm_responses_sent :: u64
  sm_heartbeat_requests :: u64
  sm_heartbeat_responses :: u64
  sm_bytes_received :: u64
  sm_bytes_sent :: u64
  sm_worker_tasks_submitted :: u64
  sm_worker_tasks_rejected :: u64
  sm_worker_tasks_completed :: u64
  sm_worker_tasks_inflight :: u64
  sm_business_latency_us_total :: u64
  sm_business_latency_us_max :: u64

definition new_metrics :: ServerMetrics where
  "new_metrics =
     \<lparr>sm_total_connections_accepted = 0, sm_current_connections = 0, sm_total_connections_closed = 0,
      sm_close_by_peer = 0, sm_close_by_idle_timeout = 0, sm_close_by_epoll_error = 0, sm_close_by_read_error = 0,
      sm_close_by_write_error = 0, sm_close_by_shutdown_force = 0, sm_messages_received = 0, sm_messages_decoded_ok = 0,
      sm_messages_decoded_invalid = 0, sm_responses_sent = 0, sm_heartbeat_requests = 0, sm_heartbeat_responses = 0,
      sm_bytes_received = 0, sm_bytes_sent = 0, sm_worker_tasks_submitted = 0, sm_worker_tasks_rejected = 0,
      sm_worker_tasks_completed = 0, sm_worker_tasks_inflight = 0, sm_business_latency_us_total = 0,
      sm_business_latency_us_max = 0\<rparr>"

section \<open>Counters and gauges\<close>

definition counter_inc :: "u64 \<Rightarrow> u64" where
  "counter_inc v = v + 1"

definition counter_add :: "u64 \<Rightarrow> u64 \<Rightarrow> u64" where
  "counter_add n v = v + n"

definition gauge_inc :: "u64 \<Rightarrow> u64" where
  "gauge_inc v = v + 1"

definition gauge_dec :: "u64 \<Rightarrow> u64" where
  "gauge_dec v = v - 1"

definition gauge_load :: "u64 \<Rightarrow> int" where
  "gauge_load v = sint v"

text \<open>
  The loop of \<^verbatim>\<open>updateMax\<close> with what other threads do to the counter: each element of the list is
  the value found by one more exchange that fails, since another thread (or nothing, when the
  exchange fails without reason) came first. When the list is used up the exchange succeeds.
\<close>

fun updateMax :: "u64 \<Rightarrow> u64 \<Rightarrow> u64 list \<Rightarrow> u64" where
  "updateMax v seen [] = (if seen < v then v else seen)"
| "updateMax v seen (found # rest) = (if seen < v then updateMax v found rest else seen)"

lemma updateMax_ge: "v \<le> updateMax v seen found"
  by (induction v seen found rule: updateMax.induct) auto

section \<open>Events\<close>

definition onConnectionAccepted :: "ServerMetrics \<Rightarrow> ServerMetrics" where
  "onConnectionAccepted m =
     m\<lparr>sm_total_connections_accepted := counter_inc (sm_total_connections_accepted m),
       sm_current_connections := gauge_inc (sm_current_connections m)\<rparr>"

definition onConnectionClosed :: "CloseReason \<Rightarrow> ServerMetrics \<Rightarrow> ServerMetrics" where
  "onConnectionClosed reason m =
     (let m1 = m\<lparr>sm_total_connections_closed := counter_inc (sm_total_connections_closed m),
                 sm_current_connections := gauge_dec (sm_current_connections m)\<rparr> in
      case reason of
        PeerClosed \<Rightarrow> m1\<lparr>sm_close_by_peer := counter_inc (sm_close_by_peer m1)\<rparr>
      | IdleTimeout \<Rightarrow> m1\<lparr>sm_close_by_idle_timeout := counter_inc (sm_close_by_idle_timeout m1)\<rparr>
      | EpollError \<Rightarrow> m1\<lparr>sm_close_by_epoll_error := counter_inc (sm_close_by_epoll_error m1)\<rparr>
      | ReadError \<Rightarrow> m1\<lparr>sm_close_by_read_error := counter_inc (sm_close_by_read_error m1)\<rparr>
      | WriteError \<Rightarrow> m1\<lparr>sm_close_by_write_error := counter_inc (sm_close_by_write_error m1)\<rparr>
      | ForceShutdown \<Rightarrow> m1\<lparr>sm_close_by_shutdown_force := counter_inc (sm_close_by_shutdown_force m1)\<rparr>)"

definition onBytesReceived :: "u64 \<Rightarrow> ServerMetrics \<Rightarrow> ServerMetrics" where
  "onBytesReceived n m = m\<lparr>sm_bytes_received := counter_add n (sm_bytes_received m)\<rparr>"

definition onBytesSent :: "u64 \<Rightarrow> ServerMetrics \<Rightarrow> ServerMetrics" where
  "onBytesSent n m = m\<lparr>sm_bytes_sent := counter_add n (sm_bytes_sent m)\<rparr>"

definition onMessageDecodedOk :: "ServerMetrics \<Rightarrow> ServerMetrics" where
  "onMessageDecodedOk m = m\<lparr>sm_messages_decoded_ok := counter_inc (sm_messages_decoded_ok m)\<rparr>"

definition onMessageDecodedInvalid :: "ServerMetrics \<Rightarrow> ServerMetrics" where
  "onMessageDecodedInvalid m = m\<lparr>sm_messages_decoded_invalid := counter_inc (sm_messages_decoded_invalid m)\<rparr>"

definition onMessageReceived :: "bool \<Rightarrow> ServerMetrics \<Rightarrow> ServerMetrics" where
  "onMessageReceived heartbeat m =
     (let m1 = m\<lparr>sm_messages_received := counter_inc (sm_messages_received m)\<rparr> in
      if heartbeat then m1\<lparr>sm_heartbeat_requests := counter_inc (sm_heartbeat_requests m1)\<rparr> else m1)"

definition onResponseSent :: "bool \<Rightarrow> ServerMetrics \<Rightarrow> ServerMetrics" where
  "onResponseSent heartbeat m =
     (let m1 = m\<lparr>sm_responses_sent := counter_inc (sm_responses_sent m)\<rparr> in
      if heartbeat then m1\<lparr>sm_heartbeat_responses := counter_inc (sm_heartbeat_responses m1)\<rparr> else m1)"

definition onWorkerTaskSubmitted :: "ServerMetrics \<Rightarrow> ServerMetrics" where
  "onWorkerTaskSubmitted m =
     m\<lparr>sm_worker_tasks_submitted := counter_inc (sm_worker_tasks_submitted m),
       sm_worker_tasks_inflight := gauge_inc (sm_worker_tasks_inflight m)\<rparr>"

definition onWorkerTaskRejected :: "ServerMetrics \<Rightarrow> ServerMetrics" where
  "onWorkerTaskRejected m = m\<lparr>sm_worker_tasks_rejected := counter_inc (sm_worker_tasks_rejected m)\<rparr>"

definition onWorkerTaskCompleted :: "u64 \<Rightarrow> u64 list \<Rightarrow> ServerMetrics \<Rightarrow> ServerMetrics" where
  "onWorkerTaskCompleted cost others m =
     m\<lparr>sm_worker_tasks_completed := counter_inc (sm_worker_tasks_completed m),
       sm_worker_tasks_inflight := gauge_dec (sm_worker_tasks_inflight m),
       sm_business_latency_us_total := counter_add cost (sm_business_latency_us_total m),
       sm_business_latency_us_max := updateMax cost (sm_business_latency_us_max m) others\<rparr>"

section \<open>Connections counted\<close>

definition closes_by_reason :: "ServerMetrics \<Rightarrow> u64" where
  "closes_by_reason m = sm_close_by_peer m + sm_close_by_idle_timeout m + sm_close_by_epoll_error m
     + sm_close_by_read_error m + sm_close_by_write_error m + sm_close_by_shutdown_force m"

text \<open>What the metrics say of connections: accepted, closed, closed for some reason, open.\<close>

definition connection_counts :: "ServerMetrics \<Rightarrow> u64 \<times> u64 \<times> u64 \<times> u64" where
  "connection_counts m =
     (sm_total_connections_accepted m, sm_total_connections_closed m, closes_by_reason m, sm_current_connections m)"

lemma counts_new: "connection_counts new_metrics = (0, 0, 0, 0)"
  by (simp add: connection_counts_def closes_by_reason_def new_metrics_def)

lemma counts_accepted:
  "connection_counts m = (a, c, r, k) \<Longrightarrow> connection_counts (onConnectionAccepted m) = (a + 1, c, r, k + 1)"
  by (auto simp: connection_counts_def closes_by_reason_def onConnectionAccepted_def counter_inc_def gauge_inc_def)

lemma counts_closed:
  "connection_counts m = (a, c, r, k) \<Longrightarrow> connection_counts (onConnectionClosed reason m) = (a, c + 1, r + 1, k - 1)"
  by (cases reason)
     (auto simp: connection_counts_def closes_by_reason_def onConnectionClosed_def counter_inc_def gauge_dec_def ac_simps)

lemma counts_other [simp]:
  "connection_counts (onBytesReceived n m) = connection_counts m"
  "connection_counts (onBytesSent n m) = connection_counts m"
  "connection_counts (onMessageDecodedOk m) = connection_counts m"
  "connection_counts (onMessageReceived b m) = connection_counts m"
  "connection_counts (onResponseSent b m) = connection_counts m"
  "connection_counts (onWorkerTaskSubmitted m) = connection_counts m"
  "connection_counts (onWorkerTaskRejected m) = connection_counts m"
  "connection_counts (onWorkerTaskCompleted cost others m) = connection_counts m"
  by (simp_all add: connection_counts_def closes_by_reason_def onBytesReceived_def onBytesSent_def onMessageDecodedOk_def
      onMessageReceived_def onResponseSent_def onWorkerTaskSubmitted_def onWorkerTaskRejected_def onWorkerTaskCompleted_def
      Let_def)

lemma counts_funpow [simp]:
  "(\<And>m. connection_counts (f m) = connection_counts m) \<Longrightarrow> connection_counts ((f ^^ n) m) = connection_counts m"
  by (induction n) auto

end
