(* ===== verification/Transport.thy ===== *)
theory Transport
  imports Connection Metrics
begin

text \<open>
  \<^verbatim>\<open>server/src/EchoServer.cpp\<close>: the transport around the connections. Work is passed between threads
  as functions queued in event loops; each kind of function is a constructor of \<open>job\<close>, and a loop
  runs its functions in the order they were queued. Loop 0 is the main loop, which accepts and
  shuts down; every connection belongs to one loop. The callbacks made to the server above are
  recorded. The thread pool answers whether it takes a task; logging is left out.
\<close>

unbundle bit_operations_syntax

section \<open>State\<close>

type_synonym conn_ref = nat
type_synonym descriptor = nat
type_synonym loop_ref = nat

datatype job =
    J_accept descriptor
  | J_remove conn_ref CloseReason
  | J_update conn_ref
  | J_drained conn_ref
  | J_idle conn_ref u64
  | J_shutdown conn_ref
  | J_packet conn_ref string
  | J_response conn_ref string
  | J_finish

record socket =
  so_fd :: descriptor
  so_loop :: loop_ref
  so_conn :: Connection

text \<open>
  The connection objects in the order they were made, \<^verbatim>\<open>connections_\<close> by descriptor, the descriptors
  watched with their event masks, the queued functions, whether protocol callbacks are set, and the
  flags; \<open>tr_opened\<close> and \<open>tr_closed\<close> are the callbacks made.
\<close>

record transport =
  tr_sockets :: "socket list"
  tr_connections :: "(descriptor \<times> conn_ref) list"
  tr_watched :: "(descriptor \<times> u32) list"
  tr_jobs :: "(loop_ref \<times> job) list"
  tr_protocol :: bool
  tr_stopping :: bool
  tr_pending_accepts :: nat
  tr_shutdown_timer :: bool
  tr_quit :: bool
  tr_metrics :: ServerMetrics
  tr_opened :: "conn_ref list"
  tr_closed :: "conn_ref list"

definition new_transport :: "bool \<Rightarrow> transport" where
  "new_transport protocol = \<lparr>tr_sockets = [], tr_connections = [], tr_watched = [], tr_jobs = [], tr_protocol = protocol,
     tr_stopping = False, tr_pending_accepts = 0, tr_shutdown_timer = False, tr_quit = False, tr_metrics = new_metrics,
     tr_opened = [], tr_closed = []\<rparr>"

definition EPOLLIN :: u32 where "EPOLLIN = 1"

definition EPOLLOUT :: u32 where "EPOLLOUT = 4"

definition EPOLLERR :: u32 where "EPOLLERR = 8"

definition EPOLLHUP :: u32 where "EPOLLHUP = 16"

definition EPOLLRDHUP :: u32 where "EPOLLRDHUP = 0x2000"

definition idle_timeout_ms :: u64 where "idle_timeout_ms = 60000"

definition fd_of :: "transport \<Rightarrow> conn_ref \<Rightarrow> descriptor" where
  "fd_of s c = so_fd (tr_sockets s ! c)"

definition ownerLoop :: "transport \<Rightarrow> conn_ref \<Rightarrow> loop_ref" where
  "ownerLoop s c = so_loop (tr_sockets s ! c)"

definition conn_of :: "transport \<Rightarrow> conn_ref \<Rightarrow> Connection" where
  "conn_of s c = so_conn (tr_sockets s ! c)"

definition set_conn :: "conn_ref \<Rightarrow> Connection \<Rightarrow> transport \<Rightarrow> transport" where
  "set_conn c conn s = s\<lparr>tr_sockets := (tr_sockets s)[c := (tr_sockets s ! c)\<lparr>so_conn := conn\<rparr>]\<rparr>"

definition on_metrics :: "(ServerMetrics \<Rightarrow> ServerMetrics) \<Rightarrow> transport \<Rightarrow> transport" where
  "on_metrics f s = s\<lparr>tr_metrics := f (tr_metrics s)\<rparr>"

text \<open>The main loop takes no functions once it has quit; the loops of the pool quit with the object.\<close>

definition queue_job :: "loop_ref \<Rightarrow> job \<Rightarrow> transport \<Rightarrow> transport" where
  "queue_job l j s = (if l = 0 \<and> tr_quit s then s else s\<lparr>tr_jobs := tr_jobs s @ [(l, j)]\<rparr>)"

section \<open>Closing\<close>

definition removeConnection :: "conn_ref \<Rightarrow> CloseReason \<Rightarrow> transport \<Rightarrow> transport" where
  "removeConnection c reason s = queue_job (ownerLoop s c) (J_remove c reason) s"

definition tryFinishShutdown :: "loop_ref \<Rightarrow> transport \<Rightarrow> transport" where
  "tryFinishShutdown l s =
     (if l \<noteq> 0 then queue_job 0 J_finish s
      else if tr_stopping s \<and> tr_pending_accepts s = 0 \<and> tr_connections s = []
      then s\<lparr>tr_shutdown_timer := False, tr_quit := True\<rparr>
      else s)"

definition run_remove :: "loop_ref \<Rightarrow> conn_ref \<Rightarrow> CloseReason \<Rightarrow> transport \<Rightarrow> transport" where
  "run_remove l c reason s =
     (let fd = fd_of s c in
      if map_of (tr_connections s) fd \<noteq> Some c then s
      else
        (let s1 = s\<lparr>tr_connections := AList.delete fd (tr_connections s)\<rparr>;
             s2 = set_conn c (setState Disconnected (conn_of s1 c)) s1;
             s3 = s2\<lparr>tr_watched := AList.delete fd (tr_watched s2), tr_closed := tr_closed s2 @ [c]\<rparr> in
         tryFinishShutdown l (on_metrics (onConnectionClosed reason) s3)))"

definition updateConnectionEvent :: "loop_ref \<Rightarrow> conn_ref \<Rightarrow> transport \<Rightarrow> transport" where
  "updateConnectionEvent l c s =
     (if l \<noteq> ownerLoop s c then queue_job (ownerLoop s c) (J_update c) s
      else if map_of (tr_connections s) (fd_of s c) \<noteq> Some c then s
      else
        (let events = EPOLLRDHUP OR (if \<not> tr_stopping s \<and> isConnected (conn_of s c) then EPOLLIN else 0)
                      OR (if wantWrite (conn_of s c) then EPOLLOUT else 0) in
         s\<lparr>tr_watched := AList.update (fd_of s c) events (tr_watched s)\<rparr>))"

definition close_if :: "bool \<Rightarrow> conn_ref \<Rightarrow> CloseReason \<Rightarrow> transport \<Rightarrow> transport" where
  "close_if b c reason s = (if b then removeConnection c reason s else s)"

definition run_shutdown :: "loop_ref \<Rightarrow> conn_ref \<Rightarrow> CloseReason \<Rightarrow> transport \<Rightarrow> transport" where
  "run_shutdown l c reason s =
     (let s1 = updateConnectionEvent l c (set_conn c (conn_shutdown (conn_of s c)) s) in
      close_if (canBeClosed (conn_of s1 c)) c reason s1)"

definition run_idle :: "loop_ref \<Rightarrow> conn_ref \<Rightarrow> u64 \<Rightarrow> transport \<Rightarrow> transport" where
  "run_idle l c now s =
     (let conn = conn_of s c in
      if isDisconnected conn then removeConnection c IdleTimeout s
      else if cn_last_active_ms conn \<le> now \<and> idle_timeout_ms < now - cn_last_active_ms conn
      then run_shutdown l c IdleTimeout s
      else s)"

definition run_drained :: "conn_ref \<Rightarrow> transport \<Rightarrow> transport" where
  "run_drained c s =
     (if isDisconnected (conn_of s c) then removeConnection c ReadError s
      else close_if (canBeClosed (conn_of s c)) c PeerClosed s)"

section \<open>Sending\<close>

definition write_ready :: "loop_ref \<Rightarrow> conn_ref \<Rightarrow> transport \<Rightarrow> transport" where
  "write_ready l c s =
     (if isDisconnected (conn_of s c) then removeConnection c WriteError s else updateConnectionEvent l c s)"

definition send_packet :: "conn_ref \<Rightarrow> string \<Rightarrow> transport \<Rightarrow> transport" where
  "send_packet c packet s =
     (case sendPacket (\<not> (ownerLoop s c = 0 \<and> tr_quit s)) packet (conn_of s c) of
        (queued, conn) \<Rightarrow>
          (if queued then queue_job (ownerLoop s c) (J_packet c packet) (set_conn c conn s) else set_conn c conn s))"

definition run_packet :: "loop_ref \<Rightarrow> conn_ref \<Rightarrow> string \<Rightarrow> transport \<Rightarrow> transport" where
  "run_packet l c packet s =
     (if isDisconnected (conn_of s c) then set_conn c (packet_in_loop packet (conn_of s c)) s
      else write_ready l c (set_conn c (packet_in_loop packet (conn_of s c)) s))"

text \<open>Without protocol callbacks a message is answered by the echo handler, on the thread pool.\<close>

definition EchoHandler_onMessage :: "string \<Rightarrow> string" where
  "EchoHandler_onMessage msg = (if msg = ''__ping__'' then ''__pong__'' else msg)"

definition echo_sink :: "bool \<Rightarrow> string \<Rightarrow> Connection \<Rightarrow> Connection" where
  "echo_sink accepting msg c = (if accepting then c else decPendingTasks c)"

definition echo_task :: "conn_ref \<Rightarrow> string \<Rightarrow> u64 \<Rightarrow> u64 list \<Rightarrow> transport \<Rightarrow> transport" where
  "echo_task c msg cost others s =
     (case MessageCodec_encode (EchoHandler_onMessage msg) of
        Inl _ \<Rightarrow> s
      | Inr packet \<Rightarrow>
          queue_job (ownerLoop s c) (J_response c packet)
            (on_metrics (onWorkerTaskCompleted cost others) (on_metrics (onResponseSent (msg = ''__ping__'')) s)))"

definition run_response :: "loop_ref \<Rightarrow> conn_ref \<Rightarrow> string \<Rightarrow> transport \<Rightarrow> transport" where
  "run_response l c packet s =
     (let s1 = (if map_of (tr_connections s) (fd_of s c) \<noteq> Some c then s
                else if isDisconnected (conn_of s c) then s
                else if \<not> isConnected (conn_of s c) \<and> \<not> isDisconnecting (conn_of s c) then s
                else
                  (let s2 = updateConnectionEvent l c (send_packet c packet s) in
                   close_if (canBeClosed (conn_of s2 c)) c PeerClosed s2)) in
      set_conn c (decPendingTasks (conn_of s1 c)) s1)"

section \<open>Accepting\<close>

text \<open>A descriptor accepted in the main loop; \<open>l\<close> is the loop chosen for it.\<close>

definition handleNewConnection :: "loop_ref \<Rightarrow> descriptor \<Rightarrow> transport \<Rightarrow> transport" where
  "handleNewConnection l fd s =
     (if tr_stopping s then s
      else queue_job l (J_accept fd) (s\<lparr>tr_pending_accepts := tr_pending_accepts s + 1\<rparr>))"

text \<open>The connection made, when \<open>stopping\<close> was read as false; and the whole function.\<close>

definition open_connection :: "u64 \<Rightarrow> loop_ref \<Rightarrow> descriptor \<Rightarrow> transport \<Rightarrow> transport" where
  "open_connection now l fd s =
     (let c = length (tr_sockets s);
          s1 = s\<lparr>tr_sockets := tr_sockets s @ [\<lparr>so_fd = fd, so_loop = l, so_conn = new_connection now\<rparr>],
                 tr_connections := (if map_of (tr_connections s) fd = None then AList.update fd c (tr_connections s)
                                    else tr_connections s)\<rparr>;
          s2 = on_metrics onConnectionAccepted s1 in
      s2\<lparr>tr_opened := tr_opened s2 @ [c], tr_watched := AList.update fd (EPOLLIN OR EPOLLRDHUP) (tr_watched s2)\<rparr>)"

definition run_accept :: "bool \<Rightarrow> u64 \<Rightarrow> loop_ref \<Rightarrow> descriptor \<Rightarrow> transport \<Rightarrow> transport" where
  "run_accept stopping now l fd s =
     (let s1 = (if stopping then s else open_connection now l fd s) in
      tryFinishShutdown l (s1\<lparr>tr_pending_accepts := tr_pending_accepts s1 - 1\<rparr>))"

section \<open>Events\<close>

text \<open>
  Events of a descriptor, in the loop of its connection; the kernel's answers to \<^verbatim>\<open>recv\<close> and \<^verbatim>\<open>send\<close>
  are scripts, \<open>accepting\<close> says whether the thread pool takes tasks. A message that \<^verbatim>\<open>onMessage\<close>
  refuses disconnects and asks for the removal while the turn of reading goes on to its end.
\<close>

definition read_metrics :: "ReadResult \<Rightarrow> ServerMetrics \<Rightarrow> ServerMetrics" where
  "read_metrics rr m =
     (onMessageReceived False ^^ (rr_messages_decoded rr - rr_heartbeat_messages rr))
       ((onMessageReceived True ^^ rr_heartbeat_messages rr)
          ((onMessageDecodedOk ^^ rr_messages_decoded rr) (onBytesReceived (of_nat (rr_bytes_received rr)) m)))"

definition echo_metrics :: "bool \<Rightarrow> nat \<Rightarrow> ServerMetrics \<Rightarrow> ServerMetrics" where
  "echo_metrics accepting n = ((if accepting then onWorkerTaskSubmitted else onWorkerTaskRejected) ^^ n)"

text \<open>\<open>Inl\<close>: the function returns; \<open>Inr\<close>: it goes on.\<close>

definition read_event :: "bool \<Rightarrow> u64 \<Rightarrow> recv_event list \<Rightarrow> conn_ref \<Rightarrow> transport \<Rightarrow> transport + transport" where
  "read_event accepting now evs c s =
     (case handleRead (Some (if tr_protocol s then server_sink accepting else echo_sink accepting)) now evs (conn_of s c) of
        (rr, _, conn) \<Rightarrow>
          (let s0 = set_conn c conn s;
               s1 = (if tr_protocol s then s0 else on_metrics (echo_metrics accepting (rr_messages_decoded rr)) s0);
               s2 = close_if (tr_protocol s \<and> rr_ok rr \<and> isDisconnected conn) c ReadError s1;
               s3 = on_metrics (read_metrics rr) s2 in
           if rr_peer_close rr \<and> canBeClosed conn then Inl (removeConnection c PeerClosed s3)
           else if rr_decode_error rr then Inl (removeConnection c ReadError s3)
           else if \<not> rr_ok rr then Inl (removeConnection c ReadError s3)
           else Inr s3))"

definition write_event :: "u64 \<Rightarrow> send_event list \<Rightarrow> conn_ref \<Rightarrow> transport \<Rightarrow> transport + transport" where
  "write_event now sends c s =
     (case handleWrite now sends (conn_of s c) of
        (wr, _, _, conn) \<Rightarrow>
          (let s1 = on_metrics (onBytesSent (of_nat (wr_bytes_sent wr))) (set_conn c conn s) in
           if \<not> wr_ok wr then Inl (removeConnection c WriteError s1)
           else if wr_close wr then Inl (removeConnection c PeerClosed s1)
           else Inr s1))"

definition handleClientEvent ::
  "bool \<Rightarrow> u64 \<Rightarrow> recv_event list \<Rightarrow> send_event list \<Rightarrow> loop_ref \<Rightarrow> conn_ref \<Rightarrow> u32 \<Rightarrow> transport \<Rightarrow> transport" where
  "handleClientEvent accepting now evs sends l c events s =
     (if map_of (tr_connections s) (fd_of s c) = None then s
      else if isDisconnected (conn_of s c) then removeConnection c PeerClosed s
      else if events AND (EPOLLERR OR EPOLLHUP) \<noteq> 0 then removeConnection c EpollError s
      else
        (case (if events AND (EPOLLIN OR EPOLLRDHUP) \<noteq> 0 then read_event accepting now evs c s else Inr s) of
           Inl s1 \<Rightarrow> s1
         | Inr s1 \<Rightarrow>
             (case (if events AND EPOLLOUT \<noteq> 0 then write_event now sends c s1 else Inr s1) of
                Inl s2 \<Rightarrow> s2
              | Inr s2 \<Rightarrow> updateConnectionEvent l c s2)))"

section \<open>Shutdown\<close>

definition connectionSnapshot :: "transport \<Rightarrow> conn_ref list" where
  "connectionSnapshot s = map snd (tr_connections s)"

definition beginShutdown :: "transport \<Rightarrow> transport" where
  "beginShutdown s =
     (if tr_stopping s then s
      else
        (let s1 = s\<lparr>tr_stopping := True\<rparr>;
             s2 = fold (\<lambda>c s. queue_job (ownerLoop s c) (J_shutdown c) s) (connectionSnapshot s1) s1 in
         tryFinishShutdown 0 (s2\<lparr>tr_shutdown_timer := True\<rparr>)))"

text \<open>The timer of the shutdown, and the check for idle connections every five seconds.\<close>

definition force_close :: "transport \<Rightarrow> transport" where
  "force_close s = fold (\<lambda>c. removeConnection c ForceShutdown) (connectionSnapshot s) s"

definition check_idle :: "u64 \<Rightarrow> transport \<Rightarrow> transport" where
  "check_idle now s = fold (\<lambda>c s. queue_job (ownerLoop s c) (J_idle c now) s) (connectionSnapshot s) s"

text \<open>A loop runs one function.\<close>

fun run_job :: "u64 \<Rightarrow> loop_ref \<Rightarrow> job \<Rightarrow> transport \<Rightarrow> transport" where
  "run_job now l (J_accept fd) s = run_accept (tr_stopping s) now l fd s"
| "run_job now l (J_remove c reason) s = run_remove l c reason s"
| "run_job now l (J_update c) s = updateConnectionEvent l c s"
| "run_job now l (J_drained c) s = run_drained c s"
| "run_job now l (J_idle c t) s = run_idle l c t s"
| "run_job now l (J_shutdown c) s = run_shutdown l c PeerClosed s"
| "run_job now l (J_packet c packet) s = run_packet l c packet s"
| "run_job now l (J_response c packet) s = run_response l c packet s"
| "run_job now l J_finish s = tryFinishShutdown l s"

definition first_job :: "loop_ref \<Rightarrow> transport \<Rightarrow> job option" where
  "first_job l s = map_option snd (find (\<lambda>p. fst p = l) (tr_jobs s))"

definition run_first :: "u64 \<Rightarrow> loop_ref \<Rightarrow> transport \<Rightarrow> transport" where
  "run_first now l s =
     (case first_job l s of
        None \<Rightarrow> s
      | Some j \<Rightarrow> run_job now l j (s\<lparr>tr_jobs := remove1 (l, j) (tr_jobs s)\<rparr>))"

end
