(* ===== verification/TransportFacts.thy ===== *)
theory TransportFacts
  imports Transport
begin

text \<open>
  What holds of the transport under every interleaving: the callbacks of a connection come in
  pairs, the metrics of connections are exact, and a shutdown ends with the main loop quitting
  after the last connection was closed.
\<close>

section \<open>Runs\<close>

definition accept_fds :: "(loop_ref \<times> job) list \<Rightarrow> descriptor list" where
  "accept_fds jobs = List.map_filter (\<lambda>(l, j). case j of J_accept fd \<Rightarrow> Some fd | _ \<Rightarrow> None) jobs"

text \<open>
  Any thread may ask for the removal of a connection it holds, send to it, or change its state;
  the pool ends tasks. A descriptor that was just accepted is none of an open connection or of one
  waiting to be accepted. In a state that is reached, a function that accepts may also have read
  the flag before it was set and finish after (\<open>tr_late\<close>).
\<close>

inductive transport_step :: "transport \<Rightarrow> transport \<Rightarrow> bool" where
  ts_accept: "fd \<notin> set (accept_fds (tr_jobs s)) \<Longrightarrow> fd \<notin> fst ` set (tr_connections s) \<Longrightarrow>
     transport_step s (handleNewConnection l fd s)"
| ts_job: "transport_step s (run_first now l s)"
| ts_event: "c < length (tr_sockets s) \<Longrightarrow> l = ownerLoop s c \<Longrightarrow>
     transport_step s (handleClientEvent accepting now evs sends l c events s)"
| ts_remove: "c < length (tr_sockets s) \<Longrightarrow> transport_step s (removeConnection c reason s)"
| ts_conn: "c < length (tr_sockets s) \<Longrightarrow> transport_step s (set_conn c conn s)"
| ts_send: "c < length (tr_sockets s) \<Longrightarrow> transport_step s (send_packet c packet s)"
| ts_echo: "c < length (tr_sockets s) \<Longrightarrow> transport_step s (echo_task c msg cost others s)"
| ts_drained: "c < length (tr_sockets s) \<Longrightarrow> transport_step s (queue_job (ownerLoop s c) (J_drained c) s)"
| ts_idle: "transport_step s (check_idle now s)"
| ts_stop: "transport_step s (beginShutdown s)"
| ts_force: "tr_shutdown_timer s \<Longrightarrow> transport_step s (force_close s)"

inductive transport_reachable :: "transport \<Rightarrow> bool" where
  tr_new: "transport_reachable (new_transport protocol)"
| tr_step: "transport_reachable s \<Longrightarrow> transport_step s s' \<Longrightarrow> transport_reachable s'"
| tr_late: "transport_reachable s \<Longrightarrow> first_job l s = Some (J_accept fd) \<Longrightarrow>
     transport_reachable (run_accept False now l fd (s\<lparr>tr_jobs := remove1 (l, J_accept fd) (tr_jobs s)\<rparr>))"

section \<open>Operations that only queue\<close>

text \<open>The work a queued function can still cause, itself included.\<close>

fun job_weight :: "job \<Rightarrow> nat" where
  "job_weight (J_accept _) = 2"
| "job_weight (J_remove _ _) = 2"
| "job_weight (J_update _) = 1"
| "job_weight (J_drained _) = 3"
| "job_weight (J_idle _ _) = 3"
| "job_weight (J_shutdown _) = 3"
| "job_weight (J_packet _ _) = 3"
| "job_weight (J_response _ _) = 6"
| "job_weight J_finish = 1"

definition work :: "(loop_ref \<times> job) list \<Rightarrow> nat" where
  "work jobs = sum_list (map (job_weight \<circ> snd) jobs)"

fun job_conn :: "job \<Rightarrow> conn_ref option" where
  "job_conn (J_remove c _) = Some c"
| "job_conn (J_update c) = Some c"
| "job_conn (J_drained c) = Some c"
| "job_conn (J_idle c _) = Some c"
| "job_conn (J_shutdown c) = Some c"
| "job_conn (J_packet c _) = Some c"
| "job_conn (J_response c _) = Some c"
| "job_conn _ = None"

text \<open>A function about a connection is queued in the loop of the connection.\<close>

definition job_ok :: "transport \<Rightarrow> loop_ref \<times> job \<Rightarrow> bool" where
  "job_ok s p \<longleftrightarrow>
     (case job_conn (snd p) of Some c \<Rightarrow> c < length (tr_sockets s) \<and> ownerLoop s c = fst p | None \<Rightarrow> snd p = J_finish \<longrightarrow> fst p = 0)"

definition places :: "transport \<Rightarrow> (descriptor \<times> loop_ref) list" where
  "places s = map (\<lambda>so. (so_fd so, so_loop so)) (tr_sockets s)"

text \<open>What only \<^verbatim>\<open>run_remove\<close>, accepting and shutting down change.\<close>

definition core :: "transport \<Rightarrow> _" where
  "core s = (places s, tr_connections s, tr_stopping s, tr_pending_accepts s, tr_shutdown_timer s, tr_quit s,
     connection_counts (tr_metrics s), tr_opened s, tr_closed s)"

definition calm :: "nat \<Rightarrow> transport \<Rightarrow> transport \<Rightarrow> bool" where
  "calm n s s' \<longleftrightarrow> core s' = core s
     \<and> (\<exists>new. tr_jobs s' = tr_jobs s @ new \<and> work new \<le> n \<and> (\<forall>p \<in> set new. job_conn (snd p) \<noteq> None \<and> job_ok s p))"

lemma core_eqD:
  assumes "core s' = core s"
  shows "places s' = places s" "tr_connections s' = tr_connections s" "tr_stopping s' = tr_stopping s"
    "tr_pending_accepts s' = tr_pending_accepts s" "tr_shutdown_timer s' = tr_shutdown_timer s" "tr_quit s' = tr_quit s"
    "connection_counts (tr_metrics s') = connection_counts (tr_metrics s)" "tr_opened s' = tr_opened s" "tr_closed s' = tr_closed s"
  using assms by (simp_all add: core_def)

lemma places_length: "length (tr_sockets s) = length (places s)"
  by (simp add: places_def)

lemma places_at: "c < length (places s) \<Longrightarrow> fd_of s c = fst (places s ! c) \<and> ownerLoop s c = snd (places s ! c)"
  by (simp add: places_def fd_of_def ownerLoop_def)

lemma job_ok_places: "places s' = places s \<Longrightarrow> job_ok s' = job_ok s"
  by (auto simp: fun_eq_iff job_ok_def places_length places_at split: option.splits)

lemma work_append [simp]: "work (xs @ ys) = work xs + work ys"
  by (simp add: work_def)

lemma work_Cons [simp]: "work (p # xs) = job_weight (snd p) + work xs"
  by (simp add: work_def)

lemma work_Nil [simp]: "work [] = 0"
  by (simp add: work_def)

lemma calm_refl: "calm n s s"
  by (simp add: calm_def)

lemma calm_trans:
  assumes "calm m s s'" and "calm n s' s''"
  shows "calm (m + n) s s''"
proof -
  from assms obtain new new' where
    "core s' = core s" "core s'' = core s'" "tr_jobs s' = tr_jobs s @ new" "tr_jobs s'' = tr_jobs s' @ new'"
    "work new \<le> m" "work new' \<le> n" "\<forall>p \<in> set new. job_conn (snd p) \<noteq> None \<and> job_ok s p"
    "\<forall>p \<in> set new'. job_conn (snd p) \<noteq> None \<and> job_ok s' p"
    by (auto simp: calm_def)
  moreover from this have "job_ok s' = job_ok s" by (intro job_ok_places) (simp add: core_def)
  ultimately show ?thesis by (auto simp: calm_def intro!: exI [of _ "new @ new'"])
qed

lemma calm_zero: "calm 0 s s' \<Longrightarrow> calm n s' s'' \<Longrightarrow> calm n s s''"
  using calm_trans [of 0] by simp

lemma calm_le: "calm m s s' \<Longrightarrow> m \<le> n \<Longrightarrow> calm n s s'"
  by (auto simp: calm_def intro: order_trans)

lemma calm_length: "calm n s s' \<Longrightarrow> length (tr_sockets s') = length (tr_sockets s)"
  by (simp add: calm_def core_def places_length)

lemma calm_owner: "calm n s s' \<Longrightarrow> c < length (tr_sockets s) \<Longrightarrow> ownerLoop s' c = ownerLoop s c"
  by (simp add: calm_def core_def places_length places_at)

lemma calm_set_conn: "c < length (tr_sockets s) \<Longrightarrow> calm 0 s (set_conn c conn s)"
proof -
  assume c: "c < length (tr_sockets s)"
  have "places (set_conn c conn s) = places s"
    using c by (intro nth_equalityI) (auto simp: places_def set_conn_def nth_list_update)
  then show ?thesis by (simp add: calm_def core_def set_conn_def)
qed

lemma calm_metrics:
  "(\<And>m. connection_counts (f m) = connection_counts m) \<Longrightarrow> calm 0 s (on_metrics f s)"
  by (simp add: calm_def core_def on_metrics_def places_def)

lemma calm_queue:
  "c < length (tr_sockets s) \<Longrightarrow> job_conn j = Some c \<Longrightarrow> calm (job_weight j) s (queue_job (ownerLoop s c) j s)"
  by (auto simp: calm_def queue_job_def core_def places_def job_ok_def)

lemma calm_remove: "c < length (tr_sockets s) \<Longrightarrow> calm 2 s (removeConnection c reason s)"
  using calm_queue [of c s "J_remove c reason"] by (simp add: removeConnection_def)

lemma calm_watched: "calm 0 s (s\<lparr>tr_watched := w\<rparr>)"
  by (simp add: calm_def core_def places_def)

lemma calm_update:
  assumes "c < length (tr_sockets s)"
  shows "calm 1 s (updateConnectionEvent l c s)" and "l = ownerLoop s c \<Longrightarrow> calm 0 s (updateConnectionEvent l c s)"
  using calm_queue [OF assms, of "J_update c"] calm_refl calm_watched calm_le [OF calm_watched, of 1]
  by (auto simp: updateConnectionEvent_def Let_def)

lemma calm_close_if: "c < length (tr_sockets s) \<Longrightarrow> calm 2 s (close_if b c reason s)"
  by (simp add: close_if_def calm_remove calm_refl)


lemma calm_at:
  assumes "calm m s s'" and "c < length (tr_sockets s)"
  shows "c < length (tr_sockets s')" "ownerLoop s' c = ownerLoop s c"
  using assms calm_length calm_owner by auto

lemma calm_shutdown:
  assumes c: "c < length (tr_sockets s)" and l: "l = ownerLoop s c"
  shows "calm 2 s (run_shutdown l c reason s)"
proof -
  let ?s1 = "set_conn c (conn_shutdown (conn_of s c)) s"
  have a: "calm 0 s ?s1" by (rule calm_set_conn [OF c])
  have b: "calm 0 ?s1 (updateConnectionEvent l c ?s1)" using calm_at [OF a c] l by (simp add: calm_update(2))
  note ab = calm_zero [OF a b]
  from calm_zero [OF ab calm_close_if [OF calm_at(1) [OF ab c]]] show ?thesis by (simp add: run_shutdown_def Let_def)
qed

lemma calm_idle: "c < length (tr_sockets s) \<Longrightarrow> l = ownerLoop s c \<Longrightarrow> calm 2 s (run_idle l c now s)"
  by (simp add: run_idle_def Let_def calm_remove calm_shutdown calm_refl)

lemma calm_drained: "c < length (tr_sockets s) \<Longrightarrow> calm 2 s (run_drained c s)"
  by (simp add: run_drained_def calm_remove calm_close_if)

lemma calm_write_ready: "c < length (tr_sockets s) \<Longrightarrow> l = ownerLoop s c \<Longrightarrow> calm 2 s (write_ready l c s)"
  using calm_le [OF calm_update(2), of c s l 2] by (simp add: write_ready_def calm_remove)

lemma calm_send_packet:
  assumes c: "c < length (tr_sockets s)"
  shows "calm 3 s (send_packet c packet s)"
proof -
  obtain queued conn where send: "sendPacket (\<not> (ownerLoop s c = 0 \<and> tr_quit s)) packet (conn_of s c) = (queued, conn)"
    by (meson surj_pair)
  have a: "calm 0 s (set_conn c conn s)" by (rule calm_set_conn [OF c])
  have "calm 3 (set_conn c conn s) (queue_job (ownerLoop s c) (J_packet c packet) (set_conn c conn s))"
    using calm_queue [of c "set_conn c conn s" "J_packet c packet"] calm_at [OF a c] by simp
  from calm_zero [OF a this] calm_le [OF a, of 3] show ?thesis unfolding send_packet_def send by simp
qed

lemma calm_packet:
  assumes c: "c < length (tr_sockets s)" and l: "l = ownerLoop s c"
  shows "calm 2 s (run_packet l c packet s)"
proof -
  let ?s1 = "set_conn c (packet_in_loop packet (conn_of s c)) s"
  have a: "calm 0 s ?s1" by (rule calm_set_conn [OF c])
  have "calm 2 ?s1 (write_ready l c ?s1)" using calm_at [OF a c] l by (simp add: calm_write_ready)
  from calm_zero [OF a this] calm_le [OF a, of 2] show ?thesis by (simp add: run_packet_def)
qed

lemma calm_echo:
  assumes c: "c < length (tr_sockets s)"
  shows "calm 6 s (echo_task c msg cost others s)"
proof -
  let ?s1 = "on_metrics (onResponseSent (msg = ''__ping__'')) s"
  let ?s2 = "on_metrics (onWorkerTaskCompleted cost others) ?s1"
  have a: "calm (0 + 0) s ?s2" by (rule calm_trans [of 0 s ?s1]) (rule calm_metrics, simp)+
  have "calm 6 ?s2 (queue_job (ownerLoop s c) (J_response c packet) ?s2)" for packet
    using calm_queue [of c ?s2 "J_response c packet"] calm_at [OF a c] by simp
  from calm_trans [OF a this] calm_refl show ?thesis by (auto simp: echo_task_def split: sum.splits)
qed

lemma calm_response:
  assumes c: "c < length (tr_sockets s)" and l: "l = ownerLoop s c"
  shows "calm 5 s (run_response l c packet s)"
proof -
  let ?s1 = "send_packet c packet s"
  let ?s2 = "updateConnectionEvent l c ?s1"
  let ?s3 = "close_if (canBeClosed (conn_of ?s2 c)) c PeerClosed ?s2"
  have a: "calm 3 s ?s1" by (rule calm_send_packet [OF c])
  have b: "calm 0 ?s1 ?s2" using calm_at [OF a c] l by (simp add: calm_update(2))
  note ab = calm_trans [OF a b]
  have "calm 2 ?s2 ?s3" using calm_at [OF ab c] by (simp add: calm_close_if)
  from calm_trans [OF ab this] have sent: "calm 5 s ?s3" by simp
  have "calm 5 s (set_conn c (decPendingTasks (conn_of s4 c)) s4)" if "calm 5 s s4" for s4
    using calm_trans [OF that calm_set_conn [OF calm_at(1) [OF that c]]] by simp
  from this [OF sent] this [OF calm_refl] show ?thesis by (simp add: run_response_def Let_def)
qed

lemma counts_read [simp]: "connection_counts (read_metrics rr m) = connection_counts m"
  by (simp add: read_metrics_def)

lemma counts_echo [simp]: "connection_counts (echo_metrics accepting n m) = connection_counts m"
  by (simp add: echo_metrics_def)

lemma calm_read:
  assumes c: "c < length (tr_sockets s)"
  shows "read_event accepting now evs c s = Inl s' \<Longrightarrow> calm 4 s s'" and "read_event accepting now evs c s = Inr s' \<Longrightarrow> calm 2 s s'"
proof -
  obtain rr evs' conn where run: "handleRead (Some (if tr_protocol s then server_sink accepting else echo_sink accepting)) now evs (conn_of s c)
      = (rr, evs', conn)" by (metis prod_cases3)
  define s1 where "s1 = (if tr_protocol s then set_conn c conn s
      else on_metrics (echo_metrics accepting (rr_messages_decoded rr)) (set_conn c conn s))"
  define s2 where "s2 = close_if (tr_protocol s \<and> rr_ok rr \<and> isDisconnected conn) c ReadError s1"
  define s3 where "s3 = on_metrics (read_metrics rr) s2"
  have a: "calm 0 s (set_conn c conn s)" by (rule calm_set_conn [OF c])
  have b: "calm 0 (set_conn c conn s) s1" by (simp add: s1_def calm_refl calm_metrics)
  note ab = calm_zero [OF a b]
  have "calm 2 s1 s2" using calm_at [OF ab c] by (simp add: s2_def calm_close_if)
  from calm_zero [OF ab this] have "calm 2 s s2" .
  from calm_trans [OF this calm_metrics, of "read_metrics rr"] have s3: "calm 2 s s3" by (simp add: s3_def)
  have "calm 2 s3 (removeConnection c reason s3)" for reason using calm_at [OF s3 c] by (simp add: calm_remove)
  from calm_trans [OF s3 this] have removed: "calm 4 s (removeConnection c reason s3)" for reason by simp
  have "read_event accepting now evs c s =
      (if rr_peer_close rr \<and> canBeClosed conn then Inl (removeConnection c PeerClosed s3)
       else if rr_decode_error rr then Inl (removeConnection c ReadError s3)
       else if \<not> rr_ok rr then Inl (removeConnection c ReadError s3)
       else Inr s3)"
    by (simp only: read_event_def run prod.case Let_def s1_def s2_def s3_def)
  then show "read_event accepting now evs c s = Inl s' \<Longrightarrow> calm 4 s s'" "read_event accepting now evs c s = Inr s' \<Longrightarrow> calm 2 s s'"
    using s3 removed by (auto split: if_splits)
qed

lemma calm_write:
  assumes c: "c < length (tr_sockets s)"
  shows "write_event now sends c s = Inl s' \<Longrightarrow> calm 2 s s'" and "write_event now sends c s = Inr s' \<Longrightarrow> calm 0 s s'"
proof -
  obtain wr sent rest conn where run: "handleWrite now sends (conn_of s c) = (wr, sent, rest, conn)" by (metis prod_cases4)
  define s1 where "s1 = on_metrics (onBytesSent (of_nat (wr_bytes_sent wr))) (set_conn c conn s)"
  have a: "calm 0 s (set_conn c conn s)" by (rule calm_set_conn [OF c])
  from calm_trans [OF this calm_metrics, of "onBytesSent (of_nat (wr_bytes_sent wr))"] have s1: "calm 0 s s1" by (simp add: s1_def)
  have "calm 2 s1 (removeConnection c reason s1)" for reason using calm_at [OF s1 c] by (simp add: calm_remove)
  from calm_zero [OF s1 this] have removed: "calm 2 s (removeConnection c reason s1)" for reason .
  show "write_event now sends c s = Inl s' \<Longrightarrow> calm 2 s s'" "write_event now sends c s = Inr s' \<Longrightarrow> calm 0 s s'"
    using s1 removed by (auto simp: write_event_def run Let_def s1_def [symmetric] split: if_splits)
qed

lemma calm_event:
  assumes c: "c < length (tr_sockets s)" and l: "l = ownerLoop s c"
  shows "calm 4 s (handleClientEvent accepting now evs sends l c events s)"
proof -
  have finish: "calm 4 s (updateConnectionEvent l c s2)" if s2: "calm 2 s s2" for s2
  proof -
    have "calm 0 s2 (updateConnectionEvent l c s2)" using calm_at [OF s2 c] l by (simp add: calm_update(2))
    from calm_le [OF calm_trans [OF s2 this], of 4] show ?thesis by simp
  qed
  have wrote: "calm 4 s (case (if events AND EPOLLOUT \<noteq> 0 then write_event now sends c s1 else Inr s1) of
      Inl s2 \<Rightarrow> s2 | Inr s2 \<Rightarrow> updateConnectionEvent l c s2)" if s1: "calm 2 s s1" for s1
  proof (cases "write_event now sends c s1")
    case (Inl s2)
    then show ?thesis using calm_trans [OF s1 calm_write(1) [OF calm_at(1) [OF s1 c] Inl]] finish [OF s1] by simp
  next
    case (Inr s2)
    then show ?thesis using finish [of s2] calm_trans [OF s1 calm_write(2) [OF calm_at(1) [OF s1 c] Inr]] finish [OF s1] by simp
  qed
  show ?thesis
    unfolding handleClientEvent_def
    using wrote [OF calm_refl] wrote calm_read [OF c] calm_le [OF calm_remove [OF c], of 4] calm_refl
    by (auto split: sum.splits)
qed

lemma calm_fold:
  assumes "\<And>c s. c < length (tr_sockets s) \<Longrightarrow> calm n s (f c s)" and "\<forall>c \<in> set cs. c < length (tr_sockets s)"
  shows "calm (n * length cs) s (fold f cs s)"
  using assms(2)
proof (induction cs arbitrary: s)
  case (Cons c cs)
  from Cons.prems have step: "calm n s (f c s)" by (intro assms(1)) simp
  with Cons.prems calm_length [OF step] have "calm (n * length cs) (f c s) (fold f cs (f c s))" by (intro Cons.IH) simp
  from calm_trans [OF step this] show ?case by simp
qed (simp add: calm_refl)

section \<open>Invariant\<close>

text \<open>
  \<open>fds\<close> is the descriptor of an accepting function that is being run, if any.
\<close>

definition transport_pre :: "descriptor list \<Rightarrow> transport \<Rightarrow> bool" where
  "transport_pre fds s \<longleftrightarrow>
     distinct (fds @ accept_fds (tr_jobs s) @ map fst (tr_connections s))
     \<and> (\<forall>(fd, c) \<in> set (tr_connections s). c < length (tr_sockets s) \<and> fd_of s c = fd)
     \<and> tr_opened s = [0..<length (tr_sockets s)]
     \<and> distinct (tr_closed s @ connectionSnapshot s) \<and> set (tr_closed s @ connectionSnapshot s) = set (tr_opened s)
     \<and> tr_pending_accepts s = length fds + length (accept_fds (tr_jobs s))
     \<and> (\<forall>p \<in> set (tr_jobs s). job_ok s p)
     \<and> connection_counts (tr_metrics s)
         = (of_nat (length (tr_opened s)), of_nat (length (tr_closed s)), of_nat (length (tr_closed s)),
            of_nat (length (tr_connections s)))
     \<and> (tr_quit s \<longrightarrow> tr_stopping s \<and> tr_connections s = [] \<and> tr_pending_accepts s = 0)
     \<and> (tr_stopping s \<longrightarrow> \<not> tr_quit s \<longrightarrow> tr_shutdown_timer s)"

text \<open>While stopping, something is left that will look again whether all is done.\<close>

definition transport_alive :: "transport \<Rightarrow> bool" where
  "transport_alive s \<longleftrightarrow>
     (tr_stopping s \<longrightarrow> \<not> tr_quit s \<longrightarrow> tr_connections s \<noteq> [] \<or> 0 < tr_pending_accepts s \<or> (0, J_finish) \<in> set (tr_jobs s))"

definition transport_ok :: "transport \<Rightarrow> bool" where
  "transport_ok s \<longleftrightarrow> transport_pre [] s \<and> transport_alive s"

lemma accept_fds_simps [simp]:
  "accept_fds [] = []"
  "accept_fds (xs @ ys) = accept_fds xs @ accept_fds ys"
  "accept_fds ((l, J_accept fd) # jobs) = fd # accept_fds jobs"
  "job_conn (snd p) \<noteq> None \<Longrightarrow> accept_fds (p # jobs) = accept_fds jobs"
  "accept_fds ((l, J_finish) # jobs) = accept_fds jobs"
  by (auto simp: accept_fds_def map_filter_simps split: prod.splits job.splits option.splits)
     (induction xs; simp add: map_filter_simps split: option.splits)

lemma accept_fds_calm: "\<forall>p \<in> set jobs. job_conn (snd p) \<noteq> None \<Longrightarrow> accept_fds jobs = []"
  by (induction jobs) auto

lemma accept_fds_remove1: "p \<in> set jobs \<Longrightarrow> mset (accept_fds jobs) = mset (accept_fds [p]) + mset (accept_fds (remove1 p jobs))"
proof (induction jobs)
  case (Cons q jobs)
  have split: "accept_fds (x # xs) = accept_fds [x] @ accept_fds xs" for x xs using accept_fds_simps(2) [of "[x]" xs] by simp
  show ?case
  proof (cases "p = q")
    case False
    with Cons have "mset (accept_fds jobs) = mset (accept_fds [p]) + mset (accept_fds (remove1 p jobs))" by simp
    with False show ?thesis by (simp add: split [of q jobs] split [of q "remove1 p jobs"])
  qed (simp add: split [of q jobs])
qed simp

lemma pre_calm:
  assumes pre: "transport_pre fds s" and calm: "calm n s s'"
  shows "transport_pre fds s'"
proof -
  from calm obtain new where eq: "core s' = core s" and jobs: "tr_jobs s' = tr_jobs s @ new"
    and new: "\<forall>p \<in> set new. job_conn (snd p) \<noteq> None \<and> job_ok s p" by (auto simp: calm_def)
  note E = core_eqD [OF eq]
  have "job_ok s' = job_ok s" by (rule job_ok_places [OF E(1)])
  moreover have "length (tr_sockets s') = length (tr_sockets s)" "\<And>c. c < length (tr_sockets s) \<Longrightarrow> fd_of s' c = fd_of s c"
    using E(1) by (simp_all add: places_length places_at)
  moreover have "accept_fds new = []" using new by (simp add: accept_fds_calm)
  moreover have "connectionSnapshot s' = connectionSnapshot s" by (simp add: connectionSnapshot_def E)
  ultimately show ?thesis using pre new unfolding transport_pre_def E jobs by auto
qed

lemma alive_calm: "transport_alive s \<Longrightarrow> calm n s s' \<Longrightarrow> transport_alive s'"
  by (auto simp: transport_alive_def calm_def core_def)

lemma ok_calm: "transport_ok s \<Longrightarrow> calm n s s' \<Longrightarrow> transport_ok s'"
  using pre_calm alive_calm by (auto simp: transport_ok_def)

lemma pre_finish: "transport_pre [] s \<Longrightarrow> transport_ok (tryFinishShutdown l s)"
  by (auto simp: transport_ok_def transport_pre_def transport_alive_def tryFinishShutdown_def queue_job_def job_ok_def
      places_def fd_of_def ownerLoop_def connectionSnapshot_def split: option.splits)

text \<open>A function is taken from the queue.\<close>

lemma pre_drop:
  assumes "transport_pre [] s" and "(l, j) \<in> set (tr_jobs s)"
  shows "transport_pre (accept_fds [(l, j)]) (s\<lparr>tr_jobs := remove1 (l, j) (tr_jobs s)\<rparr>)"
proof -
  let ?s = "s\<lparr>tr_jobs := remove1 (l, j) (tr_jobs s)\<rparr>"
  have fds: "mset (accept_fds (tr_jobs s)) = mset (accept_fds [(l, j)] @ accept_fds (tr_jobs ?s))"
    using accept_fds_remove1 [OF assms(2)] by simp
  from mset_eq_length [OF this] have "length (accept_fds (tr_jobs s)) = length (accept_fds [(l, j)]) + length (accept_fds (tr_jobs ?s))"
    by simp
  moreover have "distinct (accept_fds [(l, j)] @ accept_fds (tr_jobs ?s) @ map fst (tr_connections s))"
    using assms(1) mset_eq_imp_distinct_iff [of "accept_fds (tr_jobs s) @ map fst (tr_connections s)"
        "accept_fds [(l, j)] @ accept_fds (tr_jobs ?s) @ map fst (tr_connections s)"] fds
    by (simp add: transport_pre_def)
  moreover have "job_ok ?s = job_ok s" by (rule job_ok_places) (simp add: places_def)
  moreover have "set (remove1 (l, j) (tr_jobs s)) \<subseteq> set (tr_jobs s)" by (rule set_remove1_subset)
  ultimately show ?thesis using assms(1) by (auto simp: transport_pre_def fd_of_def connectionSnapshot_def)
qed

lemma alive_drop:
  "transport_alive s \<Longrightarrow> j \<noteq> J_finish \<Longrightarrow> transport_alive (s\<lparr>tr_jobs := remove1 (l, j) (tr_jobs s)\<rparr>)"
  by (auto simp: transport_alive_def in_set_remove1)

lemma pre_discard: "transport_pre [fd] s \<Longrightarrow> transport_pre [] (s\<lparr>tr_pending_accepts := tr_pending_accepts s - 1\<rparr>)"
  by (auto simp: transport_pre_def fd_of_def connectionSnapshot_def job_ok_def ownerLoop_def split: option.splits)


lemma update_fresh: "k \<notin> fst ` set al \<Longrightarrow> AList.update k v al = al @ [(k, v)]"
  by (induction al) auto

text \<open>A connection is made, or taken out of the table.\<close>

lemma pre_open:
  assumes pre: "transport_pre [fd] s" and run: "\<not> tr_quit s"
  shows "transport_pre [] ((open_connection now l fd s)\<lparr>tr_pending_accepts := tr_pending_accepts s - 1\<rparr>)"
proof -
  let ?c = "length (tr_sockets s)" and ?s = "(open_connection now l fd s)\<lparr>tr_pending_accepts := tr_pending_accepts s - 1\<rparr>"
  from pre have fresh: "fd \<notin> fst ` set (tr_connections s)" by (auto simp: transport_pre_def)
  then have none: "map_of (tr_connections s) fd = None" by (simp add: map_of_eq_None_iff)
  have conns: "tr_connections ?s = tr_connections s @ [(fd, ?c)]"
    by (simp add: open_connection_def Let_def on_metrics_def none update_fresh [OF fresh])
  have socks: "tr_sockets ?s = tr_sockets s @ [\<lparr>so_fd = fd, so_loop = l, so_conn = new_connection now\<rparr>]"
    and rest: "tr_opened ?s = tr_opened s @ [?c]" "tr_closed ?s = tr_closed s" "tr_jobs ?s = tr_jobs s" "tr_stopping ?s = tr_stopping s"
      "tr_quit ?s = tr_quit s" "tr_shutdown_timer ?s = tr_shutdown_timer s" "tr_metrics ?s = onConnectionAccepted (tr_metrics s)"
      "tr_pending_accepts ?s = tr_pending_accepts s - 1"
    by (simp_all add: open_connection_def Let_def on_metrics_def)
  have jobs: "job_ok s p \<Longrightarrow> job_ok ?s p" for p
    unfolding job_ok_def ownerLoop_def socks by (auto simp: nth_append split: option.splits)
  have fds: "c < length (tr_sockets s) \<Longrightarrow> fd_of ?s c = fd_of s c" "fd_of ?s ?c = fd" for c
    unfolding fd_of_def socks by (simp_all add: nth_append)
  have snap: "connectionSnapshot ?s = connectionSnapshot s @ [?c]" unfolding connectionSnapshot_def conns by simp
  have counts: "connection_counts (tr_metrics ?s) = (of_nat (length (tr_opened ?s)), of_nat (length (tr_closed ?s)),
      of_nat (length (tr_closed ?s)), of_nat (length (tr_connections ?s)))"
    unfolding rest conns
    using pre counts_accepted [of "tr_metrics s"] by (auto simp: transport_pre_def add.commute)
  show ?thesis
    unfolding transport_pre_def counts
    unfolding snap conns rest socks
    using pre run jobs fds fresh by (auto simp: transport_pre_def)
qed


lemma delete_split:
  assumes "distinct (map fst al)" and "(k, v) \<in> set al"
  shows "mset al = add_mset (k, v) (mset (AList.delete k al))"
  using assms
proof (induction al)
  case (Cons p al)
  show ?case
  proof (cases "p = (k, v)")
    case True
    with Cons.prems have "AList.delete k al = al" by (intro delete_id) auto
    with True show ?thesis by simp
  qed (use Cons in \<open>auto simp: image_iff\<close>)
qed simp

lemma pre_removed:
  assumes pre: "transport_pre [] s" and mem: "(fd, c) \<in> set (tr_connections s)"
    and eqs: "tr_opened s1 = tr_opened s" "tr_closed s1 = tr_closed s @ [c]" "tr_jobs s1 = tr_jobs s" "tr_stopping s1 = tr_stopping s"
      "tr_quit s1 = tr_quit s" "tr_shutdown_timer s1 = tr_shutdown_timer s" "tr_metrics s1 = onConnectionClosed reason (tr_metrics s)"
      "tr_pending_accepts s1 = tr_pending_accepts s" "tr_sockets s1 = tr_sockets s"
      "tr_connections s1 = AList.delete fd (tr_connections s)"
  shows "transport_pre [] s1"
proof -
  have split: "mset (tr_connections s) = add_mset (fd, c) (mset (tr_connections s1))"
    unfolding eqs using pre mem by (intro delete_split) (auto simp: transport_pre_def)
  then have sub: "set (tr_connections s1) \<subseteq> set (tr_connections s)" by (metis set_mset_add_mset_insert set_mset_mset subset_insertI)
  have "mset (tr_closed s1 @ connectionSnapshot s1) = mset (tr_closed s @ connectionSnapshot s)"
    using split by (simp add: eqs(2) connectionSnapshot_def mset_map)
  then have closed: "distinct (tr_closed s1 @ connectionSnapshot s1)" "set (tr_closed s1 @ connectionSnapshot s1) = set (tr_opened s)"
    using pre mset_eq_imp_distinct_iff mset_eq_setD by (metis transport_pre_def)+
  have "length (tr_connections s) = Suc (length (tr_connections s1))" using split by (metis size_add_mset size_mset)
  then have counts: "connection_counts (tr_metrics s1) = (of_nat (length (tr_opened s1)), of_nat (length (tr_closed s1)),
      of_nat (length (tr_closed s1)), of_nat (length (tr_connections s1)))"
    unfolding eqs(1,2,7) using pre counts_closed [of "tr_metrics s"] by (auto simp: transport_pre_def add.commute)
  have fds: "distinct (accept_fds (tr_jobs s) @ map fst (tr_connections s1))"
    using pre split sub unfolding eqs(10) by (auto simp: transport_pre_def distinct_delete)
  have jobs: "job_ok s1 = job_ok s" by (rule job_ok_places) (simp add: places_def eqs)
  have quit: "\<not> tr_quit s" using pre mem by (auto simp: transport_pre_def)
  show ?thesis
    unfolding transport_pre_def counts jobs
    using pre closed fds sub quit by (auto simp: transport_pre_def eqs(1,3-9) fd_of_def)
qed

lemma pre_remove:
  assumes pre: "transport_pre [] s" and here: "map_of (tr_connections s) (fd_of s c) = Some c"
  shows "transport_ok (run_remove l c reason s)"
proof -
  let ?fd = "fd_of s c"
  from here have mem: "(?fd, c) \<in> set (tr_connections s)" by (rule map_of_SomeD)
  with pre have c: "c < length (tr_sockets s)" and quit: "\<not> tr_quit s" by (auto simp: transport_pre_def)
  define s0 where "s0 = set_conn c (setState Disconnected (conn_of s c)) s"
  have "transport_pre [] s0" unfolding s0_def by (rule pre_calm [OF pre calm_set_conn [OF c]])
  define s1 where "s1 = s0\<lparr>tr_connections := AList.delete ?fd (tr_connections s), tr_watched := AList.delete ?fd (tr_watched s),
      tr_closed := tr_closed s @ [c], tr_metrics := onConnectionClosed reason (tr_metrics s)\<rparr>"
  have run: "run_remove l c reason s = tryFinishShutdown l s1"
    by (cases s) (use here in \<open>simp add: run_remove_def Let_def on_metrics_def s1_def s0_def set_conn_def conn_of_def fd_of_def\<close>)
  have same: "tr_connections s0 = tr_connections s" "tr_closed s0 = tr_closed s" "tr_metrics s0 = tr_metrics s"
    by (simp_all add: s0_def set_conn_def)
  have rest: "tr_opened s1 = tr_opened s0" "tr_closed s1 = tr_closed s0 @ [c]" "tr_jobs s1 = tr_jobs s0" "tr_stopping s1 = tr_stopping s0"
      "tr_quit s1 = tr_quit s0" "tr_shutdown_timer s1 = tr_shutdown_timer s0" "tr_metrics s1 = onConnectionClosed reason (tr_metrics s0)"
      "tr_pending_accepts s1 = tr_pending_accepts s0" "tr_sockets s1 = tr_sockets s0"
      "tr_connections s1 = AList.delete ?fd (tr_connections s0)"
    by (simp_all add: s1_def same)
  show ?thesis unfolding run using pre_removed [OF \<open>transport_pre [] s0\<close> _ rest] mem same(1) by (simp add: pre_finish)
qed


lemma ok_accept:
  assumes "transport_pre [fd] s"
  shows "transport_ok (run_accept stopping now l fd s)"
proof (cases stopping)
  case True
  then show ?thesis using pre_finish [OF pre_discard [OF assms]] by (simp add: run_accept_def)
next
  case False
  have run: "\<not> tr_quit s" using assms by (auto simp: transport_pre_def)
  have "tr_pending_accepts (open_connection now l fd s) = tr_pending_accepts s"
    by (simp add: open_connection_def Let_def on_metrics_def)
  with False pre_finish [OF pre_open [OF assms run]] show ?thesis by (simp add: run_accept_def Let_def)
qed

section \<open>Every step keeps it\<close>

definition dropped :: "loop_ref \<Rightarrow> job \<Rightarrow> transport \<Rightarrow> transport" where
  "dropped l j s = s\<lparr>tr_jobs := remove1 (l, j) (tr_jobs s)\<rparr>"

lemma first_job_in: "first_job l s = Some j \<Longrightarrow> (l, j) \<in> set (tr_jobs s)"
  by (auto simp: first_job_def find_Some_iff) (metis fst_conv nth_mem)

lemma calm_job:
  assumes "job_ok s (l, j)" and "job_conn j = Some c" and "\<And>d reason. j \<noteq> J_remove d reason"
  shows "calm (job_weight j - 1) s (run_job now l j s)"
  using assms calm_update(2) [of c s l] calm_drained [of c s] calm_idle [of c s l] calm_shutdown [of c s l]
    calm_packet [of c s l] calm_response [of c s l]
  by (cases j) (auto simp: job_ok_def)

lemma ok_job:
  assumes ok: "transport_ok s" and first: "first_job l s = Some j"
  shows "transport_ok (run_job now l j (dropped l j s))"
proof -
  note mem = first_job_in [OF first]
  have pre: "transport_pre (accept_fds [(l, j)]) (dropped l j s)"
    using pre_drop [OF _ mem] ok by (simp add: transport_ok_def dropped_def)
  have "job_ok s (l, j)" using ok mem by (auto simp: transport_ok_def transport_pre_def)
  moreover have "job_ok (dropped l j s) = job_ok s" by (rule job_ok_places) (simp add: dropped_def places_def)
  ultimately have job: "job_ok (dropped l j s) (l, j)" by simp
  have same: "transport_ok (dropped l j s)" if "job_conn j = Some c" for c
  proof -
    from that have "j \<noteq> J_finish" "accept_fds [(l, j)] = []" by auto
    with pre alive_drop [of s j l] ok show ?thesis by (simp add: transport_ok_def dropped_def)
  qed
  show ?thesis
  proof (cases j)
    case (J_remove c reason)
    with same [of c] show ?thesis
      using pre_remove [of "dropped l j s" c l reason] by (auto simp: run_remove_def transport_ok_def Let_def)
  qed (use pre ok_accept pre_finish same ok_calm [OF _ calm_job [OF job]] in \<open>fastforce+\<close>)
qed

lemma snapshot_sockets: "transport_ok s \<Longrightarrow> \<forall>c \<in> set (connectionSnapshot s). c < length (tr_sockets s)"
  by (auto simp: transport_ok_def transport_pre_def connectionSnapshot_def)

lemma calm_check_idle: "transport_ok s \<Longrightarrow> \<exists>n. calm n s (check_idle now s)"
  unfolding check_idle_def
  by (rule exI, rule calm_fold [where n = 3, OF _ snapshot_sockets]) (use calm_queue [where j = "J_idle c now" for c] in auto)

lemma calm_force_close: "transport_ok s \<Longrightarrow> calm (2 * length (connectionSnapshot s)) s (force_close s)"
  unfolding force_close_def by (rule calm_fold [OF calm_remove snapshot_sockets])

lemma ok_stop:
  assumes ok: "transport_ok s"
  shows "transport_ok (beginShutdown s)"
proof (cases "tr_stopping s")
  case False
  define s1 where "s1 = s\<lparr>tr_stopping := True, tr_shutdown_timer := True\<rparr>"
  define f where "f = (\<lambda>c s. queue_job (ownerLoop s c) (J_shutdown c) s)"
  have pre: "transport_pre [] s1" using ok False
    by (auto simp: s1_def transport_ok_def transport_pre_def fd_of_def connectionSnapshot_def job_ok_def ownerLoop_def
        split: option.splits)
  have "calm (3 * length (connectionSnapshot s)) s1 (fold f (connectionSnapshot s) s1)"
    using snapshot_sockets [OF ok] by (intro calm_fold) (auto simp: f_def s1_def dest: calm_queue [where j = "J_shutdown c" for c])
  from pre_finish [OF pre_calm [OF pre this]]
  have "transport_ok (tryFinishShutdown 0 (fold f (connectionSnapshot s) s1))" .
  moreover have "fold f cs (s\<lparr>tr_shutdown_timer := True\<rparr>) = (fold f cs s)\<lparr>tr_shutdown_timer := True\<rparr>" for cs s
  proof (induction cs arbitrary: s)
    case (Cons c cs)
    have "f c (s\<lparr>tr_shutdown_timer := True\<rparr>) = (f c s)\<lparr>tr_shutdown_timer := True\<rparr>"
      by (simp add: f_def queue_job_def ownerLoop_def)
    then show ?case by (simp add: Cons.IH)
  qed simp
  moreover have "connectionSnapshot (s\<lparr>tr_stopping := True\<rparr>) = connectionSnapshot s" by (simp add: connectionSnapshot_def)
  ultimately show ?thesis using False by (simp add: beginShutdown_def Let_def s1_def f_def)
qed (use ok in \<open>simp add: beginShutdown_def\<close>)

lemma ok_new_connection:
  assumes ok: "transport_ok s" and fresh: "fd \<notin> set (accept_fds (tr_jobs s))" "fd \<notin> fst ` set (tr_connections s)"
  shows "transport_ok (handleNewConnection l fd s)"
proof (cases "tr_stopping s")
  case False
  with ok have "\<not> tr_quit s" by (auto simp: transport_ok_def transport_pre_def)
  with False ok fresh show ?thesis
    by (auto simp: handleNewConnection_def queue_job_def transport_ok_def transport_pre_def transport_alive_def fd_of_def
        connectionSnapshot_def job_ok_def ownerLoop_def split: option.splits)
qed (use ok in \<open>simp add: handleNewConnection_def\<close>)

lemma ok_step:
  assumes "transport_step s s'" and ok: "transport_ok s"
  shows "transport_ok s'"
  using assms(1)
proof cases
  case (ts_job now l)
  then show ?thesis using ok ok_job [OF ok, of l _ now] by (auto simp: run_first_def dropped_def split: option.splits)
next
  case (ts_idle now)
  then show ?thesis using calm_check_idle [OF ok] ok_calm [OF ok] by blast
qed (use ok ok_stop ok_new_connection ok_calm [OF ok calm_event] ok_calm [OF ok calm_remove] ok_calm [OF ok calm_set_conn]
       ok_calm [OF ok calm_send_packet] ok_calm [OF ok calm_echo] ok_calm [OF ok calm_force_close [OF ok]]
       ok_calm [OF ok calm_queue [of _ s "J_drained c" for c]] in auto)

lemma ok_late:
  assumes "transport_ok s" and "first_job l s = Some (J_accept fd)"
  shows "transport_ok (run_accept False now l fd (s\<lparr>tr_jobs := remove1 (l, J_accept fd) (tr_jobs s)\<rparr>))"
  using pre_drop [OF _ first_job_in [OF assms(2)]] assms(1) by (intro ok_accept) (simp add: transport_ok_def)

lemma ok_new: "transport_ok (new_transport protocol)"
  by (simp add: transport_ok_def transport_pre_def transport_alive_def new_transport_def connectionSnapshot_def counts_new)

lemma reachable_ok: "transport_reachable s \<Longrightarrow> transport_ok s"
  by (induction rule: transport_reachable.induct) (auto intro: ok_new ok_step ok_late)


section \<open>Shutting down\<close>

text \<open>Every open connection among the first \<open>k\<close> made is about to be removed.\<close>

definition closing :: "nat \<Rightarrow> transport \<Rightarrow> bool" where
  "closing k s \<longleftrightarrow> tr_stopping s
     \<and> (\<forall>c \<in> set (connectionSnapshot s). c < k \<longrightarrow> (\<exists>reason. (ownerLoop s c, J_remove c reason) \<in> set (tr_jobs s)))"

lemma calmD:
  assumes "calm n s s'"
  shows "connectionSnapshot s' = connectionSnapshot s" "tr_stopping s' = tr_stopping s" "tr_quit s' = tr_quit s"
    "set (tr_jobs s) \<subseteq> set (tr_jobs s')" "work (tr_jobs s') \<le> work (tr_jobs s) + n"
  using assms by (auto simp: calm_def connectionSnapshot_def core_def)

lemma closing_calm:
  assumes "transport_ok s" and "closing k s" and "calm n s s'"
  shows "closing k s'"
  using assms(2) calmD [OF assms(3)] calm_owner [OF assms(3)] snapshot_sockets [OF assms(1)] by (force simp: closing_def)

lemma closing_removed:
  assumes "closing k s" and "tr_stopping s' = tr_stopping s" and "set (connectionSnapshot s') \<subseteq> set (connectionSnapshot s) - {c}"
    and "\<And>d. d \<in> set (connectionSnapshot s') \<Longrightarrow> ownerLoop s' d = ownerLoop s d"
    and "\<And>l d reason. d \<noteq> c \<Longrightarrow> (l, J_remove d reason) \<in> set (tr_jobs s) \<Longrightarrow> (l, J_remove d reason) \<in> set (tr_jobs s')"
  shows "closing k s'"
  using assms unfolding closing_def by (metis DiffE insertI1 subsetD)

lemma closing_force:
  assumes ok: "transport_ok s" and stopping: "tr_stopping s"
  shows "closing k (force_close s)"
proof -
  let ?f = "\<lambda>c. removeConnection c ForceShutdown"
  have queued: "\<forall>c \<in> set cs. (ownerLoop s c, J_remove c ForceShutdown) \<in> set (tr_jobs (fold ?f cs s))"
    if "\<not> tr_quit s" and "\<forall>c \<in> set cs. c < length (tr_sockets s)" for cs
    using that
  proof (induction cs rule: rev_induct)
    case (snoc c cs)
    have q: "calm (2 * length cs) s (fold ?f cs s)" using snoc.prems by (intro calm_fold [OF calm_remove]) auto
    have c: "c < length (tr_sockets s)" using snoc.prems by simp
    have "tr_jobs (removeConnection c ForceShutdown r) = tr_jobs r @ [(ownerLoop r c, J_remove c ForceShutdown)]" if "\<not> tr_quit r" for r
      using that by (simp add: removeConnection_def queue_job_def)
    with calm_at [OF q c] calmD(3) [OF q] snoc show ?case by simp
  qed simp
  note q = calm_force_close [OF ok]
  have "\<exists>reason. (ownerLoop (force_close s) c, J_remove c reason) \<in> set (tr_jobs (force_close s))"
    if c: "c \<in> set (connectionSnapshot s)" for c
  proof -
    from c ok have "\<not> tr_quit s" by (auto simp: transport_ok_def transport_pre_def connectionSnapshot_def)
    from queued [OF this snapshot_sockets [OF ok]] c calm_owner [OF q] snapshot_sockets [OF ok] show ?thesis
      by (auto simp: force_close_def [symmetric])
  qed
  with stopping calmD [OF q] show ?thesis by (simp add: closing_def)
qed

lemma finish_frame:
  "connectionSnapshot (tryFinishShutdown l s) = connectionSnapshot s" "tr_stopping (tryFinishShutdown l s) = tr_stopping s"
  "ownerLoop (tryFinishShutdown l s) = ownerLoop s" "set (tr_jobs s) \<subseteq> set (tr_jobs (tryFinishShutdown l s))"
  "work (tr_jobs (tryFinishShutdown l s)) \<le> work (tr_jobs s) + (if l = 0 then 0 else 1)"
  by (auto simp: tryFinishShutdown_def queue_job_def connectionSnapshot_def ownerLoop_def fun_eq_iff)

lemma remove_frame:
  assumes ok: "transport_ok s" and c: "c < length (tr_sockets s)"
  shows "set (connectionSnapshot (run_remove l c reason s)) \<subseteq> set (connectionSnapshot s) - {c}"
    and "tr_stopping (run_remove l c reason s) = tr_stopping s"
    and "d < length (tr_sockets s) \<Longrightarrow> ownerLoop (run_remove l c reason s) d = ownerLoop s d"
    and "set (tr_jobs s) \<subseteq> set (tr_jobs (run_remove l c reason s))"
    and "work (tr_jobs (run_remove l c reason s)) \<le> work (tr_jobs s) + 1"
proof -
  have fd: "(fd, c) \<in> set (tr_connections s) \<Longrightarrow> fd = fd_of s c" for fd
    using ok by (auto simp: transport_ok_def transport_pre_def)
  have inj: "(fd_of s c, d) \<in> set (tr_connections s) \<Longrightarrow> map_of (tr_connections s) (fd_of s c) = Some d" for d
    using ok by (auto simp: transport_ok_def transport_pre_def)
  have snap: "connectionSnapshot (run_remove l c reason s) =
      (if map_of (tr_connections s) (fd_of s c) = Some c then map snd (AList.delete (fd_of s c) (tr_connections s))
       else connectionSnapshot s)"
    by (simp add: run_remove_def Let_def finish_frame) (simp add: connectionSnapshot_def on_metrics_def set_conn_def)
  have sub: "set (AList.delete fd al) \<subseteq> set al - {p. fst p = fd}" for fd and al :: "(descriptor \<times> conn_ref) list"
    by (auto simp: AList.delete_eq)
  show "set (connectionSnapshot (run_remove l c reason s)) \<subseteq> set (connectionSnapshot s) - {c}"
  proof (cases "map_of (tr_connections s) (fd_of s c) = Some c")
    case True
    then show ?thesis unfolding snap using sub [of "fd_of s c" "tr_connections s"] fd by (fastforce simp: connectionSnapshot_def)
  next
    case False
    then have "c \<notin> set (connectionSnapshot s)" using fd inj by (fastforce simp: connectionSnapshot_def)
    with False show ?thesis unfolding snap by auto
  qed
  show "tr_stopping (run_remove l c reason s) = tr_stopping s"
    by (simp add: run_remove_def Let_def finish_frame on_metrics_def set_conn_def)
  show "ownerLoop (run_remove l c reason s) d = ownerLoop s d" if "d < length (tr_sockets s)"
    using that c by (simp add: run_remove_def Let_def finish_frame)
      (auto simp: on_metrics_def set_conn_def ownerLoop_def nth_list_update)
  show "set (tr_jobs s) \<subseteq> set (tr_jobs (run_remove l c reason s))"
    using finish_frame(4) by (fastforce simp: run_remove_def Let_def on_metrics_def set_conn_def)
  show "work (tr_jobs (run_remove l c reason s)) \<le> work (tr_jobs s) + 1"
    by (auto simp: run_remove_def Let_def intro!: order_trans [OF finish_frame(5)]) (simp_all add: on_metrics_def set_conn_def)
qed


lemma dropped_parts:
  "connectionSnapshot (dropped l j s) = connectionSnapshot s" "tr_stopping (dropped l j s) = tr_stopping s"
  "ownerLoop (dropped l j s) = ownerLoop s" "tr_sockets (dropped l j s) = tr_sockets s"
  "tr_jobs (dropped l j s) = remove1 (l, j) (tr_jobs s)" "job_ok (dropped l j s) = job_ok s"
  by (auto simp: dropped_def connectionSnapshot_def ownerLoop_def fun_eq_iff job_ok_def split: option.splits)

lemma work_remove1: "p \<in> set jobs \<Longrightarrow> work jobs = job_weight (snd p) + work (remove1 p jobs)"
  by (induction jobs) auto

lemma job_pre:
  assumes ok: "transport_ok s" and first: "first_job l s = Some j"
  shows "job_ok s (l, j)" "job_conn j = Some c \<Longrightarrow> transport_ok (dropped l j s) \<and> c < length (tr_sockets s)"
proof -
  note mem = first_job_in [OF first]
  show job: "job_ok s (l, j)" using ok mem by (auto simp: transport_ok_def transport_pre_def)
  assume c: "job_conn j = Some c"
  then have "j \<noteq> J_finish" "accept_fds [(l, j)] = []" by auto
  with pre_drop [OF _ mem] alive_drop [of s j l] ok job c
  show "transport_ok (dropped l j s) \<and> c < length (tr_sockets s)" by (simp add: transport_ok_def dropped_def job_ok_def)
qed

lemma stopping_accept: "tr_stopping s \<Longrightarrow> run_job now l (J_accept fd) s = tryFinishShutdown l (s\<lparr>tr_pending_accepts := tr_pending_accepts s - 1\<rparr>)"
  by (simp add: run_accept_def)

lemma closing_job:
  assumes ok: "transport_ok s" and closing: "closing k s" and first: "first_job l s = Some j"
  shows "closing k (run_job now l j (dropped l j s))"
proof -
  note D = dropped_parts [of l j s]
  have kept: "closing k (dropped l j s)" if "\<And>c reason. j \<noteq> J_remove c reason"
  proof -
    have "(k, J_remove c reason) \<in> set (tr_jobs s) \<Longrightarrow> (k, J_remove c reason) \<in> set (remove1 (l, j) (tr_jobs s))" for k c reason
      using that [of c reason] by (subst in_set_remove1) auto
    with closing show ?thesis unfolding closing_def D by meson
  qed
  have finish: "closing k (tryFinishShutdown l s')" if "closing k s'" for s'
    using that finish_frame [where l = l and s = s'] by (fastforce simp: closing_def)
  consider (calm) c where "job_conn j = Some c" "\<And>d reason. j \<noteq> J_remove d reason" | (remove) c reason where "j = J_remove c reason"
    | (accept) fd where "j = J_accept fd" | (last) "j = J_finish" by (cases j) auto
  then show ?thesis
  proof cases
    case calm
    from job_pre [OF ok first] calm have "transport_ok (dropped l j s)" "job_ok (dropped l j s) (l, j)" by (auto simp: D)
    from closing_calm [OF this(1) kept [OF calm(2)] calm_job [OF this(2) calm]] show ?thesis .
  next
    case remove
    with job_pre(2) [OF ok first, of c] have ok': "transport_ok (dropped l j s)" and c: "c < length (tr_sockets (dropped l j s))"
      by (simp_all add: dropped_parts(4))
    note R = remove_frame [OF ok' c, where l = l and reason = reason]
    have "closing k (run_remove l c reason (dropped l j s))"
    proof (rule closing_removed [OF closing, of _ c])
      show "set (connectionSnapshot (run_remove l c reason (dropped l j s))) \<subseteq> set (connectionSnapshot s) - {c}"
        "tr_stopping (run_remove l c reason (dropped l j s)) = tr_stopping s" using R(1,2) by (simp_all add: D)
      show "ownerLoop (run_remove l c reason (dropped l j s)) d = ownerLoop s d"
        if "d \<in> set (connectionSnapshot (run_remove l c reason (dropped l j s)))" for d
        using that R(1) snapshot_sockets [OF ok] by (subst R(3)) (auto simp: D)
      show "(k, J_remove d r) \<in> set (tr_jobs (run_remove l c reason (dropped l j s)))"
        if "d \<noteq> c" "(k, J_remove d r) \<in> set (tr_jobs s)" for k d r
      proof -
        have "(k, J_remove d r) \<noteq> (l, j)" using that(1) remove by simp
        then have "(k, J_remove d r) \<in> set (tr_jobs (dropped l j s))" using that(2) by (simp add: D)
        with R(4) show ?thesis by blast
      qed
    qed
    with remove show ?thesis by simp
  next
    case accept
    have "closing k ((dropped l j s)\<lparr>tr_pending_accepts := tr_pending_accepts (dropped l j s) - 1\<rparr>)"
      using kept accept by (simp add: closing_def connectionSnapshot_def ownerLoop_def)
    moreover have "tr_stopping (dropped l j s)" using closing by (simp add: closing_def D(2))
    ultimately show ?thesis using finish stopping_accept [of "dropped l j s" now l] accept by simp
  next
    case last
    then show ?thesis using kept finish by simp
  qed
qed

lemma job_progress:
  assumes ok: "transport_ok s" and first: "first_job l s = Some j"
  shows "work (tr_jobs (run_first now l s)) < work (tr_jobs s)"
proof -
  note D = dropped_parts [of l j s]
  have run: "run_first now l s = run_job now l j (dropped l j s)" by (simp add: run_first_def first dropped_def)
  have work: "work (tr_jobs s) = job_weight j + work (tr_jobs (dropped l j s))"
    using work_remove1 [OF first_job_in [OF first]] by (simp add: D)
  consider (calm) c where "job_conn j = Some c" "\<And>d reason. j \<noteq> J_remove d reason" | (remove) c reason where "j = J_remove c reason"
    | (accept) fd where "j = J_accept fd" | (last) "j = J_finish" by (cases j) auto
  then show ?thesis
  proof cases
    case calm
    from job_pre [OF ok first] have "job_ok (dropped l j s) (l, j)" by (auto simp: D)
    from calmD(5) [OF calm_job [OF this calm, of now]] have "work (tr_jobs (run_first now l s)) \<le> work (tr_jobs (dropped l j s)) + (job_weight j - 1)"
      by (simp add: run)
    moreover have "0 < job_weight j" by (cases j) auto
    ultimately show ?thesis using work by linarith
  next
    case remove
    with job_pre(2) [OF ok first, of c] remove_frame(5) [of "dropped l j s" c l reason] show ?thesis by (simp add: run work dropped_parts(4))
  next
    case accept
    let ?s = "\<lambda>s1. s1\<lparr>tr_pending_accepts := tr_pending_accepts s1 - 1\<rparr>"
    have "tr_jobs (?s (open_connection now l fd (dropped l j s))) = tr_jobs (dropped l j s)" for fd
      by (simp add: open_connection_def Let_def on_metrics_def)
    with accept finish_frame(5) [of l "?s (open_connection now l (case j of J_accept fd \<Rightarrow> fd) (dropped l j s))"]
      finish_frame(5) [of l "?s (dropped l j s)"]
    show ?thesis by (auto simp: run work run_accept_def Let_def split: if_splits)
  next
    case last
    with job_pre(1) [OF ok first] have "l = 0" by (simp add: job_ok_def)
    with last finish_frame(5) [of l "dropped l j s"] show ?thesis unfolding run work by simp
  qed
qed


lemma closing_step:
  assumes ok: "transport_ok s" and closing: "closing k s" and "transport_step s s'"
  shows "closing k s'"
  using assms(3)
proof cases
  case (ts_job now l)
  then show ?thesis using closing closing_job [OF ok closing, of l _ now] by (auto simp: run_first_def dropped_def split: option.splits)
next
  case (ts_idle now)
  then show ?thesis using calm_check_idle [OF ok] closing_calm [OF ok closing] by blast
next
  case (ts_accept fd l)
  then show ?thesis using closing by (simp add: handleNewConnection_def closing_def)
next
  case ts_stop
  then show ?thesis using closing by (simp add: beginShutdown_def closing_def)
qed (use closing_calm [OF ok closing calm_event] closing_calm [OF ok closing calm_remove] closing_calm [OF ok closing calm_set_conn]
       closing_calm [OF ok closing calm_send_packet] closing_calm [OF ok closing calm_echo]
       closing_calm [OF ok closing calm_force_close [OF ok]]
       closing_calm [OF ok closing calm_queue [of _ s "J_drained c" for c]] in auto)

lemma closing_steps:
  assumes "transport_step\<^sup>*\<^sup>* s s'" and "transport_ok s" and "closing k s"
  shows "transport_ok s' \<and> closing k s'"
  using assms by (induction rule: rtranclp_induct) (auto intro: ok_step closing_step)

lemma closing_over:
  assumes "transport_ok s" and "closing k s" and "tr_jobs s = []"
  shows "\<forall>c \<in> set (connectionSnapshot s). k \<le> c" "tr_quit s \<longleftrightarrow> connectionSnapshot s = []"
  using assms by (auto simp: transport_ok_def transport_pre_def transport_alive_def closing_def connectionSnapshot_def)

section \<open>What a step of the transport announces\<close>

definition announces :: "transport \<Rightarrow> transport \<Rightarrow> bool" where
  "announces s s' \<longleftrightarrow>
     (tr_opened s' = tr_opened s
      \<or> (\<exists>now. tr_opened s' = tr_opened s @ [length (tr_sockets s)] \<and> conn_of s' (length (tr_sockets s)) = new_connection now))
     \<and> (\<exists>closed. tr_closed s' = tr_closed s @ closed)"

lemma announces_calm: "calm n s s' \<Longrightarrow> announces s s'"
  by (simp add: calm_def announces_def core_def)

lemma finish_announces:
  "tr_opened (tryFinishShutdown l s) = tr_opened s" "tr_closed (tryFinishShutdown l s) = tr_closed s"
  "conn_of (tryFinishShutdown l s) = conn_of s" "tr_sockets (tryFinishShutdown l s) = tr_sockets s"
  by (auto simp: tryFinishShutdown_def queue_job_def conn_of_def fun_eq_iff)

lemma accept_announces: "announces s (run_accept stopping now l fd (s\<lparr>tr_jobs := jobs\<rparr>))"
  by (cases stopping)
     (auto simp: run_accept_def announces_def Let_def finish_announces, auto simp: open_connection_def conn_of_def on_metrics_def Let_def nth_append)

lemma remove_announces: "announces s (run_remove l c reason (s\<lparr>tr_jobs := jobs\<rparr>))"
  by (auto simp: run_remove_def announces_def Let_def finish_announces, auto simp: set_conn_def on_metrics_def)

lemma job_announces:
  assumes ok: "transport_ok s" and first: "first_job l s = Some j"
  shows "announces s (run_job now l j (dropped l j s))"
proof -
  have drop: "announces s s'" if "announces (dropped l j s) s'" for s'
    using that by (simp add: announces_def dropped_def)
  show ?thesis
  proof (cases "(\<exists>c. job_conn j = Some c) \<and> (\<forall>d reason. j \<noteq> J_remove d reason)")
    case True
    then obtain c where c: "job_conn j = Some c" "\<And>d reason. j \<noteq> J_remove d reason" by blast
    from job_pre [OF ok first] have "job_ok (dropped l j s) (l, j)" by (simp add: dropped_parts)
    from drop [OF announces_calm [OF calm_job [OF this c]]] show ?thesis .
  next
    case False
    then consider (accept) fd where "j = J_accept fd" | (remove) c reason where "j = J_remove c reason" | (last) "j = J_finish"
      by (cases j) auto
    then show ?thesis
      by cases (simp_all add: dropped_def accept_announces remove_announces, simp add: announces_def finish_announces)
  qed
qed

lemma step_announces:
  assumes "transport_step s s'" and ok: "transport_ok s"
  shows "announces s s'"
  using assms(1)
proof cases
  case (ts_job now l)
  then show ?thesis using job_announces [OF ok, of l _ now]
    by (auto simp: run_first_def dropped_def announces_def split: option.splits)
next
  case (ts_idle now)
  then show ?thesis using calm_check_idle [OF ok] announces_calm by blast
next
  case (ts_accept fd l)
  then show ?thesis by (auto simp: handleNewConnection_def queue_job_def announces_def)
next
  case ts_stop
  have "tr_opened (fold (\<lambda>c s. queue_job (ownerLoop s c) (J_shutdown c) s) cs s) = tr_opened s
      \<and> tr_closed (fold (\<lambda>c s. queue_job (ownerLoop s c) (J_shutdown c) s) cs s) = tr_closed s" for cs s
    by (induction cs arbitrary: s) (auto simp: queue_job_def)
  with ts_stop show ?thesis by (simp add: beginShutdown_def Let_def announces_def finish_announces)
qed (use announces_calm [OF calm_event] announces_calm [OF calm_remove] announces_calm [OF calm_set_conn] announces_calm [OF calm_send_packet]
       announces_calm [OF calm_echo] announces_calm [OF calm_force_close [OF ok]]
       announces_calm [OF calm_queue [of _ s "J_drained c" for c]] in auto)

section \<open>Accepting late\<close>

text \<open>
  Steps of the transport, and the accepting function that read \<open>stopping\<close> before it was set and opens its
  connection only now.
\<close>

inductive late_step :: "transport \<Rightarrow> transport \<Rightarrow> bool" where
  ls_step: "transport_step s s' \<Longrightarrow> late_step s s'"
| ls_late: "first_job l s = Some (J_accept fd) \<Longrightarrow>
     late_step s (run_accept False now l fd (s\<lparr>tr_jobs := remove1 (l, J_accept fd) (tr_jobs s)\<rparr>))"

lemma closing_late:
  assumes ok: "transport_ok s" and closing: "closing k s" and k: "k \<le> length (tr_sockets s)" and first: "first_job l s = Some (J_accept fd)"
  shows "closing k (run_accept False now l fd (s\<lparr>tr_jobs := remove1 (l, J_accept fd) (tr_jobs s)\<rparr>))"
proof -
  let ?s = "s\<lparr>tr_jobs := remove1 (l, J_accept fd) (tr_jobs s)\<rparr>" and ?c = "length (tr_sockets s)"
  define s1 where "s1 = (open_connection now l fd ?s)\<lparr>tr_pending_accepts := tr_pending_accepts s - 1\<rparr>"
  have run: "run_accept False now l fd ?s = tryFinishShutdown l s1"
    by (simp add: run_accept_def s1_def open_connection_def on_metrics_def Let_def)
  have "fd \<in> set (accept_fds (tr_jobs s))" using split_list [OF first_job_in [OF first]] by auto
  then have new: "fd \<notin> fst ` set (tr_connections s)" using ok by (auto simp: transport_ok_def transport_pre_def)
  then have none: "map_of (tr_connections s) fd = None" by (simp add: map_of_eq_None_iff)
  then have snap: "set (connectionSnapshot s1) \<subseteq> insert ?c (set (connectionSnapshot s))"
    using update_fresh [OF new, of ?c]
    by (auto simp: s1_def open_connection_def connectionSnapshot_def on_metrics_def Let_def)
  have owner: "ownerLoop s1 c = ownerLoop s c" if "c < ?c" for c
    using that by (simp add: s1_def open_connection_def ownerLoop_def on_metrics_def Let_def nth_append)
  have jobs: "(j, J_remove c reason) \<in> set (tr_jobs s1)" if "(j, J_remove c reason) \<in> set (tr_jobs s)" for j c reason
    using that by (simp add: s1_def open_connection_def on_metrics_def Let_def)
  have "closing k s1"
    using closing snap owner jobs k unfolding closing_def
    by (auto simp: s1_def open_connection_def on_metrics_def Let_def)
  then show ?thesis
    unfolding run using finish_frame [where l = l and s = s1] by (fastforce simp: closing_def)
qed

lemma announces_sockets:
  assumes "announces s s'" and "transport_ok s" and "transport_ok s'"
  shows "length (tr_sockets s) \<le> length (tr_sockets s')"
proof -
  have "length (tr_opened r) = length (tr_sockets r)" if "transport_ok r" for r using that by (simp add: transport_ok_def transport_pre_def)
  with assms show ?thesis by (auto simp: announces_def) (metis le_SucI length_append_singleton order_refl)+
qed

lemma late_announces: "late_step s s' \<Longrightarrow> transport_ok s \<Longrightarrow> announces s s' \<and> transport_ok s'"
  by (induction rule: late_step.induct) (auto intro: step_announces ok_step accept_announces ok_late)

lemma late_steps:
  assumes "late_step\<^sup>*\<^sup>* s s'" and "transport_ok s" and "closing k s" and "k \<le> length (tr_sockets s)"
  shows "transport_ok s' \<and> closing k s' \<and> k \<le> length (tr_sockets s')"
  using assms
proof (induction rule: rtranclp_induct)
  case (step y z)
  then have y: "transport_ok y" "closing k y" "k \<le> length (tr_sockets y)" by blast+
  note A = late_announces [OF step.hyps(2) y(1)]
  have "closing k z" using step.hyps(2) by cases (use closing_step [OF y(1,2)] closing_late [OF y] in auto)
  with A announces_sockets [of y z] y show ?case by auto
qed simp


lemma quit_empty: "transport_ok s \<Longrightarrow> tr_quit s \<Longrightarrow> tr_connections s = []"
  by (simp add: transport_ok_def transport_pre_def)

text \<open>The loops run functions, one after the other in some order; \<open>busy\<close>: each had one to run.\<close>

definition run_loops :: "u64 \<Rightarrow> loop_ref list \<Rightarrow> transport \<Rightarrow> transport" where
  "run_loops now ls = fold (run_first now) ls"

fun busy :: "u64 \<Rightarrow> loop_ref list \<Rightarrow> transport \<Rightarrow> bool" where
  "busy now [] s = True"
| "busy now (l # ls) s = (first_job l s \<noteq> None \<and> busy now ls (run_first now l s))"

lemma run_loops_steps: "transport_step\<^sup>*\<^sup>* s (run_loops now ls s)"
proof (induction ls arbitrary: s)
  case (Cons l ls)
  from ts_job [of s now l] Cons show ?case by (simp add: run_loops_def converse_rtranclp_into_rtranclp)
qed (simp add: run_loops_def)

lemma busy_bound: "transport_ok s \<Longrightarrow> busy now ls s \<Longrightarrow> length ls \<le> work (tr_jobs s)"
proof (induction ls arbitrary: s)
  case (Cons l ls)
  then obtain j where j: "first_job l s = Some j" by auto
  have "length ls \<le> work (tr_jobs (run_first now l s))"
    using Cons ok_step [OF ts_job, of s now l] by auto
  with job_progress [OF Cons.prems(1) j, of now] show ?case by simp
qed simp

lemma jobs_first: "tr_jobs s \<noteq> [] \<Longrightarrow> \<exists>l. first_job l s \<noteq> None"
  by (cases "tr_jobs s") (auto simp: first_job_def)

lemma loops_exhaust: "transport_ok s \<Longrightarrow> \<exists>ls. busy now ls s \<and> tr_jobs (run_loops now ls s) = []"
proof (induction "work (tr_jobs s)" arbitrary: s rule: less_induct)
  case less
  show ?case
  proof (cases "tr_jobs s = []")
    case False
    then obtain l j where j: "first_job l s = Some j" using jobs_first by blast
    from less(1) [OF job_progress [OF less(2) j, of now] ok_step [OF ts_job less(2)]]
    obtain ls where "busy now ls (run_first now l s)" "tr_jobs (run_loops now ls (run_first now l s)) = []" by blast
    with j show ?thesis by (intro exI [of _ "l # ls"]) (simp add: run_loops_def)
  qed (intro exI [of _ "[]"], simp add: run_loops_def)
qed

section \<open>Properties\<close>

text \<open>
  C19. Connections are accounted for: in every state the transport reaches, under any interleaving of the
  loops, the pool and other threads, every connection was announced as opened exactly once and as
  closed at most once and never before, the table holds exactly those opened and not closed, and the
  metrics count them: accepted, closed, closed by reason, and open. Once the main loop has quit, every
  connection that was opened was closed and none is waiting to be accepted.
\<close>

theorem connections_accounted:
  assumes "transport_reachable s"
  shows "distinct (tr_opened s) \<and> distinct (tr_closed s) \<and> set (tr_closed s) \<subseteq> set (tr_opened s)
     \<and> distinct (connectionSnapshot s) \<and> set (connectionSnapshot s) = set (tr_opened s) - set (tr_closed s)
     \<and> sm_total_connections_accepted (tr_metrics s) = of_nat (length (tr_opened s))
     \<and> sm_total_connections_closed (tr_metrics s) = of_nat (length (tr_closed s))
     \<and> closes_by_reason (tr_metrics s) = sm_total_connections_closed (tr_metrics s)
     \<and> sm_current_connections (tr_metrics s) = of_nat (length (tr_connections s))
     \<and> (tr_quit s \<longrightarrow> set (tr_closed s) = set (tr_opened s) \<and> accept_fds (tr_jobs s) = [])"
proof -
  note ok = reachable_ok [OF assms]
  from ok have "distinct (tr_closed s @ connectionSnapshot s)" "set (tr_closed s @ connectionSnapshot s) = set (tr_opened s)"
    "distinct (tr_opened s)" "tr_quit s \<longrightarrow> connectionSnapshot s = [] \<and> accept_fds (tr_jobs s) = []"
    by (auto simp: transport_ok_def transport_pre_def connectionSnapshot_def)
  moreover from this have "set (connectionSnapshot s) = set (tr_opened s) - set (tr_closed s)" by auto
  moreover from ok have "connection_counts (tr_metrics s)
      = (of_nat (length (tr_opened s)), of_nat (length (tr_closed s)), of_nat (length (tr_closed s)), of_nat (length (tr_connections s)))"
    by (simp add: transport_ok_def transport_pre_def)
  ultimately show ?thesis by (auto simp: connection_counts_def)
qed

text \<open>
  C20. A shutdown completes: when the timer of a shutdown has fired, the functions that are queued and
  those they queue come to an end, in whatever order the loops run and after a bounded number of
  them, and once they have, the main loop has quit; and whatever events, sends, removals and new descriptors
  happen meanwhile, a state with nothing left to run is one in which it has quit and no connection is open.
  The one exception is a function accepting a connection that read \<open>stopping\<close> before it was set and opens the
  connection only after the timer: nothing left to run then means that exactly such connections are open, and the main
  loop has quit if and only if there is none.
\<close>

theorem shutdown_completes:
  assumes "transport_reachable s" and "tr_stopping s"
  shows "(\<forall>ls. busy now ls (force_close s) \<longrightarrow> length ls \<le> work (tr_jobs (force_close s)))
     \<and> (\<exists>ls. busy now ls (force_close s) \<and> tr_jobs (run_loops now ls (force_close s)) = []
             \<and> tr_quit (run_loops now ls (force_close s)))
     \<and> (\<forall>s'. transport_step\<^sup>*\<^sup>* (force_close s) s' \<longrightarrow> tr_jobs s' = [] \<longrightarrow> tr_quit s' \<and> tr_connections s' = [])
     \<and> (\<forall>s'. late_step\<^sup>*\<^sup>* (force_close s) s' \<longrightarrow> tr_jobs s' = [] \<longrightarrow>
          (tr_quit s' \<longleftrightarrow> tr_connections s' = []) \<and> set (connectionSnapshot s') \<inter> set (tr_opened s) = {})"
proof -
  have ok: "transport_ok s" by (rule reachable_ok [OF assms(1)])
  note calm = calm_force_close [OF ok]
  have ok': "transport_ok (force_close s)" by (rule ok_calm [OF ok calm])
  note closing = closing_force [OF ok assms(2)]
  obtain ls where ls: "busy now ls (force_close s)" "tr_jobs (run_loops now ls (force_close s)) = []"
    using loops_exhaust [OF ok'] by blast
  have quit: "tr_quit s' \<and> tr_connections s' = []" if "transport_step\<^sup>*\<^sup>* (force_close s) s'" "tr_jobs s' = []" for s'
  proof -
    from closing_steps [OF that(1) ok' closing] have S: "transport_ok s'" "closing k s'" for k by auto
    have "connectionSnapshot s' = []"
      using closing_over(1) [OF S(1) S(2) [of "length (tr_sockets s')"] that(2)] snapshot_sockets [OF S(1)]
      by (metis list.set_intros(1) neq_Nil_conv not_le)
    with closing_over(2) [OF S that(2)] quit_empty [OF S(1)] show ?thesis by blast
  qed
  have late: "(tr_quit s' \<longleftrightarrow> tr_connections s' = []) \<and> set (connectionSnapshot s') \<inter> set (tr_opened s) = {}"
    if "late_step\<^sup>*\<^sup>* (force_close s) s'" "tr_jobs s' = []" for s'
  proof -
    from late_steps [OF that(1) ok' closing, of "length (tr_sockets s)"] calm_length [OF calm]
    have S: "transport_ok s'" "closing (length (tr_sockets s)) s'" by auto
    have "tr_opened s = [0..<length (tr_sockets s)]" using ok by (simp add: transport_ok_def transport_pre_def)
    with closing_over [OF S that(2)] show ?thesis by (auto simp: connectionSnapshot_def)
  qed
  from ls quit [OF run_loops_steps ls(2)] have "busy now ls (force_close s) \<and> tr_jobs (run_loops now ls (force_close s)) = []
      \<and> tr_quit (run_loops now ls (force_close s))" by simp
  then show ?thesis by (intro conjI allI impI exI [of _ ls]) (simp_all add: busy_bound [OF ok'] quit late)
qed

text \<open>Two connections, on the main loop and on loop 1; a shutdown has begun.\<close>

definition demo_accepted :: transport where
  "demo_accepted = run_first 5 1 (handleNewConnection 1 8 (run_first 5 0 (handleNewConnection 0 7 (new_transport True))))"

lemma demo_accepted_reachable: "transport_reachable demo_accepted"
proof -
  let ?a = "handleNewConnection 0 7 (new_transport True)"
  let ?b = "run_first 5 0 ?a"
  have "transport_reachable ?a"
    by (rule tr_step [OF tr_new ts_accept]) (simp_all add: new_transport_def)
  then have b: "transport_reachable ?b" by (rule tr_step [OF _ ts_job])
  have "8 \<notin> set (accept_fds (tr_jobs ?b))" "8 \<notin> fst ` set (tr_connections ?b)" by code_simp+
  from tr_step [OF tr_step [OF b ts_accept [OF this]] ts_job] show ?thesis by (simp add: demo_accepted_def)
qed

theorem connections_accounted_witness:
  "tr_opened demo_accepted = [0, 1] \<and> set (connectionSnapshot demo_accepted) = {0, 1}
   \<and> sm_current_connections (tr_metrics demo_accepted) = 2"
proof -
  have "tr_opened demo_accepted = [0, 1]" "tr_closed demo_accepted = []" "tr_connections demo_accepted = [(7, 0), (8, 1)]" by code_simp+
  with connections_accounted [OF demo_accepted_reachable] show ?thesis by auto
qed

theorem shutdown_completes_witness:
  "\<exists>ls. busy 9 ls (force_close (beginShutdown demo_accepted))
     \<and> tr_quit (run_loops 9 ls (force_close (beginShutdown demo_accepted)))"
proof -
  have "transport_reachable (beginShutdown demo_accepted)" by (rule tr_step [OF demo_accepted_reachable ts_stop])
  moreover have "tr_stopping (beginShutdown demo_accepted)" by code_simp
  ultimately show ?thesis using shutdown_completes [of "beginShutdown demo_accepted" 9] by blast
qed

text \<open>The exception is there: a connection opened late outlives the forced close, and the main loop waits for it.\<close>

definition demo_stopping :: transport where
  "demo_stopping = beginShutdown (handleNewConnection 0 7 (new_transport True))"

theorem late_accept_survives:
  "transport_reachable demo_stopping \<and> tr_stopping demo_stopping
   \<and> (\<exists>s'. late_step\<^sup>*\<^sup>* (force_close demo_stopping) s' \<and> tr_jobs s' = [] \<and> connectionSnapshot s' = [0] \<and> \<not> tr_quit s')"
proof -
  let ?f = "force_close demo_stopping"
  let ?late = "run_accept False 5 0 7 (?f\<lparr>tr_jobs := remove1 (0, J_accept 7) (tr_jobs ?f)\<rparr>)"
  have "transport_reachable (handleNewConnection 0 7 (new_transport True))"
    by (rule tr_step [OF tr_new ts_accept]) (simp_all add: new_transport_def)
  then have "transport_reachable demo_stopping" unfolding demo_stopping_def by (rule tr_step [OF _ ts_stop])
  moreover have "first_job 0 ?f = Some (J_accept 7)" by code_simp
  from ls_late [OF this, of 5] have "late_step ?f ?late" .
  moreover have "tr_stopping demo_stopping" "tr_jobs ?late = []" "connectionSnapshot ?late = [0]" "\<not> tr_quit ?late" by code_simp+
  ultimately show ?thesis by (meson r_into_rtranclp)
qed

end
