(* ===== verification/Loops.thy ===== *)
theory Loops
  imports Timers TransportFacts "HOL-Library.Sublist"
begin

text \<open>
  \<^verbatim>\<open>server/src/EventLoop.cpp\<close>: the loop itself, around the timers and the queue of \<open>Timers\<close>: waiting in
  \<^verbatim>\<open>epoll_wait\<close>, the wakeup descriptor, the table of callbacks, and the turn from one wait to the next, one
  move at a time, so that other threads may act in between; and \<^verbatim>\<open>server/src/Acceptor.cpp\<close>. The
  kernel answers with events for descriptors it was asked to watch.
\<close>

section \<open>State\<close>

text \<open>Where the thread of the loop is: the vector of events or functions it still has to go through.\<close>

datatype phase =
    Checking
  | Waiting int u64
  | Handling "(descriptor \<times> u32) list"
  | Firing
  | Draining "nat list"
  | Exited

text \<open>
  The counter of the wakeup descriptor, the descriptors watched, the table of callbacks, and the
  callers that changed the queue or the flag and have not written to the wakeup descriptor yet.
  Recorded are the functions accepted and run, the turns that emptied the queue, and the callbacks made.
\<close>

record event_loop =
  el_loop :: loop
  el_wakeup_fd :: descriptor
  el_counter :: u64
  el_interest :: "(descriptor \<times> u32) list"
  el_callbacks :: "(descriptor \<times> nat) list"
  el_phase :: phase
  el_owed :: nat
  el_accepted :: "nat list"
  el_ran :: "nat list"
  el_turns :: nat
  el_called :: "(descriptor \<times> nat \<times> u32) list"

definition new_event_loop :: "int \<Rightarrow> int \<Rightarrow> bool \<Rightarrow> event_loop option" where
  "new_event_loop epfd wakeup_fd added =
     (if epfd < 0 \<or> wakeup_fd < 0 \<or> \<not> added then None
      else Some \<lparr>el_loop = new_loop, el_wakeup_fd = nat wakeup_fd, el_counter = 0, el_interest = [(nat wakeup_fd, EPOLLIN)],
             el_callbacks = [], el_phase = Checking, el_owed = 0, el_accepted = [], el_ran = [], el_turns = 0, el_called = []\<rparr>)"

section \<open>Descriptors\<close>

text \<open>\<open>ok\<close> is whether the kernel finds nothing else wrong with the request.\<close>

definition addFd :: "bool \<Rightarrow> descriptor \<Rightarrow> u32 \<Rightarrow> nat \<Rightarrow> event_loop \<Rightarrow> event_loop" where
  "addFd ok fd events cb el =
     (if \<not> ok \<or> map_of (el_interest el) fd \<noteq> None then el
      else el\<lparr>el_interest := AList.update fd events (el_interest el), el_callbacks := AList.update fd cb (el_callbacks el)\<rparr>)"

definition updateFd :: "bool \<Rightarrow> descriptor \<Rightarrow> u32 \<Rightarrow> event_loop \<Rightarrow> event_loop" where
  "updateFd ok fd events el =
     (if \<not> ok \<or> map_of (el_interest el) fd = None then el
      else el\<lparr>el_interest := AList.update fd events (el_interest el)\<rparr>)"

definition removeFd :: "bool \<Rightarrow> descriptor \<Rightarrow> event_loop \<Rightarrow> event_loop" where
  "removeFd ok fd el =
     el\<lparr>el_interest := (if ok then AList.delete fd (el_interest el) else el_interest el),
        el_callbacks := AList.delete fd (el_callbacks el)\<rparr>"

section \<open>Other threads\<close>

text \<open>What a caller did to the queue and the timers; for each function it queued it will write to the wakeup descriptor.\<close>

definition caller :: "loop \<Rightarrow> event_loop \<Rightarrow> event_loop" where
  "caller lp el =
     (let new = drop (length (lp_pending (el_loop el))) (lp_pending lp) in
      el\<lparr>el_loop := lp, el_accepted := el_accepted el @ new, el_owed := el_owed el + length new\<rparr>)"

definition el_quit :: "event_loop \<Rightarrow> event_loop" where
  "el_quit el = el\<lparr>el_loop := loop_quit (el_loop el), el_owed := el_owed el + 1\<rparr>"

text \<open>A counter at its largest value refuses the write.\<close>

definition wakeup :: "event_loop \<Rightarrow> event_loop" where
  "wakeup el = el\<lparr>el_counter := (if el_counter el < - 2 then el_counter el + 1 else el_counter el), el_owed := el_owed el - 1\<rparr>"

section \<open>The thread of the loop\<close>

definition handleWakeUp :: "event_loop \<Rightarrow> event_loop" where
  "handleWakeUp el = el\<lparr>el_counter := 0\<rparr>"

definition handle_event :: "descriptor \<times> u32 \<Rightarrow> event_loop \<Rightarrow> event_loop" where
  "handle_event e el =
     (if fst e = el_wakeup_fd el then handleWakeUp el
      else (case map_of (el_callbacks el) (fst e) of
              Some cb \<Rightarrow> el\<lparr>el_called := el_called el @ [(fst e, cb, snd e)]\<rparr>
            | None \<Rightarrow> el))"

datatype wait_result = Ready "(descriptor \<times> u32) list" | Interrupted | Wait_failed

text \<open>One move of \<^verbatim>\<open>loop\<close>, with a reading of the clock and the answer of \<^verbatim>\<open>epoll_wait\<close> should it be the wait.\<close>

definition loop_move :: "u64 \<Rightarrow> wait_result \<Rightarrow> event_loop \<Rightarrow> event_loop" where
  "loop_move now answer el =
     (let lp = el_loop el in
      (case el_phase el of
         Checking \<Rightarrow>
           (if lp_quit lp then el\<lparr>el_phase := Exited\<rparr>
            else (case getPollTimeoutMs now lp of (timeout_ms, lp1) \<Rightarrow> el\<lparr>el_loop := lp1, el_phase := Waiting timeout_ms now\<rparr>))
       | Waiting timeout_ms at \<Rightarrow>
           (case answer of
              Interrupted \<Rightarrow> el\<lparr>el_phase := Checking\<rparr>
            | Wait_failed \<Rightarrow> el\<lparr>el_phase := Exited\<rparr>
            | Ready events \<Rightarrow> el\<lparr>el_phase := Handling events\<rparr>)
       | Handling events \<Rightarrow>
           (case events of
              [] \<Rightarrow> el\<lparr>el_loop := begin_expired now lp, el_phase := Firing\<rparr>
            | e # es \<Rightarrow> (handle_event e el)\<lparr>el_phase := Handling es\<rparr>)
       | Firing \<Rightarrow>
           (if lp_expired lp = []
            then (case doPending lp of (tasks, lp1) \<Rightarrow> el\<lparr>el_loop := lp1, el_phase := Draining tasks, el_turns := el_turns el + 1\<rparr>)
            else if lp_started lp then el\<lparr>el_loop := finish_expired now lp\<rparr>
            else el\<lparr>el_loop := start_expired lp\<rparr>)
       | Draining tasks \<Rightarrow>
           (case tasks of
              [] \<Rightarrow> el\<lparr>el_phase := Checking\<rparr>
            | f # fs \<Rightarrow> el\<lparr>el_ran := el_ran el @ [f], el_phase := Draining fs\<rparr>)
       | Exited \<Rightarrow> el))"

text \<open>
  What the kernel may answer: at most 1024 events, of descriptors watched, the wakeup descriptor only
  when its counter is not zero, and none at all only when there is a timeout.
\<close>

fun may_answer :: "event_loop \<Rightarrow> int \<Rightarrow> wait_result \<Rightarrow> bool" where
  "may_answer el timeout_ms (Ready events) \<longleftrightarrow>
     length events \<le> 1024 \<and> (events = [] \<longrightarrow> 0 \<le> timeout_ms)
     \<and> (\<forall>e \<in> set events. fst e \<in> fst ` set (el_interest el) \<and> (fst e = el_wakeup_fd el \<longrightarrow> el_counter el \<noteq> 0))"
| "may_answer el timeout_ms Interrupted = True"
| "may_answer el timeout_ms Wait_failed = True"

section \<open>Runs\<close>

text \<open>
  Steps of any thread, labelled with the descriptor when one is added. A closed descriptor is no
  longer watched by the kernel. The wakeup descriptor is private to the loop.
\<close>

inductive el_step :: "descriptor option \<Rightarrow> event_loop \<Rightarrow> event_loop \<Rightarrow> bool" where
  es_queue: "el_step None el (caller (queueInLoop f (el_loop el)) el)"
| es_after: "lp_next_id (el_loop el) + 1 \<noteq> 0 \<Longrightarrow> el_step None el (caller (snd (runAfter now d (el_loop el))) el)"
| es_every: "lp_next_id (el_loop el) + 1 \<noteq> 0 \<Longrightarrow> el_step None el (caller (snd (runEvery now d (el_loop el))) el)"
| es_cancel: "el_step None el (caller (cancelTimer i (el_loop el)) el)"
| es_quit: "el_step None el (el_quit el)"
| es_wakeup: "0 < el_owed el \<Longrightarrow> el_step None el (wakeup el)"
| es_add: "fd \<noteq> el_wakeup_fd el \<Longrightarrow> el_step (Some fd) el (addFd ok fd events cb el)"
| es_update: "fd \<noteq> el_wakeup_fd el \<Longrightarrow> el_step None el (updateFd ok fd events el)"
| es_remove: "fd \<noteq> el_wakeup_fd el \<Longrightarrow> el_step None el (removeFd ok fd el)"
| es_close: "fd \<noteq> el_wakeup_fd el \<Longrightarrow> el_step None el (el\<lparr>el_interest := AList.delete fd (el_interest el)\<rparr>)"
| es_move: "(\<And>t at. el_phase el = Waiting t at \<Longrightarrow> may_answer el t answer) \<Longrightarrow> el_step None el (loop_move now answer el)"

inductive el_reachable :: "event_loop \<Rightarrow> bool" where
  er_new: "new_event_loop epfd wakeup_fd added = Some el \<Longrightarrow> el_reachable el"
| er_step: "el_reachable el \<Longrightarrow> el_step l el el' \<Longrightarrow> el_reachable el'"

definition later :: "event_loop \<Rightarrow> event_loop \<Rightarrow> bool" where
  "later = (\<lambda>el el'. \<exists>l. el_step l el el')\<^sup>*\<^sup>*"

text \<open>The functions taken off the queue and not run yet, and whether the wait is or will be interrupted.\<close>

definition taken :: "event_loop \<Rightarrow> nat list" where
  "taken el = (case el_phase el of Draining fs \<Rightarrow> fs | _ \<Rightarrow> [])"

definition woken :: "event_loop \<Rightarrow> bool" where
  "woken el \<longleftrightarrow> el_counter el \<noteq> 0 \<or> 0 < el_owed el"

section \<open>Invariant\<close>

text \<open>
  A timeout \<open>t\<close> asked for at time \<open>at\<close> ends no later than any live timer is due: it is zero when one is due already, and
  at most the time left of one due within 2^31 ms.
\<close>

definition covers :: "loop \<Rightarrow> int \<Rightarrow> u64 \<Rightarrow> bool" where
  "covers lp t at \<longleftrightarrow>
     (\<forall>i \<in> lp_map lp. (expire_ms lp i \<le> at \<longrightarrow> t = 0)
        \<and> (at < expire_ms lp i \<and> expire_ms lp i - at < 2 ^ 31 \<longrightarrow> 0 \<le> t \<and> t \<le> uint (expire_ms lp i - at)))"

definition el_ok :: "event_loop \<Rightarrow> bool" where
  "el_ok el \<longleftrightarrow>
     loop_reachable (el_loop el)
     \<and> (el_phase el \<noteq> Firing \<longrightarrow> lp_expired (el_loop el) = [])
     \<and> el_accepted el = el_ran el @ taken el @ lp_pending (el_loop el)
     \<and> el_wakeup_fd el \<in> fst ` set (el_interest el)
     \<and> (lp_pending (el_loop el) \<noteq> [] \<longrightarrow> el_phase el = Firing \<or> (\<exists>es. el_phase el = Handling es) \<or> el_phase el = Exited \<or> woken el)
     \<and> (\<forall>t at. el_phase el = Waiting t at \<longrightarrow> (lp_quit (el_loop el) \<longrightarrow> woken el) \<and> (woken el \<or> covers (el_loop el) t at))"

lemma add_effect:
  "lp_pending (snd (add_timer now d v lp)) = (if lp_quit lp then lp_pending lp else lp_pending lp @ [0])"
  "lp_quit (snd (add_timer now d v lp)) = lp_quit lp" "lp_expired (snd (add_timer now d v lp)) = lp_expired lp"
  by (simp_all add: add_timer_def Let_def push_timer_def queueInLoop_def tryQueueInLoop_def)

lemma cancel_effect:
  "lp_pending (cancelTimer i lp) = lp_pending lp" "lp_quit (cancelTimer i lp) = lp_quit lp"
  "lp_expired (cancelTimer i lp) = lp_expired lp" "covers lp t at \<Longrightarrow> covers (cancelTimer i lp) t at"
  by (auto simp: cancelTimer_def covers_def expire_ms_def timer_def update_conv split: if_splits)

lemma fire_effect:
  "lp_pending (begin_expired now lp) = lp_pending lp" "lp_pending (start_expired lp) = lp_pending lp"
  "lp_pending (finish_expired now lp) = lp_pending lp" "lp_pending (snd (getPollTimeoutMs now lp)) = lp_pending lp"
  "lp_expired (snd (getPollTimeoutMs now lp)) = lp_expired lp" "lp_quit (snd (getPollTimeoutMs now lp)) = lp_quit lp"
  "lp_map (snd (getPollTimeoutMs now lp)) = lp_map lp" "expire_ms (snd (getPollTimeoutMs now lp)) = expire_ms lp"
  by (simp_all add: begin_expired_def start_expired_def finish_expired_def getPollTimeoutMs_def push_timer_def Let_def
      expire_ms_def timer_def fun_eq_iff split: prod.split list.split)

lemma ok_caller:
  assumes ok: "el_ok el" and step: "loop_step (el_loop el) lp" and new: "lp_pending lp = lp_pending (el_loop el) @ new"
    and keep: "lp_quit lp = lp_quit (el_loop el)" "lp_expired lp = lp_expired (el_loop el)"
    and wake: "new = [] \<Longrightarrow> \<not> lp_quit lp \<Longrightarrow> (\<And>t at. covers (el_loop el) t at \<Longrightarrow> covers lp t at)"
  shows "el_ok (caller lp el)"
proof -
  have run: "caller lp el = el\<lparr>el_loop := lp, el_accepted := el_accepted el @ new, el_owed := el_owed el + length new\<rparr>"
    by (simp add: caller_def new)
  have woken: "woken (caller lp el) \<longleftrightarrow> woken el \<or> new \<noteq> []" by (auto simp: run woken_def)
  have taken: "taken (caller lp el) = taken el" by (simp add: run taken_def)
  have "loop_reachable lp" using ok step lr_step by (auto simp: el_ok_def)
  with ok keep wake show ?thesis unfolding el_ok_def woken taken by (auto simp: run new)
qed

lemma ok_queue_in: "el_ok el \<Longrightarrow> el_ok (caller (queueInLoop f (el_loop el)) el)"
proof (rule ok_caller [OF _ ls_queue, where new = "if lp_quit (el_loop el) then [] else [f]"])
  show "covers (queueInLoop f (el_loop el)) t at" if "covers (el_loop el) t at" for t at
    using that by (simp add: covers_def queueInLoop_def tryQueueInLoop_def expire_ms_def timer_def)
qed (simp_all add: queueInLoop_def tryQueueInLoop_def)

lemma ok_add_in:
  assumes "el_ok el" and "lp_next_id (el_loop el) + 1 \<noteq> 0"
  shows "el_ok (caller (snd (runAfter now d (el_loop el))) el)" "el_ok (caller (snd (runEvery now d (el_loop el))) el)"
  by (rule ok_caller [OF assms(1) ls_after [OF assms(2)], where new = "if lp_quit (el_loop el) then [] else [0]"]
      ok_caller [OF assms(1) ls_every [OF assms(2)], where new = "if lp_quit (el_loop el) then [] else [0]"];
      auto simp: runAfter_def runEvery_def add_effect split: if_splits)+

lemma ok_cancel_in: "el_ok el \<Longrightarrow> el_ok (caller (cancelTimer i (el_loop el)) el)"
  by (rule ok_caller [OF _ ls_cancel, where new = "[]"]) (simp_all add: cancel_effect)

lemma ok_quit_in: "el_ok el \<Longrightarrow> el_ok (el_quit el)"
proof -
  assume ok: "el_ok el"
  then have "loop_reachable (loop_quit (el_loop el))" using lr_step ls_quit by (auto simp: el_ok_def)
  with ok show ?thesis by (auto simp: el_ok_def el_quit_def loop_quit_def woken_def taken_def)
qed

lemma woken_wakeup: "0 < el_owed el \<Longrightarrow> woken (wakeup el)"
proof -
  have "el_counter el + 1 \<noteq> 0" if "el_counter el < - 2" using that by (auto simp: eq_neg_iff_add_eq_0 [symmetric])
  moreover have "(0 :: u64) < - 2" by code_simp
  then have "el_counter el \<noteq> 0" if "\<not> el_counter el < - 2" using that by auto
  ultimately show ?thesis by (auto simp: woken_def wakeup_def)
qed

lemma ok_wakeup: "el_ok el \<Longrightarrow> 0 < el_owed el \<Longrightarrow> el_ok (wakeup el)"
  using woken_wakeup [of el] by (auto simp: el_ok_def wakeup_def [of el] taken_def)

lemma ok_descriptors:
  assumes "el_ok el" and "fd \<noteq> el_wakeup_fd el"
  shows "el_ok (addFd ok fd events cb el)" "el_ok (updateFd ok fd events el)" "el_ok (removeFd ok fd el)"
    "el_ok (el\<lparr>el_interest := AList.delete fd (el_interest el)\<rparr>)"
  using assms by (auto simp: el_ok_def addFd_def updateFd_def removeFd_def taken_def woken_def dom_update AList.delete_eq)

lemma ok_move:
  assumes ok: "el_ok el"
  shows "el_ok (loop_move now answer el)"
proof -
  note I = ok [unfolded el_ok_def]
  define lp where "lp = el_loop el"
  have r: "loop_reachable lp" using I by (simp add: lp_def)
  note S = lr_step [OF r]
  show ?thesis
  proof (cases "el_phase el")
    case Checking
    have e: "lp_expired lp = []" using I Checking by (simp add: lp_def)
    have "covers (snd (getPollTimeoutMs now lp)) (fst (getPollTimeoutMs now lp)) now"
      using poll_covers [OF ok_reachable [OF r] e, of _ now] by (auto simp: covers_def fire_effect)
    with I S [OF ls_poll [OF e, of now]] e Checking show ?thesis
      by (auto simp: loop_move_def Let_def lp_def [symmetric] el_ok_def fire_effect taken_def woken_def split: prod.split)
         (metis fst_conv snd_conv fire_effect)+
  next
    case (Waiting t at)
    with I show ?thesis by (auto simp: loop_move_def el_ok_def taken_def woken_def split: wait_result.split)
  next
    case (Handling es)
    with I S [OF ls_begin, of now] show ?thesis
      by (auto simp: loop_move_def Let_def lp_def [symmetric] el_ok_def fire_effect taken_def handle_event_def handleWakeUp_def
          split: list.split option.split)
  next
    case Firing
    with I S [OF ls_pending] S [OF ls_start] S [OF ls_finish, of now] show ?thesis
      by (auto simp: loop_move_def Let_def lp_def [symmetric] el_ok_def fire_effect taken_def doPending_def)
  next
    case (Draining fs)
    with I show ?thesis by (auto simp: loop_move_def el_ok_def taken_def woken_def split: list.split)
  next
    case Exited
    with ok show ?thesis by (simp add: loop_move_def)
  qed
qed

lemma new_loop_parts: "lp_expired new_loop = []" "lp_pending new_loop = []"
  by (simp_all add: new_loop_def)

lemma el_reachable_ok: "el_reachable el \<Longrightarrow> el_ok el"
proof (induction rule: el_reachable.induct)
  case (er_new epfd wakeup_fd added el)
  then show ?case by (auto simp: new_event_loop_def el_ok_def lr_new taken_def new_loop_parts split: if_splits)
next
  case (er_step el l el')
  from er_step(2,3) show ?case
    by cases (auto intro: ok_queue_in ok_add_in ok_cancel_in ok_quit_in ok_wakeup ok_descriptors ok_move)
qed

section \<open>What is queued is run\<close>

lemma step_covers:
  assumes "el_step l el el'" and ok: "el_ok el"
  shows "prefix (el_accepted el) (el_accepted el')"
    "(el_turns el' = el_turns el \<and> prefix (el_ran el @ taken el) (el_ran el' @ taken el'))
     \<or> (el_turns el' = el_turns el + 1 \<and> el_ran el' @ taken el' = el_accepted el')"
proof -
  have move: "(el_turns el1 = el_turns el \<and> el_ran el1 @ taken el1 = el_ran el @ taken el)
      \<or> (el_turns el1 = el_turns el + 1 \<and> el_ran el1 @ taken el1 = el_accepted el)" and keep: "el_accepted el1 = el_accepted el"
    if "el1 = loop_move now answer el" for el1 now answer
  proof -
    have "el_accepted el = el_ran el @ taken el @ lp_pending (el_loop el)" using ok by (simp add: el_ok_def)
    then show "(el_turns el1 = el_turns el \<and> el_ran el1 @ taken el1 = el_ran el @ taken el)
      \<or> (el_turns el1 = el_turns el + 1 \<and> el_ran el1 @ taken el1 = el_accepted el)"
      unfolding that
      by (cases "el_phase el")
         (simp_all add: loop_move_def Let_def taken_def handle_event_def handleWakeUp_def doPending_def
           split: prod.split wait_result.split list.split option.split)
    show "el_accepted el1 = el_accepted el"
      unfolding that
      by (simp add: loop_move_def Let_def handle_event_def handleWakeUp_def doPending_def
           split: prod.split phase.split wait_result.split list.split option.split)
  qed
  show "prefix (el_accepted el) (el_accepted el')"
    using assms(1)
  proof cases
    case (es_move answer now)
    with keep [OF es_move(2)] show ?thesis by simp
  qed (simp_all add: caller_def el_quit_def wakeup_def addFd_def updateFd_def removeFd_def Let_def)
  show "(el_turns el' = el_turns el \<and> prefix (el_ran el @ taken el) (el_ran el' @ taken el'))
     \<or> (el_turns el' = el_turns el + 1 \<and> el_ran el' @ taken el' = el_accepted el')"
    using assms(1)
  proof cases
    case (es_move answer now)
    with move [OF es_move(2)] keep [OF es_move(2)] show ?thesis by auto
  qed (simp_all add: caller_def el_quit_def wakeup_def addFd_def updateFd_def removeFd_def taken_def Let_def)
qed

lemma later_covers:
  assumes "later el el'" and "el_reachable el"
  shows "el_reachable el' \<and> prefix (el_accepted el) (el_accepted el') \<and> el_turns el \<le> el_turns el'
     \<and> (el_turns el < el_turns el' \<longrightarrow> prefix (el_accepted el) (el_ran el' @ taken el'))"
  using assms unfolding later_def
proof (induction rule: rtranclp_induct)
  case (step y z)
  then obtain l where l: "el_step l y z" by blast
  have y: "el_reachable y" using step by blast
  note C = step_covers [OF l el_reachable_ok [OF y]]
  from step C er_step [OF y l] show ?case by (auto intro: prefix_order.trans)
qed simp

text \<open>The moves left to the thread of the loop until it waits again, when no other thread acts.\<close>

definition own_work :: "event_loop \<Rightarrow> nat" where
  "own_work el =
     (let lp = el_loop el in
      (case el_phase el of
         Waiting _ _ \<Rightarrow> 0
       | Exited \<Rightarrow> 0
       | Checking \<Rightarrow> 1
       | Draining fs \<Rightarrow> 2 + length fs
       | Firing \<Rightarrow> 4 + length (lp_pending lp) + 2 * length (lp_expired lp) - (if lp_started lp then 1 else 0)
       | Handling es \<Rightarrow> 5 + length es + length (lp_pending lp) + 2 * length (lp_heap lp)))"

lemma collect_length: "collect_expired lp now h m = (ex, rest, m') \<Longrightarrow> length ex \<le> length h"
  by (induction h arbitrary: m ex) (fastforce split: if_splits prod.splits)+

lemma own_work_decreases:
  assumes "own_work el \<noteq> 0"
  shows "own_work (loop_move now answer el) < own_work el"
proof (cases "el_phase el")
  case (Handling es)
  obtain ex rest m where c: "collect_expired (el_loop el) now (lp_heap (el_loop el)) (lp_map (el_loop el)) = (ex, rest, m)" by (metis prod_cases3)
  from collect_length [OF c] have "length (lp_expired (begin_expired now (el_loop el))) \<le> length (lp_heap (el_loop el))"
    "\<not> lp_started (begin_expired now (el_loop el))"
    by (simp_all add: begin_expired_def c)
  with Handling show ?thesis
    by (auto simp: own_work_def loop_move_def Let_def fire_effect handle_event_def handleWakeUp_def split: list.split option.split)
next
  case Firing
  then show ?thesis
    by (cases "lp_expired (el_loop el)")
       (auto simp: own_work_def loop_move_def Let_def doPending_def start_expired_def finish_expired_def push_timer_def)
qed (use assms in \<open>auto simp: own_work_def loop_move_def Let_def split: prod.split list.split\<close>)

lemma turn_ends: "\<exists>n \<le> own_work el. own_work ((loop_move now answer ^^ n) el) = 0"
proof (induction "own_work el" arbitrary: el rule: less_induct)
  case less
  show ?case
  proof (cases "own_work el = 0")
    case False
    note D = own_work_decreases [OF this, of now answer]
    from less [OF D] obtain n where "n \<le> own_work (loop_move now answer el)" "own_work ((loop_move now answer ^^ n) (loop_move now answer el)) = 0"
      by blast
    with D show ?thesis by (intro exI [of _ "Suc n"]) (simp add: funpow_swap1)
  qed auto
qed

lemma own_rest_iff: "own_work el = 0 \<longleftrightarrow> (\<exists>t at. el_phase el = Waiting t at) \<or> el_phase el = Exited"
  by (auto simp: own_work_def Let_def split: phase.split)

text \<open>
  C27. A loop serves what is queued: in every state it reaches, under any interleaving with callers, callbacks and
  wakeups, the functions accepted are those run, those taken and those queued, in order and each once; a state
  reached later, after a turn begun since and gone through, has run all of them; the thread
  of the loop comes to wait again after a bounded number of its own moves. No timer is missed: a turn collects
  every live timer that is due. And it sleeps only when there is nothing to do: while the loop waits and no
  wakeup is on its way, the queue is empty, it was not asked to quit, and its timeout ends no later than any live
  timer (of the next 2^31 ms) is due; with a wakeup written, \<^verbatim>\<open>epoll_wait\<close> can return.
\<close>

theorem loop_serves_all:
  assumes "el_reachable el"
  shows "el_accepted el = el_ran el @ taken el @ lp_pending (el_loop el)
     \<and> (\<forall>el'. later el el' \<and> el_turns el < el_turns el' \<and> taken el' = [] \<longrightarrow> prefix (el_accepted el) (el_ran el'))
     \<and> (\<exists>n \<le> own_work el. case el_phase ((loop_move now answer ^^ n) el) of Waiting _ _ \<Rightarrow> True | Exited \<Rightarrow> True | _ \<Rightarrow> False)
     \<and> (\<forall>i \<in> lp_map (el_loop el). el_phase el = Handling [] \<and> expire_ms (el_loop el) i \<le> now \<longrightarrow>
          i \<in> set (lp_expired (el_loop (loop_move now answer el))))
     \<and> (\<forall>t at. el_phase el = Waiting t at \<longrightarrow>
          (if woken el then 0 < el_owed el \<or> may_answer el t (Ready [(el_wakeup_fd el, EPOLLIN)])
           else lp_pending (el_loop el) = [] \<and> \<not> lp_quit (el_loop el) \<and> covers (el_loop el) t at))"
proof -
  have ok: "el_ok el" by (rule el_reachable_ok [OF assms])
  note I = ok [unfolded el_ok_def]
  have served: "prefix (el_accepted el) (el_ran el')" if "later el el'" "el_turns el < el_turns el'" "taken el' = []" for el'
    using later_covers [OF that(1) assms] that by simp
  obtain n where "n \<le> own_work el" "own_work ((loop_move now answer ^^ n) el) = 0" using turn_ends by blast
  then have ends: "\<exists>n \<le> own_work el. case el_phase ((loop_move now answer ^^ n) el) of Waiting _ _ \<Rightarrow> True | Exited \<Rightarrow> True | _ \<Rightarrow> False"
    unfolding own_rest_iff by (intro exI [of _ n]) auto
  have sleeps: "if woken el then 0 < el_owed el \<or> may_answer el t (Ready [(el_wakeup_fd el, EPOLLIN)])
      else lp_pending (el_loop el) = [] \<and> \<not> lp_quit (el_loop el) \<and> covers (el_loop el) t at" if "el_phase el = Waiting t at" for t at
    using I that by (auto simp: woken_def)
  have due: "i \<in> set (lp_expired (el_loop (loop_move now answer el)))"
    if "i \<in> lp_map (el_loop el)" "el_phase el = Handling []" "expire_ms (el_loop el) i \<le> now" for i
    using begin_collects [OF ok_reachable _ that(1,3)] I that(2) by (simp add: loop_move_def)
  show ?thesis using I served ends due sleeps by (intro conjI allI impI ballI) blast+
qed

section \<open>Removed descriptors\<close>

definition calls_of :: "descriptor \<Rightarrow> event_loop \<Rightarrow> (descriptor \<times> nat \<times> u32) list" where
  "calls_of fd el = filter (\<lambda>c. fst c = fd) (el_called el)"

lemma step_silent:
  assumes "el_step l el el'" and "l \<noteq> Some fd" and "map_of (el_callbacks el) fd = None"
  shows "map_of (el_callbacks el') fd = None \<and> calls_of fd el' = calls_of fd el"
  using assms(1)
proof cases
  case (es_move answer now)
  have "map_of (el_callbacks (loop_move now answer el)) fd = None \<and> calls_of fd (loop_move now answer el) = calls_of fd el"
    using assms(3)
    by (cases "el_phase el")
       (auto simp: loop_move_def Let_def calls_of_def handle_event_def handleWakeUp_def doPending_def
         split: prod.split wait_result.split list.split option.split)
  with es_move(2) show ?thesis by simp
qed (use assms(2,3) in \<open>auto simp: caller_def el_quit_def wakeup_def addFd_def updateFd_def removeFd_def calls_of_def Let_def
       update_conv delete_conv\<close>)

text \<open>
  A removed descriptor is silent: after \<^verbatim>\<open>removeFd\<close>, whatever the kernel answered to the kernel's side of the removal
  and whatever events of the descriptor were already collected, no callback is made for it until it is added again.
\<close>

theorem removed_descriptor_silent:
  assumes "(\<lambda>a b. \<exists>l. l \<noteq> Some fd \<and> el_step l a b)\<^sup>*\<^sup>* (removeFd ok fd el) el'"
  shows "calls_of fd el' = calls_of fd el"
proof -
  have "map_of (el_callbacks el') fd = None \<and> calls_of fd el' = calls_of fd (removeFd ok fd el)"
    using assms
  proof (induction rule: rtranclp_induct)
    case base
    show ?case by (simp add: removeFd_def delete_conv)
  next
    case (step y z)
    then show ?case using step_silent by metis
  qed
  then show ?thesis by (simp add: calls_of_def removeFd_def)
qed

text \<open>A loop with a function queued by another thread while it waits.\<close>

definition demo_waiting :: event_loop where
  "demo_waiting = wakeup (caller (queueInLoop 7 new_loop)
     (loop_move 100 Interrupted (the (new_event_loop 3 4 True))))"

lemma demo_waiting_reachable: "el_reachable demo_waiting"
proof -
  define el0 where "el0 = the (new_event_loop 3 4 True)"
  have "new_event_loop 3 4 True = Some el0" by (simp add: el0_def new_event_loop_def)
  note R0 = er_new [OF this]
  have p: "el_phase el0 = Checking" "el_loop (loop_move 100 Interrupted el0) = new_loop" "0 < el_owed (caller (queueInLoop 7 new_loop) (loop_move 100 Interrupted el0))"
    unfolding el0_def by code_simp+
  have "el_step None el0 (loop_move 100 Interrupted el0)" by (rule es_move) (simp add: p)
  note R1 = er_step [OF R0 this]
  from er_step [OF R1 es_queue [of _ 7]] have "el_reachable (caller (queueInLoop 7 new_loop) (loop_move 100 Interrupted el0))" by (simp add: p)
  from er_step [OF this es_wakeup [OF p(3)]] show ?thesis by (simp add: demo_waiting_def el0_def)
qed

theorem loop_serves_all_witness:
  "el_phase demo_waiting = Waiting (- 1) 100 \<and> lp_pending (el_loop demo_waiting) = [7] \<and> woken demo_waiting
     \<and> may_answer demo_waiting (- 1) (Ready [(4, EPOLLIN)])"
proof -
  have p: "el_phase demo_waiting = Waiting (- 1) 100" "lp_pending (el_loop demo_waiting) = [7]" "woken demo_waiting"
    "el_owed demo_waiting = 0" "el_wakeup_fd demo_waiting = 4" by code_simp+
  with loop_serves_all [OF demo_waiting_reachable] show ?thesis by auto
qed

section \<open>Accepting\<close>

text \<open>The listening descriptor, and the descriptors the acceptor has closed.\<close>

record Acceptor =
  ac_listen_fd :: "descriptor option"
  ac_closed :: "descriptor list"

definition new_acceptor :: Acceptor where
  "new_acceptor = \<lparr>ac_listen_fd = None, ac_closed = []\<rparr>"

text \<open>What the calls of \<^verbatim>\<open>startListen\<close> return: the descriptor of \<^verbatim>\<open>socket\<close>, and which of the others succeed.\<close>

record listen_calls =
  lc_socket :: int
  lc_address :: bool
  lc_bound :: bool
  lc_listening :: bool

definition startListen :: "listen_calls \<Rightarrow> bool \<Rightarrow> nat \<Rightarrow> event_loop \<times> Acceptor \<Rightarrow> bool \<times> event_loop \<times> Acceptor" where
  "startListen calls ok handler = (\<lambda>(el, ac).
     if lc_socket calls < 0 then (False, el, ac\<lparr>ac_listen_fd := None\<rparr>)
     else (let fd = nat (lc_socket calls); failed = (False, el, ac\<lparr>ac_listen_fd := None, ac_closed := ac_closed ac @ [fd]\<rparr>) in
           if \<not> lc_address calls then failed
           else if \<not> lc_bound calls then failed
           else if \<not> lc_listening calls then failed
           else (True, addFd ok fd EPOLLIN handler el, ac\<lparr>ac_listen_fd := Some fd\<rparr>)))"

definition stopListen :: "bool \<Rightarrow> event_loop \<times> Acceptor \<Rightarrow> event_loop \<times> Acceptor" where
  "stopListen ok = (\<lambda>(el, ac).
     case ac_listen_fd ac of
       None \<Rightarrow> (el, ac)
     | Some fd \<Rightarrow>
         (let el1 = removeFd ok fd el in
          (el1\<lparr>el_interest := AList.delete fd (el_interest el1)\<rparr>, ac\<lparr>ac_listen_fd := None, ac_closed := ac_closed ac @ [fd]\<rparr>)))"

datatype accept_result = Accepted descriptor | Would_block | Accept_interrupted | Accept_failed

text \<open>
  \<^verbatim>\<open>handleAccept\<close> over the answers of \<^verbatim>\<open>accept\<close>, the last of which is that none is left; the
  descriptors closed when no callback is set.
\<close>

fun handleAccept :: "(descriptor \<Rightarrow> 's \<Rightarrow> 's) option \<Rightarrow> accept_result list \<Rightarrow> 's \<Rightarrow> descriptor list \<times> 's" where
  "handleAccept callback [] s = ([], s)"
| "handleAccept callback (Accepted fd # answers) s =
     (case callback of
        Some f \<Rightarrow> handleAccept callback answers (f fd s)
      | None \<Rightarrow> (case handleAccept callback answers s of (closed, s1) \<Rightarrow> (fd # closed, s1)))"
| "handleAccept callback (Accept_interrupted # answers) s = handleAccept callback answers s"
| "handleAccept callback (Would_block # answers) s = ([], s)"
| "handleAccept callback (Accept_failed # answers) s = ([], s)"

fun accepted :: "accept_result list \<Rightarrow> descriptor list" where
  "accepted (Accepted fd # answers) = fd # accepted answers"
| "accepted (Accept_interrupted # answers) = accepted answers"
| "accepted _ = []"

text \<open>The callback of the server, with the loop that is next for each descriptor.\<close>

definition accept_into :: "(descriptor \<Rightarrow> loop_ref) \<Rightarrow> descriptor \<Rightarrow> Transport.transport \<Rightarrow> Transport.transport" where
  "accept_into next_loop fd = handleNewConnection (next_loop fd) fd"

text \<open>
  A turn of accepting hands every connection on: from any state of the transport and for descriptors the kernel has not
  given out, it leaves a state the transport reaches, closes nothing itself, and queues, unless the server is
  stopping, exactly one function per accepted connection, in their order, each in its own loop.
\<close>

theorem accepting_hands_on:
  assumes "transport_reachable s" and "distinct (accepted answers)"
    and "set (accepted answers) \<inter> (set (accept_fds (tr_jobs s)) \<union> fst ` set (tr_connections s)) = {}" and "\<not> tr_quit s"
  shows "fst (handleAccept (Some (accept_into next_loop)) answers s) = []
     \<and> transport_reachable (snd (handleAccept (Some (accept_into next_loop)) answers s))
     \<and> tr_jobs (snd (handleAccept (Some (accept_into next_loop)) answers s))
         = tr_jobs s @ (if tr_stopping s then [] else map (\<lambda>fd. (next_loop fd, J_accept fd)) (accepted answers))"
  using assms
proof (induction answers arbitrary: s rule: accepted.induct)
  case (1 fd answers)
  let ?s = "accept_into next_loop fd s"
  have jobs: "tr_jobs ?s = tr_jobs s @ (if tr_stopping s then [] else [(next_loop fd, J_accept fd)])" "tr_connections ?s = tr_connections s"
    "tr_quit ?s = tr_quit s" "tr_stopping ?s = tr_stopping s"
    using 1(5) by (simp_all add: accept_into_def handleNewConnection_def queue_job_def)
  have "transport_reachable ?s" unfolding accept_into_def using 1 by (intro tr_step [OF 1(2) ts_accept]) auto
  from 1(1) [OF this] 1(3-5) show ?case by (auto simp: jobs)
qed simp_all

text \<open>Listening leaks no descriptor: it fails with the descriptor closed, and stopping closes the one it has and silences it.\<close>

lemma listening_accounted:
  assumes "startListen calls ok handler (el, ac) = (b, el1, ac1)"
  shows "b \<longleftrightarrow> 0 \<le> lc_socket calls \<and> lc_address calls \<and> lc_bound calls \<and> lc_listening calls"
    and "ac_listen_fd ac1 = (if b then Some (nat (lc_socket calls)) else None)"
    and "ac_closed ac1 = ac_closed ac @ (if b \<or> lc_socket calls < 0 then [] else [nat (lc_socket calls)])"
    and "\<not> b \<Longrightarrow> el1 = el"
  using assms by (auto simp: startListen_def Let_def split: if_splits)

end
