(* ===== verification/Pool.thy ===== *)
theory Pool
  imports Prelude
begin

text \<open>
  \<^verbatim>\<open>common/src/Thread_pool.cpp\<close>: the thread pool with its mutex and condition variable, as a step
  relation over its threads and its callers; and \<^verbatim>\<open>server/src/EventLoopThreadPool.cpp\<close>, which hands out
  the loops of the network threads in turn. A task is identified by a number; what happens under
  the mutex is one step, a notification after it another.
\<close>

section \<open>The thread pool\<close>

text \<open>
  A worker is about to take the lock and test the condition, waits in \<^verbatim>\<open>wait\<close>, runs a task, or has
  returned.
\<close>

datatype worker_state = W_ready | W_asleep | W_running nat | W_gone

text \<open>
  \<open>tp_notifies\<close> counts callers of \<^verbatim>\<open>addTask\<close> between the end of the locked part and \<^verbatim>\<open>notify_one\<close>,
  \<open>tp_notify_all\<close> says that \<^verbatim>\<open>stop\<close> is before its \<^verbatim>\<open>notify_all\<close>; \<open>tp_added\<close>, \<open>tp_taken\<close> and \<open>tp_finished\<close>
  record the tasks accepted, taken from the queue and run to the end.
\<close>

record ThreadPool =
  tp_workers :: "worker_state list"
  tp_tasks :: "nat list"
  tp_stop :: bool
  tp_accepting :: bool
  tp_notifies :: nat
  tp_notify_all :: bool
  tp_added :: "nat list"
  tp_taken :: "nat list"
  tp_finished :: "nat list"

definition new_pool :: "nat \<Rightarrow> ThreadPool" where
  "new_pool thread_num =
     \<lparr>tp_workers = replicate thread_num W_ready, tp_tasks = [], tp_stop = False, tp_accepting = True, tp_notifies = 0,
      tp_notify_all = False, tp_added = [], tp_taken = [], tp_finished = []\<rparr>"

definition addTask :: "nat \<Rightarrow> ThreadPool \<Rightarrow> bool \<times> ThreadPool" where
  "addTask task p =
     (if \<not> tp_accepting p then (False, p)
      else (True, p\<lparr>tp_tasks := tp_tasks p @ [task], tp_added := tp_added p @ [task], tp_notifies := tp_notifies p + 1\<rparr>))"

text \<open>\<^verbatim>\<open>notify_one\<close> wakes a waiting worker, here number \<open>i\<close>, when there is one.\<close>

definition notify_one :: "nat \<Rightarrow> ThreadPool \<Rightarrow> ThreadPool" where
  "notify_one i p =
     (let p1 = p\<lparr>tp_notifies := tp_notifies p - 1\<rparr> in
      if W_asleep \<in> set (tp_workers p) then p1\<lparr>tp_workers := (tp_workers p)[i := W_ready]\<rparr> else p1)"

definition pool_stop :: "ThreadPool \<Rightarrow> ThreadPool" where
  "pool_stop p = p\<lparr>tp_stop := True, tp_accepting := False, tp_notify_all := True\<rparr>"

definition notify_all :: "ThreadPool \<Rightarrow> ThreadPool" where
  "notify_all p =
     p\<lparr>tp_notify_all := False, tp_workers := map (\<lambda>w. if w = W_asleep then W_ready else w) (tp_workers p)\<rparr>"

definition pool_shutdown :: "ThreadPool \<Rightarrow> ThreadPool" where
  "pool_shutdown p = p\<lparr>tp_accepting := False\<rparr>"

text \<open>The locked part of a round of \<^verbatim>\<open>worker\<close>, and the end of the task it runs.\<close>

definition worker_take :: "nat \<Rightarrow> ThreadPool \<Rightarrow> ThreadPool" where
  "worker_take i p =
     (case tp_tasks p of
        [] \<Rightarrow> p\<lparr>tp_workers := (tp_workers p)[i := if tp_stop p then W_gone else W_asleep]\<rparr>
      | task # rest \<Rightarrow>
          p\<lparr>tp_workers := (tp_workers p)[i := W_running task], tp_tasks := rest, tp_taken := tp_taken p @ [task]\<rparr>)"

definition worker_finish :: "nat \<Rightarrow> nat \<Rightarrow> ThreadPool \<Rightarrow> ThreadPool" where
  "worker_finish i task p =
     p\<lparr>tp_workers := (tp_workers p)[i := W_ready], tp_finished := tp_finished p @ [task]\<rparr>"

text \<open>What the pool's threads and the callers already in it do next.\<close>

inductive pool_move :: "ThreadPool \<Rightarrow> ThreadPool \<Rightarrow> bool" where
  pm_notify: "0 < tp_notifies p \<Longrightarrow> i < length (tp_workers p) \<Longrightarrow> tp_workers p ! i = W_asleep \<Longrightarrow> pool_move p (notify_one i p)"
| pm_notify_none: "0 < tp_notifies p \<Longrightarrow> W_asleep \<notin> set (tp_workers p) \<Longrightarrow> pool_move p (notify_one 0 p)"
| pm_notify_all: "tp_notify_all p \<Longrightarrow> pool_move p (notify_all p)"
| pm_take: "i < length (tp_workers p) \<Longrightarrow> tp_workers p ! i = W_ready \<Longrightarrow> pool_move p (worker_take i p)"
| pm_finish: "i < length (tp_workers p) \<Longrightarrow> tp_workers p ! i = W_running task \<Longrightarrow> pool_move p (worker_finish i task p)"

text \<open>Calls from outside, and a worker that wakes without a reason.\<close>

inductive pool_step :: "ThreadPool \<Rightarrow> ThreadPool \<Rightarrow> bool" where
  ps_move: "pool_move p p' \<Longrightarrow> pool_step p p'"
| ps_add: "pool_step p (snd (addTask task p))"
| ps_stop: "pool_step p (pool_stop p)"
| ps_shutdown: "pool_step p (pool_shutdown p)"
| ps_spurious: "i < length (tp_workers p) \<Longrightarrow> tp_workers p ! i = W_asleep \<Longrightarrow> pool_step p (p\<lparr>tp_workers := (tp_workers p)[i := W_ready]\<rparr>)"

inductive pool_reachable :: "nat \<Rightarrow> ThreadPool \<Rightarrow> bool" for n where
  pool_new: "pool_reachable n (new_pool n)"
| pool_next: "pool_reachable n p \<Longrightarrow> pool_step p p' \<Longrightarrow> pool_reachable n p'"

section \<open>Invariant\<close>

definition workers_in :: "worker_state \<Rightarrow> ThreadPool \<Rightarrow> nat" where
  "workers_in w p = count_list (tp_workers p) w"

definition running_task :: "worker_state \<Rightarrow> nat option" where
  "running_task w = (case w of W_running task \<Rightarrow> Some task | _ \<Rightarrow> None)"

definition running :: "worker_state list \<Rightarrow> nat list" where
  "running ws = List.map_filter running_task ws"

text \<open>
  No wakeup is lost: as long as some worker sleeps, there are as many workers awake or about to be
  woken as tasks waiting.
\<close>

definition pool_ok :: "nat \<Rightarrow> ThreadPool \<Rightarrow> bool" where
  "pool_ok n p \<longleftrightarrow>
     length (tp_workers p) = n \<and> tp_added p = tp_taken p @ tp_tasks p
     \<and> mset (tp_taken p) = mset (tp_finished p) + mset (running (tp_workers p))
     \<and> (0 < workers_in W_asleep p \<longrightarrow> length (tp_tasks p) \<le> workers_in W_ready p + tp_notifies p)
     \<and> (tp_stop p \<longrightarrow> \<not> tp_accepting p \<and> (tp_notify_all p \<or> workers_in W_asleep p = 0))
     \<and> (W_gone \<in> set (tp_workers p) \<longrightarrow> tp_stop p \<and> tp_tasks p = [])"

lemma count_list_update:
  "i < length xs \<Longrightarrow> count_list (xs[i := w]) v + (if xs ! i = v then 1 else 0) = count_list xs v + (if w = v then 1 else 0)"
proof (induction xs arbitrary: i)
  case (Cons x xs)
  show ?case
  proof (cases i)
    case (Suc j)
    with Cons.IH [of j] Cons.prems show ?thesis by (auto split: if_splits)
  qed auto
qed simp

lemma running_update:
  "i < length ws \<Longrightarrow> mset (running (ws[i := w])) + mset (running [ws ! i]) = mset (running ws) + mset (running [w])"
proof (induction ws arbitrary: i)
  case (Cons x ws)
  have cons: "mset (running (v # vs)) = mset (running [v]) + mset (running vs)" for v vs
    by (simp add: running_def map_filter_simps split: option.splits)
  show ?case
  proof (cases i)
    case (Suc j)
    with Cons have "mset (running (ws[j := w])) + mset (running [ws ! j]) = mset (running ws) + mset (running [w])" by simp
    with Suc show ?thesis by (simp add: cons [of x ws] cons [of x "ws[j := w]"])
  qed (simp add: cons [of w ws] cons [of x ws])
qed simp

lemma running_simps [simp]:
  "running [W_ready] = []" "running [W_asleep] = []" "running [W_gone] = []" "running [W_running task] = [task]"
  by (simp_all add: running_def map_filter_simps running_task_def)


lemma workers_update:
  assumes "i < length (tp_workers p)" and "tp_workers p' = (tp_workers p)[i := w]" and "tp_workers p ! i = u" and "u \<noteq> w"
  shows "workers_in w p' = workers_in w p + 1" "workers_in u p' + 1 = workers_in u p"
    "v \<noteq> u \<Longrightarrow> v \<noteq> w \<Longrightarrow> workers_in v p' = workers_in v p"
  using assms count_list_update [OF assms(1), of w w] count_list_update [OF assms(1), of w u] count_list_update [OF assms(1), of w v]
  by (simp_all add: workers_in_def)

lemma worker_counted: "i < length (tp_workers p) \<Longrightarrow> 0 < workers_in (tp_workers p ! i) p"
  by (metis count_list_0_iff gr0I nth_mem workers_in_def)

lemma none_asleep: "workers_in w p = 0 \<longleftrightarrow> w \<notin> set (tp_workers p)"
  by (simp add: workers_in_def count_list_0_iff)

lemma ok_wake:
  assumes ok: "pool_ok n p" and i: "i < length (tp_workers p)" "tp_workers p ! i = W_asleep" and k: "k \<le> 1" "k \<le> tp_notifies p"
  shows "pool_ok n (p\<lparr>tp_notifies := tp_notifies p - k, tp_workers := (tp_workers p)[i := W_ready]\<rparr>)"
proof -
  let ?p = "p\<lparr>tp_notifies := tp_notifies p - k, tp_workers := (tp_workers p)[i := W_ready]\<rparr>"
  note U = workers_update [OF i(1) _ i(2), of ?p W_ready]
  have run: "mset (running (tp_workers ?p)) = mset (running (tp_workers p))" using running_update [OF i(1), of W_ready] i(2) by simp
  have gone: "W_gone \<in> set (tp_workers ?p) \<Longrightarrow> W_gone \<in> set (tp_workers p)" by (auto dest: subsetD [OF set_update_subset_insert])
  have "W_ready \<in> set (tp_workers ?p)" using i(1) by (simp add: set_update_memI)
  with ok k gone run U show ?thesis by (auto simp: pool_ok_def)
qed

lemma ok_take:
  assumes ok: "pool_ok n p" and i: "i < length (tp_workers p)" "tp_workers p ! i = W_ready"
  shows "pool_ok n (worker_take i p)"
proof (cases "tp_tasks p")
  case Nil
  let ?w = "if tp_stop p then W_gone else W_asleep"
  note U = workers_update [OF i(1) _ i(2), of "worker_take i p" ?w]
  have run: "mset (running (tp_workers (worker_take i p))) = mset (running (tp_workers p))"
    using running_update [OF i(1), of ?w] i(2) Nil by (simp add: worker_take_def split: if_splits)
  have gone: "W_gone \<in> set (tp_workers (worker_take i p)) \<Longrightarrow> tp_stop p \<or> W_gone \<in> set (tp_workers p)"
    using Nil by (auto simp: worker_take_def dest: subsetD [OF set_update_subset_insert] split: if_splits)
  have "workers_in W_asleep (worker_take i p) = workers_in W_asleep p" if "tp_stop p"
    using U(3) [of W_asleep] Nil that by (simp add: worker_take_def)
  with ok run gone Nil show ?thesis by (auto simp: pool_ok_def worker_take_def)
next
  case (Cons task rest)
  note U = workers_update [OF i(1) _ i(2), of "worker_take i p" "W_running task"]
  have ws: "tp_workers (worker_take i p) = (tp_workers p)[i := W_running task]" by (simp add: worker_take_def Cons)
  have run: "mset (running (tp_workers (worker_take i p))) = add_mset task (mset (running (tp_workers p)))"
    using running_update [OF i(1), of "W_running task"] i(2) ws by simp
  have gone: "W_gone \<in> set (tp_workers (worker_take i p)) \<Longrightarrow> W_gone \<in> set (tp_workers p)"
    unfolding ws by (auto dest: subsetD [OF set_update_subset_insert])
  have "workers_in W_asleep (worker_take i p) = workers_in W_asleep p" "workers_in W_ready (worker_take i p) + 1 = workers_in W_ready p"
    using U(3) [OF ws, of W_asleep] U(2) [OF ws] by simp_all
  with ok run gone Cons show ?thesis by (auto simp: pool_ok_def worker_take_def)
qed

lemma ok_worker_finish:
  assumes ok: "pool_ok n p" and i: "i < length (tp_workers p)" "tp_workers p ! i = W_running task"
  shows "pool_ok n (worker_finish i task p)"
proof -
  have ws: "tp_workers (worker_finish i task p) = (tp_workers p)[i := W_ready]" by (simp add: worker_finish_def)
  note U = workers_update [OF i(1) ws i(2)]
  have run: "add_mset task (mset (running (tp_workers (worker_finish i task p)))) = mset (running (tp_workers p))"
    using running_update [OF i(1), of W_ready] i(2) ws by simp
  have gone: "W_gone \<in> set (tp_workers (worker_finish i task p)) \<Longrightarrow> W_gone \<in> set (tp_workers p)"
    unfolding ws by (auto dest: subsetD [OF set_update_subset_insert])
  have "workers_in W_asleep (worker_finish i task p) = workers_in W_asleep p" "workers_in W_ready (worker_finish i task p) = workers_in W_ready p + 1"
    using U(3) [of W_asleep] U(1) by simp_all
  with ok run gone show ?thesis by (auto simp: pool_ok_def worker_finish_def)
qed

lemma ok_notify_all: "pool_ok n p \<Longrightarrow> pool_ok n (notify_all p)"
proof -
  assume ok: "pool_ok n p"
  have "running (map (\<lambda>w. if w = W_asleep then W_ready else w) ws) = running ws" for ws
    by (induction ws) (simp_all add: running_def map_filter_simps running_task_def split: option.splits worker_state.splits)
  moreover have "workers_in W_asleep (notify_all p) = 0" by (auto simp: none_asleep notify_all_def)
  ultimately show ?thesis using ok by (auto simp: pool_ok_def notify_all_def)
qed

lemma ok_pool_move:
  assumes "pool_move p p'" and ok: "pool_ok n p"
  shows "pool_ok n p'"
  using assms(1)
proof cases
  case (pm_notify i)
  then have "W_asleep \<in> set (tp_workers p)" by (metis nth_mem)
  with pm_notify ok_wake [OF ok pm_notify(3,4), of 1] show ?thesis by (simp add: notify_one_def)
next
  case pm_notify_none
  with ok show ?thesis by (simp add: notify_one_def pool_ok_def workers_in_def count_list_0_iff)
qed (use ok_notify_all ok_take ok_worker_finish ok in auto)

lemma ok_pool_step:
  assumes "pool_step p p'" and ok: "pool_ok n p"
  shows "pool_ok n p'"
  using assms(1)
proof cases
  case (ps_spurious i)
  with ok_wake [OF ok ps_spurious(2,3), of 0] show ?thesis by simp
next
  case (ps_add task)
  with ok show ?thesis by (auto simp: addTask_def pool_ok_def workers_in_def)
qed (use ok ok_pool_move in \<open>auto simp: pool_ok_def workers_in_def pool_stop_def pool_shutdown_def\<close>)

lemma pool_reachable_ok: "pool_reachable n p \<Longrightarrow> pool_ok n p"
proof (induction rule: pool_reachable.induct)
  case pool_new
  have "running (replicate n W_ready) = []" by (induction n) (simp_all add: running_def map_filter_simps running_task_def)
  then show ?case by (auto simp: new_pool_def pool_ok_def workers_in_def)
qed (auto intro: ok_pool_step)


section \<open>Every task is run\<close>

text \<open>The moves left until the pool rests, at most.\<close>

fun state_weight :: "worker_state \<Rightarrow> nat" where
  "state_weight W_ready = 1"
| "state_weight W_asleep = 0"
| "state_weight (W_running _) = 2"
| "state_weight W_gone = 0"

definition pool_work :: "ThreadPool \<Rightarrow> nat" where
  "pool_work p = 3 * length (tp_tasks p) + 2 * tp_notifies p + sum_list (map state_weight (tp_workers p))
     + (if tp_notify_all p then 1 + length (tp_workers p) else 0)"

lemma weight_update:
  "i < length ws \<Longrightarrow> sum_list (map state_weight (ws[i := w])) + state_weight (ws ! i) = sum_list (map state_weight ws) + state_weight w"
proof (induction ws arbitrary: i)
  case (Cons x ws)
  then show ?case using Cons.IH [of "i - 1"] by (cases i) simp_all
qed simp

lemma weight_wake_all:
  "sum_list (map state_weight (map (\<lambda>w. if w = W_asleep then W_ready else w) ws)) \<le> sum_list (map state_weight ws) + length ws"
  by (induction ws) auto

lemma pool_move_progress:
  assumes "pool_move p p'"
  shows "pool_work p' < pool_work p"
  using assms
proof cases
  case (pm_notify i)
  then have "W_asleep \<in> set (tp_workers p)" by (metis nth_mem)
  with pm_notify weight_update [OF pm_notify(3), of W_ready] show ?thesis by (simp add: notify_one_def pool_work_def)
next
  case pm_notify_none
  then show ?thesis by (simp add: notify_one_def pool_work_def)
next
  case pm_notify_all
  then show ?thesis using weight_wake_all [of "tp_workers p"] by (simp add: notify_all_def pool_work_def)
next
  case (pm_take i)
  note W = weight_update [OF pm_take(2)]
  from W [of W_gone] W [of W_asleep] W [of "W_running (hd (tp_tasks p))"] pm_take show ?thesis
    by (auto simp: worker_take_def pool_work_def split: list.splits)
next
  case (pm_finish i task)
  then show ?thesis using weight_update [OF pm_finish(2), of W_ready] by (simp add: worker_finish_def pool_work_def)
qed

lemma pool_moves_bound: "(pool_move ^^ k) p p' \<Longrightarrow> pool_work p' + k \<le> pool_work p"
proof (induction k arbitrary: p')
  case (Suc k)
  then obtain q where "(pool_move ^^ k) p q" "pool_move q p'" by (metis relpowp_Suc_E)
  with Suc.IH [of q] pool_move_progress [of q p'] show ?case by linarith
qed simp

text \<open>Nothing is left to move.\<close>

definition pool_rests :: "ThreadPool \<Rightarrow> bool" where
  "pool_rests p \<longleftrightarrow> (\<forall>p'. \<not> pool_move p p')"

lemma rests_iff:
  "pool_rests p \<longleftrightarrow> tp_notifies p = 0 \<and> \<not> tp_notify_all p \<and> set (tp_workers p) \<subseteq> {W_asleep, W_gone}"
proof
  assume rests: "pool_rests p"
  have "tp_notifies p = 0"
    using rests pm_notify [of p] pm_notify_none [of p] by (metis in_set_conv_nth gr0I pool_rests_def)
  moreover have "\<not> tp_notify_all p" using rests pm_notify_all by (auto simp: pool_rests_def)
  moreover have "w \<in> {W_asleep, W_gone}" if "w \<in> set (tp_workers p)" for w
  proof -
    from that obtain i where "i < length (tp_workers p)" "tp_workers p ! i = w" by (auto simp: in_set_conv_nth)
    with rests pm_take [of i p] pm_finish [of i p] show ?thesis by (cases w) (auto simp: pool_rests_def)
  qed
  ultimately show "tp_notifies p = 0 \<and> \<not> tp_notify_all p \<and> set (tp_workers p) \<subseteq> {W_asleep, W_gone}" by blast
next
  assume "tp_notifies p = 0 \<and> \<not> tp_notify_all p \<and> set (tp_workers p) \<subseteq> {W_asleep, W_gone}"
  then show "pool_rests p" by (fastforce simp: pool_rests_def elim!: pool_move.cases dest: nth_mem)
qed

lemma running_none: "set ws \<subseteq> {W_asleep, W_gone} \<Longrightarrow> running ws = []"
  by (induction ws) (auto simp: running_def map_filter_simps running_task_def)

text \<open>
  C21. The pool runs every task: in every state a pool with a thread reaches, under any interleaving of
  callers, threads and wakeups with or without reason, tasks are taken in the order they were
  accepted; the moves the pool makes on its own come to an end after a bounded number; and
  when no move is left, every accepted task was run exactly once, and after \<^verbatim>\<open>stop\<close> every thread has
  returned.
\<close>

theorem pool_runs_all:
  assumes "pool_reachable n p" and "0 < n"
  shows "(\<exists>rest. tp_added p = tp_taken p @ rest)
     \<and> (\<forall>k p'. (pool_move ^^ k) p p' \<longrightarrow> k \<le> pool_work p)
     \<and> (\<forall>p'. pool_move\<^sup>*\<^sup>* p p' \<longrightarrow> pool_rests p' \<longrightarrow>
          mset (tp_finished p') = mset (tp_added p) \<and> (tp_stop p \<longrightarrow> set (tp_workers p') = {W_gone}))"
proof (intro conjI allI impI)
  have ok: "pool_ok n p" by (rule pool_reachable_ok [OF assms(1)])
  then show "\<exists>rest. tp_added p = tp_taken p @ rest" by (auto simp: pool_ok_def)
  show "k \<le> pool_work p" if "(pool_move ^^ k) p p'" for k p'
    using pool_moves_bound [OF that] by simp
  fix p' assume moves: "pool_move\<^sup>*\<^sup>* p p'" and rests: "pool_rests p'"
  have "pool_ok n p' \<and> tp_added p' = tp_added p \<and> tp_stop p' = tp_stop p"
    using moves
  proof (induction rule: rtranclp_induct)
    case (step q r)
    have "tp_added r = tp_added q \<and> tp_stop r = tp_stop q"
      using step(2) by cases (auto simp: notify_one_def notify_all_def worker_take_def worker_finish_def Let_def split: list.splits)
    with step ok_pool_move show ?case by auto
  qed (use ok in simp)
  then have ok': "pool_ok n p'" and same: "tp_added p' = tp_added p" "tp_stop p' = tp_stop p" by auto
  note R = rests [unfolded rests_iff]
  have none: "workers_in W_ready p' = 0" using R by (auto simp: none_asleep)
  from ok' assms(2) have some: "tp_workers p' \<noteq> []" by (auto simp: pool_ok_def)
  have empty: "tp_tasks p' = []"
  proof (cases "W_gone \<in> set (tp_workers p')")
    case False
    with R some have "W_asleep \<in> set (tp_workers p')" by (cases "tp_workers p'") auto
    then have "0 < workers_in W_asleep p'" using none_asleep by blast
    with ok' R none show ?thesis by (auto simp: pool_ok_def)
  qed (use ok' in \<open>auto simp: pool_ok_def\<close>)
  then show "mset (tp_finished p') = mset (tp_added p)" using ok' R same by (auto simp: pool_ok_def running_none)
  show "set (tp_workers p') = {W_gone}" if "tp_stop p"
  proof -
    from ok' R same that have "W_asleep \<notin> set (tp_workers p')" by (auto simp: pool_ok_def none_asleep)
    with R some show ?thesis by (cases "tp_workers p'") auto
  qed
qed


text \<open>One thread: a task is accepted, then the pool is stopped; the task is still run.\<close>

definition demo_pool :: ThreadPool where
  "demo_pool = pool_stop (snd (addTask 5 (new_pool 1)))"

definition demo_pool_end :: ThreadPool where
  "demo_pool_end = notify_one 0 (notify_all (worker_take 0 (worker_finish 0 5 (worker_take 0 demo_pool))))"

lemma demo_pool_moves: "pool_move\<^sup>*\<^sup>* demo_pool demo_pool_end"
proof -
  let ?a = "worker_take 0 demo_pool" and ?b = "worker_finish 0 5 (worker_take 0 demo_pool)"
  let ?c = "worker_take 0 ?b"
  have "0 < length (tp_workers demo_pool)" "tp_workers demo_pool ! 0 = W_ready"
    "0 < length (tp_workers ?a)" "tp_workers ?a ! 0 = W_running 5" "0 < length (tp_workers ?b)" "tp_workers ?b ! 0 = W_ready"
    "tp_notify_all ?c" "0 < tp_notifies (notify_all ?c)" "W_asleep \<notin> set (tp_workers (notify_all ?c))"
    by code_simp+
  then have "pool_move demo_pool ?a" "pool_move ?a ?b" "pool_move ?b ?c" "pool_move ?c (notify_all ?c)"
    "pool_move (notify_all ?c) demo_pool_end"
    unfolding demo_pool_end_def by (auto intro: pool_move.intros)
  then show ?thesis by (meson converse_rtranclp_into_rtranclp rtranclp.rtrancl_refl)
qed

theorem pool_runs_all_witness:
  "pool_rests demo_pool_end \<and> mset (tp_finished demo_pool_end) = {#5#} \<and> set (tp_workers demo_pool_end) = {W_gone}"
proof -
  have "pool_reachable 1 demo_pool"
    unfolding demo_pool_def by (intro pool_next [OF pool_next [OF pool_new ps_add] ps_stop])
  note T = pool_runs_all [OF this]
  have rests: "pool_rests demo_pool_end" unfolding rests_iff by code_simp
  have "tp_added demo_pool = [5]" "tp_stop demo_pool" by code_simp+
  with T demo_pool_moves rests show ?thesis by auto
qed

section \<open>Loops handed out in turn\<close>

text \<open>\<^verbatim>\<open>EventLoopThreadPool\<close>: the loops started, by number, and the index of the next one.\<close>

record EventLoopThreadPool =
  lt_thread_num :: nat
  lt_loops :: "nat list"
  lt_next :: nat
  lt_started :: bool

definition new_loop_pool :: "nat \<Rightarrow> EventLoopThreadPool" where
  "new_loop_pool thread_num = \<lparr>lt_thread_num = thread_num, lt_loops = [], lt_next = 0, lt_started = False\<rparr>"

definition loop_pool_start :: "EventLoopThreadPool \<Rightarrow> EventLoopThreadPool" where
  "loop_pool_start q =
     (if lt_started q then q
      else q\<lparr>lt_started := True, lt_loops := lt_loops q @ map Suc [0..<lt_thread_num q]\<rparr>)"

definition getNextLoop :: "EventLoopThreadPool \<Rightarrow> nat option \<times> EventLoopThreadPool" where
  "getNextLoop q =
     (if lt_loops q = [] then (None, q)
      else (Some (lt_loops q ! lt_next q), q\<lparr>lt_next := (lt_next q + 1) mod length (lt_loops q)\<rparr>))"

definition loop_pool_stop :: "EventLoopThreadPool \<Rightarrow> EventLoopThreadPool" where
  "loop_pool_stop q = q\<lparr>lt_loops := [], lt_started := False\<rparr>"

text \<open>The loops of \<open>k\<close> connections accepted one after the other.\<close>

fun next_loops :: "nat \<Rightarrow> EventLoopThreadPool \<Rightarrow> nat option list" where
  "next_loops 0 q = []"
| "next_loops (Suc k) q = (case getNextLoop q of (l, q1) \<Rightarrow> l # next_loops k q1)"

lemma next_loops_turn:
  assumes "lt_loops q \<noteq> []" and "lt_next q < length (lt_loops q)"
  shows "next_loops k q = map (\<lambda>i. Some (lt_loops q ! ((lt_next q + i) mod length (lt_loops q)))) [0..<k]"
  using assms
proof (induction k arbitrary: q)
  case (Suc k)
  let ?n = "length (lt_loops q)"
  define r where "r = q\<lparr>lt_next := (lt_next q + 1) mod ?n\<rparr>"
  have q: "getNextLoop q = (Some (lt_loops q ! lt_next q), r)" "lt_loops r = lt_loops q" "lt_next r = (lt_next q + 1) mod ?n"
    using Suc.prems by (simp_all add: getNextLoop_def r_def)
  have turn: "((lt_next q + 1) mod ?n + i) mod ?n = (lt_next q + Suc i) mod ?n" for i
    by (simp add: mod_add_left_eq)
  have "next_loops k r = map (\<lambda>i. Some (lt_loops r ! ((lt_next r + i) mod length (lt_loops r)))) [0..<k]"
    using Suc.prems by (intro Suc.IH) (simp_all add: q)
  then have "next_loops k r = map (\<lambda>i. Some (lt_loops q ! ((lt_next q + Suc i) mod ?n))) [0..<k]"
    by (simp only: q turn)
  moreover have "[0..<Suc k] = 0 # map Suc [0..<k]" by (simp add: upt_conv_Cons map_Suc_upt del: upt_Suc)
  ultimately show ?case using Suc.prems by (simp add: q(1) o_def del: upt_Suc)
qed simp

end
