(* ===== verification/Config.thy ===== *)
theory Config
  imports Regression
begin

text \<open>
  \<^verbatim>\<open>common/src/Config.cpp\<close>: the configuration file, its lines, and the typed settings read from it.
  The file system is a parameter: which names are regular files, and what opening one gives. A
  path is the list of its components. Warnings go to the error stream and are left out.
\<close>

section \<open>Text\<close>

definition blank :: "char \<Rightarrow> bool" where
  "blank c \<longleftrightarrow> c \<in> {CHR '' '', CHR 0x09, CHR 0x0D, CHR 0x0A}"

definition trim :: "string \<Rightarrow> string" where
  "trim s = rev (dropWhile blank (rev (dropWhile blank s)))"

text \<open>The lines \<^verbatim>\<open>std::getline\<close> reads one after the other.\<close>

function getlines :: "string \<Rightarrow> string list" where
  "getlines s =
     (if s = [] then []
      else takeWhile (\<lambda>c. c \<noteq> CHR 0x0A) s # getlines (tl (dropWhile (\<lambda>c. c \<noteq> CHR 0x0A) s)))"
  by pat_completeness auto
termination
proof (relation "measure length")
  fix s :: string
  assume "s \<noteq> []"
  then show "(tl (dropWhile (\<lambda>c. c \<noteq> CHR 0x0A) s), s) \<in> measure length"
    using length_dropWhile_le [of "\<lambda>c. c \<noteq> CHR 0x0A" s] by (cases s) auto
qed simp

declare getlines.simps [simp del]

section \<open>Loading\<close>

type_synonym config = "(string \<times> string) list"

definition load_line :: "string \<Rightarrow> config \<Rightarrow> config" where
  "load_line line m =
     (let trimmed = trim line in
      if trimmed = [] then m
      else if hd trimmed = CHR ''#'' then m
      else if CHR ''='' \<notin> set trimmed then m
      else
        (let key = trim (takeWhile (\<lambda>c. c \<noteq> CHR ''='') trimmed);
             v = trim (tl (dropWhile (\<lambda>c. c \<noteq> CHR ''='') trimmed)) in
         if key = [] then m else AList.update key v m))"

record config_files =
  cf_regular :: "string list \<Rightarrow> bool"
  cf_open :: "string list \<Rightarrow> string option"

text \<open>The flag returned, and the settings; a file that does not open leaves them as they are.\<close>

definition config_load :: "config_files \<Rightarrow> string list \<Rightarrow> config \<Rightarrow> bool \<times> config" where
  "config_load fs path m =
     (case cf_open fs path of
        None \<Rightarrow> (False, m)
      | Some content \<Rightarrow> (True, fold load_line (getlines content) []))"

text \<open>The search from the current directory upwards; \<open>directory\<close> in reverse, the root is \<open>[]\<close>.\<close>

fun config_search :: "config_files \<Rightarrow> string list \<Rightarrow> string list option" where
  "config_search fs directory =
     (let candidate = (\<lambda>name. rev directory @ [''config'', name]) in
      if cf_regular fs (candidate ''server.conf'') then Some (candidate ''server.conf'')
      else if cf_regular fs (candidate ''gcrp.conf'') then Some (candidate ''gcrp.conf'')
      else case directory of [] \<Rightarrow> None | _ # parent \<Rightarrow> config_search fs parent)"

text \<open>
  \<open>override\<close> is \<^verbatim>\<open>GCRP_CONFIG\<close>, with \<open>Some []\<close> when it is set to the empty string; \<open>cwd\<close> is \<open>None\<close> when
  the current directory cannot be read.
\<close>

definition loadDefault :: "config_files \<Rightarrow> string list option \<Rightarrow> string list option \<Rightarrow> config \<Rightarrow> bool \<times> config" where
  "loadDefault fs override cwd m =
     (case override of
        Some path \<Rightarrow> if path = [] then (False, m) else config_load fs path m
      | None \<Rightarrow>
          (case cwd of
             None \<Rightarrow> (False, m)
           | Some directory \<Rightarrow>
               (case config_search fs (rev directory) of
                  None \<Rightarrow> (False, m)
                | Some path \<Rightarrow> config_load fs path m)))"

section \<open>Settings\<close>

definition getString :: "string \<Rightarrow> string \<Rightarrow> config \<Rightarrow> string" where
  "getString key fallback m = (case map_of m key of None \<Rightarrow> fallback | Some v \<Rightarrow> v)"

definition isspace :: "char \<Rightarrow> bool" where
  "isspace c \<longleftrightarrow> c = CHR '' '' \<or> (CHR 0x09 \<le> c \<and> c \<le> CHR 0x0D)"

text \<open>\<^verbatim>\<open>std::stoi\<close>: the value and how many characters were read; \<open>None\<close> when it throws.\<close>

definition stoi :: "string \<Rightarrow> (int \<times> nat) option" where
  "stoi s =
     (let rest = dropWhile isspace s;
          signed = (rest \<noteq> [] \<and> (hd rest = CHR ''+'' \<or> hd rest = CHR ''-''));
          ds = takeWhile is_digit (if signed then tl rest else rest);
          v = (if signed \<and> hd rest = CHR ''-'' then - int (digits_value ds) else int (digits_value ds)) in
      if ds = [] \<or> v < - (2 ^ 31) \<or> 2 ^ 31 \<le> v then None
      else Some (v, (length s - length rest) + (if signed then 1 else 0) + length ds))"

definition getInt :: "string \<Rightarrow> int \<Rightarrow> config \<Rightarrow> int" where
  "getInt key fallback m =
     (case map_of m key of
        None \<Rightarrow> fallback
      | Some text \<Rightarrow>
          (case stoi text of
             None \<Rightarrow> fallback
           | Some (v, consumed) \<Rightarrow> if consumed \<noteq> length text then fallback else v))"

definition tolower :: "char \<Rightarrow> char" where
  "tolower c = (if CHR ''A'' \<le> c \<and> c \<le> CHR ''Z'' then char_of (of_char c + 32 :: nat) else c)"

definition getBool :: "string \<Rightarrow> bool \<Rightarrow> config \<Rightarrow> bool" where
  "getBool key fallback m =
     (case map_of m key of
        None \<Rightarrow> fallback
      | Some text \<Rightarrow>
          (let v = map tolower text in
           if v \<in> {''true'', ''yes'', ''on'', ''1''} then True
           else if v \<in> {''false'', ''no'', ''off'', ''0''} then False
           else fallback))"

definition config_contains :: "string \<Rightarrow> config \<Rightarrow> bool" where
  "config_contains key m \<longleftrightarrow> map_of m key \<noteq> None"

section \<open>A file of settings reads back\<close>

definition config_entry :: "string \<times> string \<Rightarrow> bool" where
  "config_entry kv \<longleftrightarrow>
     fst kv \<noteq> [] \<and> trim (fst kv) = fst kv \<and> hd (fst kv) \<noteq> CHR ''#'' \<and> CHR ''='' \<notin> set (fst kv)
     \<and> trim (snd kv) = snd kv \<and> CHR 0x0A \<notin> set (fst kv) \<and> CHR 0x0A \<notin> set (snd kv)"

definition config_text :: "(string \<times> string) list \<Rightarrow> string" where
  "config_text kvs = concat (map (\<lambda>(k, v). k @ ''='' @ v @ [CHR 0x0A]) kvs)"

lemma trim_iff: "trim s = s \<longleftrightarrow> s = [] \<or> (\<not> blank (hd s) \<and> \<not> blank (last s))"
proof
  assume trimmed: "trim s = s"
  show "s = [] \<or> (\<not> blank (hd s) \<and> \<not> blank (last s))"
  proof (cases "s = []")
    case False
    have "length (trim s) \<le> length (dropWhile blank s)"
      using length_dropWhile_le [of blank "rev (dropWhile blank s)"] by (simp add: trim_def)
    with trimmed have "dropWhile blank s = s"
      by (metis append_self_conv2 dropWhile_eq_drop drop_eq_Nil2 length_append linorder_not_le nat_less_le takeWhile_dropWhile_id append_Nil length_0_conv add_is_0 le_add2 le_antisym add_cancel_left_left)
    moreover from this trimmed have "dropWhile blank (rev s) = rev s" by (simp add: trim_def rev_swap)
    ultimately show ?thesis using False by (metis hd_dropWhile hd_rev rev_is_Nil_conv)
  qed simp
next
  assume "s = [] \<or> (\<not> blank (hd s) \<and> \<not> blank (last s))"
  then show "trim s = s"
  proof
    assume ends: "\<not> blank (hd s) \<and> \<not> blank (last s)"
    then have "dropWhile blank s = s" by (cases s) auto
    moreover from ends have "dropWhile blank (rev s) = rev s" by (cases s rule: rev_cases) auto
    ultimately show ?thesis by (simp add: trim_def)
  qed (simp add: trim_def)
qed

lemma getlines_Nil: "getlines [] = []" by (simp add: getlines.simps)

lemma getlines_line: "CHR 0x0A \<notin> set line \<Longrightarrow> getlines (line @ CHR 0x0A # rest) = line # getlines rest"
proof -
  assume "CHR 0x0A \<notin> set line"
  then have "takeWhile (\<lambda>c. c \<noteq> CHR 0x0A) (line @ CHR 0x0A # rest) = line"
    "dropWhile (\<lambda>c. c \<noteq> CHR 0x0A) (line @ CHR 0x0A # rest) = CHR 0x0A # rest"
    by (auto simp: takeWhile_append dropWhile_append)
  then show ?thesis by (subst getlines.simps) simp
qed

lemma load_entry:
  assumes "config_entry (k, v)"
  shows "load_line (k @ ''='' @ v) m = AList.update k v m"
proof -
  have k: "k \<noteq> []" "trim k = k" "hd k \<noteq> CHR ''#''" "CHR ''='' \<notin> set k" "trim v = v" using assms by (simp_all add: config_entry_def)
  have "\<not> blank (hd k)" using k(1,2) trim_iff by blast
  moreover have "\<not> blank (last (k @ ''='' @ v))"
    using k(5) trim_iff [of v] by (cases "v = []") (auto simp: blank_def)
  ultimately have trimmed: "trim (k @ ''='' @ v) = k @ ''='' @ v" using k(1) by (simp add: trim_iff)
  have "takeWhile (\<lambda>c. c \<noteq> CHR ''='') (k @ ''='' @ v) = k" "dropWhile (\<lambda>c. c \<noteq> CHR ''='') (k @ ''='' @ v) = ''='' @ v"
    using k(4) by (auto simp: takeWhile_append dropWhile_append)
  with k trimmed show ?thesis by (simp add: load_line_def Let_def)
qed

lemma load_text:
  "list_all config_entry kvs \<Longrightarrow> fold load_line (getlines (config_text kvs)) m = fold (\<lambda>(k, v). AList.update k v) kvs m"
proof (induction kvs arbitrary: m)
  case (Cons kv kvs)
  obtain k v where kv: "kv = (k, v)" by (cases kv)
  with Cons.prems have "config_entry (k, v)" "CHR 0x0A \<notin> set (k @ ''='' @ v)" by (auto simp: config_entry_def)
  then have "getlines (config_text (kv # kvs)) = (k @ ''='' @ v) # getlines (config_text kvs)"
    using getlines_line [of "k @ ''='' @ v" "config_text kvs"] by (simp add: config_text_def kv)
  with Cons load_entry [OF \<open>config_entry (k, v)\<close>] show ?case by (simp add: kv)
qed (simp add: config_text_def getlines_Nil)

text \<open>Decimal text, as \<^verbatim>\<open>std::to_string\<close> prints it.\<close>

fun decimal :: "nat \<Rightarrow> string" where
  "decimal n = (if n < 10 then [char_of (48 + n)] else decimal (n div 10) @ [char_of (48 + n mod 10)])"

declare decimal.simps [simp del]

definition decimal_int :: "int \<Rightarrow> string" where
  "decimal_int i = (if i < 0 then ''-'' @ decimal (nat (- i)) else decimal (nat i))"

lemma digit_char: "d < 10 \<Longrightarrow> is_digit (char_of (48 + d)) \<and> of_char (char_of (48 + d) :: char) = (48 + d :: nat)"
  by (simp add: is_digit_def less_eq_char_def)

lemma decimal_digits: "list_all is_digit (decimal n) \<and> decimal n \<noteq> [] \<and> digits_value (decimal n) = n"
proof (induction n rule: decimal.induct)
  case (1 n)
  show ?case
  proof (cases "n < 10")
    case True
    with digit_char [of n] show ?thesis by (subst (1 2 3) decimal.simps) (simp add: digits_value_def)
  next
    case False
    with 1 digit_char [of "n mod 10"] show ?thesis
      by (subst (1 2 3) decimal.simps) (simp add: digits_value_def list_all_append)
  qed
qed

lemma digit_plain: "is_digit c \<Longrightarrow> \<not> isspace c \<and> c \<noteq> CHR ''+'' \<and> c \<noteq> CHR ''-''"
  by (auto simp: is_digit_def isspace_def less_eq_char_def)

lemma stoi_decimal:
  assumes "- (2 ^ 31) \<le> i" and "i < 2 ^ 31"
  shows "stoi (decimal_int i) = Some (i, length (decimal_int i))"
proof -
  have ds: "takeWhile is_digit (decimal n) = decimal n" "decimal n \<noteq> []" "digits_value (decimal n) = n"
    "is_digit (hd (decimal n))" for n
    using decimal_digits [of n] by (auto simp: list_all_iff takeWhile_eq_all_conv)
  have space: "dropWhile isspace (decimal n) = decimal n" for n
    using digit_plain [OF ds(4) [of n]] ds(2) [of n] by (cases "decimal n") auto
  have minus: "\<not> isspace (CHR ''-'')" by (simp add: isspace_def less_eq_char_def)
  show ?thesis
    using assms digit_plain [OF ds(4)]
    by (cases "i < 0") (simp_all add: stoi_def decimal_int_def Let_def ds(1,2,3) space minus)
qed

text \<open>
  A settings file reads back: after \<open>loadDefault\<close> found a file that lists keys and values, one per
  line, every key has the value of its last line and every other key its default; a value that is
  the decimal text of a C++ int is read back as that int, however large.
\<close>

theorem config_roundtrip:
  assumes "list_all config_entry kvs" and "cf_open fs path = Some (config_text kvs)" and "path \<noteq> []"
  shows "\<exists>m. loadDefault fs (Some path) cwd m0 = (True, m)
     \<and> (\<forall>key d. getString key d m = (case map_of (rev kvs) key of None \<Rightarrow> d | Some v \<Rightarrow> v))
     \<and> (\<forall>key d i. map_of (rev kvs) key = Some (decimal_int i) \<and> - (2 ^ 31) \<le> i \<and> i < 2 ^ 31 \<longrightarrow> getInt key d m = i)"
proof -
  let ?m = "fold (\<lambda>(k, v). AList.update k v) kvs []"
  have "map_of ?m = map_of (rev kvs)" by (simp add: umap.get_put_all)
  moreover have "loadDefault fs (Some path) cwd m0 = (True, ?m)"
    using assms load_text by (simp add: loadDefault_def config_load_def)
  ultimately show ?thesis by (auto simp: getString_def getInt_def stoi_decimal)
qed

definition demo_settings :: "(string \<times> string) list" where
  "demo_settings = [(''server.port'', ''1''), (''log.level'', ''INFO''), (''server.port'', ''8080'')]"

definition demo_files :: config_files where
  "demo_files = \<lparr>cf_regular = \<lambda>_. True, cf_open = \<lambda>_. Some (config_text demo_settings)\<rparr>"

theorem config_roundtrip_witness:
  "\<exists>m. loadDefault demo_files (Some [''gcrp.conf'']) None [] = (True, m)
     \<and> getString ''log.level'' [] m = ''INFO'' \<and> getInt ''server.port'' 0 m = 8080"
proof -
  have "list_all config_entry demo_settings" by code_simp
  moreover have "cf_open demo_files [''gcrp.conf''] = Some (config_text demo_settings)" by (simp add: demo_files_def)
  ultimately obtain m where m: "loadDefault demo_files (Some [''gcrp.conf'']) None [] = (True, m)"
    "\<forall>key d. getString key d m = (case map_of (rev demo_settings) key of None \<Rightarrow> d | Some v \<Rightarrow> v)"
    "\<forall>key d i. map_of (rev demo_settings) key = Some (decimal_int i) \<and> - (2 ^ 31) \<le> i \<and> i < 2 ^ 31 \<longrightarrow> getInt key d m = i"
    using config_roundtrip [of demo_settings demo_files "[''gcrp.conf'']" None "[]"] by blast
  have "map_of (rev demo_settings) ''server.port'' = Some (decimal_int 8080)"
    by (simp add: demo_settings_def decimal_int_def decimal.simps [of 8080] decimal.simps [of 808] decimal.simps [of 80]
        decimal.simps [of 8] char_of_def bit_Suc_0_iff)
  with m(3) have "getInt ''server.port'' 0 m = 8080" by simp
  moreover have "map_of (rev demo_settings) ''log.level'' = Some ''INFO''" by code_simp
  with m(2) have "getString ''log.level'' [] m = ''INFO''" by simp
  ultimately show ?thesis using m(1) by simp
qed

end
