(* ===== verification/Client.thy ===== *)
theory Client
  imports Config Connection DtoFacts
begin

text \<open>
  \<^verbatim>\<open>client/src/GcrpClient.cpp\<close> and \<^verbatim>\<open>GcrpClientMain.cpp\<close>: one request on one connection, and the command
  line that builds it. What the kernel does with a socket is a script, as for connections of
  the server; a script that is used up is a deadline that passes. Text of exceptions that only goes to
  the error stream is kept for the usage errors.
\<close>

section \<open>Transfers\<close>

text \<open>\<^verbatim>\<open>transfer\<close> while sending: the outcome, and what was sent.\<close>

fun transfer_out :: "send_event list \<Rightarrow> string \<Rightarrow> (exn + unit) \<times> string" where
  "transfer_out evs data =
     (if data = [] then (Inr (), [])
      else
        (case evs of
           [] \<Rightarrow> (Inl (Runtime_error ''request deadline exceeded''), [])
         | SendIntr # rest \<Rightarrow> transfer_out rest data
         | SendAgain # rest \<Rightarrow> transfer_out rest data
         | SendError # rest \<Rightarrow> (Inl (Runtime_error ''send''), [])
         | SendBytes k # rest \<Rightarrow>
             (let n = min k (length data) in
              if n = 0 then (Inl (Runtime_error ''connection closed before response completed''), [])
              else (case transfer_out rest (drop n data) of (r, sent) \<Rightarrow> (r, take n data @ sent)))))"

declare transfer_out.simps [simp del]

text \<open>\<^verbatim>\<open>transfer\<close> while receiving \<open>n\<close> bytes: the outcome, and the rest of the script.\<close>

fun transfer_in :: "nat \<Rightarrow> recv_event list \<Rightarrow> (exn + string) \<times> recv_event list" where
  "transfer_in n evs =
     (if n = 0 then (Inr [], evs)
      else
        (case evs of
           [] \<Rightarrow> (Inl (Runtime_error ''request deadline exceeded''), [])
         | RecvIntr # rest \<Rightarrow> transfer_in n rest
         | RecvAgain # rest \<Rightarrow> transfer_in n rest
         | RecvError # rest \<Rightarrow> (Inl (Runtime_error ''recv''), rest)
         | RecvEof # rest \<Rightarrow> (Inl (Runtime_error ''connection closed before response completed''), rest)
         | RecvData bs # rest \<Rightarrow>
             if bs = [] then (Inl (Runtime_error ''connection closed before response completed''), rest)
             else if n < length bs then (Inr (take n bs), RecvData (drop n bs) # rest)
             else (case transfer_in (n - length bs) rest of
                     (Inl x, rest1) \<Rightarrow> (Inl x, rest1)
                   | (Inr others, rest1) \<Rightarrow> (Inr (bs @ others), rest1))))"

declare transfer_in.simps [simp del]

section \<open>Requests\<close>

text \<open>\<^verbatim>\<open>inet_pton\<close> for IPv4: four decimal numbers up to 255 without leading zeros, separated by dots.\<close>

definition octet :: "string \<Rightarrow> bool" where
  "octet s \<longleftrightarrow> s \<noteq> [] \<and> length s \<le> 3 \<and> list_all is_digit s \<and> digits_value s \<le> 255 \<and> (hd s = CHR ''0'' \<longrightarrow> length s = 1)"

fun split_dots :: "string \<Rightarrow> string \<Rightarrow> string list" where
  "split_dots part [] = [rev part]"
| "split_dots part (c # s) = (if c = CHR ''.'' then rev part # split_dots [] s else split_dots (c # part) s)"

definition ipv4 :: "string \<Rightarrow> bool" where
  "ipv4 s \<longleftrightarrow> length (split_dots [] s) = 4 \<and> list_all octet (split_dots [] s)"

record GcrpClient =
  cl_host :: string
  cl_port :: "16 word"
  cl_timeout_ms :: int
  cl_next_request_id :: u64

definition new_client :: "string \<Rightarrow> 16 word \<Rightarrow> int \<Rightarrow> exn + GcrpClient" where
  "new_client host port timeout_ms =
     (if \<not> ipv4 host then Inl (Invalid_argument ''host must be a numeric IPv4 address'')
      else if port = 0 \<or> timeout_ms < 1 \<or> 60000 < timeout_ms then Inl (Invalid_argument ''invalid port or timeout (1..60000 ms)'')
      else Inr \<lparr>cl_host = host, cl_port = port, cl_timeout_ms = timeout_ms, cl_next_request_id = 1\<rparr>)"

text \<open>What the network does to one request: the outcome of connecting, and the two scripts.\<close>

record exchange =
  ex_connect :: "exn option"
  ex_sends :: "send_event list"
  ex_recvs :: "recv_event list"

definition response_valid :: "json \<Rightarrow> bool" where
  "response_valid v \<longleftrightarrow>
     \<not> (\<not> contains v ''code'' \<or> \<not> is_number_integer (jget v ''code'') \<or> jint_less (jget v ''code'') 0
        \<or> jint_greater (jget v ''code'') (2 ^ 31 - 1)
        \<or> \<not> contains v ''message'' \<or> \<not> is_string (jget v ''message'')
        \<or> \<not> contains v ''result'' \<or> \<not> (is_object (jget v ''result'') \<or> is_null (jget v ''result'')))"

definition read_response :: "json_codec \<Rightarrow> u64 \<Rightarrow> recv_event list \<Rightarrow> exn + ProtocolMessage" where
  "read_response jc i evs =
     (case transfer_in 4 evs of
        (Inl x, _) \<Rightarrow> Inl x
      | (Inr header, evs1) \<Rightarrow>
          (let n = unat (ntohl header) in
           if kMaxBodyLenght < n then Inl (Runtime_error ''response frame exceeds size limit'')
           else
             (case transfer_in n evs1 of
                (Inl x, _) \<Rightarrow> Inl x
              | (Inr body, _) \<Rightarrow>
                  (case ProtocolCodec_decode jc body of
                     Inl err \<Rightarrow> Inl (Runtime_error (''invalid response: '' @ pe_message err))
                   | Inr response \<Rightarrow>
                       if pm_type response \<noteq> RESPONSE \<or> pm_request_id response \<noteq> i
                       then Inl (Runtime_error ''response type or request_id mismatch'')
                       else if \<not> response_valid (pm_data response) then Inl (Runtime_error ''invalid response payload'')
                       else Inr response))))"

text \<open>The outcome, what was put on the wire, and the client afterwards.\<close>

definition GcrpClient_request ::
  "json_codec \<Rightarrow> MessageType \<Rightarrow> json \<Rightarrow> exchange \<Rightarrow> GcrpClient \<Rightarrow> (exn + ProtocolMessage) \<times> string \<times> GcrpClient" where
  "GcrpClient_request jc ty data ex cl =
     (if \<not> isClientRequest ty \<or> \<not> is_object data then (Inl (Invalid_argument ''not a client request''), [], cl)
      else if cl_next_request_id cl = 0 then (Inl (Runtime_error ''request id exhausted''), [], cl)
      else
        (let i = cl_next_request_id cl; cl1 = cl\<lparr>cl_next_request_id := i + 1\<rparr> in
         case ProtocolCodec_encode jc (new_message ty i data) of
           Inl err \<Rightarrow> (Inl (Runtime_error (pe_message err)), [], cl1)
         | Inr text \<Rightarrow>
             (case MessageCodec_encode text of
                Inl x \<Rightarrow> (Inl x, [], cl1)
              | Inr packet \<Rightarrow>
                  (case ex_connect ex of
                     Some x \<Rightarrow> (Inl x, [], cl1)
                   | None \<Rightarrow>
                       (case transfer_out (ex_sends ex) packet of
                          (Inl x, sent) \<Rightarrow> (Inl x, sent, cl1)
                        | (Inr _, sent) \<Rightarrow> (read_response jc i (ex_recvs ex), sent, cl1))))))"

definition client_submit :: "string \<Rightarrow> string \<Rightarrow> int \<Rightarrow> MessageType \<times> json" where
  "client_submit target revision priority =
     (SUBMIT_TASK, jobject [(''task_type'', JString ''REGRESSION''), (''target'', JString target),
        (''revision'', JString revision), (''priority'', jint priority)])"

definition client_query :: "u64 \<Rightarrow> MessageType \<times> json" where
  "client_query i = (QUERY_TASK, jobject [(''task_id'', JUnsigned i)])"

definition client_cancel :: "u64 \<Rightarrow> MessageType \<times> json" where
  "client_cancel i = (CANCEL_TASK, jobject [(''task_id'', JUnsigned i)])"

definition client_queryBatch :: "string \<Rightarrow> MessageType \<times> json" where
  "client_queryBatch i = (QUERY_BATCH, jobject [(''batch_id'', JString i)])"

definition client_cancelBatch :: "string \<Rightarrow> MessageType \<times> json" where
  "client_cancelBatch i = (CANCEL_BATCH, jobject [(''batch_id'', JString i)])"


section \<open>The command line\<close>

text \<open>\<open>Inl\<close> is a \<^verbatim>\<open>UsageError\<close> with its text.\<close>

fun ubind :: "string + 'a \<Rightarrow> ('a \<Rightarrow> string + 'b) \<Rightarrow> string + 'b" where
  "ubind (Inl message) f = Inl message"
| "ubind (Inr v) f = f v"

lemma ubind_cong [fundef_cong]: "m = m' \<Longrightarrow> (\<And>v. m' = Inr v \<Longrightarrow> f v = f' v) \<Longrightarrow> ubind m f = ubind m' f'"
  by (cases m') auto

text \<open>\<^verbatim>\<open>std::from_chars\<close> on the whole text: no spaces, no plus sign, a minus only for a signed type.\<close>

definition number_u64 :: "string \<Rightarrow> string + u64" where
  "number_u64 text =
     (if text \<noteq> [] \<and> list_all is_digit text \<and> digits_value text < 2 ^ 64 then Inr (of_nat (digits_value text))
      else Inl (''invalid integer: '' @ text))"

definition number_int :: "string \<Rightarrow> string + int" where
  "number_int text =
     (let negative = (text \<noteq> [] \<and> hd text = CHR ''-'');
          ds = (if negative then tl text else text);
          v = (if negative then - int (digits_value ds) else int (digits_value ds)) in
      if ds \<noteq> [] \<and> list_all is_digit ds \<and> - (2 ^ 31) \<le> v \<and> v < 2 ^ 31 then Inr v
      else Inl (''invalid integer: '' @ text))"

record cli =
  ci_host :: string
  ci_command :: string
  ci_target :: string
  ci_revision :: string
  ci_id :: string
  ci_case_path :: string
  ci_flow :: string
  ci_batch_id :: string
  ci_from_revision :: string
  ci_to_revision :: string
  ci_before_revision :: string
  ci_status_filter :: string
  ci_machine_filter :: string
  ci_after_cursor :: string
  ci_run_id :: string
  ci_log_name :: string
  ci_control_worker :: string
  ci_control_action :: string
  ci_control_scope :: string
  ci_control_id :: string
  ci_port :: int
  ci_timeout :: int
  ci_priority :: int
  ci_case_timeout :: int
  ci_limit :: int
  ci_before :: u64
  ci_after_task_id :: u64
  ci_log_offset :: u64
  ci_seen :: "string list"

definition new_cli :: "config \<Rightarrow> cli" where
  "new_cli m =
     \<lparr>ci_host = getString ''network.server_ip'' [] m, ci_command = [], ci_target = [], ci_revision = [], ci_id = [],
      ci_case_path = [], ci_flow = [], ci_batch_id = [], ci_from_revision = [], ci_to_revision = [], ci_before_revision = [],
      ci_status_filter = [], ci_machine_filter = [], ci_after_cursor = [], ci_run_id = [], ci_log_name = [],
      ci_control_worker = [], ci_control_action = [], ci_control_scope = [], ci_control_id = [],
      ci_port = getInt ''server.port'' 0 m, ci_timeout = getInt ''network.timeout_ms'' 0 m, ci_priority = 0, ci_case_timeout = 0,
      ci_limit = 0, ci_before = 0, ci_after_task_id = 0, ci_log_offset = 0, ci_seen = []\<rparr>"

definition set_option :: "string \<Rightarrow> string \<Rightarrow> cli \<Rightarrow> string + cli" where
  "set_option arg v c =
     (if arg = ''--host'' then Inr (c\<lparr>ci_host := v\<rparr>)
      else if arg = ''--port'' then ubind (number_int v) (\<lambda>n. Inr (c\<lparr>ci_port := n\<rparr>))
      else if arg = ''--timeout-ms'' then ubind (number_int v) (\<lambda>n. Inr (c\<lparr>ci_timeout := n\<rparr>))
      else if arg = ''--priority'' then ubind (number_int v) (\<lambda>n. Inr (c\<lparr>ci_priority := n\<rparr>))
      else if arg = ''--target'' then Inr (c\<lparr>ci_target := v\<rparr>)
      else if arg = ''--revision'' then Inr (c\<lparr>ci_revision := v\<rparr>)
      else if arg = ''--case'' then Inr (c\<lparr>ci_case_path := v\<rparr>)
      else if arg = ''--flow'' then Inr (c\<lparr>ci_flow := v\<rparr>)
      else if arg = ''--case-timeout'' then ubind (number_int v) (\<lambda>n. Inr (c\<lparr>ci_case_timeout := n\<rparr>))
      else if arg = ''--batch-id'' then Inr (c\<lparr>ci_batch_id := v\<rparr>)
      else if arg = ''--limit'' then ubind (number_int v) (\<lambda>n. Inr (c\<lparr>ci_limit := n\<rparr>))
      else if arg = ''--before'' then ubind (number_u64 v) (\<lambda>n. Inr (c\<lparr>ci_before := n\<rparr>))
      else if arg = ''--before-revision'' then Inr (c\<lparr>ci_before_revision := v\<rparr>)
      else if arg = ''--from'' then Inr (c\<lparr>ci_from_revision := v\<rparr>)
      else if arg = ''--to'' then Inr (c\<lparr>ci_to_revision := v\<rparr>)
      else if arg = ''--after-task-id'' then ubind (number_u64 v) (\<lambda>n. Inr (c\<lparr>ci_after_task_id := n\<rparr>))
      else if arg = ''--status'' then Inr (c\<lparr>ci_status_filter := v\<rparr>)
      else if arg = ''--machine-id'' then Inr (c\<lparr>ci_machine_filter := v\<rparr>)
      else if arg = ''--after'' then Inr (c\<lparr>ci_after_cursor := v\<rparr>)
      else if arg = ''--run-id'' then Inr (c\<lparr>ci_run_id := v\<rparr>)
      else if arg = ''--name'' then Inr (c\<lparr>ci_log_name := v\<rparr>)
      else if arg = ''--offset'' then ubind (number_u64 v) (\<lambda>n. Inr (c\<lparr>ci_log_offset := n\<rparr>))
      else if arg = ''--worker-id'' then Inr (c\<lparr>ci_control_worker := v\<rparr>)
      else if arg = ''--action'' then Inr (c\<lparr>ci_control_action := v\<rparr>)
      else if arg = ''--scope'' then Inr (c\<lparr>ci_control_scope := v\<rparr>)
      else if arg = ''--operation-id'' then Inr (c\<lparr>ci_control_id := v\<rparr>)
      else Inl (''unknown option: '' @ arg))"

text \<open>The loop over the arguments; \<open>None\<close> when help was asked for.\<close>

fun parse_args :: "string list \<Rightarrow> cli \<Rightarrow> string + cli option" where
  "parse_args [] c = Inr (Some c)"
| "parse_args (arg # args) c =
     (if arg = ''--help'' then Inr None
      else if take 2 arg = ''--'' then
        (if arg \<in> set (ci_seen c) then Inl (''duplicate option: '' @ arg)
         else
           (case args of
              [] \<Rightarrow> Inl (''missing value for '' @ arg)
            | v # rest \<Rightarrow>
                ubind (set_option arg v (c\<lparr>ci_seen := arg # ci_seen c\<rparr>)) (parse_args rest)))
      else if ci_command c = [] then parse_args args (c\<lparr>ci_command := arg\<rparr>)
      else if ci_id c = [] then parse_args args (c\<lparr>ci_id := arg\<rparr>)
      else Inl (''unexpected argument: '' @ arg))"

definition seen :: "cli \<Rightarrow> string \<Rightarrow> bool" where
  "seen c option_name \<longleftrightarrow> option_name \<in> set (ci_seen c)"

definition connection_options :: "string list" where
  "connection_options = [''--host'', ''--port'', ''--timeout-ms'']"

definition only :: "string list \<Rightarrow> cli \<Rightarrow> bool" where
  "only allowed c \<longleftrightarrow> list_all (\<lambda>s. s \<in> set (connection_options @ allowed)) (ci_seen c)"

definition set_if :: "bool \<Rightarrow> string \<Rightarrow> json \<Rightarrow> json \<Rightarrow> json" where
  "set_if b k v j = (if b then jset j k v else j)"

section \<open>Commands\<close>

definition worker_control :: "string \<Rightarrow> cli \<Rightarrow> string + MessageType \<times> json" where
  "worker_control random_id c =
     (if \<not> only [''--machine-id'', ''--worker-id'', ''--action'', ''--scope'', ''--operation-id''] c
      then Inl ''unsupported management option''
      else if ci_id c \<noteq> [] \<or> (ci_machine_filter c = []) = (ci_control_worker c = [])
              \<or> ci_control_action c \<notin> {''pause'', ''resume'', ''update''}
      then Inl ''worker-control needs exactly one target and pause/resume/update action''
      else if (if ci_control_action c = ''update'' then ci_control_scope c \<noteq> ''test2'' \<and> ci_control_scope c \<noteq> ''all''
               else seen c ''--scope'')
      then Inl ''update needs --scope test2|all; other actions have no scope''
      else
        (let operation = (if ci_control_id c = [] then random_id else ci_control_id c) in
         Inr (CONTROL_WORKERS,
              set_if (ci_control_action c = ''update'') ''scope'' (JString (ci_control_scope c))
                (jobject [if ci_machine_filter c = [] then (''worker_id'', JString (ci_control_worker c))
                          else (''machine_id'', JString (ci_machine_filter c)),
                          (''action'', JString (ci_control_action c)), (''operation_id'', JString operation)]))))"

definition list_command :: "json_codec \<Rightarrow> cli \<Rightarrow> string + MessageType \<times> json" where
  "list_command jc c =
     (let cmd = ci_command c;
          allowed = (if cmd = ''tasks'' then [''--status'', ''--target'', ''--revision'', ''--batch-id'', ''--limit'', ''--before'']
                     else if cmd = ''workers'' then [''--status'', ''--machine-id'', ''--limit'', ''--after''] else []) in
      if \<not> only allowed c then Inl ''unsupported list option''
      else if ci_id c \<noteq> [] then Inl ''unexpected positional argument''
      else
        (let q = set_if (seen c ''--machine-id'') ''machine_id'' (JString (ci_machine_filter c))
                  (set_if (seen c ''--before'') ''before_task_id'' (JUnsigned (ci_before c))
                  (set_if (seen c ''--batch-id'') ''batch_id'' (JString (ci_batch_id c))
                  (set_if (seen c ''--revision'') ''revision'' (JString (ci_revision c))
                  (set_if (seen c ''--target'') ''target'' (JString (ci_target c))
                  (set_if (seen c ''--status'') ''status'' (JString (ci_status_filter c))
                  (set_if (seen c ''--limit'') ''limit'' (jint (ci_limit c)) (JObject [])))))));
             ty = (if cmd = ''tasks'' then QUERY_TASKS else if cmd = ''workers'' then QUERY_WORKERS
                   else if cmd = ''capabilities'' then QUERY_CAPABILITIES else QUERY_STATUS) in
         if seen c ''--after''
         then (case jparse jc (ci_after_cursor c) of
                 None \<Rightarrow> Inl ''invalid cursor JSON''
               | Some cursor \<Rightarrow> Inr (ty, jset q ''after'' cursor))
         else Inr (ty, q)))"

definition submit_command :: "cli \<Rightarrow> string + MessageType \<times> json" where
  "submit_command c =
     (if list_ex (seen c) [''--batch-id'', ''--limit'', ''--before'', ''--before-revision'', ''--from'', ''--to'', ''--after-task-id'']
      then Inl ''regression query options are not allowed for submit''
      else if ci_target c = [] \<or> ci_revision c = [] \<or> ci_id c \<noteq> []
      then Inl ''submit requires --target and --revision, with no positional arguments''
      else if list_ex (seen c) [''--case'', ''--flow'', ''--case-timeout'']
      then (if ci_case_path c = [] \<or> ci_flow c = [] \<or> ci_case_timeout c < 1 \<or> 86400 < ci_case_timeout c
               \<or> \<not> seen c ''--case'' \<or> \<not> seen c ''--flow'' \<or> \<not> seen c ''--case-timeout''
            then Inl ''PJtest submit requires --case, --flow and --case-timeout''
            else Inr (SUBMIT_TASK,
                   jobject [(''task_type'', JString ''REGRESSION''), (''target'', JString (ci_target c)),
                     (''revision'', JString (ci_revision c)), (''priority'', jint (ci_priority c)),
                     (''payload'', jobject [(''spec_version'', jint 1), (''case'', JString (ci_case_path c)),
                        (''flow'', JString (ci_flow c)), (''timeout_seconds'', jint (ci_case_timeout c))])]))
      else Inr (client_submit (ci_target c) (ci_revision c) (ci_priority c)))"

definition regression_command :: "cli \<Rightarrow> string + MessageType \<times> json" where
  "regression_command c =
     (if ci_id c \<noteq> []
         \<or> list_ex (seen c) [''--target'', ''--priority'', ''--case-timeout'', ''--before-revision'', ''--from'', ''--to'', ''--after-task-id'']
         \<or> (ci_revision c = [] \<and> ci_case_path c = [] \<and> ci_batch_id c = [])
         \<or> (seen c ''--limit'' \<and> (ci_limit c < 1 \<or> 50 < ci_limit c)) \<or> (seen c ''--before'' \<and> ci_before c = 0)
      then Inl ''invalid regression query options''
      else
        Inr (QUERY_REGRESSION,
             set_if (seen c ''--before'') ''before_task_id'' (JUnsigned (ci_before c))
            (set_if (seen c ''--limit'') ''limit'' (jint (ci_limit c))
            (set_if (ci_batch_id c \<noteq> []) ''batch_id'' (JString (ci_batch_id c))
            (set_if (ci_flow c \<noteq> []) ''flow'' (JString (ci_flow c))
            (set_if (ci_case_path c \<noteq> []) ''case'' (JString (ci_case_path c))
            (set_if (ci_revision c \<noteq> []) ''revision'' (JString (ci_revision c)) (JObject []))))))))"

definition progress_command :: "cli \<Rightarrow> string + MessageType \<times> json" where
  "progress_command c =
     (let progress = (ci_command c = ''progress'') in
      if ci_id c \<noteq> [] \<or> ci_target c = []
         \<or> list_ex (seen c) [''--priority'', ''--revision'', ''--case'', ''--case-timeout'', ''--batch-id'', ''--before'']
         \<or> (seen c ''--limit'' \<and> (ci_limit c < 1 \<or> (if progress then 20 else 50) < ci_limit c))
      then Inl ''invalid progress/rollback query options''
      else
        (let filter = set_if (seen c ''--limit'') ''limit'' (jint (ci_limit c))
                       (set_if (ci_flow c \<noteq> []) ''flow'' (JString (ci_flow c)) (jobject [(''target'', JString (ci_target c))])) in
         if progress
         then (if list_ex (seen c) [''--from'', ''--to'', ''--after-task-id''] then Inl ''invalid progress query options''
               else Inr (QUERY_PROGRESS, set_if (seen c ''--before-revision'') ''before_revision'' (JString (ci_before_revision c)) filter))
         else (if seen c ''--before-revision'' \<or> ci_from_revision c = [] \<or> ci_to_revision c = []
                  \<or> (seen c ''--after-task-id'' \<and> ci_after_task_id c = 0)
               then Inl ''rollback requires --from and --to''
               else Inr (QUERY_ROLLBACK,
                      set_if (seen c ''--after-task-id'') ''after_task_id'' (JUnsigned (ci_after_task_id c))
                        (jset (jset filter ''from_revision'' (JString (ci_from_revision c)))
                           ''to_revision'' (JString (ci_to_revision c)))))))"

definition log_command :: "cli \<Rightarrow> string + MessageType \<times> json" where
  "log_command c =
     (let one = (ci_command c \<noteq> ''logs'') in
      if \<not> only (if one then [''--run-id'', ''--name'', ''--offset'', ''--limit''] else [''--run-id'']) c then Inl ''invalid log option''
      else if ci_id c = [] \<or> ci_run_id c = [] then Inl ''task id and --run-id required''
      else
        ubind (number_u64 (ci_id c)) (\<lambda>task_id.
          if task_id = 0 then Inl ''task id must be positive''
          else
            (let query = jobject [(''task_id'', JUnsigned task_id), (''run_id'', JString (ci_run_id c))] in
             if \<not> one then Inr (QUERY_LOGS, query)
             else if ci_log_name c = [] \<or> (seen c ''--limit'' \<and> (ci_limit c < 1 \<or> 16384 < ci_limit c))
             then Inl ''log requires --name and limit 1..16384''
             else Inr (READ_LOG,
                    jset (jset (jset query ''name'' (JString (ci_log_name c))) ''offset'' (JUnsigned (ci_log_offset c)))
                      ''limit'' (jint (if seen c ''--limit'' then ci_limit c else 8192))))))"

definition id_command :: "cli \<Rightarrow> string + MessageType \<times> json" where
  "id_command c =
     (if list_ex (seen c) [''--target'', ''--revision'', ''--priority'', ''--case'', ''--flow'', ''--case-timeout'', ''--batch-id'',
           ''--limit'', ''--before'', ''--before-revision'', ''--from'', ''--to'', ''--after-task-id'']
      then Inl ''submit options are not allowed for query/cancel''
      else if ci_command c = ''query-batch'' \<or> ci_command c = ''cancel-batch''
      then (if ci_id c = [] \<or> 128 < length (ci_id c) then Inl ''invalid batch id''
            else Inr (if ci_command c = ''query-batch'' then client_queryBatch (ci_id c) else client_cancelBatch (ci_id c)))
      else
        ubind (number_u64 (ci_id c)) (\<lambda>task_id.
          if task_id = 0 then Inl ''task id must be positive''
          else Inr (if ci_command c = ''query'' then client_query task_id else client_cancel task_id)))"

definition build_request :: "json_codec \<Rightarrow> string \<Rightarrow> cli \<Rightarrow> string + MessageType \<times> json" where
  "build_request jc random_id c =
     (let cmd = ci_command c in
      if cmd \<noteq> ''worker-control'' \<and> list_ex (seen c) [''--worker-id'', ''--action'', ''--scope'', ''--operation-id'']
      then Inl ''management options require worker-control''
      else if cmd \<notin> {''tasks'', ''workers'', ''worker-control''} \<and> list_ex (seen c) [''--status'', ''--machine-id'', ''--after'']
      then Inl ''list filters require tasks or workers''
      else if cmd = ''worker-control'' then worker_control random_id c
      else if cmd \<in> {''tasks'', ''workers'', ''capabilities'', ''status''} then list_command jc c
      else if cmd = ''submit'' then submit_command c
      else if cmd = ''regression'' then regression_command c
      else if cmd \<in> {''progress'', ''rollback''} then progress_command c
      else if cmd \<in> {''logs'', ''log''} then log_command c
      else if cmd \<in> {''query'', ''cancel'', ''query-batch'', ''cancel-batch''} then id_command c
      else Inl ''expected submit, query, cancel, query-batch, cancel-batch, regression, progress or rollback (see --help)'')"

definition settings_bad :: "cli \<Rightarrow> string option" where
  "settings_bad c =
     (if \<not> ipv4 (ci_host c) then Some ''--host must be a numeric IPv4 address''
      else if ci_port c < 1 \<or> 65535 < ci_port c \<or> ci_timeout c < 1 \<or> 60000 < ci_timeout c then Some ''port or timeout out of range''
      else if ci_priority c < - 100 \<or> 100 < ci_priority c then Some ''priority out of range''
      else None)"

text \<open>\<^verbatim>\<open>main\<close>: the exit code, what was sent, and the answer printed.\<close>

definition client_main ::
  "json_codec \<Rightarrow> config_files \<Rightarrow> string list option \<Rightarrow> string list option \<Rightarrow> string \<Rightarrow> exchange \<Rightarrow> string list
   \<Rightarrow> int \<times> string \<times> json option" where
  "client_main jc fs override cwd random_id ex args =
     (case loadDefault fs override cwd [] of
        (False, _) \<Rightarrow> (64, [], None)
      | (True, m) \<Rightarrow>
          (case parse_args args (new_cli m) of
             Inl _ \<Rightarrow> (64, [], None)
           | Inr None \<Rightarrow> (0, [], None)
           | Inr (Some c) \<Rightarrow>
               (case settings_bad c of
                  Some _ \<Rightarrow> (64, [], None)
                | None \<Rightarrow>
                    (case new_client (ci_host c) (of_int (ci_port c)) (ci_timeout c) of
                       Inl _ \<Rightarrow> (1, [], None)
                     | Inr cl \<Rightarrow>
                         (case build_request jc random_id c of
                            Inl _ \<Rightarrow> (64, [], None)
                          | Inr (ty, data) \<Rightarrow>
                              (case GcrpClient_request jc ty data ex cl of
                                 (Inl _, sent, _) \<Rightarrow> (1, sent, None)
                               | (Inr response, sent, _) \<Rightarrow>
                                   (if json_eq (jget (pm_data response) ''code'') (jint 0) then 0 else 2, sent, Some (pm_data response))))))))"

end
