(* ===== verification/Startup.thy ===== *)
theory Startup
  imports Pool Loops Client ServerFacts
begin

text \<open>
  \<^verbatim>\<open>server/src/main.cpp\<close>: the settings of the server and how its parts are put together. The
  environment (arguments, files, database on disk, what the calls of the kernel return) is a parameter; the
  result is an exit code, an abort, or the parts of the running server.
\<close>

section \<open>Settings\<close>

datatype LogLevel = DEBUG | INFO | WARN | ERROR | FATAL

definition level_map :: "(string \<times> LogLevel) list" where
  "level_map = [(''DEBUG'', DEBUG), (''INFO'', INFO), (''WARN'', WARN), (''ERROR'', ERROR), (''FATAL'', FATAL)]"

definition parseLogLevel :: "string \<Rightarrow> LogLevel" where
  "parseLogLevel level_str = (case map_of level_map level_str of Some level \<Rightarrow> level | None \<Rightarrow> INFO)"

record launch =
  ln_log_level :: LogLevel
  ln_log_dir :: string
  ln_port :: int
  ln_worker_threads :: int
  ln_io_threads :: int
  ln_bind_ip :: string

definition read_launch :: "config \<Rightarrow> launch" where
  "read_launch m =
     \<lparr>ln_log_level = parseLogLevel (getString ''log.level'' ''INFO'' m),
      ln_log_dir = getString ''log.dir'' [] m,
      ln_port = getInt ''server.port'' 0 m,
      ln_worker_threads = getInt ''server.worker_threads'' 8 m,
      ln_io_threads = getInt ''server.io_threads'' 2 m,
      ln_bind_ip = getString ''server.bind_ip'' [] m\<rparr>"

definition launch_invalid :: "launch \<Rightarrow> bool" where
  "launch_invalid la \<longleftrightarrow>
     ln_port la < 1 \<or> 65535 < ln_port la \<or> ln_worker_threads la < 1 \<or> 256 < ln_worker_threads la
     \<or> ln_io_threads la < 1 \<or> 256 < ln_io_threads la \<or> ln_log_dir la = [] \<or> ln_bind_ip la = []"

text \<open>The settings the constructor of \<^verbatim>\<open>WorkerServer\<close> reads.\<close>

definition read_server_config :: "config \<Rightarrow> server_config" where
  "read_server_config m =
     \<lparr>cf_worker_timeout_seconds = getInt ''server.worker_timeout_seconds'' 30 m,
      cf_recovery_max_retries = getInt ''server.recovery_max_retries'' 1 m,
      cf_retention_days = getInt ''log.retention_days'' 30 m\<rparr>"

section \<open>Starting\<close>

text \<open>
  The database on disk: whether the exclusive lock on it is obtained, its schema version, whether the
  integrity check passes, and its tables.
\<close>

record disk =
  dk_locked :: bool
  dk_version :: int
  dk_intact :: bool
  dk_tables :: StateStore

text \<open>
  What the kernel answers while the server starts: the descriptor of the signals, the three calls
  that make the main loop and each network loop, the calls of \<^verbatim>\<open>startListen\<close>, and whether the loop is
  allowed to watch the two descriptors. The address is not the kernel's to judge.
\<close>

record startup_calls =
  sk_signal_fd :: int
  sk_main_loop :: "int \<times> int \<times> bool"
  sk_io_loop :: "nat \<Rightarrow> int \<times> int \<times> bool"
  sk_listen :: listen_calls
  sk_watch_signal :: bool
  sk_watch_listen :: bool

definition make_loop :: "int \<times> int \<times> bool \<Rightarrow> event_loop option" where
  "make_loop = (\<lambda>(epfd, wakeup_fd, added). new_event_loop epfd wakeup_fd added)"

record running =
  rn_launch :: launch
  rn_server :: server
  rn_transport :: Transport.transport
  rn_pool :: ThreadPool
  rn_loops :: EventLoopThreadPool
  rn_loop :: event_loop
  rn_acceptor :: Acceptor

datatype outcome = Exit int | Aborted | Serving running

definition open_database :: "disk \<Rightarrow> config \<Rightarrow> exn + StateStore" where
  "open_database d m =
     open_store (getString ''database.path'' [] m) (getInt ''database.busy_timeout_ms'' 5000 m)
       (dk_locked d) (dk_version d) (dk_intact d) (dk_tables d)"

text \<open>The callbacks of the main loop: the signal, the listening descriptor.\<close>

definition on_signal :: nat where "on_signal = 0"
definition on_accept :: nat where "on_accept = 1"

text \<open>\<^verbatim>\<open>inet_pton\<close> reads the address up to a first NUL.\<close>

definition bind_address :: "string \<Rightarrow> bool" where
  "bind_address bind_ip \<longleftrightarrow> ipv4 (takeWhile (\<lambda>c. c \<noteq> CHR 0x00) bind_ip)"

text \<open>
  \<^verbatim>\<open>EchoServer::run\<close> up to the point where its loop turns: the signals are watched, then the server listens, then
  the timer of five seconds is set at time \<open>now\<close>. A server that cannot listen quits and returns false.
\<close>

definition run_begins :: "u64 \<Rightarrow> startup_calls \<Rightarrow> string \<Rightarrow> event_loop \<Rightarrow> bool \<times> event_loop \<times> Acceptor" where
  "run_begins now k bind_ip el =
     (let el1 = addFd (sk_watch_signal k) (nat (sk_signal_fd k)) EPOLLIN on_signal el in
      (case startListen ((sk_listen k)\<lparr>lc_address := bind_address bind_ip\<rparr>) (sk_watch_listen k) on_accept (el1, new_acceptor) of
         (False, el2, ac) \<Rightarrow> (False, el_quit el2, ac)
       | (True, el2, ac) \<Rightarrow> (True, caller (snd (runEvery now 5000 (el_loop el2))) el2, ac)))"

definition server_main ::
  "u64 \<Rightarrow> startup_calls \<Rightarrow> env \<Rightarrow> config_files \<Rightarrow> string list option \<Rightarrow> string list option \<Rightarrow> disk \<Rightarrow> WorkerManager \<Rightarrow> archive
   \<Rightarrow> string list \<Rightarrow> outcome" where
  "server_main now k e fs override cwd d wm logs args =
     (if 1 < length args \<or> (length args = 1 \<and> hd args \<noteq> ''--help'') then Exit 1
      else if length args = 1 then Exit 0
      else
        (case loadDefault fs override cwd [] of
           (False, _) \<Rightarrow> Exit 1
         | (True, m) \<Rightarrow>
             (let settings = read_launch m in
              if launch_invalid settings then Exit 1
              else if sk_signal_fd k < 0 then Exit 1
              else
                (case rbind (open_database d m) (\<lambda>db. new_server e (read_server_config m) (Some db) wm logs) of
                   Inl _ \<Rightarrow> Exit 1
                 | Inr sv \<Rightarrow>
                     (case make_loop (sk_main_loop k) of
                        None \<Rightarrow> Aborted
                      | Some el \<Rightarrow>
                          if list_ex (\<lambda>i. make_loop (sk_io_loop k i) = None) [0..<nat (ln_io_threads settings)] then Aborted
                          else
                            (case run_begins now k (ln_bind_ip settings) el of
                               (False, _, _) \<Rightarrow> Exit 1
                             | (True, el1, ac) \<Rightarrow>
                                 Serving \<lparr>rn_launch = settings, rn_server = sv, rn_transport = new_transport True,
                                      rn_pool = new_pool (nat (ln_worker_threads settings)),
                                      rn_loops = loop_pool_start (new_loop_pool (nat (ln_io_threads settings))),
                                      rn_loop = el1, rn_acceptor = ac\<rparr>))))))"

section \<open>When the server starts\<close>

text \<open>The settings that are accepted, the state of the disk and the answers of the kernel, and a store the tasks come back from.\<close>

definition settings_ok :: "config \<Rightarrow> bool" where
  "settings_ok m \<longleftrightarrow>
     getInt ''server.port'' 0 m \<in> {1..65535} \<and> getInt ''server.worker_threads'' 8 m \<in> {1..256}
     \<and> getInt ''server.io_threads'' 2 m \<in> {1..256} \<and> getString ''log.dir'' [] m \<noteq> []
     \<and> getString ''server.bind_ip'' [] m \<noteq> [] \<and> bind_address (getString ''server.bind_ip'' [] m)
     \<and> getInt ''server.worker_timeout_seconds'' 30 m \<in> {2..3600} \<and> getInt ''server.recovery_max_retries'' 1 m \<in> {0..100}
     \<and> getInt ''log.retention_days'' 30 m \<in> {1..3650}
     \<and> getString ''database.path'' [] m \<notin> {[], '':memory:''} \<and> getInt ''database.busy_timeout_ms'' 5000 m \<in> {1..60000}"

definition disk_ok :: "disk \<Rightarrow> bool" where
  "disk_ok d \<longleftrightarrow> dk_locked d \<and> dk_version d \<in> {0..3} \<and> dk_intact d"

definition kernel_ok :: "startup_calls \<Rightarrow> bool" where
  "kernel_ok k \<longleftrightarrow> 0 \<le> sk_signal_fd k \<and> 0 \<le> lc_socket (sk_listen k) \<and> lc_bound (sk_listen k) \<and> lc_listening (sk_listen k)"

definition loops_made :: "startup_calls \<Rightarrow> nat \<Rightarrow> bool" where
  "loops_made k n \<longleftrightarrow> make_loop (sk_main_loop k) \<noteq> None \<and> (\<forall>i < n. make_loop (sk_io_loop k i) \<noteq> None)"

definition tasks_restored :: "env \<Rightarrow> WorkerManager \<Rightarrow> StateStore \<Rightarrow> bool" where
  "tasks_restored e wm db \<longleftrightarrow> (\<exists>s i. restoreFrom e db (boot wm) = (Inr (), s) \<and> nextTaskId s = Inr i)"

lemma open_database_iff:
  "(\<exists>db. open_database d m = Inr db) \<longleftrightarrow>
     getString ''database.path'' [] m \<notin> {[], '':memory:''} \<and> getInt ''database.busy_timeout_ms'' 5000 m \<in> {1..60000} \<and> disk_ok d"
  by (auto simp: open_database_def open_store_def disk_ok_def not_less)

lemma new_server_iff:
  "(\<exists>sv. new_server e cf (Some db) wm logs = Inr sv) \<longleftrightarrow>
     tasks_restored e wm db \<and> cf_worker_timeout_seconds cf \<in> {2..3600} \<and> cf_recovery_max_retries cf \<in> {0..100}
     \<and> cf_retention_days cf \<in> {1..3650}"
  by (auto simp: new_server_def tasks_restored_def config_check_def Let_def rbind_Inr_iff not_less
      split: prod.splits sum.splits if_splits)

lemma run_begins_iff:
  "fst (run_begins now k bind_ip el) \<longleftrightarrow>
     0 \<le> lc_socket (sk_listen k) \<and> bind_address bind_ip \<and> lc_bound (sk_listen k) \<and> lc_listening (sk_listen k)"
  by (auto simp: run_begins_def startListen_def Let_def split: prod.splits bool.splits if_splits)

lemma launch_valid_iff:
  "\<not> launch_invalid (read_launch m) \<longleftrightarrow>
     getInt ''server.port'' 0 m \<in> {1..65535} \<and> getInt ''server.worker_threads'' 8 m \<in> {1..256}
     \<and> getInt ''server.io_threads'' 2 m \<in> {1..256} \<and> getString ''log.dir'' [] m \<noteq> [] \<and> getString ''server.bind_ip'' [] m \<noteq> []"
  by (auto simp: launch_invalid_def read_launch_def not_less)

lemma new_server_liveness:
  "new_server e cf (Some db) wm logs = Inr sv \<Longrightarrow>
     config_check cf = Inr () \<and> sv_liveness sv = Some (cf_worker_timeout_seconds cf, cf_retention_days cf)"
  by (auto simp: new_server_def Let_def rbind_Inr_iff split: prod.splits sum.splits)

text \<open>Everything the start needs, of the settings \<open>m\<close>, the disk, the kernel and the store.\<close>

definition starts_with :: "startup_calls \<Rightarrow> env \<Rightarrow> disk \<Rightarrow> WorkerManager \<Rightarrow> config \<Rightarrow> bool" where
  "starts_with k e d wm m \<longleftrightarrow>
     settings_ok m \<and> disk_ok d \<and> kernel_ok k \<and> loops_made k (nat (getInt ''server.io_threads'' 2 m))
     \<and> (\<exists>db. open_database d m = Inr db \<and> tasks_restored e wm db)"

text \<open>The settings of a server that serves, and its parts.\<close>

lemma servingD:
  assumes "server_main now k e fs override cwd d wm logs args = Serving r"
  obtains m db el where "args = []" and "loadDefault fs override cwd [] = (True, m)" and "\<not> launch_invalid (read_launch m)"
    and "0 \<le> sk_signal_fd k" and "open_database d m = Inr db" and "new_server e (read_server_config m) (Some db) wm logs = Inr (rn_server r)"
    and "make_loop (sk_main_loop k) = Some el" and "loops_made k (nat (getInt ''server.io_threads'' 2 m))"
    and "run_begins now k (getString ''server.bind_ip'' [] m) el = (True, rn_loop r, rn_acceptor r)"
    and "rn_launch r = read_launch m" and "rn_transport r = new_transport True"
    and "rn_pool r = new_pool (nat (getInt ''server.worker_threads'' 8 m))"
    and "rn_loops r = loop_pool_start (new_loop_pool (nat (getInt ''server.io_threads'' 2 m)))"
  using assms
  by (cases args) (auto simp: server_main_def Let_def rbind_Inr_iff list_ex_iff loops_made_def read_launch_def
      split: if_splits prod.splits bool.splits sum.splits option.splits)

lemma server_main_starts:
  assumes "loadDefault fs override cwd [] = (True, m)" and "starts_with k e d wm m"
  shows "\<exists>r. server_main now k e fs override cwd d wm logs [] = Serving r"
proof -
  note ok = assms(2) [unfolded starts_with_def]
  obtain db where db: "open_database d m = Inr db" "tasks_restored e wm db" using ok by blast
  obtain sv where sv: "new_server e (read_server_config m) (Some db) wm logs = Inr sv"
    using db(2) ok new_server_iff [of e "read_server_config m" db wm logs]
    by (auto simp: settings_ok_def read_server_config_def)
  have valid: "\<not> launch_invalid (read_launch m)" using ok by (simp add: launch_valid_iff settings_ok_def)
  have io: "ln_io_threads (read_launch m) = getInt ''server.io_threads'' 2 m" by (simp add: read_launch_def)
  obtain el where el: "make_loop (sk_main_loop k) = Some el" using ok by (auto simp: loops_made_def)
  have "fst (run_begins now k (ln_bind_ip (read_launch m)) el)"
    using ok by (simp add: run_begins_iff kernel_ok_def settings_ok_def read_launch_def)
  then obtain el1 ac where run: "run_begins now k (ln_bind_ip (read_launch m)) el = (True, el1, ac)" by (metis eq_fst_iff)
  show ?thesis
    using ok by (auto simp: server_main_def assms(1) valid db(1) sv el run io Let_def list_ex_iff loops_made_def kernel_ok_def)
qed

lemma serving_starts_with:
  assumes "server_main now k e fs override cwd d wm logs args = Serving r"
  shows "\<exists>m. loadDefault fs override cwd [] = (True, m) \<and> rn_launch r = read_launch m \<and> starts_with k e d wm m"
proof (rule servingD [OF assms])
  fix m db el
  assume load: "loadDefault fs override cwd [] = (True, m)" and valid: "\<not> launch_invalid (read_launch m)" and fd: "0 \<le> sk_signal_fd k"
    and db: "open_database d m = Inr db" and sv: "new_server e (read_server_config m) (Some db) wm logs = Inr (rn_server r)"
    and loops: "loops_made k (nat (getInt ''server.io_threads'' 2 m))"
    and run: "run_begins now k (getString ''server.bind_ip'' [] m) el = (True, rn_loop r, rn_acceptor r)"
    and r: "rn_launch r = read_launch m"
  have "tasks_restored e wm db" "getInt ''server.worker_timeout_seconds'' 30 m \<in> {2..3600}"
    "getInt ''server.recovery_max_retries'' 1 m \<in> {0..100}" "getInt ''log.retention_days'' 30 m \<in> {1..3650}"
    using sv new_server_iff [of e "read_server_config m" db wm logs] by (auto simp: read_server_config_def)
  moreover have "0 \<le> lc_socket (sk_listen k) \<and> bind_address (getString ''server.bind_ip'' [] m) \<and> lc_bound (sk_listen k) \<and> lc_listening (sk_listen k)"
    using run_begins_iff [of now k "getString ''server.bind_ip'' [] m" el] by (simp only: run fst_conv simp_thms)
  ultimately show ?thesis
    using load r valid fd db loops open_database_iff [of d m]
    by (auto simp: starts_with_def settings_ok_def launch_valid_iff kernel_ok_def)
qed

text \<open>The main loop of a server that serves.\<close>

lemma addFd_reachable: "el_reachable el \<Longrightarrow> el_wakeup_fd el \<in> fst ` set (el_interest el) \<Longrightarrow> el_reachable (addFd allowed fd events cb el)"
proof (cases "fd = el_wakeup_fd el")
  case True
  then show "el_wakeup_fd el \<in> fst ` set (el_interest el) \<Longrightarrow> el_reachable el \<Longrightarrow> ?thesis"
    by (auto simp: addFd_def map_of_eq_None_iff)
qed (blast intro: er_step es_add)

lemma addFd_frame: "el_loop (addFd allowed fd events cb el) = el_loop el" "el_wakeup_fd (addFd allowed fd events cb el) = el_wakeup_fd el"
  "fst ` set (el_interest el) \<subseteq> fst ` set (el_interest (addFd allowed fd events cb el))"
  by (auto simp: addFd_def dom_update)

lemma run_begins_loop:
  assumes "make_loop calls = Some el" and "run_begins now k bind_ip el = (True, el1, ac)"
  shows "el_reachable el1" and "ac_listen_fd ac = Some (nat (lc_socket (sk_listen k)))"
proof -
  let ?el = "addFd (sk_watch_listen k) (nat (lc_socket (sk_listen k))) EPOLLIN on_accept
    (addFd (sk_watch_signal k) (nat (sk_signal_fd k)) EPOLLIN on_signal el)"
  have el: "el_reachable el" "el_loop el = new_loop" "el_wakeup_fd el \<in> fst ` set (el_interest el)"
    using assms(1) er_new by (cases calls; auto simp: make_loop_def new_event_loop_def split: if_splits)+
  have "el_reachable ?el" 
    using el addFd_frame(3) [of el] by (intro addFd_reachable) (simp_all add: addFd_frame subset_iff)
  moreover have "el1 = caller (snd (runEvery now 5000 (el_loop ?el))) ?el" "ac_listen_fd ac = Some (nat (lc_socket (sk_listen k)))"
    using assms(2) by (auto simp: run_begins_def startListen_def new_acceptor_def Let_def split: if_splits prod.splits bool.splits)
  moreover have "lp_next_id (el_loop ?el) + 1 \<noteq> 0" by (simp add: addFd_frame el(2) new_loop_def)
  ultimately show "el_reachable el1" "ac_listen_fd ac = Some (nat (lc_socket (sk_listen k)))" using er_step [OF _ es_every] by auto
qed



definition demo_config_text :: string where
  "demo_config_text = config_text [(''server.port'', ''9000''), (''log.dir'', ''logs''), (''server.bind_ip'', ''0.0.0.0''),
     (''database.path'', ''gcrp.db'')]"

definition demo_config_files :: config_files where
  "demo_config_files = \<lparr>cf_regular = (\<lambda>p. p = [''srv'', ''config'', ''server.conf'']),
     cf_open = (\<lambda>p. if p = [''srv'', ''config'', ''server.conf''] then Some demo_config_text else None)\<rparr>"

definition demo_disk_state :: disk where
  "demo_disk_state = \<lparr>dk_locked = True, dk_version = 3, dk_intact = True, dk_tables = demo_db\<rparr>"

definition demo_calls :: startup_calls where
  "demo_calls = \<lparr>sk_signal_fd = 3, sk_main_loop = (4, 5, True), sk_io_loop = (\<lambda>i. (int (10 + 2 * i), int (11 + 2 * i), True)),
     sk_listen = \<lparr>lc_socket = 6, lc_address = True, lc_bound = True, lc_listening = True\<rparr>, sk_watch_signal = True, sk_watch_listen = True\<rparr>"

definition demo_settings :: config where
  "demo_settings = snd (loadDefault demo_config_files None (Some [''srv'', ''run'']) [])"

lemma demo_settings_loaded: "loadDefault demo_config_files None (Some [''srv'', ''run'']) [] = (True, demo_settings)"
  unfolding demo_settings_def by code_simp

lemma demo_settings_valid: "\<not> launch_invalid (read_launch demo_settings)" "config_check (read_server_config demo_settings) = Inr ()"
  "getString ''database.path'' [] demo_settings = ''gcrp.db''" "getInt ''database.busy_timeout_ms'' 5000 demo_settings = 5000"
  "ln_port (read_launch demo_settings) = 9000" "bind_address (getString ''server.bind_ip'' [] demo_settings)"
  by code_simp+

lemma demo_database: "open_database demo_disk_state m = Inr db \<Longrightarrow> db = demo_db"
  by (auto simp: open_database_def open_store_def demo_disk_state_def demo_db_def split: if_splits)

lemma demo_database_opens: "open_database demo_disk_state demo_settings = Inr demo_db"
  by (simp add: open_database_def open_store_def demo_disk_state_def demo_db_def demo_settings_valid)

lemma demo_server_starts: "\<exists>sv. new_server demo_env (read_server_config demo_settings) (Some demo_db) demo_wm0 [] = Inr sv"
  by (simp add: new_server_def restoreFrom_def demo_settings_valid Let_def rbind_Inr_iff boot_def new_scheduler_def demo_db_def loadTasks_def
      nextTaskId_def highWaterMarks_def)

lemma demo_starts_with: "starts_with demo_calls demo_env demo_disk_state demo_wm0 demo_settings"
proof -
  have server: "tasks_restored demo_env demo_wm0 demo_db" "getInt ''server.worker_timeout_seconds'' 30 demo_settings \<in> {2..3600}"
    "getInt ''server.recovery_max_retries'' 1 demo_settings \<in> {0..100}" "getInt ''log.retention_days'' 30 demo_settings \<in> {1..3650}"
    using demo_server_starts new_server_iff [of demo_env "read_server_config demo_settings" demo_db demo_wm0 "[]"]
    by (simp_all add: read_server_config_def)
  have "settings_ok demo_settings"
    using server(2-4) demo_settings_valid(1,3,4,6) by (simp add: settings_ok_def launch_valid_iff)
  then show ?thesis
    using demo_database_opens server(1)
    by (auto simp: starts_with_def disk_ok_def kernel_ok_def loops_made_def make_loop_def new_event_loop_def demo_calls_def demo_disk_state_def)
qed

lemma demo_serves:
  "\<exists>r. server_main 0 demo_calls demo_env demo_config_files None (Some [''srv'', ''run'']) demo_disk_state demo_wm0 [] [] = Serving r"
  by (rule server_main_starts [OF demo_settings_loaded demo_starts_with])

text \<open>An address that is no address is not served.\<close>

lemma demo_bad_address:
  "starts_with k e d wm m \<Longrightarrow> getString ''server.bind_ip'' [] m \<noteq> ''localhost''"
proof
  assume "starts_with k e d wm m" and bad: "getString ''server.bind_ip'' [] m = ''localhost''"
  then have "bind_address ''localhost''" by (simp add: starts_with_def settings_ok_def)
  moreover have "\<not> bind_address ''localhost''" by code_simp
  ultimately show False by blast
qed


end
