(* ===== verification/Node.thy ===== *)
theory Node
  imports Startup
begin

text \<open>
  The server and the transport together: the transport makes its callbacks to the server as it
  opens and closes connections, and between them the server handles messages, log jobs and ticks.
  A connection is the same object in both, so its reference in the transport is its identity in
  the server.
\<close>

section \<open>Steps\<close>

record node =
  nd_transport :: Transport.transport
  nd_server :: server

text \<open>The callbacks a step of the transport from \<open>s\<close> to \<open>s'\<close> makes.\<close>

definition callbacks :: "Transport.transport \<Rightarrow> Transport.transport \<Rightarrow> server \<Rightarrow> server" where
  "callbacks s s' sv =
     fold server_close (drop (length (tr_closed s)) (tr_closed s'))
       (fold (\<lambda>c. server_open c (conn_of s' c)) (drop (length (tr_opened s)) (tr_opened s')) sv)"

text \<open>
  What the server does between callbacks: messages, log jobs and passes as long as sequence numbers last, the
  liveness thread, and what the network does to the connections.
\<close>

inductive inner_step :: "server \<Rightarrow> server \<Rightarrow> bool" where
  is_message: "core_room (ho_core (sv_host sv)) \<Longrightarrow> inner_step sv (snd (server_message se c message sv))"
| is_log_job: "core_room (ho_core (sv_host sv)) \<Longrightarrow> inner_step sv (run_log_job se sv)"
| is_tick: "inner_step sv (server_tick now sv)"
| is_prune: "inner_step sv (server_prune expired sv)"
| is_pass: "core_room (ho_core (sv_host sv)) \<Longrightarrow> inner_step sv (server_runOnce se sv)"
| is_stop: "inner_step sv (sv\<lparr>sv_log_stopping := True\<rparr>)"
| is_conns: "fst ` set conns \<subseteq> live (host_net (sv_host sv)) \<Longrightarrow> fst ` set (sv_sessions sv) \<subseteq> fst ` set conns \<Longrightarrow>
     inner_step sv (Server.transport conns jobs sv)"

inductive node_reachable :: "node \<Rightarrow> bool" where
  nd_start: "wm_workers wm = [] \<Longrightarrow> (\<And>m db. open_database d m = Inr db \<Longrightarrow> restorable e db) \<Longrightarrow>
     server_main now k e fs override cwd d wm logs args = Serving r \<Longrightarrow>
     node_reachable \<lparr>nd_transport = rn_transport r, nd_server = rn_server r\<rparr>"
| nd_move: "node_reachable nd \<Longrightarrow> transport_step (nd_transport nd) s' \<Longrightarrow>
     node_reachable \<lparr>nd_transport = s', nd_server = callbacks (nd_transport nd) s' (nd_server nd)\<rparr>"
| nd_late: "node_reachable nd \<Longrightarrow> first_job l (nd_transport nd) = Some (J_accept fd) \<Longrightarrow>
     s' = run_accept False now l fd ((nd_transport nd)\<lparr>tr_jobs := remove1 (l, J_accept fd) (tr_jobs (nd_transport nd))\<rparr>) \<Longrightarrow>
     node_reachable \<lparr>nd_transport = s', nd_server = callbacks (nd_transport nd) s' (nd_server nd)\<rparr>"
| nd_inner: "node_reachable nd \<Longrightarrow> inner_step (nd_server nd) sv' \<Longrightarrow> node_reachable (nd\<lparr>nd_server := sv'\<rparr>)"

section \<open>What the server keeps\<close>

text \<open>The connections with a session, and those of the network.\<close>

definition server_view :: "server \<Rightarrow> nat set \<times> nat set" where
  "server_view sv = (fst ` set (sv_sessions sv), live (host_net (sv_host sv)))"

lemma keys_update_old: "map_of al k = Some v \<Longrightarrow> fst ` set (AList.update k w al) = fst ` set al"
  by (auto simp: dom_update) (metis map_of_SomeD image_iff fst_conv)

lemma view_deliver:
  assumes "server_bindings sv"
  shows "server_view (snd (deliver se c message sv)) = server_view sv"
proof (cases "map_of (sv_sessions sv) c")
  case (Some cs)
  obtain r h cs1 where run: "session_onMessage se message (sv_host sv, cs) = (r, (h, cs1))" by (metis prod_cases3)
  have "ws_connection (cs_worker cs) = Some c" using assms Some by (simp add: bindings_ok_def)
  from links_session_onMessage(1) [OF this run] have "live (host_net h) = live (host_net (sv_host sv))" by (simp add: session_links_def)
  with Some run show ?thesis by (simp add: deliver_def server_view_def keys_update_old)
qed (simp add: deliver_def)

lemma view_message:
  assumes ok: "server_bindings sv"
  shows "server_view (snd (server_message se c message sv)) = server_view sv"
proof -
  have queue: "server_view (snd (queue_log se c request sv1)) = server_view sv1" for request sv1
    using quiet_on_connection [of "sv_host sv1" incPendingTasks c]
      quiet_sendLogResponse [of "sv_host sv1" se c "logFailure (pm_request_id request) ''log I/O queue full; retry later''"]
    by (auto simp: queue_log_def quiet_def same_links_def server_view_def split: prod.split)
  have auth: "server_bindings (sv\<lparr>sv_sessions := AList.update c cs1 (sv_sessions sv)\<rparr>)
      \<and> server_view (sv\<lparr>sv_sessions := AList.update c cs1 (sv_sessions sv)\<rparr>) = server_view sv"
    if cs: "map_of (sv_sessions sv) c = Some cs" and "authorizeLog request (sv_host sv) cs = (b, cs1)" for request cs b cs1
  proof -
    have "cs_worker cs1 = cs_worker cs" "cs_connection cs1 = cs_connection cs"
      using that(2) by (auto simp: authorizeLog_def split: if_splits)
    with bindings_session [OF ok cs, of "sv_host sv" cs1] cs show ?thesis by (simp add: server_view_def keys_update_old)
  qed
  show ?thesis
    using view_deliver [OF ok, of se c message] auth queue view_deliver [of "sv\<lparr>sv_sessions := AList.update c cs1 (sv_sessions sv)\<rparr>" se c message for cs1]
    by (auto simp: server_message_def Let_def split: sum.split option.split prod.split)
qed

lemma view_log_job: "server_view (run_log_job se sv) = server_view sv"
proof (cases "sv_log_jobs sv")
  case (Cons job rest)
  obtain c request where job: "job = (c, request)" by (cases job)
  obtain response h1 where run: "router_handle se request (sv_host sv) = (response, h1)" by (meson surj_pair)
  have l1: "live (host_net h1) = live (host_net (sv_host sv))" using links_router [of "sv_host sv" se request] run by (simp add: same_links_def)
  have Q: "live (host_net (on_connection f d h2)) = live (host_net h2)" for f d h2
    using quiet_on_connection [of h2 f d] by (simp add: quiet_def same_links_def)
  have S: "live (host_net (snd (sendLogResponse se d m h2))) = live (host_net h2)" for d m h2
    using quiet_sendLogResponse [of h2 se d m] by (simp add: quiet_def same_links_def)
  obtain r h2 where send: "sendLogResponse se c response h1 = (r, h2)" by (meson surj_pair)
  have "live (host_net h2) = live (host_net (sv_host sv))" using S [of c response h1] send l1 by simp
  then show ?thesis by (cases r) (simp_all add: run_log_job_def Cons job run send Let_def server_view_def Q S)
qed (simp add: run_log_job_def)

lemma inner_view:
  assumes "inner_step sv sv'" and ok: "server_bindings sv"
  shows "fst (server_view sv') = fst (server_view sv)" "snd (server_view sv') \<subseteq> snd (server_view sv)" "server_step sv sv'"
proof -
  have "same_links (host_net (sv_host sv)) (host_net (sv_host (server_runOnce se sv)))" for se
    using same_links_runOnce [of "co_net (ho_core (sv_host sv))" "pass_env se" "se_net se" "co_sys (ho_core (sv_host sv))"]
    by (auto simp: server_runOnce_def Let_def host_net_def split: prod.split)
  then have "live (host_net (sv_host (server_runOnce se sv))) = live (host_net (sv_host sv))" for se by (simp add: same_links_def)
  moreover have "sv_sessions (server_runOnce se sv) = sv_sessions sv" for se by (simp add: server_runOnce_def Let_def split: prod.split)
  ultimately have pass: "server_view (server_runOnce se sv) = server_view sv" for se by (simp add: server_view_def)
  have other: "server_view (server_tick now sv) = server_view sv" "server_view (server_prune expired sv) = server_view sv"
    "server_view (sv\<lparr>sv_log_stopping := True\<rparr>) = server_view sv" for now expired
    by (auto simp: server_view_def server_tick_def server_prune_def host_net_def split: option.split)
  show "fst (server_view sv') = fst (server_view sv)" "snd (server_view sv') \<subseteq> snd (server_view sv)"
    using assms(1)
    by (cases; simp add: pass other view_message [OF ok] view_log_job; auto simp: server_view_def transport_def live_def)+
  show "server_step sv sv'" using assms(1) by cases (auto intro: server_step.intros)
qed

section \<open>Together\<close>

lemma view_open:
  assumes "c \<notin> fst ` set (sv_sessions sv)"
  shows "server_view (server_open c conn sv) = (insert c (fst (server_view sv)), insert c (snd (server_view sv)))"
proof -
  have "map_of (sv_sessions sv) c = None" using assms by (simp add: map_of_eq_None_iff)
  then show ?thesis by (simp add: server_open_def Let_def server_view_def live_def dom_update)
qed

lemma view_close: "server_view (server_close c sv) = (fst (server_view sv) - {c}, snd (server_view sv))"
proof (cases "map_of (sv_sessions sv) c")
  case (Some cs)
  obtain h cs' where run: "session_handleClose (sv_host sv, cs) = (h, cs')" by (meson surj_pair)
  have "live (host_net h) = live (host_net (sv_host sv))"
    using run by (auto simp: session_handleClose_def worker_handleClose_def Let_def unbind_def live_def
        split: prod.splits option.splits if_splits)
  moreover have "fst ` set (AList.delete c (sv_sessions sv)) = fst ` set (sv_sessions sv) - {c}" by (auto simp: AList.delete_eq)
  ultimately show ?thesis using Some run by (simp add: server_close_def server_view_def)
next
  case None
  then have "c \<notin> fst ` set (sv_sessions sv)" by (simp add: map_of_eq_None_iff)
  with None show ?thesis by (simp add: server_close_def server_view_def)
qed

lemma view_closes:
  "server_reachable sv \<Longrightarrow> server_reachable (fold server_close cs sv)
     \<and> server_view (fold server_close cs sv) = (fst (server_view sv) - set cs, snd (server_view sv))"
proof (induction cs arbitrary: sv)
  case (Cons c cs)
  from Cons.IH [OF sv_next [OF Cons.prems sv_close, of c]] show ?case by (auto simp: view_close)
qed simp

text \<open>Sessions are the open connections, and the network knows no others than those opened.\<close>

definition node_ok :: "node \<Rightarrow> bool" where
  "node_ok nd \<longleftrightarrow> transport_reachable (nd_transport nd) \<and> server_reachable (nd_server nd)
     \<and> fst (server_view (nd_server nd)) = set (connectionSnapshot (nd_transport nd))
     \<and> snd (server_view (nd_server nd)) \<subseteq> set (tr_opened (nd_transport nd))"

lemma callbacks_ok:
  assumes sv: "server_reachable sv" and s: "transport_ok s" "transport_ok s'" and ann: "announces s s'"
    and view: "fst (server_view sv) = set (connectionSnapshot s)" "snd (server_view sv) \<subseteq> set (tr_opened s)"
  shows "server_reachable (callbacks s s' sv) \<and> fst (server_view (callbacks s s' sv)) = set (connectionSnapshot s')
     \<and> snd (server_view (callbacks s s' sv)) \<subseteq> set (tr_opened s')"
proof -
  have O: "tr_opened r = [0..<length (tr_sockets r)]" "set (connectionSnapshot r) = set (tr_opened r) - set (tr_closed r)"
    "set (tr_closed r) \<subseteq> set (tr_opened r)" if "transport_ok r" for r
    using that by (auto simp: transport_ok_def transport_pre_def)
  define sv1 where "sv1 = fold (\<lambda>c. server_open c (conn_of s' c)) (drop (length (tr_opened s)) (tr_opened s')) sv"
  from ann obtain closed where closed: "tr_closed s' = tr_closed s @ closed" by (auto simp: announces_def)
  have opened: "server_reachable sv1 \<and> fst (server_view sv1) = set (tr_opened s') - set (tr_closed s)
      \<and> snd (server_view sv1) \<subseteq> set (tr_opened s')"
  proof (cases "tr_opened s' = tr_opened s")
    case True
    then show ?thesis using sv view O(2) [OF s(1)] by (simp add: sv1_def)
  next
    case False
    let ?c = "length (tr_sockets s)"
    from False ann obtain now where new: "tr_opened s' = tr_opened s @ [?c]" "conn_of s' ?c = new_connection now" by (auto simp: announces_def)
    then have run: "sv1 = server_open ?c (new_connection now) sv" by (simp add: sv1_def)
    have fresh: "?c \<notin> set (tr_opened s)" using O(1) [OF s(1)] by simp
    then have none: "?c \<notin> fst ` set (sv_sessions sv)" "?c \<notin> live (host_net (sv_host sv))"
      using view O(2) [OF s(1)] by (auto simp: server_view_def)
    then have "server_reachable sv1" unfolding run by (intro sv_next [OF sv sv_open]) (simp_all add: map_of_eq_None_iff)
    moreover have "?c \<notin> set (tr_closed s)" using fresh O(3) [OF s(1)] by auto
    ultimately show ?thesis
      using view O(2) [OF s(1)] view_open [OF none(1)] unfolding run by (auto simp: new)
  qed
  have "callbacks s s' sv = fold server_close closed sv1" by (simp add: callbacks_def sv1_def closed)
  with view_closes [of sv1 closed] opened O(2) [OF s(2)] closed show ?thesis by auto
qed

lemma new_server_view: "new_server e cf db wm logs = Inr sv \<Longrightarrow> server_view sv = ({}, {})"
  by (auto simp: new_server_def new_host_def Let_def rbind_Inr_iff server_view_def live_def host_net_def
      split: prod.splits sum.splits option.splits)

lemma started_parts:
  assumes "wm_workers wm = []" and "\<And>m db. open_database d m = Inr db \<Longrightarrow> restorable e db"
    and "server_main now k e fs override cwd d wm logs args = Serving r"
  shows "server_reachable (rn_server r)" "rn_transport r = new_transport True" "server_view (rn_server r) = ({}, {})"
proof -
  obtain m db where db: "open_database d m = Inr db" and sv: "new_server e (read_server_config m) (Some db) wm logs = Inr (rn_server r)"
    and tr: "rn_transport r = new_transport True"
    by (rule servingD [OF assms(3)])
  show "server_reachable (rn_server r)" using sv_start [OF assms(1) _ sv] assms(2) [OF db] by simp
  show "rn_transport r = new_transport True" by (rule tr)
  show "server_view (rn_server r) = ({}, {})" by (rule new_server_view [OF sv])
qed

lemma node_reachable_ok: "node_reachable nd \<Longrightarrow> node_ok nd"
proof (induction rule: node_reachable.induct)
  case (nd_start wm d e now k fs override cwd logs args r)
  from started_parts [OF nd_start] have "server_reachable (rn_server r)" "rn_transport r = new_transport True"
    "server_view (rn_server r) = ({}, {})" by auto
  moreover have "connectionSnapshot (new_transport True) = []" by (simp add: new_transport_def connectionSnapshot_def)
  ultimately show ?case by (simp add: node_ok_def tr_new)
next
  case (nd_move nd s')
  then have ok: "transport_ok (nd_transport nd)" "transport_reachable s'" by (auto simp: node_ok_def intro: reachable_ok tr_step)
  from callbacks_ok [OF _ ok(1) reachable_ok [OF ok(2)] step_announces [OF nd_move(2) ok(1)], of "nd_server nd"] nd_move(3) ok(2)
  show ?case by (simp add: node_ok_def)
next
  case (nd_late nd l fd s' now)
  then have ok: "transport_ok (nd_transport nd)" "transport_reachable s'" by (auto simp: node_ok_def intro: reachable_ok tr_late)
  have "announces (nd_transport nd) s'" using accept_announces nd_late(3) by simp
  from callbacks_ok [OF _ ok(1) reachable_ok [OF ok(2)] this, of "nd_server nd"] nd_late(4) ok(2)
  show ?case by (simp add: node_ok_def)
next
  case (nd_inner nd sv')
  then have sv: "server_reachable (nd_server nd)" by (simp add: node_ok_def)
  note V = inner_view [OF nd_inner(2) server_reachable_bindings [OF sv]]
  from nd_inner(3) V sv_next [OF sv V(3)] show ?case by (auto simp: node_ok_def)
qed

text \<open>
  C16. Server and transport agree: in every state a started server reaches, under any interleaving of
  the loops, the pool, the callbacks, messages, log jobs and ticks, the sessions of the server are exactly the open
  connections of the transport, every worker the registry binds is bound to an open connection whose session is registered
  as that worker with that handle, and the scheduler is in a state its own operations reach. When the main loop has quit, no session and no binding is left.
\<close>

theorem node_agrees:
  assumes "node_reachable nd"
  shows "fst ` set (sv_sessions (nd_server nd)) = set (connectionSnapshot (nd_transport nd))
     \<and> (\<forall>w en. map_of (rg_registry (nt_registry (host_net (sv_host (nd_server nd))))) w = Some en \<longrightarrow>
          ce_handle en \<in> set (connectionSnapshot (nd_transport nd))
          \<and> (\<exists>cs. map_of (sv_sessions (nd_server nd)) (ce_handle en) = Some cs
               \<and> ws_worker_id (cs_worker cs) = Some w \<and> ws_binding_handle (cs_worker cs) = Some (ce_handle_id en)))
     \<and> reachable (server_sys (nd_server nd)) \<and> sched_inv (server_sys (nd_server nd))
     \<and> (tr_quit (nd_transport nd) \<longrightarrow> sv_sessions (nd_server nd) = []
          \<and> rg_registry (nt_registry (host_net (sv_host (nd_server nd)))) = [])"
proof -
  have ok: "node_ok nd" by (rule node_reachable_ok [OF assms])
  let ?sv = "nd_server nd" and ?tr = "nd_transport nd"
  have sessions: "fst ` set (sv_sessions ?sv) = set (connectionSnapshot ?tr)" using ok by (simp add: node_ok_def server_view_def)
  have sv: "server_reachable ?sv" and tr: "transport_ok ?tr" using ok by (simp_all add: node_ok_def reachable_ok)
  note B = server_reachable_bindings [OF sv, unfolded bindings_ok_def]
  have held: "\<exists>cs. map_of (sv_sessions ?sv) (ce_handle en) = Some cs \<and> ws_worker_id (cs_worker cs) = Some w
      \<and> ws_binding_handle (cs_worker cs) = Some (ce_handle_id en)" if "map_of (entries_of (sv_host ?sv)) w = Some en" for w en
    using B that by blast
  have bound: "ce_handle en \<in> set (connectionSnapshot ?tr)" if "map_of (entries_of (sv_host ?sv)) w = Some en" for w en
    using held [OF that] sessions by (metis domI dom_map_of_conv_image_fst)
  have "sv_sessions ?sv = [] \<and> entries_of (sv_host ?sv) = []" if quit: "tr_quit ?tr"
  proof -
    have none: "connectionSnapshot ?tr = []" using quit_empty [OF tr quit] by (simp add: connectionSnapshot_def)
    then have "map_of (entries_of (sv_host ?sv)) w = None" for w using bound by (metis empty_iff list.set(1) not_None_eq)
    then have "fst ` set (entries_of (sv_host ?sv)) = {}" by (metis dom_map_of_conv_image_fst dom_eq_empty_conv ext)
    with none sessions show ?thesis by simp
  qed
  with sessions bound held server_reachable_sys [OF sv] reachable_inv show ?thesis by simp
qed

text \<open>A server that has started and opened one connection.\<close>

definition demo_joined :: "Transport.transport" where
  "demo_joined = run_first 5 1 (handleNewConnection 1 7 (new_transport True))"

lemma demo_node_reachable:
  "\<exists>nd. node_reachable nd \<and> nd_transport nd = demo_joined"
proof -
  obtain r where run: "server_main 0 demo_calls demo_env demo_config_files None (Some [''srv'', ''run'']) demo_disk_state demo_wm0 [] [] = Serving r"
    using demo_serves by blast
  have wm: "wm_workers demo_wm0 = []" by (simp add: demo_wm0_def)
  have db: "restorable demo_env db" if "open_database demo_disk_state m = Inr db" for m db
    using demo_database [OF that] demo_restorable by simp
  have N0: "node_reachable \<lparr>nd_transport = rn_transport r, nd_server = rn_server r\<rparr>"
    by (rule nd_start [OF wm _ run]) (rule db)
  have tr: "rn_transport r = new_transport True" by (rule started_parts(2) [OF wm _ run]) (rule db)
  have "transport_step (new_transport True) (handleNewConnection 1 7 (new_transport True))"
    by (rule ts_accept) (simp_all add: new_transport_def accept_fds_def)
  note N1 = nd_move [OF N0, unfolded node.simps tr, OF this]
  from nd_move [OF N1, unfolded node.simps, OF ts_job [of _ 5 1]] show ?thesis unfolding demo_joined_def by fastforce
qed

theorem node_agrees_witness:
  "\<exists>nd. node_reachable nd \<and> tr_opened (nd_transport nd) = [0] \<and> fst ` set (sv_sessions (nd_server nd)) = {0}
     \<and> sched_inv (server_sys (nd_server nd))"
proof -
  obtain nd where nd: "node_reachable nd" "nd_transport nd = demo_joined" using demo_node_reachable by blast
  have "tr_opened demo_joined = [0]" "connectionSnapshot demo_joined = [0]" by code_simp+
  with nd node_agrees [OF nd(1)] show ?thesis by auto
qed

end
