(* ===== verification/ClientFacts.thy ===== *)
theory ClientFacts
  imports Client
begin

text \<open>
  The client against the server's own codecs: what a request puts on the wire is the request the server
  decodes, an answer is read whatever the pieces it arrives in, and a submission built from the command
  line passes the server's validation.
\<close>

section \<open>Text on the wire\<close>

text \<open>
  \<^verbatim>\<open>nlohmann::json\<close> reads a number without a sign as unsigned, whatever kind it was written from: parsing
  the text of a value gives its \<open>wire_form\<close>.
\<close>

fun wire_form :: "json \<Rightarrow> json" where
  "wire_form (JInteger w) = (if 0 \<le> sint w then JUnsigned w else JInteger w)"
| "wire_form (JArray js) = JArray (map wire_form js)"
| "wire_form (JObject m) = JObject (map (\<lambda>(k, v). (k, wire_form v)) m)"
| "wire_form j = j"

definition codec_text :: "json_codec \<Rightarrow> json \<Rightarrow> bool" where
  "codec_text jc j \<longleftrightarrow> (case jdump jc j of None \<Rightarrow> False | Some s \<Rightarrow> jparse jc s = Some (wire_form j))"

definition on_wire :: "ProtocolMessage \<Rightarrow> ProtocolMessage" where
  "on_wire m = m\<lparr>pm_data := wire_form (pm_data m)\<rparr>"

lemma wire_form_object [simp]: "is_object (wire_form j) = is_object j"
  by (cases j) auto

lemma wire_form_envelope: "wire_form (envelope m) = envelope (on_wire m)"
  by (simp add: envelope_def jobject_def on_wire_def)

lemma encode_arrives:
  assumes "codec_text jc (envelope m)" and "pm_type m \<noteq> UNKNOWN_MESSAGE" "pm_version m = PROTOCOL_VERSION" "is_object (pm_data m)"
  obtains body where "ProtocolCodec_encode jc m = Inr body" "ProtocolCodec_decode jc body = Inr (on_wire m)"
proof -
  from assms(1) obtain body where "jdump jc (envelope m) = Some body" "jparse jc body = Some (envelope (on_wire m))"
    by (auto simp: codec_text_def wire_form_envelope split: option.splits)
  moreover have "validateEnvelope (envelope (on_wire m)) = Inr (on_wire m)"
    using assms(2-4) by (intro validateEnvelope_envelope) (simp_all add: on_wire_def)
  ultimately show thesis by (intro that [of body]) (simp_all add: ProtocolCodec_encode_def ProtocolCodec_decode_def)
qed

section \<open>Transfers\<close>

lemma transfer_out_eqs [simp]:
  "transfer_out evs [] = (Inr (), [])"
  "data \<noteq> [] \<Longrightarrow> transfer_out [] data = (Inl (Runtime_error ''request deadline exceeded''), [])"
  "data \<noteq> [] \<Longrightarrow> transfer_out (SendIntr # evs) data = transfer_out evs data"
  "data \<noteq> [] \<Longrightarrow> transfer_out (SendAgain # evs) data = transfer_out evs data"
  "data \<noteq> [] \<Longrightarrow> transfer_out (SendError # evs) data = (Inl (Runtime_error ''send''), [])"
  "data \<noteq> [] \<Longrightarrow> transfer_out (SendBytes 0 # evs) data = (Inl (Runtime_error ''connection closed before response completed''), [])"
  by (simp_all add: transfer_out.simps)

lemma transfer_in_eqs [simp]:
  "transfer_in 0 evs = (Inr [], evs)"
  "0 < n \<Longrightarrow> transfer_in n [] = (Inl (Runtime_error ''request deadline exceeded''), [])"
  "0 < n \<Longrightarrow> transfer_in n (RecvIntr # evs) = transfer_in n evs"
  "0 < n \<Longrightarrow> transfer_in n (RecvAgain # evs) = transfer_in n evs"
  by (simp_all add: transfer_in.simps)

lemma transfer_out_prefix:
  "transfer_out evs data = (r, sent) \<Longrightarrow> \<exists>rest. data = sent @ rest \<and> (r = Inr () \<longrightarrow> rest = [])"
proof (induction evs arbitrary: data sent)
  case Nil
  then show ?case by (cases "data = []") auto
next
  case (Cons ev evs)
  note run = transfer_out.simps [of "ev # evs" data]
  show ?case
  proof (cases "data = [] \<or> (\<forall>k. ev \<noteq> SendBytes k \<or> k = 0)")
    case True
    with Cons show ?thesis by (cases "data = []"; cases ev) auto
  next
    case False
    then obtain k where ev: "ev = SendBytes k" "0 < k" "data \<noteq> []" by auto
    let ?n = "min k (length data)"
    obtain r1 sent1 where step: "transfer_out evs (drop ?n data) = (r1, sent1)" by (meson surj_pair)
    have "?n \<noteq> 0" using ev by (simp add: min_def)
    with Cons.prems ev step have eqs: "r1 = r" "sent = take ?n data @ sent1" unfolding run by (simp_all add: Let_def)
    moreover from Cons.IH [OF step [unfolded eqs(1)]] obtain rest where "drop ?n data = sent1 @ rest" "r = Inr () \<longrightarrow> rest = []" by blast
    ultimately show ?thesis by (intro exI [of _ rest]) (metis append.assoc append_take_drop_id)
  qed
qed

text \<open>The bytes that arrive before the connection ends or fails.\<close>

fun arrives :: "recv_event list \<Rightarrow> string" where
  "arrives [] = []"
| "arrives (RecvData bs # evs) = (if bs = [] then [] else bs @ arrives evs)"
| "arrives (RecvIntr # evs) = arrives evs"
| "arrives (RecvAgain # evs) = arrives evs"
| "arrives (RecvEof # evs) = []"
| "arrives (RecvError # evs) = []"

lemma transfer_in_arrives:
  "n \<le> length (arrives evs) \<Longrightarrow>
     \<exists>evs'. transfer_in n evs = (Inr (take n (arrives evs)), evs') \<and> arrives evs' = drop n (arrives evs)"
proof (induction evs arbitrary: n rule: arrives.induct)
  case (2 bs evs)
  show ?case
  proof (cases "n = 0 \<or> n < length bs \<or> bs = []")
    case True
    with 2(2) show ?thesis by (auto simp: transfer_in.simps [of n] split: if_splits)
  next
    case False
    then have "n - length bs \<le> length (arrives evs)" using 2(2) by simp
    with 2(1) False obtain evs' where "transfer_in (n - length bs) evs = (Inr (take (n - length bs) (arrives evs)), evs')"
      "arrives evs' = drop (n - length bs) (arrives evs)" by blast
    with False show ?thesis by (auto simp: transfer_in.simps [of n])
  qed
next
  case (3 evs)
  then show ?case by (cases "n = 0") auto
next
  case (4 evs)
  then show ?case by (cases "n = 0") auto
qed auto

lemma read_response_arrives:
  assumes "arrives evs = frame text @ rest" and "length text \<le> kMaxBodyLenght"
    and "ProtocolCodec_decode jc text = Inr m" and "pm_type m = RESPONSE" "pm_request_id m = i" "response_valid (pm_data m)"
  shows "read_response jc i evs = Inr m"
proof -
  have len: "4 \<le> length (arrives evs)" "take 4 (arrives evs) = htonl (of_nat (length text))"
    "drop 4 (arrives evs) = text @ rest" using assms(1) by (simp_all add: frame_def)
  from transfer_in_arrives [OF len(1)] len obtain evs1 where head: "transfer_in 4 evs = (Inr (htonl (of_nat (length text))), evs1)"
    "arrives evs1 = text @ rest" by auto
  from transfer_in_arrives [of "length text" evs1] head(2) obtain evs2 where "transfer_in (length text) evs1 = (Inr text, evs2)" by auto
  with assms(2-) head(1) show ?thesis by (simp add: read_response_def unat_frame_length Let_def not_less)
qed

section \<open>A request and its answer\<close>

text \<open>
  C23. A request reaches the server and its answer the client: when the client's packet is sent, in
  whatever pieces, the bytes on the wire are one frame whose text the server decodes as the message the
  client meant, with its type, id and data; and when the server's response to that id arrives, in
  whatever pieces and with whatever after it, the client returns exactly that response.
\<close>

theorem request_exchange:
  assumes "isClientRequest ty" and "is_object data" and "cl_next_request_id cl = i" and "i \<noteq> 0"
    and "codec_text jc (envelope (new_message ty i data))"
    and "ProtocolCodec_encode jc (new_message ty i data) = Inr asked" and "length asked \<le> kMaxBodyLenght"
    and "ex_connect ex = None" and "fst (transfer_out (ex_sends ex) (frame asked)) = Inr ()"
    and "is_object answer" and "response_valid (wire_form answer)" and "codec_text jc (envelope (new_message RESPONSE i answer))"
    and "ProtocolCodec_encode jc (new_message RESPONSE i answer) = Inr reply" and "length reply \<le> kMaxBodyLenght"
    and "arrives (ex_recvs ex) = frame reply @ rest"
  shows "GcrpClient_request jc ty data ex cl
       = (Inr (new_message RESPONSE i (wire_form answer)), frame asked, cl\<lparr>cl_next_request_id := i + 1\<rparr>)
     \<and> parse_frame (frame asked) = (Ok, asked, []) \<and> ProtocolCodec_decode jc asked = Inr (new_message ty i (wire_form data))"
proof -
  have "ty \<noteq> UNKNOWN_MESSAGE" using assms(1) by (auto simp: isClientRequest_def)
  then have out: "ProtocolCodec_decode jc asked = Inr (new_message ty i (wire_form data))"
    using encode_arrives [OF assms(5)] assms(2,6) by (auto simp: new_message_def on_wire_def)
  have replied: "ProtocolCodec_decode jc reply = Inr (new_message RESPONSE i (wire_form answer))"
    using encode_arrives [OF assms(12)] assms(10,13) by (auto simp: new_message_def on_wire_def)
  have response: "read_response jc i (ex_recvs ex) = Inr (new_message RESPONSE i (wire_form answer))"
    by (rule read_response_arrives [OF assms(15,14) replied]) (simp_all add: new_message_def assms(11))
  obtain r sent where run: "transfer_out (ex_sends ex) (frame asked) = (r, sent)" by (meson surj_pair)
  with assms(9) transfer_out_prefix [OF run] have sent: "r = Inr ()" "sent = frame asked" by auto
  have "GcrpClient_request jc ty data ex cl
       = (Inr (new_message RESPONSE i (wire_form answer)), frame asked, cl\<lparr>cl_next_request_id := i + 1\<rparr>)"
    using assms(1-8) run sent response by (simp add: GcrpClient_request_def Let_def MessageCodec_encode_frame)
  with out parse_frame_frame [OF assms(7), of "[]"] show ?thesis by simp
qed

section \<open>Commands\<close>

lemma set_if_object [simp]: "is_object j \<Longrightarrow> is_object (set_if b k v j)"
  by (cases j) (auto simp: set_if_def)

lemma jset_object: "is_object j \<Longrightarrow> is_object (jset j k v)"
  by (cases j) auto

lemma jobject_object [simp]: "is_object (jobject kvs)"
  by (simp add: jobject_def)

lemma ubind_Inr: "ubind m f = Inr v \<longleftrightarrow> (\<exists>u. m = Inr u \<and> f u = Inr v)"
  by (cases m) auto

lemmas command_defs = worker_control_def list_command_def submit_command_def regression_command_def progress_command_def
  log_command_def id_command_def client_submit_def client_query_def client_cancel_def client_queryBatch_def client_cancelBatch_def

text \<open>Every command builds a request of a client type whose data is an object.\<close>

lemma build_request_ok:
  assumes "build_request jc random_id c = Inr (ty, data)"
  shows "isClientRequest ty \<and> is_object data"
proof -
  from assms consider "worker_control random_id c = Inr (ty, data)" | "list_command jc c = Inr (ty, data)" | "submit_command c = Inr (ty, data)"
    | "regression_command c = Inr (ty, data)" | "progress_command c = Inr (ty, data)" | "log_command c = Inr (ty, data)" | "id_command c = Inr (ty, data)"
    by (auto simp: build_request_def Let_def split: if_splits)
  then show ?thesis
    by cases (auto simp: command_defs Let_def isClientRequest_def ubind_Inr jset_object split: if_splits option.splits)
qed


text \<open>The payload the server gets for a submission from the command line.\<close>

definition cli_payload :: "cli \<Rightarrow> json" where
  "cli_payload c =
     (if seen c ''--case''
      then jobject [(''spec_version'', JUnsigned 1), (''case'', JString (ci_case_path c)), (''flow'', JString (ci_flow c)),
             (''timeout_seconds'', JUnsigned (of_int (ci_case_timeout c)))]
      else JObject [])"

lemma wire_jint: "- (2 ^ 63) \<le> n \<Longrightarrow> n < 2 ^ 63 \<Longrightarrow> wire_form (jint n) = (if 0 \<le> n then JUnsigned (of_int n) else JInteger (of_int n))"
  by (simp add: jint_def signed_of_int signed_take_bit_int_eq_self)

lemma priority_reads:
  assumes "- 100 \<le> n" "n \<le> 100"
  shows "is_number_integer (wire_form (jint n))" "get_i64 (wire_form (jint n)) = n" "get_i32 (wire_form (jint n)) = n"
proof -
  have "get_u64 (wire_form (jint n)) = of_int n" using assms by (simp add: wire_jint)
  moreover have "sint (of_int n :: u64) = n" "get_i32 (jint n) = n"
    using assms get_i32_jint [of n] by (simp_all add: signed_of_int signed_take_bit_int_eq_self)
  ultimately show "get_i64 (wire_form (jint n)) = n" "get_i32 (wire_form (jint n)) = n"
    by (simp_all add: get_i64_def get_i32_def jint_def)
  show "is_number_integer (wire_form (jint n))" using assms by (simp add: wire_jint)
qed

text \<open>
  C24. A submission from the command line passes the server: whenever the client accepts the options of
  \<^verbatim>\<open>submit\<close>, then the server's decoder, reading the data as it arrives, accepts it, provided the case path
  and the flow satisfy the server's rules and the payload's text its limit; and the request it reads has exactly the
  target, revision, priority, case, flow and timeout given.
\<close>

theorem cli_submission_accepted:
  assumes "submit_command c = Inr (ty, data)" and "settings_bad c = None"
    and "seen c ''--case'' \<longrightarrow> valid_path (ci_case_path c) \<and> valid_flow (ci_flow c)"
    and "jdump jc (cli_payload c) = Some body" and "length body \<le> 4096"
  shows "ty = SUBMIT_TASK
     \<and> SubmitTaskRequest_fromJson jc (wire_form data)
       = Inr (Some \<lparr>su_task_type = REGRESSION, su_target = ci_target c, su_revision = ci_revision c, su_priority = ci_priority c,
                    su_payload = cli_payload c, su_submission_key = []\<rparr>)"
proof -
  let ?p = "wire_form (jint (ci_priority c))"
  have prio: "- 100 \<le> ci_priority c" "ci_priority c \<le> 100" using assms(2) by (auto simp: settings_bad_def split: if_splits)
  note P = priority_reads [OF prio]
  have names: "ci_target c \<noteq> []" "ci_revision c \<noteq> []" using assms(1) by (auto simp: submit_command_def split: if_splits)
  define rest where "rest = (if seen c ''--case'' then [(''payload'', cli_payload c)] else [])"
  have range: "seen c ''--case'' \<Longrightarrow> 1 \<le> ci_case_timeout c \<and> ci_case_timeout c \<le> 86400"
    using assms(1) by (auto simp: submit_command_def split: if_splits)
  have data: "ty = SUBMIT_TASK" "wire_form data = JObject (rest @ [(''priority'', ?p), (''revision'', JString (ci_revision c)),
      (''target'', JString (ci_target c)), (''task_type'', JString ''REGRESSION'')])"
  proof -
    have "wire_form (jint (ci_case_timeout c)) = JUnsigned (of_int (ci_case_timeout c))" if "seen c ''--case''"
      using range [OF that] by (simp add: wire_jint)
    moreover have "wire_form (jint 1) = JUnsigned 1" by (simp add: wire_jint)
    ultimately show "ty = SUBMIT_TASK" "wire_form data = JObject (rest @ [(''priority'', ?p), (''revision'', JString (ci_revision c)),
      (''target'', JString (ci_target c)), (''task_type'', JString ''REGRESSION'')])"
      using assms(1) by (auto simp: submit_command_def client_submit_def jobject_def rest_def cli_payload_def split: if_splits)
  qed
  have payload: "payload_of (wire_form data) = cli_payload c" by (auto simp: data payload_of_def contains_def jget_def rest_def cli_payload_def)
  have valid: "validRegressionPayload jc (cli_payload c) = Inr True"
  proof (cases "seen c ''--case''")
    case True
    have "uint (of_int (ci_case_timeout c) :: u64) = ci_case_timeout c" using range [OF True] by (simp add: uint_word_of_int)
    then have "1 \<le> (of_int (ci_case_timeout c) :: u64)" "(of_int (ci_case_timeout c) :: u64) \<le> 86400"
      using range [OF True] by (simp_all add: word_le_def)
    with True assms(3-5) show ?thesis
      by (simp add: validRegressionPayload_def cli_payload_def jobject_def contains_def jget_def jempty_def valid_spec_def jint_def)
  qed (use assms(4,5) in \<open>simp add: validRegressionPayload_def cli_payload_def jempty_def\<close>)
  show ?thesis
    using names P prio valid payload
    by (auto simp: data(1) SubmitTaskRequest_fromJson_def data(2) has_string_def contains_def jget_def rest_def priority_bad_def priority_of_def
        jint_less_def jint_greater_def Let_def taskTypeFromString_def)
qed


section \<open>Exit codes\<close>

lemma request_sends:
  assumes "GcrpClient_request jc ty data ex cl = (r, sent, cl')" and "sent \<noteq> []"
  shows "\<exists>body rest. ProtocolCodec_encode jc (new_message ty (cl_next_request_id cl) data) = Inr body \<and> frame body = sent @ rest"
  using assms transfer_out_prefix [of "ex_sends ex"]
  by (fastforce simp: GcrpClient_request_def Let_def MessageCodec_encode_frame split: if_splits sum.splits option.splits prod.splits)

lemma request_answer:
  assumes "GcrpClient_request jc ty data ex cl = (Inr response, sent, cl')"
  shows "response_valid (pm_data response)"
  using assms by (auto simp: GcrpClient_request_def read_response_def Let_def split: if_splits sum.splits option.splits prod.splits)

lemma parse_args_help: "parse_args args c = Inr None \<Longrightarrow> ''--help'' \<in> set args"
  by (induction args c rule: parse_args.induct) (auto simp: ubind_Inr split: if_splits list.splits)

text \<open>
  The client's exit code tells what happened: 64 only when nothing was sent; an answer is printed
  only if it is a well-formed response, with code 0 exactly when the server said OK and 2 otherwise; without an
  answer the code is 1 or 64, or 0 when help was asked for; and whatever was sent is the beginning of one
  frame with one client request of id 1.
\<close>

theorem client_exit_codes:
  "case client_main jc fs override cwd random_id ex args of
     (code, sent, answer) \<Rightarrow>
       (code = 64 \<longrightarrow> sent = [] \<and> answer = None)
       \<and> (case answer of
            Some v \<Rightarrow> response_valid v \<and> code = (if get_i64 (jget v ''code'') = 0 then 0 else 2)
          | None \<Rightarrow> code \<in> {0, 1, 64} \<and> (code = 0 \<longrightarrow> ''--help'' \<in> set args \<and> sent = []))
       \<and> (sent \<noteq> [] \<longrightarrow> (\<exists>ty data body rest. isClientRequest ty \<and> is_object data
             \<and> ProtocolCodec_encode jc (new_message ty 1 data) = Inr body \<and> frame body = sent @ rest))"
proof -
  obtain ok m where conf: "loadDefault fs override cwd [] = (ok, m)" by (meson surj_pair)
  show ?thesis
  proof (cases "\<exists>c cl ty data. ok \<and> parse_args args (new_cli m) = Inr (Some c) \<and> settings_bad c = None
      \<and> new_client (ci_host c) (of_int (ci_port c)) (ci_timeout c) = Inr cl \<and> build_request jc random_id c = Inr (ty, data)")
    case True
    then obtain c cl ty data where start: ok "parse_args args (new_cli m) = Inr (Some c)" "settings_bad c = None"
      "new_client (ci_host c) (of_int (ci_port c)) (ci_timeout c) = Inr cl" "build_request jc random_id c = Inr (ty, data)" by blast
    obtain r sent cl' where run: "GcrpClient_request jc ty data ex cl = (r, sent, cl')" by (metis prod_cases3)
    have id: "cl_next_request_id cl = 1" using start(4) by (auto simp: new_client_def split: if_splits)
    have sends: "sent \<noteq> [] \<Longrightarrow> \<exists>body rest. ProtocolCodec_encode jc (new_message ty 1 data) = Inr body \<and> frame body = sent @ rest"
      using request_sends [OF run] by (simp add: id)
    have zero: "json_eq (jget v ''code'') (jint 0) \<longleftrightarrow> get_i64 (jget v ''code'') = 0" if "response_valid v" for v
      using that by (cases "jget v ''code''") (auto simp: response_valid_def jint_def get_i64_def signed_eq_0_iff)
    show ?thesis
      using start build_request_ok [OF start(5)] sends zero request_answer [of jc ty data ex cl] run
      by (cases r) (auto simp: client_main_def conf)
  next
    case False
    then show ?thesis
      using parse_args_help [of args "new_cli m"]
      by (auto simp: client_main_def conf split: bool.splits sum.splits option.splits)
  qed
qed


section \<open>Concrete requests\<close>

definition demo_question :: json where
  "demo_question = jobject [(''task_id'', JUnsigned 7)]"

definition demo_answer :: json where
  "demo_answer = jobject [(''code'', jint 0), (''message'', JString ''ok''), (''result'', JNull)]"

definition demo_wire_codec :: json_codec where
  "demo_wire_codec =
     \<lparr>jdump = (\<lambda>j. if j = envelope (new_message QUERY_TASK 1 demo_question) then Some ''question''
                 else if j = envelope (new_message RESPONSE 1 demo_answer) then Some ''answer'' else Some ''{}''),
      jparse = (\<lambda>s. if s = ''question'' then Some (wire_form (envelope (new_message QUERY_TASK 1 demo_question)))
                  else if s = ''answer'' then Some (wire_form (envelope (new_message RESPONSE 1 demo_answer))) else None)\<rparr>"

definition demo_exchange :: exchange where
  "demo_exchange =
     \<lparr>ex_connect = None, ex_sends = [SendBytes 2, SendIntr, SendAgain, SendBytes 100],
      ex_recvs = [RecvData (take 3 (frame ''answer'')), RecvAgain, RecvData (drop 3 (frame ''answer'') @ ''x''), RecvEof]\<rparr>"

definition demo_client :: GcrpClient where
  "demo_client = \<lparr>cl_host = ''127.0.0.1'', cl_port = 9000, cl_timeout_ms = 5000, cl_next_request_id = 1\<rparr>"

theorem request_exchange_witness:
  "GcrpClient_request demo_wire_codec QUERY_TASK demo_question demo_exchange demo_client
     = (Inr (new_message RESPONSE 1 (wire_form demo_answer)), frame ''question'', demo_client\<lparr>cl_next_request_id := 1 + 1\<rparr>)
   \<and> ProtocolCodec_decode demo_wire_codec ''question'' = Inr (new_message QUERY_TASK 1 (wire_form demo_question))"
proof -
  have differ: "envelope (new_message RESPONSE 1 demo_answer) \<noteq> envelope (new_message QUERY_TASK 1 demo_question)"
    by (simp add: envelope_def jobject_def new_message_def)
  then have "ProtocolCodec_encode demo_wire_codec (new_message QUERY_TASK 1 demo_question) = Inr ''question''"
    "ProtocolCodec_encode demo_wire_codec (new_message RESPONSE 1 demo_answer) = Inr ''answer''"
    "codec_text demo_wire_codec (envelope (new_message QUERY_TASK 1 demo_question))"
    "codec_text demo_wire_codec (envelope (new_message RESPONSE 1 demo_answer))"
    by (simp_all add: ProtocolCodec_encode_def codec_text_def demo_wire_codec_def)
  moreover have "isClientRequest QUERY_TASK" "is_object demo_question" "cl_next_request_id demo_client = 1" "(1 :: u64) \<noteq> 0"
    "ex_connect demo_exchange = None" "is_object demo_answer" "response_valid (wire_form demo_answer)"
    by (simp_all add: isClientRequest_def demo_question_def demo_client_def demo_exchange_def demo_answer_def response_valid_def
        jobject_def jint_def contains_def jget_def jint_less_def jint_greater_def get_i64_def)
  moreover have "length ''question'' \<le> kMaxBodyLenght" "length ''answer'' \<le> kMaxBodyLenght" by (simp_all add: kMaxBodyLenght_def)
  moreover have "fst (transfer_out (ex_sends demo_exchange) (frame ''question'')) = Inr ()"
    "arrives (ex_recvs demo_exchange) = frame ''answer'' @ ''x''"
    by (simp_all add: demo_exchange_def frame_def htonl_def transfer_out.simps)
  ultimately show ?thesis using request_exchange by blast
qed

definition demo_cli :: cli where
  "demo_cli = (new_cli [(''network.server_ip'', ''127.0.0.1''), (''server.port'', ''9000''), (''network.timeout_ms'', ''5000'')])
     \<lparr>ci_command := ''submit'', ci_target := ''board'', ci_revision := ''r12'', ci_priority := - 5, ci_case_path := ''a/b/run.tcl'', ci_flow := ''full'',
      ci_case_timeout := 60,
      ci_seen := [''--case-timeout'', ''--flow'', ''--case'', ''--priority'', ''--revision'', ''--target'']\<rparr>"

theorem cli_submission_accepted_witness:
  "\<exists>data. submit_command demo_cli = Inr (SUBMIT_TASK, data)
     \<and> (\<exists>r. SubmitTaskRequest_fromJson demo_wire_codec (wire_form data) = Inr (Some r) \<and> su_priority r = - 5
            \<and> su_payload r = cli_payload demo_cli)"
proof -
  have pre: "settings_bad demo_cli = None" "valid_path (ci_case_path demo_cli)" "valid_flow (ci_flow demo_cli)"
    "jdump demo_wire_codec (cli_payload demo_cli) = Some ''{}''" "length ''{}'' \<le> 4096" "ci_priority demo_cli = - 5" by code_simp+
  have "\<not> isl (submit_command demo_cli)" by code_simp
  then obtain ty data where cmd: "submit_command demo_cli = Inr (ty, data)" by (metis isl_def sum.exhaust_sel prod.collapse)
  from cli_submission_accepted [OF cmd pre(1) _ pre(4,5)] pre(2,3) have "ty = SUBMIT_TASK"
    "SubmitTaskRequest_fromJson demo_wire_codec (wire_form data) = Inr (Some \<lparr>su_task_type = REGRESSION, su_target = ci_target demo_cli,
      su_revision = ci_revision demo_cli, su_priority = ci_priority demo_cli, su_payload = cli_payload demo_cli, su_submission_key = []\<rparr>)"
    by auto
  with cmd pre(6) show ?thesis by auto
qed

theorem client_exit_codes_witness:
  "client_main demo_wire_codec \<lparr>cf_regular = (\<lambda>_. False), cf_open = (\<lambda>_. None)\<rparr> None None [] demo_exchange [''submit''] = (64, [], None)"
proof -
  obtain code sent answer where run: "client_main demo_wire_codec \<lparr>cf_regular = (\<lambda>_. False), cf_open = (\<lambda>_. None)\<rparr> None None [] demo_exchange [''submit'']
      = (code, sent, answer)" by (metis prod_cases3)
  moreover have "fst (client_main demo_wire_codec \<lparr>cf_regular = (\<lambda>_. False), cf_open = (\<lambda>_. None)\<rparr> None None [] demo_exchange [''submit'']) = 64"
    by (simp add: client_main_def loadDefault_def)
  ultimately show ?thesis
    using client_exit_codes [where jc = demo_wire_codec and fs = "\<lparr>cf_regular = (\<lambda>_. False), cf_open = (\<lambda>_. None)\<rparr>" and override = None
        and cwd = None and random_id = "[]" and ex = demo_exchange and args = "[''submit'']"]
    by simp
qed

end
