(* ===== verification/Gui.thy ===== *)
theory Gui
  imports ClientFacts
begin

text \<open>
  The part of the Qt client that is not widgets: \<^verbatim>\<open>gui/qt/src/RpcClient.cpp\<close>, one request as a state
  machine over the signals of its socket and timer, and from \<^verbatim>\<open>gui/qt/include/ConsoleSupport.h\<close> the texts and
  cells of tables and exports. Messages to the user are constructors; the text of a caught
  exception in them is left out. Texts are the bytes of their UTF-8 form.
\<close>

section \<open>Requests\<close>

datatype rpc_error =
    No_error
  | Not_encodable
  | Request_too_large
  | Send_failed
  | Timed_out
  | Socket_error string
  | Bad_frame_length
  | Rejected string
  | Bad_response
  | Connection_closed

record RpcReply =
  ry_ok :: bool
  ry_error :: rpc_error
  ry_result :: json
  ry_instance :: string

definition failure :: "rpc_error \<Rightarrow> RpcReply" where
  "failure err = \<lparr>ry_ok = False, ry_error = err, ry_result = JNull, ry_instance = []\<rparr>"

record RpcClient =
  rp_host :: string
  rp_port :: "16 word"
  rp_timeout :: int
  rp_sequence :: u64

definition configure :: "string \<Rightarrow> 16 word \<Rightarrow> int \<Rightarrow> RpcClient \<Rightarrow> RpcClient" where
  "configure host port timeout cl = cl\<lparr>rp_host := host, rp_port := port, rp_timeout := timeout\<rparr>"

text \<open>One request: its id, the frame to send, the shared state of its handlers, what was written, and the replies called back.\<close>

record rpc_call =
  rc_id :: u64
  rc_frame :: string
  rc_buffer :: string
  rc_done :: bool
  rc_written :: string
  rc_replies :: "RpcReply list"

definition rpc_finish :: "RpcReply \<Rightarrow> rpc_call \<Rightarrow> rpc_call" where
  "rpc_finish reply call = (if rc_done call then call else call\<lparr>rc_done := True, rc_replies := rc_replies call @ [reply]\<rparr>)"

definition rpc_envelope :: "string \<Rightarrow> u64 \<Rightarrow> json \<Rightarrow> json" where
  "rpc_envelope ty i data =
     jobject [(''version'', jint 1), (''type'', JString ty), (''request_id'', JUnsigned i), (''data'', data)]"

definition RpcClient_request :: "json_codec \<Rightarrow> string \<Rightarrow> json \<Rightarrow> RpcClient \<Rightarrow> rpc_call \<times> RpcClient" where
  "RpcClient_request jc ty data cl =
     (let i = rp_sequence cl + 1; cl1 = cl\<lparr>rp_sequence := i\<rparr>;
          call = \<lparr>rc_id = i, rc_frame = [], rc_buffer = [], rc_done = False, rc_written = [], rc_replies = []\<rparr> in
      case jdump jc (rpc_envelope ty i data) of
        None \<Rightarrow> (rpc_finish (failure Not_encodable) call, cl1)
      | Some body \<Rightarrow>
          if 1048576 < length body then (rpc_finish (failure Request_too_large) call, cl1)
          else (call\<lparr>rc_frame := htonl (of_nat (length body)) @ body\<rparr>, cl1))"

section \<open>Answers\<close>

text \<open>\<^verbatim>\<open>value(key, default)\<close> of an object, read as a string.\<close>

definition value_string :: "json \<Rightarrow> string \<Rightarrow> string \<Rightarrow> exn + string" where
  "value_string j k d = (case map_of (members j) k of None \<Rightarrow> Inr d | Some v \<Rightarrow> get_string v)"

definition check_envelope :: "u64 \<Rightarrow> json \<Rightarrow> exn + json" where
  "check_envelope i message =
     rbind (jat message ''version'') (\<lambda>version.
     rbind (jat message ''type'') (\<lambda>ty.
     rbind (jat message ''request_id'') (\<lambda>request_id.
     rbind (jat message ''data'') (\<lambda>data.
       if \<not> json_eq version (jint 1) \<or> \<not> json_eq ty (JString ''response'') \<or> \<not> json_eq request_id (JUnsigned i) \<or> \<not> is_object data
       then Inl (Runtime_error ''invalid response envelope'') else Inr data))))"

definition rpc_answer :: "u64 \<Rightarrow> json \<Rightarrow> exn + RpcReply" where
  "rpc_answer i message =
     rbind (check_envelope i message) (\<lambda>answer.
     rbind (jat answer ''code'') (\<lambda>code.
       if \<not> is_number_integer code then Inl (Runtime_error ''invalid response code'')
       else
         rbind (value_string answer ''server_instance_id'' []) (\<lambda>server_instance.
           if \<not> json_eq code (jint 0)
           then rbind (value_string answer ''message'' ''Server rejected request'') (\<lambda>reason.
                  Inr \<lparr>ry_ok = False, ry_error = Rejected reason, ry_result = JNull, ry_instance = server_instance\<rparr>)
           else rbind (jat answer ''result'') (\<lambda>result.
                  Inr \<lparr>ry_ok = True, ry_error = No_error, ry_result = result, ry_instance = server_instance\<rparr>))))"

definition parse_answer :: "json_codec \<Rightarrow> u64 \<Rightarrow> string \<Rightarrow> RpcReply" where
  "parse_answer jc i body =
     (case jparse jc body of
        None \<Rightarrow> failure Bad_response
      | Some message \<Rightarrow> (case rpc_answer i message of Inl _ \<Rightarrow> failure Bad_response | Inr reply \<Rightarrow> reply))"

definition on_readyRead :: "json_codec \<Rightarrow> string \<Rightarrow> rpc_call \<Rightarrow> rpc_call" where
  "on_readyRead jc bytes call =
     (if rc_done call then call
      else
        (let buffer = rc_buffer call @ bytes; call1 = call\<lparr>rc_buffer := buffer\<rparr> in
         if length buffer < 4 then call1
         else
           (let size = unat (ntohl (take 4 buffer)) in
            if size = 0 \<or> 1048576 < size \<or> size + 4 < length buffer then rpc_finish (failure Bad_frame_length) call1
            else if length buffer < size + 4 then call1
            else rpc_finish (parse_answer jc (rc_id call) (take size (drop 4 buffer))) call1)))"

text \<open>
  The signals: connected, with whether \<^verbatim>\<open>write\<close> took the whole frame; bytes to read; the timer; an error of
  the socket; its closing. After \<^verbatim>\<open>finish\<close> the timer is stopped and the socket aborted, so none follows.
\<close>

datatype rpc_event = On_connected bool | On_readyRead string | On_timeout | On_error string | On_disconnected

definition rpc_step :: "json_codec \<Rightarrow> rpc_event \<Rightarrow> rpc_call \<Rightarrow> rpc_call" where
  "rpc_step jc ev call =
     (if rc_done call then call
      else
        (case ev of
           On_connected whole \<Rightarrow>
             (if whole then call\<lparr>rc_written := rc_written call @ rc_frame call\<rparr> else rpc_finish (failure Send_failed) call)
         | On_readyRead bytes \<Rightarrow> on_readyRead jc bytes call
         | On_timeout \<Rightarrow> rpc_finish (failure Timed_out) call
         | On_error err \<Rightarrow> rpc_finish (failure (Socket_error err)) call
         | On_disconnected \<Rightarrow> rpc_finish (failure Connection_closed) call))"

definition rpc_run :: "json_codec \<Rightarrow> rpc_event list \<Rightarrow> rpc_call \<Rightarrow> rpc_call" where
  "rpc_run jc evs = fold (rpc_step jc) evs"

section \<open>One reply\<close>

definition final_event :: "rpc_event \<Rightarrow> bool" where
  "final_event ev \<longleftrightarrow> ev = On_timeout \<or> ev = On_disconnected \<or> (\<exists>err. ev = On_error err)"

definition call_ok :: "rpc_call \<Rightarrow> bool" where
  "call_ok call \<longleftrightarrow> length (rc_replies call) = (if rc_done call then 1 else 0)"

lemma call_ok_step: "call_ok call \<Longrightarrow> call_ok (rpc_step jc ev call) \<and> (final_event ev \<longrightarrow> rc_done (rpc_step jc ev call))
    \<and> (rc_done call \<longrightarrow> rpc_step jc ev call = call)"
  by (auto simp: call_ok_def rpc_step_def on_readyRead_def rpc_finish_def final_event_def Let_def split: rpc_event.split)

lemma run_done: "rc_done call \<Longrightarrow> rpc_run jc evs call = call"
  unfolding rpc_run_def by (induction evs) (simp_all add: rpc_step_def)

lemma call_ok_run:
  "call_ok call \<Longrightarrow> call_ok (rpc_run jc evs call) \<and> ((\<exists>ev \<in> set evs. final_event ev) \<longrightarrow> rc_done (rpc_run jc evs call))"
proof (induction evs arbitrary: call)
  case (Cons ev evs)
  note S = call_ok_step [OF Cons.prems, of jc ev]
  have "rpc_run jc (ev # evs) call = rpc_run jc evs (rpc_step jc ev call)" by (simp add: rpc_run_def)
  then show ?case using Cons.IH [of "rpc_step jc ev call"] S run_done by auto
qed (simp add: rpc_run_def)

text \<open>
  A request of the GUI is answered once: whatever signals come, in any order, the callback is made at most
  once, exactly once when the timer, an error or the end of the connection is among them, and nothing changes after it.
\<close>

theorem rpc_answered_once:
  assumes "RpcClient_request jc ty data cl = (call, cl1)"
  shows "length (rc_replies (rpc_run jc evs call)) \<le> 1
     \<and> ((\<exists>ev \<in> set evs. final_event ev) \<longrightarrow> length (rc_replies (rpc_run jc evs call)) = 1)
     \<and> (rc_replies (rpc_run jc evs call) \<noteq> [] \<longrightarrow> rpc_run jc (evs @ more_evs) call = rpc_run jc evs call)"
proof -
  have "call_ok call"
    using assms by (auto simp: RpcClient_request_def call_ok_def rpc_finish_def Let_def split: option.splits if_splits)
  note R = call_ok_run [OF this, of jc evs]
  have "rpc_run jc (evs @ more_evs) call = rpc_run jc more_evs (rpc_run jc evs call)" by (simp add: rpc_run_def)
  with R run_done [of "rpc_run jc evs call" jc more_evs] show ?thesis by (auto simp: call_ok_def split: if_splits)
qed

section \<open>Pieces\<close>

lemma read_pieces:
  assumes "rc_buffer call @ concat chunks = frame body" and "\<not> rc_done call" and "rc_buffer call \<noteq> frame body"
    and "body \<noteq> []" and "length body \<le> kMaxBodyLenght"
  shows "rpc_run jc (map On_readyRead chunks) call
     = call\<lparr>rc_buffer := frame body, rc_done := True, rc_replies := rc_replies call @ [parse_answer jc (rc_id call) body]\<rparr>"
  using assms
proof (induction chunks arbitrary: call)
  case (Cons chunk chunks)
  let ?b = "rc_buffer call @ chunk" and ?call = "call\<lparr>rc_buffer := rc_buffer call @ chunk\<rparr>"
  have split: "?b @ concat chunks = frame body" using Cons.prems(1) by simp
  have len: "length (frame body) = length body + 4" by (simp add: frame_def)
  have size: "unat (ntohl (take 4 ?b)) = length body" if "4 \<le> length ?b"
  proof -
    have "take 4 ?b = take 4 (frame body)" using that split by (metis append_Nil2 diff_is_0_eq take_0 take_append)
    also have "\<dots> = htonl (of_nat (length body))" by (simp add: frame_def)
    finally show ?thesis using unat_frame_length [OF Cons.prems(5)] by simp
  qed
  have run: "rpc_run jc (map On_readyRead (chunk # chunks)) call = rpc_run jc (map On_readyRead chunks) (on_readyRead jc chunk call)"
    using Cons.prems(2) by (simp add: rpc_run_def rpc_step_def)
  have bound: "length body \<le> 1048576" using Cons.prems(5) by (simp add: kMaxBodyLenght_def)
  show ?case
  proof (cases "?b = frame body")
    case True
    have "on_readyRead jc chunk call
        = ?call\<lparr>rc_done := True, rc_replies := rc_replies call @ [parse_answer jc (rc_id call) body]\<rparr>"
      using Cons.prems(2,4) bound size len unfolding on_readyRead_def Let_def True by (simp add: rpc_finish_def frame_def)
    then show ?thesis unfolding run by (simp add: run_done True)
  next
    case False
    then have "length ?b < length body + 4" using split len by (metis append_self_conv append_eq_append_conv length_append le_add1 le_neq_implies_less)
    then have "on_readyRead jc chunk call = ?call"
      using Cons.prems(2,4) bound size by (cases "length ?b < 4") (auto simp: on_readyRead_def Let_def)
    then show ?thesis unfolding run using Cons.IH [of ?call] Cons.prems False by simp
  qed
qed simp

section \<open>A request and its answer\<close>

lemma members_wire_form: "map_of (members (wire_form j)) k = map_option wire_form (map_of (members j) k)"
  by (cases j) (simp_all add: map_of_map)

lemma rpc_envelope_wire: "wire_form (rpc_envelope (message_toString ty) i data) = envelope (on_wire (new_message ty i data))"
  by (simp add: rpc_envelope_def envelope_def jobject_def on_wire_def new_message_def PROTOCOL_VERSION_def jint_def)

lemma jat_members: "is_object j \<Longrightarrow> map_of (members j) k = Some v \<Longrightarrow> jat j k = Inr v"
  by (cases j) (simp_all add: jat_def)

lemma check_envelope_response: "is_object data \<Longrightarrow> check_envelope i (envelope (new_message RESPONSE i data)) = Inr data"
  by (simp add: check_envelope_def envelope_def new_message_def PROTOCOL_VERSION_def jint_def jat_members map_of_members_jobject)

lemma parse_answer_response:
  assumes "is_object answer" and "codec_text jc (envelope (new_message RESPONSE i answer))"
    and "ProtocolCodec_encode jc (new_message RESPONSE i answer) = Inr reply"
    and "map_of (members answer) ''code'' = Some (jint c)" "0 \<le> c" "c < 2 ^ 31"
    and "map_of (members answer) ''message'' = Some (JString reason)" and "map_of (members answer) ''result'' = Some result"
    and "map_of (members answer) ''server_instance_id'' = Some (JString server_instance)"
  shows "parse_answer jc i reply =
     (if c = 0 then \<lparr>ry_ok = True, ry_error = No_error, ry_result = wire_form result, ry_instance = server_instance\<rparr>
      else \<lparr>ry_ok = False, ry_error = Rejected reason, ry_result = JNull, ry_instance = server_instance\<rparr>)"
proof -
  let ?a = "wire_form answer"
  have body: "jparse jc reply = Some (envelope (new_message RESPONSE i ?a))"
    using assms(2,3) by (auto simp: codec_text_def ProtocolCodec_encode_def wire_form_envelope on_wire_def new_message_def split: option.splits)
  have a: "is_object ?a" using assms(1) by simp
  have zero: "(of_int c :: u64) = 0 \<longleftrightarrow> c = 0" using assms(5,6) by (simp add: word_of_int_eq_0_iff) (use assms(5,6) in \<open>auto dest: zdvd_imp_le\<close>)
  have "wire_form (jint c) = JUnsigned (of_int c)" using wire_jint [of c] assms(5,6) by simp
  then have fields: "jat ?a ''code'' = Inr (JUnsigned (of_int c))" "jat ?a ''result'' = Inr (wire_form result)"
    "value_string ?a ''message'' d = Inr reason" "value_string ?a ''server_instance_id'' d = Inr server_instance" for d
    by (simp_all add: jat_members [OF a] members_wire_form assms value_string_def)
  then show ?thesis
    by (simp add: parse_answer_def body rpc_answer_def check_envelope_response [OF a] zero jint_def)
qed

text \<open>
  C25. The GUI and the server understand each other: the frame the GUI writes is decoded by the server as the
  message meant, and the server's response, in whatever pieces it arrives, is called back once: the result
  and the server's instance when the code is zero, else the reason of the refusal.
\<close>

theorem gui_exchange:
  assumes "RpcClient_request jc (message_toString ty) data cl = (call, cl1)" and "rp_sequence cl + 1 = i"
    and "ty \<noteq> UNKNOWN_MESSAGE" and "is_object data" and "codec_text jc (rpc_envelope (message_toString ty) i data)"
    and "jdump jc (rpc_envelope (message_toString ty) i data) = Some asked" and "length asked \<le> kMaxBodyLenght"
    and "is_object answer" and "codec_text jc (envelope (new_message RESPONSE i answer))"
    and "ProtocolCodec_encode jc (new_message RESPONSE i answer) = Inr reply" and "reply \<noteq> []" and "length reply \<le> kMaxBodyLenght"
    and "map_of (members answer) ''code'' = Some (jint c)" and "0 \<le> c" and "c < 2 ^ 31"
    and "map_of (members answer) ''message'' = Some (JString reason)" and "map_of (members answer) ''result'' = Some result"
    and "map_of (members answer) ''server_instance_id'' = Some (JString server_instance)"
    and "concat chunks = frame reply"
  shows "rc_written (rpc_run jc (On_connected True # map On_readyRead chunks) call) = frame asked
     \<and> parse_frame (frame asked) = (Ok, asked, []) \<and> ProtocolCodec_decode jc asked = Inr (new_message ty i (wire_form data))
     \<and> rc_replies (rpc_run jc (On_connected True # map On_readyRead chunks) call) =
         [if c = 0 then \<lparr>ry_ok = True, ry_error = No_error, ry_result = wire_form result, ry_instance = server_instance\<rparr>
          else \<lparr>ry_ok = False, ry_error = Rejected reason, ry_result = JNull, ry_instance = server_instance\<rparr>]"
proof -
  have "validateEnvelope (envelope (on_wire (new_message ty i data))) = Inr (on_wire (new_message ty i data))"
    using assms(3,4) by (intro validateEnvelope_envelope) (simp_all add: on_wire_def new_message_def)
  then have decoded: "ProtocolCodec_decode jc asked = Inr (new_message ty i (wire_form data))"
    using assms(5,6) by (simp add: codec_text_def rpc_envelope_wire ProtocolCodec_decode_def on_wire_def new_message_def)
  have call: "call = \<lparr>rc_id = i, rc_frame = frame asked, rc_buffer = [], rc_done = False, rc_written = [], rc_replies = []\<rparr>"
    using assms(1,2,6,7) by (auto simp: RpcClient_request_def Let_def frame_def kMaxBodyLenght_def)
  define call2 where "call2 = call\<lparr>rc_written := frame asked\<rparr>"
  have run: "rpc_run jc (On_connected True # map On_readyRead chunks) call = rpc_run jc (map On_readyRead chunks) call2"
    by (simp add: rpc_run_def rpc_step_def call call2_def)
  have "rc_buffer call2 @ concat chunks = frame reply" "\<not> rc_done call2" "rc_buffer call2 \<noteq> frame reply"
    using assms(11,19) by (simp_all add: call2_def call frame_def)
  from read_pieces [OF this assms(11,12)] parse_answer_response [OF assms(8-10,13-18)]
  have "rpc_run jc (map On_readyRead chunks) call2 = call2\<lparr>rc_buffer := frame reply, rc_done := True,
      rc_replies := [if c = 0 then \<lparr>ry_ok = True, ry_error = No_error, ry_result = wire_form result, ry_instance = server_instance\<rparr>
          else \<lparr>ry_ok = False, ry_error = Rejected reason, ry_result = JNull, ry_instance = server_instance\<rparr>]\<rparr>"
    by (simp add: call2_def call)
  with decoded parse_frame_frame [OF assms(7), of "[]"] show ?thesis unfolding run by (simp add: call2_def call)
qed

text \<open>A query answered in three pieces.\<close>

definition demo_catalog :: json where
  "demo_catalog = jobject [(''code'', jint 0), (''message'', JString ''OK''), (''result'', JObject []), (''server_instance_id'', JString ''s1'')]"

definition demo_gui_codec :: json_codec where
  "demo_gui_codec =
     \<lparr>jdump = (\<lambda>j. if j = rpc_envelope ''query_task'' 1 demo_question then Some ''question''
                 else if j = envelope (new_message RESPONSE 1 demo_catalog) then Some ''catalog'' else None),
      jparse = (\<lambda>s. if s = ''question'' then Some (wire_form (rpc_envelope ''query_task'' 1 demo_question))
                  else if s = ''catalog'' then Some (wire_form (envelope (new_message RESPONSE 1 demo_catalog))) else None)\<rparr>"

definition demo_rpc :: RpcClient where
  "demo_rpc = \<lparr>rp_host = ''127.0.0.1'', rp_port = 9000, rp_timeout = 5000, rp_sequence = 0\<rparr>"

theorem gui_exchange_witness:
  "rc_replies (rpc_run demo_gui_codec (On_connected True # map On_readyRead [take 2 (frame ''catalog''), [], drop 2 (frame ''catalog'')])
       (fst (RpcClient_request demo_gui_codec ''query_task'' demo_question demo_rpc)))
     = [\<lparr>ry_ok = True, ry_error = No_error, ry_result = JObject [], ry_instance = ''s1''\<rparr>]
   \<and> ProtocolCodec_decode demo_gui_codec ''question'' = Inr (new_message QUERY_TASK 1 (wire_form demo_question))"
proof -
  obtain call cl1 where run: "RpcClient_request demo_gui_codec (message_toString QUERY_TASK) demo_question demo_rpc = (call, cl1)" by fastforce
  have differ: "envelope (new_message RESPONSE 1 demo_catalog) \<noteq> rpc_envelope ''query_task'' 1 demo_question"
    by (simp add: envelope_def rpc_envelope_def jobject_def new_message_def)
  have "rp_sequence demo_rpc + 1 = 1" "QUERY_TASK \<noteq> UNKNOWN_MESSAGE" "is_object demo_question"
    "codec_text demo_gui_codec (rpc_envelope (message_toString QUERY_TASK) 1 demo_question)"
    "jdump demo_gui_codec (rpc_envelope (message_toString QUERY_TASK) 1 demo_question) = Some ''question''"
    "length ''question'' \<le> kMaxBodyLenght"
    by (simp_all add: demo_rpc_def demo_question_def codec_text_def demo_gui_codec_def kMaxBodyLenght_def)
  moreover have "is_object demo_catalog" "codec_text demo_gui_codec (envelope (new_message RESPONSE 1 demo_catalog))"
    "ProtocolCodec_encode demo_gui_codec (new_message RESPONSE 1 demo_catalog) = Inr ''catalog''" "''catalog'' \<noteq> []"
    "length ''catalog'' \<le> kMaxBodyLenght"
    using differ by (simp_all add: demo_catalog_def codec_text_def demo_gui_codec_def kMaxBodyLenght_def ProtocolCodec_encode_def)
  moreover have "map_of (members demo_catalog) ''code'' = Some (jint 0)" "map_of (members demo_catalog) ''message'' = Some (JString ''OK'')"
    "map_of (members demo_catalog) ''result'' = Some (JObject [])" "map_of (members demo_catalog) ''server_instance_id'' = Some (JString ''s1'')"
    by (simp_all add: demo_catalog_def map_of_members_jobject)
  moreover have "concat [take 2 (frame ''catalog''), [], drop 2 (frame ''catalog'')] = frame ''catalog''" by simp
  ultimately show ?thesis
    using gui_exchange [OF run, where i = 1 and asked = "''question''" and answer = demo_catalog and reply = "''catalog''" and c = 0
        and reason = "''OK''" and result = "JObject []" and server_instance = "''s1''" and chunks = "[take 2 (frame ''catalog''), [], drop 2 (frame ''catalog'')]"] run by simp
qed

section \<open>Cells\<close>

text \<open>\<^verbatim>\<open>text\<close>: a dash for a value that is missing; a string as it is, any other value as its JSON text.\<close>

definition dash :: string where "dash = [CHR 0xE2, CHR 0x80, CHR 0x94]"

definition cell_text :: "json_codec \<Rightarrow> json \<Rightarrow> string \<Rightarrow> exn + string" where
  "cell_text jc row key =
     (if \<not> is_object row \<or> \<not> contains row key \<or> is_null (jget row key) then Inr dash
      else if is_string (jget row key) then Inr (str_of (jget row key))
      else (case jdump jc (jget row key) of None \<Rightarrow> Inl (Json_error ''invalid UTF-8'') | Some s \<Rightarrow> Inr s))"

definition task_outcome :: "json_codec \<Rightarrow> json \<Rightarrow> exn + string" where
  "task_outcome jc task =
     rbind (cell_text jc task ''status'') (\<lambda>state.
     rbind (if is_object task then Inr (if contains task ''execution'' then jget task ''execution'' else JObject [])
            else Inl (Json_error ''cannot use value()'')) (\<lambda>execution.
     rbind (cell_text jc execution ''case_status'') (\<lambda>business.
       Inr (if state = ''SUCCEEDED'' then (if business = ''PASS'' then ''PASS'' else ''UNKNOWN'')
            else if state = ''FAILED''
            then (if business = ''FAIL'' then ''FAIL'' else if business = ''CRASH'' then ''CRASH'' else ''ERROR'')
            else state))))"

abbreviation quote :: char where "quote \<equiv> CHR 0x22"

definition formula_start :: "char \<Rightarrow> bool" where
  "formula_start ch \<longleftrightarrow> ch \<in> set [CHR ''='', CHR ''+'', CHR ''-'', CHR ''@'', CHR 0x09, CHR 0x0D]"

definition guard_formula :: "string \<Rightarrow> string" where
  "guard_formula v = (if v \<noteq> [] \<and> formula_start (hd v) then CHR 0x27 # v else v)"

definition csvCell :: "string \<Rightarrow> string" where
  "csvCell v = quote # concat (map (\<lambda>ch. if ch = quote then [quote, quote] else [ch]) (guard_formula v)) @ [quote]"

fun csv_join :: "string list \<Rightarrow> string" where
  "csv_join [] = []"
| "csv_join [column] = csvCell column"
| "csv_join (column # columns) = csvCell column @ CHR '','' # csv_join columns"

definition csv_row :: "string list \<Rightarrow> string" where
  "csv_row columns = csv_join columns @ [CHR 0x0D, CHR 0x0A]"

text \<open>A reader of such rows: a quoted field up to its closing quote, and a row of a number of fields.\<close>

fun csv_quoted :: "string \<Rightarrow> string \<times> string" where
  "csv_quoted [] = ([], [])"
| "csv_quoted [ch] = (if ch = quote then ([], []) else ([ch], []))"
| "csv_quoted (ch # d # s) =
     (if ch \<noteq> quote then (case csv_quoted (d # s) of (v, rest) \<Rightarrow> (ch # v, rest))
      else if d = quote then (case csv_quoted s of (v, rest) \<Rightarrow> (quote # v, rest))
      else ([], d # s))"

fun csv_read :: "nat \<Rightarrow> string \<Rightarrow> string list option" where
  "csv_read 0 s = None"
| "csv_read (Suc n) s =
     (case s of
        [] \<Rightarrow> None
      | q # s1 \<Rightarrow>
          if q \<noteq> quote then None
          else
            (case csv_quoted s1 of (v, rest) \<Rightarrow>
               if n = 0 then (if rest = [CHR 0x0D, CHR 0x0A] then Some [v] else None)
               else (case rest of
                       [] \<Rightarrow> None
                     | comma # rest1 \<Rightarrow> if comma = CHR '','' then map_option ((#) v) (csv_read n rest1) else None)))"

lemma csv_quoted_escaped:
  assumes "rest \<noteq> []" and "hd rest \<noteq> quote"
  shows "csv_quoted (concat (map (\<lambda>ch. if ch = quote then [quote, quote] else [ch]) v) @ quote # rest) = (v, rest)"
proof (induction v)
  case Nil
  then show ?case using assms by (cases rest) auto
next
  case (Cons ch v)
  let ?e = "concat (map (\<lambda>ch. if ch = quote then [quote, quote] else [ch]) v) @ quote # rest"
  obtain d s where "?e = d # s" by (cases ?e) auto
  with Cons show ?case by auto
qed

lemma csv_read_cell:
  assumes "rest \<noteq> []" and "hd rest \<noteq> quote"
  shows "csv_read (Suc n) (csvCell v @ rest) =
     (if n = 0 then (if rest = [CHR 0x0D, CHR 0x0A] then Some [guard_formula v] else None)
      else if hd rest = CHR '','' then map_option ((#) (guard_formula v)) (csv_read n (List.tl rest)) else None)"
  using csv_quoted_escaped [OF assms, of "guard_formula v"] assms by (cases rest) (simp_all add: csvCell_def)

text \<open>
  Exported rows are safe and whole: a reader gets back exactly the cells of a row, whatever quotes, commas or line
  breaks they hold, and no cell begins as a formula of a spreadsheet.
\<close>

theorem csv_row_roundtrip:
  assumes "columns \<noteq> []"
  shows "csv_read (length columns) (csv_row columns) = Some (map guard_formula columns)
     \<and> (\<forall>v \<in> set (map guard_formula columns). v = [] \<or> \<not> formula_start (hd v))"
proof
  show "csv_read (length columns) (csv_row columns) = Some (map guard_formula columns)"
    using assms unfolding csv_row_def
  proof (induction columns rule: csv_join.induct)
    case (2 column)
    show ?case using csv_read_cell [of "[CHR 0x0D, CHR 0x0A]" 0 column] by simp
  next
    case (3 column c columns)
    then show ?case
      using csv_read_cell [of "CHR '','' # csv_join (c # columns) @ [CHR 0x0D, CHR 0x0A]" "length (c # columns)" column]
      by (simp del: csv_read.simps)
  qed simp
  show "\<forall>v \<in> set (map guard_formula columns). v = [] \<or> \<not> formula_start (hd v)"
    by (auto simp: guard_formula_def formula_start_def)
qed

end
