(* ===== verification/Spec2Isabelle.thy ===== *)
theory Spec2Isabelle
  imports Guarantees Coherence ProgressFacts Streams DtoFacts RouterFacts ListPages ServerFacts Loops Node Gui
begin

text \<open>
  The GCRP scheduling server (\<^verbatim>\<open>src/server\<close>, \<^verbatim>\<open>src/common\<close>): a TCP server to which workers register
  and clients submit regression tasks. Tasks wait in a priority queue; a scheduling pass assigns
  them to workers with free slots; the assignments are sent over the workers' connections; workers
  report start and result; a SQLite database makes tasks, runs and submissions durable, so that a
  restarted server continues. Queries list tasks, progress, regressions, logs and a catalog.

  \<^bold>\<open>Theories and the code they model.\<close>

  \<^item> \<open>Prelude\<close>: named collections, the result type, ordered and unordered maps as the containers of
    the C++ library (locale \<open>map_container\<close>, interpreted for both), word and list lemmas.
  \<^item> \<open>Json\<close>: \<^verbatim>\<open>nlohmann::json\<close> as a datatype with the accessors the code uses; parsing and printing are
    a parameter (\<open>json_codec\<close>).
  \<^item> \<open>Task\<close>, \<open>Worker\<close>: \<^verbatim>\<open>common/src/Task.cpp\<close>, \<^verbatim>\<open>Worker.cpp\<close>, the records and the status automaton.
  \<^item> \<open>StateStore\<close>: \<^verbatim>\<open>StateStore.cpp\<close>, the tables, each SQL statement as what it does to them, and the
    write transaction with constraints, faults and rollback (locale \<open>durable_store\<close>).
  \<^item> \<open>WorkerManager\<close>: \<^verbatim>\<open>WorkerManager.cpp\<close>, registration, liveness, slots (locale \<open>slot_provider\<close>),
    controls of machines.
  \<^item> \<open>Scheduler\<close>: \<^verbatim>\<open>Scheduler.cpp\<close>, every operation over the record \<open>sys\<close> of scheduler, worker manager
    and store. \<open>SchedulerInv\<close>, \<open>SchedulePass\<close>: its invariant \<open>sched_inv\<close> and that every operation keeps
    it. \<open>System\<close>: the step relation \<open>sys_step\<close> and \<open>reachable\<close>; \<open>TaskHistory\<close>, \<open>Lifecycle\<close>, \<open>Guarantees\<close>:
    what holds of every reachable state and of every operation in one. \<open>Demo\<close>: concrete states.
  \<^item> \<open>Framing\<close>, \<open>Connection\<close>, \<open>Streams\<close>: \<^verbatim>\<open>Buffer.cpp\<close> (locale \<open>byte_queue\<close>), \<^verbatim>\<open>Message_codec.cpp\<close>,
    \<^verbatim>\<open>Connection.cpp\<close> and \<^verbatim>\<open>EchoServer::onMessage\<close> (locale \<open>message_sink\<close>): reading and writing turns
    against a scripted kernel, the inbound queue, and step relations for the interleavings.
  \<^item> \<open>Protocol\<close>, \<open>Dto\<close>, \<open>DtoFacts\<close>: message types, roles, the envelope and the request objects
    (\<^verbatim>\<open>ProtocolCodec.cpp\<close>, \<^verbatim>\<open>MessageType.cpp\<close>, \<^verbatim>\<open>TaskDTO.cpp\<close>, \<^verbatim>\<open>WorkerDTO.cpp\<close>, \<^verbatim>\<open>RegressionPayload.h\<close>).
  \<^item> \<open>Registry\<close>, \<open>Driver\<close>, \<open>Dispatch\<close>: \<^verbatim>\<open>WorkerConnectionRegistry.cpp\<close> (locale \<open>binding_table\<close>),
    \<^verbatim>\<open>SchedulingDriver.cpp\<close> as a step relation over its requesters, \<^verbatim>\<open>NetworkWorkerDispatcher.cpp\<close> and
    \<^verbatim>\<open>SchedulingCoordinator.cpp\<close> (locale \<open>worker_dispatcher\<close>).
  \<^item> \<open>Archive\<close>, \<open>Service\<close>, \<open>Queries\<close>, \<open>ListPages\<close>, \<open>Progress\<close>, \<open>ProgressFacts\<close>, \<open>Regression\<close>, \<open>Coherence\<close>,
    \<open>Catalog\<close>: \<^verbatim>\<open>RunLogArchive.cpp\<close>, \<^verbatim>\<open>TaskService.cpp\<close>, \<^verbatim>\<open>ApiQueries.h\<close>, \<^verbatim>\<open>TaskListQuery.h\<close>,
    \<^verbatim>\<open>ProgressService.cpp\<close>, \<^verbatim>\<open>RegressionService.cpp\<close>, \<^verbatim>\<open>GuiCatalog.cpp\<close>.
  \<^item> \<open>Router\<close>, \<open>RouterFacts\<close>, \<open>RouterReach\<close>: \<^verbatim>\<open>ProtocolRouter.cpp\<close>, every handler over the record \<open>host\<close>.
  \<^item> \<open>Session\<close>, \<open>Server\<close>, \<open>ServerFacts\<close>: \<^verbatim>\<open>WorkerSession.cpp\<close>, \<^verbatim>\<open>ConnectionSession.cpp\<close>,
    \<^verbatim>\<open>WorkerServer.cpp\<close>; the server as the step relation \<open>server_step\<close> over its callbacks and threads.
  \<^item> \<open>Timers\<close>: \<^verbatim>\<open>EventLoop.cpp\<close>, the timers of a loop and its queue of functions, as the step relation
    \<open>loop_step\<close> over callers, callbacks and the loop's own turns.
  \<^item> \<open>Loops\<close>: the rest of \<^verbatim>\<open>EventLoop.cpp\<close>, waiting, wakeups, descriptors and callbacks, as the step relation
    \<open>el_step\<close> over the moves of the loop's thread and of others; and \<^verbatim>\<open>Acceptor.cpp\<close>.
  \<^item> \<open>Metrics\<close>, \<open>Transport\<close>, \<open>TransportFacts\<close>: \<^verbatim>\<open>ServerMetrics.cpp\<close> and \<^verbatim>\<open>EchoServer.cpp\<close>, accepting, events,
    closing and shutting down as functions queued in event loops (\<open>job\<close>), with the step relation
    \<open>transport_step\<close> over loops, pool and other threads.
  \<^item> \<open>Pool\<close>: \<^verbatim>\<open>Thread_pool.cpp\<close> with its mutex and condition variable as the step relation \<open>pool_step\<close>, and
    \<^verbatim>\<open>EventLoopThreadPool.cpp\<close>.
  \<^item> \<open>Startup\<close>: \<^verbatim>\<open>main.cpp\<close>, the settings of the server and how its parts are put together, up to the point where the
    main loop turns: opening the database, the descriptors of the kernel and listening, each with its failure. \<open>Node\<close>: the
    running server, transport and \<open>WorkerServer\<close> joined by the callbacks of \<^verbatim>\<open>attach\<close>.
  \<^item> \<open>Client\<close>, \<open>ClientFacts\<close>: \<^verbatim>\<open>GcrpClient.cpp\<close> and \<^verbatim>\<open>GcrpClientMain.cpp\<close>, one request on one connection and
    the command line that builds it. \<open>Gui\<close>: \<^verbatim>\<open>RpcClient.cpp\<close> of the Qt client as a state machine over the signals
    of its socket, and the exported cells of \<^verbatim>\<open>ConsoleSupport.h\<close>.
  \<^item> \<open>Config\<close>: \<^verbatim>\<open>Config.cpp\<close>, the configuration file and the settings read from it.

  \<^bold>\<open>How they fit.\<close> A message arrives at \<open>server_message\<close>, goes to its session
  (\<open>session_onMessage\<close>), from there to the router (\<open>router_handle\<close>) and to the service, the scheduler or
  a query; a pass is asked of the driver, run by the coordinator and sent by the dispatcher through
  the registry to a connection. The theorem \<open>server_runs_scheduler\<close> ties the layers: every state of
  the server is one the scheduler's own operations reach, so the guarantees about reachable
  states (slots, queue, order, quarantine, durability, legal moves) are guarantees of the server.

  \<^bold>\<open>What is shown.\<close> Invariants of every reachable state (slots are exactly the running tasks; every
  waiting task is queued exactly once; sessions are the transport's open connections and the registry binds registered ones); a pass is legal, ordered,
  work-conserving and exception-safe; submissions are durable and idempotent; completions count
  once; stale reports and stale closes are harmless; requests for passes are never lost under any
  interleaving; bytes and messages keep their order and their bounds; decoders equal reference
  parsers and round trips hold; log uploads are resumable; paging yields one snapshot whole or an error, and ends; the cache
  of regression answers is invisible but for rollbacks abandoned after their write; the rollback report is exact; timers fire rightly and are
  never missed; a loop runs every function queued, in order, and sleeps only when there is nothing
  to do; connections are announced in pairs and counted, and a shutdown completes, but for
  connections whose accepting function had passed the check before it;
  the thread pool loses no wakeup and runs every task; a server starts exactly when its settings, its database and the
  kernel allow it, and is then in a state from which all of this holds; a client's request is the one the server decodes and its answer the one the
  client returns, for the command line and for the GUI.

  \<^bold>\<open>Effects and errors.\<close> Stateful code is state passing; an operation that may throw returns
  \<open>exn + 'a\<close> with the state it leaves behind. Machine integers are words; ids, counters and
  generations wrap as in the code, and theorems that need it bound them (\<open>room\<close>, \<open>core_room\<close>:
  fewer than 2^63 sequence numbers are used). All loops are structural or over finite scripts,
  so nothing needs fuel.

  \<^bold>\<open>Assumptions.\<close> Write transactions may fail (the fault script of the store); reads of the database
  do not fail, apart from rows that do not decode; the clock reads of one save or one handler
  coincide where the code reads it twice in a row (a pass reads it per task, as a parameter);
  memory is not exhausted; the heap serves entries that compare equal in the order of insertion;
  JSON text is a parameter, with the round trip as a named hypothesis where it is needed; the
  kernel is a script of results of \<^verbatim>\<open>recv\<close>, \<^verbatim>\<open>send\<close> and \<^verbatim>\<open>accept\<close> and of the calls made at the start, and reports events only of descriptors
  it watches; session callbacks are serialised by the
  server's mutex, as the code does; files of the archive and of the catalog are parameters.

  \<^bold>\<open>Not modelled.\<close> The threads around the loops, the logger, the legacy echo
  client and the load generator (I/O around the logic above); the
  widgets of the Qt client and the Python tools (presentation, and another language).
\<close>

end
